(* ===== verification/Prelude.thy ===== *)
theory Prelude
  imports Main "HOL-Library.AList"
begin

text \<open>
  Shared vocabulary of the development: the JavaScript containers the code uses
  (an insertion-ordered \<open>Map\<close>, a \<open>Set\<close> spread into an array), the string
  operations of the standard library it calls, and the generic lemmas the component
  theories rely on. A \<open>Map\<close> is an association list with distinct keys:
  \<open>set\<close> on a present key keeps its position, on an absent one appends, and iteration
  runs in list order, so "least recently inserted" is the head of the list.
  Strings are \<open>string\<close>: every character is one UTF-16 code unit below 256, which is
  what Node hands over for request targets and header values (both decoded as Latin-1).
  Where the code looks at wider characters a component says so and uses code points.
\<close>

named_theorems jm_simps \<open>equations for lookups and keys of insertion-ordered maps\<close>
named_theorems inv_intros \<open>preservation of a component's invariant by its operations\<close>

section \<open>Insertion-ordered maps\<close>

type_synonym ('k, 'v) jsmap = "('k \<times> 'v) list"

definition jm_get :: "('k, 'v) jsmap \<Rightarrow> 'k \<Rightarrow> 'v option" where
  "jm_get m k = map_of m k"

definition jm_set :: "'k \<Rightarrow> 'v \<Rightarrow> ('k, 'v) jsmap \<Rightarrow> ('k, 'v) jsmap" where
  "jm_set k v m = AList.update k v m"

definition jm_delete :: "'k \<Rightarrow> ('k, 'v) jsmap \<Rightarrow> ('k, 'v) jsmap" where
  "jm_delete k m = AList.delete k m"

definition jm_keys :: "('k, 'v) jsmap \<Rightarrow> 'k list" where
  "jm_keys m = map fst m"

definition jm_ok :: "('k, 'v) jsmap \<Rightarrow> bool" where
  "jm_ok m \<longleftrightarrow> distinct (jm_keys m)"

lemma jm_get_Nil [simp]: "jm_get [] k = None"
  by (simp add: jm_get_def)

lemma jm_get_Cons [simp]: "jm_get ((a, v) # m) k = (if a = k then Some v else jm_get m k)"
  by (simp add: jm_get_def)

lemma jm_get_set [jm_simps]: "jm_get (jm_set k v m) k' = (if k = k' then Some v else jm_get m k')"
  by (simp add: jm_get_def jm_set_def update_conv')

lemma jm_get_delete [jm_simps]: "jm_get (jm_delete k m) k' = (if k = k' then None else jm_get m k')"
  by (simp add: jm_get_def jm_delete_def delete_conv')

lemma jm_get_None_iff: "jm_get m k = None \<longleftrightarrow> k \<notin> set (jm_keys m)"
  by (simp add: jm_get_def jm_keys_def map_of_eq_None_iff)

lemma jm_get_SomeD: "jm_get m k = Some v \<Longrightarrow> k \<in> set (jm_keys m)"
  using jm_get_None_iff [of m k] by auto

lemma jm_get_in: "jm_get m k = Some v \<Longrightarrow> (k, v) \<in> set m"
  by (simp add: jm_get_def map_of_SomeD)

lemma jm_in_get: "jm_ok m \<Longrightarrow> (k, v) \<in> set m \<Longrightarrow> jm_get m k = Some v"
  by (simp add: jm_get_def jm_ok_def jm_keys_def)

lemma jm_keys_set [jm_simps]: "set (jm_keys (jm_set k v m)) = insert k (set (jm_keys m))"
proof -
  have "fst ` set (AList.update k v m) = dom (map_of (AList.update k v m))"
    by (simp add: dom_map_of_conv_image_fst)
  also have "\<dots> = insert k (dom (map_of m))" by (simp add: update_conv')
  also have "\<dots> = insert k (fst ` set m)" by (simp add: dom_map_of_conv_image_fst)
  finally show ?thesis by (simp add: jm_keys_def jm_set_def)
qed

lemma jm_keys_delete [jm_simps]: "set (jm_keys (jm_delete k m)) = set (jm_keys m) - {k}"
  by (auto simp: jm_keys_def jm_delete_def AList.delete_eq)

lemma jm_set_absent: "jm_get m k = None \<Longrightarrow> jm_set k v m = m @ [(k, v)]"
  unfolding jm_get_def jm_set_def by (induction m) auto

lemma jm_length_set [jm_simps]:
  "length (jm_set k v m) = (if jm_get m k = None then Suc (length m) else length m)"
  unfolding jm_get_def jm_set_def by (induction m) auto

lemma jm_length_delete_le: "length (jm_delete k m) \<le> length m"
  by (simp add: jm_delete_def AList.delete_eq)

lemma jm_delete_absent: "jm_get m k = None \<Longrightarrow> jm_delete k m = m"
  by (simp add: jm_delete_def jm_get_None_iff jm_keys_def)

lemma jm_length_delete:
  "jm_ok m \<Longrightarrow> length (jm_delete k m) = (if jm_get m k = None then length m else length m - 1)"
proof (induction m)
  case Nil
  then show ?case by (simp add: jm_delete_def)
next
  case (Cons p m)
  obtain a v where p: "p = (a, v)" by (cases p)
  show ?case
  proof (cases "a = k")
    case True
    then have "jm_get m k = None" using Cons.prems p
      by (auto simp: jm_ok_def jm_keys_def jm_get_None_iff)
    then have "jm_delete k m = m" by (rule jm_delete_absent)
    then show ?thesis using True p by (simp add: jm_delete_def AList.delete_eq)
  next
    case False
    have "jm_ok m" using Cons.prems by (simp add: jm_ok_def jm_keys_def)
    then have IH: "length (jm_delete k m) = (if jm_get m k = None then length m else length m - 1)"
      by (rule Cons.IH)
    have "jm_get m k \<noteq> None \<Longrightarrow> length m > 0" by (cases m) auto
    with IH False p show ?thesis by (auto simp: jm_delete_def AList.delete_eq)
  qed
qed

lemma jm_ok_Nil [simp, inv_intros]: "jm_ok []"
  by (simp add: jm_ok_def jm_keys_def)

lemma jm_ok_set [inv_intros]: "jm_ok m \<Longrightarrow> jm_ok (jm_set k v m)"
  by (simp add: jm_ok_def jm_keys_def jm_set_def distinct_update)

lemma jm_ok_delete [inv_intros]: "jm_ok m \<Longrightarrow> jm_ok (jm_delete k m)"
  by (simp add: jm_ok_def jm_keys_def jm_delete_def AList.delete_eq distinct_map_filter)

lemma jm_ok_filter [inv_intros]: "jm_ok m \<Longrightarrow> jm_ok (filter P m)"
  by (simp add: jm_ok_def jm_keys_def distinct_map_filter)

lemma jm_ok_tl: "jm_ok (p # m) \<Longrightarrow> jm_ok m"
  by (simp add: jm_ok_def jm_keys_def)

lemma jm_get_filter:
  "jm_ok m \<Longrightarrow> jm_get (filter (\<lambda>(k, v). P k v) m) k =
     (case jm_get m k of None \<Rightarrow> None | Some v \<Rightarrow> if P k v then Some v else None)"
proof (induction m)
  case Nil
  then show ?case by simp
next
  case (Cons p m)
  obtain a v where p: "p = (a, v)" by (cases p)
  have ok: "jm_ok m" using Cons.prems by (rule jm_ok_tl)
  show ?case
  proof (cases "a = k")
    case True
    then have "jm_get m k = None" using Cons.prems p
      by (auto simp: jm_ok_def jm_keys_def jm_get_None_iff)
    then show ?thesis using Cons.IH [OF ok] True p by auto
  next
    case False
    then show ?thesis using Cons.IH [OF ok] p by auto
  qed
qed

lemma jm_keys_filter_subset: "set (jm_keys (filter P m)) \<subseteq> set (jm_keys m)"
  by (auto simp: jm_keys_def)

text \<open>A map is used through these equations only; the representation stays folded.\<close>

lemmas jm_rules = jm_get_set jm_get_delete jm_keys_set jm_keys_delete jm_length_set

text \<open>Re-inserting a key moves it to the end: the order of last activity the code keeps.\<close>

definition jm_touch :: "'k \<Rightarrow> 'v \<Rightarrow> ('k, 'v) jsmap \<Rightarrow> ('k, 'v) jsmap" where
  "jm_touch k v m = jm_set k v (jm_delete k m)"

lemma jm_touch_last: "jm_touch k v m = jm_delete k m @ [(k, v)]"
  by (simp add: jm_touch_def jm_set_absent jm_get_delete)

lemma jm_get_touch [jm_simps]: "jm_get (jm_touch k v m) k' = (if k = k' then Some v else jm_get m k')"
  by (simp add: jm_touch_def jm_simps)

lemma jm_keys_touch [jm_simps]: "set (jm_keys (jm_touch k v m)) = insert k (set (jm_keys m))"
  by (auto simp: jm_touch_def jm_simps)

lemma jm_ok_touch [inv_intros]: "jm_ok m \<Longrightarrow> jm_ok (jm_touch k v m)"
  by (simp add: jm_touch_def inv_intros)

lemma jm_length_touch_present:
  "jm_ok m \<Longrightarrow> jm_get m k \<noteq> None \<Longrightarrow> length (jm_touch k v m) = length m"
  by (cases m) (auto simp: jm_touch_last jm_length_delete)

section \<open>Arrays and sets\<close>

text \<open>\<open>[...new Set(xs)]\<close>: the distinct elements in order of first occurrence.\<close>

fun js_unique_from :: "'a list \<Rightarrow> 'a list \<Rightarrow> 'a list" where
  "js_unique_from seen [] = []"
| "js_unique_from seen (x # xs) =
     (if x \<in> set seen then js_unique_from seen xs else x # js_unique_from (x # seen) xs)"

definition js_unique :: "'a list \<Rightarrow> 'a list" where
  "js_unique xs = js_unique_from [] xs"

lemma set_js_unique_from: "set (js_unique_from seen xs) = set xs - set seen"
  by (induction xs arbitrary: seen) auto

lemma distinct_js_unique_from: "distinct (js_unique_from seen xs)"
  by (induction xs arbitrary: seen) (auto simp: set_js_unique_from)

lemma set_js_unique [simp]: "set (js_unique xs) = set xs"
  by (simp add: js_unique_def set_js_unique_from)

lemma distinct_js_unique [simp]: "distinct (js_unique xs)"
  by (simp add: js_unique_def distinct_js_unique_from)

lemma js_unique_Nil_iff [simp]: "js_unique xs = [] \<longleftrightarrow> xs = []"
  by (metis set_empty2 set_js_unique)

lemma js_unique_from_disjoint: "distinct xs \<Longrightarrow> set xs \<inter> set seen = {} \<Longrightarrow> js_unique_from seen xs = xs"
  by (induction xs arbitrary: seen) auto

lemma js_unique_distinct_id [simp]: "distinct xs \<Longrightarrow> js_unique xs = xs"
  by (simp add: js_unique_def js_unique_from_disjoint)

lemma length_js_unique_le: "length (js_unique xs) \<le> length xs"
  by (metis distinct_card distinct_js_unique card_length set_js_unique)

end
