(* ===== verification/JsString.thy ===== *)
theory JsString
  imports Prelude "HOL-Library.Char_ord"
begin

text \<open>
  The string operations of the JavaScript standard library the code calls, on strings of
  Latin-1 code units: \<open>split\<close> and \<open>join\<close> on one separator, \<open>startsWith\<close>, \<open>trim\<close>,
  \<open>toLowerCase\<close>, \<open>includes\<close>, decimal digits, and the route patterns the BFF writes as
  regular expressions of literal segments and \<open>[^/]+\<close> wildcards.
\<close>

section \<open>Splitting and joining\<close>

fun split_on :: "'a \<Rightarrow> 'a list \<Rightarrow> 'a list list" where
  "split_on c [] = [[]]"
| "split_on c (x # xs) =
     (if x = c then [] # split_on c xs
      else case split_on c xs of [] \<Rightarrow> [[x]] | s # ss \<Rightarrow> (x # s) # ss)"

fun join_with :: "'a \<Rightarrow> 'a list list \<Rightarrow> 'a list" where
  "join_with c [] = []"
| "join_with c [s] = s"
| "join_with c (s # ss) = s @ c # join_with c ss"

lemma split_on_not_Nil [simp]: "split_on c s \<noteq> []"
  by (induction s) (auto split: list.splits)

lemma split_on_pieces: "p \<in> set (split_on c s) \<Longrightarrow> c \<notin> set p"
proof (induction s arbitrary: p)
  case Nil
  then show ?case by simp
next
  case (Cons x xs)
  then show ?case by (cases "split_on c xs") (auto split: if_splits)
qed

lemma join_split [simp]: "join_with c (split_on c s) = s"
proof (induction s)
  case Nil
  then show ?case by simp
next
  case (Cons x xs)
  obtain p ps where "split_on c xs = p # ps" by (cases "split_on c xs") auto
  then show ?case using Cons by (cases ps) auto
qed

lemma split_on_free: "c \<notin> set s \<Longrightarrow> split_on c s = [s]"
  by (induction s) auto

lemma split_on_append: "c \<notin> set s \<Longrightarrow> split_on c (s @ c # t) = s # split_on c t"
  by (induction s) auto

lemma split_join:
  "ss \<noteq> [] \<Longrightarrow> \<forall>s \<in> set ss. c \<notin> set s \<Longrightarrow> split_on c (join_with c ss) = ss"
  by (induction ss rule: join_with.induct) (auto simp: split_on_free split_on_append)

lemma split_on_eq_iff:
  "split_on c s = ss \<longleftrightarrow> ss \<noteq> [] \<and> (\<forall>p \<in> set ss. c \<notin> set p) \<and> s = join_with c ss"
  using split_join split_on_pieces join_split split_on_not_Nil by metis

section \<open>Prefixes, trimming, case\<close>

definition starts_with :: "string \<Rightarrow> string \<Rightarrow> bool" where
  "starts_with p s \<longleftrightarrow> take (length p) s = p"

definition ends_with :: "string \<Rightarrow> string \<Rightarrow> bool" where
  "ends_with p s \<longleftrightarrow> starts_with (rev p) (rev s)"

lemma starts_with_iff: "starts_with p s \<longleftrightarrow> (\<exists>t. s = p @ t)"
  unfolding starts_with_def by (metis append_eq_conv_conj append_take_drop_id)

lemma starts_with_append [simp]: "starts_with p (p @ t)"
  by (simp add: starts_with_def)

definition white_space :: "char \<Rightarrow> bool" where
  "white_space c \<longleftrightarrow> of_char c \<in> {9, 10, 11, 12, 13, 32, 160 :: nat}"

definition js_trim :: "string \<Rightarrow> string" where
  "js_trim s = rev (dropWhile white_space (rev (dropWhile white_space s)))"

lemma js_trim_set: "set (js_trim s) \<subseteq> set s"
  by (auto simp: js_trim_def dest!: set_dropWhileD)

lemma dropWhile_none: "\<forall>c \<in> set s. \<not> P c \<Longrightarrow> dropWhile P s = s"
  by (cases s) auto

lemma js_trim_free: "\<forall>c \<in> set s. \<not> white_space c \<Longrightarrow> js_trim s = s"
  by (simp add: js_trim_def dropWhile_none)

definition lower_char :: "char \<Rightarrow> char" where
  "lower_char c =
     (let n = (of_char c :: nat) in
      if (65 \<le> n \<and> n \<le> 90) \<or> (192 \<le> n \<and> n \<le> 222 \<and> n \<noteq> 215) then char_of (n + 32) else c)"

definition js_lower :: "string \<Rightarrow> string" where
  "js_lower s = map lower_char s"

definition digit :: "char \<Rightarrow> bool" where
  "digit c \<longleftrightarrow> 48 \<le> (of_char c :: nat) \<and> (of_char c :: nat) \<le> 57"

definition digit_value :: "char \<Rightarrow> nat" where
  "digit_value c = of_char c - 48"

definition decimal :: "string \<Rightarrow> nat" where
  "decimal s = foldl (\<lambda>n c. 10 * n + digit_value c) 0 s"

text \<open>\<open>String(n)\<close> of a natural number, read back by \<open>decimal\<close>.\<close>

fun show_nat :: "nat \<Rightarrow> string" where
  "show_nat n = (if n < 10 then [char_of (48 + n)] else show_nat (n div 10) @ [char_of (48 + n mod 10)])"

declare show_nat.simps [simp del]

lemma digit_char_of: "k < 10 \<Longrightarrow> digit (char_of (48 + k)) \<and> digit_value (char_of (48 + k)) = k"
  by (simp add: digit_def digit_value_def)

lemma decimal_append_digit: "decimal (s @ [c]) = 10 * decimal s + digit_value c"
  by (simp add: decimal_def)

lemma decimal_show_nat [simp]: "decimal (show_nat n) = n"
proof (induction n rule: show_nat.induct)
  case (1 n)
  show ?case
  proof (cases "n < 10")
    case True
    then show ?thesis using digit_char_of [of n] by (simp add: show_nat.simps [of n] decimal_def)
  next
    case False
    then show ?thesis using 1 digit_char_of [of "n mod 10"]
      by (simp add: show_nat.simps [of n] decimal_append_digit)
  qed
qed

lemma digits_show_nat: "list_all digit (show_nat n) \<and> show_nat n \<noteq> []"
proof (induction n rule: show_nat.induct)
  case (1 n)
  then show ?case using digit_char_of [of n] digit_char_of [of "n mod 10"]
    by (cases "n < 10") (simp_all add: show_nat.simps [of n])
qed

definition letter :: "char \<Rightarrow> bool" where
  "letter c \<longleftrightarrow> (65 \<le> (of_char c :: nat) \<and> (of_char c :: nat) \<le> 90) \<or>
                  (97 \<le> (of_char c :: nat) \<and> (of_char c :: nat) \<le> 122)"

section \<open>Route patterns\<close>

text \<open>A pattern such as \<open>^/consumers/[^/]+/credentials/[^/]+/?$\<close> is a list of segments and
  whether one trailing slash is allowed.\<close>

datatype seg_pat = Lit string | Wild

fun segs_match :: "seg_pat list \<Rightarrow> string list \<Rightarrow> bool" where
  "segs_match [] [] = True"
| "segs_match (Lit a # ps) (s # ss) = (s = a \<and> segs_match ps ss)"
| "segs_match (Wild # ps) (s # ss) = (s \<noteq> [] \<and> segs_match ps ss)"
| "segs_match _ _ = False"

definition path_match :: "seg_pat list \<Rightarrow> bool \<Rightarrow> string \<Rightarrow> bool" where
  "path_match pats slash path =
     (case split_on CHR ''/'' path of
        [] # segs \<Rightarrow> segs_match pats segs \<or> (slash \<and> segs \<noteq> [] \<and> last segs = [] \<and> segs_match pats (butlast segs))
      | _ \<Rightarrow> False)"

lemma segs_match_length: "segs_match ps ss \<Longrightarrow> length ss = length ps"
  by (induction ps ss rule: segs_match.induct) auto

lemma segs_match_lits: "segs_match (map Lit as) ss \<longleftrightarrow> ss = as"
proof (induction as arbitrary: ss)
  case Nil
  then show ?case by (cases ss) auto
next
  case (Cons a as)
  then show ?case by (cases ss) auto
qed

end
