(* ===== verification/AuthThrottle.thy ===== *)
theory AuthThrottle
  imports Prelude
begin

text \<open>
  The failed-authentication throttle of \<open>server/auth-throttle.ts\<close>. The class instance
  is the record \<open>throttle\<close> (two ordered tables and the shared overflow entry), its
  constructor options the record \<open>throttle_options\<close>, and every method a function that
  returns the new state. \<open>Date.now()\<close> is an argument: a method that reads the clock
  twice takes two times. Times are milliseconds in \<open>int\<close>; \<open>lockout_is_safe_integer\<close>
  shows that the doubled lockout stays below \<open>2^53\<close> for every accepted configuration,
  so JavaScript's doubles compute exactly these integers.
\<close>

section \<open>State\<close>

record throttle_options =
  max_failures :: nat
  window_ms :: int
  lockout_ms :: int
  max_lockout_ms :: int
  max_keys :: nat
  max_trusted_keys :: nat

record entry =
  failures :: "int list"
  locked_until :: int
  lockouts :: nat

record failure_outcome =
  out_failures :: nat
  locked_for_ms :: "int option"
  overflowed :: bool

record throttle =
  entries :: "(string, entry) jsmap"
  trusted :: "(string, entry) jsmap"
  overflow :: entry

definition new_entry :: entry where
  "new_entry = \<lparr>failures = [], locked_until = 0, lockouts = 0\<rparr>"

definition new_throttle :: throttle where
  "new_throttle = \<lparr>entries = [], trusted = [], overflow = new_entry\<rparr>"

section \<open>Operations\<close>

definition enabled :: "throttle_options \<Rightarrow> bool" where
  "enabled opt \<longleftrightarrow> max_failures opt > 0"

definition is_stale :: "throttle_options \<Rightarrow> entry \<Rightarrow> int \<Rightarrow> bool" where
  "is_stale opt e now \<longleftrightarrow>
     locked_until e \<le> now \<and>
     (failures e = [] \<or> now - last (failures e) \<ge> window_ms opt) \<and>
     now - locked_until e \<ge> max_lockout_ms opt"

definition refresh :: "throttle_options \<Rightarrow> entry \<Rightarrow> int \<Rightarrow> entry" where
  "refresh opt e now = (if is_stale opt e now then new_entry else e)"

definition lockout_length :: "throttle_options \<Rightarrow> nat \<Rightarrow> int" where
  "lockout_length opt n = min (lockout_ms opt * 2 ^ min n 30) (max_lockout_ms opt)"

definition count :: "throttle_options \<Rightarrow> entry \<Rightarrow> int \<Rightarrow> entry \<times> failure_outcome" where
  "count opt e now =
     (let fs = filter (\<lambda>at. now - at < window_ms opt) (failures e) @ [now] in
      if length fs \<ge> max_failures opt
      then let lockout = lockout_length opt (lockouts e) in
        (\<lparr>failures = [], locked_until = now + lockout, lockouts = Suc (lockouts e)\<rparr>,
         \<lparr>out_failures = length fs, locked_for_ms = Some lockout, overflowed = False\<rparr>)
      else (e\<lparr>failures := fs\<rparr>,
         \<lparr>out_failures = length fs, locked_for_ms = None, overflowed = False\<rparr>))"

definition drop_stale :: "throttle_options \<Rightarrow> int \<Rightarrow> throttle \<Rightarrow> throttle" where
  "drop_stale opt now t =
     t\<lparr>entries := filter (\<lambda>(k, e). \<not> is_stale opt e now) (entries t)\<rparr>"

text \<open>\<open>copyOfOverflow\<close> refreshes the overflow entry in place, then copies it.\<close>

definition copy_of_overflow :: "throttle_options \<Rightarrow> int \<Rightarrow> throttle \<Rightarrow> entry \<times> throttle" where
  "copy_of_overflow opt now t =
     (let e = refresh opt (overflow t) now in (e, t\<lparr>overflow := e\<rparr>))"

text \<open>\<open>this.trusted.get(key) ?? this.entries.get(key)\<close>: the entry a key answers for.\<close>

definition own_entry :: "throttle \<Rightarrow> string \<Rightarrow> entry option" where
  "own_entry t k =
     (case jm_get (trusted t) k of Some e \<Rightarrow> Some e | None \<Rightarrow> jm_get (entries t) k)"

definition locked_for :: "throttle_options \<Rightarrow> throttle \<Rightarrow> string \<Rightarrow> int \<Rightarrow> int" where
  "locked_for opt t k now =
     (if \<not> enabled opt then 0
      else max 0 (locked_until (case own_entry t k of Some e \<Rightarrow> e | None \<Rightarrow> overflow t) - now))"

definition record_failure ::
  "throttle_options \<Rightarrow> int \<Rightarrow> string \<Rightarrow> throttle \<Rightarrow> throttle \<times> failure_outcome" where
  "record_failure opt now k t =
     (if \<not> enabled opt
      then (t, \<lparr>out_failures = 0, locked_for_ms = None, overflowed = False\<rparr>)
      else case jm_get (trusted t) k of
        Some e \<Rightarrow>
          (let (e', r) = count opt (refresh opt e now) now in
           (t\<lparr>trusted := jm_set k e' (trusted t)\<rparr>, r))
      | None \<Rightarrow>
          (case jm_get (entries t) k of
             Some e \<Rightarrow>
               (let (e', r) = count opt (refresh opt e now) now in
                (t\<lparr>entries := jm_touch k e' (entries t)\<rparr>, r))
           | None \<Rightarrow>
               (let t1 = (if length (entries t) \<ge> max_keys opt then drop_stale opt now t else t) in
                if length (entries t1) < max_keys opt
                then let (c, t2) = copy_of_overflow opt now t1; (e', r) = count opt c now in
                  (t2\<lparr>entries := jm_set k e' (entries t2)\<rparr>, r)
                else let (e', r) = count opt (refresh opt (overflow t1) now) now in
                  (t1\<lparr>overflow := e'\<rparr>, r\<lparr>overflowed := True\<rparr>))))"

definition make_trusted_room ::
  "throttle_options \<Rightarrow> int \<Rightarrow> string \<Rightarrow> throttle \<Rightarrow> bool \<times> throttle" where
  "make_trusted_room opt now newcomer t =
     (case find (\<lambda>(k, e). is_stale opt e now) (trusted t) of
        Some (k, e) \<Rightarrow> (True, t\<lparr>trusted := jm_delete k (trusted t)\<rparr>)
      | None \<Rightarrow>
          (let freed = (if jm_get (entries t) newcomer \<noteq> None then 1 else 0);
               t1 = (if length (entries t) \<ge> max_keys opt + freed then drop_stale opt now t else t) in
           if length (entries t1) \<ge> max_keys opt + freed then (False, t1)
           else case trusted t1 of
             [] \<Rightarrow> (False, t1)
           | (k, e) # _ \<Rightarrow>
               (True, t1\<lparr>trusted := jm_delete k (trusted t1), entries := jm_set k e (entries t1)\<rparr>)))"

definition promote ::
  "throttle_options \<Rightarrow> int \<Rightarrow> int \<Rightarrow> string \<Rightarrow> bool \<Rightarrow> throttle \<Rightarrow> throttle" where
  "promote opt now1 now2 k clear_failures t =
     (if \<not> enabled opt then t
      else case jm_get (trusted t) k of
        Some cur \<Rightarrow> t\<lparr>trusted := jm_touch k cur (trusted t)\<rparr>
      | None \<Rightarrow>
          (let (ok, t1) = (if length (trusted t) \<ge> max_trusted_keys opt
                           then make_trusted_room opt now1 k t else (True, t)) in
           if \<not> ok then t1
           else let (e, t2) = (if clear_failures then (new_entry, t1)
                               else case jm_get (entries t1) k of
                                 Some e \<Rightarrow> (e, t1)
                               | None \<Rightarrow> copy_of_overflow opt now2 t1) in
             t2\<lparr>entries := jm_delete k (entries t2), trusted := jm_set k e (trusted t2)\<rparr>))"

definition note_authenticated ::
  "throttle_options \<Rightarrow> int \<Rightarrow> int \<Rightarrow> string \<Rightarrow> throttle \<Rightarrow> throttle" where
  "note_authenticated opt now1 now2 k t = promote opt now1 now2 k False t"

definition record_success ::
  "throttle_options \<Rightarrow> int \<Rightarrow> int \<Rightarrow> string \<Rightarrow> throttle \<Rightarrow> throttle" where
  "record_success opt now1 now2 k t =
     (if \<not> enabled opt then t
      else promote opt now1 now2 k True
        (t\<lparr>entries := jm_delete k (entries t), trusted := jm_delete k (trusted t)\<rparr>))"

definition throttle_size :: "throttle \<Rightarrow> nat" where
  "throttle_size t = length (entries t)"

section \<open>Runs\<close>

text \<open>What a BFF process does with its throttle: failures, proofs of the secret and logins,
  each with the clock readings the method makes.\<close>

datatype throttle_event =
    Fail string int
  | Proved string int int
  | LoggedIn string int int

fun event_key :: "throttle_event \<Rightarrow> string" where
  "event_key (Fail k _) = k"
| "event_key (Proved k _ _) = k"
| "event_key (LoggedIn k _ _) = k"

fun event_times :: "throttle_event \<Rightarrow> int list" where
  "event_times (Fail _ n) = [n]"
| "event_times (Proved _ n m) = [n, m]"
| "event_times (LoggedIn _ n m) = [n, m]"

fun throttle_step :: "throttle_options \<Rightarrow> throttle \<Rightarrow> throttle_event \<Rightarrow> throttle" where
  "throttle_step opt t (Fail k n) = fst (record_failure opt n k t)"
| "throttle_step opt t (Proved k n m) = note_authenticated opt n m k t"
| "throttle_step opt t (LoggedIn k n m) = record_success opt n m k t"

definition throttle_run :: "throttle_options \<Rightarrow> throttle \<Rightarrow> throttle_event list \<Rightarrow> throttle" where
  "throttle_run opt t evs = foldl (throttle_step opt) t evs"

section \<open>The representation invariant\<close>

definition throttle_inv :: "throttle_options \<Rightarrow> throttle \<Rightarrow> bool" where
  "throttle_inv opt t \<longleftrightarrow>
     jm_ok (entries t) \<and> jm_ok (trusted t) \<and>
     set (jm_keys (entries t)) \<inter> set (jm_keys (trusted t)) = {} \<and>
     length (entries t) \<le> max_keys opt \<and>
     length (trusted t) \<le> max_trusted_keys opt"

lemma throttle_inv_new [inv_intros]: "throttle_inv opt new_throttle"
  by (simp add: throttle_inv_def new_throttle_def jm_keys_def)

lemma drop_stale_inv [inv_intros]: "throttle_inv opt t \<Longrightarrow> throttle_inv opt (drop_stale opt now t)"
  using jm_keys_filter_subset [of "\<lambda>(k, e). \<not> is_stale opt e now" "entries t"]
  unfolding throttle_inv_def drop_stale_def
  by (auto intro: jm_ok_filter le_trans [OF length_filter_le])

lemma drop_stale_select [simp]:
  "trusted (drop_stale opt now t) = trusted t" "overflow (drop_stale opt now t) = overflow t"
  by (simp_all add: drop_stale_def)

lemma drop_stale_subset: "set (jm_keys (entries (drop_stale opt now t))) \<subseteq> set (jm_keys (entries t))"
  by (simp add: drop_stale_def jm_keys_filter_subset)

lemma find_in: "find P xs = Some x \<Longrightarrow> x \<in> set xs \<and> P x"
  by (induction xs) (auto split: if_splits)

lemma inv_replace_trusted:
  "throttle_inv opt t \<Longrightarrow> jm_get (trusted t) k = Some e0 \<Longrightarrow>
   throttle_inv opt (t\<lparr>trusted := jm_set k e (trusted t)\<rparr>)"
  using jm_get_SomeD [of "trusted t" k] unfolding throttle_inv_def
  by (auto simp: jm_rules intro: inv_intros)

lemma inv_touch_entries:
  "throttle_inv opt t \<Longrightarrow> jm_get (entries t) k = Some e0 \<Longrightarrow>
   throttle_inv opt (t\<lparr>entries := jm_touch k e (entries t)\<rparr>)"
  using jm_get_SomeD [of "entries t" k] unfolding throttle_inv_def
  by (auto simp: jm_simps jm_length_touch_present intro: inv_intros)

lemma inv_touch_trusted:
  "throttle_inv opt t \<Longrightarrow> jm_get (trusted t) k = Some e0 \<Longrightarrow>
   throttle_inv opt (t\<lparr>trusted := jm_touch k e (trusted t)\<rparr>)"
  using jm_get_SomeD [of "trusted t" k] unfolding throttle_inv_def
  by (auto simp: jm_simps jm_length_touch_present intro: inv_intros)

lemma inv_overflow [simp]: "throttle_inv opt (t\<lparr>overflow := e\<rparr>) = throttle_inv opt t"
  by (simp add: throttle_inv_def)

lemma inv_add_entry:
  assumes "throttle_inv opt t" "jm_get (trusted t) k = None" "length (entries t) < max_keys opt"
  shows "throttle_inv opt (t\<lparr>entries := jm_set k e (entries t)\<rparr>)"
  using assms unfolding throttle_inv_def
  by (auto simp: jm_rules jm_get_None_iff intro: inv_intros)

lemma record_failure_inv [inv_intros]:
  assumes inv: "throttle_inv opt t"
  shows "throttle_inv opt (fst (record_failure opt now k t))"
proof -
  define t1 where "t1 = (if length (entries t) \<ge> max_keys opt then drop_stale opt now t else t)"
  have t1: "throttle_inv opt t1" "trusted t1 = trusted t"
    using inv by (auto simp: t1_def intro: drop_stale_inv)
  show ?thesis
  proof (cases "enabled opt \<and> jm_get (trusted t) k = None \<and> jm_get (entries t) k = None")
    case True
    have "length (entries t1) < max_keys opt \<Longrightarrow>
        throttle_inv opt (t1\<lparr>overflow := e, entries := jm_set k e' (entries t1)\<rparr>)" for e e'
      using inv_add_entry [of opt "t1\<lparr>overflow := e\<rparr>" k e'] t1 True by simp
    then show ?thesis using t1 True
      unfolding record_failure_def t1_def [symmetric] copy_of_overflow_def
      by (auto simp: Let_def split: prod.splits)
  next
    case False
    then show ?thesis using inv
      unfolding record_failure_def
      by (auto split: option.splits prod.splits
          intro!: inv_replace_trusted inv_touch_entries)
  qed
qed

text \<open>
  Making room in the authenticated table ends in one of three ways: a stale entry is
  dropped; nothing can be freed; or the least recently authenticated entry moves to the
  shared table. In the last case the shared table may hold one entry too many for a
  moment: the newcomer's own, which \<open>promote\<close> then removes.
\<close>

lemma make_trusted_room_cases:
  assumes inv: "throttle_inv opt t"
    and room: "make_trusted_room opt now k t = (ok, t1)"
  obtains (stale) k' e where "ok" "jm_get (trusted t) k' = Some e" "is_stale opt e now"
      "t1 = t\<lparr>trusted := jm_delete k' (trusted t)\<rparr>"
  | (full) "\<not> ok" "t1 = t \<or> t1 = drop_stale opt now t"
  | (demote) k' e t0 where "ok" "jm_get (trusted t) k' = Some e"
      "t0 = t \<or> (t0 = drop_stale opt now t \<and> jm_get (entries t) k = None)"
      "length (entries t0) < max_keys opt + (if jm_get (entries t) k = None then 0 else 1)"
      "t1 = t0\<lparr>trusted := jm_delete k' (trusted t), entries := jm_set k' e (entries t0)\<rparr>"
proof (cases "find (\<lambda>(k, e). is_stale opt e now) (trusted t)")
  case (Some p)
  obtain k' e where p: "p = (k', e)" by (cases p)
  from find_in [OF Some] p have "(k', e) \<in> set (trusted t)" "is_stale opt e now" by auto
  moreover have "jm_get (trusted t) k' = Some e"
    using inv calculation(1) by (simp add: throttle_inv_def jm_in_get)
  ultimately show thesis
    using stale [of k' e] room Some p by (auto simp: make_trusted_room_def)
next
  case None
  define freed :: nat where "freed = (if jm_get (entries t) k \<noteq> None then 1 else 0)"
  define t0 where
    "t0 = (if length (entries t) \<ge> max_keys opt + freed then drop_stale opt now t else t)"
  have t0: "t0 = t \<or> (t0 = drop_stale opt now t \<and> jm_get (entries t) k = None)"
    using inv by (auto simp: t0_def freed_def throttle_inv_def)
  have tr: "trusted t0 = trusted t" by (simp add: t0_def)
  have eq: "(ok, t1) =
      (if length (entries t0) \<ge> max_keys opt + freed then (False, t0)
       else case trusted t0 of [] \<Rightarrow> (False, t0)
         | (k, e) # _ \<Rightarrow> (True, t0\<lparr>trusted := jm_delete k (trusted t0), entries := jm_set k e (entries t0)\<rparr>))"
    using room unfolding make_trusted_room_def None Let_def freed_def [symmetric] t0_def [symmetric]
    by simp
  show thesis
  proof (cases ok)
    case False
    then show thesis using eq t0 full by (auto split: if_splits list.splits)
  next
    case True
    then obtain k' e rest where "trusted t = (k', e) # rest"
      and "length (entries t0) < max_keys opt + freed"
      and "t1 = t0\<lparr>trusted := jm_delete k' (trusted t), entries := jm_set k' e (entries t0)\<rparr>"
      using eq tr by (auto split: if_splits list.splits)
    moreover have "freed = (if jm_get (entries t) k = None then 0 else 1)"
      by (simp add: freed_def)
    ultimately show thesis using demote [of k' e t0] True t0 by auto
  qed
qed

lemma make_trusted_room_spec:
  assumes inv: "throttle_inv opt t"
    and new: "jm_get (trusted t) k = None"
    and room: "make_trusted_room opt now k t = (ok, t1)"
  shows "jm_ok (entries t1) \<and> jm_ok (trusted t1) \<and>
    set (jm_keys (entries t1)) \<inter> set (jm_keys (trusted t1)) = {} \<and>
    jm_get (trusted t1) k = None \<and>
    (ok \<longrightarrow> length (trusted t1) < max_trusted_keys opt \<and>
            length (jm_delete k (entries t1)) \<le> max_keys opt) \<and>
    (\<not> ok \<longrightarrow> throttle_inv opt t1)"
  using inv room
proof (cases rule: make_trusted_room_cases)
  case (stale k' e)
  have "trusted t \<noteq> []" using stale(2) by auto
  then have "length (jm_delete k' (trusted t)) < max_trusted_keys opt"
    using inv stale(2) by (cases "trusted t") (auto simp: throttle_inv_def jm_length_delete)
  then show ?thesis using inv new stale
    by (auto simp: throttle_inv_def jm_simps inv_intros intro: le_trans [OF jm_length_delete_le])
next
  case full
  then show ?thesis using inv new drop_stale_inv [OF inv, of now]
    by (auto simp: throttle_inv_def)
next
  case (demote k' e t0)
  have ne: "k' \<noteq> k" using demote(2) new by auto
  have inv0: "throttle_inv opt t0" and tr0: "trusted t0 = trusted t"
    using demote(3) inv drop_stale_inv [OF inv, of now] by auto
  have k': "jm_get (entries t0) k' = None"
    using inv0 tr0 jm_get_SomeD [OF demote(2)] by (auto simp: throttle_inv_def jm_get_None_iff)
  have "trusted t \<noteq> []" using demote(2) by auto
  then have tr: "length (jm_delete k' (trusted t)) < max_trusted_keys opt"
    using inv demote(2) by (cases "trusted t") (auto simp: throttle_inv_def jm_length_delete)
  have "length (jm_delete k (jm_set k' e (entries t0))) \<le> max_keys opt"
  proof (cases "jm_get (entries t) k")
    case None
    then have "length (jm_set k' e (entries t0)) \<le> max_keys opt"
      using demote(4) k' by (simp add: jm_rules)
    then show ?thesis by (rule le_trans [OF jm_length_delete_le])
  next
    case (Some e')
    then have "t0 = t" using demote(3) by auto
    then show ?thesis using Some inv k' ne
      by (auto simp: throttle_inv_def jm_length_delete jm_rules inv_intros)
  qed
  moreover have "set (jm_keys (jm_set k' e (entries t0))) \<inter> set (jm_keys (jm_delete k' (trusted t))) = {}"
    using inv0 tr0 by (auto simp: throttle_inv_def jm_rules)
  moreover have "jm_ok (jm_set k' e (entries t0))" "jm_ok (jm_delete k' (trusted t))"
    using inv0 inv by (auto simp: throttle_inv_def inv_intros)
  ultimately show ?thesis using demote(1,5) new tr by (simp add: jm_get_delete)
qed

lemma copy_of_overflow_fields:
  "copy_of_overflow opt now t = (refresh opt (overflow t) now, t\<lparr>overflow := refresh opt (overflow t) now\<rparr>)"
  by (simp add: copy_of_overflow_def Let_def)

lemma promote_inv [inv_intros]:
  assumes inv: "throttle_inv opt t"
  shows "throttle_inv opt (promote opt now1 now2 k b t)"
proof (cases "enabled opt \<and> jm_get (trusted t) k = None")
  case False
  then show ?thesis using inv inv_touch_trusted [OF inv, of k]
    by (auto simp: promote_def split: option.splits)
next
  case True
  obtain ok t1 where room: "(if length (trusted t) \<ge> max_trusted_keys opt
      then make_trusted_room opt now1 k t else (True, t)) = (ok, t1)"
    by fastforce
  have spec: "jm_ok (entries t1) \<and> jm_ok (trusted t1) \<and>
    set (jm_keys (entries t1)) \<inter> set (jm_keys (trusted t1)) = {} \<and>
    jm_get (trusted t1) k = None \<and>
    (ok \<longrightarrow> length (trusted t1) < max_trusted_keys opt \<and>
            length (jm_delete k (entries t1)) \<le> max_keys opt) \<and>
    (\<not> ok \<longrightarrow> throttle_inv opt t1)"
  proof (cases "length (trusted t) \<ge> max_trusted_keys opt")
    case True
    then show ?thesis using make_trusted_room_spec [OF inv, of k now1 ok t1] room
      \<open>enabled opt \<and> jm_get (trusted t) k = None\<close> by simp
  next
    case False
    then show ?thesis using room inv \<open>enabled opt \<and> jm_get (trusted t) k = None\<close>
      by (auto simp: throttle_inv_def intro: le_trans [OF jm_length_delete_le])
  qed
  have add: "throttle_inv opt (t1\<lparr>overflow := ov, entries := jm_delete k (entries t1),
      trusted := jm_set k e (trusted t1)\<rparr>)" if ok for e ov
    using spec that by (auto simp: throttle_inv_def jm_rules inv_intros)
  have "promote opt now1 now2 k b t =
      (if \<not> ok then t1
       else let (e, t2) = (if b then (new_entry, t1)
                           else case jm_get (entries t1) k of
                             Some e \<Rightarrow> (e, t1)
                           | None \<Rightarrow> copy_of_overflow opt now2 t1) in
         t2\<lparr>entries := jm_delete k (entries t2), trusted := jm_set k e (trusted t2)\<rparr>)"
    using True room by (simp add: promote_def)
  then show ?thesis using spec add [where ov = "overflow t1"] add
    by (auto simp: copy_of_overflow_fields split: option.splits)
qed

lemma record_success_inv [inv_intros]:
  assumes "throttle_inv opt t"
  shows "throttle_inv opt (record_success opt now1 now2 k t)"
proof -
  have "throttle_inv opt (t\<lparr>entries := jm_delete k (entries t), trusted := jm_delete k (trusted t)\<rparr>)"
    using assms jm_length_delete_le [of k "entries t"] jm_length_delete_le [of k "trusted t"]
    by (auto simp: throttle_inv_def jm_rules inv_intros)
  then show ?thesis using assms by (simp add: record_success_def promote_inv)
qed

lemma throttle_step_inv [inv_intros]:
  "throttle_inv opt t \<Longrightarrow> throttle_inv opt (throttle_step opt t ev)"
  by (cases ev) (auto simp: note_authenticated_def intro: inv_intros)

lemma throttle_run_inv [inv_intros]:
  "throttle_inv opt t \<Longrightarrow> throttle_inv opt (throttle_run opt t evs)"
  unfolding throttle_run_def by (induction evs arbitrary: t) (auto intro: inv_intros)

section \<open>Live state is never lost\<close>

lemma own_entry_iff:
  "throttle_inv opt t \<Longrightarrow>
   own_entry t k = Some e \<longleftrightarrow> jm_get (trusted t) k = Some e \<or> jm_get (entries t) k = Some e"
  using jm_get_None_iff [of "trusted t" k] jm_get_None_iff [of "entries t" k]
  by (auto simp: own_entry_def throttle_inv_def split: option.splits)

lemma own_entry_drop_stale:
  assumes "throttle_inv opt t" "own_entry t k = Some e" "\<not> is_stale opt e now"
  shows "own_entry (drop_stale opt now t) k = Some e"
  using assms
  by (auto simp: own_entry_def drop_stale_def throttle_inv_def jm_get_filter split: option.splits)

lemma own_entry_frame [simp]: "own_entry (t\<lparr>overflow := e\<rparr>) k = own_entry t k"
  by (simp add: own_entry_def split: option.split)

lemma record_failure_keeps_live:
  assumes inv: "throttle_inv opt t" and own: "own_entry t k = Some e"
    and live: "\<not> is_stale opt e now" and ne: "k' \<noteq> k"
  shows "own_entry (fst (record_failure opt now k' t)) k = Some e"
proof -
  define t1 where "t1 = (if length (entries t) \<ge> max_keys opt then drop_stale opt now t else t)"
  have t1: "own_entry t1 k = Some e"
    using own_entry_drop_stale [OF inv own live] own by (simp add: t1_def)
  then show ?thesis using own ne
    unfolding record_failure_def t1_def [symmetric] Let_def
    by (auto simp: own_entry_def jm_simps copy_of_overflow_fields split: option.splits prod.splits)
qed

lemma make_trusted_room_keeps_live:
  assumes inv: "throttle_inv opt t" and own: "own_entry t k = Some e"
    and live: "\<not> is_stale opt e now"
    and room: "make_trusted_room opt now k' t = (ok, t1)"
  shows "own_entry t1 k = Some e"
  using inv room
proof (cases rule: make_trusted_room_cases)
  case (stale k2 e2)
  then have "k2 \<noteq> k" using own live by (auto simp: own_entry_def split: option.splits)
  then show ?thesis using stale own by (auto simp: own_entry_def jm_simps split: option.splits)
next
  case full
  then show ?thesis using own own_entry_drop_stale [OF inv own live] by auto
next
  case (demote k2 e2 t0)
  have "own_entry t0 k = Some e" "trusted t0 = trusted t"
    using demote(3) own own_entry_drop_stale [OF inv own live] by auto
  then show ?thesis using demote(2,5) by (auto simp: own_entry_def jm_simps split: option.splits)
qed

lemma promote_keeps_live:
  assumes inv: "throttle_inv opt t" and own: "own_entry t k = Some e"
    and live: "\<not> is_stale opt e now1" and ne: "k' \<noteq> k \<or> \<not> b"
  shows "own_entry (promote opt now1 now2 k' b t) k = Some e"
proof (cases "enabled opt \<and> jm_get (trusted t) k' = None")
  case False
  then show ?thesis using own by (auto simp: promote_def own_entry_def jm_simps split: option.splits)
next
  case True
  obtain ok t1 where room: "(if length (trusted t) \<ge> max_trusted_keys opt
      then make_trusted_room opt now1 k' t else (True, t)) = (ok, t1)"
    by fastforce
  have t1: "own_entry t1 k = Some e"
    using room own make_trusted_room_keeps_live [OF inv own live, of k' ok t1] by (auto split: if_splits)
  have new: "jm_get (trusted t1) k' = None"
    using room True make_trusted_room_spec [OF inv, of k' now1 ok t1] by (auto split: if_splits)
  have "promote opt now1 now2 k' b t =
      (if \<not> ok then t1
       else let (e, t2) = (if b then (new_entry, t1)
                           else case jm_get (entries t1) k' of
                             Some e \<Rightarrow> (e, t1)
                           | None \<Rightarrow> copy_of_overflow opt now2 t1) in
         t2\<lparr>entries := jm_delete k' (entries t2), trusted := jm_set k' e (trusted t2)\<rparr>)"
    using True room by (simp add: promote_def)
  then show ?thesis using t1 ne new
    by (auto simp: own_entry_def jm_simps copy_of_overflow_fields split: option.splits)
qed

text \<open>The events that may change what \<open>k\<close> answers for: its own failures and logins.\<close>

fun changes_key :: "string \<Rightarrow> throttle_event \<Rightarrow> bool" where
  "changes_key k (Fail k' _) = (k' = k)"
| "changes_key k (LoggedIn k' _ _) = (k' = k)"
| "changes_key k (Proved _ _ _) = False"

lemma throttle_step_keeps_live:
  assumes inv: "throttle_inv opt t" and own: "own_entry t k = Some e"
    and live: "\<forall>n \<in> set (event_times ev). \<not> is_stale opt e n"
    and other: "\<not> changes_key k ev"
  shows "own_entry (throttle_step opt t ev) k = Some e"
proof (cases ev)
  case (Fail k' n)
  then show ?thesis using assms by (simp add: record_failure_keeps_live)
next
  case (Proved k' n m)
  then show ?thesis using assms by (simp add: note_authenticated_def promote_keeps_live)
next
  case (LoggedIn k' n m)
  define t' where "t' = t\<lparr>entries := jm_delete k' (entries t), trusted := jm_delete k' (trusted t)\<rparr>"
  have "throttle_inv opt t'"
    using inv jm_length_delete_le [of k' "entries t"] jm_length_delete_le [of k' "trusted t"]
    by (auto simp: throttle_inv_def jm_rules inv_intros t'_def)
  moreover have "own_entry t' k = Some e" "k' \<noteq> k"
    using own other LoggedIn by (auto simp: own_entry_def jm_simps t'_def split: option.splits)
  ultimately have "own_entry (promote opt n m k' True t') k = Some e"
    using live LoggedIn by (simp add: promote_keeps_live)
  then show ?thesis using own LoggedIn by (simp add: record_success_def t'_def)
qed

lemma throttle_run_keeps_live:
  assumes "throttle_inv opt t" "own_entry t k = Some e"
    and "\<forall>ev \<in> set evs. \<not> changes_key k ev \<and> (\<forall>n \<in> set (event_times ev). \<not> is_stale opt e n)"
  shows "own_entry (throttle_run opt t evs) k = Some e"
  using assms
proof (induction evs arbitrary: t)
  case Nil
  then show ?case by (simp add: throttle_run_def)
next
  case (Cons ev evs)
  then have "own_entry (throttle_step opt t ev) k = Some e"
    by (simp add: throttle_step_keeps_live)
  then show ?case using Cons throttle_step_inv [of opt t ev] by (simp add: throttle_run_def)
qed

lemma not_stale_while_locked: "n < locked_until e \<Longrightarrow> \<not> is_stale opt e n"
  by (simp add: is_stale_def)

section \<open>Who is exempt from the shared lockout\<close>

lemma record_failure_trusted_keys:
  "set (jm_keys (trusted (fst (record_failure opt now k t)))) = set (jm_keys (trusted t))"
  using jm_get_SomeD [of "trusted t" k]
  by (auto simp: record_failure_def Let_def copy_of_overflow_fields drop_stale_def jm_simps
      split: option.splits prod.splits)

lemma make_trusted_room_trusted_keys:
  assumes "throttle_inv opt t" "make_trusted_room opt now k t = (ok, t1)"
  shows "set (jm_keys (trusted t1)) \<subseteq> set (jm_keys (trusted t))"
  using assms by (cases rule: make_trusted_room_cases) (auto simp: jm_simps)

lemma promote_trusted_keys:
  assumes "throttle_inv opt t"
  shows "set (jm_keys (trusted (promote opt now1 now2 k b t))) \<subseteq> insert k (set (jm_keys (trusted t)))"
proof -
  obtain ok t1 where room: "make_trusted_room opt now1 k t = (ok, t1)" by fastforce
  show ?thesis using make_trusted_room_trusted_keys [OF assms room] room
    by (auto simp: promote_def copy_of_overflow_fields jm_simps split: option.splits if_splits)
qed

lemma throttle_step_trusted_keys:
  assumes "throttle_inv opt t" "k \<in> set (jm_keys (trusted (throttle_step opt t ev)))"
    "k \<notin> set (jm_keys (trusted t))"
  shows "event_key ev = k \<and> (\<forall>n. ev \<noteq> Fail k n)"
proof (cases ev)
  case (LoggedIn k' n m)
  have "throttle_inv opt (t\<lparr>entries := jm_delete k' (entries t), trusted := jm_delete k' (trusted t)\<rparr>)"
    using assms(1) jm_length_delete_le [of k' "entries t"] jm_length_delete_le [of k' "trusted t"]
    by (auto simp: throttle_inv_def jm_rules inv_intros)
  from promote_trusted_keys [OF this, of n m k' True] show ?thesis
    using assms LoggedIn by (auto simp: record_success_def jm_simps split: if_splits)
next
  case (Proved k' n m)
  then show ?thesis using assms promote_trusted_keys [OF assms(1), of n m k' False]
    by (auto simp: note_authenticated_def)
next
  case (Fail k' n)
  then show ?thesis using assms by (simp add: record_failure_trusted_keys)
qed

lemma throttle_run_trusted_keys:
  "throttle_inv opt t \<Longrightarrow> k \<in> set (jm_keys (trusted (throttle_run opt t evs))) \<Longrightarrow>
   k \<notin> set (jm_keys (trusted t)) \<Longrightarrow>
   \<exists>ev \<in> set evs. event_key ev = k \<and> (\<forall>n. ev \<noteq> Fail k n)"
proof (induction evs arbitrary: t)
  case Nil
  then show ?case by (simp add: throttle_run_def)
next
  case (Cons ev evs)
  show ?case
  proof (cases "k \<in> set (jm_keys (trusted (throttle_step opt t ev)))")
    case True
    then show ?thesis using throttle_step_trusted_keys [OF Cons.prems(1) _ Cons.prems(3)] by auto
  next
    case False
    then show ?thesis using Cons.IH [of "throttle_step opt t ev"] Cons.prems
      by (auto simp: throttle_run_def intro: inv_intros)
  qed
qed

section \<open>The rolling window\<close>

definition in_window :: "throttle_options \<Rightarrow> int \<Rightarrow> int list \<Rightarrow> int list" where
  "in_window opt now ts = filter (\<lambda>at. now - at < window_ms opt) ts"

lemma in_window_Nil [simp]: "in_window opt now [] = []"
  by (simp add: in_window_def)

lemma in_window_append [simp]: "in_window opt now (xs @ ys) = in_window opt now xs @ in_window opt now ys"
  by (simp add: in_window_def)

lemma in_window_shrinks:
  "m \<le> n \<Longrightarrow> in_window opt n (in_window opt m ts) = in_window opt n ts"
  unfolding in_window_def by (auto intro: filter_cong)

lemma record_failure_own:
  assumes "throttle_inv opt t" "enabled opt" "own_entry t k = Some e"
  shows "own_entry (fst (record_failure opt now k t)) k = Some (fst (count opt (refresh opt e now) now))"
    and "snd (record_failure opt now k t) = snd (count opt (refresh opt e now) now)"
  using assms
  by (auto simp: own_entry_def record_failure_def jm_simps Let_def split: option.splits prod.splits)

lemma count_no_lockout:
  "length (in_window opt now (failures e @ [now])) < max_failures opt \<Longrightarrow> 0 < window_ms opt \<Longrightarrow>
   fst (count opt e now) = e\<lparr>failures := in_window opt now (failures e @ [now])\<rparr>"
  by (simp add: count_def in_window_def Let_def)

lemma stale_window_empty:
  assumes "sorted (failures e)" "is_stale opt e now"
  shows "in_window opt now (failures e) = []"
proof -
  have "now - at \<ge> window_ms opt" if "at \<in> set (failures e)" for at
  proof -
    have "failures e \<noteq> []" using that by auto
    then obtain xs where xs: "failures e = xs @ [last (failures e)]" by (metis append_butlast_last_id)
    have "at \<le> last (failures e)" using assms(1) that by (subst (asm) xs, subst (asm) (2) xs) (auto simp: sorted_append)
    then show ?thesis using assms(2) that by (auto simp: is_stale_def)
  qed
  then show ?thesis by (auto simp: in_window_def filter_empty_conv not_less)
qed

lemma sorted_in_window: "sorted ts \<Longrightarrow> sorted (in_window opt now ts)"
  unfolding in_window_def using sorted_filter [of "\<lambda>x. x" ts] by simp

text \<open>
  As long as no failure reached the limit, an entry that started fresh holds exactly the
  failures inside the window of the last one.
\<close>

definition below_limit :: "throttle_options \<Rightarrow> int list \<Rightarrow> bool" where
  "below_limit opt ts \<longleftrightarrow>
     (\<forall>i < length ts. length (in_window opt (ts ! i) (take (Suc i) ts)) < max_failures opt)"

lemma below_limit_snoc:
  "below_limit opt (ts @ [n]) \<longleftrightarrow>
   below_limit opt ts \<and> length (in_window opt n (ts @ [n])) < max_failures opt"
  by (auto simp: below_limit_def nth_append less_Suc_eq)

lemma fail_run_entry:
  assumes "throttle_inv opt t" "enabled opt" "own_entry t k = Some new_entry"
    and "sorted ts" "0 < window_ms opt" "below_limit opt ts"
  shows "own_entry (throttle_run opt t (map (Fail k) ts)) k =
    Some (new_entry\<lparr>failures := (if ts = [] then [] else in_window opt (last ts) ts)\<rparr>)"
  using assms(4,6)
proof (induction ts rule: rev_induct)
  case Nil
  then show ?case using assms by (simp add: throttle_run_def new_entry_def)
next
  case (snoc n ts)
  define fs where "fs = (if ts = [] then [] else in_window opt (last ts) ts)"
  define t1 where "t1 = throttle_run opt t (map (Fail k) ts)"
  have lim: "below_limit opt ts" "length (in_window opt n (ts @ [n])) < max_failures opt"
    using snoc.prems by (auto simp: below_limit_snoc)
  have own: "own_entry t1 k = Some (new_entry\<lparr>failures := fs\<rparr>)"
    using snoc lim by (simp add: sorted_append fs_def t1_def)
  have inv1: "throttle_inv opt t1" using assms by (auto simp: t1_def intro: inv_intros)
  have win: "in_window opt n fs = in_window opt n ts"
    using snoc.prems(1) in_window_shrinks [of "last ts" n opt ts]
    by (cases "ts = []") (auto simp: fs_def sorted_append)
  have "sorted fs" using snoc.prems(1) by (auto simp: fs_def sorted_append intro: sorted_in_window)
  then obtain gs where gs: "refresh opt (new_entry\<lparr>failures := fs\<rparr>) n = new_entry\<lparr>failures := gs\<rparr>"
      and win': "in_window opt n gs = in_window opt n ts"
    using stale_window_empty [of "new_entry\<lparr>failures := fs\<rparr>" opt n] win
    by (cases "is_stale opt (new_entry\<lparr>failures := fs\<rparr>) n")
      (auto simp: refresh_def new_entry_def in_window_def)
  have "own_entry (fst (record_failure opt n k t1)) k =
      Some (fst (count opt (new_entry\<lparr>failures := gs\<rparr>) n))"
    using record_failure_own(1) [OF inv1 assms(2) own, of n] by (simp add: gs)
  also have "fst (count opt (new_entry\<lparr>failures := gs\<rparr>) n) =
      new_entry\<lparr>failures := in_window opt n (ts @ [n])\<rparr>"
    using count_no_lockout [of opt n "new_entry\<lparr>failures := gs\<rparr>"] lim win' assms(5)
    by simp
  finally show ?case by (simp add: throttle_run_def t1_def)
qed

section \<open>Lockout lengths\<close>

text \<open>\<open>authThrottle(config)\<close> in \<open>server/auth.ts\<close>: the options a configuration yields.\<close>

definition auth_throttle_options :: "nat \<Rightarrow> int \<Rightarrow> throttle_options" where
  "auth_throttle_options auth_max_failures auth_lockout_seconds =
     \<lparr>max_failures = auth_max_failures,
      window_ms = 15 * 60000,
      lockout_ms = auth_lockout_seconds * 1000,
      max_lockout_ms = max (60 * 60000) (auth_lockout_seconds * 1000),
      max_keys = 10000,
      max_trusted_keys = 1024\<rparr>"

lemma lockout_length_mono:
  assumes "0 \<le> lockout_ms opt" "m \<le> n"
  shows "lockout_length opt m \<le> lockout_length opt n"
proof -
  have "(2::int) ^ min m 30 \<le> 2 ^ min n 30" using assms(2) by (intro power_increasing) auto
  then have "lockout_ms opt * 2 ^ min m 30 \<le> lockout_ms opt * 2 ^ min n 30"
    using assms(1) by (intro mult_left_mono) auto
  then show ?thesis by (auto simp: lockout_length_def)
qed

lemma power30_bound: "(2::int) ^ min n 30 \<le> 2 ^ 30"
  by (rule power_increasing) auto

lemma lockout_is_safe_integer:
  assumes "1 \<le> s" "s \<le> 3600"
  shows "lockout_ms (auth_throttle_options m s) * 2 ^ min n 30 < 2 ^ 53"
proof -
  have "s * 1000 * 2 ^ min n 30 \<le> 3600 * 1000 * (2::int) ^ 30"
    using power30_bound [of n] assms by (intro mult_mono) auto
  then show ?thesis by (simp add: auth_throttle_options_def)
qed

section \<open>Properties\<close>

text \<open>C1: Starting from an empty throttle, whatever failures, proofs of the secret and logins
  arrive in whatever order and at whatever times, both tables stay within their configured
  capacity, hold each address once, and never both hold the same address.\<close>

theorem throttle_tables_bounded:
  "let t = throttle_run opt new_throttle evs in
     length (entries t) \<le> max_keys opt \<and> length (trusted t) \<le> max_trusted_keys opt \<and>
     distinct (jm_keys (entries t) @ jm_keys (trusted t))"
  using throttle_run_inv [OF throttle_inv_new, of opt evs]
  by (auto simp: throttle_inv_def jm_ok_def Let_def)

text \<open>C2: A flood from other addresses cannot erase an address's live failure state or
  shorten its lockout. While the entry \<open>k\<close> answers for still carries a failure in the window,
  a lockout or undecayed escalation at every clock reading, no sequence of other addresses'
  failures and logins, and no proofs by anyone, changes that entry or the lockout reported
  for \<open>k\<close>.\<close>

theorem throttle_flood_keeps_state:
  assumes own: "own_entry (throttle_run opt new_throttle evs0) k = Some e"
    and live: "\<forall>ev \<in> set evs. \<forall>n \<in> set (event_times ev). \<not> is_stale opt e n"
    and other: "\<forall>ev \<in> set evs. \<not> changes_key k ev"
  shows "own_entry (throttle_run opt new_throttle (evs0 @ evs)) k = Some e \<and>
    locked_for opt (throttle_run opt new_throttle (evs0 @ evs)) k now =
    locked_for opt (throttle_run opt new_throttle evs0) k now"
proof -
  have "throttle_inv opt (throttle_run opt new_throttle evs0)" by (intro inv_intros)
  from throttle_run_keeps_live [OF this own] live other show ?thesis
    using own by (simp add: throttle_run_def locked_for_def)
qed

definition small_options :: throttle_options where
  "small_options = \<lparr>max_failures = 2, window_ms = 100, lockout_ms = 50, max_lockout_ms = 400,
     max_keys = 1, max_trusted_keys = 1\<rparr>"

theorem throttle_flood_keeps_state_witness:
  "own_entry (throttle_run small_options new_throttle
     ([Fail ''a'' 1000, Fail ''a'' 1001] @ [Fail ''b'' 1010, LoggedIn ''c'' 1011 1012, Proved ''a'' 1013 1013])) ''a''
     = Some \<lparr>failures = [], locked_until = 1051, lockouts = 1\<rparr> \<and>
   locked_for small_options (throttle_run small_options new_throttle
     ([Fail ''a'' 1000, Fail ''a'' 1001] @ [Fail ''b'' 1010, LoggedIn ''c'' 1011 1012, Proved ''a'' 1013 1013])) ''a'' 1020
     = 31"
proof -
  let ?before = "[Fail ''a'' 1000, Fail ''a'' 1001]"
  let ?after = "[Fail ''b'' 1010, LoggedIn ''c'' 1011 1012, Proved ''a'' 1013 1013]"
  let ?e = "\<lparr>failures = [], locked_until = 1051, lockouts = 1\<rparr>"
  have own: "own_entry (throttle_run small_options new_throttle ?before) ''a'' = Some ?e" by code_simp
  have lock: "locked_for small_options (throttle_run small_options new_throttle ?before) ''a'' 1020 = 31"
    by code_simp
  have "\<forall>ev \<in> set ?after. \<forall>n \<in> set (event_times ev). \<not> is_stale small_options ?e n"
    by (simp add: is_stale_def small_options_def)
  from throttle_flood_keeps_state [OF own this, of 1020] lock show ?thesis by simp
qed

text \<open>The window is rolling, and the limit is exact. For an address whose entry starts
  fresh and whose failures so far each left fewer than \<open>maxFailures\<close> in the window, the next
  failure reports the number of failures within the last \<open>windowMs\<close>, itself included, and
  starts a lockout exactly when that number reaches \<open>maxFailures\<close>.\<close>

theorem throttle_rolling_window:
  assumes "own_entry (throttle_run opt new_throttle evs0) k = Some new_entry"
    and "enabled opt" and "0 < window_ms opt"
    and "sorted (ts @ [now])" and "below_limit opt ts"
  shows "let r = snd (record_failure opt now k
             (throttle_run opt new_throttle (evs0 @ map (Fail k) ts))) in
     out_failures r = length (in_window opt now (ts @ [now])) \<and>
     (locked_for_ms r \<noteq> None \<longleftrightarrow> length (in_window opt now (ts @ [now])) \<ge> max_failures opt)"
proof -
  define t0 where "t0 = throttle_run opt new_throttle evs0"
  define t where "t = throttle_run opt t0 (map (Fail k) ts)"
  define e where "e = new_entry\<lparr>failures := if ts = [] then [] else in_window opt (last ts) ts\<rparr>"
  have inv0: "throttle_inv opt t0" unfolding t0_def by (intro inv_intros)
  have own: "own_entry t k = Some e"
    using fail_run_entry [OF inv0, of k ts] assms by (simp add: t0_def t_def e_def sorted_append)
  have inv: "throttle_inv opt t" using inv0 unfolding t_def by (rule throttle_run_inv)
  have "in_window opt now (failures e) = in_window opt now ts"
    using assms(4) in_window_shrinks [of "last ts" now opt ts]
    by (cases "ts = []") (auto simp: e_def sorted_append)
  moreover have "sorted (failures e)" using assms(4)
    by (auto simp: e_def sorted_append intro: sorted_in_window)
  ultimately have "in_window opt now (failures (refresh opt e now)) = in_window opt now ts"
    using stale_window_empty [of e opt now] by (auto simp: refresh_def new_entry_def)
  moreover have "snd (record_failure opt now k t) = snd (count opt (refresh opt e now) now)"
    by (rule record_failure_own(2) [OF inv assms(2) own])
  moreover have "throttle_run opt new_throttle (evs0 @ map (Fail k) ts) = t"
    by (simp add: t_def t0_def throttle_run_def)
  ultimately show ?thesis using assms(3)
    by (simp add: count_def Let_def in_window_def)
qed

theorem throttle_rolling_window_witness:
  "let r = snd (record_failure small_options 1090 ''a''
      (throttle_run small_options new_throttle ([LoggedIn ''a'' 900 900] @ map (Fail ''a'') [950, 1060]))) in
   out_failures r = 2 \<and> locked_for_ms r \<noteq> None"
proof -
  have "own_entry (throttle_run small_options new_throttle [LoggedIn ''a'' 900 900]) ''a'' = Some new_entry"
    by code_simp
  from throttle_rolling_window [OF this, of "[950, 1060]" 1090] show ?thesis
    by (simp add: enabled_def small_options_def below_limit_def in_window_def Let_def
        less_Suc_eq numeral_2_eq_2)
qed

text \<open>Only the secret earns the exemption from the shared overflow lockout, and it is an
  exemption from that lockout alone. Every address in the authenticated table of a running
  throttle proved the secret (a proof or a login, never a failure), and the lockout reported
  for it is its own entry's, whatever the overflow entry and the shared table hold.\<close>

theorem throttle_exemption_earned:
  assumes "jm_get (trusted (throttle_run opt new_throttle evs)) k = Some e"
  shows "(\<exists>ev \<in> set evs. event_key ev = k \<and> (\<forall>n. ev \<noteq> Fail k n)) \<and>
    locked_for opt ((throttle_run opt new_throttle evs)\<lparr>overflow := ov, entries := es\<rparr>) k now =
      (if enabled opt then max 0 (locked_until e - now) else 0)"
proof -
  have "k \<in> set (jm_keys (trusted (throttle_run opt new_throttle evs)))"
    using assms by (rule jm_get_SomeD)
  from throttle_run_trusted_keys [OF throttle_inv_new this]
  show ?thesis using assms
    by (simp add: new_throttle_def jm_keys_def locked_for_def own_entry_def)
qed

theorem throttle_exemption_earned_witness:
  "(\<exists>ev \<in> set [Proved ''p'' 10 10, Fail ''x'' 11]. event_key ev = ''p'' \<and> (\<forall>n. ev \<noteq> Fail ''p'' n)) \<and>
   locked_for small_options ((throttle_run small_options new_throttle [Proved ''p'' 10 10, Fail ''x'' 11])
     \<lparr>overflow := new_entry\<lparr>locked_until := 5000\<rparr>, entries := []\<rparr>) ''p'' 20 = 0"
proof -
  have "jm_get (trusted (throttle_run small_options new_throttle [Proved ''p'' 10 10, Fail ''x'' 11])) ''p''
      = Some new_entry" by code_simp
  from throttle_exemption_earned [OF this, where ov = "new_entry\<lparr>locked_until := 5000\<rparr>" and es = "[]" and now = 20]
  show ?thesis by (simp add: new_entry_def)
qed

text \<open>Lockout lengths under every accepted configuration (1 to 3600 seconds): the first
  lasts the configured time, each further one at least as long as the one before and at most
  the ceiling of an hour, and the doubling never leaves the integers a JavaScript number
  represents exactly.\<close>

theorem throttle_lockout_lengths:
  assumes "1 \<le> s" "s \<le> 3600"
  shows "lockout_length (auth_throttle_options m s) 0 = s * 1000 \<and>
    lockout_length (auth_throttle_options m s) n \<le> lockout_length (auth_throttle_options m s) (Suc n) \<and>
    lockout_length (auth_throttle_options m s) n \<le> 3600000 \<and>
    lockout_ms (auth_throttle_options m s) * 2 ^ min n 30 < 2 ^ 53"
  using lockout_length_mono [of "auth_throttle_options m s" n "Suc n"]
    lockout_is_safe_integer [OF assms, of m n] assms
  by (simp add: lockout_length_def auth_throttle_options_def)

theorem throttle_lockout_lengths_witness:
  "lockout_length (auth_throttle_options 10 60) 0 = 60000 \<and>
   lockout_length (auth_throttle_options 10 60) 7 \<le> 3600000"
  using throttle_lockout_lengths [of 60 10 7] by simp

end
