(* ===== verification/WaitBudget.thy ===== *)
theory WaitBudget
  imports JsString
begin

text \<open>
  The deadline policy shared by the console and the BFF (\<open>server/waitBudget.ts\<close>) and the
  per-route limits the proxy derives from it (\<open>server/proxy.ts\<close>). Durations are
  milliseconds in \<open>nat\<close>, sizes bytes in \<open>nat\<close>. The theorem at the end is the reason the
  policy is one module: for every request the console issues, its own budget outlasts the
  BFF's upload and response deadlines together.
\<close>

definition APPLY_WAIT_MS :: nat where "APPLY_WAIT_MS = 25000"
definition ACME_MAX_WAIT_MS :: nat where "ACME_MAX_WAIT_MS = 600000"
definition TRANSPORT_MARGIN_MS :: nat where "TRANSPORT_MARGIN_MS = 5000"

definition server_wait_timeout :: "nat \<Rightarrow> nat" where
  "server_wait_timeout requested_wait_ms = requested_wait_ms + TRANSPORT_MARGIN_MS"

definition acme_finalize_pattern :: "seg_pat list" where
  "acme_finalize_pattern =
     [Lit ''admin'', Lit ''tls'', Lit ''acme'', Lit ''orders'', Wild, Lit ''finalize'']"

definition waiting_route_timeout :: "string \<Rightarrow> string \<Rightarrow> nat" where
  "waiting_route_timeout meth path =
     (if meth = ''GET'' \<and> path = ''/config/apply-status''
      then server_wait_timeout (server_wait_timeout APPLY_WAIT_MS)
      else if meth = ''POST'' \<and> path_match acme_finalize_pattern False path
      then server_wait_timeout (server_wait_timeout ACME_MAX_WAIT_MS)
      else 0)"

definition DEFAULT_RESPONSE_TIMEOUT :: nat where "DEFAULT_RESPONSE_TIMEOUT = 60000"
definition DEFAULT_UPLOAD_TIMEOUT :: nat where "DEFAULT_UPLOAD_TIMEOUT = 300000"
definition DEFAULT_WRITE_TIMEOUT :: nat where "DEFAULT_WRITE_TIMEOUT = 60000"
definition BACKUP_RESTORE_OPERATION_TIMEOUT :: nat where "BACKUP_RESTORE_OPERATION_TIMEOUT = 120000"

lemmas timeout_defs = APPLY_WAIT_MS_def ACME_MAX_WAIT_MS_def TRANSPORT_MARGIN_MS_def
  server_wait_timeout_def DEFAULT_RESPONSE_TIMEOUT_def DEFAULT_UPLOAD_TIMEOUT_def
  DEFAULT_WRITE_TIMEOUT_def BACKUP_RESTORE_OPERATION_TIMEOUT_def

datatype large_upload = Restore | ApiSpec

definition large_upload_route :: "string \<Rightarrow> large_upload option" where
  "large_upload_route path =
     (if path = ''/restore'' then Some Restore
      else if path = ''/api-specs'' \<or> starts_with ''/api-specs/'' path then Some ApiSpec
      else None)"

definition is_backup_restore_operation :: "string \<Rightarrow> string \<Rightarrow> bool" where
  "is_backup_restore_operation meth path \<longleftrightarrow>
     path = ''/restore'' \<or> (meth = ''GET'' \<and> path = ''/backup'')"

definition long_running_client_timeout :: "string \<Rightarrow> string \<Rightarrow> nat" where
  "long_running_client_timeout meth path =
     (let route = large_upload_route path;
          response = max DEFAULT_RESPONSE_TIMEOUT
            (if is_backup_restore_operation meth path then BACKUP_RESTORE_OPERATION_TIMEOUT
             else waiting_route_timeout meth path);
          upload = (if meth = ''POST'' \<or> meth = ''PUT''
                    then (if route \<noteq> None then DEFAULT_UPLOAD_TIMEOUT else DEFAULT_WRITE_TIMEOUT)
                    else 0)
      in server_wait_timeout (upload + response))"

section \<open>The proxy's limits per route\<close>

definition DEFAULT_BODY_LIMIT :: nat where "DEFAULT_BODY_LIMIT = 2 * 1024 * 1024"
definition API_SPEC_BODY_LIMIT :: nat where "API_SPEC_BODY_LIMIT = 30 * 1024 * 1024"
definition RESTORE_BODY_LIMIT :: nat where "RESTORE_BODY_LIMIT = 110 * 1024 * 1024"

definition body_limit_for :: "string \<Rightarrow> nat" where
  "body_limit_for path =
     (case large_upload_route path of
        Some Restore \<Rightarrow> RESTORE_BODY_LIMIT
      | Some ApiSpec \<Rightarrow> API_SPEC_BODY_LIMIT
      | None \<Rightarrow> DEFAULT_BODY_LIMIT)"

definition carries_request_body :: "string \<Rightarrow> bool" where
  "carries_request_body meth \<longleftrightarrow> meth \<noteq> ''GET'' \<and> meth \<noteq> ''HEAD'' \<and> meth \<noteq> ''DELETE''"

definition is_large_upload :: "string \<Rightarrow> string \<Rightarrow> bool" where
  "is_large_upload meth path \<longleftrightarrow>
     carries_request_body meth \<and> body_limit_for path > DEFAULT_BODY_LIMIT"

text \<open>The absolute upload budget and the response deadline of one forwarded request, from the
  configured timeouts (the handler of \<open>/api/proxy/*\<close>).\<close>

definition upload_deadline :: "nat \<Rightarrow> nat \<Rightarrow> string \<Rightarrow> nat" where
  "upload_deadline cfg_upload_timeout cfg_write_timeout path =
     (if body_limit_for path > DEFAULT_BODY_LIMIT then cfg_upload_timeout else cfg_write_timeout)"

definition response_timeout :: "nat \<Rightarrow> string \<Rightarrow> string \<Rightarrow> nat" where
  "response_timeout cfg_read_timeout meth path =
     (if is_backup_restore_operation meth path
      then max cfg_read_timeout BACKUP_RESTORE_OPERATION_TIMEOUT
      else max cfg_read_timeout (waiting_route_timeout meth path))"

lemma large_body_limit_iff: "body_limit_for path > DEFAULT_BODY_LIMIT \<longleftrightarrow> large_upload_route path \<noteq> None"
  by (auto simp: body_limit_for_def DEFAULT_BODY_LIMIT_def API_SPEC_BODY_LIMIT_def
      RESTORE_BODY_LIMIT_def split: option.splits large_upload.splits)

lemma is_large_upload_iff:
  "is_large_upload meth path \<longleftrightarrow> carries_request_body meth \<and> large_upload_route path \<noteq> None"
  by (simp add: is_large_upload_def large_body_limit_iff)

text \<open>The console never gives up before the BFF does. With the shipped timeouts, the
  console's total budget for a request it issues (GET, DELETE, POST or PUT) is the BFF's
  absolute upload budget (for a request with a body) plus the BFF's response deadline plus
  the transport margin, and the response deadline of a waiting route outlasts the wait the
  gateway was asked for by two margins.\<close>

theorem client_budget_outlasts_bff:
  assumes "meth \<in> {''GET'', ''DELETE'', ''POST'', ''PUT''}"
  shows "long_running_client_timeout meth path =
      (if carries_request_body meth
       then upload_deadline DEFAULT_UPLOAD_TIMEOUT DEFAULT_WRITE_TIMEOUT path else 0)
      + response_timeout DEFAULT_RESPONSE_TIMEOUT meth path + TRANSPORT_MARGIN_MS \<and>
    response_timeout DEFAULT_RESPONSE_TIMEOUT ''GET'' ''/config/apply-status'' \<ge>
      APPLY_WAIT_MS + 2 * TRANSPORT_MARGIN_MS \<and>
    (path_match acme_finalize_pattern False path \<longrightarrow>
      response_timeout DEFAULT_RESPONSE_TIMEOUT ''POST'' path \<ge>
        ACME_MAX_WAIT_MS + 2 * TRANSPORT_MARGIN_MS)"
proof -
  have notrestore: "path_match acme_finalize_pattern False path \<Longrightarrow> path \<noteq> ''/restore''"
    by (auto simp: path_match_def acme_finalize_pattern_def)
  show ?thesis using assms notrestore
    by (auto simp: long_running_client_timeout_def carries_request_body_def upload_deadline_def
        large_body_limit_iff response_timeout_def Let_def timeout_defs waiting_route_timeout_def
        is_backup_restore_operation_def)
qed

theorem client_budget_outlasts_bff_witness:
  "long_running_client_timeout ''POST'' ''/restore'' = 300000 + 120000 + 5000"
  using client_budget_outlasts_bff [of "''POST''" "''/restore''"]
  by (simp add: carries_request_body_def upload_deadline_def large_body_limit_iff
      large_upload_route_def response_timeout_def is_backup_restore_operation_def timeout_defs)

end
