(* ===== verification/Admission.thy ===== *)
theory Admission
  imports WaitBudget "HOL-Library.Multiset"
begin

text \<open>
  Admission control of the proxy (\<open>server/proxy.ts\<close>): the two upload pools with their
  per-subject shares, the long-read pool, and the guard on each upload stream. A counter and
  its per-subject map is a \<open>ledger\<close>; the locale \<open>permit_ledger\<close> states the contract the
  three pools rely on, that a ledger always describes the multiset of permits out, and is
  interpreted on the code's own increments and decrements.
\<close>

section \<open>Ledgers\<close>

record ledger =
  active :: nat
  by_subject :: "(string, nat) jsmap"

definition empty_ledger :: ledger where
  "empty_ledger = \<lparr>active = 0, by_subject = []\<rparr>"

definition subject_count :: "ledger \<Rightarrow> string \<Rightarrow> nat" where
  "subject_count l s = (case jm_get (by_subject l) s of Some n \<Rightarrow> n | None \<Rightarrow> 0)"

definition ledger_take :: "string option \<Rightarrow> ledger \<Rightarrow> ledger" where
  "ledger_take subj l =
     l\<lparr>active := active l + 1,
       by_subject := (case subj of None \<Rightarrow> by_subject l
         | Some s \<Rightarrow> jm_set s (subject_count l s + 1) (by_subject l))\<rparr>"

definition decrement_subject :: "string option \<Rightarrow> (string, nat) jsmap \<Rightarrow> (string, nat) jsmap" where
  "decrement_subject subj counts =
     (case subj of None \<Rightarrow> counts
      | Some s \<Rightarrow>
          (let remaining = int (case jm_get counts s of Some n \<Rightarrow> n | None \<Rightarrow> 1) - 1 in
           if remaining > 0 then jm_set s (nat remaining) counts else jm_delete s counts))"

definition ledger_give :: "string option \<Rightarrow> ledger \<Rightarrow> ledger" where
  "ledger_give subj l =
     l\<lparr>active := nat (max 0 (int (active l) - 1)), by_subject := decrement_subject subj (by_subject l)\<rparr>"

text \<open>A ledger describes a multiset of permits, each held for a subject or for none.\<close>

definition ledger_rep :: "ledger \<Rightarrow> string option multiset \<Rightarrow> bool" where
  "ledger_rep l M \<longleftrightarrow> active l = size M \<and> jm_ok (by_subject l) \<and>
     (\<forall>s. jm_get (by_subject l) s = (if Some s \<in># M then Some (Multiset.count M (Some s)) else None))"

locale permit_ledger =
  fixes none_out :: 'l
    and take_permit :: "'h \<Rightarrow> 'l \<Rightarrow> 'l"
    and give_permit :: "'h \<Rightarrow> 'l \<Rightarrow> 'l"
    and out :: "'l \<Rightarrow> 'h multiset \<Rightarrow> bool"
  assumes out_none: "out none_out {#}"
    and out_take: "out l M \<Longrightarrow> out (take_permit h l) (add_mset h M)"
    and out_give: "out l M \<Longrightarrow> h \<in># M \<Longrightarrow> out (give_permit h l) (M - {#h#})"
begin

lemma take_give: "out l M \<Longrightarrow> out (give_permit h (take_permit h l)) M"
  using out_give [OF out_take, of l M h h] by simp

lemma take_many: "out l M \<Longrightarrow> out (fold take_permit hs l) (mset hs + M)"
proof (induction hs arbitrary: l M)
  case Nil
  then show ?case by simp
next
  case (Cons h hs)
  then have "out (fold take_permit hs (take_permit h l)) (mset hs + add_mset h M)"
    by (blast intro: out_take)
  then show ?case by simp
qed

lemma give_many: "out l (mset hs + M) \<Longrightarrow> out (fold give_permit hs l) M"
proof (induction hs arbitrary: l)
  case Nil
  then show ?case by simp
next
  case (Cons h hs)
  have "out (give_permit h l) (mset hs + M)" using out_give [OF Cons.prems, of h] by simp
  then show ?case using Cons.IH by simp
qed

text \<open>Whatever order the permits come back in, returning all of them leaves nothing out.\<close>

lemma give_all: "mset hs = mset hs' \<Longrightarrow> out l M \<Longrightarrow> out (fold give_permit hs' (fold take_permit hs l)) M"
  using give_many [of "fold take_permit hs l" hs' M] take_many [of l M hs] by simp

end

lemma subject_count_rep: "ledger_rep l M \<Longrightarrow> subject_count l s = Multiset.count M (Some s)"
  by (auto simp: ledger_rep_def subject_count_def not_in_iff)

lemma ledger_rep_take: "ledger_rep l M \<Longrightarrow> ledger_rep (ledger_take h l) (add_mset h M)"
  using subject_count_rep [of l M]
  by (auto simp: ledger_rep_def ledger_take_def jm_simps inv_intros split: option.splits)

lemma ledger_rep_give:
  assumes rep: "ledger_rep l M" and held: "h \<in># M"
  shows "ledger_rep (ledger_give h l) (M - {#h#})"
proof (cases h)
  case None
  then show ?thesis using assms
    by (auto simp: ledger_rep_def ledger_give_def decrement_subject_def size_Diff_singleton
        in_diff_count nat_diff_distrib)
next
  case (Some s)
  have pos: "Multiset.count M (Some s) > 0" using held Some by simp
  then show ?thesis using assms Some
    by (auto simp: ledger_rep_def ledger_give_def decrement_subject_def size_Diff_singleton Let_def
        jm_simps inv_intros in_diff_count nat_diff_distrib not_in_iff)
qed

interpretation permits: permit_ledger empty_ledger ledger_take ledger_give ledger_rep
  by unfold_locales (auto simp: ledger_rep_take ledger_rep_give, simp add: ledger_rep_def empty_ledger_def)

lemma ledger_rep_unique_empty: "ledger_rep l {#} \<Longrightarrow> l = empty_ledger"
proof -
  assume rep: "ledger_rep l {#}"
  then have "\<forall>s. jm_get (by_subject l) s = None" by (simp add: ledger_rep_def)
  then have "by_subject l = []"
    by (cases "by_subject l") (auto simp: jm_get_None_iff jm_keys_def)
  then show ?thesis using rep by (cases l) (simp add: ledger_rep_def empty_ledger_def)
qed

section \<open>A pool: a ledger with a capacity and a per-subject share\<close>

definition at_share :: "string option \<Rightarrow> ledger \<Rightarrow> nat \<Rightarrow> bool" where
  "at_share subj l share = (case subj of None \<Rightarrow> False | Some s \<Rightarrow> subject_count l s \<ge> share)"

definition pool_ok :: "nat \<Rightarrow> nat \<Rightarrow> ledger \<Rightarrow> string option multiset \<Rightarrow> bool" where
  "pool_ok cap share l M \<longleftrightarrow>
     ledger_rep l M \<and> size M \<le> cap \<and> (\<forall>s. Multiset.count M (Some s) \<le> share)"

lemma pool_ok_empty [inv_intros]: "pool_ok cap share empty_ledger {#}"
  using permits.out_none by (simp add: pool_ok_def)

lemma pool_ok_give [inv_intros]:
  assumes "pool_ok cap share l M" "h \<in># M"
  shows "pool_ok cap share (ledger_give h l) (M - {#h#})"
proof -
  have "Multiset.count (M - {#h#}) x \<le> Multiset.count M x" for x by simp
  moreover have "size (M - {#h#}) \<le> size M" by (simp add: size_mset_mono)
  ultimately show ?thesis using assms permits.out_give [of l M h]
    unfolding pool_ok_def by (meson le_trans)
qed

lemma pool_ok_take [inv_intros]:
  assumes "pool_ok cap share l M" "active l < cap" "\<not> at_share h l share"
  shows "pool_ok cap share (ledger_take h l) (add_mset h M)"
  using assms permits.out_take [of l M h] subject_count_rep [of l M]
  by (auto simp: pool_ok_def at_share_def ledger_rep_def split: option.splits)

section \<open>The upload pools\<close>

record upload_limits =
  max_active_uploads :: nat
  max_large_uploads :: nat
  max_uploads_per_principal :: nat
  max_large_uploads_per_principal :: nat

text \<open>What the admission hooks read of a request: its identity (the key of the \<open>WeakMap\<close>),
  its method and validated target path, its authenticated subject and grants, and whether
  the reply's socket is already destroyed when the hook runs.\<close>

record request_info =
  req_id :: nat
  req_method :: string
  req_path :: string
  req_subject :: "string option"
  req_namespaces :: "string list option"
  reply_destroyed :: bool

record upload_state =
  uploads :: ledger
  large_uploads :: ledger
  reserved_uploads :: "(nat, string option \<times> bool) jsmap"

datatype capacity_scope = ScopeAll | ScopePrincipal | ScopeLarge | ScopePrincipalLarge

definition empty_uploads :: upload_state where
  "empty_uploads = \<lparr>uploads = empty_ledger, large_uploads = empty_ledger, reserved_uploads = []\<rparr>"

definition release_upload :: "nat \<Rightarrow> upload_state \<Rightarrow> upload_state" where
  "release_upload i st =
     (case jm_get (reserved_uploads st) i of
        None \<Rightarrow> st
      | Some (subj, large) \<Rightarrow>
          st\<lparr>reserved_uploads := jm_delete i (reserved_uploads st),
             large_uploads := (if large then ledger_give subj (large_uploads st) else large_uploads st),
             uploads := ledger_give subj (uploads st)\<rparr>)"

definition upload_refusal :: "upload_limits \<Rightarrow> request_info \<Rightarrow> upload_state \<Rightarrow> capacity_scope option" where
  "upload_refusal lim r st =
     (if active (uploads st) \<ge> max_active_uploads lim then Some ScopeAll
      else if at_share (req_subject r) (uploads st) (max_uploads_per_principal lim) then Some ScopePrincipal
      else if is_large_upload (req_method r) (req_path r)
      then (if active (large_uploads st) \<ge> max_large_uploads lim then Some ScopeLarge
            else if at_share (req_subject r) (large_uploads st) (max_large_uploads_per_principal lim)
            then Some ScopePrincipalLarge else None)
      else None)"

definition reserve_upload ::
  "upload_limits \<Rightarrow> request_info \<Rightarrow> upload_state \<Rightarrow> capacity_scope option \<times> upload_state" where
  "reserve_upload lim r st =
     (if \<not> carries_request_body (req_method r) then (None, st)
      else case upload_refusal lim r st of
        Some scope \<Rightarrow> (Some scope, st)
      | None \<Rightarrow>
          (let large = is_large_upload (req_method r) (req_path r);
               st1 = st\<lparr>large_uploads := (if large then ledger_take (req_subject r) (large_uploads st)
                                          else large_uploads st),
                        uploads := ledger_take (req_subject r) (uploads st),
                        reserved_uploads := jm_set (req_id r) (req_subject r, large) (reserved_uploads st)\<rparr>
           in (None, if reply_destroyed r then release_upload (req_id r) st1 else st1)))"

text \<open>Requests arrive once each; the terminal hooks and the response's close may fire in any
  order and any number of times.\<close>

datatype pool_event = Arrive request_info | Finish nat

fun upload_step :: "upload_limits \<Rightarrow> upload_state \<Rightarrow> pool_event \<Rightarrow> upload_state" where
  "upload_step lim st (Arrive r) = snd (reserve_upload lim r st)"
| "upload_step lim st (Finish i) = release_upload i st"

definition upload_run :: "upload_limits \<Rightarrow> pool_event list \<Rightarrow> upload_state" where
  "upload_run lim evs = foldl (upload_step lim) empty_uploads evs"

fun arrivals :: "pool_event list \<Rightarrow> nat list" where
  "arrivals [] = []"
| "arrivals (Arrive r # evs) = req_id r # arrivals evs"
| "arrivals (Finish i # evs) = arrivals evs"

lemma arrivals_append [simp]: "arrivals (xs @ ys) = arrivals xs @ arrivals ys"
  by (induction xs rule: arrivals.induct) auto

section \<open>The upload invariant\<close>

definition held_subjects :: "upload_state \<Rightarrow> string option multiset" where
  "held_subjects st = mset (map (fst \<circ> snd) (reserved_uploads st))"

definition held_large :: "upload_state \<Rightarrow> string option multiset" where
  "held_large st = mset (map (fst \<circ> snd) (filter (snd \<circ> snd) (reserved_uploads st)))"

definition upload_inv :: "upload_limits \<Rightarrow> upload_state \<Rightarrow> bool" where
  "upload_inv lim st \<longleftrightarrow>
     jm_ok (reserved_uploads st) \<and>
     pool_ok (max_active_uploads lim) (max_uploads_per_principal lim) (uploads st) (held_subjects st) \<and>
     pool_ok (max_large_uploads lim) (max_large_uploads_per_principal lim) (large_uploads st) (held_large st)"

text \<open>The permits out, as a multiset of the reservations a \<open>WeakMap\<close> holds.\<close>

lemma mset_map_delete:
  assumes "jm_ok m" "jm_get m k = Some v"
  shows "mset (map (f \<circ> snd) (jm_delete k m)) = mset (map (f \<circ> snd) m) - {#f v#} \<and>
    f v \<in># mset (map (f \<circ> snd) m)"
  using assms
proof (induction m)
  case Nil
  then show ?case by simp
next
  case (Cons p m)
  obtain a w where p: "p = (a, w)" by (cases p)
  show ?case
  proof (cases "a = k")
    case True
    then have "jm_get m k = None" using Cons.prems(1) p
      by (auto simp: jm_ok_def jm_keys_def jm_get_None_iff)
    then have "jm_delete k m = m" by (rule jm_delete_absent)
    then show ?thesis using True p Cons.prems(2) by (simp add: jm_delete_def)
  next
    case False
    then have "jm_ok m" "jm_get m k = Some v" using Cons.prems p by (auto simp: jm_ok_def jm_keys_def)
    note IH = Cons.IH [OF this]
    have "mset (map (f \<circ> snd) (jm_delete k (p # m))) =
        add_mset (f w) (mset (map (f \<circ> snd) (jm_delete k m)))"
      using False p by (simp add: jm_delete_def)
    moreover have "mset (map (f \<circ> snd) (p # m)) = add_mset (f w) (mset (map (f \<circ> snd) m))"
      using p by simp
    moreover have "add_mset (f w) N - {#f v#} = add_mset (f w) (N - {#f v#})" if "f v \<in># N" for N
      using diff_union_single_conv [OF that, of "{#f w#}"] by simp
    ultimately show ?thesis using IH by (simp only:) (metis union_iff add_mset_add_single)
  qed
qed

lemma filter_delete: "filter (Q \<circ> snd) (jm_delete k m) = jm_delete k (filter (Q \<circ> snd) m)"
  by (simp add: jm_delete_def AList.delete_eq conj_commute)

lemma jm_get_filter_snd: "jm_ok m \<Longrightarrow> jm_get (filter (Q \<circ> snd) m) k =
    (case jm_get m k of None \<Rightarrow> None | Some v \<Rightarrow> if Q v then Some v else None)"
  using jm_get_filter [of m "\<lambda>_. Q" k] by (simp add: case_prod_unfold comp_def)

lemma held_release:
  assumes ok: "jm_ok (reserved_uploads st)" and get: "jm_get (reserved_uploads st) i = Some (subj, large)"
  shows "held_subjects (release_upload i st) = held_subjects st - {#subj#}"
    "subj \<in># held_subjects st"
    "held_large (release_upload i st) = (if large then held_large st - {#subj#} else held_large st)"
    "large \<Longrightarrow> subj \<in># held_large st"
proof -
  let ?m = "reserved_uploads st"
  have res: "reserved_uploads (release_upload i st) = jm_delete i ?m"
    using get by (simp add: release_upload_def)
  show "held_subjects (release_upload i st) = held_subjects st - {#subj#}" "subj \<in># held_subjects st"
    using mset_map_delete [OF ok get, of fst] unfolding held_subjects_def res fst_conv by blast+
  have getf: "jm_get (filter (snd \<circ> snd) ?m) i = (if large then Some (subj, large) else None)"
    using jm_get_filter_snd [OF ok, of snd i] get by simp
  have okf: "jm_ok (filter (snd \<circ> snd) ?m)" using ok by (rule jm_ok_filter)
  have large': "held_large (release_upload i st) =
      mset (map (fst \<circ> snd) (jm_delete i (filter (snd \<circ> snd) ?m)))"
    unfolding held_large_def res filter_delete ..
  have large0: "held_large st = mset (map (fst \<circ> snd) (filter (snd \<circ> snd) ?m))"
    by (rule held_large_def)
  show "held_large (release_upload i st) = (if large then held_large st - {#subj#} else held_large st)"
  proof (cases large)
    case True
    then show ?thesis using mset_map_delete [OF okf, of i "(subj, large)" fst] getf
      by (simp only: large' large0 if_True fst_conv)
  next
    case False
    then have "jm_delete i (filter (snd \<circ> snd) ?m) = filter (snd \<circ> snd) ?m"
      using getf by (simp add: jm_delete_absent)
    then show ?thesis using False by (simp only: large' large0 if_False)
  qed
  show "subj \<in># held_large st" if large
    using mset_map_delete [OF okf, of i "(subj, large)" fst] getf that
    by (simp only: large0 if_True fst_conv)
qed

lemma release_upload_inv [inv_intros]:
  assumes inv: "upload_inv lim st"
  shows "upload_inv lim (release_upload i st)"
proof (cases "jm_get (reserved_uploads st) i")
  case None
  then show ?thesis using inv by (simp add: release_upload_def)
next
  case (Some v)
  obtain subj large where get: "jm_get (reserved_uploads st) i = Some (subj, large)"
    using Some by (cases v) auto
  have ok: "jm_ok (reserved_uploads st)" using inv by (simp add: upload_inv_def)
  note held = held_release [OF ok get]
  show ?thesis using inv get ok held
    by (auto simp: upload_inv_def release_upload_def jm_ok_delete pool_ok_give)
qed

lemma reserve_upload_inv [inv_intros]:
  assumes inv: "upload_inv lim st" and fresh: "jm_get (reserved_uploads st) (req_id r) = None"
  shows "upload_inv lim (snd (reserve_upload lim r st))"
proof (cases "carries_request_body (req_method r) \<and> upload_refusal lim r st = None")
  case False
  then show ?thesis using inv by (auto simp: reserve_upload_def split: option.splits)
next
  case True
  define large where "large = is_large_upload (req_method r) (req_path r)"
  define st1 where "st1 = st\<lparr>large_uploads := (if large then ledger_take (req_subject r) (large_uploads st)
                                          else large_uploads st),
                        uploads := ledger_take (req_subject r) (uploads st),
                        reserved_uploads := jm_set (req_id r) (req_subject r, large) (reserved_uploads st)\<rparr>"
  have held: "held_subjects st1 = add_mset (req_subject r) (held_subjects st)"
    "held_large st1 = (if large then add_mset (req_subject r) (held_large st) else held_large st)"
    using fresh by (auto simp: held_subjects_def held_large_def st1_def jm_set_absent)
  have room: "active (uploads st) < max_active_uploads lim"
    "\<not> at_share (req_subject r) (uploads st) (max_uploads_per_principal lim)"
    "large \<Longrightarrow> active (large_uploads st) < max_large_uploads lim"
    "large \<Longrightarrow> \<not> at_share (req_subject r) (large_uploads st) (max_large_uploads_per_principal lim)"
    using True by (auto simp: upload_refusal_def large_def split: if_splits)
  have "upload_inv lim st1"
    using inv room unfolding upload_inv_def held
    by (auto simp: st1_def jm_ok_set pool_ok_take)
  moreover have "snd (reserve_upload lim r st) =
      (if reply_destroyed r then release_upload (req_id r) st1 else st1)"
    using True by (simp add: reserve_upload_def st1_def large_def Let_def)
  ultimately show ?thesis by (simp add: release_upload_inv)
qed

lemma reserved_upload_step:
  "jm_get (reserved_uploads (upload_step lim st ev)) i \<noteq> None \<Longrightarrow>
   (jm_get (reserved_uploads st) i \<noteq> None \<and> ev \<noteq> Finish i) \<or> (\<exists>r. ev = Arrive r \<and> req_id r = i)"
  by (cases ev)
    (auto simp: reserve_upload_def release_upload_def Let_def jm_simps
      split: option.splits prod.splits if_splits)

lemma upload_run_snoc: "upload_run lim (evs @ [ev]) = upload_step lim (upload_run lim evs) ev"
  by (simp add: upload_run_def)

text \<open>A reservation still held goes back to an arrival that no terminal hook followed.\<close>

lemma reserved_origin:
  "jm_get (reserved_uploads (upload_run lim evs)) i \<noteq> None \<Longrightarrow>
   \<exists>pre r post. evs = pre @ Arrive r # post \<and> req_id r = i \<and> Finish i \<notin> set post"
proof (induction evs rule: rev_induct)
  case Nil
  then show ?case by (simp add: upload_run_def empty_uploads_def)
next
  case (snoc ev evs)
  from reserved_upload_step [OF snoc.prems [unfolded upload_run_snoc]] show ?case
  proof
    assume "jm_get (reserved_uploads (upload_run lim evs)) i \<noteq> None \<and> ev \<noteq> Finish i"
    with snoc.IH obtain pre r post
      where "evs = pre @ Arrive r # post" "req_id r = i" "Finish i \<notin> set (post @ [ev])" by auto
    then show ?thesis by (metis append.assoc append_Cons)
  next
    assume "\<exists>r. ev = Arrive r \<and> req_id r = i"
    then obtain r where "evs @ [ev] = evs @ Arrive r # []" "req_id r = i" by auto
    then show ?thesis by (metis empty_iff list.set(1))
  qed
qed

lemma reserved_arrived: "jm_get (reserved_uploads (upload_run lim evs)) i \<noteq> None \<Longrightarrow> i \<in> set (arrivals evs)"
  using reserved_origin [of lim evs i] by auto

lemma upload_inv_empty [inv_intros]: "upload_inv lim empty_uploads"
  using pool_ok_empty
  by (simp add: upload_inv_def empty_uploads_def held_subjects_def held_large_def)

lemma upload_run_inv [inv_intros]: "distinct (arrivals evs) \<Longrightarrow> upload_inv lim (upload_run lim evs)"
proof (induction evs rule: rev_induct)
  case Nil
  then show ?case using upload_inv_empty by (simp add: upload_run_def)
next
  case (snoc ev evs)
  then have inv: "upload_inv lim (upload_run lim evs)" by simp
  show ?case
  proof (cases ev)
    case (Arrive r)
    then have "jm_get (reserved_uploads (upload_run lim evs)) (req_id r) = None"
      using reserved_arrived [of lim evs "req_id r"] snoc.prems by fastforce
    then show ?thesis using inv Arrive by (simp add: upload_run_snoc reserve_upload_inv)
  next
    case (Finish i)
    then show ?thesis using inv by (simp add: upload_run_snoc release_upload_inv)
  qed
qed

section \<open>Long-running reads\<close>

record long_read_limits =
  max_active_long_reads :: nat
  max_long_reads_per_principal :: nat

record long_read_state =
  long_reads :: ledger
  reserved_long_reads :: "(nat, string) jsmap"

definition empty_long_reads :: long_read_state where
  "empty_long_reads = \<lparr>long_reads = empty_ledger, reserved_long_reads = []\<rparr>"

definition is_scoped_namespace_list :: "request_info \<Rightarrow> string \<Rightarrow> bool" where
  "is_scoped_namespace_list r path \<longleftrightarrow>
     req_method r = ''GET'' \<and> path = ''/namespaces'' \<and> req_namespaces r \<noteq> None"

definition is_long_read :: "request_info \<Rightarrow> bool" where
  "is_long_read r \<longleftrightarrow>
     (req_method r = ''GET'' \<or> req_method r = ''HEAD'') \<and>
     (waiting_route_timeout ''GET'' (req_path r) > 0 \<or> req_path r = ''/backup'' \<or>
      is_scoped_namespace_list r (req_path r))"

definition release_long_read :: "nat \<Rightarrow> long_read_state \<Rightarrow> long_read_state" where
  "release_long_read i st =
     (case jm_get (reserved_long_reads st) i of
        None \<Rightarrow> st
      | Some subj \<Rightarrow>
          st\<lparr>reserved_long_reads := jm_delete i (reserved_long_reads st),
             long_reads := ledger_give (Some subj) (long_reads st)\<rparr>)"

definition reserve_long_read ::
  "long_read_limits \<Rightarrow> request_info \<Rightarrow> long_read_state \<Rightarrow> capacity_scope option \<times> long_read_state" where
  "reserve_long_read lim r st =
     (case req_subject r of
        None \<Rightarrow> (None, st)
      | Some subj \<Rightarrow>
          if \<not> is_long_read r then (None, st)
          else if subject_count (long_reads st) subj \<ge> max_long_reads_per_principal lim
          then (Some ScopePrincipal, st)
          else if active (long_reads st) \<ge> max_active_long_reads lim then (Some ScopeAll, st)
          else let st1 = st\<lparr>long_reads := ledger_take (Some subj) (long_reads st),
                            reserved_long_reads := jm_set (req_id r) subj (reserved_long_reads st)\<rparr>
               in (None, if reply_destroyed r then release_long_read (req_id r) st1 else st1))"

fun long_read_step :: "long_read_limits \<Rightarrow> long_read_state \<Rightarrow> pool_event \<Rightarrow> long_read_state" where
  "long_read_step lim st (Arrive r) = snd (reserve_long_read lim r st)"
| "long_read_step lim st (Finish i) = release_long_read i st"

definition long_read_run :: "long_read_limits \<Rightarrow> pool_event list \<Rightarrow> long_read_state" where
  "long_read_run lim evs = foldl (long_read_step lim) empty_long_reads evs"

definition held_reads :: "long_read_state \<Rightarrow> string option multiset" where
  "held_reads st = mset (map (Some \<circ> snd) (reserved_long_reads st))"

definition long_read_inv :: "long_read_limits \<Rightarrow> long_read_state \<Rightarrow> bool" where
  "long_read_inv lim st \<longleftrightarrow> jm_ok (reserved_long_reads st) \<and>
     pool_ok (max_active_long_reads lim) (max_long_reads_per_principal lim) (long_reads st) (held_reads st)"

lemma release_long_read_inv [inv_intros]:
  assumes inv: "long_read_inv lim st"
  shows "long_read_inv lim (release_long_read i st)"
proof (cases "jm_get (reserved_long_reads st) i")
  case None
  then show ?thesis using inv by (simp add: release_long_read_def)
next
  case (Some subj)
  have ok: "jm_ok (reserved_long_reads st)" using inv by (simp add: long_read_inv_def)
  have res: "reserved_long_reads (release_long_read i st) = jm_delete i (reserved_long_reads st)"
    using Some by (simp add: release_long_read_def)
  have "held_reads (release_long_read i st) = held_reads st - {#Some subj#} \<and> Some subj \<in># held_reads st"
    using mset_map_delete [OF ok Some, of Some] unfolding held_reads_def res .
  then show ?thesis using inv Some
    by (auto simp: long_read_inv_def release_long_read_def jm_ok_delete pool_ok_give)
qed

lemma reserve_long_read_inv [inv_intros]:
  assumes inv: "long_read_inv lim st" and fresh: "jm_get (reserved_long_reads st) (req_id r) = None"
  shows "long_read_inv lim (snd (reserve_long_read lim r st))"
proof (cases "\<exists>subj. req_subject r = Some subj \<and> is_long_read r \<and>
    subject_count (long_reads st) subj < max_long_reads_per_principal lim \<and>
    active (long_reads st) < max_active_long_reads lim")
  case False
  then have "snd (reserve_long_read lim r st) = st"
    by (auto simp: reserve_long_read_def not_le split: option.splits)
  then show ?thesis using inv by simp
next
  case True
  then obtain subj where subj: "req_subject r = Some subj" "is_long_read r"
    "subject_count (long_reads st) subj < max_long_reads_per_principal lim"
    "active (long_reads st) < max_active_long_reads lim" by blast
  define st1 where "st1 = st\<lparr>long_reads := ledger_take (Some subj) (long_reads st),
                            reserved_long_reads := jm_set (req_id r) subj (reserved_long_reads st)\<rparr>"
  have "held_reads st1 = add_mset (Some subj) (held_reads st)"
    using fresh by (simp add: held_reads_def st1_def jm_set_absent)
  then have "long_read_inv lim st1" using inv subj
    by (simp add: long_read_inv_def st1_def jm_ok_set pool_ok_take at_share_def)
  moreover have "snd (reserve_long_read lim r st) =
      (if reply_destroyed r then release_long_read (req_id r) st1 else st1)"
    using subj by (simp add: reserve_long_read_def st1_def Let_def)
  ultimately show ?thesis by (simp add: release_long_read_inv)
qed

lemma reserved_long_read_step:
  "jm_get (reserved_long_reads (long_read_step lim st ev)) i \<noteq> None \<Longrightarrow>
   (jm_get (reserved_long_reads st) i \<noteq> None \<and> ev \<noteq> Finish i) \<or> (\<exists>r. ev = Arrive r \<and> req_id r = i)"
  by (cases ev)
    (auto simp: reserve_long_read_def release_long_read_def Let_def jm_simps
      split: option.splits if_splits)

lemma long_read_run_snoc: "long_read_run lim (evs @ [ev]) = long_read_step lim (long_read_run lim evs) ev"
  by (simp add: long_read_run_def)

lemma reserved_long_read_arrived:
  "jm_get (reserved_long_reads (long_read_run lim evs)) i \<noteq> None \<Longrightarrow> i \<in> set (arrivals evs)"
proof (induction evs rule: rev_induct)
  case Nil
  then show ?case by (simp add: long_read_run_def empty_long_reads_def)
next
  case (snoc ev evs)
  from reserved_long_read_step [OF snoc.prems [unfolded long_read_run_snoc]] snoc.IH
  show ?case by auto
qed

lemma long_read_run_inv [inv_intros]:
  "distinct (arrivals evs) \<Longrightarrow> long_read_inv lim (long_read_run lim evs)"
proof (induction evs rule: rev_induct)
  case Nil
  then show ?case using pool_ok_empty
    by (simp add: long_read_run_def long_read_inv_def empty_long_reads_def held_reads_def)
next
  case (snoc ev evs)
  then have inv: "long_read_inv lim (long_read_run lim evs)" by simp
  show ?case
  proof (cases ev)
    case (Arrive r)
    then have "jm_get (reserved_long_reads (long_read_run lim evs)) (req_id r) = None"
      using reserved_long_read_arrived [of lim evs "req_id r"] snoc.prems by fastforce
    then show ?thesis using inv Arrive by (simp add: long_read_run_snoc reserve_long_read_inv)
  next
    case (Finish i)
    then show ?thesis using inv by (simp add: long_read_run_snoc release_long_read_inv)
  qed
qed

section \<open>The guard on one upload stream\<close>

datatype upload_failure = TooLarge | IdleTimeout | DeadlineTimeout
datatype guard_status = Streaming | Ended | Failed upload_failure

record guarded_upload =
  gu_limit :: nat
  gu_idle_timeout :: nat
  gu_received :: nat
  gu_idle_at :: nat
  gu_deadline_at :: nat
  gu_status :: guard_status
  gu_forwarded :: "(nat \<times> nat) list"

definition new_guarded_upload :: "nat \<Rightarrow> nat \<Rightarrow> nat \<Rightarrow> nat \<Rightarrow> guarded_upload" where
  "new_guarded_upload limit idle_timeout deadline now =
     \<lparr>gu_limit = limit, gu_idle_timeout = idle_timeout, gu_received = 0,
      gu_idle_at = now + idle_timeout, gu_deadline_at = now + deadline,
      gu_status = Streaming, gu_forwarded = []\<rparr>"

text \<open>A timer that is due fires before the next chunk is handed to \<open>_transform\<close>; the one
  armed to expire first fires first, the deadline on a tie.\<close>

definition guard_expire :: "nat \<Rightarrow> guarded_upload \<Rightarrow> guarded_upload" where
  "guard_expire now g =
     (if gu_status g = Streaming \<and> gu_deadline_at g \<le> now \<and> gu_deadline_at g \<le> gu_idle_at g
      then g\<lparr>gu_status := Failed DeadlineTimeout\<rparr>
      else if gu_status g = Streaming \<and> gu_idle_at g \<le> now
      then g\<lparr>gu_status := Failed IdleTimeout\<rparr>
      else g)"

definition guard_transform :: "nat \<Rightarrow> nat \<Rightarrow> guarded_upload \<Rightarrow> guarded_upload" where
  "guard_transform now len g =
     (let received = gu_received g + len in
      if received > gu_limit g then g\<lparr>gu_received := received, gu_status := Failed TooLarge\<rparr>
      else g\<lparr>gu_received := received, gu_idle_at := now + gu_idle_timeout g,
             gu_forwarded := gu_forwarded g @ [(now, len)]\<rparr>)"

datatype guard_event = Chunk nat nat | EndOfBody nat

fun guard_step :: "guarded_upload \<Rightarrow> guard_event \<Rightarrow> guarded_upload" where
  "guard_step g (Chunk now len) =
     (let g1 = guard_expire now g in if gu_status g1 = Streaming then guard_transform now len g1 else g1)"
| "guard_step g (EndOfBody now) =
     (let g1 = guard_expire now g in if gu_status g1 = Streaming then g1\<lparr>gu_status := Ended\<rparr> else g1)"

definition guard_run :: "guarded_upload \<Rightarrow> guard_event list \<Rightarrow> guarded_upload" where
  "guard_run g evs = foldl guard_step g evs"

definition forwarded_bytes :: "guarded_upload \<Rightarrow> nat" where
  "forwarded_bytes g = sum_list (map snd (gu_forwarded g))"

fun sent_bytes :: "guard_event list \<Rightarrow> nat" where
  "sent_bytes [] = 0"
| "sent_bytes (Chunk _ len # evs) = len + sent_bytes evs"
| "sent_bytes (EndOfBody _ # evs) = sent_bytes evs"

fun is_chunk :: "guard_event \<Rightarrow> bool" where
  "is_chunk (Chunk _ _) = True"
| "is_chunk (EndOfBody _) = False"

lemma sent_bytes_append [simp]: "sent_bytes (xs @ ys) = sent_bytes xs + sent_bytes ys"
  by (induction xs rule: sent_bytes.induct) auto

definition guard_inv :: "nat \<Rightarrow> guarded_upload \<Rightarrow> guard_event list \<Rightarrow> bool" where
  "guard_inv due g evs \<longleftrightarrow>
     gu_deadline_at g = due \<and> forwarded_bytes g \<le> gu_limit g \<and>
     (\<forall>(at, len) \<in> set (gu_forwarded g). at < due) \<and>
     (gu_status g = Streaming \<longrightarrow> gu_received g = forwarded_bytes g \<and> list_all is_chunk evs) \<and>
     (gu_status g = Ended \<longrightarrow> \<not> list_all is_chunk evs) \<and>
     (gu_status g = Streaming \<or> gu_status g = Ended \<longrightarrow>
        forwarded_bytes g = sent_bytes (takeWhile is_chunk evs))"

lemma takeWhile_all: "list_all P xs \<Longrightarrow> takeWhile P (xs @ ys) = xs @ takeWhile P ys"
  by (induction xs) auto

lemma takeWhile_not_all: "\<not> list_all P xs \<Longrightarrow> takeWhile P (xs @ ys) = takeWhile P xs"
  by (induction xs) auto

lemma takeWhile_all_id: "list_all P xs \<Longrightarrow> takeWhile P xs = xs"
  using takeWhile_all [of P xs "[]"] by simp

lemma guard_expire_inv: "guard_inv due g evs \<Longrightarrow> guard_inv due (guard_expire now g) evs"
  by (auto simp: guard_inv_def guard_expire_def forwarded_bytes_def)

lemma guard_expire_streaming:
  "gu_status (guard_expire now g) = Streaming \<Longrightarrow>
   guard_expire now g = g \<and> now < gu_deadline_at g \<and> now < gu_idle_at g"
  by (auto simp: guard_expire_def split: if_splits)

lemma guard_step_inv:
  assumes inv: "guard_inv due g evs"
  shows "guard_inv due (guard_step g ev) (evs @ [ev])"
proof -
  obtain now where now: "(\<exists>len. ev = Chunk now len) \<or> ev = EndOfBody now" by (cases ev) auto
  define g1 where "g1 = guard_expire now g"
  have inv1: "guard_inv due g1 evs" using inv by (simp add: g1_def guard_expire_inv)
  show ?thesis
  proof (cases "gu_status g1 = Streaming")
    case True
    then have "now < gu_deadline_at g1" using guard_expire_streaming [of now g] by (simp add: g1_def)
    then show ?thesis using inv1 True now
      by (auto simp: guard_inv_def guard_transform_def forwarded_bytes_def Let_def
          takeWhile_all takeWhile_all_id g1_def [symmetric] split: if_splits)
  next
    case False
    then have "guard_step g ev = g1" using now by (auto simp: g1_def Let_def)
    then show ?thesis using inv1 False by (auto simp: guard_inv_def takeWhile_not_all)
  qed
qed

lemma guard_run_inv: "guard_inv due g evs0 \<Longrightarrow> guard_inv due (guard_run g evs) (evs0 @ evs)"
proof (induction evs arbitrary: g evs0)
  case Nil
  then show ?case by (simp add: guard_run_def)
next
  case (Cons ev evs)
  from Cons.IH [OF guard_step_inv [OF Cons.prems]] show ?case by (simp add: guard_run_def)
qed

lemma guard_run_limit: "gu_limit (guard_run g evs) = gu_limit g"
proof (induction evs arbitrary: g)
  case Nil
  then show ?case by (simp add: guard_run_def)
next
  case (Cons ev evs)
  have "gu_limit (guard_step g ev) = gu_limit g"
    by (cases ev) (auto simp: guard_expire_def guard_transform_def Let_def)
  then show ?case using Cons by (simp add: guard_run_def)
qed

section \<open>Properties\<close>

lemma count_reserved:
  "Multiset.count (mset (map (fst \<circ> snd) m)) s = length (filter (\<lambda>(i, subj, large). subj = s) m)"
  by (induction m) auto

text \<open>C3: The upload pools always describe the requests actually in flight and stay within
  their limits. After any sequence of arrivals (each request once) and of terminal hooks and
  socket closes (in any order, any number of times), the global counter is the number of
  reserved requests and at most the pool's capacity, the large-upload counter that of the
  reserved large ones, and a subject's count is the number of its reserved requests and at
  most its share.\<close>

theorem uploads_within_limits:
  assumes "distinct (arrivals evs)"
  shows "let st = upload_run lim evs in
    active (uploads st) = length (reserved_uploads st) \<and>
    active (uploads st) \<le> max_active_uploads lim \<and>
    active (large_uploads st) = length (filter (snd \<circ> snd) (reserved_uploads st)) \<and>
    active (large_uploads st) \<le> max_large_uploads lim \<and>
    subject_count (uploads st) s = length (filter (\<lambda>(i, subj, large). subj = Some s) (reserved_uploads st)) \<and>
    subject_count (uploads st) s \<le> max_uploads_per_principal lim \<and>
    subject_count (large_uploads st) s \<le> max_large_uploads_per_principal lim"
proof -
  define st where "st = upload_run lim evs"
  have inv: "upload_inv lim st" unfolding st_def using assms by (rule upload_run_inv)
  then have reps: "ledger_rep (uploads st) (held_subjects st)" "ledger_rep (large_uploads st) (held_large st)"
    by (auto simp: upload_inv_def pool_ok_def)
  have "subject_count (uploads st) s = length (filter (\<lambda>(i, subj, large). subj = Some s) (reserved_uploads st))"
    using subject_count_rep [OF reps(1), of s] count_reserved [of "reserved_uploads st" "Some s"]
    by (simp add: held_subjects_def)
  moreover have "active (uploads st) = length (reserved_uploads st)"
    "active (large_uploads st) = length (filter (snd \<circ> snd) (reserved_uploads st))"
    using reps unfolding ledger_rep_def held_subjects_def held_large_def
    by (simp_all only: size_mset length_map)
  moreover have "active (uploads st) \<le> max_active_uploads lim" "active (large_uploads st) \<le> max_large_uploads lim"
    "subject_count (uploads st) s \<le> max_uploads_per_principal lim"
    "subject_count (large_uploads st) s \<le> max_large_uploads_per_principal lim"
    using inv subject_count_rep [OF reps(1), of s] subject_count_rep [OF reps(2), of s]
    by (auto simp: upload_inv_def pool_ok_def ledger_rep_def)
  ultimately show ?thesis by (simp add: st_def Let_def)
qed

definition sample_limits :: upload_limits where
  "sample_limits = \<lparr>max_active_uploads = 2, max_large_uploads = 1,
     max_uploads_per_principal = 1, max_large_uploads_per_principal = 1\<rparr>"

definition sample_request :: "nat \<Rightarrow> string \<Rightarrow> string \<Rightarrow> request_info" where
  "sample_request i path subj = \<lparr>req_id = i, req_method = ''POST'', req_path = path,
     req_subject = Some subj, req_namespaces = None, reply_destroyed = False\<rparr>"

theorem uploads_within_limits_witness:
  "distinct (arrivals [Arrive (sample_request 1 ''/restore'' ''a''), Arrive (sample_request 2 ''/proxies'' ''a''), Finish 1]) \<and>
   subject_count (uploads (upload_run sample_limits
     [Arrive (sample_request 1 ''/restore'' ''a''), Arrive (sample_request 2 ''/proxies'' ''a''), Finish 1])) ''a'' \<le> 1"
proof -
  have d: "distinct (arrivals [Arrive (sample_request 1 ''/restore'' ''a''), Arrive (sample_request 2 ''/proxies'' ''a''), Finish 1])"
    by (simp add: sample_request_def)
  show ?thesis using uploads_within_limits [OF d, of sample_limits "''a''"] d
    by (simp add: Let_def sample_limits_def)
qed

text \<open>No permit leaks. If every arrival is followed, at some point, by a terminal hook or
  a socket close of that request, every counter is back at zero, every per-subject map is
  empty and no reservation is left, however the events interleave and repeat.\<close>

theorem upload_permits_all_returned:
  assumes "distinct (arrivals evs)"
    and "\<forall>pre r post. evs = pre @ Arrive r # post \<longrightarrow> Finish (req_id r) \<in> set post"
  shows "upload_run lim evs = empty_uploads"
proof -
  define st where "st = upload_run lim evs"
  have inv: "upload_inv lim st" unfolding st_def using assms(1) by (rule upload_run_inv)
  have none: "jm_get (reserved_uploads st) i = None" for i
    using reserved_origin [of lim evs i] assms(2) by (fastforce simp: st_def)
  then have "reserved_uploads st = []"
    by (cases "reserved_uploads st") (auto simp: jm_get_None_iff jm_keys_def)
  then show ?thesis using inv
    by (simp add: upload_inv_def pool_ok_def held_subjects_def held_large_def
        ledger_rep_unique_empty empty_uploads_def st_def [symmetric])
qed

theorem upload_permits_all_returned_witness:
  "upload_run sample_limits [Arrive (sample_request 1 ''/restore'' ''a''), Finish 1, Finish 1] = empty_uploads"
  by (rule upload_permits_all_returned)
    (auto simp: sample_request_def Cons_eq_append_conv append_eq_Cons_conv)

lemma pool_single_holder:
  assumes pool: "pool_ok cap share l M" and holder: "\<forall>h \<in># M. h = Some a"
    and room: "share < cap" "0 < share" and other: "b \<noteq> a"
  shows "active l < cap \<and> \<not> at_share (Some b) l share"
proof -
  have rep: "ledger_rep l M" using pool by (simp add: pool_ok_def)
  have "M = replicate_mset (size M) (Some a)"
    using holder by (induction M) auto
  then have "Multiset.count M (Some a) = size M" by (metis count_replicate_mset)
  moreover have "Multiset.count M (Some a) \<le> share" using pool by (simp add: pool_ok_def)
  moreover have "active l = size M" using rep by (simp add: ledger_rep_def)
  moreover have "Multiset.count M (Some b) = 0" using holder other by (auto simp: not_in_iff [symmetric])
  ultimately show ?thesis using room subject_count_rep [OF rep, of b] by (simp add: at_share_def)
qed

text \<open>One principal cannot starve the others. When every upload in flight belongs to one
  subject and the per-subject shares are below the pool sizes, an upload by any other subject
  is admitted, large or not.\<close>

theorem uploads_not_starved:
  assumes "distinct (arrivals evs)"
    and "\<forall>(i, subj, large) \<in> set (reserved_uploads (upload_run lim evs)). subj = Some a"
    and "req_subject r = Some b" and "b \<noteq> a"
    and "0 < max_uploads_per_principal lim" "max_uploads_per_principal lim < max_active_uploads lim"
    and "0 < max_large_uploads_per_principal lim" "max_large_uploads_per_principal lim < max_large_uploads lim"
  shows "fst (reserve_upload lim r (upload_run lim evs)) = None"
proof -
  define st where "st = upload_run lim evs"
  have inv: "upload_inv lim st" unfolding st_def using assms(1) by (rule upload_run_inv)
  have "\<forall>h \<in># held_subjects st. h = Some a" "\<forall>h \<in># held_large st. h = Some a"
    using assms(2) by (auto simp: held_subjects_def held_large_def st_def)
  then have "active (uploads st) < max_active_uploads lim \<and>
      \<not> at_share (Some b) (uploads st) (max_uploads_per_principal lim)"
    "active (large_uploads st) < max_large_uploads lim \<and>
      \<not> at_share (Some b) (large_uploads st) (max_large_uploads_per_principal lim)"
    using inv assms(4-) pool_single_holder unfolding upload_inv_def by blast+
  then show ?thesis using assms(3)
    by (auto simp: reserve_upload_def upload_refusal_def st_def [symmetric] Let_def)
qed

definition roomy_limits :: upload_limits where
  "roomy_limits = \<lparr>max_active_uploads = 32, max_large_uploads = 2,
     max_uploads_per_principal = 8, max_large_uploads_per_principal = 1\<rparr>"

theorem uploads_not_starved_witness:
  "fst (reserve_upload roomy_limits (sample_request 2 ''/restore'' ''b'')
     (upload_run roomy_limits [Arrive (sample_request 1 ''/restore'' ''a'')])) = None"
proof (rule uploads_not_starved [where a = "''a''" and b = "''b''"])
  have "reserved_uploads (upload_run roomy_limits [Arrive (sample_request 1 ''/restore'' ''a'')])
      = [(1, Some ''a'', True)]"
    by (simp add: upload_run_def reserve_upload_def upload_refusal_def sample_request_def roomy_limits_def
        is_large_upload_iff carries_request_body_def large_upload_route_def empty_uploads_def
        empty_ledger_def at_share_def subject_count_def Let_def jm_set_def)
  then show "\<forall>(i, subj, large) \<in> set (reserved_uploads (upload_run roomy_limits
      [Arrive (sample_request 1 ''/restore'' ''a'')])). subj = Some ''a''" by simp
qed (auto simp: sample_request_def roomy_limits_def)

text \<open>The long-read pool is bounded the same way: after any arrivals and terminal hooks
  the counter is the number of long reads in flight and within the pool, a subject's count
  within its share, and only an authenticated long read ever takes a permit.\<close>

theorem long_reads_within_limits:
  assumes "distinct (arrivals evs)"
  shows "let st = long_read_run lim evs in
    active (long_reads st) = length (reserved_long_reads st) \<and>
    active (long_reads st) \<le> max_active_long_reads lim \<and>
    subject_count (long_reads st) s \<le> max_long_reads_per_principal lim \<and>
    (req_subject r = None \<or> \<not> is_long_read r \<longrightarrow> reserve_long_read lim r st = (None, st))"
proof -
  define st where "st = long_read_run lim evs"
  have inv: "long_read_inv lim st" unfolding st_def using assms by (rule long_read_run_inv)
  then have rep: "ledger_rep (long_reads st) (held_reads st)" by (simp add: long_read_inv_def pool_ok_def)
  then have "active (long_reads st) = length (reserved_long_reads st)"
    unfolding ledger_rep_def held_reads_def by (simp_all only: size_mset length_map)
  moreover have "active (long_reads st) \<le> max_active_long_reads lim"
    "subject_count (long_reads st) s \<le> max_long_reads_per_principal lim"
    using inv rep subject_count_rep [OF rep, of s]
    by (auto simp: long_read_inv_def pool_ok_def ledger_rep_def)
  moreover have "req_subject r = None \<or> \<not> is_long_read r \<Longrightarrow> reserve_long_read lim r st = (None, st)"
    by (auto simp: reserve_long_read_def split: option.splits)
  ultimately show ?thesis by (simp add: st_def Let_def)
qed

definition sample_read :: request_info where
  "sample_read = \<lparr>req_id = 1, req_method = ''GET'', req_path = ''/backup'', req_subject = Some ''a'',
     req_namespaces = None, reply_destroyed = False\<rparr>"

definition sample_read_limits :: long_read_limits where
  "sample_read_limits = \<lparr>max_active_long_reads = 1, max_long_reads_per_principal = 1\<rparr>"

theorem long_reads_within_limits_witness:
  "active (long_reads (long_read_run sample_read_limits [Arrive sample_read])) \<le> 1 \<and>
   subject_count (long_reads (long_read_run sample_read_limits [Arrive sample_read])) ''a'' \<le> 1"
proof -
  have "distinct (arrivals [Arrive sample_read])" by simp
  from long_reads_within_limits [OF this, of sample_read_limits "''a''" sample_read]
  show ?thesis unfolding Let_def by (simp add: sample_read_limits_def)
qed

text \<open>What the upload guard lets through. However the sender paces its chunks, at most
  the route's limit is forwarded and nothing is forwarded at or after the absolute deadline
  (trickling bytes cannot extend it); and a body that ended normally was forwarded whole.\<close>

theorem guarded_upload_bounded:
  "let g = guard_run (new_guarded_upload limit idle deadline start) evs in
     forwarded_bytes g \<le> limit \<and>
     (\<forall>(at, len) \<in> set (gu_forwarded g). at < start + deadline) \<and>
     (gu_status g = Ended \<longrightarrow> forwarded_bytes g = sent_bytes (takeWhile is_chunk evs))"
proof -
  have "guard_inv (start + deadline) (new_guarded_upload limit idle deadline start) []"
    by (simp add: guard_inv_def new_guarded_upload_def forwarded_bytes_def)
  from guard_run_inv [OF this, of evs]
  show ?thesis using guard_run_limit [of "new_guarded_upload limit idle deadline start" evs]
    by (simp add: guard_inv_def Let_def) (simp add: new_guarded_upload_def)
qed

theorem guarded_upload_bounded_witness:
  "gu_status (guard_run (new_guarded_upload 10 5 20 100) [Chunk 101 4, Chunk 104 6, EndOfBody 105]) = Ended \<and>
   forwarded_bytes (guard_run (new_guarded_upload 10 5 20 100) [Chunk 101 4, Chunk 104 6, EndOfBody 105]) = 10"
proof -
  have "gu_status (guard_run (new_guarded_upload 10 5 20 100) [Chunk 101 4, Chunk 104 6, EndOfBody 105]) = Ended"
    by code_simp
  then show ?thesis
    using guarded_upload_bounded [of 10 5 20 100 "[Chunk 101 4, Chunk 104 6, EndOfBody 105]"]
    by (simp add: Let_def)
qed

end
