(* ===== verification/UriCodec.thy ===== *)
theory UriCodec
  imports JsString
begin

text \<open>
  The two pieces of the URL machinery of the JavaScript standard library that the proxy path
  depends on: \<open>decodeURIComponent\<close>, and the assignment \<open>url.pathname = value\<close> on an
  \<open>http\<close> URL (WHATWG URL path state). Text is a list of code points. The percent-encode set
  of paths differs between the supported Node releases in one character, the caret; it is the
  argument \<open>caret\<close>, and every theorem holds for both values.
\<close>

type_synonym cptext = "nat list"

definition cps :: "string \<Rightarrow> cptext" where
  "cps s = map of_char s"

lemma cps_append [simp]: "cps (s @ t) = cps s @ cps t"
  by (simp add: cps_def)

lemma cps_Nil_iff [simp]: "cps s = [] \<longleftrightarrow> s = []" "cps [] = []"
  by (auto simp: cps_def)

lemma cps_inject [simp]: "cps s = cps t \<longleftrightarrow> s = t"
proof
  assume "cps s = cps t"
  then have "map char_of (cps s) = map char_of (cps t)" by simp
  then show "s = t" by (simp add: cps_def comp_def)
qed simp

definition scalar :: "nat \<Rightarrow> bool" where
  "scalar cp \<longleftrightarrow> cp < 55296 \<or> (57344 \<le> cp \<and> cp < 1114112)"

section \<open>Percent-encoded bytes\<close>

definition hex_digit :: "nat \<Rightarrow> char" where
  "hex_digit n = (if n < 10 then char_of (48 + n) else char_of (55 + n))"

definition hex_value :: "nat \<Rightarrow> nat option" where
  "hex_value c =
     (if 48 \<le> c \<and> c \<le> 57 then Some (c - 48)
      else if 65 \<le> c \<and> c \<le> 70 then Some (c - 55)
      else if 97 \<le> c \<and> c \<le> 102 then Some (c - 87)
      else None)"

definition percent :: "nat \<Rightarrow> string" where
  "percent b = [CHR ''%'', hex_digit (b div 16), hex_digit (b mod 16)]"

text \<open>One \<open>%XX\<close> escape at the head of a text: the byte and what follows.\<close>

fun percent_byte :: "cptext \<Rightarrow> (nat \<times> cptext) option" where
  "percent_byte (p # h # l # rest) =
     (if p \<noteq> 37 then None
      else case (hex_value h, hex_value l) of
        (Some a, Some b) \<Rightarrow> Some (16 * a + b, rest)
      | _ \<Rightarrow> None)"
| "percent_byte _ = None"

lemma percent_byte_length: "percent_byte xs = Some (b, r) \<Longrightarrow> length r < length xs"
  by (cases xs rule: percent_byte.cases) (auto split: if_splits option.splits)

lemma of_char_hex_digit: "n < 16 \<Longrightarrow> (of_char (hex_digit n) :: nat) = (if n < 10 then 48 + n else 55 + n)"
  by (simp add: hex_digit_def)

lemma percent_byte_percent:
  assumes "b < 256"
  shows "percent_byte (cps (percent b) @ rest) = Some (b, rest)"
proof -
  have "b div 16 < 16" "b mod 16 < 16" using assms by auto
  then have "hex_value (of_char (hex_digit (b div 16))) = Some (b div 16)"
    "hex_value (of_char (hex_digit (b mod 16))) = Some (b mod 16)"
    by (auto simp: of_char_hex_digit hex_value_def)
  then show ?thesis by (simp add: percent_def cps_def)
qed

section \<open>decodeURIComponent\<close>

definition continuation :: "nat \<Rightarrow> bool" where
  "continuation b \<longleftrightarrow> 128 \<le> b \<and> b < 192"

text \<open>The bytes of one escaped code point: UTF-8, shortest form, no surrogates.\<close>

definition decode_escape :: "cptext \<Rightarrow> (nat \<times> cptext) option" where
  "decode_escape xs =
     (case percent_byte xs of
        None \<Rightarrow> None
      | Some (b1, r1) \<Rightarrow>
          if b1 < 128 then Some (b1, r1)
          else if b1 < 194 then None
          else case percent_byte r1 of
            None \<Rightarrow> None
          | Some (b2, r2) \<Rightarrow>
              if \<not> continuation b2 then None
              else if b1 < 224 then Some ((b1 - 192) * 64 + (b2 - 128), r2)
              else case percent_byte r2 of
                None \<Rightarrow> None
              | Some (b3, r3) \<Rightarrow>
                  if \<not> continuation b3 then None
                  else if b1 < 240
                  then (let cp = (b1 - 224) * 4096 + (b2 - 128) * 64 + (b3 - 128) in
                        if 2048 \<le> cp \<and> scalar cp then Some (cp, r3) else None)
                  else if b1 < 245
                  then (case percent_byte r3 of
                          None \<Rightarrow> None
                        | Some (b4, r4) \<Rightarrow>
                            if \<not> continuation b4 then None
                            else let cp = (b1 - 240) * 262144 + (b2 - 128) * 4096 + (b3 - 128) * 64 + (b4 - 128) in
                              if 65536 \<le> cp \<and> scalar cp then Some (cp, r4) else None)
                  else None)"

lemma decode_escape_length: "decode_escape xs = Some (cp, r) \<Longrightarrow> length r < length xs"
  unfolding decode_escape_def
  by (fastforce simp: Let_def split: option.splits if_splits prod.splits dest: percent_byte_length)

lemma decode_escape_scalar: "decode_escape xs = Some (cp, r) \<Longrightarrow> scalar cp"
  unfolding decode_escape_def
  by (auto simp: Let_def scalar_def continuation_def split: option.splits if_splits prod.splits)

function decode_uri :: "cptext \<Rightarrow> cptext option" where
  "decode_uri [] = Some []"
| "decode_uri (c # cs) =
     (if c \<noteq> 37 then map_option ((#) c) (decode_uri cs)
      else case decode_escape (c # cs) of
        None \<Rightarrow> None
      | Some (cp, rest) \<Rightarrow> map_option ((#) cp) (decode_uri rest))"
  by pat_completeness auto
termination
  by (relation "measure length") (auto dest: decode_escape_length)

lemma percent_byte_suffix: "percent_byte xs = Some (b, r) \<Longrightarrow> set r \<subseteq> set xs"
  by (cases xs rule: percent_byte.cases) (auto split: if_splits option.splits)

lemma decode_escape_subset: "decode_escape xs = Some (cp, r) \<Longrightarrow> set r \<subseteq> set xs"
  unfolding decode_escape_def
  by (auto simp: Let_def split: option.splits if_splits prod.splits
      dest!: percent_byte_suffix)

lemma decode_uri_scalar:
  "decode_uri xs = Some ys \<Longrightarrow> \<forall>x \<in> set xs. scalar x \<Longrightarrow> \<forall>y \<in> set ys. scalar y"
proof (induction xs arbitrary: ys rule: decode_uri.induct)
  case 1
  then show ?case by simp
next
  case (2 c cs)
  show ?case
  proof (cases "c = 37")
    case False
    then show ?thesis using 2 by auto
  next
    case True
    then obtain cp rest where esc: "decode_escape (c # cs) = Some (cp, rest)"
      using "2.prems" by (auto split: option.splits)
    then obtain zs where zs: "decode_uri rest = Some zs" "ys = cp # zs"
      using "2.prems" True by auto
    have sub: "\<forall>x \<in> set rest. scalar x"
      using decode_escape_subset [OF esc] "2.prems"(2) by blast
    have "\<forall>y \<in> set zs. scalar y"
      using "2.IH"(2) [of "(cp, rest)" cp rest zs] True esc zs(1) sub by simp
    then show ?thesis using decode_escape_scalar [OF esc] zs(2) by simp
  qed
qed

section \<open>UTF-8 and the path percent-encode set\<close>

definition utf8 :: "nat \<Rightarrow> nat list" where
  "utf8 cp =
     (if cp < 128 then [cp]
      else if cp < 2048 then [192 + cp div 64, 128 + cp mod 64]
      else if cp < 65536 then [224 + cp div 4096, 128 + cp div 64 mod 64, 128 + cp mod 64]
      else [240 + cp div 262144, 128 + cp div 4096 mod 64, 128 + cp div 64 mod 64, 128 + cp mod 64])"

definition path_escaped :: "bool \<Rightarrow> nat \<Rightarrow> bool" where
  "path_escaped caret cp \<longleftrightarrow>
     cp < 32 \<or> cp > 126 \<or> cp \<in> {32, 34, 35, 60, 62, 63, 96, 123, 125} \<or> (caret \<and> cp = 94)"

definition encode_cp :: "bool \<Rightarrow> nat \<Rightarrow> string" where
  "encode_cp caret cp = (if path_escaped caret cp then concat (map percent (utf8 cp)) else [char_of cp])"

definition encode_text :: "bool \<Rightarrow> cptext \<Rightarrow> string" where
  "encode_text caret t = concat (map (encode_cp caret) t)"

lemma decode_escape_two:
  assumes "194 \<le> b1" "b1 < 224" "continuation b2"
  shows "decode_escape (cps (percent b1) @ cps (percent b2) @ rest) =
    Some ((b1 - 192) * 64 + (b2 - 128), rest)"
  using assms by (simp add: decode_escape_def percent_byte_percent continuation_def)

lemma decode_escape_three:
  assumes "224 \<le> b1" "b1 < 240" "continuation b2" "continuation b3"
    and "cp = (b1 - 224) * 4096 + (b2 - 128) * 64 + (b3 - 128)" "2048 \<le> cp" "scalar cp"
  shows "decode_escape (cps (percent b1) @ cps (percent b2) @ cps (percent b3) @ rest) = Some (cp, rest)"
proof -
  have "b1 < 256" "b2 < 256" "b3 < 256" "\<not> b1 < 128" "\<not> b1 < 194" "\<not> b1 < 224"
    using assms by (auto simp: continuation_def)
  then show ?thesis using assms(2,3,4,6,7) unfolding decode_escape_def assms(5)
    by (simp add: percent_byte_percent Let_def)
qed

lemma decode_escape_four:
  assumes "240 \<le> b1" "b1 < 245" "continuation b2" "continuation b3" "continuation b4"
    and "cp = (b1 - 240) * 262144 + (b2 - 128) * 4096 + (b3 - 128) * 64 + (b4 - 128)" "65536 \<le> cp" "scalar cp"
  shows "decode_escape (cps (percent b1) @ cps (percent b2) @ cps (percent b3) @ cps (percent b4) @ rest) = Some (cp, rest)"
proof -
  have "b1 < 256" "b2 < 256" "b3 < 256" "b4 < 256" "\<not> b1 < 128" "\<not> b1 < 194" "\<not> b1 < 224" "\<not> b1 < 240"
    using assms by (auto simp: continuation_def)
  then show ?thesis using assms(2,3,4,5,7,8) unfolding decode_escape_def assms(6)
    by (simp add: percent_byte_percent Let_def)
qed

lemma sextets:
  "cp div 64 * 64 + cp mod 64 = (cp :: nat)"
  "cp div 4096 * 4096 + cp div 64 mod 64 * 64 + cp mod 64 = (cp :: nat)"
  "cp div 262144 * 262144 + cp div 4096 mod 64 * 4096 + cp div 64 mod 64 * 64 + cp mod 64 = (cp :: nat)"
proof -
  have 1: "n div 64 * 64 + n mod 64 = n" for n :: nat by (rule div_mult_mod_eq)
  have d2: "cp div 4096 = cp div 64 div 64" by (simp add: div_mult2_eq [symmetric])
  have d3: "cp div 262144 = cp div 64 div 64 div 64" by (simp add: div_mult2_eq [symmetric])
  show "cp div 64 * 64 + cp mod 64 = cp" by (rule 1)
  show "cp div 4096 * 4096 + cp div 64 mod 64 * 64 + cp mod 64 = cp"
    using 1 [of cp] 1 [of "cp div 64"] unfolding d2 by linarith
  show "cp div 262144 * 262144 + cp div 4096 mod 64 * 4096 + cp div 64 mod 64 * 64 + cp mod 64 = cp"
    using 1 [of cp] 1 [of "cp div 64"] 1 [of "cp div 64 div 64"] unfolding d2 d3 by linarith
qed

lemma continuation_sextet: "continuation (128 + n mod 64)"
  by (simp add: continuation_def)

lemma decode_utf8:
  assumes "scalar cp"
  shows "decode_escape (cps (concat (map percent (utf8 cp))) @ rest) = Some (cp, rest)"
proof -
  consider "cp < 128" | "128 \<le> cp" "cp < 2048" | "2048 \<le> cp" "cp < 65536" | "65536 \<le> cp" "cp < 1114112"
    using assms by (fastforce simp: scalar_def)
  then show ?thesis
  proof cases
    case 1
    then show ?thesis by (simp add: utf8_def decode_escape_def percent_byte_percent)
  next
    case 2
    then have "194 \<le> 192 + cp div 64" "192 + cp div 64 < 224" by auto
    from decode_escape_two [OF this continuation_sextet [of cp], of rest] show ?thesis
      using 2 sextets(1) [of cp] by (simp add: utf8_def)
  next
    case 3
    then have "224 + cp div 4096 < 240" by auto
    from decode_escape_three [OF _ this continuation_sextet [of "cp div 64"] continuation_sextet [of cp], of cp rest]
    show ?thesis using 3 assms sextets(2) [of cp] by (simp add: utf8_def)
  next
    case 4
    then have "240 + cp div 262144 < 245" by auto
    from decode_escape_four [OF _ this continuation_sextet [of "cp div 4096"] continuation_sextet [of "cp div 64"]
      continuation_sextet [of cp], of cp rest]
    show ?thesis using 4 assms sextets(3) [of cp] by (simp add: utf8_def)
  qed
qed

lemma percent_head: "utf8 cp \<noteq> [] \<and> (\<exists>xs. cps (concat (map percent (utf8 cp))) = 37 # xs)"
  by (simp add: utf8_def percent_def cps_def)

lemma decode_encode_cp:
  assumes "scalar cp" "cp \<noteq> 37"
  shows "decode_uri (cps (encode_cp caret cp) @ rest) = map_option ((#) cp) (decode_uri rest)"
proof (cases "path_escaped caret cp")
  case True
  obtain xs where xs: "cps (concat (map percent (utf8 cp))) = 37 # xs" using percent_head by blast
  have "decode_escape (37 # xs @ rest) = Some (cp, rest)" using decode_utf8 [OF assms(1), of rest] xs by simp
  then show ?thesis using True xs by (simp add: encode_cp_def)
next
  case False
  then have "cp < 256" by (auto simp: path_escaped_def)
  then show ?thesis using False assms(2) by (simp add: encode_cp_def cps_def)
qed

lemma decode_encode_text:
  "\<forall>cp \<in> set t. scalar cp \<and> cp \<noteq> 37 \<Longrightarrow> decode_uri (cps (encode_text caret t)) = Some t"
proof (induction t)
  case Nil
  then show ?case by (simp add: encode_text_def)
next
  case (Cons cp t)
  then show ?case using decode_encode_cp [of cp caret "cps (encode_text caret t)"]
    by (simp add: encode_text_def)
qed

end
