(* ===== verification/ProxyPath.thy ===== *)
theory ProxyPath
  imports UriCodec
begin

text \<open>
  The path a proxied request is forwarded to, and every decision taken on it
  (\<open>server/proxy-path.ts\<close>): \<open>proxyTargetPath\<close> decodes the raw request target once and
  re-serialises it through the URL standard's path setter, \<open>proxyTargetUrl\<close> assigns it to
  the admin origin, and the route tables say what a namespace-scoped principal may reach.
  The request-keyed cache of \<open>proxyTargetPath\<close> holds what the function would return again,
  so it is left out. \<open>None\<close> is \<open>UnsafeProxyPathError\<close>.
\<close>

section \<open>Assigning a URL's path and query\<close>

definition single_dot :: "string \<Rightarrow> bool" where
  "single_dot b \<longleftrightarrow> js_lower b \<in> {''.'', ''%2e''}"

definition double_dot :: "string \<Rightarrow> bool" where
  "double_dot b \<longleftrightarrow> js_lower b \<in> {''..'', ''.%2e'', ''%2e.'', ''%2e%2e''}"

fun path_state :: "string list \<Rightarrow> string list \<Rightarrow> string list" where
  "path_state acc [] = acc"
| "path_state acc (b # rest) =
     (let tail = (if rest = [] then [[]] else []) in
      if double_dot b then path_state (butlast acc @ tail) rest
      else if single_dot b then path_state (acc @ tail) rest
      else path_state (acc @ [b]) rest)"

definition strip_breaks :: "cptext \<Rightarrow> cptext" where
  "strip_breaks t = filter (\<lambda>c. c \<notin> {9, 10, 13}) t"

definition fold_backslash :: "cptext \<Rightarrow> cptext" where
  "fold_backslash t = map (\<lambda>c. if c = 92 then 47 else c) t"

text \<open>\<open>url.pathname = value\<close> on an http(s) URL, read back as \<open>url.pathname\<close>.\<close>

definition pathname :: "bool \<Rightarrow> cptext \<Rightarrow> string" where
  "pathname caret value =
     (let input = fold_backslash (strip_breaks value);
          body = (case input of c # rest \<Rightarrow> if c = 47 then rest else input | [] \<Rightarrow> []);
          segs = path_state [] (map (encode_text caret) (split_on 47 body))
      in concat (map (\<lambda>s. CHR ''/'' # s) segs))"

definition query_escaped :: "nat \<Rightarrow> bool" where
  "query_escaped cp \<longleftrightarrow> cp < 33 \<or> cp > 126 \<or> cp \<in> {34, 35, 39, 60, 62}"

text \<open>\<open>url.search = value\<close>, read back as \<open>url.search\<close>.\<close>

definition url_search :: "cptext \<Rightarrow> string" where
  "url_search value =
     (let input = strip_breaks (case value of c # rest \<Rightarrow> if c = 63 then rest else value | [] \<Rightarrow> []);
          q = concat (map (\<lambda>cp. if query_escaped cp then concat (map percent (utf8 cp)) else [char_of cp]) input)
      in if q = [] then [] else CHR ''?'' # q)"

section \<open>The forwarded path\<close>

record http_request =
  rq_method :: string
  rq_raw_url :: "string option"
  rq_url :: string
  rq_route_url :: "string option"

definition raw_target :: "http_request \<Rightarrow> string" where
  "raw_target r = (case rq_raw_url r of Some u \<Rightarrow> u | None \<Rightarrow> rq_url r)"

definition before_query :: "string \<Rightarrow> string" where
  "before_query u = hd (split_on CHR ''?'' u)"

definition contains_control :: "cptext \<Rightarrow> bool" where
  "contains_control t \<longleftrightarrow> (\<exists>c \<in> set t. c \<le> 31 \<or> c = 127)"

definition decode_segment :: "string \<Rightarrow> cptext option" where
  "decode_segment encoded =
     (case decode_uri (cps encoded) of
        None \<Rightarrow> None
      | Some decoded \<Rightarrow>
          if contains_control decoded \<or> (\<exists>c \<in> set decoded. c = 37 \<or> c = 47 \<or> c = 92)
             \<or> decoded = cps ''.'' \<or> decoded = cps ''..''
          then None else Some decoded)"

fun decode_segments :: "string list \<Rightarrow> cptext list option" where
  "decode_segments [] = Some []"
| "decode_segments (e # es) =
     (case decode_segment e of
        None \<Rightarrow> None
      | Some d \<Rightarrow> map_option ((#) d) (decode_segments es))"

text \<open>The decoded segments after \<open>/api/proxy\<close>.\<close>

definition target_segments :: "http_request \<Rightarrow> cptext list option" where
  "target_segments r =
     (let raw = before_query (raw_target r) in
      if \<not> starts_with ''/'' raw \<or> contains_control (cps raw) \<or> CHR ''#'' \<in> set raw then None
      else case decode_segments (tl (split_on CHR ''/'' raw)) of
        Some (api # proxy # segs) \<Rightarrow>
          if api \<noteq> cps ''api'' \<or> proxy \<noteq> cps ''proxy'' \<or> segs = [] then None
          else if [] \<in> set (butlast segs) then None
          else Some segs
      | _ \<Rightarrow> None)"

definition proxy_target_path :: "bool \<Rightarrow> http_request \<Rightarrow> string option" where
  "proxy_target_path caret r =
     (case target_segments r of
        None \<Rightarrow> None
      | Some segs \<Rightarrow> Some (pathname caret (47 # join_with 47 segs)))"

record url =
  u_origin :: string
  u_path :: string
  u_query :: string
  u_hash :: string

definition proxy_target_url :: "bool \<Rightarrow> http_request \<Rightarrow> url \<Rightarrow> url option" where
  "proxy_target_url caret r admin =
     (case proxy_target_path caret r of
        None \<Rightarrow> None
      | Some path \<Rightarrow>
          let raw = raw_target r;
              rest = dropWhile (\<lambda>c. c \<noteq> CHR ''?'') raw;
              target = admin \<lparr>u_path := pathname caret (cps path),
                              u_query := url_search (cps (tl rest)),
                              u_hash := []\<rparr>
          in if u_path target \<noteq> path then None else Some target)"

section \<open>Route classes\<close>

definition is_consumer_verification :: "string \<Rightarrow> bool" where
  "is_consumer_verification path = path_match [Lit ''consumers'', Wild, Lit ''verification''] True path"

definition is_deployment_snapshot :: "string \<Rightarrow> bool" where
  "is_deployment_snapshot path \<longleftrightarrow> path = ''/deployment-snapshot'' \<or> path = ''/deployment-snapshot/''"

text \<open>A route class: its methods as written, the alternatives of its pattern, and whether the
  pattern ends in \<open>/?\<close>.\<close>

record route_class =
  rc_methods :: string
  rc_patterns :: "seg_pat list list"
  rc_slash :: bool

definition route :: "string \<Rightarrow> seg_pat list list \<Rightarrow> bool \<Rightarrow> route_class" where
  "route ms ps slash = \<lparr>rc_methods = ms, rc_patterns = ps, rc_slash = slash\<rparr>"

definition resource_kinds :: "seg_pat list list" where
  "resource_kinds =
     [[Lit ''proxies''], [Lit ''upstreams''], [Lit ''consumers''], [Lit ''plugins'', Lit ''config''],
      [Lit ''api-specs''], [Lit ''gateway-trust-bundles'']]"

definition scoped_routes :: "route_class list" where
  "scoped_routes =
     [route ''GET|POST'' resource_kinds True,
      route ''GET|PUT|DELETE'' (map (\<lambda>p. p @ [Wild]) resource_kinds) True,
      route ''POST|PUT|DELETE'' [[Lit ''consumers'', Wild, Lit ''credentials'', Wild]] True,
      route ''DELETE'' [[Lit ''consumers'', Wild, Lit ''credentials'', Wild, Wild]] True,
      route ''GET'' [[Lit ''api-specs'', Lit ''by-proxy'', Wild]] True,
      route ''GET'' [[Lit ''proxies'', Wild, Lit ''mcp'', Lit ''tools'']] True,
      route ''GET'' [[Lit ''gateway-trust'', Lit ''status'']] True,
      route ''GET'' [[Lit ''config'', Lit ''export'']] True,
      route ''GET'' [[Lit ''audit'']] True,
      route ''GET'' [[Lit ''backend-egress-policy'']] False,
      route ''POST'' [[Lit ''batch''], [Lit ''restore'']] True,
      route ''GET'' [[Lit ''backup'']] True]"

definition safe_global_routes :: "route_class list" where
  "safe_global_routes =
     [route ''GET'' [[Lit ''plugins'']] False,
      route ''GET|POST'' [[Lit ''namespaces'']] False,
      route ''GET|PUT|DELETE'' [[Lit ''namespaces'', Wild]] False,
      route ''GET'' [[Lit ''live''], [Lit ''health''], [Lit ''status'']] False]"

definition classified_method :: "http_request \<Rightarrow> string" where
  "classified_method r = (if rq_method r = ''HEAD'' then ''GET'' else rq_method r)"

definition route_allows :: "string \<Rightarrow> string \<Rightarrow> route_class \<Rightarrow> bool" where
  "route_allows method path rc \<longleftrightarrow>
     method \<in> set (split_on CHR ''|'' (rc_methods rc)) \<and>
     list_ex (\<lambda>p. path_match p (rc_slash rc) path) (rc_patterns rc)"

definition allowed_for_namespace :: "bool \<Rightarrow> http_request \<Rightarrow> bool" where
  "allowed_for_namespace caret r =
     (case proxy_target_path caret r of
        None \<Rightarrow> False
      | Some path \<Rightarrow>
          list_ex (route_allows (classified_method r) path) safe_global_routes \<or>
          list_ex (route_allows (classified_method r) path) scoped_routes)"

definition edge_namespace_safe_global :: "bool \<Rightarrow> http_request \<Rightarrow> bool" where
  "edge_namespace_safe_global caret r =
     (case proxy_target_path caret r of
        None \<Rightarrow> False
      | Some path \<Rightarrow> list_ex (route_allows (classified_method r) path) safe_global_routes)"

section \<open>Which requests are API requests\<close>

definition is_proxy_route :: "http_request \<Rightarrow> bool" where
  "is_proxy_route r =
     (let p = (case rq_route_url r of Some u \<Rightarrow> u | None \<Rightarrow> []) in
      p = ''/api/proxy/*'' \<or> starts_with ''/api/proxy/'' p)"

definition max_decode_passes :: nat where
  "max_decode_passes = 8"

definition starts_with_cps :: "string \<Rightarrow> cptext \<Rightarrow> bool" where
  "starts_with_cps p t \<longleftrightarrow> take (length p) t = cps p"

fun api_passes :: "nat \<Rightarrow> cptext \<Rightarrow> bool" where
  "api_passes 0 t = True"
| "api_passes (Suc n) t =
     (if starts_with_cps ''/api/'' t then True
      else case decode_uri t of
        None \<Rightarrow> False
      | Some d \<Rightarrow> if d = t then False else api_passes n d)"

definition is_api_route :: "http_request \<Rightarrow> bool" where
  "is_api_route r =
     ((case rq_route_url r of Some u \<Rightarrow> starts_with ''/api/'' u | None \<Rightarrow> False) \<or>
      api_passes max_decode_passes (cps (before_query (rq_url r))))"

definition serves_spa_shell :: "http_request \<Rightarrow> bool" where
  "serves_spa_shell r =
     (if rq_method r \<noteq> ''GET'' \<and> rq_method r \<noteq> ''HEAD'' then False
      else if is_api_route r then False
      else let p = before_query (rq_url r) in p \<noteq> ''/api'' \<and> \<not> starts_with ''/assets/'' p)"

section \<open>Encoded segments\<close>

lemma scalar_cps: "x \<in> set (cps s) \<Longrightarrow> scalar x"
proof -
  assume "x \<in> set (cps s)"
  then obtain c where "x = of_char c" by (auto simp: cps_def)
  then have "x < 256" by simp
  then show "scalar x" by (simp add: scalar_def)
qed

definition clean_segment :: "cptext \<Rightarrow> bool" where
  "clean_segment d \<longleftrightarrow> (\<forall>c \<in> set d. scalar c \<and> 31 < c \<and> c \<noteq> 127 \<and> c \<noteq> 37 \<and> c \<noteq> 47 \<and> c \<noteq> 92)
     \<and> d \<noteq> cps ''.'' \<and> d \<noteq> cps ''..''"

lemma decode_segment_clean: "decode_segment e = Some d \<Longrightarrow> decode_uri (cps e) = Some d \<and> clean_segment d"
  using decode_uri_scalar [of "cps e" d] scalar_cps [of _ e]
  by (auto simp: decode_segment_def clean_segment_def contains_control_def not_le
      split: option.splits if_splits)

lemma decode_segments_clean:
  "decode_segments es = Some ds \<Longrightarrow>
     map (decode_uri \<circ> cps) es = map Some ds \<and> (\<forall>d \<in> set ds. clean_segment d)"
  by (induction es arbitrary: ds) (auto split: option.splits dest: decode_segment_clean)

lemma set_percent_chars: "c \<in> set (percent b) \<Longrightarrow> b < 256 \<Longrightarrow>
   of_char c = (37::nat) \<or> (48 \<le> (of_char c :: nat) \<and> (of_char c :: nat) \<le> 57) \<or> (65 \<le> (of_char c :: nat) \<and> (of_char c :: nat) \<le> 70)"
proof -
  assume c: "c \<in> set (percent b)" and b: "b < 256"
  have "b div 16 < 16" "b mod 16 < 16" using b by auto
  then show ?thesis using c of_char_hex_digit [of "b div 16"] of_char_hex_digit [of "b mod 16"]
    by (auto simp: percent_def split: if_splits)
qed

lemma utf8_bytes: "scalar cp \<Longrightarrow> b \<in> set (utf8 cp) \<Longrightarrow> b < 256"
  by (auto simp: utf8_def scalar_def split: if_splits)

text \<open>What an encoded code point may contain: path characters only, so a second
  serialisation leaves it alone.\<close>

definition settled :: "bool \<Rightarrow> nat \<Rightarrow> bool" where
  "settled caret c \<longleftrightarrow> \<not> path_escaped caret c \<and> c \<noteq> 47 \<and> c \<noteq> 92"

lemma settled_percent: "b < 256 \<Longrightarrow> x \<in> set (cps (percent b)) \<Longrightarrow> settled caret x"
  using set_percent_chars [of _ b] by (fastforce simp: settled_def path_escaped_def cps_def)

lemma cps_concat: "cps (concat ss) = concat (map cps ss)"
  by (induction ss) simp_all

lemma settled_encode_cp:
  assumes "scalar cp" "cp \<noteq> 47" "cp \<noteq> 92" "x \<in> set (cps (encode_cp caret cp))"
  shows "settled caret x"
proof (cases "path_escaped caret cp")
  case True
  then obtain b where "b \<in> set (utf8 cp)" "x \<in> set (cps (percent b))"
    using assms(4) by (auto simp: encode_cp_def cps_concat)
  then show ?thesis using settled_percent utf8_bytes [OF assms(1)] by blast
next
  case False
  then have "cp < 256" by (auto simp: path_escaped_def)
  then have "x = cp" using False assms(4) by (simp add: encode_cp_def cps_def)
  then show ?thesis using False assms(2,3) by (simp add: settled_def)
qed

lemma settled_encode_text:
  assumes "clean_segment d"
  shows "\<forall>x \<in> set (cps (encode_text caret d)). settled caret x"
proof
  fix x assume "x \<in> set (cps (encode_text caret d))"
  then obtain cp where "cp \<in> set d" "x \<in> set (cps (encode_cp caret cp))"
    by (auto simp: encode_text_def cps_concat)
  then show "settled caret x" using assms settled_encode_cp [of cp x caret]
    by (auto simp: clean_segment_def)
qed

lemma encode_settled: "\<forall>x \<in> set (cps s). settled caret x \<Longrightarrow> encode_text caret (cps s) = s"
proof (induction s)
  case Nil
  then show ?case by (simp add: encode_text_def)
next
  case (Cons c s)
  then show ?case by (simp add: encode_text_def cps_def encode_cp_def settled_def)
qed

lemma decode_encode_clean: "clean_segment d \<Longrightarrow> decode_uri (cps (encode_text caret d)) = Some d"
  by (rule decode_encode_text) (auto simp: clean_segment_def)

section \<open>The path setter on clean segments\<close>

definition slash_all :: "string list \<Rightarrow> string" where
  "slash_all ss = concat (map (\<lambda>s. CHR ''/'' # s) ss)"

lemma of_char_lower:
  "(of_char (lower_char c) :: nat) =
     (let n = of_char c in if (65 \<le> n \<and> n \<le> 90) \<or> (192 \<le> n \<and> n \<le> 222 \<and> n \<noteq> 215) then n + 32 else n)"
  by (simp add: lower_char_def Let_def)

lemma lower_char_eqD: "lower_char c = k \<Longrightarrow> of_char k < (128::nat) \<Longrightarrow>
   of_char c = (of_char k :: nat) \<or> (of_char c + 32 = (of_char k :: nat) \<and> of_char c \<ge> (65::nat))"
  using of_char_lower [of c] by (auto simp: Let_def split: if_splits)

lemma lower_dot: "lower_char c = CHR ''.'' \<Longrightarrow> (of_char c :: nat) = 46"
  using lower_char_eqD [of c "CHR ''.''"] by auto

lemma lower_percent: "lower_char c = CHR ''%'' \<Longrightarrow> (of_char c :: nat) = 37"
  using lower_char_eqD [of c "CHR ''%''"] by auto

lemma lower_two: "lower_char c = CHR ''2'' \<Longrightarrow> (of_char c :: nat) = 50"
  using lower_char_eqD [of c "CHR ''2''"] by auto

lemma lower_e: "lower_char c = CHR ''e'' \<Longrightarrow> (of_char c :: nat) = 101 \<or> (of_char c :: nat) = 69"
  using lower_char_eqD [of c "CHR ''e''"] by auto

lemmas lower_chars = lower_dot lower_percent lower_two lower_e

lemma decode_dot_escape: "e = 101 \<or> e = 69 \<Longrightarrow> decode_escape (37 # 50 # e # rest) = Some (46, rest)"
  by (auto simp: decode_escape_def hex_value_def)

lemma single_dot_decodes: "single_dot b \<Longrightarrow> decode_uri (cps b) = Some (cps ''.'')"
  by (auto simp: single_dot_def js_lower_def cps_def decode_dot_escape dest!: lower_chars)

lemma double_dot_decodes: "double_dot b \<Longrightarrow> decode_uri (cps b) = Some (cps ''..'')"
  by (auto simp: double_dot_def js_lower_def cps_def decode_dot_escape dest!: lower_chars)

lemma path_state_plain:
  "\<forall>b \<in> set bs. \<not> single_dot b \<and> \<not> double_dot b \<Longrightarrow> path_state acc bs = acc @ bs"
  by (induction acc bs rule: path_state.induct) (simp_all add: Let_def)

lemma no_dots: "clean_segment d \<Longrightarrow> \<not> single_dot (encode_text caret d) \<and> \<not> double_dot (encode_text caret d)"
  using decode_encode_clean [of d caret] single_dot_decodes [of "encode_text caret d"]
    double_dot_decodes [of "encode_text caret d"]
  by (auto simp: clean_segment_def)

lemma join_with_set: "x \<in> set (join_with c ss) \<Longrightarrow> x = c \<or> (\<exists>s \<in> set ss. x \<in> set s)"
  by (induction c ss rule: join_with.induct) auto

lemma pathname_of_segments:
  assumes "segs \<noteq> []" "\<forall>d \<in> set segs. \<forall>c \<in> set d. c \<notin> {9, 10, 13, 47, 92}"
    and "\<forall>d \<in> set segs. \<not> single_dot (encode_text caret d) \<and> \<not> double_dot (encode_text caret d)"
  shows "pathname caret (47 # join_with 47 segs) = slash_all (map (encode_text caret) segs)"
proof -
  let ?v = "47 # join_with 47 segs"
  have chars: "\<forall>c \<in> set ?v. c \<notin> {9, 10, 13, 92}"
    using assms(2) by (auto dest!: join_with_set)
  have "strip_breaks ?v = ?v" using chars by (auto simp: strip_breaks_def filter_id_conv)
  moreover have "fold_backslash ?v = ?v" unfolding fold_backslash_def using chars
    by (intro map_idI) auto
  moreover have "split_on 47 (join_with 47 segs) = segs"
    using assms(1,2) by (intro split_join) auto
  moreover have "path_state [] (map (encode_text caret) segs) = map (encode_text caret) segs"
    using assms(3) by (subst path_state_plain) auto
  ultimately show ?thesis by (simp add: pathname_def Let_def slash_all_def)
qed

lemma clean_chars: "clean_segment d \<Longrightarrow> \<forall>c \<in> set d. c \<notin> {9, 10, 13, 47, 92}"
proof
  fix c assume "clean_segment d" "c \<in> set d"
  then have "31 < c" "c \<noteq> 47" "c \<noteq> 92" by (simp_all add: clean_segment_def)
  then show "c \<notin> {9, 10, 13, 47, 92}" by auto
qed

lemma pathname_clean:
  assumes "segs \<noteq> []" "\<forall>d \<in> set segs. clean_segment d"
  shows "pathname caret (47 # join_with 47 segs) = slash_all (map (encode_text caret) segs)"
  using assms clean_chars no_dots by (intro pathname_of_segments) blast+

lemma cps_slash_all: "es \<noteq> [] \<Longrightarrow> cps (slash_all es) = 47 # join_with 47 (map cps es)"
proof (induction es)
  case Nil
  then show ?case by simp
next
  case (Cons e es)
  then show ?case by (cases es) (simp_all add: slash_all_def cps_def)
qed

lemma slash_all_join: "es \<noteq> [] \<Longrightarrow> slash_all es = CHR ''/'' # join_with CHR ''/'' es"
proof (induction es)
  case Nil
  then show ?case by simp
next
  case (Cons e es)
  then show ?case by (cases es) (simp_all add: slash_all_def)
qed

lemma settled_char: "settled caret (of_char c) \<Longrightarrow> c \<noteq> CHR ''/''"
  by (auto simp: settled_def)

lemma split_slash_all:
  assumes "segs \<noteq> []" "\<forall>d \<in> set segs. clean_segment d"
  shows "split_on CHR ''/'' (slash_all (map (encode_text caret) segs)) = [] # map (encode_text caret) segs"
proof -
  let ?es = "map (encode_text caret) segs"
  have free: "\<forall>e \<in> set ?es. CHR ''/'' \<notin> set e"
  proof
    fix e assume "e \<in> set ?es"
    then obtain d where d: "d \<in> set segs" "e = encode_text caret d" by auto
    then have "\<forall>x \<in> set (cps e). settled caret x" using assms(2) settled_encode_text by blast
    then show "CHR ''/'' \<notin> set e" using settled_char by (fastforce simp: cps_def)
  qed
  have "split_on CHR ''/'' (join_with CHR ''/'' ?es) = ?es" using assms(1) free by (intro split_join) auto
  then show ?thesis using assms(1) by (simp add: slash_all_join)
qed

lemma pathname_settled:
  assumes "segs \<noteq> []" "\<forall>d \<in> set segs. clean_segment d"
  shows "pathname caret (cps (slash_all (map (encode_text caret) segs))) = slash_all (map (encode_text caret) segs)"
proof -
  let ?es = "map (encode_text caret) segs"
  have again: "encode_text caret (cps e) = e" if "e \<in> set ?es" for e
    using that assms(2) settled_encode_text encode_settled by fastforce
  have "pathname caret (47 # join_with 47 (map cps ?es)) = slash_all (map (encode_text caret) (map cps ?es))"
  proof (rule pathname_of_segments)
    show "map cps ?es \<noteq> []" using assms(1) by simp
    show "\<forall>d \<in> set (map cps ?es). \<forall>c \<in> set d. c \<notin> {9, 10, 13, 47, 92}"
    proof (intro ballI)
      fix d c assume "d \<in> set (map cps ?es)" "c \<in> set d"
      then obtain s where "s \<in> set segs" "d = cps (encode_text caret s)" by auto
      then have "settled caret c" using assms(2) settled_encode_text \<open>c \<in> set d\<close> by blast
      then show "c \<notin> {9, 10, 13, 47, 92}" by (auto simp: settled_def path_escaped_def)
    qed
    show "\<forall>d \<in> set (map cps ?es). \<not> single_dot (encode_text caret d) \<and> \<not> double_dot (encode_text caret d)"
      using again assms(2) no_dots by (auto simp del: cps_inject)
  qed
  also have "map (encode_text caret) (map cps ?es) = ?es" using again by (simp add: map_idI)
  finally show ?thesis using assms(1) by (simp add: cps_slash_all)
qed

section \<open>Properties of the forwarded path\<close>

lemma target_segments_facts:
  assumes "target_segments r = Some segs"
  shows "segs \<noteq> []" "\<forall>d \<in> set segs. clean_segment d" "[] \<notin> set (butlast segs)"
    and "map (decode_uri \<circ> cps) (drop 3 (split_on CHR ''/'' (before_query (raw_target r)))) = map Some segs"
proof -
  let ?es = "tl (split_on CHR ''/'' (before_query (raw_target r)))"
  obtain ds where ds: "decode_segments ?es = Some ds"
    and shape: "ds = cps ''api'' # cps ''proxy'' # segs" "segs \<noteq> []" "[] \<notin> set (butlast segs)"
    using assms by (auto simp: target_segments_def Let_def split: if_splits option.splits list.splits)
  have clean: "map (decode_uri \<circ> cps) ?es = map Some ds" "\<forall>d \<in> set ds. clean_segment d"
    using decode_segments_clean [OF ds] by auto
  show "segs \<noteq> []" "[] \<notin> set (butlast segs)" by (fact shape)+
  show "\<forall>d \<in> set segs. clean_segment d" using clean(2) shape(1) by simp
  have "drop 2 (map (decode_uri \<circ> cps) ?es) = map Some segs" using clean(1) shape(1) by simp
  then show "map (decode_uri \<circ> cps) (drop 3 (split_on CHR ''/'' (before_query (raw_target r)))) = map Some segs"
    by (simp add: drop_map drop_Suc numeral_3_eq_3 numeral_2_eq_2)
qed

lemma proxy_target_path_eq:
  "proxy_target_path caret r =
     map_option (\<lambda>segs. slash_all (map (encode_text caret) segs)) (target_segments r)"
  using target_segments_facts pathname_clean
  by (cases "target_segments r") (auto simp: proxy_target_path_def)

definition sample_request :: http_request where
  "sample_request = \<lparr>rq_method = ''GET'', rq_raw_url = Some ''/api/proxy/%70roxies/a%20b?x=1'',
     rq_url = ''/api/proxy/%70roxies/a%20b?x=1'', rq_route_url = Some ''/api/proxy/*''\<rparr>"

lemma sample_path: "proxy_target_path True sample_request = Some ''/proxies/a%20b''"
  by code_simp

text \<open>C4: The path forwarded to the gateway is an escaping of the raw request path decoded exactly
  once: its segments decode to what the raw segments after \<open>/api/proxy\<close> decode to, one for
  one. No segment is a dot segment or holds a separator, a percent sign or a control character,
  and only the last can be empty, so no later parser can see another structure in it.\<close>

theorem target_path_decodes_once:
  assumes "proxy_target_path caret r = Some path"
  shows "\<exists>segs. segs \<noteq> [] \<and>
    map (decode_uri \<circ> cps) (drop 3 (split_on CHR ''/'' (before_query (raw_target r)))) = map Some segs \<and>
    map (decode_uri \<circ> cps) (tl (split_on CHR ''/'' path)) = map Some segs \<and>
    hd (split_on CHR ''/'' path) = [] \<and> [] \<notin> set (butlast segs) \<and>
    cps ''.'' \<notin> set segs \<and> cps ''..'' \<notin> set segs \<and>
    (\<forall>c \<in> set (concat segs). 31 < c \<and> c \<noteq> 127 \<and> c \<notin> {37, 47, 92})"
proof -
  obtain segs where segs: "target_segments r = Some segs"
    and path: "path = slash_all (map (encode_text caret) segs)"
    using assms by (auto simp: proxy_target_path_eq)
  note facts = target_segments_facts [OF segs]
  have split: "split_on CHR ''/'' path = [] # map (encode_text caret) segs"
    using split_slash_all [OF facts(1,2)] path by simp
  have "map (decode_uri \<circ> cps) (map (encode_text caret) segs) = map Some segs"
    using facts(2) decode_encode_clean by simp
  moreover have "cps ''.'' \<notin> set segs" "cps ''..'' \<notin> set segs"
    using facts(2) by (auto simp: clean_segment_def simp del: cps_inject)
  moreover have "\<forall>c \<in> set (concat segs). 31 < c \<and> c \<noteq> 127 \<and> c \<notin> {37, 47, 92}"
    using facts(2) by (simp add: clean_segment_def)
  ultimately show ?thesis using facts split by (intro exI [of _ segs]) simp
qed

theorem target_path_decodes_once_witness:
  "\<exists>segs. segs \<noteq> [] \<and> map (decode_uri \<circ> cps) [''%70roxies'', ''a%20b''] = map Some segs \<and>
     map (decode_uri \<circ> cps) [''proxies'', ''a%20b''] = map Some segs"
proof -
  have raw: "drop 3 (split_on CHR ''/'' (before_query (raw_target sample_request))) = [''%70roxies'', ''a%20b'']"
    by code_simp
  have path: "tl (split_on CHR ''/'' ''/proxies/a%20b'') = [''proxies'', ''a%20b'']"
    by code_simp
  show ?thesis using target_path_decodes_once [OF sample_path] unfolding raw path by blast
qed

text \<open>The upstream URL exists exactly when the classified path does, goes to the configured
  admin origin, and its path is the very string every classifier saw: re-assigning the serialised
  path to a URL changes nothing, so the mismatch check after it never rejects a request.\<close>

theorem target_url_is_classified_path:
  "map_option (\<lambda>t. (u_origin t, u_path t, u_hash t)) (proxy_target_url caret r admin) =
   map_option (\<lambda>path. (u_origin admin, path, [])) (proxy_target_path caret r)"
proof (cases "target_segments r")
  case None
  then show ?thesis by (simp add: proxy_target_url_def proxy_target_path_eq)
next
  case (Some segs)
  note facts = target_segments_facts [OF Some]
  show ?thesis using Some pathname_settled [OF facts(1,2)]
    by (simp add: proxy_target_url_def proxy_target_path_eq Let_def)
qed

section \<open>Properties of the namespace ceiling\<close>

text \<open>What a route class means on decoded segments.\<close>

fun names_route :: "seg_pat list \<Rightarrow> cptext list \<Rightarrow> bool" where
  "names_route [] [] = True"
| "names_route (Lit a # ps) (d # ds) = (d = cps a \<and> names_route ps ds)"
| "names_route (Wild # ps) (d # ds) = (d \<noteq> [] \<and> names_route ps ds)"
| "names_route _ _ = False"

definition class_names :: "string \<Rightarrow> cptext list \<Rightarrow> route_class \<Rightarrow> bool" where
  "class_names method segs rc \<longleftrightarrow>
     method \<in> set (split_on CHR ''|'' (rc_methods rc)) \<and>
     (\<exists>p \<in> set (rc_patterns rc). names_route p segs \<or>
        (rc_slash rc \<and> segs \<noteq> [] \<and> last segs = [] \<and> names_route p (butlast segs)))"

definition literal_ok :: "bool \<Rightarrow> string \<Rightarrow> bool" where
  "literal_ok caret a \<longleftrightarrow> (\<forall>x \<in> set (cps a). \<not> path_escaped caret x \<and> x \<noteq> 37)"

lemma encode_text_Nil_iff [simp]: "encode_text caret d = [] \<longleftrightarrow> d = []"
proof
  assume empty: "encode_text caret d = []"
  have "encode_cp caret cp \<noteq> []" for cp using percent_head [of cp]
    by (auto simp: encode_cp_def percent_def utf8_def)
  then show "d = []" using empty by (cases d) (simp_all add: encode_text_def)
qed (simp add: encode_text_def)

lemma decode_uri_plain: "37 \<notin> set t \<Longrightarrow> decode_uri t = Some t"
  by (induction t) auto

lemma encode_text_literal:
  assumes "clean_segment d" "literal_ok caret a"
  shows "encode_text caret d = a \<longleftrightarrow> d = cps a"
proof
  assume "encode_text caret d = a"
  then have "decode_uri (cps a) = Some d" using decode_encode_clean [OF assms(1)] by blast
  moreover have "decode_uri (cps a) = Some (cps a)"
    using assms(2) by (intro decode_uri_plain) (simp add: literal_ok_def, blast)
  ultimately show "d = cps a" by simp
next
  assume d: "d = cps a"
  have "\<forall>x \<in> set (cps a). settled caret x"
    using assms unfolding settled_def literal_ok_def clean_segment_def d by blast
  then show "encode_text caret d = a" using d encode_settled by blast
qed

definition pattern_ok :: "bool \<Rightarrow> seg_pat list \<Rightarrow> bool" where
  "pattern_ok caret p \<longleftrightarrow> list_all (\<lambda>s. case s of Lit a \<Rightarrow> literal_ok caret a | Wild \<Rightarrow> True) p"

lemma segs_match_encoded:
  "pattern_ok caret p \<Longrightarrow> \<forall>d \<in> set ds. clean_segment d \<Longrightarrow>
     segs_match p (map (encode_text caret) ds) \<longleftrightarrow> names_route p ds"
  by (induction p ds rule: names_route.induct) (simp_all add: pattern_ok_def encode_text_literal)

lemma path_match_encoded:
  assumes "pattern_ok caret p" "segs \<noteq> []" "\<forall>d \<in> set segs. clean_segment d"
  shows "path_match p slash (slash_all (map (encode_text caret) segs)) \<longleftrightarrow>
    names_route p segs \<or> (slash \<and> segs \<noteq> [] \<and> last segs = [] \<and> names_route p (butlast segs))"
proof -
  have "\<forall>d \<in> set (butlast segs). clean_segment d" using assms(3) by (meson in_set_butlastD)
  then show ?thesis using assms segs_match_encoded [OF assms(1)]
    by (simp add: path_match_def split_slash_all last_map map_butlast [symmetric])
qed

definition routes_ok :: "bool \<Rightarrow> route_class list \<Rightarrow> bool" where
  "routes_ok caret rcs \<longleftrightarrow> list_all (\<lambda>rc. list_all (pattern_ok caret) (rc_patterns rc)) rcs"

lemma literal_okI:
  assumes "list_all (\<lambda>c. of_char c = (45 :: nat) \<or> (97 \<le> (of_char c :: nat) \<and> (of_char c :: nat) \<le> 122)) a"
  shows "literal_ok caret a"
  unfolding literal_ok_def
proof
  fix x assume "x \<in> set (cps a)"
  then have "x = 45 \<or> (97 \<le> x \<and> x \<le> 122)" using assms by (auto simp: cps_def list_all_iff)
  then show "\<not> path_escaped caret x \<and> x \<noteq> 37" by (auto simp: path_escaped_def)
qed

lemma tables_ok: "routes_ok caret safe_global_routes" "routes_ok caret scoped_routes"
  by (simp_all add: routes_ok_def safe_global_routes_def scoped_routes_def resource_kinds_def route_def
      pattern_ok_def literal_okI)

lemma table_encoded:
  assumes "routes_ok caret rcs" "segs \<noteq> []" "\<forall>d \<in> set segs. clean_segment d"
  shows "list_ex (route_allows m (slash_all (map (encode_text caret) segs))) rcs \<longleftrightarrow> list_ex (class_names m segs) rcs"
proof -
  have "route_allows m (slash_all (map (encode_text caret) segs)) rc = class_names m segs rc"
    if "rc \<in> set rcs" for rc
    using assms that path_match_encoded
    by (simp add: route_allows_def class_names_def routes_ok_def list_all_iff list_ex_iff)
  then show ?thesis by (auto simp: list_ex_iff)
qed

lemma namespace_ceiling_lemma:
  "allowed_for_namespace caret r =
     (case target_segments r of
        None \<Rightarrow> False
      | Some segs \<Rightarrow>
          list_ex (class_names (classified_method r) segs) (safe_global_routes @ scoped_routes))"
proof (cases "target_segments r")
  case None
  then show ?thesis by (simp add: allowed_for_namespace_def proxy_target_path_eq)
next
  case (Some segs)
  note facts = target_segments_facts [OF Some]
  show ?thesis using Some table_encoded [OF tables_ok(1) facts(1,2)] table_encoded [OF tables_ok(2) facts(1,2)]
    by (simp add: allowed_for_namespace_def proxy_target_path_eq)
qed

text \<open>C5: The namespace ceiling decides on what the request names, not on how it is spelled: a
  request is allowed exactly when its once-decoded segments name a route class of one of the two
  tables, whatever was escaped in the raw path and whichever path escape set the runtime uses.\<close>

theorem namespace_ceiling_on_decoded_route:
  "allowed_for_namespace caret r =
     (case target_segments r of
        None \<Rightarrow> False
      | Some segs \<Rightarrow>
          list_ex (class_names (classified_method r) segs) (safe_global_routes @ scoped_routes))"
  by (rule namespace_ceiling_lemma)

lemma verification_ok: "pattern_ok caret [Lit ''consumers'', Wild, Lit ''verification'']"
  by (simp add: pattern_ok_def literal_okI)

lemma snapshot_ok: "pattern_ok caret [Lit ''deployment-snapshot'']"
  by (simp add: pattern_ok_def literal_okI)

lemma snapshot_path_match: "is_deployment_snapshot path \<Longrightarrow> path_match [Lit ''deployment-snapshot''] True path"
  by (auto simp: is_deployment_snapshot_def path_match_def)

lemma names_route_length: "names_route p ds \<Longrightarrow> length ds = length p"
  by (induction p ds rule: names_route.induct) auto

lemma class_namesE:
  assumes "list_ex (class_names m segs) rcs"
  obtains rc p where "rc \<in> set rcs" "p \<in> set (rc_patterns rc)" "m \<in> set (split_on CHR ''|'' (rc_methods rc))"
    "names_route p segs \<or> (segs \<noteq> [] \<and> last segs = [] \<and> names_route p (butlast segs))"
  using assms by (auto simp: list_ex_iff class_names_def)

lemma butlast_snoc_Nil: "segs \<noteq> [] \<Longrightarrow> last segs = [] \<Longrightarrow> segs = butlast segs @ [[]]"
  by (metis append_butlast_last_id)

definition known_heads :: "string list" where
  "known_heads = [''proxies'', ''upstreams'', ''consumers'', ''plugins'', ''api-specs'', ''gateway-trust-bundles'',
     ''gateway-trust'', ''config'', ''audit'', ''backend-egress-policy'', ''batch'', ''restore'', ''backup'',
     ''namespaces'', ''live'', ''health'', ''status'']"

definition pattern_heads_ok :: "route_class list \<Rightarrow> bool" where
  "pattern_heads_ok rcs \<longleftrightarrow>
     list_all (\<lambda>rc. list_all (\<lambda>p. case p of Lit a # _ \<Rightarrow> a \<in> set known_heads | _ \<Rightarrow> False) (rc_patterns rc)) rcs"

lemma table_heads: "pattern_heads_ok (safe_global_routes @ scoped_routes)"
  by (simp add: pattern_heads_ok_def safe_global_routes_def scoped_routes_def resource_kinds_def route_def known_heads_def)

lemma table_methods:
  "rc \<in> set (safe_global_routes @ scoped_routes) \<Longrightarrow>
     set (split_on CHR ''|'' (rc_methods rc)) \<subseteq> {''GET'', ''POST'', ''PUT'', ''DELETE''}"
  by (auto simp: safe_global_routes_def scoped_routes_def route_def)

lemma names_route_head:
  "names_route p ds \<Longrightarrow> (case p of Lit a # _ \<Rightarrow> a \<in> set known_heads | _ \<Rightarrow> False) \<Longrightarrow>
     ds \<noteq> [] \<and> hd ds \<in> cps ` set known_heads"
  by (cases p; cases ds) (auto split: seg_pat.splits)

lemma class_head:
  assumes "list_ex (class_names m segs) (safe_global_routes @ scoped_routes)"
  shows "hd segs \<in> cps ` set known_heads \<and> m \<in> {''GET'', ''POST'', ''PUT'', ''DELETE''}"
proof -
  obtain rc p where rc: "rc \<in> set (safe_global_routes @ scoped_routes)" "p \<in> set (rc_patterns rc)"
    "m \<in> set (split_on CHR ''|'' (rc_methods rc))"
    and names: "names_route p segs \<or> (segs \<noteq> [] \<and> last segs = [] \<and> names_route p (butlast segs))"
    using assms by (rule class_namesE)
  have "case p of Lit a # _ \<Rightarrow> a \<in> set known_heads | _ \<Rightarrow> False"
    using table_heads rc(1,2) unfolding pattern_heads_ok_def list_all_iff by blast
  then have "hd segs \<in> cps ` set known_heads"
    using names names_route_head [of p segs] names_route_head [of p "butlast segs"] butlast_snoc_Nil [of segs]
    by (metis hd_append2)
  then show ?thesis using table_methods [OF rc(1)] rc(3) by blast
qed

lemma verification_not_named:
  "\<not> list_ex (class_names m [cps ''consumers'', d, cps ''verification'']) (safe_global_routes @ scoped_routes)"
  "\<not> list_ex (class_names m [cps ''consumers'', d, cps ''verification'', []]) (safe_global_routes @ scoped_routes)"
  by (simp_all add: class_names_def safe_global_routes_def scoped_routes_def resource_kinds_def route_def)

lemma names_verification:
  "names_route [Lit ''consumers'', Wild, Lit ''verification''] ds \<Longrightarrow> \<exists>d. ds = [cps ''consumers'', d, cps ''verification'']"
  by (cases ds; cases "tl ds"; cases "tl (tl ds)"; cases "tl (tl (tl ds))") auto

lemma scoped_verification:
  assumes "names_route [Lit ''consumers'', Wild, Lit ''verification''] segs \<or>
    (segs \<noteq> [] \<and> last segs = [] \<and> names_route [Lit ''consumers'', Wild, Lit ''verification''] (butlast segs))"
  shows "\<not> list_ex (class_names m segs) (safe_global_routes @ scoped_routes)"
  using assms
proof
  assume "names_route [Lit ''consumers'', Wild, Lit ''verification''] segs"
  then show ?thesis using names_verification verification_not_named(1) by metis
next
  assume b: "segs \<noteq> [] \<and> last segs = [] \<and> names_route [Lit ''consumers'', Wild, Lit ''verification''] (butlast segs)"
  then obtain d where "butlast segs = [cps ''consumers'', d, cps ''verification'']"
    using names_verification by blast
  then have "segs = [cps ''consumers'', d, cps ''verification'', []]" using b butlast_snoc_Nil [of segs] by simp
  then show ?thesis using verification_not_named(2) by metis
qed

lemma scoped_snapshot:
  assumes "names_route [Lit ''deployment-snapshot''] segs \<or>
    (segs \<noteq> [] \<and> last segs = [] \<and> names_route [Lit ''deployment-snapshot''] (butlast segs))"
  shows "hd segs \<notin> cps ` set known_heads"
proof -
  have "hd ds = cps ''deployment-snapshot'' \<and> ds \<noteq> []" if "names_route [Lit ''deployment-snapshot''] ds" for ds
    using that by (cases ds) auto
  then have "hd segs = cps ''deployment-snapshot''"
    using assms butlast_snoc_Nil [of segs] by (metis hd_append2)
  then show ?thesis by (simp add: known_heads_def)
qed

text \<open>The ceiling denies by default and never opens a credential-bearing read: a request it
  allows uses one of four methods (\<open>HEAD\<close> counting as \<open>GET\<close>), its first decoded segment is one of
  the listed resource kinds, and its path is neither the consumer verification read nor the
  deployment snapshot. The global allowlist is part of what it allows.\<close>

theorem namespace_ceiling_denies_by_default:
  assumes "allowed_for_namespace caret r"
  shows "\<exists>path segs. proxy_target_path caret r = Some path \<and> target_segments r = Some segs \<and>
    \<not> is_consumer_verification path \<and> \<not> is_deployment_snapshot path \<and>
    hd segs \<in> cps ` set known_heads \<and>
    rq_method r \<in> {''GET'', ''HEAD'', ''POST'', ''PUT'', ''DELETE''}"
proof -
  obtain segs where segs: "target_segments r = Some segs"
    and named: "list_ex (class_names (classified_method r) segs) (safe_global_routes @ scoped_routes)"
    using assms unfolding namespace_ceiling_lemma by (auto split: option.splits)
  note facts = target_segments_facts [OF segs]
  let ?path = "slash_all (map (encode_text caret) segs)"
  have "\<not> is_consumer_verification ?path"
    using scoped_verification [of segs "classified_method r"] named
    unfolding is_consumer_verification_def path_match_encoded [OF verification_ok facts(1,2)] by blast
  moreover have "\<not> is_deployment_snapshot ?path"
    using scoped_snapshot [of segs] class_head [OF named] snapshot_path_match [of ?path]
    unfolding path_match_encoded [OF snapshot_ok facts(1,2)] by blast
  moreover have "rq_method r \<in> {''GET'', ''HEAD'', ''POST'', ''PUT'', ''DELETE''}"
    using class_head [OF named] by (auto simp: classified_method_def split: if_splits)
  ultimately show ?thesis using segs class_head [OF named] by (simp add: proxy_target_path_eq)
qed

theorem namespace_ceiling_denies_by_default_witness:
  "\<exists>path segs. proxy_target_path True sample_request = Some path \<and> target_segments sample_request = Some segs \<and>
     \<not> is_consumer_verification path"
proof -
  have "allowed_for_namespace True sample_request" by code_simp
  then show ?thesis using namespace_ceiling_denies_by_default [of True sample_request] by blast
qed

section \<open>Properties of the API route test\<close>

fun decodes :: "nat \<Rightarrow> cptext \<Rightarrow> cptext option" where
  "decodes 0 t = Some t"
| "decodes (Suc k) t = (case decode_uri t of None \<Rightarrow> None | Some d \<Rightarrow> decodes k d)"

lemma decodes_fixed: "decode_uri t = Some t \<Longrightarrow> decodes k t = Some t"
  by (induction k) auto

definition settles :: "cptext \<Rightarrow> bool" where
  "settles u \<longleftrightarrow> decode_uri u = None \<or> decode_uri u = Some u"

lemma ex_decodes_Suc:
  "(\<exists>k u. decodes k t = Some u \<and> P u) \<longleftrightarrow> P t \<or> (\<exists>d. decode_uri t = Some d \<and> (\<exists>k u. decodes k d = Some u \<and> P u))"
  (is "?L \<longleftrightarrow> ?R")
proof
  assume ?L
  then obtain k u where "decodes k t = Some u" "P u" by blast
  then show ?R by (cases k) (auto split: option.splits)
next
  assume ?R
  then show ?L
  proof
    assume "P t"
    then show ?L by (intro exI [of _ 0] exI [of _ t]) simp
  next
    assume "\<exists>d. decode_uri t = Some d \<and> (\<exists>k u. decodes k d = Some u \<and> P u)"
    then obtain d k u where "decode_uri t = Some d" "decodes k d = Some u" "P u" by blast
    then show ?L by (intro exI [of _ "Suc k"] exI [of _ u]) simp
  qed
qed

lemma ex_decodes_less_Suc:
  "(\<exists>k < Suc n. \<exists>u. decodes k t = Some u \<and> P u) \<longleftrightarrow>
     P t \<or> (\<exists>d. decode_uri t = Some d \<and> (\<exists>k < n. \<exists>u. decodes k d = Some u \<and> P u))"
  by (auto simp: Ex_less_Suc2 split: option.splits)

lemma not_api_passes_iff:
  "\<not> api_passes n t \<longleftrightarrow>
     (\<exists>k < n. \<exists>u. decodes k t = Some u \<and> settles u) \<and>
     (\<nexists>k u. decodes k t = Some u \<and> starts_with_cps ''/api/'' u)"
proof (induction n arbitrary: t)
  case 0
  then show ?case by simp
next
  case (Suc n)
  show ?case
  proof (cases "decode_uri t")
    case None
    then show ?thesis
      unfolding ex_decodes_less_Suc ex_decodes_Suc [of t "starts_with_cps ''/api/''"] by (simp add: settles_def)
  next
    case (Some d)
    show ?thesis
    proof (cases "d = t")
      case True
      then have "decodes k t = Some t" for k using Some decodes_fixed by simp
      then show ?thesis using Some True by (auto simp: settles_def)
    next
      case False
      then show ?thesis using Some Suc.IH [of d]
        unfolding ex_decodes_less_Suc ex_decodes_Suc [of t "starts_with_cps ''/api/''"] by (simp add: settles_def)
    qed
  qed
qed

text \<open>The SPA shell answers exactly the page navigations: \<open>GET\<close> or \<open>HEAD\<close>, no API route,
  neither \<open>/api\<close> nor a build asset, and a path that stops changing within eight decodings and of
  which no decoding, however often repeated, begins with \<open>/api/\<close>. So no percent-encoding hides an
  API path behind the shell.\<close>

theorem spa_shell_never_hides_api:
  "serves_spa_shell r \<longleftrightarrow>
     rq_method r \<in> {''GET'', ''HEAD''} \<and>
     (case rq_route_url r of Some u \<Rightarrow> \<not> starts_with ''/api/'' u | None \<Rightarrow> True) \<and>
     before_query (rq_url r) \<noteq> ''/api'' \<and> \<not> starts_with ''/assets/'' (before_query (rq_url r)) \<and>
     (\<exists>k < 8. \<exists>u. decodes k (cps (before_query (rq_url r))) = Some u \<and> settles u) \<and>
     (\<nexists>k u. decodes k (cps (before_query (rq_url r))) = Some u \<and> starts_with_cps ''/api/'' u)"
  using not_api_passes_iff [of 8 "cps (before_query (rq_url r))"]
  by (auto simp: serves_spa_shell_def is_api_route_def max_decode_passes_def Let_def split: option.splits)

end
