(* ===== verification/AuthTypes.thy ===== *)
theory AuthTypes
  imports JsString
begin

text \<open>
  The principal every request is served for (\<open>server/auth-types.ts\<close>), its role ordered as
  \<open>requireRole\<close> orders it, and the grant test of the SPA (\<open>src/lib/namespaceGrants.ts\<close>).
\<close>

datatype gateway_role = Viewer | Operator | Admin

primrec role_rank :: "gateway_role \<Rightarrow> nat" where
  "role_rank Viewer = 0"
| "role_rank Operator = 1"
| "role_rank Admin = 2"

lemma role_rank_inject: "role_rank a = role_rank b \<Longrightarrow> a = b"
  by (cases a; cases b) auto

instantiation gateway_role :: linorder
begin

definition less_eq_gateway_role :: "gateway_role \<Rightarrow> gateway_role \<Rightarrow> bool" where
  "less_eq_gateway_role a b \<longleftrightarrow> role_rank a \<le> role_rank b"

definition less_gateway_role :: "gateway_role \<Rightarrow> gateway_role \<Rightarrow> bool" where
  "less_gateway_role a b \<longleftrightarrow> role_rank a < role_rank b"

instance
  by standard (auto simp: less_eq_gateway_role_def less_gateway_role_def dest: role_rank_inject)

end

lemma Admin_top [simp]: "r \<le> Admin" "Admin \<le> r \<longleftrightarrow> r = Admin"
  by (cases r; simp add: less_eq_gateway_role_def)+

lemma Viewer_bottom [simp]: "Viewer \<le> r"
  by (simp add: less_eq_gateway_role_def)

datatype auth_mode = StaticMode | TrustedProxy

record principal =
  p_subject :: string
  p_display :: string
  p_role :: gateway_role
  p_namespaces :: "string list option"
  p_mode :: auth_mode

definition namespace_granted :: "string list option \<Rightarrow> string \<Rightarrow> bool" where
  "namespace_granted grants name = (case grants of None \<Rightarrow> True | Some ns \<Rightarrow> name \<in> set ns)"

end
