(* ===== verification/Json.thy ===== *)
theory Json
  imports Complex_Main UriCodec "HOL-Library.List_Lexorder"
begin

text \<open>
  JSON values as \<open>JSON.parse\<close> delivers them, over a type \<open>'s\<close> of strings: \<open>utf16\<close> (code units)
  where wide characters matter, \<open>string\<close> elsewhere. Objects are insertion-ordered field lists
  with distinct keys (a repeated key in the text has already been resolved by the parser).
  Numbers are the finite doubles, hence rationals.
\<close>

type_synonym utf16 = "nat list"

datatype 's json = JNull | JBool bool | JNum rat | JStr 's | JArr "'s json list" | JObj "('s \<times> 's json) list"

definition jfield :: "'s \<Rightarrow> 's json \<Rightarrow> 's json option" where
  "jfield k v = (case v of JObj fs \<Rightarrow> map_of fs k | _ \<Rightarrow> None)"

definition is_array :: "'s json \<Rightarrow> bool" where
  "is_array v = (case v of JArr _ \<Rightarrow> True | _ \<Rightarrow> False)"

definition max_safe :: int where
  "max_safe = 9007199254740991"

text \<open>\<open>Number.isSafeInteger\<close> on a parsed value, with the integer it is.\<close>

definition safe_integer :: "'s json \<Rightarrow> int option" where
  "safe_integer v =
     (case v of
        JNum r \<Rightarrow> if snd (quotient_of r) = 1 \<and> \<bar>fst (quotient_of r)\<bar> \<le> max_safe
                  then Some (fst (quotient_of r)) else None
      | _ \<Rightarrow> None)"

lemma safe_integer_of_int [simp]:
  "\<bar>i\<bar> \<le> max_safe \<Longrightarrow> safe_integer (JNum (of_int i)) = Some i"
  by (simp add: safe_integer_def)

lemma safe_integer_SomeD: "safe_integer v = Some i \<Longrightarrow> v = JNum (of_int i) \<and> \<bar>i\<bar> \<le> max_safe"
proof -
  assume s: "safe_integer v = Some i"
  then obtain r where v: "v = JNum r" "snd (quotient_of r) = 1" "fst (quotient_of r) = i" "\<bar>i\<bar> \<le> max_safe"
    by (auto simp: safe_integer_def split: json.splits if_splits)
  then have "quotient_of r = (i, 1)" by (metis prod.collapse)
  then have "r = of_int i" using quotient_of_div [of r i 1] by simp
  then show ?thesis using v by simp
qed

section \<open>UTF-16\<close>

definition high_surrogate :: "nat \<Rightarrow> bool" where
  "high_surrogate u \<longleftrightarrow> 55296 \<le> u \<and> u < 56320"

definition low_surrogate :: "nat \<Rightarrow> bool" where
  "low_surrogate u \<longleftrightarrow> 56320 \<le> u \<and> u < 57344"

text \<open>\<open>[...s]\<close>: the code points of a string; a lone surrogate stands for itself.\<close>

fun code_points :: "utf16 \<Rightarrow> nat list" where
  "code_points [] = []"
| "code_points [u] = [u]"
| "code_points (u # v # us) =
     (if high_surrogate u \<and> low_surrogate v
      then (65536 + (u - 55296) * 1024 + (v - 56320)) # code_points us
      else u # code_points (v # us))"

definition utf16_of :: "nat \<Rightarrow> utf16" where
  "utf16_of cp = (if cp < 65536 then [cp] else [55296 + (cp - 65536) div 1024, 56320 + (cp - 65536) mod 1024])"

definition utf16_encode :: "nat list \<Rightarrow> utf16" where
  "utf16_encode cs = concat (map utf16_of cs)"

lemma code_points_scalar_cons:
  assumes "scalar cp"
  shows "code_points (utf16_of cp @ us) = cp # code_points us"
proof (cases "cp < 65536")
  case True
  then have "\<not> high_surrogate cp" using assms by (auto simp: scalar_def high_surrogate_def)
  then show ?thesis using True by (cases us) (auto simp: utf16_of_def)
next
  case False
  then have "(cp - 65536) div 1024 < 1024" using assms by (auto simp: scalar_def)
  moreover have "(cp - 65536) div 1024 * 1024 + (cp - 65536) mod 1024 = cp - 65536" by (rule div_mult_mod_eq)
  ultimately show ?thesis using False
    by (simp add: utf16_of_def high_surrogate_def low_surrogate_def)
qed

lemma code_points_encode: "\<forall>c \<in> set cs. scalar c \<Longrightarrow> code_points (utf16_encode cs) = cs"
  by (induction cs) (auto simp: utf16_encode_def code_points_scalar_cons)

lemma utf16_of_pair:
  assumes "high_surrogate u" "low_surrogate v"
  shows "utf16_of (65536 + (u - 55296) * 1024 + (v - 56320)) = [u, v]"
proof -
  let ?a = "u - 55296" let ?b = "v - 56320"
  have b: "?b < 1024" and u: "u = 55296 + ?a" and v: "v = 56320 + ?b"
    using assms by (auto simp: high_surrogate_def low_surrogate_def)
  have "(?a * 1024 + ?b) div 1024 = ?a" "(?a * 1024 + ?b) mod 1024 = ?b" using b by auto
  then show ?thesis using u v by (simp add: utf16_of_def)
qed

lemma encode_code_points: "\<forall>u \<in> set us. u < 65536 \<Longrightarrow> utf16_encode (code_points us) = us"
proof (induction us rule: code_points.induct)
  case (3 u v us)
  show ?case
  proof (cases "high_surrogate u \<and> low_surrogate v")
    case True
    then show ?thesis using 3 utf16_of_pair [of u v] by (simp add: utf16_encode_def)
  next
    case False
    then have cp: "code_points (u # v # us) = u # code_points (v # us)" by auto
    have "utf16_encode (code_points (v # us)) = v # us" using 3 False by simp
    then show ?thesis unfolding cp using "3.prems"
      by (simp add: utf16_encode_def utf16_of_def del: code_points.simps(3))
  qed
qed (simp_all add: utf16_encode_def utf16_of_def)

lemma code_points_bound: "\<forall>u \<in> set us. u < 65536 \<Longrightarrow> c \<in> set (code_points us) \<Longrightarrow> c < 1114112"
  by (induction us rule: code_points.induct)
    (auto simp: high_surrogate_def low_surrogate_def split: if_splits)

end
