(* ===== verification/Namespaces.thy ===== *)
theory Namespaces
  imports Json
begin

text \<open>
  The namespace identifier policy shared by the BFF, the admin JWT signer and the SPA
  (\<open>shared/namespace.js\<close>), and the SPA's registry form logic on top of it
  (\<open>src/api/namespaces.ts\<close>). Names and descriptions are UTF-16 strings.
\<close>

section \<open>Names\<close>

definition name_start :: "nat \<Rightarrow> bool" where
  "name_start c \<longleftrightarrow> (97 \<le> c \<and> c \<le> 122) \<or> (65 \<le> c \<and> c \<le> 90) \<or> (48 \<le> c \<and> c \<le> 57)"

definition name_char :: "nat \<Rightarrow> bool" where
  "name_char c \<longleftrightarrow> name_start c \<or> c = 46 \<or> c = 95 \<or> c = 45"

definition is_namespace_name :: "utf16 \<Rightarrow> bool" where
  "is_namespace_name s \<longleftrightarrow>
     (case s of [] \<Rightarrow> False | c # cs \<Rightarrow> name_start c \<and> list_all name_char cs \<and> length cs \<le> 253)"

definition is_namespace_value :: "utf16 json \<Rightarrow> bool" where
  "is_namespace_value v = (case v of JStr s \<Rightarrow> is_namespace_name s | _ \<Rightarrow> False)"

section \<open>Descriptions\<close>

definition description_max :: nat where
  "description_max = 1024"

definition unicode_white_space :: "nat \<Rightarrow> bool" where
  "unicode_white_space c \<longleftrightarrow>
     (9 \<le> c \<and> c \<le> 13) \<or> c \<in> {32, 133, 160, 5760, 8232, 8233, 8239, 8287, 12288} \<or> (8192 \<le> c \<and> c \<le> 8202)"

definition normalize_description :: "utf16 \<Rightarrow> utf16" where
  "normalize_description d =
     rev (dropWhile unicode_white_space (rev (dropWhile unicode_white_space d)))"

datatype description_problem = InvalidUnicode | TooLong

definition namespace_description_problem :: "utf16 \<Rightarrow> description_problem option" where
  "namespace_description_problem d =
     (let characters = code_points (normalize_description d) in
      if list_ex (\<lambda>code. 55296 \<le> code \<and> code \<le> 57343) characters then Some InvalidUnicode
      else if description_max < length characters then Some TooLong
      else None)"

lemma normalize_set: "set (normalize_description d) \<subseteq> set d"
  by (auto simp: normalize_description_def dest!: set_dropWhileD)

lemma dropWhile_id: "(xs = [] \<or> \<not> P (hd xs)) \<Longrightarrow> dropWhile P xs = xs"
  by (cases xs) auto

lemma hd_dropWhile_not: "dropWhile P xs \<noteq> [] \<Longrightarrow> \<not> P (hd (dropWhile P xs))"
  by (rule hd_dropWhile)

lemma rev_dropWhile_rev_prefix: "\<exists>ys. xs = rev (dropWhile P (rev xs)) @ ys"
  by (metis rev_append rev_rev_ident takeWhile_dropWhile_id)

lemma normalize_idem [simp]: "normalize_description (normalize_description d) = normalize_description d"
proof -
  let ?P = unicode_white_space
  let ?a = "dropWhile ?P d"
  let ?n = "rev (dropWhile ?P (rev ?a))"
  obtain ys where ys: "?a = ?n @ ys" using rev_dropWhile_rev_prefix by blast
  have start: "?n = [] \<or> \<not> ?P (hd ?n)"
  proof (cases "?n = []")
    case False
    then have "hd ?n = hd ?a" "?a \<noteq> []" using ys by (metis hd_append2, metis append_is_Nil_conv)
    then show ?thesis using hd_dropWhile_not [of ?P d] by simp
  qed simp
  have "dropWhile ?P (rev ?n) = rev ?n" by simp
  then show ?thesis using dropWhile_id [of ?n ?P, OF start] by (simp add: normalize_description_def)
qed

section \<open>The registry form\<close>

record ns_update =
  nu_name :: "utf16 option"
  nu_description :: "utf16 option option"

definition js_white :: "nat \<Rightarrow> bool" where
  "js_white c \<longleftrightarrow> (unicode_white_space c \<and> c \<noteq> 133) \<or> c = 65279"

definition js_trim16 :: "utf16 \<Rightarrow> utf16" where
  "js_trim16 s = rev (dropWhile js_white (rev (dropWhile js_white s)))"

datatype name_error = NameRequired | NameTooLong | NameGrammar

definition validate_namespace_name :: "utf16 \<Rightarrow> name_error option" where
  "validate_namespace_name n =
     (if length n = 0 then Some NameRequired
      else if 254 < length n then Some NameTooLong
      else if \<not> is_namespace_name n then Some NameGrammar
      else None)"

definition build_namespace_update ::
  "utf16 \<times> utf16 option \<Rightarrow> utf16 \<times> utf16 \<Rightarrow> ns_update option" where
  "build_namespace_update current edited =
     (let next_name = js_trim16 (fst edited);
          name = (if next_name \<noteq> [] \<and> next_name \<noteq> fst current then Some next_name else None);
          cur_desc = normalize_description (case snd current of Some d \<Rightarrow> d | None \<Rightarrow> []);
          next_desc = normalize_description (snd edited);
          desc = (if next_desc \<noteq> cur_desc then Some (if next_desc = [] then None else Some next_desc) else None)
      in if name = None \<and> desc = None then None
         else Some \<lparr>nu_name = name, nu_description = desc\<rparr>)"

text \<open>Counting what a cascade delete destroys: one list answer per resource kind.\<close>

definition valid_count :: "utf16 json option \<Rightarrow> nat option" where
  "valid_count v =
     (case v of None \<Rightarrow> None
      | Some j \<Rightarrow> (case safe_integer j of Some i \<Rightarrow> if 0 \<le> i then Some (nat i) else None | None \<Rightarrow> None))"

definition top_level_count :: "utf16 json \<Rightarrow> nat option" where
  "top_level_count r = valid_count (jfield (cps ''total'') r)"

definition paginated_count :: "utf16 json \<Rightarrow> nat option" where
  "paginated_count r =
     (case jfield (cps ''pagination'') r of None \<Rightarrow> None | Some p \<Rightarrow> top_level_count p)"

definition occupancy_endpoints :: "(string \<times> string \<times> (utf16 json \<Rightarrow> nat option)) list" where
  "occupancy_endpoints =
     [(''proxies'', ''proxies'', paginated_count), (''consumers'', ''consumers'', paginated_count),
      (''plugin configs'', ''plugins/config'', paginated_count), (''upstreams'', ''upstreams'', paginated_count),
      (''API specs'', ''api-specs'', top_level_count),
      (''gateway trust bundles'', ''gateway-trust-bundles'', paginated_count)]"

record occupancy =
  oc_entries :: "(string \<times> nat) list"
  oc_total :: nat
  oc_partial :: bool

text \<open>\<open>answer path = None\<close> is a failed request.\<close>

definition get_occupancy :: "(string \<Rightarrow> utf16 json option) \<Rightarrow> occupancy" where
  "get_occupancy answer =
     (let results = map (\<lambda>(label, path, count).
            case answer path of None \<Rightarrow> None | Some r \<Rightarrow> map_option (Pair label) (count r)) occupancy_endpoints;
          entries = map the (filter (\<lambda>r. r \<noteq> None) results)
      in \<lparr>oc_entries = filter (\<lambda>e. 0 < snd e) entries,
          oc_total = sum_list (map snd entries),
          oc_partial = list_ex (\<lambda>r. r = None) results\<rparr>)"

definition contains_sub :: "string \<Rightarrow> string \<Rightarrow> bool" where
  "contains_sub p s \<longleftrightarrow> list_ex (\<lambda>i. starts_with p (drop i s)) [0..<Suc (length s)]"

definition is_cascadable_delete_error :: "nat \<Rightarrow> string \<Rightarrow> bool" where
  "is_cascadable_delete_error status body =
     (if status \<noteq> 409 then False
      else \<not> list_ex (\<lambda>p. contains_sub p (js_lower body))
              [''ferrum_namespace'', ''ferrum_cp_namespaces'', ''last remaining''])"

section \<open>Properties\<close>

lemma code_points_normalized_scalar:
  assumes "\<forall>u \<in> set d. u < 65536" "namespace_description_problem d = None"
  shows "\<forall>c \<in> set (code_points (normalize_description d)). scalar c"
proof
  fix c assume c: "c \<in> set (code_points (normalize_description d))"
  have "\<forall>u \<in> set (normalize_description d). u < 65536" using assms(1) normalize_set by blast
  then have "c < 1114112" using c code_points_bound by blast
  moreover have "\<not> (55296 \<le> c \<and> c \<le> 57343)"
    using assms(2) c by (auto simp: namespace_description_problem_def Let_def list_ex_iff split: if_splits)
  ultimately show "scalar c" by (auto simp: scalar_def)
qed

text \<open>A description is accepted exactly when what is left of it after trimming Unicode white
  space is the UTF-16 form of at most 1024 Unicode scalar values: the limit counts scalar values,
  not code units, and any lone surrogate is refused.\<close>

theorem description_accepted_iff_scalars:
  assumes "\<forall>u \<in> set d. u < 65536"
  shows "namespace_description_problem d = None \<longleftrightarrow>
    (\<exists>text. length text \<le> 1024 \<and> (\<forall>c \<in> set text. scalar c) \<and> normalize_description d = utf16_encode text)"
proof
  assume none: "namespace_description_problem d = None"
  let ?cs = "code_points (normalize_description d)"
  have "\<forall>u \<in> set (normalize_description d). u < 65536" using assms normalize_set by blast
  then have "normalize_description d = utf16_encode ?cs" by (simp add: encode_code_points)
  moreover have "length ?cs \<le> 1024"
    using none by (auto simp: namespace_description_problem_def Let_def description_max_def split: if_splits)
  ultimately show "\<exists>text. length text \<le> 1024 \<and> (\<forall>c \<in> set text. scalar c) \<and> normalize_description d = utf16_encode text"
    using code_points_normalized_scalar [OF assms none] by blast
next
  assume "\<exists>text. length text \<le> 1024 \<and> (\<forall>c \<in> set text. scalar c) \<and> normalize_description d = utf16_encode text"
  then obtain t where t: "length t \<le> 1024" "\<forall>c \<in> set t. scalar c" "normalize_description d = utf16_encode t"
    by blast
  then have "code_points (normalize_description d) = t" by (simp add: code_points_encode)
  then show "namespace_description_problem d = None"
    using t by (auto simp: namespace_description_problem_def Let_def description_max_def list_ex_iff scalar_def)
qed

theorem description_accepted_iff_scalars_witness:
  "namespace_description_problem [32, 55357, 56832, 133] = None \<and>
   \<not> (\<exists>text. length text \<le> 1024 \<and> (\<forall>c \<in> set text. scalar c) \<and> normalize_description [65, 55357] = utf16_encode text)"
proof -
  have "namespace_description_problem [32, 55357, 56832, 133] = None"
    by (simp add: namespace_description_problem_def normalize_description_def unicode_white_space_def
        Let_def high_surrogate_def low_surrogate_def description_max_def)
  moreover have "namespace_description_problem [65, 55357] \<noteq> None"
    by (simp add: namespace_description_problem_def normalize_description_def unicode_white_space_def Let_def
        high_surrogate_def low_surrogate_def)
  ultimately show ?thesis using description_accepted_iff_scalars [of "[65, 55357]"] by simp
qed

text \<open>What the gateway documents it does with an update: an omitted field is kept, a null or
  blank description cleared, a description stored trimmed.\<close>

definition stored_description :: "utf16 option \<Rightarrow> utf16 option" where
  "stored_description d =
     (case d of None \<Rightarrow> None | Some s \<Rightarrow> if normalize_description s = [] then None else Some (normalize_description s))"

definition apply_update :: "ns_update option \<Rightarrow> utf16 \<times> utf16 option \<Rightarrow> utf16 \<times> utf16 option" where
  "apply_update u current =
     (case u of None \<Rightarrow> current
      | Some p \<Rightarrow> (case nu_name p of Some n \<Rightarrow> n | None \<Rightarrow> fst current,
                   case nu_description p of Some d \<Rightarrow> stored_description d | None \<Rightarrow> snd current))"

lemma normalize_Nil [simp]: "normalize_description [] = []"
  by (simp add: normalize_description_def)

lemma stored_fixed:
  assumes "stored_description desc = desc"
  shows "normalize_description (case desc of Some d \<Rightarrow> d | None \<Rightarrow> []) = (case desc of Some d \<Rightarrow> d | None \<Rightarrow> [])"
    and "desc = (if (case desc of Some d \<Rightarrow> d | None \<Rightarrow> []) = [] then None else desc)"
proof -
  have "normalize_description d = d \<and> d \<noteq> []" if "desc = Some d" for d
  proof (cases "normalize_description d = []")
    case True
    then have "stored_description desc = None" using that by (simp add: stored_description_def)
    then show ?thesis using assms that by simp
  next
    case False
    then have "stored_description desc = Some (normalize_description d)" using that by (simp add: stored_description_def)
    then show ?thesis using assms that False by simp
  qed
  then show "normalize_description (case desc of Some d \<Rightarrow> d | None \<Rightarrow> []) = (case desc of Some d \<Rightarrow> d | None \<Rightarrow> [])"
    "desc = (if (case desc of Some d \<Rightarrow> d | None \<Rightarrow> []) = [] then None else desc)"
    by (cases desc; simp)+
qed

text \<open>A namespace edit sends the smallest update that produces what was entered: on a stored
  record, the update leaves the trimmed name (the old one when the field is blank) and the
  normalised description; nothing is sent when nothing changed, and a sent name is never blank
  and always differs from the current one.\<close>

theorem namespace_update_minimal_and_exact:
  assumes "stored_description desc = desc"
  shows "apply_update (build_namespace_update (name, desc) (new_name, new_desc)) (name, desc) =
      (if js_trim16 new_name = [] then name else js_trim16 new_name, stored_description (Some new_desc)) \<and>
    (build_namespace_update (name, desc) (new_name, new_desc) = None \<longleftrightarrow>
      js_trim16 new_name \<in> {[], name} \<and> stored_description (Some new_desc) = desc)"
proof -
  define n where "n = js_trim16 new_name"
  define nd where "nd = normalize_description new_desc"
  define cd where "cd = (case desc of Some d \<Rightarrow> d | None \<Rightarrow> [])"
  have cd: "normalize_description cd = cd" "desc = (if cd = [] then None else Some cd)"
    unfolding cd_def using stored_fixed [OF assms] by (cases desc; fastforce)+
  have nd: "normalize_description nd = nd" "stored_description (Some new_desc) = (if nd = [] then None else Some nd)"
    by (simp_all add: nd_def stored_description_def)
  then have again: "stored_description (Some nd) = (if nd = [] then None else Some nd)"
    by (simp add: stored_description_def)
  have build: "build_namespace_update (name, desc) (new_name, new_desc) =
    (if (n = [] \<or> n = name) \<and> nd = cd then None
     else Some \<lparr>nu_name = (if n \<noteq> [] \<and> n \<noteq> name then Some n else None),
                nu_description = (if nd \<noteq> cd then Some (if nd = [] then None else Some nd) else None)\<rparr>)"
    using cd(1) by (simp add: build_namespace_update_def Let_def n_def nd_def cd_def)
  have "stored_description None = None" by (simp add: stored_description_def)
  then show ?thesis unfolding build nd(2) n_def [symmetric] apply_update_def
    using cd(2) again by (cases "n = []"; cases "n = name"; cases "nd = cd"; cases "nd = []") simp_all
qed

theorem namespace_update_minimal_and_exact_witness:
  "apply_update (build_namespace_update (cps ''team-a'', Some (cps ''old'')) (cps '' team-b '', cps ''  ''))
     (cps ''team-a'', Some (cps ''old'')) = (cps ''team-b'', None)"
proof -
  have "stored_description (Some (cps ''old'')) = Some (cps ''old'')"
    by (simp add: stored_description_def normalize_description_def unicode_white_space_def cps_def)
  moreover have "js_trim16 (cps '' team-b '') = cps ''team-b''"
    by (simp add: js_trim16_def js_white_def unicode_white_space_def cps_def)
  moreover have "stored_description (Some (cps ''  '')) = None"
    by (simp add: stored_description_def normalize_description_def unicode_white_space_def cps_def)
  ultimately show ?thesis
    using namespace_update_minimal_and_exact [of "Some (cps ''old'')" "cps ''team-a''" "cps '' team-b ''" "cps ''  ''"]
    by simp
qed

end
