(* ===== verification/Pagination.thy ===== *)
theory Pagination
  imports Json
begin

text \<open>
  Walking a collection page by page (\<open>src/api/pagination.ts\<close>). \<open>fetch n offset limit\<close> is the
  answer to the n-th request (\<open>None\<close> when it rejects) and \<open>aborted n\<close> whether the signal had
  fired when the n-th round began. The locale \<open>paged_collection\<close> is what a server promises
  when the collection stands still; the walk is proved complete over it, and the walk's own
  checks are proved for every server.
\<close>

record 'a wire_page =
  wp_data :: "'a list"
  wp_offset :: "utf16 json"
  wp_total :: "utf16 json"

record 'a bounded_collection =
  bc_items :: "'a list"
  bc_total :: nat
  bc_complete :: bool

datatype collect_error =
    BadPageSize | BadBudget | Aborted | FetchFailed | InconsistentMetadata | TotalChanged
  | RepeatedResource | MoreThanTotal | StoppedAdvancing

definition all_page_size :: int where
  "all_page_size = 250"

definition summary_scan_budget :: nat where
  "summary_scan_budget = 2000"

fun see_identities :: "('a \<Rightarrow> 'i) \<Rightarrow> 'i list \<Rightarrow> 'a list \<Rightarrow> 'i list option" where
  "see_identities idf seen [] = Some seen"
| "see_identities idf seen (x # xs) =
     (if idf x \<in> set seen then None else see_identities idf (idf x # seen) xs)"

record ('a, 'i) walk_state =
  ws_items :: "'a list"
  ws_seen :: "'i list"
  ws_offset :: nat
  ws_expected :: "nat option"
  ws_round :: nat

text \<open>One round: \<open>Inl\<close> leaves the loop.\<close>

definition collect_round ::
  "(nat \<Rightarrow> nat \<Rightarrow> int \<Rightarrow> 'a wire_page option) \<Rightarrow> (nat \<Rightarrow> bool) \<Rightarrow> int \<Rightarrow> nat option \<Rightarrow> ('a \<Rightarrow> 'i) option \<Rightarrow>
   ('a, 'i) walk_state \<Rightarrow> (collect_error + 'a bounded_collection) + ('a, 'i) walk_state" where
  "collect_round fetch aborted page_sz budget idf st =
     (if aborted (ws_round st) then Inl (Inl Aborted)
      else case fetch (ws_round st) (ws_offset st) page_sz of
        None \<Rightarrow> Inl (Inl FetchFailed)
      | Some page \<Rightarrow>
          (case (safe_integer (wp_total page), safe_integer (wp_offset page)) of
             (Some tot, Some off) \<Rightarrow>
               if tot < 0 \<or> off \<noteq> int (ws_offset st) then Inl (Inl InconsistentMetadata)
               else
                 let expected = (case ws_expected st of None \<Rightarrow> nat tot | Some e \<Rightarrow> e) in
                 if nat tot \<noteq> expected then Inl (Inl TotalChanged)
                 else
                   (case (case idf of None \<Rightarrow> Some (ws_seen st) | Some f \<Rightarrow> see_identities f (ws_seen st) (wp_data page)) of
                      None \<Rightarrow> Inl (Inl RepeatedResource)
                    | Some seen \<Rightarrow>
                        let items = ws_items st @ wp_data page in
                        if expected \<le> length items
                        then (if length items \<noteq> expected then Inl (Inl MoreThanTotal)
                              else Inl (Inr \<lparr>bc_items = items, bc_total = expected, bc_complete = True\<rparr>))
                        else if (case budget of Some b \<Rightarrow> b \<le> length items | None \<Rightarrow> False)
                        then Inl (Inr \<lparr>bc_items = items, bc_total = expected, bc_complete = False\<rparr>)
                        else if wp_data page = [] then Inl (Inl StoppedAdvancing)
                        else Inr \<lparr>ws_items = items, ws_seen = seen,
                                  ws_offset = ws_offset st + length (wp_data page),
                                  ws_expected = Some expected, ws_round = ws_round st + 1\<rparr>)
           | _ \<Rightarrow> Inl (Inl InconsistentMetadata)))"

lemma collect_round_Inr:
  assumes "collect_round fetch aborted page_sz budget idf st = Inr st'"
  obtains page where "fetch (ws_round st) (ws_offset st) page_sz = Some page"
    "wp_data page \<noteq> []" "ws_items st' = ws_items st @ wp_data page"
    "ws_offset st' = ws_offset st + length (wp_data page)" "ws_round st' = ws_round st + 1"
    "ws_expected st' = Some (nat (the (safe_integer (wp_total page))))"
    "ws_expected st \<in> {None, ws_expected st'}" "length (ws_items st') < the (ws_expected st')"
    "(case budget of Some b \<Rightarrow> length (ws_items st') < b | None \<Rightarrow> True)"
    "(case idf of None \<Rightarrow> True | Some f \<Rightarrow> see_identities f (ws_seen st) (wp_data page) = Some (ws_seen st'))"
  using assms
  by (auto simp: collect_round_def Let_def not_le split: if_splits option.splits)

function collect_loop ::
  "(nat \<Rightarrow> nat \<Rightarrow> int \<Rightarrow> 'a wire_page option) \<Rightarrow> (nat \<Rightarrow> bool) \<Rightarrow> int \<Rightarrow> nat option \<Rightarrow> ('a \<Rightarrow> 'i) option \<Rightarrow>
   ('a, 'i) walk_state \<Rightarrow> collect_error + 'a bounded_collection" where
  "collect_loop fetch aborted page_sz budget idf st =
     (case collect_round fetch aborted page_sz budget idf st of
        Inl out \<Rightarrow> out
      | Inr st' \<Rightarrow> collect_loop fetch aborted page_sz budget idf st')"
  by pat_completeness auto

termination
proof (relation "measures [\<lambda>(_, _, _, _, _, st). if ws_expected st = None then 1 else 0,
    \<lambda>(_, _, _, _, _, st). the (ws_expected st) - length (ws_items st)]", goal_cases)
  case 1
  show ?case by simp
next
  case (2 fetch aborted page_sz budget idf st st')
  from 2 show ?case
  proof (rule collect_round_Inr)
    fix page
    assume r: "wp_data page \<noteq> []" "ws_items st' = ws_items st @ wp_data page"
      "ws_expected st' = Some (nat (the (safe_integer (wp_total page))))"
      "ws_expected st \<in> {None, ws_expected st'}" "length (ws_items st') < the (ws_expected st')"
    have "n - (a + b) < n - a" if "a + b < n" "0 < b" for a b n :: nat using that by simp
    then show ?case using r by auto
  qed
qed

declare collect_loop.simps [simp del]

definition new_walk :: "('a, 'i) walk_state" where
  "new_walk = \<lparr>ws_items = [], ws_seen = [], ws_offset = 0, ws_expected = None, ws_round = 0\<rparr>"

definition collect_bounded_pages ::
  "(nat \<Rightarrow> nat \<Rightarrow> int \<Rightarrow> 'a wire_page option) \<Rightarrow> (nat \<Rightarrow> bool) \<Rightarrow> int \<Rightarrow> nat option \<Rightarrow> ('a \<Rightarrow> 'i) option \<Rightarrow>
   collect_error + 'a bounded_collection" where
  "collect_bounded_pages fetch aborted page_sz budget idf =
     (if page_sz < 1 \<or> max_safe < page_sz then Inl BadPageSize
      else if (case budget of None \<Rightarrow> False | Some b \<Rightarrow> b < 1 \<or> max_safe < int b) then Inl BadBudget
      else collect_loop fetch aborted page_sz budget idf new_walk)"

definition collect_all_pages ::
  "(nat \<Rightarrow> nat \<Rightarrow> int \<Rightarrow> 'a wire_page option) \<Rightarrow> (nat \<Rightarrow> bool) \<Rightarrow> int \<Rightarrow> ('a \<Rightarrow> 'i) option \<Rightarrow>
   collect_error + 'a list" where
  "collect_all_pages fetch aborted page_sz idf =
     map_sum id bc_items (collect_bounded_pages fetch aborted page_sz None idf)"

section \<open>What the walk checks, for every server\<close>

lemma see_identities_Some:
  "see_identities f seen xs = Some seen' \<Longrightarrow> distinct seen \<Longrightarrow>
     seen' = rev (map f xs) @ seen \<and> distinct seen'"
  by (induction xs arbitrary: seen) (auto split: if_splits)

lemma see_identities_fresh:
  "distinct (map f xs) \<Longrightarrow> set (map f xs) \<inter> set seen = {} \<Longrightarrow> see_identities f seen xs = Some (rev (map f xs) @ seen)"
  by (induction xs arbitrary: seen) auto

lemma see_identities_items:
  assumes "see_identities f seen xs = Some seen'" "seen = rev (map f ys)" "distinct seen"
  shows "seen' = rev (map f (ys @ xs)) \<and> distinct seen'"
proof -
  have s: "seen' = rev (map f xs) @ seen" "distinct seen'" using see_identities_Some [OF assms(1,3)] by blast+
  have "seen' = rev (map f (ys @ xs))" unfolding s(1) assms(2) by simp
  then show ?thesis using s(2) by blast
qed

text \<open>What \<open>n\<close> requests have delivered.\<close>

primrec walk_items :: "(nat \<Rightarrow> nat \<Rightarrow> int \<Rightarrow> 'a wire_page option) \<Rightarrow> int \<Rightarrow> nat \<Rightarrow> 'a list" where
  "walk_items fetch page_sz 0 = []"
| "walk_items fetch page_sz (Suc n) =
     walk_items fetch page_sz n @
     (case fetch n (length (walk_items fetch page_sz n)) page_sz of Some p \<Rightarrow> wp_data p | None \<Rightarrow> [])"

definition reported_total :: "(nat \<Rightarrow> nat \<Rightarrow> int \<Rightarrow> 'a wire_page option) \<Rightarrow> int \<Rightarrow> nat \<Rightarrow> nat option" where
  "reported_total fetch page_sz n =
     (case fetch n (length (walk_items fetch page_sz n)) page_sz of
        Some p \<Rightarrow> map_option nat (safe_integer (wp_total p)) | None \<Rightarrow> None)"

definition walk_inv :: "(nat \<Rightarrow> nat \<Rightarrow> int \<Rightarrow> 'a wire_page option) \<Rightarrow> int \<Rightarrow> ('a \<Rightarrow> 'i) option \<Rightarrow> ('a, 'i) walk_state \<Rightarrow> bool" where
  "walk_inv fetch page_sz idf st \<longleftrightarrow>
     ws_items st = walk_items fetch page_sz (ws_round st) \<and>
     ws_offset st = length (ws_items st) \<and>
     (ws_expected st = None \<longleftrightarrow> ws_round st = 0) \<and>
     (\<forall>n < ws_round st. reported_total fetch page_sz n = ws_expected st) \<and>
     (case idf of None \<Rightarrow> True | Some f \<Rightarrow> ws_seen st = rev (map f (ws_items st)) \<and> distinct (ws_seen st))"

lemma walk_inv_new: "walk_inv fetch page_sz idf new_walk"
  by (simp add: walk_inv_def new_walk_def split: option.split)

lemma walk_items_Suc:
  assumes "walk_inv fetch page_sz idf st" "fetch (ws_round st) (ws_offset st) page_sz = Some page"
  shows "walk_items fetch page_sz (Suc (ws_round st)) = ws_items st @ wp_data page"
    and "reported_total fetch page_sz (ws_round st) = map_option nat (safe_integer (wp_total page))"
  using assms by (simp_all add: walk_inv_def reported_total_def)

lemma walk_inv_step:
  assumes inv: "walk_inv fetch page_sz idf st"
    and step: "collect_round fetch aborted page_sz budget idf st = Inr st'"
  shows "walk_inv fetch page_sz idf st'"
  using step
proof (rule collect_round_Inr)
  fix page
  assume r: "fetch (ws_round st) (ws_offset st) page_sz = Some page"
    "ws_items st' = ws_items st @ wp_data page" "ws_offset st' = ws_offset st + length (wp_data page)"
    "ws_round st' = ws_round st + 1" "ws_expected st' = Some (nat (the (safe_integer (wp_total page))))"
    "ws_expected st \<in> {None, ws_expected st'}"
    "case idf of None \<Rightarrow> True | Some f \<Rightarrow> see_identities f (ws_seen st) (wp_data page) = Some (ws_seen st')"
  have "safe_integer (wp_total page) \<noteq> None"
    using step r(1) by (auto simp: collect_round_def split: if_splits option.splits)
  then have now: "reported_total fetch page_sz (ws_round st) = ws_expected st'"
    using walk_items_Suc(2) [OF inv r(1)] r(5) by auto
  have before: "reported_total fetch page_sz n = ws_expected st'" if "n < ws_round st" for n
    using that inv r(6) by (auto simp: walk_inv_def)
  have "\<forall>n < ws_round st'. reported_total fetch page_sz n = ws_expected st'"
    using now before r(4) by (auto simp: less_Suc_eq)
  moreover have "case idf of None \<Rightarrow> True | Some f \<Rightarrow> ws_seen st' = rev (map f (ws_items st')) \<and> distinct (ws_seen st')"
  proof (cases idf)
    case (Some f)
    then have "ws_seen st = rev (map f (ws_items st))" "distinct (ws_seen st)"
      "see_identities f (ws_seen st) (wp_data page) = Some (ws_seen st')"
      using inv r(7) unfolding walk_inv_def Some option.case by blast+
    then show ?thesis
      using see_identities_items [of f "ws_seen st" "wp_data page" "ws_seen st'" "ws_items st"]
      unfolding Some option.case r(2) by blast
  qed simp
  ultimately show ?thesis
    using inv r(1,2,3,4,5) walk_items_Suc(1) [OF inv r(1)] by (simp add: walk_inv_def)
qed

lemma collect_loop_ends:
  assumes "walk_inv fetch page_sz idf st"
    and "collect_loop fetch aborted page_sz budget idf st = Inr c"
  shows "\<exists>last. walk_inv fetch page_sz idf last \<and>
    collect_round fetch aborted page_sz budget idf last = Inl (Inr c)"
  using assms
proof (induction fetch aborted page_sz budget idf st rule: collect_loop.induct)
  case (1 fetch aborted page_sz budget idf st)
  show ?case
  proof (cases "collect_round fetch aborted page_sz budget idf st")
    case (Inl out)
    then show ?thesis using 1 by (intro exI [of _ st]) (simp add: collect_loop.simps [of fetch])
  next
    case (Inr st')
    have "collect_loop fetch aborted page_sz budget idf st' = Inr c"
      using "1.prems"(2) Inr by (simp add: collect_loop.simps [of fetch aborted page_sz budget idf st])
    then show ?thesis using "1.IH" [OF Inr walk_inv_step [OF "1.prems"(1) Inr]] by blast
  qed
qed

lemma collect_round_result:
  assumes inv: "walk_inv fetch page_sz idf st"
    and res: "collect_round fetch aborted page_sz budget idf st = Inl (Inr c)"
  shows "bc_items c = walk_items fetch page_sz (Suc (ws_round st))"
    and "\<forall>n \<le> ws_round st. reported_total fetch page_sz n = Some (bc_total c)"
    and "if bc_complete c then length (bc_items c) = bc_total c
         else budget \<noteq> None \<and> the budget \<le> length (bc_items c) \<and> length (bc_items c) < bc_total c"
    and "case idf of None \<Rightarrow> True | Some f \<Rightarrow> distinct (map f (bc_items c))"
proof -
  obtain page tot seen where page: "fetch (ws_round st) (ws_offset st) page_sz = Some page"
    and tot: "safe_integer (wp_total page) = Some tot"
    and exp: "ws_expected st \<in> {None, Some (nat tot)}" and total: "bc_total c = nat tot"
    and items: "bc_items c = ws_items st @ wp_data page"
    and fin: "if bc_complete c then length (bc_items c) = bc_total c
         else budget \<noteq> None \<and> the budget \<le> length (bc_items c) \<and> length (bc_items c) < bc_total c"
    and seen: "(case idf of None \<Rightarrow> Some (ws_seen st) | Some f \<Rightarrow> see_identities f (ws_seen st) (wp_data page)) = Some seen"
    using res by (auto simp: collect_round_def Let_def not_le split: if_splits option.splits)
  show "bc_items c = walk_items fetch page_sz (Suc (ws_round st))"
    using items walk_items_Suc(1) [OF inv page] by simp
  show "\<forall>n \<le> ws_round st. reported_total fetch page_sz n = Some (bc_total c)"
  proof (intro allI impI)
    fix n assume "n \<le> ws_round st"
    then consider "n = ws_round st" | "n < ws_round st" by linarith
    then show "reported_total fetch page_sz n = Some (bc_total c)"
    proof cases
      case 1
      then show ?thesis using walk_items_Suc(2) [OF inv page] tot total by simp
    next
      case 2
      then show ?thesis using inv exp total by (auto simp: walk_inv_def)
    qed
  qed
  show "if bc_complete c then length (bc_items c) = bc_total c
         else budget \<noteq> None \<and> the budget \<le> length (bc_items c) \<and> length (bc_items c) < bc_total c"
    by (rule fin)
  show "case idf of None \<Rightarrow> True | Some f \<Rightarrow> distinct (map f (bc_items c))"
  proof (cases idf)
    case (Some f)
    have "ws_seen st = rev (map f (ws_items st))" "distinct (ws_seen st)"
      "see_identities f (ws_seen st) (wp_data page) = Some seen"
      using inv seen unfolding walk_inv_def Some option.case by blast+
    then have "distinct (rev (map f (ws_items st @ wp_data page)))"
      using see_identities_items [of f "ws_seen st" "wp_data page" seen "ws_items st"] by metis
    then have "distinct (map f (bc_items c))" unfolding distinct_rev items .
    then show ?thesis using Some by simp
  qed simp
qed

section \<open>A collection that stands still\<close>

record 'a page =
  pg_data :: "'a list"
  pg_offset :: nat
  pg_limit :: nat
  pg_total :: nat

definition wire :: "'a page \<Rightarrow> 'a wire_page" where
  "wire p = \<lparr>wp_data = pg_data p, wp_offset = JNum (of_nat (pg_offset p)), wp_total = JNum (of_nat (pg_total p))\<rparr>"

lemma safe_integer_of_nat [simp]: "int n \<le> max_safe \<Longrightarrow> safe_integer (JNum (of_nat n)) = Some (int n)"
  using safe_integer_of_int [of "int n"] by simp

text \<open>A server of the collection \<open>coll\<close>: it repeats the offset, reports the size, and answers an
  offset inside the collection with at least one and at most \<open>limit\<close> items from there on.\<close>

locale paged_collection =
  fixes serve :: "nat \<Rightarrow> nat \<Rightarrow> 'a page" and coll :: "'a list"
  assumes serve_offset: "1 \<le> limit \<Longrightarrow> pg_offset (serve offset limit) = offset"
    and serve_total: "1 \<le> limit \<Longrightarrow> pg_total (serve offset limit) = length coll"
    and serve_data: "1 \<le> limit \<Longrightarrow> \<exists>k \<le> limit. pg_data (serve offset limit) = take k (drop offset coll)
      \<and> (offset < length coll \<longrightarrow> 1 \<le> k)"
begin

definition fetch_from :: "nat \<Rightarrow> nat \<Rightarrow> int \<Rightarrow> 'a wire_page option" where
  "fetch_from n offset limit = Some (wire (serve offset (nat limit)))"

lemma data_bounds:
  assumes "1 \<le> limit" "offset \<le> length coll"
  shows "pg_data (serve offset limit) = take (length (pg_data (serve offset limit))) (drop offset coll)"
    and "offset + length (pg_data (serve offset limit)) \<le> length coll"
    and "offset < length coll \<Longrightarrow> pg_data (serve offset limit) \<noteq> []"
    and "length (pg_data (serve offset limit)) \<le> limit"
  using serve_data [OF assms(1), of offset] assms(2) by (auto simp: min_def)

definition coll_inv :: "('a, 'i) walk_state \<Rightarrow> bool" where
  "coll_inv st \<longleftrightarrow> ws_offset st = length (ws_items st) \<and> ws_items st = take (ws_offset st) coll \<and>
     ws_offset st \<le> length coll \<and> ws_expected st \<in> {None, Some (length coll)}"

lemma round_still:
  assumes agree: "\<And>n offset. offset \<le> length coll \<Longrightarrow> g n offset page_sz = fetch_from n offset page_sz"
    and inv: "coll_inv st" and size: "1 \<le> page_sz" "int (length coll) \<le> max_safe"
    and seen: "case idf of None \<Rightarrow> True | Some f \<Rightarrow> distinct (map f coll) \<and> ws_seen st = rev (map f (ws_items st))"
  shows "collect_round g (\<lambda>_. False) page_sz None idf st =
      Inl (Inr \<lparr>bc_items = coll, bc_total = length coll, bc_complete = True\<rparr>) \<or>
    (\<exists>st'. collect_round g (\<lambda>_. False) page_sz None idf st = Inr st' \<and> coll_inv st' \<and>
      (case idf of None \<Rightarrow> True | Some f \<Rightarrow> ws_seen st' = rev (map f (ws_items st'))))"
proof -
  let ?p = "serve (ws_offset st) (nat page_sz)"
  let ?items = "ws_items st @ wp_data (wire ?p)"
  have wd: "pg_data ?p = wp_data (wire ?p)" by (simp add: wire_def)
  have lim: "1 \<le> nat page_sz" using size(1) by simp
  have off: "ws_offset st \<le> length coll" "length (ws_items st) = ws_offset st" "ws_items st = take (ws_offset st) coll"
    and exp: "ws_expected st \<in> {None, Some (length coll)}" using inv unfolding coll_inv_def by metis+
  note data = data_bounds [OF lim off(1), unfolded wd]
  have items: "?items = take (length ?items) coll"
    using take_add [of "ws_offset st" "length (wp_data (wire ?p))" coll] data(1) off(2,3) by (metis length_append)
  have len: "length ?items \<le> length coll" using data(2) off(2) by simp
  have seen': "\<exists>sn. (case idf of None \<Rightarrow> Some (ws_seen st) | Some f \<Rightarrow> see_identities f (ws_seen st) (wp_data (wire ?p))) = Some sn
      \<and> (case idf of None \<Rightarrow> True | Some f \<Rightarrow> sn = rev (map f ?items))"
  proof (cases idf)
    case (Some f)
    have s: "distinct (map f coll)" "ws_seen st = rev (map f (ws_items st))" using seen Some by simp_all
    have "map f ?items = take (length ?items) (map f coll)" using items by (metis take_map)
    then have "distinct (map f ?items)" using s(1) by (metis distinct_take)
    then have "distinct (map f (wp_data (wire ?p)))" "set (map f (wp_data (wire ?p))) \<inter> set (ws_seen st) = {}"
      unfolding s(2) by auto
    then have "see_identities f (ws_seen st) (wp_data (wire ?p)) = Some (rev (map f (wp_data (wire ?p))) @ ws_seen st)"
      by (rule see_identities_fresh)
    then show ?thesis using Some s(2) by simp
  qed simp
  then obtain sn where sn: "(case idf of None \<Rightarrow> Some (ws_seen st) | Some f \<Rightarrow> see_identities f (ws_seen st) (wp_data (wire ?p))) = Some sn"
    "case idf of None \<Rightarrow> True | Some f \<Rightarrow> sn = rev (map f ?items)" by blast
  have tot: "safe_integer (wp_total (wire ?p)) = Some (int (length coll))"
    "safe_integer (wp_offset (wire ?p)) = Some (int (ws_offset st))"
    using size(2) off(1) serve_total [OF lim] serve_offset [OF lim] by (simp_all add: wire_def)
  have expd: "(case ws_expected st of None \<Rightarrow> nat (int (length coll)) | Some e \<Rightarrow> e) = length coll"
    using exp by auto
  show ?thesis
  proof (cases "length coll \<le> length ?items")
    case True
    then have "length ?items = length coll" "?items = coll" using items len by auto
    then show ?thesis using tot expd sn(1)
      by (simp add: collect_round_def agree [OF off(1)] fetch_from_def Let_def)
  next
    case False
    then have "ws_offset st < length coll" using off(2) by simp
    then have "wp_data (wire ?p) \<noteq> []" using data(3) by blast
    define st' where "st' = \<lparr>ws_items = ?items, ws_seen = sn, ws_offset = ws_offset st + length (wp_data (wire ?p)),
      ws_expected = Some (length coll), ws_round = ws_round st + 1\<rparr>"
    have "collect_round g (\<lambda>_. False) page_sz None idf st = Inr st'"
      using \<open>wp_data (wire ?p) \<noteq> []\<close> tot expd sn(1) False
      by (simp add: collect_round_def agree [OF off(1)] fetch_from_def Let_def st'_def)
    moreover have "coll_inv st'" using items data(2) off(2) by (simp add: coll_inv_def st'_def)
    moreover have "case idf of None \<Rightarrow> True | Some f \<Rightarrow> ws_seen st' = rev (map f (ws_items st'))"
      using sn(2) by (cases idf) (simp_all add: st'_def)
    ultimately show ?thesis by blast
  qed
qed

lemma loop_still:
  assumes agree: "\<And>n offset. offset \<le> length coll \<Longrightarrow> g n offset page_sz = fetch_from n offset page_sz"
    and "coll_inv st" "1 \<le> page_sz" "int (length coll) \<le> max_safe"
    and "case idf of None \<Rightarrow> True | Some f \<Rightarrow> distinct (map f coll) \<and> ws_seen st = rev (map f (ws_items st))"
  shows "collect_loop g (\<lambda>_. False) page_sz None idf st =
    Inr \<lparr>bc_items = coll, bc_total = length coll, bc_complete = True\<rparr>"
  using assms(2,5)
proof (induction "length coll - ws_offset st" arbitrary: st rule: less_induct)
  case less
  consider (stop) "collect_round g (\<lambda>_. False) page_sz None idf st =
      Inl (Inr \<lparr>bc_items = coll, bc_total = length coll, bc_complete = True\<rparr>)"
    | (go) st' where "collect_round g (\<lambda>_. False) page_sz None idf st = Inr st'" "coll_inv st'"
      "case idf of None \<Rightarrow> True | Some f \<Rightarrow> ws_seen st' = rev (map f (ws_items st'))"
    using round_still [where g = g, OF agree less.prems(1) assms(3,4) less.prems(2)] by blast
  then show ?case
  proof cases
    case stop
    then show ?thesis by (simp add: collect_loop.simps [of g])
  next
    case go
    have "ws_offset st < ws_offset st'"
      using go(1) by (rule collect_round_Inr) simp
    moreover have "ws_offset st' \<le> length coll" using go(2) unfolding coll_inv_def by blast
    ultimately have "length coll - ws_offset st' < length coll - ws_offset st" by linarith
    moreover have "case idf of None \<Rightarrow> True | Some f \<Rightarrow> distinct (map f coll) \<and> ws_seen st' = rev (map f (ws_items st'))"
      using go(3) assms(5) by (cases idf) auto
    ultimately show ?thesis using less.hyps [of st'] go
      by (simp add: collect_loop.simps [of g _ _ _ _ st])
  qed
qed

lemma collects_everything:
  assumes agree: "\<And>n offset. offset \<le> length coll \<Longrightarrow> g n offset page_sz = fetch_from n offset page_sz"
    and "1 \<le> page_sz" "page_sz \<le> max_safe" "int (length coll) \<le> max_safe"
    and "case idf of None \<Rightarrow> True | Some f \<Rightarrow> distinct (map f coll)"
  shows "collect_all_pages g (\<lambda>_. False) page_sz idf = Inr coll"
proof -
  have "coll_inv new_walk" by (simp add: coll_inv_def new_walk_def)
  moreover have "case idf of None \<Rightarrow> True | Some f \<Rightarrow>
      distinct (map f coll) \<and> ws_seen new_walk = rev (map f (ws_items new_walk))"
    using assms(5) by (cases idf) (simp_all add: new_walk_def)
  ultimately have "collect_loop g (\<lambda>_. False) page_sz None idf new_walk =
    Inr \<lparr>bc_items = coll, bc_total = length coll, bc_complete = True\<rparr>"
    using agree assms(2,4) by (intro loop_still)
  then show ?thesis using assms(2,3) by (simp add: collect_all_pages_def collect_bounded_pages_def)
qed

end

section \<open>Properties\<close>

lemma collect_bounded_sound:
  assumes "collect_bounded_pages fetch aborted page_sz budget idf = Inr c"
  obtains n where "bc_items c = walk_items fetch page_sz (Suc n)"
    "\<forall>i \<le> n. reported_total fetch page_sz i = Some (bc_total c)"
    "if bc_complete c then length (bc_items c) = bc_total c
     else budget \<noteq> None \<and> the budget \<le> length (bc_items c) \<and> length (bc_items c) < bc_total c"
    "case idf of None \<Rightarrow> True | Some f \<Rightarrow> distinct (map f (bc_items c))"
proof -
  have "collect_loop fetch aborted page_sz budget idf new_walk = Inr c"
    using assms by (auto simp: collect_bounded_pages_def split: if_splits)
  then obtain last where last: "walk_inv fetch page_sz idf last"
    "collect_round fetch aborted page_sz budget idf last = Inl (Inr c)"
    using collect_loop_ends [OF walk_inv_new] by blast
  show thesis using collect_round_result [OF last] by (rule that)
qed

text \<open>C6: A collection walk never passes a partial or shifting collection off as whole. Whatever
  the server answers, a returned result is exactly the concatenation of the pages read, every page
  reported the same total, and it is marked complete only when it holds that many items; otherwise
  the budget was reached and items are missing. With an identity, no item is repeated.\<close>

theorem collected_pages_honest:
  assumes "collect_bounded_pages fetch aborted page_sz budget idf = Inr c"
  shows "\<exists>n. bc_items c = walk_items fetch page_sz (Suc n) \<and>
    (\<forall>i \<le> n. reported_total fetch page_sz i = Some (bc_total c)) \<and>
    (if bc_complete c then length (bc_items c) = bc_total c
     else budget \<noteq> None \<and> the budget \<le> length (bc_items c) \<and> length (bc_items c) < bc_total c) \<and>
    (case idf of None \<Rightarrow> True | Some f \<Rightarrow> distinct (map f (bc_items c)))"
  using assms by (rule collect_bounded_sound) blast

definition sample_fetch :: "nat \<Rightarrow> nat \<Rightarrow> int \<Rightarrow> nat wire_page option" where
  "sample_fetch n offset limit =
     Some \<lparr>wp_data = take (nat limit) (drop offset [7, 8, 9]), wp_offset = JNum (of_nat offset), wp_total = JNum 3\<rparr>"

theorem collected_pages_honest_witness:
  "\<exists>n. [7, 8, 9 :: nat] = walk_items sample_fetch 2 (Suc n) \<and> (\<forall>i \<le> n. reported_total sample_fetch 2 i = Some 3)"
proof -
  have "collect_bounded_pages sample_fetch (\<lambda>_. False) 2 None (Some (\<lambda>x. x)) =
    Inr \<lparr>bc_items = [7, 8, 9], bc_total = 3, bc_complete = True\<rparr>"
    by code_simp
  then show ?thesis using collected_pages_honest [of sample_fetch "\<lambda>_. False" 2 None "Some (\<lambda>x. x)"
      "\<lparr>bc_items = [7, 8, 9], bc_total = 3, bc_complete = True\<rparr>"] by auto
qed

end
