(* ===== verification/Registry.thy ===== *)
theory Registry
  imports AuthTypes Namespaces ProxyPath Pagination
begin

text \<open>
  The namespace registry policy of the BFF (\<open>server/namespace-registry.ts\<close>): what a principal
  may do to the registry by path, query and body; the bounded traversal that answers a scoped
  list; the traversals shared between identical requests; and the page served from the result.
\<close>

datatype registry_error =
    UnsupportedOperation | InsufficientRole | NamespaceDenied | InvalidJson | NotAnObject
  | InvalidName | InvalidDescription | DescriptionTooLong | NotLiteralConfirm | BadPagination string

definition error_status :: "registry_error \<Rightarrow> nat" where
  "error_status e = (case e of InsufficientRole \<Rightarrow> 403 | NamespaceDenied \<Rightarrow> 403 | _ \<Rightarrow> 400)"

section \<open>Authorizing the path\<close>

definition is_registry_path :: "string \<Rightarrow> bool" where
  "is_registry_path path \<longleftrightarrow> path = ''/namespaces'' \<or> starts_with ''/namespaces/'' path"

definition registry_name_allowed :: "principal \<Rightarrow> utf16 \<Rightarrow> bool" where
  "registry_name_allowed p name =
     (case p_namespaces p of None \<Rightarrow> True | Some ns \<Rightarrow> list_ex (\<lambda>n. cps n = name) ns)"

definition path_name :: "string \<Rightarrow> utf16" where
  "path_name path = cps (drop (length ''/namespaces/'') path)"

definition authorize_registry_path :: "string \<Rightarrow> string \<Rightarrow> principal \<Rightarrow> registry_error + unit" where
  "authorize_registry_path path meth p =
     (if \<not> is_registry_path path then Inr ()
      else let collection = (path = ''/namespaces''); name = path_name path in
        if meth \<notin> set (if collection then [''GET'', ''POST''] else [''GET'', ''PUT'', ''DELETE''])
           \<or> (\<not> collection \<and> \<not> is_namespace_name name)
        then Inl UnsupportedOperation
        else if meth \<noteq> ''GET'' \<and> p_role p \<noteq> Admin then Inl InsufficientRole
        else if \<not> collection \<and> \<not> registry_name_allowed p name then Inl NamespaceDenied
        else Inr ())"

section \<open>Confirming a cascade delete\<close>

definition plus_to_space :: "string \<Rightarrow> string" where
  "plus_to_space s = map (\<lambda>c. if c = CHR ''+'' then CHR '' '' else c) s"

fun cut_at :: "char \<Rightarrow> string \<Rightarrow> string \<times> string option" where
  "cut_at c [] = ([], None)"
| "cut_at c (x # xs) = (if x = c then ([], Some xs) else map_prod ((#) x) id (cut_at c xs))"

definition raw_confirmations :: "string \<Rightarrow> string list" where
  "raw_confirmations query =
     concat (map (\<lambda>parameter.
        case cut_at CHR ''='' parameter of (raw_key, value) \<Rightarrow>
          (case decode_uri (cps (plus_to_space raw_key)) of
             None \<Rightarrow> []
           | Some key \<Rightarrow>
               if key = cps ''confirm'' then [case value of None \<Rightarrow> [] | Some v \<Rightarrow> v] else []))
       (split_on CHR ''&'' query))"

text \<open>\<open>URLSearchParams\<close> on a serialised query, as bytes: percent-decoding leaves a broken escape
  as it is.\<close>

function form_bytes :: "cptext \<Rightarrow> nat list" where
  "form_bytes [] = []"
| "form_bytes (c # cs) =
     (case percent_byte (c # cs) of
        Some (b, rest) \<Rightarrow> b # form_bytes rest
      | None \<Rightarrow> (if c = 43 then 32 else c) # form_bytes cs)"
  by pat_completeness auto
termination
  by (relation "measure length") (auto dest: percent_byte_length)

definition search_params :: "string \<Rightarrow> (nat list \<times> nat list) list" where
  "search_params search =
     (let q = (case search of c # rest \<Rightarrow> if c = CHR ''?'' then rest else search | [] \<Rightarrow> []) in
      map (\<lambda>piece. case cut_at CHR ''='' piece of (k, v) \<Rightarrow>
             (form_bytes (cps k), case v of None \<Rightarrow> [] | Some v' \<Rightarrow> form_bytes (cps v')))
        (filter (\<lambda>piece. piece \<noteq> []) (split_on CHR ''&'' q)))"

definition forwarded_confirmations :: "string \<Rightarrow> nat list list" where
  "forwarded_confirmations query =
     map snd (filter (\<lambda>kv. fst kv = cps ''confirm'') (search_params (url_search (cps query))))"

definition authorize_delete_confirmation :: "string \<Rightarrow> string \<Rightarrow> string \<Rightarrow> registry_error + bool" where
  "authorize_delete_confirmation path meth raw_url =
     (if meth \<noteq> ''DELETE'' \<or> \<not> starts_with ''/namespaces/'' path then Inr False
      else
        let target = drop (length ''/namespaces/'') path;
            query = (case cut_at CHR ''?'' raw_url of (_, q) \<Rightarrow> (case q of None \<Rightarrow> [] | Some q' \<Rightarrow> q'));
            raw = raw_confirmations query;
            forwarded = forwarded_confirmations query
        in if raw = [] \<and> forwarded = [] then Inr False
           else if raw \<noteq> [target] \<or> forwarded \<noteq> [cps target] then Inl NotLiteralConfirm
           else Inr True)"

section \<open>Authorizing the body\<close>

text \<open>The argument is what decoding and parsing the bytes gave: \<open>None\<close> when either threw. The
  result is the body forwarded instead of the received one.\<close>

definition authorize_registry_body ::
  "utf16 json option \<Rightarrow> string \<Rightarrow> principal \<Rightarrow> registry_error + utf16 json" where
  "authorize_registry_body parsed meth p =
     (case parsed of
        None \<Rightarrow> Inl InvalidJson
      | Some (JObj fs) \<Rightarrow>
          let name = map_of fs (cps ''name''); desc = map_of fs (cps ''description'') in
          if (meth = ''POST'' \<or> name \<noteq> None)
             \<and> \<not> (case name of Some v \<Rightarrow> is_namespace_value v | None \<Rightarrow> False)
          then Inl InvalidName
          else if (case name of Some (JStr n) \<Rightarrow> \<not> registry_name_allowed p n | _ \<Rightarrow> False)
          then Inl NamespaceDenied
          else
            (case desc of
               Some (JStr d) \<Rightarrow>
                 (case namespace_description_problem d of
                    Some InvalidUnicode \<Rightarrow> Inl InvalidDescription
                  | Some TooLong \<Rightarrow> Inl DescriptionTooLong
                  | None \<Rightarrow> Inr (JObj ((case name of Some v \<Rightarrow> [(cps ''name'', v)] | None \<Rightarrow> []) @ [(cps ''description'', JStr d)])))
             | Some JNull \<Rightarrow>
                 Inr (JObj ((case name of Some v \<Rightarrow> [(cps ''name'', v)] | None \<Rightarrow> []) @ [(cps ''description'', JNull)]))
             | Some _ \<Rightarrow> Inl InvalidDescription
             | None \<Rightarrow> Inr (JObj (case name of Some v \<Rightarrow> [(cps ''name'', v)] | None \<Rightarrow> [])))
      | Some _ \<Rightarrow> Inl NotAnObject)"

section \<open>Reading the requested page\<close>

definition pagination_integer :: "string \<Rightarrow> nat option" where
  "pagination_integer value =
     (let digits = (case value of c # rest \<Rightarrow> if c = CHR ''+'' then rest else value | [] \<Rightarrow> []) in
      if digits = [] \<or> \<not> list_all digit digits then None else Some (decimal digits))"

fun registry_pagination_loop ::
  "(string \<times> string) list \<Rightarrow> nat \<times> nat \<Rightarrow> registry_error + nat \<times> nat" where
  "registry_pagination_loop [] acc = Inr acc"
| "registry_pagination_loop ((key, value) # rest) (offset, limit) =
     (if key \<noteq> ''offset'' \<and> key \<noteq> ''limit'' then registry_pagination_loop rest (offset, limit)
      else case pagination_integer value of
        None \<Rightarrow> Inl (BadPagination key)
      | Some parsed \<Rightarrow>
          if (if key = ''offset'' then 9223372036854775807 else 18446744073709551615) < parsed
          then Inl (BadPagination key)
          else if key = ''offset'' then registry_pagination_loop rest (parsed, limit)
          else registry_pagination_loop rest
                 (offset, if parsed = 0 then 100 else if 1000 < parsed then 1000 else parsed))"

definition registry_pagination :: "(string \<times> string) list \<Rightarrow> registry_error + nat \<times> nat" where
  "registry_pagination query = registry_pagination_loop query (0, 100)"

section \<open>The traversal behind a scoped list\<close>

text \<open>An upstream answer: its status, the sizes of the body's chunks (\<open>None\<close> without a body) and
  what the joined chunks parse to (\<open>None\<close> when decoding or parsing throws).\<close>

record page_response =
  pr_status :: nat
  pr_chunks :: "nat list option"
  pr_json :: "utf16 json option"

definition page_size :: nat where
  "page_size = 1000"

definition page_bytes :: nat where
  "page_bytes = 1024 * 1024"

fun read_chunks :: "nat \<Rightarrow> nat list \<Rightarrow> bool" where
  "read_chunks read [] = True"
| "read_chunks read (n # ns) = (if page_bytes < read + n then False else read_chunks (read + n) ns)"

datatype scan_failure =
    MissingBody | PageTooLarge | UnparsablePage | InvalidList | InvalidPagination | NoProgress

definition read_page :: "page_response \<Rightarrow> scan_failure + utf16 json" where
  "read_page r =
     (case pr_chunks r of
        None \<Rightarrow> Inl MissingBody
      | Some chunks \<Rightarrow>
          if \<not> read_chunks 0 chunks then Inl PageTooLarge
          else case pr_json r of None \<Rightarrow> Inl UnparsablePage | Some v \<Rightarrow> Inr v)"

datatype refusal_code = ScanBudget | ScanInconsistent

datatype scan_outcome = Names "utf16 list" | Refused nat "refusal_code option" | Thrown scan_failure

record 'k scan_state =
  sc_found :: "utf16 list"
  sc_witnessed :: "'k list"
  sc_first_total :: "nat option"
  sc_offset :: nat
  sc_pages :: nat

definition new_scan :: "'k scan_state" where
  "new_scan = \<lparr>sc_found = [], sc_witnessed = [], sc_first_total = None, sc_offset = 0, sc_pages = 0\<rparr>"

text \<open>The loop over one page's names; the flag is \<open>consistent\<close>.\<close>

fun witness_names :: "(utf16 \<Rightarrow> 'k) \<Rightarrow> utf16 list \<Rightarrow> utf16 list \<Rightarrow> 'k list \<times> utf16 list \<times> bool \<Rightarrow> 'k list \<times> utf16 list \<times> bool" where
  "witness_names key grants [] acc = acc"
| "witness_names key grants (n # ns) (witnessed, found, consistent) =
     witness_names key grants ns
       (if key n \<in> set witnessed then witnessed else key n # witnessed,
        if n \<in> set grants \<and> n \<notin> set found then found @ [n] else found,
        consistent \<and> key n \<notin> set witnessed)"

text \<open>What one page holds: its names, and for an envelope its total; \<open>Inl\<close> when it is refused.\<close>

definition page_data :: "utf16 json \<Rightarrow> utf16 json list option" where
  "page_data page =
     (case page of
        JArr vs \<Rightarrow> Some vs
      | _ \<Rightarrow> (case jfield (cps ''data'') page of Some (JArr vs) \<Rightarrow> Some vs | _ \<Rightarrow> None))"

definition json_names :: "utf16 json list \<Rightarrow> utf16 list" where
  "json_names vs = map (\<lambda>v. case v of JStr s \<Rightarrow> s | _ \<Rightarrow> []) vs"

definition page_pagination :: "utf16 json \<Rightarrow> utf16 \<Rightarrow> utf16 json option" where
  "page_pagination page k =
     (case jfield (cps ''pagination'') page of None \<Rightarrow> None | Some p \<Rightarrow> jfield k p)"

definition check_page :: "nat \<Rightarrow> utf16 json \<Rightarrow> scan_failure + utf16 list \<times> nat option" where
  "check_page offset page =
     (case page_data page of
        None \<Rightarrow> Inl InvalidList
      | Some vs \<Rightarrow>
          if list_ex (\<lambda>v. \<not> is_namespace_value v) vs then Inl InvalidList
          else if is_array page then Inr (json_names vs, None)
          else
            (case page_pagination page (cps ''total'') of
               None \<Rightarrow> Inl InvalidPagination
             | Some t \<Rightarrow>
                 (case safe_integer t of
                    None \<Rightarrow> Inl InvalidPagination
                  | Some tot \<Rightarrow>
                      if tot < 0 \<or> page_pagination page (cps ''offset'') \<noteq> Some (JNum (of_nat offset))
                         \<or> page_size < length vs
                      then Inl InvalidPagination
                      else Inr (json_names vs, Some (nat tot)))))"

definition scan_page ::
  "(utf16 \<Rightarrow> 'k) \<Rightarrow> utf16 list \<Rightarrow> utf16 list \<times> nat option \<Rightarrow> 'k scan_state \<Rightarrow> scan_outcome + 'k scan_state" where
  "scan_page key grants page st =
     (case page of (names, tot) \<Rightarrow>
        let legacy = (tot = None);
            first = (case sc_first_total st of Some f \<Rightarrow> Some f | None \<Rightarrow> tot);
            offset = (if legacy then sc_offset st else sc_offset st + length names);
            consistent = (legacy \<or> (tot = first \<and> offset \<le> the first))
        in case witness_names key grants names (sc_witnessed st, sc_found st, consistent) of
             (witnessed, found, consistent') \<Rightarrow>
               let st' = st\<lparr>sc_found := found, sc_witnessed := witnessed, sc_offset := offset,
                            sc_first_total := (if legacy then sc_first_total st else first)\<rparr>
               in if length found = length grants then Inl (Names (sort found))
                  else if \<not> consistent' then Inl (Refused 503 (Some ScanInconsistent))
                  else if legacy \<or> the first \<le> offset then Inl (Names (sort found))
                  else if names = [] then Inl (Thrown NoProgress)
                  else Inr st')"

text \<open>\<open>fetch n offset\<close> is the upstream's answer to the n-th page request; \<open>grants\<close> is a set.\<close>

function scan_loop ::
  "(utf16 \<Rightarrow> 'k) \<Rightarrow> utf16 list \<Rightarrow> (nat \<Rightarrow> nat \<Rightarrow> page_response) \<Rightarrow> nat \<Rightarrow> 'k scan_state \<Rightarrow> scan_outcome" where
  "scan_loop key grants fetch max_pages st =
     (if max_pages \<le> sc_pages st then Refused 503 (Some ScanBudget)
      else
        let r = fetch (sc_pages st) (sc_offset st); st1 = st\<lparr>sc_pages := sc_pages st + 1\<rparr> in
        if pr_status r \<noteq> 200
        then Refused (if 400 \<le> pr_status r then pr_status r else 502) None
        else case read_page r of
          Inl e \<Rightarrow> Thrown e
        | Inr page \<Rightarrow>
            (case check_page (sc_offset st1) page of
               Inl e \<Rightarrow> Thrown e
             | Inr pg \<Rightarrow>
                 (case scan_page key grants pg st1 of
                    Inl out \<Rightarrow> out
                  | Inr st2 \<Rightarrow> scan_loop key grants fetch max_pages st2)))"
  by pat_completeness auto

lemma scan_page_pages: "scan_page key grants pg st = Inr st' \<Longrightarrow> sc_pages st' = sc_pages st"
  by (auto simp: scan_page_def Let_def split: prod.splits if_splits)

termination scan_loop
  by (relation "measure (\<lambda>(_, _, _, max_pages, st). max_pages - sc_pages st)")
    (auto dest: scan_page_pages)

declare scan_loop.simps [simp del]

definition scan_granted_names ::
  "(utf16 \<Rightarrow> 'k) \<Rightarrow> utf16 list \<Rightarrow> (nat \<Rightarrow> nat \<Rightarrow> page_response) \<Rightarrow> nat \<Rightarrow> scan_outcome" where
  "scan_granted_names key grants fetch max_pages = scan_loop key grants fetch max_pages new_scan"

section \<open>The page served from the result\<close>

definition granted_set :: "principal \<Rightarrow> utf16 list" where
  "granted_set p = js_unique (case p_namespaces p of None \<Rightarrow> [] | Some ns \<Rightarrow> map cps ns)"

datatype list_response = ListPage "utf16 page" | ListError nat "refusal_code option" | ListThrown scan_failure | ListRejected registry_error

definition serve_names :: "utf16 list \<Rightarrow> nat \<times> nat \<Rightarrow> utf16 page" where
  "serve_names names req =
     (case req of (offset, limit) \<Rightarrow>
        let start = (if length names < offset then length names else offset) in
        \<lparr>pg_data = take limit (drop start names), pg_offset = offset, pg_limit = limit, pg_total = length names\<rparr>)"

definition scoped_registry_list ::
  "(string \<times> string) list \<Rightarrow> principal \<Rightarrow> (utf16 list \<Rightarrow> scan_outcome) \<Rightarrow> list_response" where
  "scoped_registry_list query p run =
     (case registry_pagination query of
        Inl e \<Rightarrow> ListRejected e
      | Inr req \<Rightarrow>
          (case run (granted_set p) of
             Names names \<Rightarrow> ListPage (serve_names names req)
           | Refused status code \<Rightarrow> ListError status code
           | Thrown e \<Rightarrow> ListThrown e))"

text \<open>The page served is a \<open>paged_collection\<close> of the filtered names, so the SPA's walk is
  complete over it.\<close>

interpretation registry_pages: paged_collection "\<lambda>offset limit. serve_names names (offset, limit)" names
  for names :: "utf16 list"
  by unfold_locales (auto simp: serve_names_def Let_def)

section \<open>The traversal\<close>

text \<open>What the first \<open>n\<close> requests of a traversal over \<open>fetch\<close> listed, and what the n-th page was.\<close>

definition answer :: "(nat \<Rightarrow> nat \<Rightarrow> page_response) \<Rightarrow> nat \<Rightarrow> nat \<Rightarrow> (utf16 list \<times> nat option) option" where
  "answer fetch n offset =
     (case read_page (fetch n offset) of
        Inl _ \<Rightarrow> None
      | Inr page \<Rightarrow> (case check_page offset page of Inl _ \<Rightarrow> None | Inr pg \<Rightarrow> Some pg))"

primrec listed :: "(nat \<Rightarrow> nat \<Rightarrow> page_response) \<Rightarrow> nat \<Rightarrow> utf16 list" where
  "listed fetch 0 = []"
| "listed fetch (Suc n) =
     listed fetch n @ (case answer fetch n (length (listed fetch n)) of Some (names, _) \<Rightarrow> names | None \<Rightarrow> [])"

declare listed.simps(2) [simp del]

definition page_total :: "(nat \<Rightarrow> nat \<Rightarrow> page_response) \<Rightarrow> nat \<Rightarrow> nat option option" where
  "page_total fetch n = map_option snd (answer fetch n (length (listed fetch n)))"

definition scan_inv :: "(utf16 \<Rightarrow> 'k) \<Rightarrow> utf16 list \<Rightarrow> (nat \<Rightarrow> nat \<Rightarrow> page_response) \<Rightarrow> 'k scan_state \<Rightarrow> bool" where
  "scan_inv key grants fetch st \<longleftrightarrow>
     distinct (sc_found st) \<and>
     set (sc_found st) = set grants \<inter> set (listed fetch (sc_pages st)) \<and>
     set (sc_witnessed st) = key ` set (listed fetch (sc_pages st)) \<and>
     distinct (map key (listed fetch (sc_pages st))) \<and>
     sc_offset st = length (listed fetch (sc_pages st)) \<and>
     (sc_first_total st = None \<longleftrightarrow> sc_pages st = 0) \<and>
     (\<forall>n < sc_pages st. page_total fetch n = Some (sc_first_total st))"

lemma witness_names_result:
  assumes "witness_names key grants ns (w, f, c) = (w', f', c')" "distinct f"
  shows "distinct f'" "set f' = set f \<union> (set grants \<inter> set ns)" "set w' = set w \<union> key ` set ns"
    and "c' \<longleftrightarrow> c \<and> distinct (map key ns) \<and> key ` set ns \<inter> set w = {}"
proof -
  have "distinct f' \<and> set f' = set f \<union> (set grants \<inter> set ns) \<and> set w' = set w \<union> key ` set ns \<and>
    (c' \<longleftrightarrow> c \<and> distinct (map key ns) \<and> key ` set ns \<inter> set w = {})"
    using assms
  proof (induction ns arbitrary: w f c)
    case Nil
    then show ?case by simp
  next
    case (Cons n ns)
    let ?w = "if key n \<in> set w then w else key n # w"
    let ?f = "if n \<in> set grants \<and> n \<notin> set f then f @ [n] else f"
    have run: "witness_names key grants ns (?w, ?f, c \<and> key n \<notin> set w) = (w', f', c')"
      using Cons.prems(1) by simp
    have w: "set ?w = insert (key n) (set w)" by auto
    have f: "set ?f = set f \<union> (set grants \<inter> {n})" "distinct ?f" using Cons.prems(2) by auto
    show ?case using Cons.IH [OF run f(2)] unfolding w f(1) by auto
  qed
  then show "distinct f'" "set f' = set f \<union> (set grants \<inter> set ns)" "set w' = set w \<union> key ` set ns"
    "c' \<longleftrightarrow> c \<and> distinct (map key ns) \<and> key ` set ns \<inter> set w = {}" by blast+
qed

text \<open>One round of the loop: where it leaves and what it keeps.\<close>

lemma scan_page_cases:
  assumes inv: "scan_inv key grants fetch st"
    and ans: "answer fetch (sc_pages st) (sc_offset st) = Some (names, tot)"
    and step: "scan_page key grants (names, tot) (st\<lparr>sc_pages := sc_pages st + 1\<rparr>) = res"
    and dg: "distinct grants"
  shows "(\<forall>ns. res = Inl (Names ns) \<longrightarrow>
      sorted ns \<and> distinct ns \<and> set ns = set grants \<inter> set (listed fetch (Suc (sc_pages st))) \<and>
      (set ns = set grants \<or> tot = None \<or>
        distinct (map key (listed fetch (Suc (sc_pages st)))) \<and>
        (\<forall>n \<le> sc_pages st. page_total fetch n = Some (Some (length (listed fetch (Suc (sc_pages st))))))))
    \<and> (\<forall>st'. res = Inr st' \<longrightarrow> scan_inv key grants fetch st')"
proof -
  obtain w f c where wn: "witness_names key grants names
      (sc_witnessed st, sc_found st,
       tot = None \<or> tot = (case sc_first_total st of Some f \<Rightarrow> Some f | None \<Rightarrow> tot)
         \<and> sc_offset st + length names \<le> the (case sc_first_total st of Some f \<Rightarrow> Some f | None \<Rightarrow> tot)) = (w, f, c)"
    by (metis prod_cases3)
  let ?first = "case sc_first_total st of Some f \<Rightarrow> Some f | None \<Rightarrow> tot"
  have i: "distinct (sc_found st)" "set (sc_found st) = set grants \<inter> set (listed fetch (sc_pages st))"
    "set (sc_witnessed st) = key ` set (listed fetch (sc_pages st))"
    "distinct (map key (listed fetch (sc_pages st)))" "sc_offset st = length (listed fetch (sc_pages st))"
    "sc_first_total st = None \<longleftrightarrow> sc_pages st = 0"
    "\<forall>n < sc_pages st. page_total fetch n = Some (sc_first_total st)"
    using inv unfolding scan_inv_def by blast+
  note w = witness_names_result [OF wn i(1)]
  have next_listed: "listed fetch (Suc (sc_pages st)) = listed fetch (sc_pages st) @ names"
    using ans i(5) by (simp add: listed.simps(2))
  have found: "set f = set grants \<inter> set (listed fetch (Suc (sc_pages st)))"
    unfolding w(2) i(2) next_listed by auto
  have wit: "set w = key ` set (listed fetch (Suc (sc_pages st)))"
    unfolding w(3) i(3) next_listed by auto
  have all: "length f = length grants \<longleftrightarrow> set f = set grants"
    using distinct_card [OF w(1)] distinct_card [OF dg] card_subset_eq [of "set grants" "set f"] found by auto
  have now: "page_total fetch (sc_pages st) = Some tot" using ans i(5) by (simp add: page_total_def)
  have dist: "c \<Longrightarrow> distinct (map key (listed fetch (Suc (sc_pages st))))"
    using w(4) i(3,4) unfolding next_listed by auto
  have totals: "tot \<noteq> None \<Longrightarrow> c \<Longrightarrow> \<forall>n \<le> sc_pages st. page_total fetch n = Some ?first"
  proof (intro allI impI)
    fix n assume a: "tot \<noteq> None" c "n \<le> sc_pages st"
    have first: "tot = ?first" using a w(4) by blast
    show "page_total fetch n = Some ?first"
    proof (cases "n = sc_pages st")
      case True
      then show ?thesis using now first by simp
    next
      case False
      then have "n < sc_pages st" using a(3) by simp
      then have "page_total fetch n = Some (sc_first_total st)" "sc_first_total st \<noteq> None" using i(6,7) by auto
      then show ?thesis by auto
    qed
  qed
  have scan: "res = (if length f = length grants then Inl (Names (sort f))
    else if \<not> c then Inl (Refused 503 (Some ScanInconsistent))
    else if tot = None \<or> the ?first \<le> (if tot = None then sc_offset st else sc_offset st + length names)
    then Inl (Names (sort f))
    else if names = [] then Inl (Thrown NoProgress)
    else Inr (st\<lparr>sc_pages := sc_pages st + 1\<rparr>\<lparr>sc_found := f, sc_witnessed := w,
      sc_offset := if tot = None then sc_offset st else sc_offset st + length names,
      sc_first_total := if tot = None then sc_first_total st else ?first\<rparr>))"
    using step wn by (cases "tot = None") (auto simp: scan_page_def Let_def)
  have exact: "tot \<noteq> None \<Longrightarrow> c \<Longrightarrow> the ?first \<le> sc_offset st + length names \<Longrightarrow>
      ?first = Some (length (listed fetch (Suc (sc_pages st))))"
    using w(4) i(5) next_listed by (cases ?first) (auto split: option.splits)
  show ?thesis
  proof (intro conjI allI impI)
    fix ns assume "res = Inl (Names ns)"
    then have ns: "ns = sort f"
      and why: "set f = set grants \<or> c \<and> (tot = None \<or> the ?first \<le> sc_offset st + length names)"
      using scan all by (auto split: if_splits)
    show "sorted ns" "distinct ns" using ns w(1) by simp_all
    show "set ns = set grants \<inter> set (listed fetch (Suc (sc_pages st)))" using ns found by simp
    show "set ns = set grants \<or> tot = None \<or>
        distinct (map key (listed fetch (Suc (sc_pages st)))) \<and>
        (\<forall>n \<le> sc_pages st. page_total fetch n = Some (Some (length (listed fetch (Suc (sc_pages st))))))"
      using why ns exact totals dist by auto
  next
    fix st' assume "res = Inr st'"
    then have st': "c" "tot \<noteq> None" "st' = st\<lparr>sc_pages := sc_pages st + 1, sc_found := f, sc_witnessed := w,
      sc_offset := sc_offset st + length names, sc_first_total := ?first\<rparr>"
      using scan by (auto split: if_splits)
    have "\<forall>n < Suc (sc_pages st). page_total fetch n = Some ?first"
      using totals [OF st'(2,1)] by (simp add: less_Suc_eq_le)
    moreover have "?first \<noteq> None" using st'(2) by (auto split: option.splits)
    ultimately show "scan_inv key grants fetch st'"
      using st' w(1) found wit dist [OF st'(1)] i(5) arg_cong [OF next_listed, of length]
      unfolding scan_inv_def by simp
  qed
qed

lemma scan_loop_sound:
  assumes "scan_inv key grants fetch st" "distinct grants"
    and "scan_loop key grants fetch max_pages st = Names ns"
  shows "\<exists>n. n < max_pages \<and> sorted ns \<and> distinct ns \<and> set ns = set grants \<inter> set (listed fetch (Suc n)) \<and>
      (set ns = set grants \<or> page_total fetch n = Some None \<or>
        distinct (map key (listed fetch (Suc n))) \<and>
        (\<forall>i \<le> n. page_total fetch i = Some (Some (length (listed fetch (Suc n))))))"
  using assms
proof (induction key grants fetch max_pages st rule: scan_loop.induct)
  case (1 key grants fetch max_pages st)
  let ?r = "fetch (sc_pages st) (sc_offset st)" let ?st1 = "st\<lparr>sc_pages := sc_pages st + 1\<rparr>"
  have run: "\<not> max_pages \<le> sc_pages st" "pr_status ?r = 200"
    using "1.prems"(3) by (auto simp: scan_loop.simps [of key] Let_def split: if_splits)
  obtain page where page: "read_page ?r = Inr page"
    using "1.prems"(3) run by (auto simp: scan_loop.simps [of key grants fetch max_pages st] Let_def split: sum.splits)
  obtain names tot where pg: "check_page (sc_offset st) page = Inr (names, tot)"
    using "1.prems"(3) run page
    by (auto simp: scan_loop.simps [of key grants fetch max_pages st] Let_def split: sum.splits)
  have ans: "answer fetch (sc_pages st) (sc_offset st) = Some (names, tot)"
    using page pg by (simp add: answer_def)
  have off: "sc_offset st = length (listed fetch (sc_pages st))" using "1.prems"(1) by (simp add: scan_inv_def)
  have now: "page_total fetch (sc_pages st) = Some tot" using ans off by (simp add: page_total_def)
  note cs = scan_page_cases [OF "1.prems"(1) ans refl "1.prems"(2)]
  show ?case
  proof (cases "scan_page key grants (names, tot) ?st1")
    case (Inl out)
    then have "out = Names ns" using "1.prems"(3) run page pg
      by (simp add: scan_loop.simps [of key grants fetch max_pages st] Let_def)
    then show ?thesis using cs Inl run(1) now by (intro exI [of _ "sc_pages st"]) auto
  next
    case (Inr st2)
    then have "scan_loop key grants fetch max_pages st2 = Names ns" using "1.prems"(3) run page pg
      by (simp add: scan_loop.simps [of key grants fetch max_pages st] Let_def)
    moreover have "scan_inv key grants fetch st2" using cs Inr by blast
    ultimately show ?thesis
      using "1.IH" [OF run(1) refl refl _ page _ Inr] pg run(2) "1.prems"(2) by simp
  qed
qed

lemma scan_inv_new: "scan_inv key grants fetch new_scan"
  by (simp add: scan_inv_def new_scan_def)

section \<open>A registry that stands still\<close>

text \<open>The gateway's envelope for one page of a fixed registry, in a body of chunks \<open>sizes\<close>.\<close>

definition envelope :: "nat list \<Rightarrow> utf16 page \<Rightarrow> page_response" where
  "envelope sizes p = \<lparr>pr_status = 200, pr_chunks = Some sizes,
     pr_json = Some (JObj [(cps ''data'', JArr (map JStr (pg_data p))),
       (cps ''pagination'', JObj [(cps ''offset'', JNum (of_nat (pg_offset p))),
          (cps ''limit'', JNum (of_nat (pg_limit p))), (cps ''total'', JNum (of_nat (pg_total p)))])])\<rparr>"

definition stable_upstream :: "(nat \<Rightarrow> nat list) \<Rightarrow> utf16 list \<Rightarrow> nat \<Rightarrow> nat \<Rightarrow> page_response" where
  "stable_upstream sizes reg n offset = envelope (sizes n) (serve_names reg (offset, page_size))"

lemma read_envelope:
  "read_chunks 0 sizes \<Longrightarrow> \<exists>v. read_page (envelope sizes p) = Inr v \<and> pr_json (envelope sizes p) = Some v"
  by (simp add: read_page_def envelope_def)

lemma json_names_JStr [simp]: "json_names (map JStr ns) = ns"
  by (simp add: json_names_def comp_def)

lemma check_envelope:
  assumes "read_page (envelope sizes p) = Inr v" "pr_json (envelope sizes p) = Some v"
    and "\<forall>n \<in> set (pg_data p). is_namespace_name n" "length (pg_data p) \<le> page_size"
    and "int (pg_total p) \<le> max_safe"
  shows "check_page (pg_offset p) v = Inr (pg_data p, Some (pg_total p))"
proof -
  have v: "v = JObj [(cps ''data'', JArr (map JStr (pg_data p))),
       (cps ''pagination'', JObj [(cps ''offset'', JNum (of_nat (pg_offset p))),
          (cps ''limit'', JNum (of_nat (pg_limit p))), (cps ''total'', JNum (of_nat (pg_total p)))])]"
    using assms(2) by (simp add: envelope_def)
  have "\<not> list_ex (\<lambda>v. \<not> is_namespace_value v) (map JStr (pg_data p))"
    using assms(3) by (simp add: list_ex_iff is_namespace_value_def)
  then show ?thesis using assms(4,5)
    by (simp add: v check_page_def page_data_def page_pagination_def jfield_def is_array_def)
qed

lemma stable_answer:
  assumes "\<forall>n. read_chunks 0 (sizes n)" "\<forall>n \<in> set reg. is_namespace_name n" "int (length reg) \<le> max_safe"
    and "offset \<le> length reg"
  shows "answer (stable_upstream sizes reg) n offset = Some (take page_size (drop offset reg), Some (length reg))"
proof -
  let ?p = "serve_names reg (offset, page_size)"
  obtain v where v: "read_page (envelope (sizes n) ?p) = Inr v" "pr_json (envelope (sizes n) ?p) = Some v"
    using read_envelope assms(1) by blast
  have "\<forall>n \<in> set (pg_data ?p). is_namespace_name n"
    using assms(2) by (auto simp: serve_names_def dest: in_set_takeD in_set_dropD)
  then have "check_page (pg_offset ?p) v = Inr (pg_data ?p, Some (pg_total ?p))"
    using v assms(3) by (intro check_envelope) (auto simp: serve_names_def)
  then show ?thesis using v(1) assms(4)
    by (simp add: answer_def stable_upstream_def serve_names_def Let_def not_less)
qed

lemma stable_listed:
  assumes "\<forall>n. read_chunks 0 (sizes n)" "\<forall>n \<in> set reg. is_namespace_name n" "int (length reg) \<le> max_safe"
  shows "listed (stable_upstream sizes reg) n = take (page_size * n) reg"
proof (induction n)
  case 0
  then show ?case by simp
next
  case (Suc n)
  let ?o = "min (length reg) (page_size * n)"
  have "answer (stable_upstream sizes reg) n ?o = Some (take page_size (drop ?o reg), Some (length reg))"
    by (rule stable_answer [OF assms]) simp
  moreover have "take page_size (drop ?o reg) = take page_size (drop (page_size * n) reg)"
    by (cases "length reg \<le> page_size * n") simp_all
  ultimately show ?case using Suc by (simp add: listed.simps(2) min.commute add.commute [of page_size] take_add)
qed

text \<open>On a registry that stands still no check of the traversal fires.\<close>

lemma stable_scan_names:
  assumes up: "\<forall>n. read_chunks 0 (sizes n)" "\<forall>n \<in> set reg. is_namespace_name n" "int (length reg) \<le> max_safe"
    and reg: "distinct reg" "inj_on key (set reg)" and dg: "distinct grants"
    and st: "scan_inv key grants (stable_upstream sizes reg) st"
      "sc_pages st < max_pages" "sc_pages st = 0 \<or> page_size * sc_pages st < length reg"
    and budget: "length reg \<le> page_size * max_pages"
  shows "\<exists>ns. scan_loop key grants (stable_upstream sizes reg) max_pages st = Names ns"
  using st
proof (induction "max_pages - sc_pages st" arbitrary: st rule: less_induct)
  case less
  let ?f = "stable_upstream sizes reg" let ?names = "take page_size (drop (page_size * sc_pages st) reg)"
  have listed: "listed ?f n = take (page_size * n) reg" for n by (rule stable_listed [OF up])
  have le: "page_size * sc_pages st \<le> length reg" using less.prems(3) by auto
  have off: "sc_offset st = page_size * sc_pages st"
    using less.prems(1) le by (simp add: scan_inv_def listed)
  have ans: "answer ?f (sc_pages st) (sc_offset st) = Some (?names, Some (length reg))"
    using stable_answer [OF up, of "sc_offset st"] off le by simp
  obtain page where page: "read_page (?f (sc_pages st) (sc_offset st)) = Inr page"
    "check_page (sc_offset st) page = Inr (?names, Some (length reg))"
    using ans by (auto simp: answer_def split: sum.splits)
  have status: "pr_status (?f (sc_pages st) (sc_offset st)) = 200" by (simp add: stable_upstream_def envelope_def)
  let ?st1 = "st\<lparr>sc_pages := sc_pages st + 1\<rparr>"
  have run: "scan_loop key grants ?f max_pages st =
    (case scan_page key grants (?names, Some (length reg)) ?st1 of Inl out \<Rightarrow> out
     | Inr st2 \<Rightarrow> scan_loop key grants ?f max_pages st2)"
    using less.prems(2) status page by (simp add: scan_loop.simps [of key grants ?f max_pages st] Let_def)
  have first: "sc_first_total st \<in> {None, Some (length reg)}"
  proof (cases "sc_pages st = 0")
    case False
    then have "page_total ?f 0 = Some (sc_first_total st)" using less.prems(1) by (simp add: scan_inv_def)
    then show ?thesis using stable_answer [OF up, of 0 0] by (simp add: page_total_def)
  qed (use less.prems(1) in \<open>simp add: scan_inv_def\<close>)
  then have first': "(case sc_first_total st of None \<Rightarrow> Some (length reg) | Some f \<Rightarrow> Some f) = Some (length reg)"
    by auto
  have next_listed: "listed ?f (Suc (sc_pages st)) = listed ?f (sc_pages st) @ ?names"
    unfolding listed by (simp add: add.commute [of page_size] take_add)
  have bound: "sc_offset st + length ?names \<le> length reg" using off le by simp
  obtain w f c where wn: "witness_names key grants ?names (sc_witnessed st, sc_found st, True) = (w, f, c)"
    by (metis prod_cases3)
  have "distinct (map key (take n reg))" for n
    using reg by (metis distinct_map distinct_take inj_on_subset set_take_subset)
  then have "distinct (map key (listed ?f (Suc (sc_pages st))))" unfolding listed by blast
  then have c: c
    using witness_names_result(4) [OF wn] less.prems(1) unfolding next_listed scan_inv_def by auto
  have scan: "scan_page key grants (?names, Some (length reg)) ?st1 =
    (if length f = length grants then Inl (Names (sort f))
     else if length reg \<le> sc_offset st + length ?names then Inl (Names (sort f))
     else if ?names = [] then Inl (Thrown NoProgress)
     else Inr (?st1\<lparr>sc_found := f, sc_witnessed := w, sc_offset := sc_offset st + length ?names,
            sc_first_total := Some (length reg)\<rparr>))"
    using wn c bound unfolding scan_page_def prod.case Let_def by (simp add: first')
  show ?case
  proof (cases "length f = length grants \<or> length reg \<le> sc_offset st + length ?names")
    case True
    then show ?thesis using run scan by auto
  next
    case False
    let ?st2 = "?st1\<lparr>sc_found := f, sc_witnessed := w, sc_offset := sc_offset st + length ?names,
            sc_first_total := Some (length reg)\<rparr>"
    have more: "page_size * Suc (sc_pages st) < length reg" using False off le by (auto simp: min_def split: if_splits)
    then have "?names \<noteq> []" using False off by (auto simp: page_size_def)
    then have go: "scan_page key grants (?names, Some (length reg)) ?st1 = Inr ?st2" using scan False by simp
    have inv: "scan_inv key grants ?f ?st2" using scan_page_cases [OF less.prems(1) ans go dg] by blast
    have "page_size * Suc (sc_pages st) < page_size * max_pages" using more budget by linarith
    then have "Suc (sc_pages st) < max_pages" using mult_less_cancel1 by blast
    then show ?thesis using less.hyps [of ?st2] inv more run go by simp
  qed
qed

lemma stable_scan:
  assumes up: "\<forall>n. read_chunks 0 (sizes n)" "\<forall>n \<in> set reg. is_namespace_name n" "int (length reg) \<le> max_safe"
    and reg: "distinct reg" "inj_on key (set reg)" and dg: "distinct grants"
    and budget: "length reg \<le> page_size * max_pages" "0 < max_pages"
  shows "scan_granted_names key grants (stable_upstream sizes reg) max_pages =
    Names (sort (filter (\<lambda>n. n \<in> set reg) grants))"
proof -
  let ?f = "stable_upstream sizes reg"
  obtain ns where ns: "scan_loop key grants ?f max_pages new_scan = Names ns"
    using stable_scan_names [OF up reg dg scan_inv_new _ _ budget(1)] budget(2) by (auto simp: new_scan_def)
  obtain n where n: "sorted ns" "distinct ns" "set ns = set grants \<inter> set (listed ?f (Suc n))"
    "set ns = set grants \<or> page_total ?f n = Some None \<or>
       (\<forall>i \<le> n. page_total ?f i = Some (Some (length (listed ?f (Suc n)))))"
    using scan_loop_sound [OF scan_inv_new dg ns] by blast
  have listed: "listed ?f m = take (page_size * m) reg" for m by (rule stable_listed [OF up])
  have total: "page_total ?f 0 = Some (Some (length reg))" "page_total ?f n = Some (Some (length reg))"
    using stable_answer [OF up, of "length (listed ?f n)" n] stable_answer [OF up, of 0 0]
    by (simp_all add: page_total_def listed)
  have "set ns = set grants \<inter> set reg"
  proof (cases "set ns = set grants")
    case True
    then show ?thesis using n(3) set_take_subset [of "page_size * Suc n" reg] by (auto simp: listed)
  next
    case False
    then have "length (listed ?f (Suc n)) = length reg" using n(4) total by auto
    then have "listed ?f (Suc n) = reg" unfolding listed by simp
    then show ?thesis using n(3) by simp
  qed
  then have "ns = sort (filter (\<lambda>n. n \<in> set reg) grants)"
    using n(1,2) dg by (intro sorted_distinct_set_unique) auto
  then show ?thesis using ns by (simp add: scan_granted_names_def)
qed

section \<open>Properties\<close>

lemma registry_body_shape:
  assumes "authorize_registry_body parsed meth p = Inr out"
  obtains fs where "parsed = Some (JObj fs)"
    "out = JObj ((case map_of fs (cps ''name'') of Some v \<Rightarrow> [(cps ''name'', v)] | None \<Rightarrow> []) @
             (case map_of fs (cps ''description'') of Some v \<Rightarrow> [(cps ''description'', v)] | None \<Rightarrow> []))"
    "meth = ''POST'' \<longrightarrow> map_of fs (cps ''name'') \<noteq> None"
    "\<forall>v. map_of fs (cps ''name'') = Some v \<longrightarrow> (\<exists>n. v = JStr n \<and> is_namespace_name n \<and> registry_name_allowed p n)"
    "\<forall>v. map_of fs (cps ''description'') = Some v \<longrightarrow>
       v = JNull \<or> (\<exists>d. v = JStr d \<and> namespace_description_problem d = None)"
proof -
  obtain fs where fs: "parsed = Some (JObj fs)"
    using assms by (auto simp: authorize_registry_body_def split: option.splits json.splits)
  let ?n = "map_of fs (cps ''name'')" let ?d = "map_of fs (cps ''description'')"
  have name: "meth = ''POST'' \<longrightarrow> ?n \<noteq> None"
    "\<forall>v. ?n = Some v \<longrightarrow> (\<exists>n. v = JStr n \<and> is_namespace_name n \<and> registry_name_allowed p n)"
    using assms unfolding fs
    by (auto simp: authorize_registry_body_def Let_def is_namespace_value_def split: if_splits json.splits option.splits)
  have desc: "\<forall>v. ?d = Some v \<longrightarrow> v = JNull \<or> (\<exists>d. v = JStr d \<and> namespace_description_problem d = None)"
    "out = JObj ((case ?n of Some v \<Rightarrow> [(cps ''name'', v)] | None \<Rightarrow> []) @
             (case ?d of Some v \<Rightarrow> [(cps ''description'', v)] | None \<Rightarrow> []))"
    using assms unfolding fs
    by (auto simp: authorize_registry_body_def Let_def split: if_splits json.splits option.splits description_problem.splits)
  show thesis using that fs name desc by blast
qed

lemma description_accepted:
  "namespace_description_problem d = None \<longleftrightarrow>
     length (code_points (normalize_description d)) \<le> 1024 \<and>
     (\<forall>c \<in> set (code_points (normalize_description d)). \<not> (55296 \<le> c \<and> c \<le> 57343))"
  by (auto simp: namespace_description_problem_def description_max_def Let_def list_ex_iff)

text \<open>C7: A registry write a scoped principal gets through stays inside its grants and says what the
  request body said. Only an administrator writes, and a name in the path is a valid namespace
  among the grants. The request body is an object, and the forwarded one holds no other field than
  \<open>name\<close> and \<open>description\<close>, each at most once, and each exactly as the request has it: the same value
  where the request gives one (a null description is forwarded as null) and absent where the
  request omits it. A name is a valid namespace among the grants, and a POST has one; a description is null
  or, trimmed, at most 1024 code points without a lone surrogate. Inspecting the forwarded body
  again yields the same body.\<close>

theorem registry_write_confined:
  assumes "authorize_registry_path path meth p = Inr ()" "is_registry_path path" "meth \<noteq> ''GET''"
    and "authorize_registry_body parsed meth p = Inr out" "p_namespaces p = Some grants"
  shows "p_role p = Admin \<and>
    (path = ''/namespaces'' \<or> is_namespace_name (path_name path) \<and> path_name path \<in> cps ` set grants) \<and>
    authorize_registry_body (Some out) meth p = Inr out \<and>
    (\<exists>asked fs. parsed = Some (JObj asked) \<and> out = JObj fs \<and>
      set (map fst fs) \<subseteq> {cps ''name'', cps ''description''} \<and> distinct (map fst fs) \<and>
      map_of fs (cps ''name'') = map_of asked (cps ''name'') \<and>
      map_of fs (cps ''description'') = map_of asked (cps ''description'') \<and>
      (case map_of fs (cps ''name'') of None \<Rightarrow> meth \<noteq> ''POST''
       | Some v \<Rightarrow> \<exists>n. v = JStr n \<and> is_namespace_name n \<and> n \<in> cps ` set grants) \<and>
      (case map_of fs (cps ''description'') of None \<Rightarrow> True
       | Some v \<Rightarrow> v = JNull \<or>
           (\<exists>d. v = JStr d \<and> length (code_points (normalize_description d)) \<le> 1024 \<and>
              (\<forall>c \<in> set (code_points (normalize_description d)). \<not> (55296 \<le> c \<and> c \<le> 57343)))))"
proof -
  have path: "p_role p = Admin"
    "path = ''/namespaces'' \<or> is_namespace_name (path_name path) \<and> registry_name_allowed p (path_name path)"
    using assms(1-3) by (auto simp: authorize_registry_path_def Let_def split: if_splits)
  have granted: "registry_name_allowed p n \<longleftrightarrow> n \<in> cps ` set grants" for n
    using assms(5) by (auto simp: registry_name_allowed_def list_ex_iff)
  obtain asked where asked: "parsed = Some (JObj asked)"
    "out = JObj ((case map_of asked (cps ''name'') of Some v \<Rightarrow> [(cps ''name'', v)] | None \<Rightarrow> []) @
             (case map_of asked (cps ''description'') of Some v \<Rightarrow> [(cps ''description'', v)] | None \<Rightarrow> []))"
    "meth = ''POST'' \<longrightarrow> map_of asked (cps ''name'') \<noteq> None"
    "\<forall>v. map_of asked (cps ''name'') = Some v \<longrightarrow> (\<exists>n. v = JStr n \<and> is_namespace_name n \<and> registry_name_allowed p n)"
    "\<forall>v. map_of asked (cps ''description'') = Some v \<longrightarrow>
       v = JNull \<or> (\<exists>d. v = JStr d \<and> namespace_description_problem d = None)"
    using registry_body_shape [OF assms(4)] by blast
  have again: "authorize_registry_body (Some out) meth p = Inr out"
    using asked(2-5) by (cases "map_of asked (cps ''name'')"; cases "map_of asked (cps ''description'')")
      (auto simp: authorize_registry_body_def Let_def is_namespace_value_def)
  have keys: "cps ''name'' \<noteq> cps ''description''" by (simp add: cps_def)
  let ?fs = "(case map_of asked (cps ''name'') of Some v \<Rightarrow> [(cps ''name'', v)] | None \<Rightarrow> []) @
             (case map_of asked (cps ''description'') of Some v \<Rightarrow> [(cps ''description'', v)] | None \<Rightarrow> [])"
  have same: "set (map fst ?fs) \<subseteq> {cps ''name'', cps ''description''}" "distinct (map fst ?fs)"
    "map_of ?fs (cps ''name'') = map_of asked (cps ''name'')"
    "map_of ?fs (cps ''description'') = map_of asked (cps ''description'')"
    using keys by (auto split: option.split)
  have name: "case map_of asked (cps ''name'') of None \<Rightarrow> meth \<noteq> ''POST''
       | Some v \<Rightarrow> \<exists>n. v = JStr n \<and> is_namespace_name n \<and> n \<in> cps ` set grants"
    using asked(3,4) granted by (auto split: option.split)
  have description: "case map_of asked (cps ''description'') of None \<Rightarrow> True
       | Some v \<Rightarrow> v = JNull \<or>
           (\<exists>d. v = JStr d \<and> length (code_points (normalize_description d)) \<le> 1024 \<and>
              (\<forall>c \<in> set (code_points (normalize_description d)). \<not> (55296 \<le> c \<and> c \<le> 57343)))"
    using asked(5) unfolding description_accepted by (auto split: option.split)
  show ?thesis
    by (intro conjI exI [of _ asked] exI [of _ ?fs])
      (use path again asked(1,2) granted same name description in \<open>simp_all only: same\<close>)
qed

definition sample_admin :: principal where
  "sample_admin = \<lparr>p_subject = ''ann'', p_display = ''ann'', p_role = Admin,
     p_namespaces = Some [''team-a'', ''team-b''], p_mode = TrustedProxy\<rparr>"

lemma sample_body:
  "authorize_registry_body (Some (JObj [(cps ''extra'', JNull), (cps ''description'', JNull), (cps ''name'', JStr (cps ''team-b''))]))
     ''PUT'' sample_admin = Inr (JObj [(cps ''name'', JStr (cps ''team-b'')), (cps ''description'', JNull)])"
  by (simp add: authorize_registry_body_def Let_def is_namespace_value_def is_namespace_name_def name_start_def
      name_char_def registry_name_allowed_def sample_admin_def cps_def)

lemma sample_path_ok: "authorize_registry_path ''/namespaces/team-a'' ''PUT'' sample_admin = Inr ()"
  by (simp add: authorize_registry_path_def is_registry_path_def starts_with_def path_name_def Let_def
      is_namespace_name_def name_start_def name_char_def registry_name_allowed_def sample_admin_def cps_def)

theorem registry_write_confined_witness:
  "p_role sample_admin = Admin \<and> path_name ''/namespaces/team-a'' \<in> cps ` {''team-a'', ''team-b''}"
proof -
  have "is_registry_path ''/namespaces/team-a''" by (simp add: is_registry_path_def starts_with_def)
  moreover have "p_namespaces sample_admin = Some [''team-a'', ''team-b'']" by (simp add: sample_admin_def)
  ultimately show ?thesis
    using registry_write_confined [OF sample_path_ok _ _ sample_body] by simp
qed

text \<open>C8: A scoped namespace list is never partial or widened. Whatever the upstream answers, a list
  that is returned took at most \<open>max_pages\<close> requests, is sorted without repetition, and is exactly
  the granted names among those listed; and either every grant was listed, or the last page was a
  bare array, or no name (up to its witness key) was listed twice and every page reported, as its
  total, exactly the number of names listed.\<close>

theorem scoped_scan_honest:
  assumes "scan_granted_names key grants fetch max_pages = Names ns" "distinct grants"
  shows "\<exists>n. n < max_pages \<and> sorted ns \<and> distinct ns \<and> set ns = set grants \<inter> set (listed fetch (Suc n)) \<and>
      (set ns = set grants \<or> page_total fetch n = Some None \<or>
        distinct (map key (listed fetch (Suc n))) \<and>
        (\<forall>i \<le> n. page_total fetch i = Some (Some (length (listed fetch (Suc n))))))"
  using scan_loop_sound [OF scan_inv_new assms(2)] assms(1) by (simp add: scan_granted_names_def)

definition sample_registry :: "utf16 list" where
  "sample_registry = [cps ''team-a'', cps ''team-c'']"

lemma sample_registry_ok:
  "\<forall>n \<in> set sample_registry. is_namespace_name n" "distinct sample_registry"
  "int (length sample_registry) \<le> max_safe" "length sample_registry \<le> page_size * 3"
  by (simp_all add: sample_registry_def is_namespace_name_def name_start_def name_char_def max_safe_def page_size_def cps_def)

lemma small_chunks: "\<forall>n :: nat. read_chunks 0 [100]"
  by (simp add: page_bytes_def)

theorem scoped_scan_honest_witness:
  "\<exists>n < 3. set [cps ''team-a''] = set [cps ''team-a'', cps ''team-b''] \<inter>
     set (listed (stable_upstream (\<lambda>_. [100]) sample_registry) (Suc n))"
proof -
  have grants: "distinct [cps ''team-a'', cps ''team-b'']" by simp
  have "scan_granted_names (\<lambda>n. n) [cps ''team-a'', cps ''team-b''] (stable_upstream (\<lambda>_. [100]) sample_registry) 3 =
    Names (sort (filter (\<lambda>n. n \<in> set sample_registry) [cps ''team-a'', cps ''team-b'']))"
    using small_chunks sample_registry_ok grants by (intro stable_scan) simp_all
  then have "scan_granted_names (\<lambda>n. n) [cps ''team-a'', cps ''team-b''] (stable_upstream (\<lambda>_. [100]) sample_registry) 3 =
    Names [cps ''team-a'']" by (simp add: sample_registry_def)
  from scoped_scan_honest [OF this grants] show ?thesis by blast
qed

text \<open>The console's list of namespaces: the SPA's walk over what the BFF answers for each page.\<close>

definition bff_page ::
  "(utf16 list \<Rightarrow> scan_outcome) \<Rightarrow> principal \<Rightarrow> nat \<Rightarrow> nat \<Rightarrow> int \<Rightarrow> utf16 wire_page option" where
  "bff_page run p n offset limit =
     (case scoped_registry_list [(''offset'', show_nat offset), (''limit'', show_nat (nat limit))] p run of
        ListPage pg \<Rightarrow> Some (wire pg)
      | _ \<Rightarrow> None)"

lemma pagination_integer_show: "pagination_integer (show_nat n) = Some n"
proof -
  have d: "list_all digit (show_nat n)" "show_nat n \<noteq> []" using digits_show_nat [of n] by auto
  then obtain c cs where cs: "show_nat n = c # cs" by (cases "show_nat n") auto
  then have "c \<noteq> CHR ''+''" using d(1) by (auto simp: digit_def)
  then show ?thesis using d cs decimal_show_nat [of n] by (simp add: pagination_integer_def Let_def)
qed

lemma bff_page_names:
  assumes "run (granted_set p) = Names names" "offset \<le> 9223372036854775807" "1 \<le> limit" "limit \<le> 1000"
  shows "bff_page run p n offset limit = Some (wire (serve_names names (offset, nat limit)))"
proof -
  have "registry_pagination [(''offset'', show_nat offset), (''limit'', show_nat (nat limit))] = Inr (offset, nat limit)"
    using assms(2-4) by (simp add: registry_pagination_def pagination_integer_show)
  then show ?thesis using assms(1) by (simp add: bff_page_def scoped_registry_list_def)
qed

text \<open>C9: End to end, over a registry that stands still the console lists exactly the granted
  namespaces that exist, sorted: the BFF's traversal finds them within its page budget, pages them
  out, and the SPA's walk over those pages collects each of them once, with no check firing on
  either side.\<close>

theorem console_lists_granted_namespaces:
  assumes "\<forall>n. read_chunks 0 (sizes n)" "\<forall>n \<in> set reg. is_namespace_name n" "distinct reg"
    and "inj_on key (set reg)" "length reg \<le> page_size * max_pages" "0 < max_pages" "int (length reg) \<le> max_safe"
  shows "collect_all_pages
      (bff_page (\<lambda>grants. scan_granted_names key grants (stable_upstream sizes reg) max_pages) p)
      (\<lambda>_. False) all_page_size (Some (\<lambda>n. n)) =
    Inr (sort (filter (\<lambda>n. n \<in> set reg) (granted_set p)))"
proof -
  let ?run = "\<lambda>grants. scan_granted_names key grants (stable_upstream sizes reg) max_pages"
  let ?names = "sort (filter (\<lambda>n. n \<in> set reg) (granted_set p))"
  have dg: "distinct (granted_set p)" by (simp add: granted_set_def)
  have run: "?run (granted_set p) = Names ?names" by (rule stable_scan [OF assms(1,2,7,3,4) dg assms(5,6)])
  have "card (set ?names) \<le> card (set reg)" by (rule card_mono) auto
  moreover have "card (set ?names) = length ?names" using dg by (intro distinct_card) simp
  moreover have "card (set reg) = length reg" by (rule distinct_card [OF assms(3)])
  ultimately have "length ?names \<le> length reg" by simp
  then have small: "int (length ?names) \<le> max_safe" using assms(7) by simp
  have "collect_all_pages (bff_page ?run p) (\<lambda>_. False) all_page_size (Some (\<lambda>n. n)) = Inr ?names"
  proof (rule registry_pages.collects_everything)
    fix n offset assume "offset \<le> length ?names"
    then have "int offset \<le> 9223372036854775807" using small by (simp add: max_safe_def)
    then have "offset \<le> 9223372036854775807" by simp
    then show "bff_page ?run p n offset all_page_size = registry_pages.fetch_from ?names n offset all_page_size"
      using bff_page_names [where run = ?run, OF run, of offset all_page_size n]
      by (simp add: registry_pages.fetch_from_def all_page_size_def)
  qed (use small dg in \<open>simp_all add: all_page_size_def max_safe_def\<close>)
  then show ?thesis .
qed

theorem console_lists_granted_namespaces_witness:
  "collect_all_pages
     (bff_page (\<lambda>grants. scan_granted_names (\<lambda>n. n) grants (stable_upstream (\<lambda>_. [100]) sample_registry) 3) sample_admin)
     (\<lambda>_. False) all_page_size (Some (\<lambda>n. n)) = Inr [cps ''team-a'']"
  using console_lists_granted_namespaces [of "\<lambda>_. [100]" sample_registry "\<lambda>n. n" 3 sample_admin]
    small_chunks sample_registry_ok
  by (simp add: granted_set_def sample_admin_def js_unique_def sample_registry_def)

end
