(* ===== verification/SharedScan.thy ===== *)
theory SharedScan
  imports Prelude
begin

text \<open>
  The in-flight namespace traversals shared by identical requests (\<open>startScan\<close>, \<open>joinScan\<close>
  and \<open>sharedScanStats\<close> of \<open>server/namespace-registry.ts\<close>). A scan is an index into the list of
  all scans ever started; the map holds the scans new requests may join. The steps are the points
  at which the event loop hands over: a request joins, a traversal's promise settles, its
  deadline fires, a request stops waiting (its answer arrived or its own signal fired).
\<close>

record 'k shared_scan =
  ss_key :: 'k
  ss_waiters :: nat
  ss_aborted :: bool
  ss_settled :: bool

record 'k scan_table =
  st_scans :: "'k shared_scan list"
  st_shared :: "('k, nat) jsmap"
  st_waiting :: "(nat, nat) jsmap"

definition no_scans :: "'k scan_table" where
  "no_scans = \<lparr>st_scans = [], st_shared = [], st_waiting = []\<rparr>"

definition start_scan :: "'k \<Rightarrow> 'k scan_table \<Rightarrow> nat \<times> 'k scan_table" where
  "start_scan key t =
     (let i = length (st_scans t) in
      (i, t\<lparr>st_scans := st_scans t @ [\<lparr>ss_key = key, ss_waiters = 0, ss_aborted = False, ss_settled = False\<rparr>],
           st_shared := jm_set key i (st_shared t)\<rparr>))"

definition update_scan :: "nat \<Rightarrow> ('k shared_scan \<Rightarrow> 'k shared_scan) \<Rightarrow> 'k scan_table \<Rightarrow> 'k scan_table" where
  "update_scan i f t = t\<lparr>st_scans := (st_scans t)[i := f (st_scans t ! i)]\<rparr>"

definition join_scan :: "nat \<Rightarrow> 'k \<Rightarrow> 'k scan_table \<Rightarrow> 'k scan_table" where
  "join_scan r key t =
     (case (case jm_get (st_shared t) key of Some i \<Rightarrow> (i, t) | None \<Rightarrow> start_scan key t) of
        (i, t') \<Rightarrow> (update_scan i (\<lambda>s. s\<lparr>ss_waiters := ss_waiters s + 1\<rparr>) t')
                     \<lparr>st_waiting := jm_set r i (st_waiting t')\<rparr>)"

text \<open>\<open>if (sharedScans.get(key) === scan) sharedScans.delete(key)\<close>\<close>

definition unshare :: "nat \<Rightarrow> 'k scan_table \<Rightarrow> 'k scan_table" where
  "unshare i t =
     (let key = ss_key (st_scans t ! i) in
      if jm_get (st_shared t) key = Some i then t\<lparr>st_shared := jm_delete key (st_shared t)\<rparr> else t)"

definition settle_scan :: "nat \<Rightarrow> 'k scan_table \<Rightarrow> 'k scan_table" where
  "settle_scan i t = unshare i (update_scan i (\<lambda>s. s\<lparr>ss_settled := True\<rparr>) t)"

definition expire_scan :: "nat \<Rightarrow> 'k scan_table \<Rightarrow> 'k scan_table" where
  "expire_scan i t = update_scan i (\<lambda>s. s\<lparr>ss_aborted := True\<rparr>) t"

definition leave_scan :: "nat \<Rightarrow> 'k scan_table \<Rightarrow> 'k scan_table" where
  "leave_scan r t =
     (case jm_get (st_waiting t) r of
        None \<Rightarrow> t
      | Some i \<Rightarrow>
          let t1 = (update_scan i (\<lambda>s. s\<lparr>ss_waiters := ss_waiters s - 1\<rparr>) t)
                     \<lparr>st_waiting := jm_delete r (st_waiting t)\<rparr>
          in if ss_waiters (st_scans t1 ! i) = 0
             then update_scan i (\<lambda>s. s\<lparr>ss_aborted := True\<rparr>) (unshare i t1)
             else t1)"

definition shared_scan_stats :: "'k scan_table \<Rightarrow> nat \<times> nat" where
  "shared_scan_stats t =
     (length (st_shared t), sum_list (map (\<lambda>(k, i). ss_waiters (st_scans t ! i)) (st_shared t)))"

inductive scan_step :: "'k scan_table \<Rightarrow> 'k scan_table \<Rightarrow> bool" where
  join: "jm_get (st_waiting t) r = None \<Longrightarrow> scan_step t (join_scan r key t)"
| settle: "i < length (st_scans t) \<Longrightarrow> \<not> ss_settled (st_scans t ! i) \<Longrightarrow> scan_step t (settle_scan i t)"
| expire: "i < length (st_scans t) \<Longrightarrow> \<not> ss_settled (st_scans t ! i) \<Longrightarrow> scan_step t (expire_scan i t)"
| leave: "jm_get (st_waiting t) r = Some i \<Longrightarrow> scan_step t (leave_scan r t)"

inductive_cases scan_stepE: "scan_step t t'"

inductive reachable_table :: "'k scan_table \<Rightarrow> bool" where
  start: "reachable_table no_scans"
| step: "reachable_table t \<Longrightarrow> scan_step t t' \<Longrightarrow> reachable_table t'"

section \<open>Invariant\<close>

definition waiting_on :: "'k scan_table \<Rightarrow> nat \<Rightarrow> nat set" where
  "waiting_on t i = {r. jm_get (st_waiting t) r = Some i}"

definition live :: "'k scan_table \<Rightarrow> nat \<Rightarrow> bool" where
  "live t i \<longleftrightarrow> i < length (st_scans t) \<and> \<not> ss_settled (st_scans t ! i) \<and> 0 < ss_waiters (st_scans t ! i)"

definition table_inv :: "'k scan_table \<Rightarrow> bool" where
  "table_inv t \<longleftrightarrow>
     jm_ok (st_shared t) \<and> jm_ok (st_waiting t) \<and>
     (\<forall>r i. jm_get (st_waiting t) r = Some i \<longrightarrow> i < length (st_scans t)) \<and>
     (\<forall>i < length (st_scans t). ss_waiters (st_scans t ! i) = card (waiting_on t i)) \<and>
     (\<forall>i < length (st_scans t). ss_waiters (st_scans t ! i) = 0 \<longrightarrow> ss_aborted (st_scans t ! i)) \<and>
     (\<forall>k i. jm_get (st_shared t) k = Some i \<longleftrightarrow> live t i \<and> ss_key (st_scans t ! i) = k)"

lemma finite_waiting: "finite (waiting_on t i)"
proof -
  have "waiting_on t i \<subseteq> set (jm_keys (st_waiting t))"
    by (auto simp: waiting_on_def dest: jm_get_SomeD)
  then show ?thesis by (rule finite_subset) simp
qed

lemma table_inv_start: "table_inv no_scans"
  by (simp add: table_inv_def no_scans_def live_def)

lemma table_invD:
  assumes "table_inv t"
  shows "jm_ok (st_shared t)" "jm_ok (st_waiting t)"
    "jm_get (st_waiting t) r = Some i \<Longrightarrow> i < length (st_scans t)"
    "i < length (st_scans t) \<Longrightarrow> ss_waiters (st_scans t ! i) = card (waiting_on t i)"
    "i < length (st_scans t) \<Longrightarrow> ss_waiters (st_scans t ! i) = 0 \<Longrightarrow> ss_aborted (st_scans t ! i)"
    "jm_get (st_shared t) k = Some i \<longleftrightarrow> live t i \<and> ss_key (st_scans t ! i) = k"
  using assms unfolding table_inv_def by blast+

lemma table_invI:
  assumes "jm_ok (st_shared t)" "jm_ok (st_waiting t)"
    "\<And>r i. jm_get (st_waiting t) r = Some i \<Longrightarrow> i < length (st_scans t)"
    "\<And>i. i < length (st_scans t) \<Longrightarrow> ss_waiters (st_scans t ! i) = card (waiting_on t i)"
    "\<And>i. i < length (st_scans t) \<Longrightarrow> ss_waiters (st_scans t ! i) = 0 \<Longrightarrow> ss_aborted (st_scans t ! i)"
    "\<And>k i. jm_get (st_shared t) k = Some i \<longleftrightarrow> live t i \<and> ss_key (st_scans t ! i) = k"
  shows "table_inv t"
  using assms unfolding table_inv_def by blast

lemma table_inv_expire: "table_inv t \<Longrightarrow> i < length (st_scans t) \<Longrightarrow> table_inv (expire_scan i t)"
  unfolding table_inv_def expire_scan_def update_scan_def live_def waiting_on_def
  by (auto simp: nth_list_update)

lemma table_inv_settle:
  assumes inv: "table_inv t" and i: "i < length (st_scans t)" "\<not> ss_settled (st_scans t ! i)"
  shows "table_inv (settle_scan i t)"
proof -
  note d = table_invD [OF inv]
  let ?u = "settle_scan i t" let ?k = "ss_key (st_scans t ! i)"
  have scans: "st_scans ?u = (st_scans t)[i := (st_scans t ! i)\<lparr>ss_settled := True\<rparr>]"
    and waiting: "st_waiting ?u = st_waiting t"
    and shared: "st_shared ?u = (if jm_get (st_shared t) ?k = Some i then jm_delete ?k (st_shared t) else st_shared t)"
    using i by (simp_all add: settle_scan_def unshare_def update_scan_def Let_def)
  have live: "live ?u j \<longleftrightarrow> live t j \<and> j \<noteq> i" for j
    using i by (auto simp: live_def scans nth_list_update)
  have key: "ss_key (st_scans ?u ! j) = ss_key (st_scans t ! j)" for j
    using i by (cases "j = i") (simp_all add: scans)
  have "jm_get (st_shared ?u) k = Some j \<longleftrightarrow> live ?u j \<and> ss_key (st_scans ?u ! j) = k" for k j
  proof (cases "jm_get (st_shared t) ?k = Some i")
    case True
    then have "jm_get (st_shared ?u) k = (if ?k = k then None else jm_get (st_shared t) k)"
      by (simp add: shared jm_get_delete)
    then show ?thesis unfolding live key using True d(6) [of k j] by (cases "?k = k") auto
  next
    case False
    then have "\<not> live t i" using d(6) [of ?k i] by simp
    then show ?thesis unfolding live key shared using False d(6) [of k j] by auto
  qed
  moreover have on: "waiting_on ?u j = waiting_on t j" for j by (simp add: waiting_on_def waiting)
  moreover have "ss_waiters (st_scans ?u ! j) = ss_waiters (st_scans t ! j)"
    "ss_aborted (st_scans ?u ! j) = ss_aborted (st_scans t ! j)" for j
    using i by (cases "j = i"; simp add: scans)+
  moreover have "length (st_scans ?u) = length (st_scans t)" by (simp add: scans)
  moreover have "jm_ok (st_shared ?u)" unfolding shared using d(1) by (simp add: inv_intros)
  ultimately show ?thesis
    using d(2-5) by (intro table_invI) (simp_all only: waiting)
qed

lemma table_inv_join:
  assumes inv: "table_inv t" and r: "jm_get (st_waiting t) r = None"
  shows "table_inv (join_scan r key t)"
proof -
  note d = table_invD [OF inv]
  obtain i t' where it: "(case jm_get (st_shared t) key of Some i \<Rightarrow> (i, t) | None \<Rightarrow> start_scan key t) = (i, t')"
    by (metis surj_pair)
  let ?u = "join_scan r key t"
  have old: "waiting_on t (length (st_scans t)) = {}" using d(3) by (auto simp: waiting_on_def)
  have t': "st_waiting t' = st_waiting t" "i < length (st_scans t')" "jm_ok (st_shared t')"
    "\<And>j. j < length (st_scans t') \<Longrightarrow> ss_waiters (st_scans t' ! j) = card (waiting_on t j)"
    "\<And>j. j < length (st_scans t') \<Longrightarrow> j \<noteq> i \<Longrightarrow> ss_waiters (st_scans t' ! j) = 0 \<Longrightarrow> ss_aborted (st_scans t' ! j)"
    "\<And>r j. jm_get (st_waiting t) r = Some j \<Longrightarrow> j < length (st_scans t')"
    "\<And>k j. jm_get (st_shared t') k = Some j \<longleftrightarrow>
       j < length (st_scans t') \<and> (j = i \<or> live t' j) \<and> ss_key (st_scans t' ! j) = k"
    "\<not> ss_settled (st_scans t' ! i)"
  proof -
    consider (shared) "jm_get (st_shared t) key = Some i" "t' = t"
      | (fresh) "jm_get (st_shared t) key = None" "i = length (st_scans t)"
        "t' = t\<lparr>st_scans := st_scans t @ [\<lparr>ss_key = key, ss_waiters = 0, ss_aborted = False, ss_settled = False\<rparr>],
                st_shared := jm_set key i (st_shared t)\<rparr>"
      using it by (auto simp: start_scan_def Let_def split: option.splits)
    then have "st_waiting t' = st_waiting t \<and> i < length (st_scans t') \<and> jm_ok (st_shared t') \<and>
      (\<forall>j < length (st_scans t'). ss_waiters (st_scans t' ! j) = card (waiting_on t j)) \<and>
      (\<forall>j < length (st_scans t'). j \<noteq> i \<longrightarrow> ss_waiters (st_scans t' ! j) = 0 \<longrightarrow> ss_aborted (st_scans t' ! j)) \<and>
      (\<forall>r j. jm_get (st_waiting t) r = Some j \<longrightarrow> j < length (st_scans t')) \<and>
      (\<forall>k j. jm_get (st_shared t') k = Some j \<longleftrightarrow>
         j < length (st_scans t') \<and> (j = i \<or> live t' j) \<and> ss_key (st_scans t' ! j) = k) \<and>
      \<not> ss_settled (st_scans t' ! i)"
    proof cases
      case shared
      then have "live t i" "ss_key (st_scans t ! i) = key" using d(6) [of key i] by blast+
      then show ?thesis using shared d by (auto simp: live_def)
    next
      case fresh
      have lv: "live t' j \<longleftrightarrow> live t j" for j
        using fresh(3) by (auto simp: live_def nth_append)
      have ks: "j < length (st_scans t) \<Longrightarrow> ss_key (st_scans t' ! j) = ss_key (st_scans t ! j)" for j
        using fresh(3) by (simp add: nth_append)
      have sh: "jm_get (st_shared t') k = (if k = key then Some i else jm_get (st_shared t) k)" for k
        using fresh(3) by (simp add: jm_get_set)
      have len: "length (st_scans t') = Suc (length (st_scans t))" using fresh(3) by simp
      have keyi: "ss_key (st_scans t' ! i) = key" using fresh(2,3) by simp
      have nokey: "\<not> (live t j \<and> ss_key (st_scans t ! j) = key)" for j using d(6) [of key j] fresh(1) by simp
      have "jm_get (st_shared t') k = Some j \<longleftrightarrow>
         j < length (st_scans t') \<and> (j = i \<or> live t' j) \<and> ss_key (st_scans t' ! j) = k" for k j
      proof (cases "j = i")
        case True
        have "jm_get (st_shared t) k \<noteq> Some i" using d(6) [of k i] fresh(2) by (auto simp: live_def)
        then show ?thesis using True sh [of k] keyi len fresh(2) by auto
      next
        case False
        have "live t j \<Longrightarrow> j < length (st_scans t)" by (simp add: live_def)
        then show ?thesis using False sh [of k] lv [of j] ks [of j] nokey [of j] d(6) [of k j] len fresh(1)
          by auto
      qed
      moreover have "ss_waiters (st_scans t' ! j) = card (waiting_on t j)" if "j < length (st_scans t')" for j
        using that fresh(3) old d(4) [of j] len by (cases "j = length (st_scans t)") (simp_all add: nth_append)
      moreover have "ss_aborted (st_scans t' ! j)" if "j < length (st_scans t')" "j \<noteq> i" "ss_waiters (st_scans t' ! j) = 0" for j
        using that fresh(2,3) d(5) [of j] len by (simp add: nth_append)
      ultimately show ?thesis using fresh(2,3) d(1,3) len
        by (auto simp: inv_intros less_Suc_eq)
    qed
    then show "st_waiting t' = st_waiting t" "i < length (st_scans t')" "jm_ok (st_shared t')"
      "\<And>j. j < length (st_scans t') \<Longrightarrow> ss_waiters (st_scans t' ! j) = card (waiting_on t j)"
      "\<And>j. j < length (st_scans t') \<Longrightarrow> j \<noteq> i \<Longrightarrow> ss_waiters (st_scans t' ! j) = 0 \<Longrightarrow> ss_aborted (st_scans t' ! j)"
      "\<And>r j. jm_get (st_waiting t) r = Some j \<Longrightarrow> j < length (st_scans t')"
      "\<And>k j. jm_get (st_shared t') k = Some j \<longleftrightarrow>
         j < length (st_scans t') \<and> (j = i \<or> live t' j) \<and> ss_key (st_scans t' ! j) = k"
      "\<not> ss_settled (st_scans t' ! i)" by blast+
  qed
  have scans: "st_scans ?u = (st_scans t')[i := (st_scans t' ! i)\<lparr>ss_waiters := ss_waiters (st_scans t' ! i) + 1\<rparr>]"
    and waiting: "st_waiting ?u = jm_set r i (st_waiting t)" and shared: "st_shared ?u = st_shared t'"
    using it t'(1) by (simp_all add: join_scan_def update_scan_def)
  have len: "length (st_scans ?u) = length (st_scans t')" by (simp add: scans)
  have on: "waiting_on ?u j = (if j = i then insert r (waiting_on t i) else waiting_on t j)" for j
    using r by (auto simp: waiting_on_def waiting jm_get_set)
  have "r \<notin> waiting_on t i" using r by (simp add: waiting_on_def)
  then have card: "card (waiting_on ?u j) = (if j = i then Suc (card (waiting_on t i)) else card (waiting_on t j))" for j
    by (simp add: on finite_waiting)
  show ?thesis
  proof (rule table_invI)
    show "jm_ok (st_shared ?u)" using t'(3) shared by simp
    show "jm_ok (st_waiting ?u)" using d(2) waiting by (simp add: inv_intros)
    show "\<And>r' j. jm_get (st_waiting ?u) r' = Some j \<Longrightarrow> j < length (st_scans ?u)"
      using t'(2,6) unfolding len waiting jm_get_set by (auto split: if_splits)
    show "ss_waiters (st_scans ?u ! j) = card (waiting_on ?u j)" if "j < length (st_scans ?u)" for j
      using that t'(2,4) unfolding len card scans by (cases "j = i") simp_all
    show "ss_aborted (st_scans ?u ! j)" if "j < length (st_scans ?u)" "ss_waiters (st_scans ?u ! j) = 0" for j
      using that t'(2,5) unfolding len scans by (cases "j = i") simp_all
    show "jm_get (st_shared ?u) k = Some j \<longleftrightarrow> live ?u j \<and> ss_key (st_scans ?u ! j) = k" for k j
      using t'(2,8) unfolding shared t'(7) by (cases "j = i") (auto simp: live_def scans)
  qed
qed

lemma table_inv_leave:
  assumes inv: "table_inv t" and r: "jm_get (st_waiting t) r = Some i"
  shows "table_inv (leave_scan r t)"
proof -
  note d = table_invD [OF inv]
  let ?u = "leave_scan r t" let ?s = "st_scans t ! i"
  let ?last = "ss_waiters ?s - 1 = 0"
  have i: "i < length (st_scans t)" by (rule d(3) [OF r])
  have scans: "st_scans ?u = (st_scans t)[i := ?s\<lparr>ss_waiters := ss_waiters ?s - 1, ss_aborted := ss_aborted ?s \<or> ?last\<rparr>]"
    and waiting: "st_waiting ?u = jm_delete r (st_waiting t)"
    and shared: "st_shared ?u = (if ?last \<and> jm_get (st_shared t) (ss_key ?s) = Some i
       then jm_delete (ss_key ?s) (st_shared t) else st_shared t)"
    using r i by (simp_all add: leave_scan_def update_scan_def unshare_def Let_def)
  have len: "length (st_scans ?u) = length (st_scans t)" by (simp add: scans)
  have key: "ss_key (st_scans ?u ! j) = ss_key (st_scans t ! j)" for j
    using i by (cases "j = i") (simp_all add: scans)
  have in_r: "r \<in> waiting_on t i" using r by (simp add: waiting_on_def)
  have on: "waiting_on ?u j = (if j = i then waiting_on t i - {r} else waiting_on t j)" for j
    using r by (auto simp: waiting_on_def waiting jm_get_delete)
  have card: "card (waiting_on ?u j) = (if j = i then card (waiting_on t i) - 1 else card (waiting_on t j))" for j
    using in_r by (simp add: on finite_waiting)
  have live: "live ?u j \<longleftrightarrow> live t j \<and> \<not> (j = i \<and> ?last)" for j
    using i by (auto simp: live_def scans nth_list_update)
  show ?thesis
  proof (rule table_invI)
    show "jm_ok (st_shared ?u)" unfolding shared using d(1) by (simp add: inv_intros)
    show "jm_ok (st_waiting ?u)" unfolding waiting using d(2) by (simp add: inv_intros)
    show "\<And>r' j. jm_get (st_waiting ?u) r' = Some j \<Longrightarrow> j < length (st_scans ?u)"
      using d(3) unfolding len waiting jm_get_delete by (auto split: if_splits)
    show "ss_waiters (st_scans ?u ! j) = card (waiting_on ?u j)" if "j < length (st_scans ?u)" for j
      using that d(4) [of j] unfolding len card scans by (cases "j = i") simp_all
    show "ss_aborted (st_scans ?u ! j)" if "j < length (st_scans ?u)" "ss_waiters (st_scans ?u ! j) = 0" for j
      using that d(5) [of j] unfolding len scans by (cases "j = i") simp_all
    show "jm_get (st_shared ?u) k = Some j \<longleftrightarrow> live ?u j \<and> ss_key (st_scans ?u ! j) = k" for k j
    proof (cases "?last \<and> jm_get (st_shared t) (ss_key ?s) = Some i")
      case True
      then have "jm_get (st_shared ?u) k = (if ss_key ?s = k then None else jm_get (st_shared t) k)"
        by (simp add: shared jm_get_delete)
      then show ?thesis unfolding live key using True d(6) [of k j] by (cases "ss_key ?s = k") auto
    next
      case False
      then have "?last \<Longrightarrow> \<not> live t i" using d(6) [of "ss_key ?s" i] by simp
      then show ?thesis unfolding live key shared using False d(6) [of k j] by auto
    qed
  qed
qed

lemma table_inv_step: "table_inv t \<Longrightarrow> scan_step t t' \<Longrightarrow> table_inv t'"
  by (erule scan_stepE) (auto intro: table_inv_join table_inv_settle table_inv_expire table_inv_leave)

lemma reachable_inv: "reachable_table t \<Longrightarrow> table_inv t"
  by (induction rule: reachable_table.induct) (auto intro: table_inv_start table_inv_step)

section \<open>Property\<close>

text \<open>C10: However requests join, give up, and traversals settle or expire, identical lists share one
  traversal and none is orphaned: at most one unsettled traversal with waiters exists per key and a
  new request joins it; a traversal counts exactly the requests waiting on it; and a traversal no
  request waits on has been aborted.\<close>

theorem scans_shared_and_never_orphaned:
  assumes "reachable_table t"
  shows "(\<forall>i j. live t i \<and> live t j \<and> ss_key (st_scans t ! i) = ss_key (st_scans t ! j) \<longrightarrow> i = j) \<and>
    (\<forall>i < length (st_scans t). ss_waiters (st_scans t ! i) = card {r. jm_get (st_waiting t) r = Some i}) \<and>
    (\<forall>i < length (st_scans t). {r. jm_get (st_waiting t) r = Some i} = {} \<longrightarrow> ss_aborted (st_scans t ! i)) \<and>
    (\<forall>i r. live t i \<longrightarrow> jm_get (st_waiting (join_scan r (ss_key (st_scans t ! i)) t)) r = Some i)"
proof -
  note d = table_invD [OF reachable_inv [OF assms]]
  have "i = j" if "live t i" "live t j" "ss_key (st_scans t ! i) = ss_key (st_scans t ! j)" for i j
    using that d(6) [of "ss_key (st_scans t ! j)" i] d(6) [of "ss_key (st_scans t ! j)" j] by simp
  moreover have "jm_get (st_waiting (join_scan r (ss_key (st_scans t ! i)) t)) r = Some i" if "live t i" for i r
    using that d(6) [of "ss_key (st_scans t ! i)" i] by (simp add: join_scan_def update_scan_def jm_get_set)
  moreover have "ss_aborted (st_scans t ! i)" if "i < length (st_scans t)" "waiting_on t i = {}" for i
    using that d(4) [of i] d(5) [of i] by simp
  ultimately show ?thesis using d(4) unfolding waiting_on_def by blast
qed

definition sample_table :: "string scan_table" where
  "sample_table = join_scan 2 ''k'' (leave_scan 1 (join_scan 1 ''k'' no_scans))"

lemmas table_eval = join_scan_def leave_scan_def start_scan_def update_scan_def unshare_def no_scans_def Let_def
  jm_set_def jm_delete_def

lemma sample_table_eq: "sample_table =
  \<lparr>st_scans = [\<lparr>ss_key = ''k'', ss_waiters = 0, ss_aborted = True, ss_settled = False\<rparr>,
                \<lparr>ss_key = ''k'', ss_waiters = 1, ss_aborted = False, ss_settled = False\<rparr>],
    st_shared = [(''k'', 1)], st_waiting = [(2, 1)]\<rparr>"
  by (simp add: sample_table_def table_eval)

lemma sample_reachable: "reachable_table sample_table"
  unfolding sample_table_def
proof (rule reachable_table.step [OF reachable_table.step [OF reachable_table.step [OF reachable_table.start]]])
  show "scan_step no_scans (join_scan 1 ''k'' no_scans)" by (rule scan_step.join) (simp add: no_scans_def)
  show "scan_step (join_scan 1 ''k'' no_scans) (leave_scan 1 (join_scan 1 ''k'' no_scans))"
    by (rule scan_step.leave [where i = 0]) (simp add: table_eval)
  show "scan_step (leave_scan 1 (join_scan 1 ''k'' no_scans)) (join_scan 2 ''k'' (leave_scan 1 (join_scan 1 ''k'' no_scans)))"
    by (rule scan_step.join) (simp add: table_eval)
qed

theorem scans_shared_and_never_orphaned_witness:
  "length (st_scans sample_table) = 2 \<and> ss_aborted (st_scans sample_table ! 0) \<and> live sample_table 1"
proof -
  have shape: "length (st_scans sample_table) = 2" "live sample_table 1"
    "{r. jm_get (st_waiting sample_table) r = Some 0} = {}"
    by (simp_all add: sample_table_eq live_def)
  then show ?thesis using scans_shared_and_never_orphaned [OF sample_reachable] by simp
qed

end
