(* ===== verification/NetAddr.thy ===== *)
theory NetAddr
  imports JsString
begin

text \<open>
  Addresses: \<open>isIP\<close> of \<open>node:net\<close>, the CIDR syntax of \<open>server/cidr.ts\<close>, and which admin
  origins may carry a secret (\<open>shared/admin-origin.js\<close>). Parsing a URL is the platform's;
  its result is the record \<open>parsed_url\<close>.
\<close>

section \<open>isIP\<close>

definition octet :: "string \<Rightarrow> bool" where
  "octet s \<longleftrightarrow> s \<noteq> [] \<and> length s \<le> 3 \<and> list_all digit s \<and> (length s = 1 \<or> hd s \<noteq> CHR ''0'') \<and> decimal s \<le> 255"

definition is_ipv4 :: "string \<Rightarrow> bool" where
  "is_ipv4 s \<longleftrightarrow> length (split_on CHR ''.'' s) = 4 \<and> list_all octet (split_on CHR ''.'' s)"

definition hex_char :: "char \<Rightarrow> bool" where
  "hex_char c \<longleftrightarrow> digit c \<or> (97 \<le> (of_char c :: nat) \<and> (of_char c :: nat) \<le> 102) \<or>
     (65 \<le> (of_char c :: nat) \<and> (of_char c :: nat) \<le> 70)"

definition hex_group :: "string \<Rightarrow> bool" where
  "hex_group s \<longleftrightarrow> s \<noteq> [] \<and> length s \<le> 4 \<and> list_all hex_char s"

text \<open>The number of 16-bit groups a colon-separated list stands for; a dotted quad may end it.\<close>

fun group_count :: "bool \<Rightarrow> string list \<Rightarrow> nat option" where
  "group_count quad [] = Some 0"
| "group_count quad [g] =
     (if hex_group g then Some 1 else if quad \<and> is_ipv4 g then Some 2 else None)"
| "group_count quad (g # gs) = (if hex_group g then map_option Suc (group_count quad gs) else None)"

fun split_double_colon :: "string \<Rightarrow> string \<Rightarrow> (string \<times> string) option" where
  "split_double_colon acc (a # b # s) =
     (if a = CHR '':'' \<and> b = CHR '':'' then Some (rev acc, s) else split_double_colon (a # acc) (b # s))"
| "split_double_colon acc _ = None"

definition groups_of :: "string \<Rightarrow> string list" where
  "groups_of s = (if s = [] then [] else split_on CHR '':'' s)"

definition zone_char :: "char \<Rightarrow> bool" where
  "zone_char c \<longleftrightarrow> digit c \<or> letter c \<or> c \<in> {CHR ''-'', CHR ''.'', CHR '':''}"

definition is_ipv6_address :: "string \<Rightarrow> bool" where
  "is_ipv6_address s =
     (case split_double_colon [] s of
        None \<Rightarrow> group_count True (groups_of s) = Some 8
      | Some (l, r) \<Rightarrow>
          (case (group_count False (groups_of l), group_count True (groups_of r)) of
             (Some m, Some n) \<Rightarrow> m + n \<le> 7
           | _ \<Rightarrow> False))"

definition is_ipv6 :: "string \<Rightarrow> bool" where
  "is_ipv6 s =
     (case split_on CHR ''%'' s of
        [a] \<Rightarrow> is_ipv6_address a
      | [a, z] \<Rightarrow> is_ipv6_address a \<and> z \<noteq> [] \<and> list_all zone_char z
      | _ \<Rightarrow> False)"

definition is_ip :: "string \<Rightarrow> nat" where
  "is_ip s = (if is_ipv4 s then 4 else if is_ipv6 s then 6 else 0)"

section \<open>CIDR ranges\<close>

datatype ip_family = IPv4 | IPv6

record cidr =
  cd_address :: string
  cd_prefix :: nat
  cd_family :: ip_family

definition prefix_length :: "string \<Rightarrow> bool" where
  "prefix_length s \<longleftrightarrow> s = ''0'' \<or>
     (s \<noteq> [] \<and> length s \<le> 3 \<and> list_all digit s \<and> hd s \<noteq> CHR ''0'')"

definition parse_cidr :: "string \<Rightarrow> cidr option" where
  "parse_cidr value =
     (let parts = split_on CHR ''/'' (js_trim value);
          address = hd parts; family = is_ip address in
      case tl parts of
        [raw_prefix] \<Rightarrow>
          if family = 0 \<or> \<not> prefix_length raw_prefix then None
          else if (if family = 4 then 32 else 128) < decimal raw_prefix then None
          else Some \<lparr>cd_address = address, cd_prefix = decimal raw_prefix,
                     cd_family = (if family = 4 then IPv4 else IPv6)\<rparr>
      | _ \<Rightarrow> None)"

section \<open>Admin origins\<close>

record parsed_url =
  ur_protocol :: string
  ur_username :: string
  ur_password :: string
  ur_hostname :: string
  ur_pathname :: string
  ur_search :: string
  ur_hash :: string
  ur_origin :: string
  ur_href :: string

definition strip_brackets :: "string \<Rightarrow> string" where
  "strip_brackets h =
     (let a = (case h of c # t \<Rightarrow> if c = CHR ''['' then t else h | [] \<Rightarrow> []) in
      if a \<noteq> [] \<and> last a = CHR '']'' then butlast a else a)"

definition is_loopback_admin_origin :: "parsed_url option \<Rightarrow> bool" where
  "is_loopback_admin_origin parsed =
     (case parsed of
        None \<Rightarrow> False
      | Some u \<Rightarrow>
          let host = strip_brackets (ur_hostname u) in
          host = ''localhost'' \<or> (is_ip host = 4 \<and> starts_with ''127.'' host) \<or> host = ''::1'')"

definition may_carry_secret :: "parsed_url option \<Rightarrow> bool" where
  "may_carry_secret parsed =
     (case parsed of
        None \<Rightarrow> False
      | Some u \<Rightarrow> ur_protocol u = ''https:'' \<or>
                  (ur_protocol u = ''http:'' \<and> is_loopback_admin_origin (Some u)))"

end
