(* ===== verification/Config.thy ===== *)
theory Config
  imports AuthTypes Namespaces NetAddr WaitBudget
begin

text \<open>
  The BFF's configuration (\<open>server/config.ts\<close>): every parser of an environment setting, the
  whole of \<open>parseBaseConfig\<close>, and what every accepted configuration satisfies. The environment is a partial map. The
  URL parser, the path functions and the reading of a CA bundle are the platform's and given by
  the record \<open>platform\<close>. An error names the setting and the reason.
\<close>

datatype config_reason =
    NotSet | NotBoolean | NotInteger | OutOfRange | NotARole | NoNamespace | WildcardCombined
  | InvalidNamespace | InvalidUrl | NotHttp | HasCredentials | NotAnOrigin | InsecureOrigin
  | TlsUnverified | InvalidCidr | InvalidAddress | TooShort | InvalidHeader | ReservedHeader
  | ReusedHeader | InvalidRedirect | Exceeds | NotAMode | StaticInProduction | CaUnreadable
  | OriginsRequired | Disabled | NotAllowed | WrongType

type_synonym 'a cfg = "(string \<times> config_reason) + 'a"

definition cfg_bind :: "'a cfg \<Rightarrow> ('a \<Rightarrow> 'b cfg) \<Rightarrow> 'b cfg" where
  "cfg_bind x f = (case x of Inl e \<Rightarrow> Inl e | Inr a \<Rightarrow> f a)"

lemma cfg_bind_Inr [simp]: "cfg_bind x f = Inr b \<longleftrightarrow> (\<exists>a. x = Inr a \<and> f a = Inr b)"
  by (cases x) (auto simp: cfg_bind_def)

definition cfg_check :: "bool \<Rightarrow> string \<Rightarrow> config_reason \<Rightarrow> 'a cfg \<Rightarrow> 'a cfg" where
  "cfg_check ok name reason k = (if ok then k else Inl (name, reason))"

lemma cfg_check_Inr [simp]: "cfg_check ok name reason k = Inr b \<longleftrightarrow> ok \<and> k = Inr b"
  by (simp add: cfg_check_def)

record platform =
  pl_url :: "string \<Rightarrow> parsed_url option"
  pl_ca :: "string \<Rightarrow> string option \<Rightarrow> bool"
  pl_dirname :: "string \<Rightarrow> string"
  pl_resolve :: "string \<Rightarrow> string"

type_synonym env = "string \<Rightarrow> string option"

section \<open>Settings\<close>

definition optional_env :: "env \<Rightarrow> string \<Rightarrow> string option" where
  "optional_env env name =
     (case env name of None \<Rightarrow> None | Some v \<Rightarrow> if js_trim v = [] then None else Some (js_trim v))"

definition require_env :: "env \<Rightarrow> string \<Rightarrow> string cfg" where
  "require_env env name =
     (case optional_env env name of None \<Rightarrow> Inl (name, NotSet) | Some v \<Rightarrow> Inr v)"

definition require_exact_env :: "env \<Rightarrow> string \<Rightarrow> string cfg" where
  "require_exact_env env name =
     (case env name of
        None \<Rightarrow> Inl (name, NotSet)
      | Some v \<Rightarrow> if js_trim v = [] then Inl (name, NotSet) else Inr v)"

definition parse_boolean :: "env \<Rightarrow> string \<Rightarrow> bool \<Rightarrow> bool cfg" where
  "parse_boolean env name fallback =
     (case optional_env env name of
        None \<Rightarrow> Inr fallback
      | Some raw \<Rightarrow>
          if raw = ''true'' then Inr True
          else if raw = ''false'' then Inr False
          else Inl (name, NotBoolean))"

definition integer_text :: "string \<Rightarrow> int option" where
  "integer_text raw =
     (case raw of
        c # rest \<Rightarrow>
          if c = CHR ''-'' then (if rest \<noteq> [] \<and> list_all digit rest then Some (- int (decimal rest)) else None)
          else if list_all digit raw then Some (int (decimal raw)) else None
      | [] \<Rightarrow> None)"

definition parse_integer :: "env \<Rightarrow> string \<Rightarrow> int \<Rightarrow> int \<Rightarrow> int \<Rightarrow> int cfg" where
  "parse_integer env name fallback minimum maximum =
     (case optional_env env name of
        None \<Rightarrow> Inr fallback
      | Some raw \<Rightarrow>
          (case integer_text raw of
             None \<Rightarrow> Inl (name, NotInteger)
           | Some v \<Rightarrow>
               if max_safe < \<bar>v\<bar> \<or> v < minimum \<or> maximum < v then Inl (name, OutOfRange) else Inr v))"

lemma parse_integer_bounds:
  "parse_integer env name fallback lo hi = Inr v \<Longrightarrow> v = fallback \<or> (lo \<le> v \<and> v \<le> hi)"
  by (auto simp: parse_integer_def split: option.splits if_splits)

definition parse_role :: "string \<Rightarrow> string \<Rightarrow> gateway_role cfg" where
  "parse_role value name =
     (if value = ''viewer'' then Inr Viewer
      else if value = ''operator'' then Inr Operator
      else if value = ''admin'' then Inr Admin
      else Inl (name, NotARole))"

definition parse_list :: "string option \<Rightarrow> string list option" where
  "parse_list value =
     (case value of
        None \<Rightarrow> None
      | Some v \<Rightarrow>
          if v = [] then None
          else let values = js_unique (filter (\<lambda>e. e \<noteq> []) (map js_trim (split_on CHR '','' v))) in
            if values = [] then None else Some values)"

text \<open>One audience is passed on as a string, several as an array; both are the list of them.\<close>

definition parse_audience :: "string option \<Rightarrow> string list option" where
  "parse_audience value = parse_list value"

definition parse_namespace_grants :: "string list \<Rightarrow> string \<Rightarrow> string list option cfg" where
  "parse_namespace_grants entries name =
     (let values = js_unique (filter (\<lambda>e. e \<noteq> []) (map js_trim entries)) in
      if values = [] then Inl (name, NoNamespace)
      else if ''*'' \<in> set values
      then (if length values = 1 then Inr None else Inl (name, WildcardCombined))
      else if list_ex (\<lambda>n. \<not> is_namespace_name (cps n)) values then Inl (name, InvalidNamespace)
      else Inr (Some values))"

definition parse_env_namespace_grants :: "env \<Rightarrow> auth_mode \<Rightarrow> string list option cfg" where
  "parse_env_namespace_grants env mode =
     (case env ''FERRUM_JWT_NAMESPACES'' of
        None \<Rightarrow> (if mode = StaticMode then Inl (''FERRUM_JWT_NAMESPACES'', NotSet) else Inr None)
      | Some raw \<Rightarrow> parse_namespace_grants (split_on CHR '','' raw) ''FERRUM_JWT_NAMESPACES'')"

definition normalize_admin_url :: "platform \<Rightarrow> string \<Rightarrow> string \<Rightarrow> string cfg" where
  "normalize_admin_url pl value name =
     (case pl_url pl value of
        None \<Rightarrow> Inl (name, InvalidUrl)
      | Some u \<Rightarrow>
          if ur_protocol u \<noteq> ''http:'' \<and> ur_protocol u \<noteq> ''https:'' then Inl (name, NotHttp)
          else if ur_username u \<noteq> [] \<or> ur_password u \<noteq> [] then Inl (name, HasCredentials)
          else if ur_pathname u \<noteq> ''/'' \<or> ur_search u \<noteq> [] \<or> ur_hash u \<noteq> [] then Inl (name, NotAnOrigin)
          else Inr (ur_origin u))"

definition is_secure_admin_origin :: "platform \<Rightarrow> string \<Rightarrow> bool" where
  "is_secure_admin_origin pl origin = may_carry_secret (pl_url pl origin)"

definition assert_secure_admin_origin :: "platform \<Rightarrow> string \<Rightarrow> string \<Rightarrow> bool \<Rightarrow> string cfg" where
  "assert_secure_admin_origin pl origin name required =
     (if required \<and> \<not> is_secure_admin_origin pl origin then Inl (name, InsecureOrigin) else Inr origin)"

definition assert_tls_verification :: "platform \<Rightarrow> string \<Rightarrow> bool \<Rightarrow> bool \<Rightarrow> unit cfg" where
  "assert_tls_verification pl origin tls_verify required =
     (if required \<and> \<not> tls_verify \<and> \<not> is_loopback_admin_origin (pl_url pl origin)
      then Inl (''FERRUM_TLS_VERIFY'', TlsUnverified) else Inr ())"

fun map_cfg :: "('a \<Rightarrow> 'b cfg) \<Rightarrow> 'a list \<Rightarrow> 'b list cfg" where
  "map_cfg f [] = Inr []"
| "map_cfg f (x # xs) = cfg_bind (f x) (\<lambda>y. cfg_bind (map_cfg f xs) (\<lambda>ys. Inr (y # ys)))"

lemma map_cfg_Inr: "map_cfg f xs = Inr ys \<Longrightarrow> y \<in> set ys \<Longrightarrow> \<exists>x \<in> set xs. f x = Inr y"
  by (induction xs arbitrary: ys) auto

definition parse_origins :: "platform \<Rightarrow> string option \<Rightarrow> bool \<Rightarrow> string list cfg" where
  "parse_origins pl value require_secure =
     map_cfg (\<lambda>entry. cfg_bind (normalize_admin_url pl entry ''FERRUM_ADMIN_ALLOWED_ORIGINS'')
         (\<lambda>origin. assert_secure_admin_origin pl origin ''FERRUM_ADMIN_ALLOWED_ORIGINS'' require_secure))
       (case parse_list value of Some xs \<Rightarrow> xs | None \<Rightarrow> [])"

definition parse_cidrs :: "string option \<Rightarrow> string list cfg" where
  "parse_cidrs value =
     (let cidrs = (case parse_list value of Some xs \<Rightarrow> xs | None \<Rightarrow> []) in
      if list_ex (\<lambda>c. parse_cidr c = None) cidrs
      then Inl (''FERRUM_ADMIN_ALLOWED_CIDRS'', InvalidCidr) else Inr cidrs)"

definition parse_bind_address :: "string option \<Rightarrow> string cfg" where
  "parse_bind_address value =
     (let address = (case value of Some v \<Rightarrow> v | None \<Rightarrow> ''0.0.0.0'') in
      if address = ''localhost'' \<or> is_ip address \<noteq> 0 then Inr address
      else Inl (''FERRUM_BIND_ADDRESS'', InvalidAddress))"

definition utf8_length :: "string \<Rightarrow> nat" where
  "utf8_length s = sum_list (map (\<lambda>c. length (utf8 (of_char c))) s)"

definition min_secret_length :: nat where
  "min_secret_length = 32"

definition validate_signing_key :: "string \<Rightarrow> string \<Rightarrow> string cfg" where
  "validate_signing_key value name =
     (if utf8_length value < min_secret_length then Inl (name, TooShort) else Inr value)"

definition validate_secret :: "string \<Rightarrow> string \<Rightarrow> string cfg" where
  "validate_secret value name =
     (if length value < min_secret_length then Inl (name, TooShort) else Inr value)"

section \<open>Identity headers\<close>

definition trusted_proxy_secret_header :: string where
  "trusted_proxy_secret_header = ''x-ferrum-auth-secret''"

definition gateway_target_header :: string where
  "gateway_target_header = ''x-foundry-gateway-target''"

definition reserved_identity_headers :: "string list" where
  "reserved_identity_headers =
     [''accept'', ''authorization'', ''connection'', ''content-length'', ''content-type'', ''cookie'',
      ''forwarded'', ''host'', ''if-match'', ''if-none-match'', ''keep-alive'', ''origin'', ''prefer'',
      ''proxy-authenticate'', ''proxy-authorization'', ''proxy-connection'', ''range'', ''referer'',
      ''set-cookie'', ''te'', ''trailer'', ''transfer-encoding'', ''upgrade'', ''www-authenticate'',
      ''x-csrf-token'', ''x-ferrum-namespace'', ''x-forwarded-for'', ''x-forwarded-host'',
      ''x-forwarded-proto'', ''x-real-ip'', gateway_target_header]"

definition header_char :: "char \<Rightarrow> bool" where
  "header_char c \<longleftrightarrow> digit c \<or> letter c \<or>
     c \<in> {CHR ''!'', CHR ''#'', CHR ''$'', CHR ''%'', CHR ''&'', CHR 0x27, CHR ''*'', CHR ''+'',
          CHR ''.'', CHR ''^'', CHR ''_'', CHR 0x60, CHR ''|'', CHR 0x7E, CHR ''-''}"

definition validate_header_name :: "string \<Rightarrow> string \<Rightarrow> string cfg" where
  "validate_header_name value name =
     (let normalized = js_lower value in
      if normalized = [] \<or> \<not> list_all header_char normalized then Inl (name, InvalidHeader)
      else if normalized \<in> set reserved_identity_headers then Inl (name, ReservedHeader)
      else Inr normalized)"

fun claim_headers :: "string list \<Rightarrow> (string \<times> string) list \<Rightarrow> unit cfg" where
  "claim_headers claimed [] = Inr ()"
| "claim_headers claimed ((name, header) # rest) =
     (if header \<in> set claimed then Inl (name, ReusedHeader) else claim_headers (header # claimed) rest)"

definition parse_trusted_proxy_headers :: "env \<Rightarrow> (string \<times> string \<times> string) cfg" where
  "parse_trusted_proxy_headers env =
     (let header = (\<lambda>name fallback. validate_header_name
            (case optional_env env name of Some v \<Rightarrow> v | None \<Rightarrow> fallback) name) in
      cfg_bind (header ''FERRUM_TRUSTED_PROXY_USER_HEADER'' ''x-forwarded-user'') (\<lambda>user.
      cfg_bind (header ''FERRUM_TRUSTED_PROXY_ROLE_HEADER'' ''x-ferrum-role'') (\<lambda>role.
      cfg_bind (header ''FERRUM_TRUSTED_PROXY_NAMESPACES_HEADER'' ''x-ferrum-namespaces'') (\<lambda>namespaces.
      cfg_bind (claim_headers [trusted_proxy_secret_header]
          [(''FERRUM_TRUSTED_PROXY_USER_HEADER'', user), (''FERRUM_TRUSTED_PROXY_ROLE_HEADER'', role),
           (''FERRUM_TRUSTED_PROXY_NAMESPACES_HEADER'', namespaces)]) (\<lambda>_.
      Inr (user, role, namespaces))))))"

definition parse_auth_redirect :: "platform \<Rightarrow> string option \<Rightarrow> string \<Rightarrow> string option cfg" where
  "parse_auth_redirect pl value name =
     (case value of
        None \<Rightarrow> Inr None
      | Some v \<Rightarrow>
          if v = [] then Inr None
          else if starts_with ''/'' v \<and> \<not> starts_with ''//'' v \<and> CHR 0x5C \<notin> set v then Inr (Some v)
          else (case pl_url pl v of
                  None \<Rightarrow> Inl (name, InvalidRedirect)
                | Some u \<Rightarrow>
                    if ur_protocol u \<noteq> ''https:'' \<or> ur_username u \<noteq> [] \<or> ur_password u \<noteq> []
                    then Inl (name, InvalidRedirect) else Inr (Some (ur_href u))))"

section \<open>The configuration\<close>

record config =
  cf_admin_url :: string
  cf_initial_admin_origin :: string
  cf_admin_allowed_origins :: "string list"
  cf_admin_allowed_cidrs :: "string list"
  cf_require_secure :: bool
  cf_jwt_secret :: string
  cf_jwt_issuer :: string
  cf_jwt_ttl :: int
  cf_jwt_max_ttl :: int
  cf_jwt_role :: gateway_role
  cf_jwt_audience :: "string list option"
  cf_jwt_namespaces :: "string list option"
  cf_tls_ca_path :: "string option"
  cf_tls_ca_root :: "string option"
  cf_tls_verify :: bool
  cf_connect_timeout :: int
  cf_read_timeout :: int
  cf_write_timeout :: int
  cf_upload_timeout :: int
  cf_port :: int
  cf_bind_address :: string
  cf_shutdown_timeout :: int
  cf_max_large_uploads :: int
  cf_max_active_uploads :: int
  cf_max_uploads_per_principal :: int
  cf_max_large_uploads_per_principal :: int
  cf_max_active_long_reads :: int
  cf_max_long_reads_per_principal :: int
  cf_namespace_scan_max_pages :: int
  cf_gateway_max_connections :: int
  cf_allow_runtime_settings :: bool
  cf_auth_mode :: auth_mode
  cf_bff_auth_token :: "string option"
  cf_session_ttl :: int
  cf_auth_max_failures :: int
  cf_auth_lockout_seconds :: int
  cf_trusted_proxy_secret :: "string option"
  cf_user_header :: string
  cf_role_header :: string
  cf_namespaces_header :: string
  cf_auth_login_url :: "string option"
  cf_auth_logout_url :: "string option"
  cf_secure_cookies :: bool
  cf_enable_hsts :: bool

definition parse_auth_mode :: "env \<Rightarrow> auth_mode cfg" where
  "parse_auth_mode env =
     (let raw = (case optional_env env ''FERRUM_AUTH_MODE'' of Some v \<Rightarrow> v | None \<Rightarrow> ''static'') in
      if raw = ''static'' then Inr StaticMode
      else if raw = ''trusted-proxy'' then Inr TrustedProxy
      else Inl (''FERRUM_AUTH_MODE'', NotAMode))"

definition min_gateway_connection_headroom :: int where
  "min_gateway_connection_headroom = 16"

text \<open>The middle of \<open>parseBaseConfig\<close>: the pools and the connection ceiling they share, in the order
  active uploads, large uploads, their two shares, long reads, their share, connections.\<close>

definition parse_pools :: "env \<Rightarrow> (int \<times> int \<times> int \<times> int \<times> int \<times> int \<times> int) cfg" where
  "parse_pools env =
     cfg_bind (parse_integer env ''FERRUM_MAX_ACTIVE_UPLOADS'' 32 1 1024) (\<lambda>active.
     cfg_bind (parse_integer env ''FERRUM_MAX_LARGE_UPLOADS'' 2 1 32) (\<lambda>large.
     cfg_check (large \<le> active) ''FERRUM_MAX_LARGE_UPLOADS'' Exceeds (
     cfg_bind (parse_integer env ''FERRUM_MAX_UPLOADS_PER_PRINCIPAL'' (min 8 active) 1 1024) (\<lambda>share.
     cfg_check (share \<le> active) ''FERRUM_MAX_UPLOADS_PER_PRINCIPAL'' Exceeds (
     cfg_bind (parse_integer env ''FERRUM_MAX_LARGE_UPLOADS_PER_PRINCIPAL'' 1 1 32) (\<lambda>large_share.
     cfg_check (large_share \<le> large) ''FERRUM_MAX_LARGE_UPLOADS_PER_PRINCIPAL'' Exceeds (
     cfg_check (large_share \<le> share) ''FERRUM_MAX_LARGE_UPLOADS_PER_PRINCIPAL'' Exceeds (
     cfg_bind (parse_integer env ''FERRUM_MAX_ACTIVE_LONG_READS'' 32 1 1024) (\<lambda>reads.
     cfg_bind (parse_integer env ''FERRUM_MAX_LONG_READS_PER_PRINCIPAL'' 8 1 1024) (\<lambda>read_share.
     cfg_check (read_share \<le> reads) ''FERRUM_MAX_LONG_READS_PER_PRINCIPAL'' Exceeds (
     cfg_bind (parse_integer env ''FERRUM_MAX_GATEWAY_CONNECTIONS'' (reads + active + 64) 1 4096) (\<lambda>connections.
     cfg_check (reads + active + min_gateway_connection_headroom \<le> connections)
       ''FERRUM_MAX_GATEWAY_CONNECTIONS'' Exceeds (
     Inr (active, large, share, large_share, reads, read_share, connections))))))))))))))"

definition parse_base_config :: "platform \<Rightarrow> env \<Rightarrow> config cfg" where
  "parse_base_config pl env =
     (let is_production = (env ''NODE_ENV'' = Some ''production'') in
     cfg_bind (if is_production then cfg_bind (parse_boolean env ''FERRUM_ALLOW_INSECURE_ADMIN_HTTP'' False) (\<lambda>b. Inr (\<not> b))
               else Inr False) (\<lambda>require_secure.
     cfg_bind (require_env env ''FERRUM_ADMIN_URL'') (\<lambda>raw_url.
     cfg_bind (normalize_admin_url pl raw_url ''FERRUM_ADMIN_URL'') (\<lambda>origin.
     cfg_bind (assert_secure_admin_origin pl origin ''FERRUM_ADMIN_URL'' require_secure) (\<lambda>admin_url.
     cfg_bind (require_exact_env env ''FERRUM_JWT_SECRET'') (\<lambda>raw_secret.
     cfg_bind (validate_signing_key raw_secret ''FERRUM_JWT_SECRET'') (\<lambda>jwt_secret.
     cfg_bind (parse_integer env ''FERRUM_JWT_MAX_TTL'' 3600 0 86400) (\<lambda>jwt_max_ttl.
     cfg_bind (parse_integer env ''FERRUM_JWT_TTL'' 900 1 86400) (\<lambda>jwt_ttl.
     cfg_check (jwt_max_ttl = 0 \<or> jwt_ttl \<le> jwt_max_ttl) ''FERRUM_JWT_TTL'' Exceeds (
     cfg_bind (parse_auth_mode env) (\<lambda>auth_mode.
     cfg_bind (if is_production \<and> auth_mode = StaticMode
               then parse_boolean env ''FERRUM_ALLOW_INSECURE_STATIC_AUTH'' False else Inr True) (\<lambda>static_ok.
     cfg_check static_ok ''FERRUM_AUTH_MODE'' StaticInProduction (
     cfg_bind (if auth_mode = StaticMode
               then cfg_bind (require_env env ''FERRUM_BFF_AUTH_TOKEN'')
                      (\<lambda>v. cfg_bind (validate_secret v ''FERRUM_BFF_AUTH_TOKEN'') (\<lambda>t. Inr (Some t)))
               else Inr None) (\<lambda>bff_auth_token.
     cfg_bind (if auth_mode = TrustedProxy
               then cfg_bind (require_env env ''FERRUM_TRUSTED_PROXY_SECRET'')
                      (\<lambda>v. cfg_bind (validate_secret v ''FERRUM_TRUSTED_PROXY_SECRET'') (\<lambda>t. Inr (Some t)))
               else Inr None) (\<lambda>trusted_proxy_secret.
     let tls_ca_path = optional_env env ''FERRUM_TLS_CA_PATH'';
         tls_ca_root = (case optional_env env ''FERRUM_TLS_CA_ROOT'' of
                          Some r \<Rightarrow> Some r | None \<Rightarrow> map_option (pl_dirname pl) tls_ca_path) in
     cfg_check (case tls_ca_path of None \<Rightarrow> True | Some path \<Rightarrow> pl_ca pl path tls_ca_root)
       ''FERRUM_TLS_CA_PATH'' CaUnreadable (
     cfg_bind (parse_pools env) (\<lambda>(active, large, share, large_share, reads, read_share, connections).
     cfg_bind (parse_boolean env ''FERRUM_ALLOW_RUNTIME_SETTINGS'' False) (\<lambda>allow_runtime_settings.
     cfg_bind (parse_origins pl (optional_env env ''FERRUM_ADMIN_ALLOWED_ORIGINS'') require_secure) (\<lambda>allowed_origins.
     cfg_check (\<not> (allow_runtime_settings \<and> allowed_origins = [])) ''FERRUM_ADMIN_ALLOWED_ORIGINS'' OriginsRequired (
     cfg_bind (parse_boolean env ''FERRUM_TLS_VERIFY'' True) (\<lambda>tls_verify.
     cfg_bind (assert_tls_verification pl admin_url tls_verify require_secure) (\<lambda>_.
     cfg_bind (parse_boolean env ''FERRUM_SECURE_COOKIES'' is_production) (\<lambda>secure_cookies.
     cfg_bind (parse_boolean env ''FERRUM_ENABLE_HSTS'' secure_cookies) (\<lambda>enable_hsts.
     cfg_bind (parse_cidrs (optional_env env ''FERRUM_ADMIN_ALLOWED_CIDRS'')) (\<lambda>allowed_cidrs.
     cfg_bind (parse_role (case optional_env env ''FERRUM_JWT_ROLE'' of Some v \<Rightarrow> v | None \<Rightarrow> ''admin'') ''FERRUM_JWT_ROLE'') (\<lambda>jwt_role.
     cfg_bind (parse_env_namespace_grants env auth_mode) (\<lambda>jwt_namespaces.
     cfg_bind (parse_integer env ''FERRUM_CONNECT_TIMEOUT'' 5000 100 300000) (\<lambda>connect_timeout.
     cfg_bind (parse_integer env ''FERRUM_READ_TIMEOUT'' (int DEFAULT_RESPONSE_TIMEOUT) 100 3600000) (\<lambda>read_timeout.
     cfg_bind (parse_integer env ''FERRUM_WRITE_TIMEOUT'' (int DEFAULT_WRITE_TIMEOUT) 100 3600000) (\<lambda>write_timeout.
     cfg_bind (parse_integer env ''FERRUM_UPLOAD_TIMEOUT'' (int DEFAULT_UPLOAD_TIMEOUT) 1000 3600000) (\<lambda>upload_timeout.
     cfg_bind (parse_integer env ''PORT'' 3001 1 65535) (\<lambda>port.
     cfg_bind (parse_bind_address (optional_env env ''FERRUM_BIND_ADDRESS'')) (\<lambda>bind_address.
     cfg_bind (parse_integer env ''FERRUM_SHUTDOWN_TIMEOUT'' 10000 1000 300000) (\<lambda>shutdown_timeout.
     cfg_bind (parse_integer env ''FERRUM_NAMESPACE_SCAN_MAX_PAGES'' 50 1 1000) (\<lambda>scan_max_pages.
     cfg_bind (parse_integer env ''FERRUM_SESSION_TTL'' 3600 60 86400) (\<lambda>session_ttl.
     cfg_bind (parse_integer env ''FERRUM_AUTH_MAX_FAILURES'' 10 0 1000) (\<lambda>auth_max_failures.
     cfg_bind (parse_integer env ''FERRUM_AUTH_LOCKOUT_SECONDS'' 60 1 3600) (\<lambda>auth_lockout_seconds.
     cfg_bind (parse_trusted_proxy_headers env) (\<lambda>(user, role, namespaces).
     cfg_bind (parse_auth_redirect pl (optional_env env ''FERRUM_AUTH_LOGIN_URL'') ''FERRUM_AUTH_LOGIN_URL'') (\<lambda>login_url.
     cfg_bind (parse_auth_redirect pl (optional_env env ''FERRUM_AUTH_LOGOUT_URL'') ''FERRUM_AUTH_LOGOUT_URL'') (\<lambda>logout_url.
     Inr \<lparr>cf_admin_url = admin_url, cf_initial_admin_origin = admin_url,
          cf_admin_allowed_origins = allowed_origins, cf_admin_allowed_cidrs = allowed_cidrs,
          cf_require_secure = require_secure, cf_jwt_secret = jwt_secret,
          cf_jwt_issuer = (case optional_env env ''FERRUM_JWT_ISSUER'' of Some v \<Rightarrow> v | None \<Rightarrow> ''ferrum-edge''),
          cf_jwt_ttl = jwt_ttl, cf_jwt_max_ttl = jwt_max_ttl, cf_jwt_role = jwt_role,
          cf_jwt_audience = parse_audience (optional_env env ''FERRUM_JWT_AUDIENCE''),
          cf_jwt_namespaces = jwt_namespaces, cf_tls_ca_path = tls_ca_path, cf_tls_ca_root = tls_ca_root,
          cf_tls_verify = tls_verify, cf_connect_timeout = connect_timeout, cf_read_timeout = read_timeout,
          cf_write_timeout = write_timeout, cf_upload_timeout = upload_timeout, cf_port = port,
          cf_bind_address = bind_address, cf_shutdown_timeout = shutdown_timeout,
          cf_max_large_uploads = large, cf_max_active_uploads = active,
          cf_max_uploads_per_principal = share, cf_max_large_uploads_per_principal = large_share,
          cf_max_active_long_reads = reads, cf_max_long_reads_per_principal = read_share,
          cf_namespace_scan_max_pages = scan_max_pages, cf_gateway_max_connections = connections,
          cf_allow_runtime_settings = allow_runtime_settings, cf_auth_mode = auth_mode,
          cf_bff_auth_token = bff_auth_token, cf_session_ttl = session_ttl,
          cf_auth_max_failures = auth_max_failures, cf_auth_lockout_seconds = auth_lockout_seconds,
          cf_trusted_proxy_secret = trusted_proxy_secret, cf_user_header = user, cf_role_header = role,
          cf_namespaces_header = namespaces, cf_auth_login_url = login_url, cf_auth_logout_url = logout_url,
          cf_secure_cookies = secure_cookies, cf_enable_hsts = enable_hsts\<rparr>
     )))))))))))))))))))))))))))))))))))))))))"

section \<open>What every accepted configuration satisfies\<close>

definition grants_ok :: "string list option \<Rightarrow> bool" where
  "grants_ok g = (case g of None \<Rightarrow> True
     | Some ns \<Rightarrow> ns \<noteq> [] \<and> distinct ns \<and> (\<forall>n \<in> set ns. is_namespace_name (cps n)))"

lemma parse_namespace_grants_ok: "parse_namespace_grants es name = Inr g \<Longrightarrow> grants_ok g"
  by (auto simp: parse_namespace_grants_def grants_ok_def Let_def list_ex_iff split: if_splits)

lemma parse_env_namespace_grants_ok:
  "parse_env_namespace_grants env mode = Inr g \<Longrightarrow> grants_ok g"
  by (auto simp: parse_env_namespace_grants_def grants_ok_def parse_namespace_grants_ok [unfolded grants_ok_def]
      split: option.splits if_splits dest: parse_namespace_grants_ok)

definition policy_ok :: "platform \<Rightarrow> config \<Rightarrow> bool" where
  "policy_ok pl c \<longleftrightarrow>
     (cf_require_secure c \<longrightarrow> is_secure_admin_origin pl (cf_admin_url c) \<and>
        (cf_tls_verify c \<or> is_loopback_admin_origin (pl_url pl (cf_admin_url c)))) \<and>
     cf_admin_url c \<in> set (cf_initial_admin_origin c # cf_admin_allowed_origins c) \<and>
     1 \<le> cf_jwt_ttl c \<and> (cf_jwt_max_ttl c = 0 \<or> cf_jwt_ttl c \<le> cf_jwt_max_ttl c) \<and>
     grants_ok (cf_jwt_namespaces c)"

lemma assert_secure_Inr:
  "assert_secure_admin_origin pl origin name required = Inr u \<longleftrightarrow>
     u = origin \<and> (required \<longrightarrow> is_secure_admin_origin pl origin)"
  by (auto simp: assert_secure_admin_origin_def)

lemma assert_tls_Inr:
  "assert_tls_verification pl origin v required = Inr u \<longleftrightarrow>
     (required \<longrightarrow> v \<or> is_loopback_admin_origin (pl_url pl origin))"
  by (auto simp: assert_tls_verification_def)

text \<open>Reading a successful \<open>parseBaseConfig\<close> backwards.\<close>

lemmas base_config_steps = parse_base_config_def Let_def cfg_bind_Inr cfg_check_Inr split_paired_Ex prod.case

lemma parse_base_config_limits:
  assumes "parse_base_config pl env = Inr c"
  shows "parse_pools env = Inr (cf_max_active_uploads c, cf_max_large_uploads c, cf_max_uploads_per_principal c,
           cf_max_large_uploads_per_principal c, cf_max_active_long_reads c, cf_max_long_reads_per_principal c,
           cf_gateway_max_connections c) \<and>
    parse_trusted_proxy_headers env = Inr (cf_user_header c, cf_role_header c, cf_namespaces_header c)"
  using assms unfolding base_config_steps
  by (elim exE conjE) (simp only: sum.inject, hypsubst, simp)

lemma parse_ttl_positive: "parse_integer env ''FERRUM_JWT_TTL'' 900 1 86400 = Inr v \<Longrightarrow> 1 \<le> v"
  using parse_integer_bounds by fastforce

lemma parse_base_config_policy:
  assumes "parse_base_config pl env = Inr c"
  shows "policy_ok pl c \<and> cf_initial_admin_origin c = cf_admin_url c"
  using assms unfolding base_config_steps assert_secure_Inr assert_tls_Inr
  by (elim exE conjE) (simp only: sum.inject, hypsubst,
    simp add: policy_ok_def parse_ttl_positive parse_env_namespace_grants_ok)

lemma parse_pools_coherent:
  assumes "parse_pools env = Inr (active, large, share, large_share, reads, read_share, connections)"
  shows "1 \<le> large_share \<and> large_share \<le> share \<and> large_share \<le> large \<and> large \<le> active \<and>
    1 \<le> share \<and> share \<le> active \<and> active \<le> 1024 \<and> 1 \<le> read_share \<and> read_share \<le> reads \<and> reads \<le> 1024 \<and>
    reads + active + 16 \<le> connections \<and> connections \<le> 4096"
proof -
  have run: "parse_integer env ''FERRUM_MAX_ACTIVE_UPLOADS'' 32 1 1024 = Inr active"
    "parse_integer env ''FERRUM_MAX_LARGE_UPLOADS'' 2 1 32 = Inr large"
    "parse_integer env ''FERRUM_MAX_UPLOADS_PER_PRINCIPAL'' (min 8 active) 1 1024 = Inr share"
    "parse_integer env ''FERRUM_MAX_LARGE_UPLOADS_PER_PRINCIPAL'' 1 1 32 = Inr large_share"
    "parse_integer env ''FERRUM_MAX_ACTIVE_LONG_READS'' 32 1 1024 = Inr reads"
    "parse_integer env ''FERRUM_MAX_LONG_READS_PER_PRINCIPAL'' 8 1 1024 = Inr read_share"
    "parse_integer env ''FERRUM_MAX_GATEWAY_CONNECTIONS'' (reads + active + 64) 1 4096 = Inr connections"
    "large \<le> active" "share \<le> active" "large_share \<le> large" "large_share \<le> share" "read_share \<le> reads"
    "reads + active + 16 \<le> connections"
    using assms unfolding parse_pools_def min_gateway_connection_headroom_def by simp_all
  show ?thesis
    using parse_integer_bounds [OF run(1)] parse_integer_bounds [OF run(3)] parse_integer_bounds [OF run(4)]
      parse_integer_bounds [OF run(5)] parse_integer_bounds [OF run(6)] parse_integer_bounds [OF run(7)] run(8-13)
    by linarith
qed

text \<open>No contradictory pool configuration is ever accepted: in every configuration the BFF starts
  with, each per-subject share is at least one and fits its pool, the large-upload pool fits the
  upload pool, and the gateway connection ceiling leaves at least sixteen connections beside both
  pools filled.\<close>

theorem accepted_pools_coherent:
  assumes "parse_base_config pl env = Inr c"
  shows "1 \<le> cf_max_large_uploads_per_principal c \<and>
    cf_max_large_uploads_per_principal c \<le> cf_max_uploads_per_principal c \<and>
    cf_max_large_uploads_per_principal c \<le> cf_max_large_uploads c \<and>
    cf_max_large_uploads c \<le> cf_max_active_uploads c \<and>
    1 \<le> cf_max_uploads_per_principal c \<and> cf_max_uploads_per_principal c \<le> cf_max_active_uploads c \<and>
    1 \<le> cf_max_long_reads_per_principal c \<and> cf_max_long_reads_per_principal c \<le> cf_max_active_long_reads c \<and>
    cf_max_active_long_reads c + cf_max_active_uploads c + 16 \<le> cf_gateway_max_connections c"
proof -
  have "parse_pools env = Inr (cf_max_active_uploads c, cf_max_large_uploads c, cf_max_uploads_per_principal c,
           cf_max_large_uploads_per_principal c, cf_max_active_long_reads c, cf_max_long_reads_per_principal c,
           cf_gateway_max_connections c)"
    using parse_base_config_limits [OF assms] by blast
  from parse_pools_coherent [OF this] show ?thesis by linarith
qed

text \<open>A platform that parses two origins, and an environment for it.\<close>

definition sample_url :: "string \<Rightarrow> string \<Rightarrow> parsed_url" where
  "sample_url protocol host =
     \<lparr>ur_protocol = protocol, ur_username = [], ur_password = [], ur_hostname = host, ur_pathname = ''/'',
      ur_search = [], ur_hash = [], ur_origin = protocol @ ''//'' @ host, ur_href = protocol @ ''//'' @ host @ ''/''\<rparr>"

definition sample_platform :: platform where
  "sample_platform =
     \<lparr>pl_url = (\<lambda>s. if s = ''https://gw'' then Some (sample_url ''https:'' ''gw'')
                   else if s = ''http://other'' then Some (sample_url ''http:'' ''other'') else None),
      pl_ca = (\<lambda>_ _. False), pl_dirname = (\<lambda>s. s), pl_resolve = (\<lambda>s. s)\<rparr>"

definition sample_env :: env where
  "sample_env =
     [''NODE_ENV'' \<mapsto> ''production'', ''FERRUM_ADMIN_URL'' \<mapsto> ''https://gw'',
      ''FERRUM_JWT_SECRET'' \<mapsto> ''0123456789abcdef0123456789abcdef'',
      ''FERRUM_AUTH_MODE'' \<mapsto> ''trusted-proxy'',
      ''FERRUM_TRUSTED_PROXY_SECRET'' \<mapsto> ''fedcba9876543210fedcba9876543210'',
      ''FERRUM_ADMIN_ALLOWED_ORIGINS'' \<mapsto> ''https://gw'',
      ''FERRUM_ALLOW_RUNTIME_SETTINGS'' \<mapsto> ''true'']"

definition config_accepted :: "'a cfg \<Rightarrow> bool" where
  "config_accepted r = (case r of Inl _ \<Rightarrow> False | Inr _ \<Rightarrow> True)"

lemma sample_env_eval: "sample_env n = (if n = ''NODE_ENV'' then Some ''production''
  else if n = ''FERRUM_ADMIN_URL'' then Some ''https://gw''
  else if n = ''FERRUM_JWT_SECRET'' then Some ''0123456789abcdef0123456789abcdef''
  else if n = ''FERRUM_AUTH_MODE'' then Some ''trusted-proxy''
  else if n = ''FERRUM_TRUSTED_PROXY_SECRET'' then Some ''fedcba9876543210fedcba9876543210''
  else if n = ''FERRUM_ADMIN_ALLOWED_ORIGINS'' then Some ''https://gw''
  else if n = ''FERRUM_ALLOW_RUNTIME_SETTINGS'' then Some ''true'' else None)"
  by (simp add: sample_env_def)

lemma sample_trims: "js_trim ''https://gw'' = ''https://gw''" "js_trim ''true'' = ''true''" "js_trim ''trusted-proxy'' = ''trusted-proxy''"
  "js_trim ''fedcba9876543210fedcba9876543210'' = ''fedcba9876543210fedcba9876543210''"
  "js_trim ''0123456789abcdef0123456789abcdef'' = ''0123456789abcdef0123456789abcdef''"
  by (simp_all add: js_trim_def white_space_def)

lemma sample_opt: "optional_env sample_env n = (if n = ''FERRUM_ADMIN_URL'' then Some ''https://gw''
  else if n = ''FERRUM_JWT_SECRET'' then Some ''0123456789abcdef0123456789abcdef''
  else if n = ''FERRUM_AUTH_MODE'' then Some ''trusted-proxy''
  else if n = ''FERRUM_TRUSTED_PROXY_SECRET'' then Some ''fedcba9876543210fedcba9876543210''
  else if n = ''FERRUM_ADMIN_ALLOWED_ORIGINS'' then Some ''https://gw''
  else if n = ''FERRUM_ALLOW_RUNTIME_SETTINGS'' then Some ''true'' 
  else if n = ''NODE_ENV'' then Some (js_trim ''production'') else None)"
  by (simp add: optional_env_def sample_env_eval sample_trims js_trim_def white_space_def)

lemma unset_integer: "optional_env env n = None \<Longrightarrow> parse_integer env n d a b = Inr d" by (simp add: parse_integer_def)
lemma unset_boolean: "optional_env env n = None \<Longrightarrow> parse_boolean env n d = Inr d" by (simp add: parse_boolean_def)

lemma sample_pools: "parse_pools sample_env = Inr (32,2,8,1,32,8,128)"
 by (simp add: parse_pools_def cfg_bind_def cfg_check_def sample_opt unset_integer min_gateway_connection_headroom_def)
lemma sample_urls: "pl_url sample_platform ''https://gw'' = Some (sample_url ''https:'' ''gw'')" by (simp add: sample_platform_def)
lemma sample_origins: "parse_origins sample_platform (Some ''https://gw'') True = Inr [''https://gw'']"
  by (simp add: parse_origins_def parse_list_def js_unique_def sample_trims normalize_admin_url_def sample_urls sample_url_def cfg_bind_def assert_secure_admin_origin_def is_secure_admin_origin_def may_carry_secret_def)
lemma sample_headers: "parse_trusted_proxy_headers sample_env = Inr (''x-forwarded-user'',''x-ferrum-role'',''x-ferrum-namespaces'')"
  by (simp add: parse_trusted_proxy_headers_def sample_opt validate_header_name_def js_lower_def lower_char_def header_char_def letter_def digit_def
    reserved_identity_headers_def gateway_target_header_def trusted_proxy_secret_header_def cfg_bind_def)
lemma sample_accepted: "config_accepted (parse_base_config sample_platform sample_env)"
  by (simp add: config_accepted_def parse_base_config_def Let_def cfg_bind_def cfg_check_def sample_opt unset_integer unset_boolean sample_pools sample_origins sample_headers
   sample_env_eval require_env_def normalize_admin_url_def sample_urls sample_url_def assert_secure_admin_origin_def is_secure_admin_origin_def may_carry_secret_def
   require_exact_env_def sample_trims validate_signing_key_def utf8_length_def utf8_def min_secret_length_def validate_secret_def parse_auth_mode_def parse_boolean_def
   assert_tls_verification_def parse_cidrs_def parse_list_def parse_role_def parse_env_namespace_grants_def parse_bind_address_def parse_auth_redirect_def
   is_ip_def is_ipv4_def octet_def digit_def decimal_def digit_value_def)

definition sample_config :: config where
  "sample_config = (case parse_base_config sample_platform sample_env of Inr c \<Rightarrow> c | Inl _ \<Rightarrow> undefined)"

lemma sample_config_parsed: "parse_base_config sample_platform sample_env = Inr sample_config"
  using sample_accepted by (simp add: config_accepted_def sample_config_def split: sum.splits)

theorem accepted_pools_coherent_witness:
  "cf_max_long_reads_per_principal sample_config \<le> cf_max_active_long_reads sample_config \<and>
   cf_max_active_long_reads sample_config + cf_max_active_uploads sample_config + 16 \<le> cf_gateway_max_connections sample_config"
  using accepted_pools_coherent [OF sample_config_parsed] by blast

end
