(* ===== verification/RuntimeConfig.thy ===== *)
theory RuntimeConfig
  imports Config
begin

text \<open>
  Runtime settings (\<open>loadConfig\<close>, \<open>getRuntimeConfig\<close>, \<open>getPublicRuntimeConfig\<close> and
  \<open>updateRuntimeConfig\<close> of \<open>server/config.ts\<close>): overrides of the base configuration, one
  checked update per field, and the policy no sequence of settings requests can leave.
\<close>

section \<open>Runtime settings\<close>

text \<open>\<open>runtimeOverrides\<close>: a field that is present replaces the base one, also by \<open>undefined\<close>.\<close>

record overrides =
  ov_admin_url :: "string option"
  ov_jwt_issuer :: "string option"
  ov_jwt_ttl :: "int option"
  ov_jwt_role :: "gateway_role option"
  ov_jwt_audience :: "string list option option"
  ov_jwt_namespaces :: "string list option option"
  ov_tls_ca_path :: "string option"
  ov_tls_verify :: "bool option"
  ov_connect_timeout :: "int option"
  ov_read_timeout :: "int option"
  ov_write_timeout :: "int option"

definition no_overrides :: overrides where
  "no_overrides = \<lparr>ov_admin_url = None, ov_jwt_issuer = None, ov_jwt_ttl = None, ov_jwt_role = None,
     ov_jwt_audience = None, ov_jwt_namespaces = None, ov_tls_ca_path = None, ov_tls_verify = None,
     ov_connect_timeout = None, ov_read_timeout = None, ov_write_timeout = None\<rparr>"

definition or_else :: "'a option \<Rightarrow> 'a \<Rightarrow> 'a" where
  "or_else x d = (case x of Some a \<Rightarrow> a | None \<Rightarrow> d)"

lemma or_else_simps [simp]: "or_else None d = d" "or_else (Some a) d = a"
  by (simp_all add: or_else_def)

definition load_config :: "config \<Rightarrow> overrides \<Rightarrow> config" where
  "load_config base ov = base
     \<lparr>cf_admin_url := or_else (ov_admin_url ov) (cf_admin_url base),
      cf_jwt_issuer := or_else (ov_jwt_issuer ov) (cf_jwt_issuer base),
      cf_jwt_ttl := or_else (ov_jwt_ttl ov) (cf_jwt_ttl base),
      cf_jwt_role := or_else (ov_jwt_role ov) (cf_jwt_role base),
      cf_jwt_audience := or_else (ov_jwt_audience ov) (cf_jwt_audience base),
      cf_jwt_namespaces := or_else (ov_jwt_namespaces ov) (cf_jwt_namespaces base),
      cf_tls_ca_path := (case ov_tls_ca_path ov of Some p \<Rightarrow> Some p | None \<Rightarrow> cf_tls_ca_path base),
      cf_tls_verify := or_else (ov_tls_verify ov) (cf_tls_verify base),
      cf_connect_timeout := or_else (ov_connect_timeout ov) (cf_connect_timeout base),
      cf_read_timeout := or_else (ov_read_timeout ov) (cf_read_timeout base),
      cf_write_timeout := or_else (ov_write_timeout ov) (cf_write_timeout base)\<rparr>"

definition validate_runtime_number :: "string \<Rightarrow> string json \<Rightarrow> int \<Rightarrow> int \<Rightarrow> int cfg" where
  "validate_runtime_number name v minimum maximum =
     (case safe_integer v of
        None \<Rightarrow> Inl (name, OutOfRange)
      | Some i \<Rightarrow> if i < minimum \<or> maximum < i then Inl (name, OutOfRange) else Inr i)"

definition json_strings :: "string json list \<Rightarrow> string list option" where
  "json_strings vs =
     (if list_all (\<lambda>v. case v of JStr _ \<Rightarrow> True | _ \<Rightarrow> False) vs
      then Some (map (\<lambda>v. case v of JStr s \<Rightarrow> s | _ \<Rightarrow> []) vs) else None)"

text \<open>One update per field, \<open>None\<close> when the field is \<open>undefined\<close>; each checks and sets its override.\<close>

definition set_admin_url :: "platform \<Rightarrow> config \<Rightarrow> string json option \<Rightarrow> overrides \<Rightarrow> overrides cfg" where
  "set_admin_url pl cur v ov =
     (case v of
        None \<Rightarrow> Inr ov
      | Some (JStr s) \<Rightarrow>
          cfg_bind (normalize_admin_url pl s ''adminUrl'') (\<lambda>n.
          cfg_bind (assert_secure_admin_origin pl n ''adminUrl'' (cf_require_secure cur)) (\<lambda>url.
          cfg_check (url \<in> set (cf_initial_admin_origin cur # cf_admin_allowed_origins cur)) ''adminUrl'' NotAllowed (
          Inr (ov\<lparr>ov_admin_url := Some url\<rparr>))))
      | Some _ \<Rightarrow> Inl (''adminUrl'', WrongType))"

definition set_jwt_issuer :: "string json option \<Rightarrow> overrides \<Rightarrow> overrides cfg" where
  "set_jwt_issuer v ov =
     (case v of
        None \<Rightarrow> Inr ov
      | Some (JStr s) \<Rightarrow>
          if js_trim s = [] then Inl (''jwtIssuer'', WrongType) else Inr (ov\<lparr>ov_jwt_issuer := Some (js_trim s)\<rparr>)
      | Some _ \<Rightarrow> Inl (''jwtIssuer'', WrongType))"

definition set_jwt_ttl :: "config \<Rightarrow> string json option \<Rightarrow> overrides \<Rightarrow> overrides cfg" where
  "set_jwt_ttl cur v ov =
     (case v of
        None \<Rightarrow> Inr ov
      | Some j \<Rightarrow>
          cfg_bind (validate_runtime_number ''jwtTtl'' j 1 86400) (\<lambda>ttl.
          cfg_check (cf_jwt_max_ttl cur = 0 \<or> ttl \<le> cf_jwt_max_ttl cur) ''jwtTtl'' Exceeds (
          Inr (ov\<lparr>ov_jwt_ttl := Some ttl\<rparr>))))"

definition set_jwt_role :: "string json option \<Rightarrow> overrides \<Rightarrow> overrides cfg" where
  "set_jwt_role v ov =
     (case v of
        None \<Rightarrow> Inr ov
      | Some (JStr s) \<Rightarrow> cfg_bind (parse_role s ''jwtRole'') (\<lambda>r. Inr (ov\<lparr>ov_jwt_role := Some r\<rparr>))
      | Some _ \<Rightarrow> Inl (''jwtRole'', NotARole))"

definition set_jwt_audience :: "string json option \<Rightarrow> overrides \<Rightarrow> overrides cfg" where
  "set_jwt_audience v ov =
     (case v of
        None \<Rightarrow> Inr ov
      | Some (JStr s) \<Rightarrow> Inr (ov\<lparr>ov_jwt_audience := Some (parse_audience (Some s))\<rparr>)
      | Some (JArr vs) \<Rightarrow>
          (case json_strings vs of
             None \<Rightarrow> Inl (''jwtAudience'', WrongType)
           | Some ss \<Rightarrow> Inr (ov\<lparr>ov_jwt_audience := Some (parse_audience (Some (join_with CHR '','' ss)))\<rparr>))
      | Some _ \<Rightarrow> Inl (''jwtAudience'', WrongType))"

definition set_jwt_namespaces :: "string json option \<Rightarrow> overrides \<Rightarrow> overrides cfg" where
  "set_jwt_namespaces v ov =
     (case v of
        None \<Rightarrow> Inr ov
      | Some (JArr vs) \<Rightarrow>
          (case json_strings vs of
             None \<Rightarrow> Inl (''jwtNamespaces'', WrongType)
           | Some ss \<Rightarrow> cfg_bind (parse_namespace_grants ss ''jwtNamespaces'')
                          (\<lambda>g. Inr (ov\<lparr>ov_jwt_namespaces := Some g\<rparr>)))
      | Some _ \<Rightarrow> Inl (''jwtNamespaces'', WrongType))"

definition set_tls_ca_path :: "platform \<Rightarrow> config \<Rightarrow> string json option \<Rightarrow> overrides \<Rightarrow> overrides cfg" where
  "set_tls_ca_path pl cur v ov =
     (case v of
        None \<Rightarrow> Inr ov
      | Some (JStr s) \<Rightarrow>
          (case cf_tls_ca_root cur of
             None \<Rightarrow> Inl (''tlsCaPath'', NotSet)
           | Some ca_root \<Rightarrow>
               if pl_ca pl s (Some ca_root) then Inr (ov\<lparr>ov_tls_ca_path := Some (pl_resolve pl s)\<rparr>)
               else Inl (''tlsCaPath'', CaUnreadable))
      | Some _ \<Rightarrow> Inl (''tlsCaPath'', WrongType))"

definition set_tls_verify :: "string json option \<Rightarrow> overrides \<Rightarrow> overrides cfg" where
  "set_tls_verify v ov =
     (case v of
        None \<Rightarrow> Inr ov
      | Some (JBool b) \<Rightarrow> Inr (ov\<lparr>ov_tls_verify := Some b\<rparr>)
      | Some _ \<Rightarrow> Inl (''tlsVerify'', WrongType))"

definition set_timeout ::
  "string \<Rightarrow> int \<Rightarrow> (int \<Rightarrow> overrides \<Rightarrow> overrides) \<Rightarrow> string json option \<Rightarrow> overrides \<Rightarrow> overrides cfg" where
  "set_timeout name maximum upd v ov =
     (case v of
        None \<Rightarrow> Inr ov
      | Some j \<Rightarrow> cfg_bind (validate_runtime_number name j 100 maximum) (\<lambda>n. Inr (upd n ov)))"

definition update_runtime_config :: "platform \<Rightarrow> config \<Rightarrow> string json \<Rightarrow> overrides \<Rightarrow> overrides cfg" where
  "update_runtime_config pl base updates ov =
     (let cur = load_config base ov; field = (\<lambda>k. jfield k updates) in
     cfg_check (cf_allow_runtime_settings cur) ''FERRUM_ALLOW_RUNTIME_SETTINGS'' Disabled (
     cfg_bind (set_admin_url pl cur (field ''adminUrl'') ov) (\<lambda>ov1.
     cfg_bind (set_jwt_issuer (field ''jwtIssuer'') ov1) (\<lambda>ov2.
     cfg_bind (set_jwt_ttl cur (field ''jwtTtl'') ov2) (\<lambda>ov3.
     cfg_bind (set_jwt_role (field ''jwtRole'') ov3) (\<lambda>ov4.
     cfg_bind (set_jwt_audience (field ''jwtAudience'') ov4) (\<lambda>ov5.
     cfg_bind (set_jwt_namespaces (field ''jwtNamespaces'') ov5) (\<lambda>ov6.
     cfg_bind (set_tls_ca_path pl cur (field ''tlsCaPath'') ov6) (\<lambda>ov7.
     cfg_bind (set_tls_verify (field ''tlsVerify'') ov7) (\<lambda>ov8.
     cfg_bind (set_timeout ''connectTimeout'' 300000 (\<lambda>n ov. ov\<lparr>ov_connect_timeout := Some n\<rparr>) (field ''connectTimeout'') ov8) (\<lambda>ov9.
     cfg_bind (set_timeout ''readTimeout'' 3600000 (\<lambda>n ov. ov\<lparr>ov_read_timeout := Some n\<rparr>) (field ''readTimeout'') ov9) (\<lambda>ov10.
     cfg_bind (set_timeout ''writeTimeout'' 3600000 (\<lambda>n ov. ov\<lparr>ov_write_timeout := Some n\<rparr>) (field ''writeTimeout'') ov10) (\<lambda>ov11.
     cfg_bind (assert_tls_verification pl (or_else (ov_admin_url ov11) (cf_admin_url cur))
                 (or_else (ov_tls_verify ov11) (cf_tls_verify cur)) (cf_require_secure cur)) (\<lambda>_.
     Inr ov11))))))))))))))"

text \<open>A settings request: the overrides it leaves, unchanged when it is refused.\<close>

definition settings_request :: "platform \<Rightarrow> config \<Rightarrow> string json \<Rightarrow> overrides \<Rightarrow> overrides" where
  "settings_request pl base updates ov =
     (case update_runtime_config pl base updates ov of Inl _ \<Rightarrow> ov | Inr ov' \<Rightarrow> ov')"

record runtime_config =
  rt_admin_url :: string
  rt_jwt_issuer :: string
  rt_jwt_ttl :: int
  rt_jwt_role :: gateway_role
  rt_jwt_audience :: "string list option"
  rt_jwt_namespaces :: "string list option"
  rt_tls_ca_path :: "string option"
  rt_tls_verify :: bool
  rt_connect_timeout :: int
  rt_read_timeout :: int
  rt_write_timeout :: int

definition get_runtime_config :: "config \<Rightarrow> runtime_config" where
  "get_runtime_config cfg =
     \<lparr>rt_admin_url = cf_admin_url cfg, rt_jwt_issuer = cf_jwt_issuer cfg, rt_jwt_ttl = cf_jwt_ttl cfg,
      rt_jwt_role = cf_jwt_role cfg, rt_jwt_audience = cf_jwt_audience cfg,
      rt_jwt_namespaces = cf_jwt_namespaces cfg, rt_tls_ca_path = cf_tls_ca_path cfg,
      rt_tls_verify = cf_tls_verify cfg, rt_connect_timeout = cf_connect_timeout cfg,
      rt_read_timeout = cf_read_timeout cfg, rt_write_timeout = cf_write_timeout cfg\<rparr>"

text \<open>What a browser may read: no path of the CA bundle, and the wildcard spelled out.\<close>

record public_config =
  pub_admin_url :: string
  pub_jwt_issuer :: string
  pub_jwt_audience :: "string list option"
  pub_connect_timeout :: int
  pub_read_timeout :: int
  pub_write_timeout :: int
  pub_jwt_ttl :: int
  pub_jwt_role :: gateway_role
  pub_jwt_namespaces :: "string list"
  pub_auth_mode :: auth_mode
  pub_tls_ca_configured :: bool
  pub_tls_verify :: bool
  pub_runtime_settings :: bool

definition get_public_runtime_config :: "config \<Rightarrow> runtime_config \<Rightarrow> public_config" where
  "get_public_runtime_config cfg rt =
     \<lparr>pub_admin_url = rt_admin_url rt, pub_jwt_issuer = rt_jwt_issuer rt,
      pub_jwt_audience = rt_jwt_audience rt, pub_connect_timeout = rt_connect_timeout rt,
      pub_read_timeout = rt_read_timeout rt, pub_write_timeout = rt_write_timeout rt, pub_jwt_ttl = rt_jwt_ttl rt, pub_jwt_role = rt_jwt_role rt,
      pub_jwt_namespaces = or_else (rt_jwt_namespaces rt) [''*''],
      pub_auth_mode = cf_auth_mode cfg,
      pub_tls_ca_configured = (case rt_tls_ca_path rt of None \<Rightarrow> False | Some p \<Rightarrow> p \<noteq> []),
      pub_tls_verify = rt_tls_verify rt,
      pub_runtime_settings = cf_allow_runtime_settings cfg\<rparr>"

text \<open>Each settings update keeps the policy.\<close>

lemma safe_runtime_number: "validate_runtime_number n v lo hi = Inr i \<Longrightarrow> lo \<le> i \<and> i \<le> hi"
  by (auto simp: validate_runtime_number_def split: option.splits if_splits)

lemma load_config_base [simp]:
  "cf_require_secure (load_config base ov) = cf_require_secure base"
  "cf_initial_admin_origin (load_config base ov) = cf_initial_admin_origin base"
  "cf_admin_allowed_origins (load_config base ov) = cf_admin_allowed_origins base"
  "cf_jwt_max_ttl (load_config base ov) = cf_jwt_max_ttl base"
  "cf_jwt_secret (load_config base ov) = cf_jwt_secret base"
  "cf_auth_mode (load_config base ov) = cf_auth_mode base"
  "cf_allow_runtime_settings (load_config base ov) = cf_allow_runtime_settings base"
  by (simp_all add: load_config_def)

lemma load_config_fields [simp]:
  "cf_admin_url (load_config base ov) = or_else (ov_admin_url ov) (cf_admin_url base)"
  "cf_jwt_ttl (load_config base ov) = or_else (ov_jwt_ttl ov) (cf_jwt_ttl base)"
  "cf_tls_verify (load_config base ov) = or_else (ov_tls_verify ov) (cf_tls_verify base)"
  "cf_jwt_namespaces (load_config base ov) = or_else (ov_jwt_namespaces ov) (cf_jwt_namespaces base)"
  by (simp_all add: load_config_def)

text \<open>The part of the policy an override carries; the rest is decided at the end of an update.\<close>

definition override_ok :: "platform \<Rightarrow> config \<Rightarrow> overrides \<Rightarrow> overrides \<Rightarrow> bool" where
  "override_ok pl base before ov \<longleftrightarrow>
     (ov_admin_url ov = None \<longrightarrow> ov_admin_url before = None) \<and>
     (ov_tls_verify ov = None \<longrightarrow> ov_tls_verify before = None) \<and>
     (case ov_admin_url ov of None \<Rightarrow> True
      | Some u \<Rightarrow> u \<in> set (cf_initial_admin_origin base # cf_admin_allowed_origins base) \<and>
                  (cf_require_secure base \<longrightarrow> is_secure_admin_origin pl u)) \<and>
     (case ov_jwt_ttl ov of None \<Rightarrow> True
      | Some t \<Rightarrow> 1 \<le> t \<and> (cf_jwt_max_ttl base = 0 \<or> t \<le> cf_jwt_max_ttl base)) \<and>
     (case ov_jwt_namespaces ov of None \<Rightarrow> True | Some g \<Rightarrow> grants_ok g)"

lemma override_ok_update [simp]:
  "override_ok pl base before (ov\<lparr>ov_jwt_issuer := a\<rparr>) = override_ok pl base before ov"
  "override_ok pl base before (ov\<lparr>ov_jwt_role := b\<rparr>) = override_ok pl base before ov"
  "override_ok pl base before (ov\<lparr>ov_jwt_audience := c\<rparr>) = override_ok pl base before ov"
  "override_ok pl base before (ov\<lparr>ov_tls_ca_path := d\<rparr>) = override_ok pl base before ov"
  "override_ok pl base before (ov\<lparr>ov_connect_timeout := n\<rparr>) = override_ok pl base before ov"
  "override_ok pl base before (ov\<lparr>ov_read_timeout := n\<rparr>) = override_ok pl base before ov"
  "override_ok pl base before (ov\<lparr>ov_write_timeout := n\<rparr>) = override_ok pl base before ov"
  by (simp_all add: override_ok_def)

lemma override_ok_set:
  "override_ok pl base before ov \<Longrightarrow> override_ok pl base before (ov\<lparr>ov_tls_verify := Some e\<rparr>)"
  "override_ok pl base before ov \<Longrightarrow> u \<in> set (cf_initial_admin_origin base # cf_admin_allowed_origins base) \<Longrightarrow>
     (cf_require_secure base \<longrightarrow> is_secure_admin_origin pl u) \<Longrightarrow> override_ok pl base before (ov\<lparr>ov_admin_url := Some u\<rparr>)"
  "override_ok pl base before ov \<Longrightarrow> 1 \<le> t \<Longrightarrow> cf_jwt_max_ttl base = 0 \<or> t \<le> cf_jwt_max_ttl base \<Longrightarrow>
     override_ok pl base before (ov\<lparr>ov_jwt_ttl := Some t\<rparr>)"
  "override_ok pl base before ov \<Longrightarrow> grants_ok g \<Longrightarrow> override_ok pl base before (ov\<lparr>ov_jwt_namespaces := Some g\<rparr>)"
  by (simp_all add: override_ok_def)

named_theorems setting_intros \<open>each setting keeps the part of the policy an override carries\<close>

lemma set_admin_url_ok [setting_intros]:
  assumes "set_admin_url pl (load_config base ov0) v ov = Inr ov'" "override_ok pl base before ov"
  shows "override_ok pl base before ov'"
  using assms override_ok_set(2) [OF assms(2)]
  by (cases v; cases "the v") (auto simp: set_admin_url_def assert_secure_Inr)

lemma set_jwt_issuer_ok [setting_intros]:
  assumes "set_jwt_issuer v ov = Inr ov'" "override_ok pl base before ov"
  shows "override_ok pl base before ov'"
  using assms by (cases v; cases "the v") (auto simp: set_jwt_issuer_def split: if_splits)

lemma set_jwt_ttl_ok [setting_intros]:
  assumes "set_jwt_ttl (load_config base ov0) v ov = Inr ov'" "override_ok pl base before ov"
  shows "override_ok pl base before ov'"
  using assms(1) assms(2) override_ok_set(3) [OF assms(2)]
  by (cases v) (auto simp: set_jwt_ttl_def dest!: safe_runtime_number)

lemma set_jwt_role_ok [setting_intros]:
  assumes "set_jwt_role v ov = Inr ov'" "override_ok pl base before ov"
  shows "override_ok pl base before ov'"
  using assms by (cases v; cases "the v") (auto simp: set_jwt_role_def)

lemma set_jwt_audience_ok [setting_intros]:
  assumes "set_jwt_audience v ov = Inr ov'" "override_ok pl base before ov"
  shows "override_ok pl base before ov'"
  using assms by (cases v; cases "the v") (auto simp: set_jwt_audience_def split: option.splits)

lemma set_jwt_namespaces_ok [setting_intros]:
  assumes "set_jwt_namespaces v ov = Inr ov'" "override_ok pl base before ov"
  shows "override_ok pl base before ov'"
  using assms(1) assms(2) override_ok_set(4) [OF assms(2)] parse_namespace_grants_ok
  by (cases v; cases "the v") (auto simp: set_jwt_namespaces_def split: option.splits)

lemma set_tls_ca_path_ok [setting_intros]:
  assumes "set_tls_ca_path pl cur v ov = Inr ov'" "override_ok pl base before ov"
  shows "override_ok pl base before ov'"
  using assms by (cases v; cases "the v") (auto simp: set_tls_ca_path_def split: option.splits if_splits)

lemma set_tls_verify_ok [setting_intros]:
  assumes "set_tls_verify v ov = Inr ov'" "override_ok pl base before ov"
  shows "override_ok pl base before ov'"
  using assms override_ok_set(1) [OF assms(2)] by (cases v; cases "the v") (auto simp: set_tls_verify_def)

lemma set_timeout_ok [setting_intros]:
  assumes "set_timeout name hi upd v ov = Inr ov'" "override_ok pl base before ov"
    and "\<And>n. override_ok pl base before (upd n ov) = override_ok pl base before ov"
  shows "override_ok pl base before ov'"
  using assms by (cases v) (auto simp: set_timeout_def)

lemma update_keeps_override_ok:
  assumes "update_runtime_config pl base updates ov = Inr ov'" "override_ok pl base before ov"
  shows "override_ok pl base before ov'"
  using assms(1) unfolding update_runtime_config_def Let_def cfg_bind_Inr cfg_check_Inr
  by (elim exE conjE) (simp only: sum.inject, hypsubst,
    (erule setting_intros | simp only: override_ok_update | rule assms(2))+)

lemma update_checks_tls:
  assumes "update_runtime_config pl base updates ov = Inr ov'"
  shows "cf_require_secure base \<longrightarrow> or_else (ov_tls_verify ov') (cf_tls_verify (load_config base ov)) \<or>
    is_loopback_admin_origin (pl_url pl (or_else (ov_admin_url ov') (cf_admin_url (load_config base ov))))"
  using assms unfolding update_runtime_config_def Let_def cfg_bind_Inr cfg_check_Inr assert_tls_Inr
  by (elim exE conjE) (simp only: sum.inject, hypsubst, simp)

definition settings_inv :: "platform \<Rightarrow> config \<Rightarrow> overrides \<Rightarrow> bool" where
  "settings_inv pl base ov \<longleftrightarrow> override_ok pl base ov ov \<and>
     (cf_require_secure base \<longrightarrow> cf_tls_verify (load_config base ov) \<or>
        is_loopback_admin_origin (pl_url pl (cf_admin_url (load_config base ov))))"

lemma override_ok_self: "override_ok pl base before ov \<Longrightarrow> override_ok pl base ov ov"
  by (simp add: override_ok_def)

lemma or_else_keep: "(y = None \<longrightarrow> x = None) \<Longrightarrow> or_else y (or_else x d) = or_else y d"
  by (cases y) auto

lemma settings_inv_request [inv_intros]:
  assumes "settings_inv pl base ov"
  shows "settings_inv pl base (settings_request pl base updates ov)"
proof (cases "update_runtime_config pl base updates ov")
  case (Inl e)
  then show ?thesis using assms by (simp add: settings_request_def)
next
  case (Inr ov')
  have ok: "override_ok pl base ov ov'"
    using update_keeps_override_ok [OF Inr] assms by (simp add: settings_inv_def)
  then have keep: "ov_admin_url ov' = None \<longrightarrow> ov_admin_url ov = None" "ov_tls_verify ov' = None \<longrightarrow> ov_tls_verify ov = None"
    unfolding override_ok_def by blast+
  have "cf_require_secure base \<longrightarrow> cf_tls_verify (load_config base ov') \<or>
        is_loopback_admin_origin (pl_url pl (cf_admin_url (load_config base ov')))"
    using update_checks_tls [OF Inr] or_else_keep [OF keep(1)] or_else_keep [OF keep(2)] by simp
  then show ?thesis using Inr override_ok_self [OF ok] by (simp add: settings_request_def settings_inv_def)
qed

lemma settings_inv_start:
  assumes "parse_base_config pl env = Inr base"
  shows "settings_inv pl base no_overrides"
  using parse_base_config_policy [OF assms]
  by (simp add: settings_inv_def override_ok_def no_overrides_def policy_ok_def)

lemma settings_inv_policy:
  assumes "policy_ok pl base" "settings_inv pl base ov"
  shows "policy_ok pl (load_config base ov)"
  using assms unfolding policy_ok_def settings_inv_def override_ok_def
  by (auto split: option.splits)

text \<open>C11: No sequence of settings requests, accepted or refused, leaves the deployment's policy: the
  admin origin stays one of the configured ones and, where secure transport is required, may carry
  the signed tokens and is verified unless it is this machine; the token lifetime stays positive
  and within the configured maximum; and the granted namespaces stay a non-empty list of distinct
  valid names or the explicit wildcard.\<close>

theorem runtime_settings_keep_policy:
  assumes "parse_base_config pl env = Inr base"
  shows "policy_ok pl (load_config base (fold (settings_request pl base) requests no_overrides))"
proof -
  have "settings_inv pl base (fold (settings_request pl base) requests ov)" if "settings_inv pl base ov" for ov
    using that by (induction requests arbitrary: ov) (simp_all add: inv_intros)
  then show ?thesis
    using settings_inv_policy parse_base_config_policy [OF assms] settings_inv_start [OF assms] by blast
qed

definition sample_requests :: "string json list" where
  "sample_requests = [JObj [(''adminUrl'', JStr ''http://other'')], JObj [(''jwtNamespaces'', JArr [JStr ''team-a''])]]"

theorem runtime_settings_keep_policy_witness:
  "policy_ok sample_platform (load_config sample_config
     (fold (settings_request sample_platform sample_config) sample_requests no_overrides))"
  by (rule runtime_settings_keep_policy [OF sample_config_parsed])

section \<open>Identity headers\<close>

lemma claim_headers_distinct:
  "claim_headers claimed hs = Inr () \<Longrightarrow> distinct (map snd hs) \<and> set (map snd hs) \<inter> set claimed = {}"
proof (induction hs arbitrary: claimed)
  case Nil
  then show ?case by simp
next
  case (Cons h hs)
  obtain n w where h: "h = (n, w)" by (cases h)
  have "w \<notin> set claimed" "claim_headers (w # claimed) hs = Inr ()" using Cons.prems h by (auto split: if_splits)
  then show ?case using Cons.IH [of "w # claimed"] h by auto
qed

lemma validate_header_name_ok:
  "validate_header_name v n = Inr h \<Longrightarrow> h \<noteq> [] \<and> list_all header_char h \<and> h \<notin> set reserved_identity_headers \<and> h = js_lower v"
  by (auto simp: validate_header_name_def Let_def split: if_splits)

text \<open>One wire header never carries two meanings: in every accepted configuration the user, role,
  namespace and proof headers are four different names, each a valid lower-case header name, and
  none of the three configurable ones is a header that HTTP or the BFF reserves.\<close>

theorem identity_headers_unambiguous:
  assumes "parse_base_config pl env = Inr c"
  shows "distinct [trusted_proxy_secret_header, cf_user_header c, cf_role_header c, cf_namespaces_header c] \<and>
    (\<forall>h \<in> {cf_user_header c, cf_role_header c, cf_namespaces_header c}.
       h \<noteq> [] \<and> list_all header_char h \<and> h \<notin> set reserved_identity_headers)"
proof -
  have "parse_trusted_proxy_headers env = Inr (cf_user_header c, cf_role_header c, cf_namespaces_header c)"
    using parse_base_config_limits [OF assms] by blast
  then obtain u r n where h: "validate_header_name u ''FERRUM_TRUSTED_PROXY_USER_HEADER'' = Inr (cf_user_header c)"
    "validate_header_name r ''FERRUM_TRUSTED_PROXY_ROLE_HEADER'' = Inr (cf_role_header c)"
    "validate_header_name n ''FERRUM_TRUSTED_PROXY_NAMESPACES_HEADER'' = Inr (cf_namespaces_header c)"
    "claim_headers [trusted_proxy_secret_header]
       [(''FERRUM_TRUSTED_PROXY_USER_HEADER'', cf_user_header c), (''FERRUM_TRUSTED_PROXY_ROLE_HEADER'', cf_role_header c),
        (''FERRUM_TRUSTED_PROXY_NAMESPACES_HEADER'', cf_namespaces_header c)] = Inr ()"
    unfolding parse_trusted_proxy_headers_def Let_def cfg_bind_Inr by auto
  show ?thesis
    using claim_headers_distinct [OF h(4)] validate_header_name_ok [OF h(1)] validate_header_name_ok [OF h(2)]
      validate_header_name_ok [OF h(3)] by auto
qed

theorem identity_headers_unambiguous_witness:
  "distinct [trusted_proxy_secret_header, cf_user_header sample_config, cf_role_header sample_config, cf_namespaces_header sample_config]"
  using identity_headers_unambiguous [OF sample_config_parsed] by blast

end
