(* ===== verification/LruCache.thy ===== *)
theory LruCache
  imports Prelude
begin

text \<open>
  The bounded, expiring caches of the BFF: the static sessions (\<open>pruneSessions\<close> in
  \<open>server/auth.ts\<close>) and the signed admin tokens (\<open>pruneCache\<close> in \<open>server/jwt.ts\<close>) are
  insertion-ordered maps with the same discipline: prune what has expired, evict from the front
  until there is room, insert at the end, and move an entry to the end when it is used. The
  locale states the discipline once; the two caches are its instances.
\<close>

fun evict :: "nat \<Rightarrow> (string, 'v) jsmap \<Rightarrow> (string, 'v) jsmap" where
  "evict cap [] = []"
| "evict cap ((k, v) # m) =
     (if cap \<le> length ((k, v) # m) then (if k = [] then (k, v) # m else evict cap m) else (k, v) # m)"

definition prune :: "nat \<Rightarrow> ('v \<Rightarrow> int) \<Rightarrow> int \<Rightarrow> (string, 'v) jsmap \<Rightarrow> (string, 'v) jsmap" where
  "prune cap expires now m = evict cap (filter (\<lambda>(k, v). now < expires v) m)"

text \<open>Operations on a cache, each at a time.\<close>

datatype 'v cache_op = Insert string 'v int | Use string int | Remove string

definition cache_insert :: "nat \<Rightarrow> ('v \<Rightarrow> int) \<Rightarrow> string \<Rightarrow> 'v \<Rightarrow> int \<Rightarrow> (string, 'v) jsmap \<Rightarrow> (string, 'v) jsmap" where
  "cache_insert cap expires k v now m = jm_set k v (prune cap expires now m)"

fun cache_step :: "nat \<Rightarrow> ('v \<Rightarrow> int) \<Rightarrow> 'v cache_op \<Rightarrow> (string, 'v) jsmap \<Rightarrow> (string, 'v) jsmap" where
  "cache_step cap expires (Insert k v now) m = cache_insert cap expires k v now m"
| "cache_step cap expires (Use k now) m =
     (case jm_get m k of
        None \<Rightarrow> m
      | Some v \<Rightarrow> if expires v \<le> now then jm_delete k m else jm_touch k v m)"
| "cache_step cap expires (Remove k) m = jm_delete k m"

text \<open>What an operation does to key \<open>k\<close> with a value expiring at \<open>e\<close>: nothing, or it uses it in time.\<close>

fun harmless :: "string \<Rightarrow> int \<Rightarrow> 'v cache_op \<Rightarrow> bool" where
  "harmless k e (Insert k' v now) \<longleftrightarrow> k' \<noteq> k \<and> k' \<noteq> [] \<and> now < e"
| "harmless k e (Use k' now) \<longleftrightarrow> now < e"
| "harmless k e (Remove k') \<longleftrightarrow> k' \<noteq> k"

fun op_key :: "'v cache_op \<Rightarrow> string" where
  "op_key (Insert k v now) = k"
| "op_key (Use k now) = k"
| "op_key (Remove k) = k"

definition nonempty_keys :: "(string, 'v) jsmap \<Rightarrow> bool" where
  "nonempty_keys m \<longleftrightarrow> [] \<notin> set (jm_keys m)"

lemma evict_suffix: "nonempty_keys m \<Longrightarrow> evict cap m = drop (Suc (length m) - cap) m"
proof (induction cap m rule: evict.induct)
  case (1 cap)
  then show ?case by simp
next
  case (2 cap k v m)
  have k: "k \<noteq> []" "nonempty_keys m" using "2.prems" by (auto simp: nonempty_keys_def jm_keys_def)
  show ?case
  proof (cases "cap \<le> length ((k, v) # m)")
    case True
    then have "Suc (length ((k, v) # m)) - cap = Suc (Suc (length m) - cap)" by (simp add: Suc_diff_le)
    then show ?thesis using 2 k True by simp
  next
    case False
    then show ?thesis by simp
  qed
qed

lemma jm_ok_drop: "jm_ok m \<Longrightarrow> jm_ok (drop n m)"
  by (simp add: jm_ok_def jm_keys_def drop_map [symmetric])

lemma nonempty_keys_filter: "nonempty_keys m \<Longrightarrow> nonempty_keys (filter P m)"
  using jm_keys_filter_subset [of P m] by (auto simp: nonempty_keys_def)

lemma nonempty_keys_drop: "nonempty_keys m \<Longrightarrow> nonempty_keys (drop n m)"
  by (auto simp: nonempty_keys_def jm_keys_def dest: in_set_dropD)

lemma nonempty_keys_set: "nonempty_keys m \<Longrightarrow> k \<noteq> [] \<Longrightarrow> nonempty_keys (jm_set k v m)"
  by (auto simp: nonempty_keys_def jm_simps)

text \<open>The keys used more recently than \<open>k\<close>: those after its last entry.\<close>

fun later_keys :: "string \<Rightarrow> (string, 'v) jsmap \<Rightarrow> string list" where
  "later_keys k [] = []"
| "later_keys k ((k', v) # m) = (if k' = k then jm_keys m else later_keys k m)"

lemma later_keys_absent: "jm_get m k = None \<Longrightarrow> later_keys k m = []"
  by (induction m) (auto split: if_splits)

lemma later_keys_append: "jm_get m k \<noteq> None \<Longrightarrow> later_keys k (m @ m') = later_keys k m @ jm_keys m'"
  by (induction m) (auto simp: jm_keys_def split: if_splits)

lemma later_keys_at_end: "jm_get m k = None \<Longrightarrow> later_keys k (m @ [(k, v)]) = []"
  by (induction m) (auto simp: jm_keys_def split: if_splits)

lemma later_keys_filter: "set (later_keys k (filter P m)) \<subseteq> set (later_keys k m) \<or> \<not> jm_ok m"
proof (induction m)
  case Nil
  then show ?case by simp
next
  case (Cons p m)
  obtain a v where p: "p = (a, v)" by (cases p)
  show ?case
  proof (cases "jm_ok (p # m)")
    case True
    then have ok: "jm_ok m" by (rule jm_ok_tl)
    show ?thesis
    proof (cases "a = k")
      case True': True
      then have "jm_get m k = None" using True p by (auto simp: jm_ok_def jm_keys_def jm_get_None_iff)
      then have "k \<notin> set (jm_keys (filter P m))"
        using jm_keys_filter_subset [of P m] by (auto simp: jm_get_None_iff)
      then have "later_keys k (filter P m) = []" by (simp add: later_keys_absent jm_get_None_iff)
      then show ?thesis using True' p jm_keys_filter_subset [of P m] by auto
    next
      case False
      then show ?thesis using Cons ok p by auto
    qed
  qed simp
qed

lemma get_drop:
  assumes "jm_ok m" "jm_get m k = Some v" "n + length (later_keys k m) < length m"
  shows "jm_get (drop n m) k = Some v \<and> later_keys k (drop n m) = later_keys k m"
  using assms
proof (induction m arbitrary: n)
  case Nil
  then show ?case by simp
next
  case (Cons p m)
  obtain a w where p: "p = (a, w)" by (cases p)
  have ok: "jm_ok m" using Cons.prems(1) by (rule jm_ok_tl)
  show ?case
  proof (cases n)
    case 0
    then show ?thesis using Cons.prems by simp
  next
    case (Suc n')
    show ?thesis
    proof (cases "a = k")
      case True
      then show ?thesis using Cons.prems(3) p Suc by (simp add: jm_keys_def)
    next
      case False
      then show ?thesis using Cons.IH [OF ok, of n'] Cons.prems p Suc by simp
    qed
  qed
qed

lemma later_keys_short: "jm_get m k = Some v \<Longrightarrow> length (later_keys k m) < length m"
  by (induction m) (auto simp: jm_keys_def split: if_splits)

section \<open>The discipline\<close>

locale expiring_cache =
  fixes cap :: nat and expires :: "'v \<Rightarrow> int"
  assumes cap_pos: "0 < cap"
begin

definition ok :: "(string, 'v) jsmap \<Rightarrow> bool" where
  "ok m \<longleftrightarrow> jm_ok m \<and> nonempty_keys m \<and> length m \<le> cap"

lemma ok_empty: "ok []"
  by (simp add: ok_def nonempty_keys_def jm_keys_def)

lemma prune_drop:
  assumes "nonempty_keys m"
  shows "prune cap expires now m =
    drop (Suc (length (filter (\<lambda>(k, v). now < expires v) m)) - cap) (filter (\<lambda>(k, v). now < expires v) m)"
  unfolding prune_def by (rule evict_suffix [OF nonempty_keys_filter [OF assms]])

lemma prune_ok:
  assumes "ok m"
  shows "ok (prune cap expires now m)" "length (prune cap expires now m) < cap"
proof -
  have m: "jm_ok m" "nonempty_keys m" using assms by (simp_all add: ok_def)
  let ?f = "filter (\<lambda>(k, v). now < expires v) m"
  have len: "length (prune cap expires now m) < cap"
    using cap_pos by (simp add: prune_drop [OF m(2)])
  moreover have "jm_ok (prune cap expires now m)"
    unfolding prune_drop [OF m(2)] by (rule jm_ok_drop [OF jm_ok_filter [OF m(1)]])
  moreover have "nonempty_keys (prune cap expires now m)"
    unfolding prune_drop [OF m(2)] by (rule nonempty_keys_drop [OF nonempty_keys_filter [OF m(2)]])
  ultimately show "ok (prune cap expires now m)" "length (prune cap expires now m) < cap"
    by (simp_all add: ok_def)
qed

lemma insert_ok:
  assumes "ok m" "k \<noteq> []"
  shows "ok (cache_insert cap expires k v now m)"
  using prune_ok [OF assms(1), of now] assms(2)
  by (auto simp: ok_def cache_insert_def jm_length_set intro: inv_intros nonempty_keys_set)

lemma touch_ok:
  assumes "ok m" "jm_get m k = Some v"
  shows "ok (jm_touch k w m)"
  using assms jm_length_touch_present [of m k w] jm_get_SomeD [OF assms(2)]
  by (auto simp: ok_def nonempty_keys_def jm_simps inv_intros)

lemma delete_ok: "ok m \<Longrightarrow> ok (jm_delete k m)"
  using jm_length_delete_le [of k m] by (auto simp: ok_def nonempty_keys_def jm_simps inv_intros)

text \<open>An unexpired entry leaves only when at least \<open>cap - 1\<close> others were used after it.\<close>

lemma prune_keeps_recent:
  assumes "ok m" "jm_get m k = Some v" "now < expires v" "Suc (length (later_keys k m)) < cap"
  shows "jm_get (prune cap expires now m) k = Some v \<and>
    set (later_keys k (prune cap expires now m)) \<subseteq> set (later_keys k m)"
proof -
  let ?f = "filter (\<lambda>(k, v). now < expires v) m"
  have m: "jm_ok m" "nonempty_keys m" using assms(1) by (simp_all add: ok_def)
  have get: "jm_get ?f k = Some v" using jm_get_filter [OF m(1), of "\<lambda>k v. now < expires v" k] assms(2,3) by simp
  have sub: "set (later_keys k ?f) \<subseteq> set (later_keys k m)" using later_keys_filter m(1) by blast
  have dist: "distinct (later_keys k n)" if "jm_ok n" for n :: "(string, 'v) jsmap"
    using that by (induction k n rule: later_keys.induct) (auto simp: jm_ok_def jm_keys_def)
  have "card (set (later_keys k ?f)) \<le> card (set (later_keys k m))" using sub by (simp add: card_mono)
  then have le: "length (later_keys k ?f) \<le> length (later_keys k m)"
    using dist [OF m(1)] dist [OF jm_ok_filter [OF m(1), of "\<lambda>(k, v). now < expires v"]] by (simp add: distinct_card)
  have "?f \<noteq> []" using get by auto
  then have "Suc (length ?f) - cap + length (later_keys k ?f) < length ?f"
    using le assms(4) later_keys_short [OF get] by linarith
  then show ?thesis
    using get_drop [OF jm_ok_filter [OF m(1), of "\<lambda>(k, v). now < expires v"] get] sub
    by (simp add: prune_drop [OF m(2)])
qed

lemma later_distinct: "jm_ok n \<Longrightarrow> distinct (later_keys k n)"
  by (induction k n rule: later_keys.induct) (auto simp: jm_ok_def jm_keys_def)

lemma later_delete:
  assumes "jm_ok m" "k' \<noteq> k"
  shows "set (later_keys k (jm_delete k' m)) \<subseteq> set (later_keys k m)"
  using later_keys_filter [of k "\<lambda>(a, v). k' \<noteq> a" m] assms(1)
  by (simp add: jm_delete_def AList.delete_eq)

lemma keys_set_present: "jm_get m k \<noteq> None \<Longrightarrow> jm_keys (jm_set k v m) = jm_keys m"
  using jm_get_None_iff [of m k] by (simp add: jm_keys_def jm_set_def update_keys)

lemma later_set_present:
  assumes "jm_get m k' \<noteq> None" "k' \<noteq> k"
  shows "later_keys k (jm_set k' w m) = later_keys k m"
  using assms(1)
proof (induction m)
  case Nil
  then show ?case by simp
next
  case (Cons p m)
  obtain a x where p: "p = (a, x)" by (cases p)
  consider "a = k" | "a = k'" | "a \<noteq> k" "a \<noteq> k'" by blast
  then show ?case
  proof cases
    case 1
    then have "jm_get m k' \<noteq> None" using Cons.prems p assms(2) by simp
    then show ?thesis using keys_set_present [of m k' w] 1 p assms(2) by (simp add: jm_set_def)
  next
    case 2
    then show ?thesis using p assms(2) by (simp add: jm_set_def)
  next
    case 3
    then show ?thesis using Cons p by (simp add: jm_set_def)
  qed
qed

lemma step_keeps:
  assumes inv: "ok m" "jm_get m k = Some v" "set (later_keys k m) \<subseteq> A"
    and A: "finite A" "Suc (card A) < cap" and op: "harmless k (expires v) op" "op_key op \<in> insert k A"
  shows "ok (cache_step cap expires op m) \<and> jm_get (cache_step cap expires op m) k = Some v \<and>
    set (later_keys k (cache_step cap expires op m)) \<subseteq> A"
proof -
  have okm: "jm_ok m" using inv(1) by (simp add: ok_def)
  show ?thesis
  proof (cases op)
    case (Insert k' w now)
    then have k': "k' \<noteq> k" "k' \<noteq> []" "now < expires v" "k' \<in> A" using op by auto
    let ?p = "prune cap expires now m"
    have "card (set (later_keys k m)) \<le> card A" using A(1) inv(3) by (rule card_mono)
    then have "Suc (length (later_keys k m)) < cap"
      using A(2) distinct_card [OF later_distinct [OF okm, of k]] by simp
    then have p: "jm_get ?p k = Some v" "set (later_keys k ?p) \<subseteq> A"
      using prune_keeps_recent [OF inv(1,2) k'(3)] inv(3) by auto
    have "set (later_keys k (jm_set k' w ?p)) \<subseteq> A"
    proof (cases "jm_get ?p k'")
      case None
      then show ?thesis using p k'(4) by (simp add: jm_set_absent later_keys_append jm_keys_def)
    next
      case (Some w')
      then have "later_keys k (jm_set k' w ?p) = later_keys k ?p" using k'(1) by (intro later_set_present) simp_all
      then show ?thesis using Some p by simp
    qed
    then show ?thesis using Insert k' p insert_ok [OF inv(1) k'(2)] by (simp add: cache_insert_def jm_simps)
  next
    case (Use k' now)
    show ?thesis
    proof (cases "k' = k")
      case True
      then have step: "cache_step cap expires op m = jm_touch k v m" using Use op(1) inv(2) by auto
      have "later_keys k (jm_touch k v m) = []"
        by (simp add: jm_touch_last later_keys_at_end jm_get_delete)
      then show ?thesis using touch_ok [OF inv(1,2)] by (simp add: step jm_simps)
    next
      case False
      then have k': "k' \<in> A" using op(2) Use by simp
      consider (none) "cache_step cap expires op m = m" | (del) "cache_step cap expires op m = jm_delete k' m"
        | (touch) w where "cache_step cap expires op m = jm_touch k' w m" "jm_get m k' = Some w"
      proof (cases "jm_get m k'")
        case None
        then show ?thesis using Use none by simp
      next
        case (Some w)
        then show ?thesis using Use del touch [of w] by (cases "expires w \<le> now") simp_all
      qed
      then show ?thesis
      proof cases
        case none
        then show ?thesis using inv by simp
      next
        case del
        then show ?thesis using inv False later_delete [OF okm False] delete_ok [OF inv(1)] by (auto simp: jm_simps)
      next
        case touch
        have "jm_get (jm_delete k' m) k \<noteq> None" using inv(2) False by (simp add: jm_simps)
        then have "set (later_keys k (jm_touch k' w m)) \<subseteq> A"
          using later_delete [OF okm False] inv(3) k' by (auto simp: jm_touch_last later_keys_append jm_keys_def)
        then show ?thesis using touch False inv touch_ok [OF inv(1) touch(2)] by (simp add: jm_simps)
      qed
    qed
  next
    case (Remove k')
    then show ?thesis using op(1) inv later_delete [OF okm] delete_ok [OF inv(1)] by (auto simp: jm_simps)
  qed
qed

text \<open>A used entry outlives fewer than \<open>cap - 1\<close> other keys.\<close>

lemma steps_keep:
  assumes "ok m" "jm_get m k = Some v" "set (later_keys k m) \<subseteq> A" "finite A" "Suc (card A) < cap"
    and "\<forall>op \<in> set ops. harmless k (expires v) op \<and> op_key op \<in> insert k A"
  shows "ok (fold (cache_step cap expires) ops m) \<and> jm_get (fold (cache_step cap expires) ops m) k = Some v \<and>
    set (later_keys k (fold (cache_step cap expires) ops m)) \<subseteq> A"
  using assms(1-3,6)
proof (induction ops arbitrary: m)
  case Nil
  then show ?case by simp
next
  case (Cons op ops)
  then have "ok (cache_step cap expires op m) \<and> jm_get (cache_step cap expires op m) k = Some v \<and>
    set (later_keys k (cache_step cap expires op m)) \<subseteq> A"
    using assms(4,5) by (intro step_keeps) auto
  then show ?case using Cons.IH [of "cache_step cap expires op m"] Cons.prems(4) by simp
qed

lemma step_ok:
  assumes "ok m" "op_key op \<noteq> []"
  shows "ok (cache_step cap expires op m)"
  using assms insert_ok delete_ok touch_ok
  by (cases op) (auto split: option.split)

lemma prune_get:
  assumes "ok m" "jm_get (prune cap expires now m) k = Some v"
  shows "jm_get m k = Some v"
proof -
  have ne: "nonempty_keys m" "jm_ok m" using assms(1) by (simp_all add: ok_def)
  have "(k, v) \<in> set m" using jm_get_in [OF assms(2)] by (auto simp: prune_drop [OF ne(1)] dest!: in_set_dropD)
  then show ?thesis by (rule jm_in_get [OF ne(2)])
qed

lemma step_values:
  assumes "ok m" "\<forall>k v. jm_get m k = Some v \<longrightarrow> P v" "\<forall>k v t. op = Insert k v t \<longrightarrow> P v"
  shows "\<forall>k v. jm_get (cache_step cap expires op m) k = Some v \<longrightarrow> P v"
proof -
  have pruned: "P v" if "jm_get (prune cap expires now m) k = Some v" for k v now
    using prune_get [OF assms(1) that] assms(2) by blast
  show ?thesis using assms(2,3) pruned
    by (cases op) (auto simp: cache_insert_def jm_simps split: option.splits if_splits)
qed

end

end
