(* ===== verification/Auth.thy ===== *)
theory Auth
  imports RuntimeConfig AuthThrottle LruCache Base64Url ProxyPath
begin

text \<open>
  Authentication and authorization of the BFF (\<open>server/auth.ts\<close>): static sessions, signed
  double-submit CSRF tokens, the trusted-proxy principal, the failure throttle in front of both
  secrets, the namespace ceiling, and the login, session and logout handlers. The clock, the
  random identifiers and the HMAC (\<open>mac secret subject expiry\<close>, as base64url text) are
  arguments; time is in milliseconds.
\<close>

record session =
  se_principal :: principal
  se_csrf :: string
  se_expires_at :: int

definition max_static_sessions :: nat where
  "max_static_sessions = 256"

text \<open>\<open>throttleState\<close>: the throttle with the limits it was built for.\<close>

record auth_state =
  au_sessions :: "(string, session) jsmap"
  au_throttle :: throttle
  au_limits :: "(int \<times> int) option"

datatype header_value = Single string | Repeated "string list"

record auth_request =
  ar_method :: string
  ar_headers :: "string \<Rightarrow> header_value option"
  ar_raw_names :: "string list"
  ar_cookies :: "string \<Rightarrow> string option"
  ar_address :: "string option"
  ar_target :: http_request

datatype auth_reply = Rejected nat string | LockedOut int

section \<open>Requests\<close>

definition safe_equal :: "string \<Rightarrow> string \<Rightarrow> bool" where
  "safe_equal a b \<longleftrightarrow> concat (map (\<lambda>c. utf8 (of_char c)) a) = concat (map (\<lambda>c. utf8 (of_char c)) b)"

definition single_header :: "auth_request \<Rightarrow> string \<Rightarrow> string option" where
  "single_header r name =
     (case ar_headers r name of
        Some (Single v) \<Rightarrow> if js_trim v = [] then None else Some (js_trim v)
      | _ \<Rightarrow> None)"

record cookie_names =
  cn_session :: string
  cn_csrf :: string

definition names_of_cookies :: "config \<Rightarrow> cookie_names" where
  "names_of_cookies cfg =
     (if cf_secure_cookies cfg
      then \<lparr>cn_session = ''__Host-ferrum-foundry-session'', cn_csrf = ''__Host-ferrum-foundry-csrf''\<rparr>
      else \<lparr>cn_session = ''ferrum-foundry-session'', cn_csrf = ''ferrum-foundry-csrf''\<rparr>)"

definition throttle_key :: "auth_request \<Rightarrow> string" where
  "throttle_key r = (case ar_address r of Some a \<Rightarrow> a | None \<Rightarrow> ''unknown'')"

definition throttle_of :: "config \<Rightarrow> throttle_options" where
  "throttle_of cfg = auth_throttle_options (nat (cf_auth_max_failures cfg)) (cf_auth_lockout_seconds cfg)"

text \<open>\<open>authThrottle\<close>: a new throttle when the limits changed.\<close>

definition ensure_throttle :: "config \<Rightarrow> auth_state \<Rightarrow> auth_state" where
  "ensure_throttle cfg st =
     (let limits = (cf_auth_max_failures cfg, cf_auth_lockout_seconds cfg) in
      if au_limits st = Some limits then st
      else st\<lparr>au_throttle := new_throttle, au_limits := Some limits\<rparr>)"

definition locked_ms :: "config \<Rightarrow> auth_request \<Rightarrow> int \<Rightarrow> auth_state \<Rightarrow> int" where
  "locked_ms cfg r now st = locked_for (throttle_of cfg) (au_throttle st) (throttle_key r) now"

definition note_auth_failure :: "config \<Rightarrow> auth_request \<Rightarrow> int \<Rightarrow> auth_state \<Rightarrow> auth_state" where
  "note_auth_failure cfg r now st =
     st\<lparr>au_throttle := fst (record_failure (throttle_of cfg) now (throttle_key r) (au_throttle st))\<rparr>"

definition reject_locked_out :: "config \<Rightarrow> auth_request \<Rightarrow> int \<Rightarrow> auth_state \<Rightarrow> auth_reply" where
  "reject_locked_out cfg r now st =
     LockedOut (max 1 ((locked_ms cfg r now st + 999) div 1000))"

section \<open>Static sessions\<close>

definition prune_sessions :: "int \<Rightarrow> (string, session) jsmap \<Rightarrow> (string, session) jsmap" where
  "prune_sessions now m = prune max_static_sessions se_expires_at now m"

definition read_static_session :: "config \<Rightarrow> auth_request \<Rightarrow> int \<Rightarrow> auth_state \<Rightarrow> session option \<times> auth_state" where
  "read_static_session cfg r now st =
     (case ar_cookies r (cn_session (names_of_cookies cfg)) of
        None \<Rightarrow> (None, st)
      | Some i \<Rightarrow>
          if i = [] then (None, st)
          else (case jm_get (au_sessions st) i of
                  None \<Rightarrow> (None, st)
                | Some s \<Rightarrow>
                    if se_expires_at s \<le> now
                    then (None, st\<lparr>au_sessions := jm_delete i (au_sessions st)\<rparr>)
                    else (Some s, st\<lparr>au_sessions := jm_touch i s (au_sessions st)\<rparr>)))"

definition static_principal :: "config \<Rightarrow> principal" where
  "static_principal cfg =
     \<lparr>p_subject = ''ferrum-foundry-static'', p_display = ''Local administrator'', p_role = cf_jwt_role cfg,
      p_namespaces = cf_jwt_namespaces cfg, p_mode = StaticMode\<rparr>"

section \<open>CSRF tokens of a trusted proxy\<close>

type_synonym mac = "string \<Rightarrow> string \<Rightarrow> nat \<Rightarrow> string"

definition char_bytes :: "string \<Rightarrow> nat list" where
  "char_bytes s = map of_char s"

definition bytes_text :: "nat list \<Rightarrow> string" where
  "bytes_text bs = map char_of bs"

definition issue_trusted_csrf_token :: "mac \<Rightarrow> config \<Rightarrow> string \<Rightarrow> int \<Rightarrow> string option" where
  "issue_trusted_csrf_token mac cfg subject now =
     (case cf_trusted_proxy_secret cfg of
        None \<Rightarrow> None
      | Some secret \<Rightarrow>
          if secret = [] then None
          else let expires_at = nat (now div 1000 + cf_session_ttl cfg) in
            Some (b64_encode (char_bytes (show_nat expires_at)) @ ''.'' @ mac secret subject expires_at))"

definition csrf_expiry :: "string \<Rightarrow> nat option" where
  "csrf_expiry s =
     (if s \<noteq> [] \<and> length s \<le> 15 \<and> list_all digit s \<and> int (decimal s) \<le> max_safe then Some (decimal s) else None)"

definition read_trusted_csrf_expiry :: "mac \<Rightarrow> config \<Rightarrow> string \<Rightarrow> string \<Rightarrow> int \<Rightarrow> int option" where
  "read_trusted_csrf_expiry mac cfg subject token now =
     (case cf_trusted_proxy_secret cfg of
        None \<Rightarrow> None
      | Some secret \<Rightarrow>
          (case split_on CHR ''.'' token of
             [encoded, m] \<Rightarrow>
               (case csrf_expiry (bytes_text (b64_decode encoded)) of
                  None \<Rightarrow> None
                | Some seconds \<Rightarrow>
                    let expires_at = int seconds * 1000 in
                    if secret = [] \<or> expires_at \<le> now \<or> \<not> safe_equal m (mac secret subject seconds) then None
                    else Some expires_at)
           | _ \<Rightarrow> None))"

section \<open>The trusted-proxy principal\<close>

text \<open>\<open>None\<close> is an absent header, \<open>Some None\<close> a refused one.\<close>

definition parse_trusted_namespaces :: "header_value option \<Rightarrow> string list option option" where
  "parse_trusted_namespaces v =
     (case v of
        None \<Rightarrow> None
      | Some (Repeated _) \<Rightarrow> Some None
      | Some (Single value) \<Rightarrow>
          let namespaces = js_unique (filter (\<lambda>e. e \<noteq> []) (map js_trim (split_on CHR '','' value))) in
          if namespaces = [] \<or> list_ex (\<lambda>n. \<not> is_namespace_name (cps n)) namespaces
          then Some None else Some (Some namespaces))"

definition parse_role_header :: "string option \<Rightarrow> gateway_role option" where
  "parse_role_header v =
     (case v of
        None \<Rightarrow> None
      | Some s \<Rightarrow> if s = ''viewer'' then Some Viewer else if s = ''operator'' then Some Operator
                  else if s = ''admin'' then Some Admin else None)"

definition contains_control_character :: "string \<Rightarrow> bool" where
  "contains_control_character s \<longleftrightarrow> list_ex (\<lambda>c. (of_char c :: nat) \<le> 31 \<or> (of_char c :: nat) = 127) s"

fun repeated_identity :: "string list \<Rightarrow> string list \<Rightarrow> string list \<Rightarrow> bool" where
  "repeated_identity identity seen [] = False"
| "repeated_identity identity seen (n # ns) =
     (if js_lower n \<notin> set identity then repeated_identity identity seen ns
      else if js_lower n \<in> set seen then True
      else repeated_identity identity (js_lower n # seen) ns)"

definition identity_headers :: "config \<Rightarrow> string list" where
  "identity_headers cfg =
     [trusted_proxy_secret_header, cf_user_header cfg, cf_role_header cfg, cf_namespaces_header cfg]"

definition asserted_principal :: "config \<Rightarrow> auth_request \<Rightarrow> principal option" where
  "asserted_principal cfg r =
     (let namespaces = parse_trusted_namespaces (ar_headers r (cf_namespaces_header cfg)) in
      case (single_header r (cf_user_header cfg), parse_role_header (single_header r (cf_role_header cfg))) of
        (Some subject, Some role) \<Rightarrow>
          if 254 < length subject \<or> contains_control_character subject \<or> namespaces = Some None then None
          else if role \<noteq> Admin \<and> namespaces = None then None
          else Some \<lparr>p_subject = subject, p_display = subject, p_role = role,
                     p_namespaces = (case namespaces of Some (Some ns) \<Rightarrow> Some ns | _ \<Rightarrow> None),
                     p_mode = TrustedProxy\<rparr>
      | _ \<Rightarrow> None)"

datatype proxied = Anonymous | Locked | Identity principal

definition trusted_proxy_principal :: "config \<Rightarrow> auth_request \<Rightarrow> int \<Rightarrow> auth_state \<Rightarrow> proxied \<times> auth_state" where
  "trusted_proxy_principal cfg r now st =
     (if repeated_identity (identity_headers cfg) [] (ar_raw_names r) then (Anonymous, st)
      else case (single_header r trusted_proxy_secret_header, cf_trusted_proxy_secret cfg) of
        (Some supplied, Some secret) \<Rightarrow>
          if secret = [] then (Anonymous, st)
          else let st0 = ensure_throttle cfg st in
            if 0 < locked_ms cfg r now st0 then (Locked, st0)
            else if \<not> safe_equal supplied secret then (Anonymous, note_auth_failure cfg r now st0)
            else (case asserted_principal cfg r of Some p \<Rightarrow> Identity p | None \<Rightarrow> Anonymous,
                  st0\<lparr>au_throttle := note_authenticated (throttle_of cfg) now now (throttle_key r) (au_throttle st0)\<rparr>)
      | _ \<Rightarrow> (Anonymous, st))"

section \<open>Guards\<close>

definition csrf_is_valid :: "mac \<Rightarrow> config \<Rightarrow> auth_request \<Rightarrow> int \<Rightarrow> principal \<Rightarrow> session option \<Rightarrow> bool" where
  "csrf_is_valid mac cfg r now p sess =
     (if ar_method r \<in> {''GET'', ''HEAD'', ''OPTIONS''} then True
      else case (ar_cookies r (cn_csrf (names_of_cookies cfg)), single_header r ''x-csrf-token'') of
        (Some cookie, Some header) \<Rightarrow>
          if cookie = [] \<or> \<not> safe_equal cookie header then False
          else (case sess of
                  Some s \<Rightarrow> safe_equal (se_csrf s) header
                | None \<Rightarrow> read_trusted_csrf_expiry mac cfg (p_subject p) header now \<noteq> None)
      | _ \<Rightarrow> False)"

definition current_principal ::
  "config \<Rightarrow> auth_request \<Rightarrow> int \<Rightarrow> auth_state \<Rightarrow> session option \<times> proxied \<times> auth_state" where
  "current_principal cfg r now st =
     (let (sess, st1) = (if cf_auth_mode cfg = StaticMode then read_static_session cfg r now st else (None, st)) in
      case sess of
        Some s \<Rightarrow> (Some s, Identity (se_principal s), st1)
      | None \<Rightarrow> (case trusted_proxy_principal cfg r now st1 of (px, st2) \<Rightarrow> (None, px, st2)))"

definition resolve_principal :: "config \<Rightarrow> auth_request \<Rightarrow> int \<Rightarrow> auth_state \<Rightarrow> principal option \<times> auth_state" where
  "resolve_principal cfg r now st =
     (if cf_auth_mode cfg = TrustedProxy
      then (case trusted_proxy_principal cfg r now st of
              (Identity p, st') \<Rightarrow> (Some p, st') | (_, st') \<Rightarrow> (None, st'))
      else (case read_static_session cfg r now st of (s, st') \<Rightarrow> (map_option se_principal s, st')))"

definition require_admin_auth ::
  "mac \<Rightarrow> config \<Rightarrow> auth_request \<Rightarrow> int \<Rightarrow> auth_state \<Rightarrow> (auth_reply + principal) \<times> auth_state" where
  "require_admin_auth mac cfg r now st =
     (case current_principal cfg r now st of
        (sess, Locked, st') \<Rightarrow> (Inl (reject_locked_out cfg r now st'), st')
      | (sess, Anonymous, st') \<Rightarrow> (Inl (Rejected 401 ''Unauthorized''), st')
      | (sess, Identity p, st') \<Rightarrow>
          if \<not> csrf_is_valid mac cfg r now p sess
          then (Inl (Rejected 403 ''CSRF validation failed''), st') else (Inr p, st'))"

definition require_role ::
  "gateway_role \<Rightarrow> mac \<Rightarrow> config \<Rightarrow> auth_request \<Rightarrow> int \<Rightarrow> auth_state \<Rightarrow> (auth_reply + principal) \<times> auth_state" where
  "require_role required mac cfg r now st =
     (case require_admin_auth mac cfg r now st of
        (Inl e, st') \<Rightarrow> (Inl e, st')
      | (Inr p, st') \<Rightarrow> if p_role p < required then (Inl (Rejected 403 ''Insufficient role''), st') else (Inr p, st'))"

definition require_namespace_ceiling :: "bool \<Rightarrow> auth_request \<Rightarrow> principal \<Rightarrow> auth_reply option" where
  "require_namespace_ceiling caret r p =
     (case p_namespaces p of
        None \<Rightarrow> None
      | Some grants \<Rightarrow>
          if \<not> is_proxy_route (ar_target r) then None
          else if \<not> allowed_for_namespace caret (ar_target r) then Some (Rejected 403 ''Namespace access denied'')
          else if edge_namespace_safe_global caret (ar_target r) then None
          else (case single_header r ''x-ferrum-namespace'' of
                  Some n \<Rightarrow> if n \<in> set grants then None else Some (Rejected 403 ''Namespace access denied'')
                | None \<Rightarrow> Some (Rejected 403 ''Namespace access denied'')))"

section \<open>Handlers\<close>

record login_answer =
  la_principal :: principal
  la_csrf_token :: string
  la_csrf_cookie :: string
  la_session_id :: "string option"
  la_expires_at :: "int option"

text \<open>\<open>POST /api/auth/login\<close>: \<open>token\<close> is the body's token when it is a string; \<open>sid\<close> and
  \<open>csrf\<close> are the fresh random identifiers.\<close>

definition login_token_ok :: "config \<Rightarrow> string \<Rightarrow> bool" where
  "login_token_ok cfg t =
     (case cf_bff_auth_token cfg of None \<Rightarrow> False | Some secret \<Rightarrow> secret \<noteq> [] \<and> safe_equal t secret)"

definition login ::
  "config \<Rightarrow> auth_request \<Rightarrow> string option \<Rightarrow> string \<Rightarrow> string \<Rightarrow> int \<Rightarrow> auth_state \<Rightarrow> (auth_reply + login_answer) \<times> auth_state" where
  "login cfg r token sid csrf now st =
     (if cf_auth_mode cfg \<noteq> StaticMode then (Inl (Rejected 404 ''Not Found''), st)
      else let st0 = ensure_throttle cfg st in
        if 0 < locked_ms cfg r now st0 then (Inl (reject_locked_out cfg r now st0), st0)
        else case token of
          None \<Rightarrow> (Inl (Rejected 401 ''Unauthorized''), st0)
        | Some t \<Rightarrow>
            if \<not> login_token_ok cfg t then (Inl (Rejected 401 ''Unauthorized''), note_auth_failure cfg r now st0)
            else
              let sess = \<lparr>se_principal = static_principal cfg, se_csrf = csrf,
                          se_expires_at = now + cf_session_ttl cfg * 1000\<rparr>
              in (Inr \<lparr>la_principal = static_principal cfg, la_csrf_token = csrf,
                      la_csrf_cookie = cn_csrf (names_of_cookies cfg), la_session_id = Some sid,
                      la_expires_at = Some (se_expires_at sess)\<rparr>,
                  st0\<lparr>au_throttle := record_success (throttle_of cfg) now now (throttle_key r) (au_throttle st0),
                     au_sessions := jm_set sid sess (prune_sessions now (au_sessions st0))\<rparr>))"

text \<open>\<open>GET /api/auth/session\<close>. A token is reissued inside the final quarter of its life.\<close>

definition session_token :: "mac \<Rightarrow> config \<Rightarrow> auth_request \<Rightarrow> int \<Rightarrow> principal \<Rightarrow> string option" where
  "session_token mac cfg r now p =
     (case ar_cookies r (cn_csrf (names_of_cookies cfg)) of
        Some cookie \<Rightarrow>
          (case (if cookie = [] then None else read_trusted_csrf_expiry mac cfg (p_subject p) cookie now) of
             Some expires_at \<Rightarrow>
               if cf_session_ttl cfg * 250 < expires_at - now then Some cookie
               else issue_trusted_csrf_token mac cfg (p_subject p) now
           | None \<Rightarrow> issue_trusted_csrf_token mac cfg (p_subject p) now)
      | None \<Rightarrow> issue_trusted_csrf_token mac cfg (p_subject p) now)"

definition session_handler ::
  "mac \<Rightarrow> config \<Rightarrow> auth_request \<Rightarrow> int \<Rightarrow> auth_state \<Rightarrow> (auth_reply + login_answer) \<times> auth_state" where
  "session_handler mac cfg r now st =
     (case current_principal cfg r now st of
        (sess, Locked, st') \<Rightarrow> (Inl (reject_locked_out cfg r now st'), st')
      | (sess, Anonymous, st') \<Rightarrow> (Inl (Rejected 401 ''Unauthorized''), st')
      | (sess, Identity p, st') \<Rightarrow>
          (case (case sess of Some s \<Rightarrow> Some (se_csrf s) | None \<Rightarrow> session_token mac cfg r now p) of
             None \<Rightarrow> (Inl (Rejected 401 ''Unauthorized''), st')
           | Some token \<Rightarrow>
               if token = [] then (Inl (Rejected 401 ''Unauthorized''), st')
               else (Inr \<lparr>la_principal = p, la_csrf_token = token, la_csrf_cookie = cn_csrf (names_of_cookies cfg),
                         la_session_id = None, la_expires_at = map_option se_expires_at sess\<rparr>, st')))"

definition logout :: "mac \<Rightarrow> config \<Rightarrow> auth_request \<Rightarrow> int \<Rightarrow> auth_state \<Rightarrow> (auth_reply + unit) \<times> auth_state" where
  "logout mac cfg r now st =
     (case require_admin_auth mac cfg r now st of
        (Inl e, st') \<Rightarrow> (Inl e, st')
      | (Inr p, st') \<Rightarrow>
          (Inr (), (case ar_cookies r (cn_session (names_of_cookies cfg)) of
                      None \<Rightarrow> st'
                    | Some sid \<Rightarrow> if sid = [] then st'
                                  else st'\<lparr>au_sessions := jm_delete sid (au_sessions st')\<rparr>)))"


section \<open>Lockouts\<close>

lemma ensure_throttle_idem [simp]: "ensure_throttle cfg (ensure_throttle cfg st) = ensure_throttle cfg st"
  by (simp add: ensure_throttle_def Let_def)

lemma ensure_throttle_sessions [simp]: "au_sessions (ensure_throttle cfg st) = au_sessions st"
  by (simp add: ensure_throttle_def Let_def)

lemma note_auth_failure_sel [simp]:
  "au_sessions (note_auth_failure cfg r now st) = au_sessions st"
  "au_limits (note_auth_failure cfg r now st) = au_limits st"
  by (simp_all add: note_auth_failure_def)

lemma ensure_note_failure [simp]:
  "ensure_throttle cfg (note_auth_failure cfg r now (ensure_throttle cfg st)) = note_auth_failure cfg r now (ensure_throttle cfg st)"
  by (simp add: ensure_throttle_def Let_def)

text \<open>An address nothing is held against: its next failures are counted from zero.\<close>

definition clean_for :: "throttle_options \<Rightarrow> throttle \<Rightarrow> string \<Rightarrow> bool" where
  "clean_for opt t k \<longleftrightarrow>
     throttle_inv opt t \<and>
     (case own_entry t k of
        Some e \<Rightarrow> e = new_entry
      | None \<Rightarrow> overflow t = new_entry \<and> length (entries t) < max_keys opt)"

lemma refresh_new [simp]: "refresh opt new_entry now = new_entry"
  by (simp add: refresh_def)

lemma first_failure_as_clean:
  assumes "enabled opt" "own_entry t k = None" "overflow t = new_entry" "length (entries t) < max_keys opt"
  shows "record_failure opt n k t = record_failure opt n k (t\<lparr>entries := jm_set k new_entry (entries t)\<rparr>)"
proof -
  have none: "jm_get (trusted t) k = None" "jm_get (entries t) k = None"
    using assms(2) by (auto simp: own_entry_def split: option.splits)
  have "jm_touch k e (jm_set k new_entry (entries t)) = jm_set k e (entries t)" for e
  proof -
    have "jm_delete k (entries t @ [(k, new_entry)]) = entries t"
      using none(2) by (simp add: jm_delete_def AList.delete_eq jm_get_None_iff jm_keys_def) (force intro: filter_True)
    then show ?thesis using none(2) by (simp add: jm_touch_last jm_set_absent)
  qed
  then show ?thesis using assms none
    by (simp add: record_failure_def jm_simps copy_of_overflow_def Let_def split: prod.splits)
qed

lemma clean_as_own:
  assumes clean: "clean_for opt t k" and on: "enabled opt"
  obtains t0 where "throttle_inv opt t0" "own_entry t0 k = Some new_entry"
    "\<And>n. record_failure opt n k t = record_failure opt n k t0"
proof (cases "own_entry t k")
  case None
  then have none: "overflow t = new_entry" "length (entries t) < max_keys opt" "jm_get (trusted t) k = None"
    using clean by (auto simp: clean_for_def own_entry_def split: option.splits)
  have "own_entry (t\<lparr>entries := jm_set k new_entry (entries t)\<rparr>) k = Some new_entry"
    using none(3) by (simp add: own_entry_def jm_simps)
  moreover have "throttle_inv opt t" using clean by (simp add: clean_for_def)
  ultimately show ?thesis
    using that [OF inv_add_entry [OF _ none(3,2)], of new_entry] first_failure_as_clean [OF on None none(1,2)] by blast
next
  case (Some e)
  then show ?thesis using that [of t] clean by (simp add: clean_for_def)
qed

lemma failures_of_clean:
  assumes clean: "clean_for opt t k" and on: "enabled opt" "0 < window_ms opt"
    and ts: "sorted ts" "below_limit opt ts" "ts \<noteq> []"
  shows "throttle_inv opt (throttle_run opt t (map (Fail k) ts))"
    and "own_entry (throttle_run opt t (map (Fail k) ts)) k =
      Some (new_entry\<lparr>failures := in_window opt (last ts) ts\<rparr>)"
proof -
  obtain t0 where t0: "throttle_inv opt t0" "own_entry t0 k = Some new_entry"
    "\<And>n. record_failure opt n k t = record_failure opt n k t0"
    using clean_as_own [OF clean on(1)] by blast
  then have eq: "throttle_run opt t (map (Fail k) ts) = throttle_run opt t0 (map (Fail k) ts)"
    using ts(3) by (cases ts) (simp_all add: throttle_run_def)
  show "throttle_inv opt (throttle_run opt t (map (Fail k) ts))"
    unfolding eq by (rule throttle_run_inv [OF t0(1)])
  show "own_entry (throttle_run opt t (map (Fail k) ts)) k =
      Some (new_entry\<lparr>failures := in_window opt (last ts) ts\<rparr>)"
    using fail_run_entry [OF t0(1) on(1) t0(2) ts(1) on(2) ts(2)] ts(3) by (simp add: eq)
qed

lemma throttle_run_snoc:
  "throttle_run opt t (map (Fail k) (ts @ [n])) = fst (record_failure opt n k (throttle_run opt t (map (Fail k) ts)))"
  by (simp add: throttle_run_def)

lemma in_window_length_le: "length (in_window opt now ts) \<le> length ts"
  by (simp add: in_window_def)

lemma below_limit_short: "length ts < max_failures opt \<Longrightarrow> below_limit opt ts"
  unfolding below_limit_def using in_window_length_le [of opt] by (metis length_take less_imp_le_nat min.absorb2 Suc_leI le_less_trans order_trans)

lemma count_lockout:
  assumes "length (in_window opt n (failures e)) + 1 \<ge> max_failures opt"
  shows "fst (count opt e n) = \<lparr>failures = [], locked_until = n + lockout_length opt (lockouts e), lockouts = Suc (lockouts e)\<rparr>"
  using assms by (simp add: count_def in_window_def Let_def)

text \<open>The failure that completes the limit locks the address out.\<close>

lemma clean_locked_out:
  assumes clean: "clean_for opt t k" and on: "enabled opt" "0 < window_ms opt"
    and ts: "sorted (ts @ [n])" "Suc (length ts) = max_failures opt" "in_window opt n ts = ts"
  shows "own_entry (throttle_run opt t (map (Fail k) (ts @ [n]))) k =
    Some \<lparr>failures = [], locked_until = n + lockout_length opt 0, lockouts = 1\<rparr>"
proof (cases "ts = []")
  case True
  obtain t0 where t0: "throttle_inv opt t0" "own_entry t0 k = Some new_entry"
    "\<And>n. record_failure opt n k t = record_failure opt n k t0"
    using clean_as_own [OF clean on(1)] by blast
  show ?thesis using True ts(2) record_failure_own(1) [OF t0(1) on(1) t0(2), of n]
    by (simp add: throttle_run_def t0(3) count_lockout) (simp add: new_entry_def)
next
  case False
  let ?e = "new_entry\<lparr>failures := in_window opt (last ts) ts\<rparr>"
  have below: "below_limit opt ts"
    using ts(2) by (intro below_limit_short) simp
  have s: "sorted ts" "last ts \<le> n" using ts(1) False by (auto simp: sorted_append)
  note own = failures_of_clean [OF clean on s(1) below False]
  have w: "in_window opt n (in_window opt (last ts) ts) = ts"
    using in_window_shrinks [OF s(2), of opt ts] ts(3) by simp
  have "\<not> is_stale opt ?e n"
    using stale_window_empty [of ?e opt n] w False sorted_in_window [OF s(1), of opt "last ts"] by auto
  then show ?thesis using record_failure_own(1) [OF own(1) on(1) own(2), of n] w ts(2)
    unfolding throttle_run_snoc by (simp add: refresh_def count_lockout) (simp add: new_entry_def)
qed

text \<open>Login attempts from one address: the tokens and their times, oldest first.\<close>

definition guesses :: "config \<Rightarrow> auth_request \<Rightarrow> (string \<times> int) list \<Rightarrow> auth_state \<Rightarrow> auth_state" where
  "guesses cfg r attempts st = fold (\<lambda>(t, now) s. snd (login cfg r (Some t) [] [] now s)) attempts st"

lemma wrong_login:
  assumes "cf_auth_mode cfg = StaticMode" "\<not> login_token_ok cfg t" "locked_ms cfg r now (ensure_throttle cfg st) = 0"
  shows "snd (login cfg r (Some t) sid csrf now st) = note_auth_failure cfg r now (ensure_throttle cfg st)"
  using assms by (simp add: login_def Let_def)

lemma clean_not_locked: "clean_for (throttle_of cfg) (au_throttle st) (throttle_key r) \<Longrightarrow> 0 \<le> now \<Longrightarrow> locked_ms cfg r now st = 0"
  by (auto simp: clean_for_def locked_ms_def locked_for_def new_entry_def split: option.splits)

lemma guesses_counted:
  assumes mode: "cf_auth_mode cfg = StaticMode" and opt: "opt = throttle_of cfg" "enabled opt"
    and clean: "clean_for opt (au_throttle (ensure_throttle cfg st)) (throttle_key r)"
    and wrong: "\<forall>a \<in> set attempts. \<not> login_token_ok cfg (fst a) \<and> 0 \<le> snd a"
    and ts: "sorted (map snd attempts)" "\<forall>i < length attempts. below_limit opt (map snd (take i attempts))"
    and ne: "attempts \<noteq> []"
  shows "guesses cfg r attempts st =
    (ensure_throttle cfg st)\<lparr>au_throttle :=
       throttle_run opt (au_throttle (ensure_throttle cfg st)) (map (Fail (throttle_key r)) (map snd attempts))\<rparr>"
  using wrong ts ne
proof (induction attempts rule: rev_induct)
  case Nil
  then show ?case by simp
next
  case (snoc a as)
  obtain t n where a: "a = (t, n)" by (cases a)
  let ?st = "ensure_throttle cfg st" and ?k = "throttle_key r"
  have w: "\<not> login_token_ok cfg t" "0 \<le> n" using snoc.prems(1) a by auto
  have below: "below_limit opt (map snd as)" using snoc.prems(3) by (auto dest: spec [of _ "length as"])
  have window: "0 < window_ms opt" by (simp add: opt throttle_of_def auth_throttle_options_def)
  define s1 where "s1 = guesses cfg r as st"
  have s1: "ensure_throttle cfg s1 = ?st\<lparr>au_throttle := throttle_run opt (au_throttle ?st) (map (Fail ?k) (map snd as))\<rparr>
      \<and> locked_ms cfg r n (ensure_throttle cfg s1) = 0"
  proof (cases "as = []")
    case True
    then show ?thesis using clean_not_locked [of cfg ?st r n] clean w by (simp add: s1_def guesses_def throttle_run_def opt)
  next
    case False
    have s1': "s1 = ?st\<lparr>au_throttle := throttle_run opt (au_throttle ?st) (map (Fail ?k) (map snd as))\<rparr>"
      unfolding s1_def using snoc.prems False
      by (intro snoc.IH) (auto simp: sorted_append nth_append dest: spec [of _ "_ :: nat"])
    then have "ensure_throttle cfg s1 = s1" by (simp add: ensure_throttle_def Let_def)
    moreover have "own_entry (au_throttle s1) ?k = Some (new_entry\<lparr>failures := in_window opt (last (map snd as)) (map snd as)\<rparr>)"
      using failures_of_clean [OF clean opt(2) window, of "map snd as"] below snoc.prems(2) False s1'
      by (simp add: sorted_append)
    ultimately show ?thesis using s1' w opt(1) by (simp add: locked_ms_def locked_for_def new_entry_def)
  qed
  have "guesses cfg r (as @ [a]) st = note_auth_failure cfg r n (ensure_throttle cfg s1)"
    using wrong_login [OF mode w(1) conjunct2 [OF s1]] by (simp add: guesses_def s1_def a)
  then show ?case using s1 a opt(1) by (simp add: note_auth_failure_def throttle_run_def)
qed

lemma in_window_all: "\<forall>t \<in> set ts. now - t < window_ms opt \<Longrightarrow> in_window opt now ts = ts"
  by (simp add: in_window_def)

text \<open>C12: Guessing the static token from an address with nothing against it leads to a lockout.
  The address has no failure and no lockout on record (its own entry is new, or it has none, the
  overflow entry is new and the table has room: \<open>clean_for\<close>), and as many wrong tokens as
  \<open>authMaxFailures\<close> come from it one after the other, within the window and with no other login
  handled in between. Then the next login from it is answered 429 until that first lockout ends,
  whatever token it presents (the right one included), without reading it: neither the answer nor
  the state depends on the token, no session is created, and \<open>Retry-After\<close> is the remaining lockout
  rounded up to seconds. After a lockout the count starts again from nothing, so nothing is claimed
  here of an address that was locked before; its later lockouts are longer (\<open>throttle_lockout_lengths\<close>),
  and what other addresses do in between costs it nothing of its record (\<open>throttle_flood_keeps_state\<close>).\<close>

theorem guessing_is_bounded:
  assumes "cf_auth_mode cfg = StaticMode" and "0 < cf_auth_max_failures cfg" and "0 < cf_auth_lockout_seconds cfg"
    and "clean_for (throttle_of cfg) (au_throttle (ensure_throttle cfg st)) (throttle_key r)"
    and "int (length attempts) = cf_auth_max_failures cfg" and "attempts \<noteq> []"
    and "\<forall>a \<in> set attempts. \<not> login_token_ok cfg (fst a) \<and> 0 \<le> snd a"
    and "sorted (map snd attempts)" and "snd (last attempts) - snd (hd attempts) < 15 * 60000"
    and "snd (last attempts) \<le> now" and "now < snd (last attempts) + cf_auth_lockout_seconds cfg * 1000"
  shows "let st' = guesses cfg r attempts st in
    \<exists>s. \<forall>token sid csrf. login cfg r token sid csrf now st' = (Inl (LockedOut s), st') \<and>
      au_sessions st' = au_sessions st \<and>
      s * 1000 \<ge> snd (last attempts) + cf_auth_lockout_seconds cfg * 1000 - now \<and>
      (s - 1) * 1000 < snd (last attempts) + cf_auth_lockout_seconds cfg * 1000 - now"
proof -
  let ?opt = "throttle_of cfg" and ?k = "throttle_key r" and ?st = "ensure_throttle cfg st"
  define ts n where "ts = map snd (butlast attempts)" and "n = snd (last attempts)"
  have times: "map snd attempts = ts @ [n]" using assms(6) by (cases attempts rule: rev_cases) (simp_all add: ts_def n_def)
  have opt: "max_failures ?opt = length attempts" "enabled ?opt" "0 < window_ms ?opt" "window_ms ?opt = 15 * 60000"
    "lockout_length ?opt 0 = cf_auth_lockout_seconds cfg * 1000"
    using assms(2,3,5) by (auto simp: throttle_of_def auth_throttle_options_def enabled_def lockout_length_def)
  have len: "length attempts = Suc (length ts)" using arg_cong [OF times, of length] by simp
  have ordered: "sorted (ts @ [n])" using assms(8) times by simp
  define t where "t = throttle_run ?opt (au_throttle ?st) (map (Fail ?k) (ts @ [n]))"
  define st' where "st' = guesses cfg r attempts st"
  have st': "st' = ?st\<lparr>au_throttle := t\<rparr>"
    unfolding st'_def t_def times [symmetric]
    using assms(1,4,6,7,8) opt by (intro guesses_counted) (auto intro: below_limit_short)
  have recent: "in_window ?opt n ts = ts"
  proof (rule in_window_all, rule ballI)
    fix x assume "x \<in> set ts"
    then have "hd (ts @ [n]) \<le> x" using ordered by (cases ts) auto
    moreover have "hd (ts @ [n]) = snd (hd attempts)" using assms(6) by (simp flip: times add: hd_map)
    ultimately show "n - x < window_ms ?opt" using assms(9) opt(4) by (simp add: n_def)
  qed
  have own: "own_entry t ?k =
    Some \<lparr>failures = [], locked_until = n + cf_auth_lockout_seconds cfg * 1000, lockouts = 1\<rparr>"
    unfolding t_def opt(5) [symmetric] using len opt(1)
    by (intro clean_locked_out [OF assms(4) opt(2,3) ordered _ recent]) simp
  define left where "left = n + cf_auth_lockout_seconds cfg * 1000 - now"
  have pos: "0 < left" using assms(11) by (simp add: left_def n_def)
  have locked: "locked_ms cfg r now st' = left"
    using own pos opt(2) by (simp add: st' locked_ms_def locked_for_def left_def)
  have same: "ensure_throttle cfg st' = st'" by (simp add: st' ensure_throttle_def Let_def)
  define s where "s = max 1 ((left + 999) div 1000)"
  have up: "(left + 999) div 1000 * 1000 \<ge> left" "((left + 999) div 1000 - 1) * 1000 < left"
    unfolding left_diff_distrib by linarith+
  have "1 \<le> (left + 999) div 1000" using up(1) pos by linarith
  then have seconds: "s * 1000 \<ge> left \<and> (s - 1) * 1000 < left" using up by (simp add: s_def max_absorb2)
  have "login cfg r token sid csrf now st' = (Inl (LockedOut s), st')" for token sid csrf
    using assms(1) locked pos by (simp add: login_def same reject_locked_out_def s_def)
  moreover have "au_sessions st' = au_sessions st" by (simp add: st')
  ultimately show ?thesis using seconds unfolding st'_def [symmetric] left_def n_def Let_def by blast
qed

definition sample_static :: config where
  "sample_static = sample_config\<lparr>cf_auth_mode := StaticMode, cf_auth_max_failures := 2,
     cf_auth_lockout_seconds := 60, cf_bff_auth_token := Some ''right'', cf_session_ttl := 3600\<rparr>"

definition sample_caller :: auth_request where
  "sample_caller = \<lparr>ar_method = ''POST'', ar_headers = (\<lambda>_. None), ar_raw_names = [], ar_cookies = (\<lambda>_. None),
     ar_address = Some ''10.0.0.9'', ar_target = sample_request\<rparr>"

definition fresh_auth :: auth_state where
  "fresh_auth = \<lparr>au_sessions = [], au_throttle = new_throttle, au_limits = None\<rparr>"

lemma fresh_clean: "clean_for (throttle_of cfg) (au_throttle (ensure_throttle cfg fresh_auth)) k"
  using throttle_inv_new [of "throttle_of cfg"]
  by (simp add: clean_for_def ensure_throttle_def fresh_auth_def Let_def new_throttle_def own_entry_def)
    (simp add: throttle_of_def auth_throttle_options_def)

theorem guessing_is_bounded_witness:
  "let st' = guesses sample_static sample_caller [(''a'', 1000), (''b'', 2000)] fresh_auth in
    \<exists>s. \<forall>token sid csrf. login sample_static sample_caller token sid csrf 30000 st' = (Inl (LockedOut s), st') \<and>
      s * 1000 \<ge> 32000 \<and> (s - 1) * 1000 < 32000"
proof -
  have "\<forall>a \<in> set [(''a'', 1000::int), (''b'', 2000)]. \<not> login_token_ok sample_static (fst a) \<and> 0 \<le> snd a"
    by (simp add: login_token_ok_def sample_static_def safe_equal_def utf8_def)
  from guessing_is_bounded [OF _ _ _ fresh_clean _ _ this, where r = sample_caller and now = 30000]
  show ?thesis by (simp add: sample_static_def Let_def) blast
qed

section \<open>Sessions\<close>

interpretation sessions: expiring_cache max_static_sessions se_expires_at
  by unfold_locales (simp add: max_static_sessions_def)

text \<open>What reaches the session table: logins, authenticated requests (every guarded route and
  the session read start the same way) and logouts.\<close>

datatype auth_event =
  LoginTry auth_request "string option" string string int
| Visit auth_request int
| LogoutTry auth_request int

fun auth_step :: "mac \<Rightarrow> config \<Rightarrow> auth_event \<Rightarrow> auth_state \<Rightarrow> auth_state" where
  "auth_step mac cfg (LoginTry r token sid csrf now) st = snd (login cfg r token sid csrf now st)"
| "auth_step mac cfg (Visit r now) st = snd (require_admin_auth mac cfg r now st)"
| "auth_step mac cfg (LogoutTry r now) st = snd (logout mac cfg r now st)"

fun event_at :: "auth_event \<Rightarrow> int" where
  "event_at (LoginTry r token sid csrf now) = now"
| "event_at (Visit r now) = now"
| "event_at (LogoutTry r now) = now"

definition cookie_session :: "config \<Rightarrow> auth_request \<Rightarrow> string option" where
  "cookie_session cfg r = ar_cookies r (cn_session (names_of_cookies cfg))"

fun event_session :: "config \<Rightarrow> auth_event \<Rightarrow> string option" where
  "event_session cfg (LoginTry r token sid csrf now) = Some sid"
| "event_session cfg (Visit r now) = cookie_session cfg r"
| "event_session cfg (LogoutTry r now) = cookie_session cfg r"

text \<open>An event that may use session \<open>sid\<close> but neither issues that identifier again nor ends it.\<close>

fun leaves_session :: "config \<Rightarrow> string \<Rightarrow> auth_event \<Rightarrow> bool" where
  "leaves_session cfg sid (LoginTry r token i csrf now) \<longleftrightarrow> i \<noteq> sid \<and> i \<noteq> []"
| "leaves_session cfg sid (Visit r now) \<longleftrightarrow> True"
| "leaves_session cfg sid (LogoutTry r now) \<longleftrightarrow> cookie_session cfg r \<noteq> Some sid"

definition auth_run :: "mac \<Rightarrow> config \<Rightarrow> auth_event list \<Rightarrow> auth_state \<Rightarrow> auth_state" where
  "auth_run mac cfg evs st = fold (auth_step mac cfg) evs st"

text \<open>Each event is a list of cache operations on the session table.\<close>

abbreviation cache_fold :: "session cache_op list \<Rightarrow> (string, session) jsmap \<Rightarrow> (string, session) jsmap" where
  "cache_fold ops m \<equiv> fold (cache_step max_static_sessions se_expires_at) ops m"

lemma read_session_ops:
  "au_sessions (snd (read_static_session cfg r now st)) =
     cache_fold (case cookie_session cfg r of None \<Rightarrow> [] | Some i \<Rightarrow> if i = [] then [] else [Use i now]) (au_sessions st)"
  by (simp add: read_static_session_def cookie_session_def split: option.split)

lemma proxy_principal_sessions [simp]:
  "au_sessions (snd (trusted_proxy_principal cfg r now st)) = au_sessions st"
  by (auto simp: trusted_proxy_principal_def Let_def split: option.split)

lemma current_principal_sessions:
  "au_sessions (snd (snd (current_principal cfg r now st))) =
     (if cf_auth_mode cfg = StaticMode then au_sessions (snd (read_static_session cfg r now st)) else au_sessions st)"
  by (simp add: current_principal_def case_prod_beta split: option.split)

lemma admin_auth_sessions:
  "au_sessions (snd (require_admin_auth mac cfg r now st)) = au_sessions (snd (snd (current_principal cfg r now st)))"
  by (auto simp: require_admin_auth_def split: prod.split proxied.split)

definition new_session :: "config \<Rightarrow> string \<Rightarrow> int \<Rightarrow> session" where
  "new_session cfg csrf now =
     \<lparr>se_principal = static_principal cfg, se_csrf = csrf, se_expires_at = now + cf_session_ttl cfg * 1000\<rparr>"

lemma login_result:
  "fst (login cfg r token sid csrf now st) = Inl e \<Longrightarrow>
     au_sessions (snd (login cfg r token sid csrf now st)) = au_sessions st"
  "fst (login cfg r token sid csrf now st) = Inr a \<Longrightarrow>
     cf_auth_mode cfg = StaticMode \<and>
     au_sessions (snd (login cfg r token sid csrf now st)) =
       cache_insert max_static_sessions se_expires_at sid (new_session cfg csrf now) now (au_sessions st)"
  by (simp_all add: login_def Let_def prune_sessions_def cache_insert_def new_session_def
      split: option.splits if_splits)

definition use_ops :: "config \<Rightarrow> auth_request \<Rightarrow> int \<Rightarrow> session cache_op list" where
  "use_ops cfg r now =
     (case cookie_session cfg r of
        Some i \<Rightarrow> if cf_auth_mode cfg = StaticMode \<and> i \<noteq> [] then [Use i now] else []
      | None \<Rightarrow> [])"

lemma use_opsD: "op \<in> set (use_ops cfg r now) \<Longrightarrow> \<exists>i. cookie_session cfg r = Some i \<and> i \<noteq> [] \<and> op = Use i now"
  by (auto simp: use_ops_def split: option.splits if_splits)

lemma admin_auth_ops:
  "au_sessions (snd (require_admin_auth mac cfg r now st)) = cache_fold (use_ops cfg r now) (au_sessions st)"
  by (simp add: admin_auth_sessions current_principal_sessions read_session_ops use_ops_def split: option.split)

definition event_ops_ok :: "config \<Rightarrow> auth_event \<Rightarrow> session cache_op list \<Rightarrow> bool" where
  "event_ops_ok cfg ev ops \<longleftrightarrow>
     (\<forall>op \<in> set ops. (\<exists>i s. event_session cfg ev = Some i \<and> i \<noteq> [] \<and> 
        ((op = Use i (event_at ev)) \<or> (op = Insert i s (event_at ev) \<and> (\<exists>r t c n. ev = LoginTry r t i c n \<and> s = new_session cfg c n)) \<or>
         (op = Remove i \<and> (\<exists>r n. ev = LogoutTry r n)))))"

lemma auth_step_ops:
  assumes "\<forall>r t c n. ev \<noteq> LoginTry r t [] c n"
  obtains ops where "au_sessions (auth_step mac cfg ev st) = cache_fold ops (au_sessions st)" "event_ops_ok cfg ev ops"
proof (cases ev)
  case (LoginTry r token sid csrf now)
  consider "au_sessions (auth_step mac cfg ev st) = au_sessions st"
    | "au_sessions (auth_step mac cfg ev st) =
        cache_insert max_static_sessions se_expires_at sid (new_session cfg csrf now) now (au_sessions st)"
    using login_result [of cfg r token sid csrf now st]
    by (cases "fst (login cfg r token sid csrf now st)") (auto simp: LoginTry)
  then show ?thesis
  proof cases
    case 1
    then show ?thesis using that [of "[]"] by (simp add: event_ops_ok_def)
  next
    case 2
    then show ?thesis using that [of "[Insert sid (new_session cfg csrf now) now]"] assms LoginTry by (auto simp: event_ops_ok_def)
  qed
next
  case (Visit r now)
  have "event_ops_ok cfg ev (use_ops cfg r now)"
    unfolding event_ops_ok_def using use_opsD [of _ cfg r now] Visit by fastforce
  then show ?thesis using that admin_auth_ops Visit by simp
next
  case (LogoutTry r now)
  have use: "event_ops_ok cfg ev (use_ops cfg r now)"
    unfolding event_ops_ok_def using use_opsD [of _ cfg r now] LogoutTry by fastforce
  have out: "au_sessions (auth_step mac cfg ev st) = m \<or>
      (\<exists>i. au_sessions (auth_step mac cfg ev st) = jm_delete i m \<and> cookie_session cfg r = Some i \<and> i \<noteq> [])"
    if "m = au_sessions (snd (require_admin_auth mac cfg r now st))" for m
    using that by (cases "require_admin_auth mac cfg r now st"; cases "fst (require_admin_auth mac cfg r now st)")
      (auto simp: LogoutTry logout_def cookie_session_def split: option.split)
  from out [OF admin_auth_ops [symmetric]] show ?thesis
  proof (elim disjE exE conjE)
    assume "au_sessions (auth_step mac cfg ev st) = cache_fold (use_ops cfg r now) (au_sessions st)"
    then show ?thesis using that use by blast
  next
    fix i
    assume "au_sessions (auth_step mac cfg ev st) = jm_delete i (cache_fold (use_ops cfg r now) (au_sessions st))"
      "cookie_session cfg r = Some i" "i \<noteq> []"
    moreover from this have "event_ops_ok cfg ev (use_ops cfg r now @ [Remove i])"
      using use LogoutTry by (auto simp: event_ops_ok_def)
    ultimately show ?thesis using that [of "use_ops cfg r now @ [Remove i]"] by simp
  qed
qed

text \<open>An event that leaves \<open>sid\<close> alone is harmless to it before its expiry.\<close>

lemma event_harmless:
  assumes "event_ops_ok cfg ev ops" "leaves_session cfg sid ev" "event_at ev < e" "\<forall>i. event_session cfg ev = Some i \<longrightarrow> i \<in> insert sid A"
  shows "\<forall>op \<in> set ops. harmless sid e op \<and> op_key op \<in> insert sid A"
  using assms by (fastforce simp: event_ops_ok_def)

lemma auth_step_ok:
  assumes "\<forall>r t c n. ev \<noteq> LoginTry r t [] c n" "sessions.ok (au_sessions st)"
  shows "sessions.ok (au_sessions (auth_step mac cfg ev st))"
proof -
  obtain ops where ops: "au_sessions (auth_step mac cfg ev st) = cache_fold ops (au_sessions st)" "event_ops_ok cfg ev ops"
    using auth_step_ops [OF assms(1)] by blast
  have "\<forall>op \<in> set ops. op_key op \<noteq> []"
    using ops(2) by (fastforce simp: event_ops_ok_def)
  then have "sessions.ok m \<Longrightarrow> sessions.ok (cache_fold ops m)" for m
  proof (induction ops arbitrary: m)
    case (Cons op ops)
    then have "sessions.ok (cache_step max_static_sessions se_expires_at op m)"
      by (intro sessions.step_ok) auto
    then show ?case using Cons by simp
  qed simp
  then show ?thesis using ops(1) assms(2) by simp
qed

lemma auth_run_ok:
  assumes "\<forall>ev \<in> set evs. \<forall>r t c n. ev \<noteq> LoginTry r t [] c n" "sessions.ok (au_sessions st)"
  shows "sessions.ok (au_sessions (auth_run mac cfg evs st))"
  using assms unfolding auth_run_def by (induction evs arbitrary: st) (auto intro: auth_step_ok)

lemma auth_run_keeps:
  assumes "sessions.ok (au_sessions st)" "jm_get (au_sessions st) sid = Some s" "set (later_keys sid (au_sessions st)) \<subseteq> A"
    and "finite A" "Suc (card A) < max_static_sessions"
    and "\<forall>ev \<in> set evs. leaves_session cfg sid ev \<and> event_at ev < se_expires_at s \<and>
      (\<forall>i. event_session cfg ev = Some i \<longrightarrow> i \<in> insert sid A)"
  shows "jm_get (au_sessions (auth_run mac cfg evs st)) sid = Some s"
  using assms(1-3,6)
proof (induction evs arbitrary: st)
  case Nil
  then show ?case by (simp add: auth_run_def)
next
  case (Cons ev evs)
  have "\<forall>r t c n. ev \<noteq> LoginTry r t [] c n" using Cons.prems(4) by auto
  then obtain ops where ops: "au_sessions (auth_step mac cfg ev st) = cache_fold ops (au_sessions st)" "event_ops_ok cfg ev ops"
    using auth_step_ops by blast
  have "\<forall>op \<in> set ops. harmless sid (se_expires_at s) op \<and> op_key op \<in> insert sid A"
    using Cons.prems(4) by (intro event_harmless [OF ops(2)]) auto
  from sessions.steps_keep [OF Cons.prems(1-3) assms(4,5) this] Cons show ?case
    by (simp add: auth_run_def ops(1))
qed

lemma login_session_kept:
  assumes "sessions.ok (au_sessions st)" "login cfg r token sid csrf now st = (Inr a, st')"
    and "sid \<noteq> []" "jm_get (au_sessions st) sid = None"
  shows "sessions.ok (au_sessions st')" "jm_get (au_sessions st') sid = Some (new_session cfg csrf now)"
    "later_keys sid (au_sessions st') = []" "cf_auth_mode cfg = StaticMode"
proof -
  let ?p = "prune max_static_sessions se_expires_at now (au_sessions st)"
  have eq: "au_sessions st' = cache_insert max_static_sessions se_expires_at sid (new_session cfg csrf now) now (au_sessions st)"
    and mode: "cf_auth_mode cfg = StaticMode"
    using login_result(2) [of cfg r token sid csrf now st a] assms(2) by simp_all
  have ne: "nonempty_keys (au_sessions st)" using assms(1) by (simp add: sessions.ok_def)
  have "set (jm_keys ?p) \<subseteq> set (jm_keys (au_sessions st))"
    unfolding sessions.prune_drop [OF ne] jm_keys_def by (auto dest!: in_set_dropD)
  then have absent: "jm_get ?p sid = None" using assms(4) by (auto simp: jm_get_None_iff)
  show "sessions.ok (au_sessions st')" unfolding eq by (rule sessions.insert_ok [OF assms(1,3)])
  show "jm_get (au_sessions st') sid = Some (new_session cfg csrf now)" by (simp add: eq cache_insert_def jm_simps)
  show "later_keys sid (au_sessions st') = []"
    using absent by (simp add: eq cache_insert_def jm_set_absent later_keys_at_end)
  show "cf_auth_mode cfg = StaticMode" by (rule mode)
qed

text \<open>C13: The session table is bounded and fair. It never holds more than 256 sessions, and a
  signed-in session keeps being served its principal until it expires, as long as fewer than 255
  other sessions are used meanwhile: no interleaving of other logins, requests and logouts evicts
  it, and only its own logout ends it early.\<close>

theorem sessions_outlive_contention:
  assumes "\<forall>ev \<in> set (evs0 @ evs). \<forall>r t c n. ev \<noteq> LoginTry r t [] c n"
    and "login cfg r token sid csrf t0 (auth_run mac cfg evs0 fresh_auth) = (Inr a, st)"
    and "sid \<noteq> []" and "jm_get (au_sessions (auth_run mac cfg evs0 fresh_auth)) sid = None"
    and "finite others" and "card others < 255"
    and "\<forall>ev \<in> set evs. leaves_session cfg sid ev \<and> event_at ev < t0 + cf_session_ttl cfg * 1000 \<and>
      (\<forall>i. event_session cfg ev = Some i \<longrightarrow> i \<in> insert sid others)"
    and "cookie_session cfg r' = Some sid" and "now < t0 + cf_session_ttl cfg * 1000"
  shows "length (au_sessions (auth_run mac cfg evs st)) \<le> 256 \<and>
    (case current_principal cfg r' now (auth_run mac cfg evs st) of
       (s, p, st') \<Rightarrow> s = Some (new_session cfg csrf t0) \<and> p = Identity (static_principal cfg) \<and>
         length (au_sessions st') \<le> 256)"
proof -
  have "sessions.ok (au_sessions fresh_auth)" using sessions.ok_empty by (simp add: fresh_auth_def)
  then have start: "sessions.ok (au_sessions (auth_run mac cfg evs0 fresh_auth))"
    using assms(1) by (intro auth_run_ok) auto
  note kept = login_session_kept [OF start assms(2,3,4)]
  have ok: "sessions.ok (au_sessions (auth_run mac cfg evs st))"
    using assms(1) kept(1) by (intro auth_run_ok) auto
  have get: "jm_get (au_sessions (auth_run mac cfg evs st)) sid = Some (new_session cfg csrf t0)"
    using kept(3) assms(5-7)
    by (intro auth_run_keeps [OF kept(1,2)]) (auto simp: max_static_sessions_def new_session_def)
  have cap: "sessions.ok m \<Longrightarrow> length m \<le> 256" for m
    unfolding sessions.ok_def by (simp add: max_static_sessions_def)
  show ?thesis
    using cap [OF ok] cap [OF sessions.touch_ok [OF ok get]] get assms(3,8,9) kept(4)
    by (simp add: current_principal_def read_static_session_def cookie_session_def new_session_def)
qed

definition cookie_caller :: "string \<Rightarrow> auth_request" where
  "cookie_caller sid = sample_caller
     \<lparr>ar_method := ''GET'', ar_cookies := [cn_session (names_of_cookies sample_static) \<mapsto> sid]\<rparr>"

lemma cookie_caller_session [simp]: "cookie_session sample_static (cookie_caller sid) = Some sid"
  by (simp add: cookie_session_def cookie_caller_def)

lemma sample_static_ttl [simp]: "cf_session_ttl sample_static = 3600"
  by (simp add: sample_static_def)

theorem sessions_outlive_contention_witness:
  "fst (snd (current_principal sample_static (cookie_caller ''s1'') 9000
     (auth_run (\<lambda>_ _ _. []) sample_static [LoginTry sample_caller (Some ''right'') ''s2'' ''c2'' 6000, Visit (cookie_caller ''s1'') 7000]
       (snd (login sample_static sample_caller (Some ''right'') ''s1'' ''c1'' 5000 fresh_auth)))))
   = Identity (static_principal sample_static)"
proof -
  let ?evs = "[LoginTry sample_caller (Some ''right'') ''s2'' ''c2'' 6000, Visit (cookie_caller ''s1'') 7000]"
  have "locked_ms sample_static sample_caller 5000 (ensure_throttle sample_static fresh_auth) = 0"
    by (rule clean_not_locked [OF fresh_clean]) simp
  moreover have "login_token_ok sample_static ''right''" by (simp add: login_token_ok_def sample_static_def safe_equal_def)
  ultimately obtain a st where login: "login sample_static sample_caller (Some ''right'') ''s1'' ''c1'' 5000 fresh_auth = (Inr a, st)"
    by (simp add: login_def Let_def sample_static_def)
  from sessions_outlive_contention [of "[]" ?evs sample_static sample_caller "Some ''right''" "''s1''" "''c1''" 5000
      "\<lambda>_ _ _. []" a st "{''s2''}" "cookie_caller ''s1''" 9000] login
  show ?thesis
    by (simp add: auth_run_def [of _ _ "[]"]) (simp add: fresh_auth_def split: prod.splits)
qed

section \<open>CSRF tokens\<close>

lemma utf8_latin: "n < 256 \<Longrightarrow> utf8 n = (if n < 128 then [n] else [192 + n div 64, 128 + n mod 64])"
  by (simp add: utf8_def)

lemma utf8_prefix:
  assumes "utf8 n @ xs = utf8 m @ ys" "n < 256" "m < 256"
  shows "n = m \<and> xs = ys"
proof (cases "n < 128")
  case True
  then show ?thesis using assms by (cases "m < 128") (simp_all add: utf8_latin)
next
  case False
  then have "m \<ge> 128" "n div 64 = m div 64" "n mod 64 = m mod 64" "xs = ys"
    using assms by (auto simp: utf8_latin split: if_splits)
  then show ?thesis by (metis div_mult_mod_eq)
qed

lemma safe_equal_iff: "safe_equal a b \<longleftrightarrow> a = b"
proof
  show "safe_equal a b \<Longrightarrow> a = b"
    unfolding safe_equal_def
  proof (induction a arbitrary: b)
    case Nil
    then show ?case by (cases b) (auto simp: utf8_latin split: if_splits)
  next
    case (Cons x a)
    then obtain y b' where b: "b = y # b'" by (cases b) (auto simp: utf8_latin split: if_splits)
    have "(of_char x :: nat) = of_char y \<and> concat (map (\<lambda>c. utf8 (of_char c)) a) = concat (map (\<lambda>c. utf8 (of_char c)) b')"
      by (rule utf8_prefix) (use Cons.prems b in simp_all)
    then show ?case using Cons.IH b by simp
  qed
qed (simp add: safe_equal_def)

lemma length_show_nat: "n < 10 ^ k \<Longrightarrow> 0 < k \<Longrightarrow> length (show_nat n) \<le> k"
proof (induction k arbitrary: n)
  case (Suc k)
  show ?case
  proof (cases "n < 10")
    case False
    then have "n div 10 < 10 ^ k" "0 < k" using Suc.prems by (auto intro: ccontr)
    then show ?thesis using Suc.IH [of "n div 10"] False by (simp add: show_nat.simps [of n])
  qed (simp add: show_nat.simps [of n])
qed simp

lemma csrf_expiry_show: "n < 10 ^ 15 \<Longrightarrow> csrf_expiry (show_nat n) = Some n"
  using digits_show_nat [of n] length_show_nat [of n 15] by (simp add: csrf_expiry_def max_safe_def)

lemma bytes_text_char_bytes [simp]: "bytes_text (char_bytes s) = s"
  by (simp add: bytes_text_def char_bytes_def map_idI)

lemma char_bytes_small: "\<forall>b \<in> set (char_bytes s). b < 256"
  by (simp add: char_bytes_def)

definition token_text :: "nat \<Rightarrow> string \<Rightarrow> string" where
  "token_text seconds m = b64_encode (char_bytes (show_nat seconds)) @ ''.'' @ m"

lemma read_token_text:
  assumes "cf_trusted_proxy_secret cfg = Some secret" "secret \<noteq> []" "CHR ''.'' \<notin> set m" "n < 10 ^ 15"
  shows "read_trusted_csrf_expiry mac cfg subject (token_text n m) now =
    (if now < int n * 1000 \<and> m = mac secret subject n then Some (int n * 1000) else None)"
proof -
  have "split_on CHR ''.'' (token_text n m) = [b64_encode (char_bytes (show_nat n)), m]"
    using split_on_append [OF b64_encode_no_dot [OF char_bytes_small]] split_on_free [OF assms(3)]
    by (simp add: token_text_def)
  then show ?thesis using assms(1,2,4)
    by (auto simp: read_trusted_csrf_expiry_def b64_decode_encode [OF char_bytes_small] csrf_expiry_show safe_equal_iff Let_def)
qed

text \<open>C14: CSRF tokens of the trusted-proxy mode need no server state. A token issued for a
  subject is accepted for it exactly until the expiry it names (the session's lifetime from the
  second it was issued), on any replica holding the secret. Whatever else is accepted carries the
  MAC of this very subject and of the expiry read from it, so a token of another subject, or with
  an edited expiry, passes only where the MACs collide; and a second dot or a missing one is
  always refused.\<close>

theorem csrf_tokens_roundtrip:
  assumes "cf_trusted_proxy_secret cfg = Some secret" "secret \<noteq> []"
    and "\<forall>s n. CHR ''.'' \<notin> set (mac secret s n)"
    and "0 \<le> now div 1000 + cf_session_ttl cfg" "now div 1000 + cf_session_ttl cfg < 10 ^ 15"
  shows "\<exists>token. issue_trusted_csrf_token mac cfg subject now = Some token \<and>
    (\<forall>t. read_trusted_csrf_expiry mac cfg subject token t =
       (if t < (now div 1000 + cf_session_ttl cfg) * 1000
        then Some ((now div 1000 + cf_session_ttl cfg) * 1000) else None)) \<and>
    (\<forall>other t. read_trusted_csrf_expiry mac cfg other token t \<noteq> None \<longrightarrow>
       mac secret subject (nat (now div 1000 + cf_session_ttl cfg)) =
       mac secret other (nat (now div 1000 + cf_session_ttl cfg))) \<and>
    (\<forall>forged t e. read_trusted_csrf_expiry mac cfg subject forged t = Some e \<longrightarrow>
       t < e \<and> (\<exists>enc seconds. forged = enc @ CHR ''.'' # mac secret subject seconds \<and> e = int seconds * 1000 \<and>
         csrf_expiry (bytes_text (b64_decode enc)) = Some seconds))"
proof -
  define k where "k = nat (now div 1000 + cf_session_ttl cfg)"
  have k: "k < 10 ^ 15" "now div 1000 + cf_session_ttl cfg = int k" using assms(4,5) by (simp_all add: k_def nat_less_iff)
  have issue: "issue_trusted_csrf_token mac cfg subject now = Some (token_text k (mac secret subject k))"
    using assms(1,2) by (simp add: issue_trusted_csrf_token_def token_text_def Let_def k_def)
  have rd: "read_trusted_csrf_expiry mac cfg s' (token_text k (mac secret subject k)) t =
      (if t < int k * 1000 \<and> mac secret subject k = mac secret s' k then Some (int k * 1000) else None)" for s' t
    by (rule read_token_text [OF assms(1,2) _ k(1)]) (use assms(3) in blast)
  have forged: "t < e \<and> (\<exists>enc seconds. forged = enc @ CHR ''.'' # mac secret subject seconds \<and> e = int seconds * 1000 \<and>
         csrf_expiry (bytes_text (b64_decode enc)) = Some seconds)"
    if r: "read_trusted_csrf_expiry mac cfg subject forged t = Some e" for forged t e
  proof -
    obtain enc m where sp: "split_on CHR ''.'' forged = [enc, m]"
      using r by (auto simp: read_trusted_csrf_expiry_def split: option.splits list.splits)
    have "forged = enc @ CHR ''.'' # m" using join_split [of "CHR ''.''" forged] by (simp add: sp)
    then show ?thesis using r sp assms(1)
      by (auto simp: read_trusted_csrf_expiry_def safe_equal_iff Let_def split: option.splits if_splits)
  qed
  show ?thesis
    unfolding k(2) nat_int
    using issue rd forged by (intro exI [of _ "token_text k (mac secret subject k)"]) simp
qed

definition sample_proxied :: config where
  "sample_proxied = sample_config\<lparr>cf_auth_mode := TrustedProxy, cf_trusted_proxy_secret := Some ''shared'',
     cf_session_ttl := 3600, cf_secure_cookies := True, cf_user_header := ''x-user'', cf_role_header := ''x-role'',
     cf_namespaces_header := ''x-ns'', cf_auth_max_failures := 2, cf_auth_lockout_seconds := 60, cf_jwt_namespaces := None\<rparr>"

theorem csrf_tokens_roundtrip_witness:
  "\<exists>token. issue_trusted_csrf_token (\<lambda>k s n. ''m'' @ filter (\<lambda>c. c \<noteq> CHR ''.'') s) sample_proxied ''ann'' 5000 = Some token \<and>
     read_trusted_csrf_expiry (\<lambda>k s n. ''m'' @ filter (\<lambda>c. c \<noteq> CHR ''.'') s) sample_proxied ''ann'' token 3604999 = Some 3605000"
proof -
  let ?mac = "\<lambda>k s (n::nat). ''m'' @ filter (\<lambda>c. c \<noteq> CHR ''.'') s"
  have "\<forall>s n. CHR ''.'' \<notin> set (?mac ''shared'' s n)" by simp
  from csrf_tokens_roundtrip [of sample_proxied "''shared''" ?mac 5000 "''ann''", OF _ _ this]
  show ?thesis by (simp add: sample_proxied_def issue_trusted_csrf_token_def)
qed

section \<open>Principals\<close>

definition principal_ok :: "principal \<Rightarrow> bool" where
  "principal_ok p \<longleftrightarrow>
     p_subject p \<noteq> [] \<and> length (p_subject p) \<le> 254 \<and> \<not> contains_control_character (p_subject p) \<and>
     grants_ok (p_namespaces p) \<and>
     (p_mode p = TrustedProxy \<and> p_role p \<noteq> Admin \<longrightarrow> p_namespaces p \<noteq> None)"

lemma static_principal_ok: "grants_ok (cf_jwt_namespaces cfg) \<Longrightarrow> principal_ok (static_principal cfg)"
  by (simp add: principal_ok_def static_principal_def contains_control_character_def)

lemma single_header_not_blank: "single_header r name = Some v \<Longrightarrow> v \<noteq> []"
  by (auto simp: single_header_def split: option.splits header_value.splits if_splits)

lemma trusted_namespaces_ok: "parse_trusted_namespaces v = Some (Some ns) \<Longrightarrow> grants_ok (Some ns)"
  by (auto simp: parse_trusted_namespaces_def grants_ok_def list_ex_iff Let_def
      split: option.splits header_value.splits if_splits)

lemma asserted_principal_ok: "asserted_principal cfg r = Some p \<Longrightarrow> principal_ok p \<and> p_mode p = TrustedProxy"
  using trusted_namespaces_ok [of "ar_headers r (cf_namespaces_header cfg)"]
  by (auto simp: asserted_principal_def principal_ok_def grants_ok_def Let_def
      dest: single_header_not_blank split: option.splits if_splits)

lemma trusted_proxy_identity:
  assumes "fst (trusted_proxy_principal cfg r now st) = Identity p"
  shows "asserted_principal cfg r = Some p \<and> \<not> repeated_identity (identity_headers cfg) [] (ar_raw_names r) \<and>
    single_header r trusted_proxy_secret_header = cf_trusted_proxy_secret cfg"
  using assms
  by (auto simp: trusted_proxy_principal_def safe_equal_iff Let_def split: option.splits if_splits)

definition principals_static :: "config \<Rightarrow> (string, session) jsmap \<Rightarrow> bool" where
  "principals_static cfg m \<longleftrightarrow> (\<forall>k s. jm_get m k = Some s \<longrightarrow> se_principal s = static_principal cfg)"

lemma auth_step_principals:
  assumes "\<forall>r t c n. ev \<noteq> LoginTry r t [] c n" "sessions.ok (au_sessions st)" "principals_static cfg (au_sessions st)"
  shows "principals_static cfg (au_sessions (auth_step mac cfg ev st))"
proof -
  obtain ops where ops: "au_sessions (auth_step mac cfg ev st) = cache_fold ops (au_sessions st)" "event_ops_ok cfg ev ops"
    using auth_step_ops [OF assms(1)] by blast
  have "\<forall>op \<in> set ops. op_key op \<noteq> [] \<and> (\<forall>k v t. op = Insert k v t \<longrightarrow> se_principal v = static_principal cfg)"
    using ops(2) by (fastforce simp: event_ops_ok_def new_session_def)
  then have "sessions.ok m \<Longrightarrow> principals_static cfg m \<Longrightarrow> principals_static cfg (cache_fold ops m)" for m
  proof (induction ops arbitrary: m)
    case (Cons op ops)
    have "\<forall>k v t. op = Insert k v t \<longrightarrow> se_principal v = static_principal cfg" using Cons.prems(3) by simp
    from sessions.step_values [OF Cons.prems(1) Cons.prems(2) [unfolded principals_static_def] this]
    have "principals_static cfg (cache_step max_static_sessions se_expires_at op m)"
      unfolding principals_static_def .
    moreover have "sessions.ok (cache_step max_static_sessions se_expires_at op m)"
      using Cons.prems by (intro sessions.step_ok) auto
    ultimately show ?case using Cons by simp
  qed simp
  then show ?thesis using ops(1) assms(2,3) by simp
qed

lemma auth_run_principals:
  assumes "\<forall>ev \<in> set evs. \<forall>r t c n. ev \<noteq> LoginTry r t [] c n" "sessions.ok (au_sessions st)" "principals_static cfg (au_sessions st)"
  shows "principals_static cfg (au_sessions (auth_run mac cfg evs st))"
  using assms unfolding auth_run_def
  by (induction evs arbitrary: st) (auto intro: auth_step_principals auth_step_ok)

lemma require_role_Inr:
  assumes "require_role required mac cfg r now st = (Inr p, st')"
  shows "required \<le> p_role p" "require_admin_auth mac cfg r now st = (Inr p, st')"
  using assms by (auto simp: require_role_def split: prod.splits sum.splits if_splits)

lemma require_admin_auth_Inr:
  assumes "require_admin_auth mac cfg r now st = (Inr p, st')"
  obtains sess where "current_principal cfg r now st = (sess, Identity p, st')" "csrf_is_valid mac cfg r now p sess"
  using assms by (auto simp: require_admin_auth_def split: prod.splits proxied.splits if_splits)

lemma current_principal_Identity:
  assumes "current_principal cfg r now st = (sess, Identity p, st')"
  shows "(\<exists>s. sess = Some s \<and> p = se_principal s \<and> cf_auth_mode cfg = StaticMode \<and>
      fst (read_static_session cfg r now st) = Some s) \<or>
    (sess = None \<and> (\<exists>st1. fst (trusted_proxy_principal cfg r now st1) = Identity p))"
  using assms
  by (auto simp: current_principal_def split: prod.splits option.splits if_splits) (metis fst_conv)+

text \<open>C15: Only well-formed principals get past authentication. Whatever logins, requests and
  logouts came before, a principal admitted by \<open>requireRole\<close> has the required role, a subject of 1
  to 254 characters without control characters, and grants that are absent or a non-empty list of
  distinct valid names; one asserted by the identity proxy came with the configured secret and with
  no identity header repeated, and unless it is an admin it has explicit grants; one from a session
  is the configured static principal.\<close>

theorem admitted_principals_well_formed:
  assumes "\<forall>ev \<in> set evs. \<forall>r t c n. ev \<noteq> LoginTry r t [] c n" and "grants_ok (cf_jwt_namespaces cfg)"
    and "require_role required mac cfg r now (auth_run mac cfg evs fresh_auth) = (Inr p, st')"
  shows "required \<le> p_role p \<and> principal_ok p \<and>
    (p_mode p = TrustedProxy \<longrightarrow>
       single_header r trusted_proxy_secret_header = cf_trusted_proxy_secret cfg \<and>
       \<not> repeated_identity (identity_headers cfg) [] (ar_raw_names r)) \<and>
    (p_mode p = StaticMode \<longrightarrow> p = static_principal cfg)"
proof -
  let ?st = "auth_run mac cfg evs fresh_auth"
  have static: "principals_static cfg (au_sessions ?st)"
    using sessions.ok_empty assms(1) by (intro auth_run_principals) (simp_all add: fresh_auth_def principals_static_def)
  obtain sess where cur: "current_principal cfg r now ?st = (sess, Identity p, st')"
    using require_admin_auth_Inr [OF require_role_Inr(2) [OF assms(3)]] by blast
  from current_principal_Identity [OF cur] show ?thesis
  proof (elim disjE exE conjE)
    fix s assume "p = se_principal s" "fst (read_static_session cfg r now ?st) = Some s"
    then have "p = static_principal cfg" using static
      by (auto simp: principals_static_def read_static_session_def split: option.splits if_splits)
    then show ?thesis using require_role_Inr(1) [OF assms(3)] static_principal_ok [OF assms(2)]
      by (simp add: static_principal_def)
  next
    fix st1 assume "fst (trusted_proxy_principal cfg r now st1) = Identity p"
    then show ?thesis using trusted_proxy_identity asserted_principal_ok require_role_Inr(1) [OF assms(3)]
      by fastforce
  qed
qed

definition proxied_caller :: auth_request where
  "proxied_caller = sample_caller\<lparr>ar_method := ''GET'',
     ar_headers := [trusted_proxy_secret_header \<mapsto> Single ''shared'', ''x-user'' \<mapsto> Single ''ann'',
       ''x-role'' \<mapsto> Single ''operator'', ''x-ns'' \<mapsto> Single ''demo, edge'']\<rparr>"

definition sample_ann :: principal where
  "sample_ann = \<lparr>p_subject = ''ann'', p_display = ''ann'', p_role = Operator,
     p_namespaces = Some [''demo'', ''edge''], p_mode = TrustedProxy\<rparr>"

lemma sample_ann_asserted: "asserted_principal sample_proxied proxied_caller = Some sample_ann"
  by (simp add: asserted_principal_def sample_ann_def sample_proxied_def proxied_caller_def single_header_def
      trusted_proxy_secret_header_def js_trim_def white_space_def parse_role_header_def contains_control_character_def
      parse_trusted_namespaces_def js_unique_def is_namespace_name_def cps_def name_char_def name_start_def)

lemma sample_ann_identity:
  "fst (trusted_proxy_principal sample_proxied proxied_caller 1000 fresh_auth) = Identity sample_ann"
proof -
  have "locked_ms sample_proxied proxied_caller 1000 (ensure_throttle sample_proxied fresh_auth) = 0"
    by (rule clean_not_locked [OF fresh_clean]) simp
  moreover have "single_header proxied_caller trusted_proxy_secret_header = Some ''shared''"
    by (simp add: proxied_caller_def single_header_def trusted_proxy_secret_header_def js_trim_def white_space_def)
  moreover have "cf_trusted_proxy_secret sample_proxied = Some ''shared''" by (simp add: sample_proxied_def)
  moreover have "ar_raw_names proxied_caller = []" by (simp add: proxied_caller_def sample_caller_def)
  ultimately show ?thesis using sample_ann_asserted
    by (simp add: trusted_proxy_principal_def safe_equal_iff Let_def)
qed

lemma sample_ann_admitted:
  "\<exists>st. require_role Viewer mac sample_proxied proxied_caller 1000 fresh_auth = (Inr sample_ann, st)"
proof -
  obtain st where "trusted_proxy_principal sample_proxied proxied_caller 1000 fresh_auth = (Identity sample_ann, st)"
    using sample_ann_identity by (metis prod.collapse)
  moreover have "cf_auth_mode sample_proxied = TrustedProxy" "ar_method proxied_caller = ''GET''"
    by (simp_all add: sample_proxied_def proxied_caller_def)
  ultimately show ?thesis
    by (simp add: require_role_def require_admin_auth_def current_principal_def csrf_is_valid_def not_less)
qed

theorem admitted_principals_well_formed_witness:
  "principal_ok sample_ann \<and> \<not> repeated_identity (identity_headers sample_proxied) [] (ar_raw_names proxied_caller)"
proof -
  obtain st where "require_role Viewer (\<lambda>_ _ _. []) sample_proxied proxied_caller 1000 fresh_auth = (Inr sample_ann, st)"
    using sample_ann_admitted by blast
  moreover have "grants_ok (cf_jwt_namespaces sample_proxied)" by (simp add: sample_proxied_def grants_ok_def)
  ultimately show ?thesis
    using admitted_principals_well_formed [of "[]" sample_proxied Viewer "\<lambda>_ _ _. []" proxied_caller 1000 sample_ann st]
    by (simp add: auth_run_def) (simp add: sample_ann_def)
qed

end
