(* ===== verification/Shutdown.thy ===== *)
theory Shutdown
  imports Prelude
begin

text \<open>
  Bounded graceful shutdown (\<open>server/shutdown.ts\<close>): the closure's flags \<open>closing\<close> and
  \<open>settled\<close>, the armed deadline, and the exit codes handed to \<open>exit\<close>, as a step relation over
  signals, the outcome of \<open>close()\<close> and the deadline timer.
\<close>

record shutdown_state =
  sd_closing :: bool
  sd_settled :: bool
  sd_timer :: bool
  sd_draining :: bool
  sd_exits :: "nat list"

definition shutdown_init :: shutdown_state where
  "shutdown_init = \<lparr>sd_closing = False, sd_settled = False, sd_timer = False, sd_draining = False, sd_exits = []\<rparr>"

text \<open>A repeated signal is ignored; the first one arms the deadline and starts \<open>close()\<close>.\<close>

definition on_signal :: "shutdown_state \<Rightarrow> shutdown_state" where
  "on_signal st = (if sd_closing st then st else st\<lparr>sd_closing := True, sd_timer := True, sd_draining := True\<rparr>)"

definition finish :: "nat \<Rightarrow> shutdown_state \<Rightarrow> shutdown_state" where
  "finish code st =
     (if sd_settled st then st else st\<lparr>sd_settled := True, sd_timer := False, sd_exits := sd_exits st @ [code]\<rparr>)"

definition on_deadline :: "shutdown_state \<Rightarrow> shutdown_state" where
  "on_deadline st =
     (if sd_settled st then st\<lparr>sd_timer := False\<rparr>
      else st\<lparr>sd_settled := True, sd_timer := False, sd_exits := sd_exits st @ [1]\<rparr>)"

datatype shutdown_event = Signal | Drained | DrainFailed | Deadline

text \<open>What may happen: a signal at any time, the outcome of \<open>close()\<close> once while it runs, and the
  deadline once while it is armed.\<close>

inductive shutdown_step :: "shutdown_state \<Rightarrow> shutdown_event \<Rightarrow> shutdown_state \<Rightarrow> bool" where
  signal: "shutdown_step st Signal (on_signal st)"
| drained: "sd_draining st \<Longrightarrow> shutdown_step st Drained (finish 0 (st\<lparr>sd_draining := False\<rparr>))"
| failed: "sd_draining st \<Longrightarrow> shutdown_step st DrainFailed (finish 1 (st\<lparr>sd_draining := False\<rparr>))"
| deadline: "sd_timer st \<Longrightarrow> shutdown_step st Deadline (on_deadline st)"

code_pred shutdown_step .

inductive_cases shutdown_stepE: "shutdown_step st ev st'"

inductive shutdown_trace :: "shutdown_state \<Rightarrow> shutdown_event list \<Rightarrow> shutdown_state \<Rightarrow> bool" where
  start: "shutdown_trace st [] st"
| more: "shutdown_trace st evs st' \<Longrightarrow> shutdown_step st' ev st'' \<Longrightarrow> shutdown_trace st (evs @ [ev]) st''"

definition outcomes :: "shutdown_event list \<Rightarrow> shutdown_event list" where
  "outcomes evs = filter (\<lambda>ev. ev \<noteq> Signal) evs"

definition exit_code :: "shutdown_event \<Rightarrow> nat" where
  "exit_code ev = (if ev = Drained then 0 else 1)"

definition decided_exit :: "shutdown_event list \<Rightarrow> nat list" where
  "decided_exit evs = (case outcomes evs of [] \<Rightarrow> [] | ev # _ \<Rightarrow> [exit_code ev])"

lemma outcomes_simps [simp]:
  "outcomes [] = []" "outcomes (evs @ evs') = outcomes evs @ outcomes evs'"
  "outcomes (ev # evs) = (if ev = Signal then outcomes evs else ev # outcomes evs)"
  by (simp_all add: outcomes_def)

definition shutdown_inv :: "shutdown_event list \<Rightarrow> shutdown_state \<Rightarrow> bool" where
  "shutdown_inv evs st \<longleftrightarrow>
     sd_closing st = (Signal \<in> set evs) \<and>
     sd_settled st = (outcomes evs \<noteq> []) \<and>
     sd_timer st = (Signal \<in> set evs \<and> outcomes evs = []) \<and>
     (sd_draining st \<longrightarrow> Signal \<in> set evs) \<and>
     (outcomes evs \<noteq> [] \<longrightarrow> Signal \<in> set evs) \<and>
     sd_exits st = decided_exit evs"

lemma shutdown_step_inv:
  assumes "shutdown_step st ev st'" "shutdown_inv evs st"
  shows "shutdown_inv (evs @ [ev]) st'"
  using assms(1)
  by cases (use assms(2) in \<open>auto simp: shutdown_inv_def on_signal_def finish_def on_deadline_def decided_exit_def exit_code_def split: list.splits\<close>)

lemma shutdown_trace_inv: "shutdown_trace shutdown_init evs st \<Longrightarrow> shutdown_inv evs st"
proof (induction shutdown_init evs st rule: shutdown_trace.induct)
  case start
  then show ?case by (simp add: shutdown_inv_def shutdown_init_def decided_exit_def)
next
  case (more evs st' ev st'')
  then show ?case using shutdown_step_inv by blast
qed

text \<open>C18: Shutdown ends the process exactly once and never hangs. Along every trace, \<open>exit\<close> has
  been called once if anything decided the shutdown and never otherwise, with 0 only when the
  drain completed first and 1 when it failed or the deadline won; every later signal or outcome
  changes nothing; and after the first signal, until that decision, the deadline is armed, so a
  step that ends the process is always possible and every outcome step takes it.\<close>

theorem shutdown_exits_exactly_once:
  assumes "shutdown_trace shutdown_init evs st"
  shows "sd_exits st = decided_exit evs \<and>
    (Signal \<in> set evs \<and> outcomes evs = [] \<longrightarrow>
       (\<exists>st'. shutdown_step st Deadline st' \<and> sd_exits st' = [1]) \<and>
       (\<forall>ev st'. shutdown_step st ev st' \<longrightarrow> st' = st \<or> sd_exits st' = [exit_code ev])) \<and>
    (outcomes evs \<noteq> [] \<longrightarrow> (\<forall>ev st'. shutdown_step st ev st' \<longrightarrow> sd_exits st' = sd_exits st))"
proof -
  have inv: "shutdown_inv evs st" using assms by (rule shutdown_trace_inv)
  have step: "sd_exits st' = decided_exit (evs @ [ev])" if "shutdown_step st ev st'" for ev st'
    using shutdown_step_inv [OF that inv] by (simp add: shutdown_inv_def)
  have exits: "sd_exits st = decided_exit evs" using inv by (simp add: shutdown_inv_def)
  have pending: "sd_closing st" "sd_timer st" if "Signal \<in> set evs" "outcomes evs = []"
    using inv that by (simp_all add: shutdown_inv_def)
  have wait: "st' = st \<or> sd_exits st' = [exit_code ev]"
    if p: "Signal \<in> set evs" "outcomes evs = []" and s: "shutdown_step st ev st'" for ev st'
    using s
  proof cases
    case signal
    then show ?thesis using pending [OF p] by (simp add: on_signal_def)
  qed (use step [OF s] p in \<open>simp_all add: decided_exit_def\<close>)
  have armed: "\<exists>st'. shutdown_step st Deadline st' \<and> sd_exits st' = [1]" if "Signal \<in> set evs" "outcomes evs = []"
  proof -
    have "shutdown_step st Deadline (on_deadline st)" using pending [OF that] by (intro deadline)
    then show ?thesis using step that by (auto simp: decided_exit_def exit_code_def)
  qed
  have settled: "sd_exits st' = sd_exits st" if "outcomes evs \<noteq> []" "shutdown_step st ev st'" for ev st'
    using step [OF that(2)] exits that(1) by (simp add: decided_exit_def split: list.splits)
  show ?thesis using exits wait armed settled by blast
qed

theorem shutdown_exits_exactly_once_witness:
  "\<exists>st. shutdown_trace shutdown_init [Signal, Signal, Deadline, Drained] st \<and> sd_exits st = [1]"
proof -
  let ?s1 = "on_signal shutdown_init" let ?s2 = "on_signal ?s1" let ?s3 = "on_deadline ?s2"
  have "shutdown_trace shutdown_init ([] @ [Signal]) ?s1" by (rule more [OF start signal])
  from more [OF this signal] have "shutdown_trace shutdown_init [Signal, Signal] ?s2" by simp
  from more [OF this deadline] have "shutdown_trace shutdown_init [Signal, Signal, Deadline] ?s3"
    by (simp add: on_signal_def shutdown_init_def)
  from more [OF this drained] have "shutdown_trace shutdown_init [Signal, Signal, Deadline, Drained] (finish 0 (?s3\<lparr>sd_draining := False\<rparr>))"
    by (simp add: on_signal_def on_deadline_def shutdown_init_def)
  with shutdown_exits_exactly_once [OF this] show ?thesis
    by (auto simp: decided_exit_def exit_code_def)
qed

end
