(* ===== verification/Jwt.thy ===== *)
theory Jwt
  imports Auth
begin

text \<open>
  The admin tokens the BFF signs for Ferrum Edge (\<open>server/jwt.ts\<close>, \<open>shared/admin-jwt.js\<close>): the
  claim contract, and the bounded cache of signed tokens keyed by a fingerprint of everything a
  token depends on. \<open>generateToken\<close> awaits the signature between pruning the cache and storing the
  token, so it is two definitions here, \<open>begin_token\<close> and \<open>finish_token\<close>, and whatever else the
  process does may come between them. The signature (\<open>jose\<close>) and SHA-256 are arguments; time is in
  seconds, as the code reads it.
\<close>

section \<open>Signing\<close>

datatype jwt_error =
  EmptySecret | ShortSecret | EmptyIssuer | EmptySubject | BadTtl | BadNow | EmptyJti | BadAudience | BadNamespaces

text \<open>A claim of one string or of several.\<close>

datatype claim = One string | Several "string list"

record claims =
  cl_issuer :: string
  cl_subject :: string
  cl_role :: gateway_role
  cl_audience :: "claim option"
  cl_ns :: "claim option"
  cl_iat :: int
  cl_nbf :: int
  cl_exp :: int
  cl_jti :: string

definition blank :: "string \<Rightarrow> bool" where
  "blank s \<longleftrightarrow> js_trim s = []"

definition claim_of :: "string list \<Rightarrow> claim" where
  "claim_of vs = (case vs of [v] \<Rightarrow> One v | _ \<Rightarrow> Several vs)"

definition normalize_audience :: "string list option \<Rightarrow> jwt_error + claim option" where
  "normalize_audience audience =
     (case audience of
        None \<Rightarrow> Inr None
      | Some vs \<Rightarrow> if vs = [] \<or> list_ex blank vs then Inl BadAudience else Inr (Some (claim_of (map js_trim vs))))"

definition normalize_namespaces :: "string list option \<Rightarrow> jwt_error + string list option" where
  "normalize_namespaces namespaces =
     (case namespaces of
        None \<Rightarrow> Inr None
      | Some ns \<Rightarrow>
          if ns = [] \<or> list_ex blank ns then Inl BadNamespaces
          else let values = js_unique (map js_trim ns) in
            if list_ex (\<lambda>n. \<not> is_namespace_name (cps n)) values then Inl BadNamespaces else Inr (Some values))"

definition secret_bytes :: "string \<Rightarrow> nat" where
  "secret_bytes s = length (concat (map (\<lambda>c. utf8 (of_char c)) s))"

text \<open>What a token depends on, which is also what its fingerprint digests.\<close>

record token_inputs =
  ti_secret :: string
  ti_admin_url :: string
  ti_issuer :: string
  ti_ttl :: int
  ti_audience :: "string list option"
  ti_subject :: string
  ti_role :: gateway_role
  ti_namespaces :: "string list option"

definition token_claims :: "token_inputs \<Rightarrow> int \<Rightarrow> string \<Rightarrow> jwt_error + claims" where
  "token_claims i now jti =
     (if blank (ti_secret i) then Inl EmptySecret
      else if secret_bytes (ti_secret i) < 32 then Inl ShortSecret
      else if blank (ti_issuer i) then Inl EmptyIssuer
      else if blank (ti_subject i) then Inl EmptySubject
      else if ti_ttl i < 1 \<or> 86400 < ti_ttl i then Inl BadTtl
      else if now < 0 \<or> max_safe < now then Inl BadNow
      else if blank jti then Inl EmptyJti
      else case normalize_audience (ti_audience i) of
        Inl e \<Rightarrow> Inl e
      | Inr aud \<Rightarrow>
          (case normalize_namespaces (ti_namespaces i) of
             Inl e \<Rightarrow> Inl e
           | Inr ns \<Rightarrow>
               Inr \<lparr>cl_issuer = ti_issuer i, cl_subject = ti_subject i, cl_role = ti_role i, cl_audience = aud,
                    cl_ns = map_option claim_of ns, cl_iat = now, cl_nbf = now, cl_exp = now + ti_ttl i, cl_jti = jti\<rparr>))"

section \<open>The token cache\<close>

record cached_token =
  ct_token :: string
  ct_expires_at :: int

type_synonym token_cache = "(string, cached_token) jsmap"
type_synonym signer = "string \<Rightarrow> claims \<Rightarrow> string"

definition max_cache_entries :: nat where
  "max_cache_entries = 256"

definition token_inputs_of :: "config \<Rightarrow> principal \<Rightarrow> token_inputs" where
  "token_inputs_of cfg p =
     \<lparr>ti_secret = cf_jwt_secret cfg, ti_admin_url = cf_admin_url cfg, ti_issuer = cf_jwt_issuer cfg,
      ti_ttl = cf_jwt_ttl cfg, ti_audience = cf_jwt_audience cfg, ti_subject = p_subject p,
      ti_role = p_role p, ti_namespaces = p_namespaces p\<rparr>"

definition prune_cache :: "int \<Rightarrow> token_cache \<Rightarrow> token_cache" where
  "prune_cache now m = prune max_cache_entries ct_expires_at now m"

definition refresh_buffer :: "int \<Rightarrow> int" where
  "refresh_buffer ttl = min 60 (max 1 (ttl div 4))"

text \<open>A token being signed: its key in the cache, the key and claims it is signed with, and its expiry.\<close>

record signing =
  sg_fingerprint :: string
  sg_secret :: string
  sg_claims :: claims
  sg_expires_at :: int

text \<open>How far \<open>generateToken\<close> gets before it yields: a cached token, a claim it refuses, or a signature
  to wait for.\<close>

datatype begun = Served string | Unsignable jwt_error | Signing signing

definition start_signing :: "token_inputs \<Rightarrow> string \<Rightarrow> int \<Rightarrow> string \<Rightarrow> begun" where
  "start_signing i fingerprint now jti =
     (case token_claims i now jti of
        Inl e \<Rightarrow> Unsignable e
      | Inr c \<Rightarrow> Signing \<lparr>sg_fingerprint = fingerprint, sg_secret = ti_secret i, sg_claims = c, sg_expires_at = now + ti_ttl i\<rparr>)"

definition begin_token ::
  "(token_inputs \<Rightarrow> string) \<Rightarrow> config \<Rightarrow> principal \<Rightarrow> int \<Rightarrow> string \<Rightarrow> token_cache \<Rightarrow> begun \<times> token_cache" where
  "begin_token digest cfg p now jti m =
     (let i = token_inputs_of cfg p; fingerprint = digest i in
      case jm_get m fingerprint of
        Some c \<Rightarrow>
          if now < ct_expires_at c - refresh_buffer (cf_jwt_ttl cfg)
          then (Served (ct_token c), jm_touch fingerprint c m)
          else (start_signing i fingerprint now jti, prune_cache now m)
      | None \<Rightarrow> (start_signing i fingerprint now jti, prune_cache now m))"

definition finish_token :: "signer \<Rightarrow> signing \<Rightarrow> token_cache \<Rightarrow> string \<times> token_cache" where
  "finish_token sign s m =
     (let token = sign (sg_secret s) (sg_claims s) in
      (token, jm_set (sg_fingerprint s) \<lparr>ct_token = token, ct_expires_at = sg_expires_at s\<rparr> m))"

definition clear_token_cache :: "token_cache \<Rightarrow> token_cache" where
  "clear_token_cache m = []"

section \<open>Runs\<close>

record token_request =
  tr_config :: config
  tr_principal :: principal
  tr_now :: int
  tr_jti :: string

abbreviation inputs_of :: "token_request \<Rightarrow> token_inputs" where
  "inputs_of r \<equiv> token_inputs_of (tr_config r) (tr_principal r)"

text \<open>What the process does with tokens, in any order: a request asks for one, the signature some
  request waits for is ready, the cache is cleared. Beside the cache and the signatures awaited, the
  book keeps what was asked and served, and the most signatures awaited at once.\<close>

datatype token_event = Ask token_request | Signed nat | Clear

record token_book =
  tb_cache :: token_cache
  tb_awaited :: "(token_request \<times> signing) list"
  tb_asked :: "token_request list"
  tb_served :: "(token_request \<times> string) list"
  tb_peak :: nat

definition new_book :: token_book where
  "new_book = \<lparr>tb_cache = [], tb_awaited = [], tb_asked = [], tb_served = [], tb_peak = 0\<rparr>"

definition ask_token :: "(token_inputs \<Rightarrow> string) \<Rightarrow> token_request \<Rightarrow> token_book \<Rightarrow> token_book" where
  "ask_token digest r b =
     (case begin_token digest (tr_config r) (tr_principal r) (tr_now r) (tr_jti r) (tb_cache b) of
        (Served t, m) \<Rightarrow> b\<lparr>tb_cache := m, tb_asked := r # tb_asked b, tb_served := (r, t) # tb_served b\<rparr>
      | (Unsignable e, m) \<Rightarrow> b\<lparr>tb_cache := m, tb_asked := r # tb_asked b\<rparr>
      | (Signing s, m) \<Rightarrow>
          b\<lparr>tb_cache := m, tb_asked := r # tb_asked b, tb_awaited := tb_awaited b @ [(r, s)],
            tb_peak := max (tb_peak b) (Suc (length (tb_awaited b)))\<rparr>)"

definition token_signed :: "signer \<Rightarrow> nat \<Rightarrow> token_book \<Rightarrow> token_book" where
  "token_signed sign i b =
     (if i < length (tb_awaited b)
      then let (r, s) = tb_awaited b ! i; (t, m) = finish_token sign s (tb_cache b) in
        b\<lparr>tb_cache := m, tb_awaited := take i (tb_awaited b) @ drop (Suc i) (tb_awaited b),
          tb_served := (r, t) # tb_served b\<rparr>
      else b)"

fun token_step :: "(token_inputs \<Rightarrow> string) \<Rightarrow> signer \<Rightarrow> token_event \<Rightarrow> token_book \<Rightarrow> token_book" where
  "token_step digest sign (Ask r) b = ask_token digest r b"
| "token_step digest sign (Signed i) b = token_signed sign i b"
| "token_step digest sign Clear b = b\<lparr>tb_cache := clear_token_cache (tb_cache b)\<rparr>"

definition token_run :: "(token_inputs \<Rightarrow> string) \<Rightarrow> signer \<Rightarrow> token_event list \<Rightarrow> token_book" where
  "token_run digest sign es = fold (token_step digest sign) es new_book"

section \<open>Pruning\<close>

context expiring_cache
begin

text \<open>Pruning needs no bound on the cache it starts from: it leaves a sound one with room in it.\<close>

lemma prune_sound:
  assumes "jm_ok m" "nonempty_keys m"
  shows "jm_ok (prune cap expires now m)" "nonempty_keys (prune cap expires now m)"
    "length (prune cap expires now m) < cap" "length (prune cap expires now m) \<le> length m"
    "jm_get (prune cap expires now m) k = Some v \<Longrightarrow> jm_get m k = Some v"
proof -
  let ?p = "prune cap expires now m"
  have p: "?p = drop (Suc (length (filter (\<lambda>(k, v). now < expires v) m)) - cap) (filter (\<lambda>(k, v). now < expires v) m)"
    by (rule prune_drop [OF assms(2)])
  show "jm_ok ?p" unfolding p by (rule jm_ok_drop [OF jm_ok_filter [OF assms(1)]])
  show "nonempty_keys ?p" unfolding p by (rule nonempty_keys_drop [OF nonempty_keys_filter [OF assms(2)]])
  show "length ?p < cap" using cap_pos by (simp add: p)
  show "length ?p \<le> length m" unfolding p length_drop by (rule le_trans [OF diff_le_self length_filter_le])
  assume "jm_get ?p k = Some v"
  then have "(k, v) \<in> set m" by (auto simp: p dest!: jm_get_in in_set_dropD)
  then show "jm_get m k = Some v" by (rule jm_in_get [OF assms(1)])
qed

end

interpretation tokens: expiring_cache max_cache_entries ct_expires_at
  by unfold_locales (simp add: max_cache_entries_def)

section \<open>What is cached and awaited\<close>

text \<open>A signature is asked for by a request: it is made with the request's own secret, for the claims
  of the request's own inputs, under their fingerprint.\<close>

definition signing_of :: "(token_inputs \<Rightarrow> string) \<Rightarrow> token_request \<Rightarrow> signing \<Rightarrow> bool" where
  "signing_of digest r s \<longleftrightarrow>
     sg_fingerprint s = digest (inputs_of r) \<and> sg_secret s = ti_secret (inputs_of r) \<and>
     token_claims (inputs_of r) (tr_now r) (tr_jti r) = Inr (sg_claims s) \<and> sg_expires_at s = cl_exp (sg_claims s)"

text \<open>Every cached token was signed for the inputs its key digests, by one of the requests.\<close>

definition signed_for :: "(token_inputs \<Rightarrow> string) \<Rightarrow> signer \<Rightarrow> token_request set \<Rightarrow> string \<Rightarrow> cached_token \<Rightarrow> bool" where
  "signed_for digest sign rs fp c \<longleftrightarrow>
     (\<exists>r \<in> rs. \<exists>s. signing_of digest r s \<and> fp = sg_fingerprint s \<and>
        ct_token c = sign (sg_secret s) (sg_claims s) \<and> ct_expires_at c = sg_expires_at s)"

definition cache_inv :: "(token_inputs \<Rightarrow> string) \<Rightarrow> signer \<Rightarrow> token_request set \<Rightarrow> token_cache \<Rightarrow> bool" where
  "cache_inv digest sign rs m \<longleftrightarrow>
     jm_ok m \<and> nonempty_keys m \<and> (\<forall>fp c. jm_get m fp = Some c \<longrightarrow> signed_for digest sign rs fp c)"

lemma signed_for_mono: "signed_for digest sign rs fp c \<Longrightarrow> rs \<subseteq> rs' \<Longrightarrow> signed_for digest sign rs' fp c"
  unfolding signed_for_def by blast

lemma cache_inv_mono: "cache_inv digest sign rs m \<Longrightarrow> rs \<subseteq> rs' \<Longrightarrow> cache_inv digest sign rs' m"
  unfolding cache_inv_def using signed_for_mono by metis

lemma cache_inv_Nil [simp]: "cache_inv digest sign rs []"
  by (simp add: cache_inv_def nonempty_keys_def jm_keys_def)

lemma token_claims_Inr:
  assumes "token_claims i now jti = Inr cl"
  shows "cl_exp cl = now + ti_ttl i" "cl_subject cl = ti_subject i" "cl_role cl = ti_role i" "1 \<le> ti_ttl i"
    "cl_issuer cl = ti_issuer i"
    "cl_ns cl = (case ti_namespaces i of None \<Rightarrow> None | Some ns \<Rightarrow> Some (claim_of (js_unique (map js_trim ns))))"
  using assms by (auto simp: token_claims_def normalize_namespaces_def Let_def split: if_splits sum.splits option.splits)

lemma begin_token_cases:
  obtains (cached) c where "jm_get m (digest (token_inputs_of cfg p)) = Some c"
      "now < ct_expires_at c - refresh_buffer (cf_jwt_ttl cfg)"
      "begin_token digest cfg p now jti m = (Served (ct_token c), jm_touch (digest (token_inputs_of cfg p)) c m)"
    | (refused) e where "begin_token digest cfg p now jti m = (Unsignable e, prune_cache now m)"
    | (signing) s where "signing_of digest \<lparr>tr_config = cfg, tr_principal = p, tr_now = now, tr_jti = jti\<rparr> s"
      "sg_expires_at s = now + cf_jwt_ttl cfg"
      "begin_token digest cfg p now jti m = (Signing s, prune_cache now m)"
proof (cases "\<exists>c. jm_get m (digest (token_inputs_of cfg p)) = Some c \<and> now < ct_expires_at c - refresh_buffer (cf_jwt_ttl cfg)")
  case True
  then show ?thesis using cached by (auto simp: begin_token_def Let_def)
next
  case False
  then have begun: "begin_token digest cfg p now jti m =
      (start_signing (token_inputs_of cfg p) (digest (token_inputs_of cfg p)) now jti, prune_cache now m)"
    by (auto simp: begin_token_def Let_def split: option.split)
  show ?thesis
  proof (cases "token_claims (token_inputs_of cfg p) now jti")
    case (Inl e)
    then show ?thesis using begun refused by (simp add: start_signing_def)
  next
    case (Inr cl)
    then show ?thesis using begun signing [OF _ _ begun [unfolded start_signing_def Inr sum.case]] token_claims_Inr(1) [OF Inr]
      by (simp add: signing_of_def) (simp add: token_inputs_of_def)
  qed
qed

lemma begin_token_inv:
  assumes "cache_inv digest sign rs m"
  shows "cache_inv digest sign rs (snd (begin_token digest cfg p now jti m))"
    "length (snd (begin_token digest cfg p now jti m)) \<le> length m"
    "fst (begin_token digest cfg p now jti m) = Signing s \<Longrightarrow> length (snd (begin_token digest cfg p now jti m)) < 256"
proof -
  have m: "jm_ok m" "nonempty_keys m" and vals: "\<And>fp c. jm_get m fp = Some c \<Longrightarrow> signed_for digest sign rs fp c"
    using assms by (auto simp: cache_inv_def)
  note pr = tokens.prune_sound [OF m, of now]
  have pruned: "cache_inv digest sign rs (prune_cache now m)"
    using pr vals by (auto simp: cache_inv_def prune_cache_def)
  have touched: "cache_inv digest sign rs (jm_touch k c m)" "length (jm_touch k c m) \<le> length m" if "jm_get m k = Some c" for k c
    using m vals that jm_get_SomeD [OF that] jm_length_touch_present [of m k c]
    by (auto simp: cache_inv_def nonempty_keys_def jm_simps inv_intros)
  show "cache_inv digest sign rs (snd (begin_token digest cfg p now jti m))"
    "length (snd (begin_token digest cfg p now jti m)) \<le> length m"
    "fst (begin_token digest cfg p now jti m) = Signing s \<Longrightarrow> length (snd (begin_token digest cfg p now jti m)) < 256"
    using pruned touched pr(3,4)
    by (cases rule: begin_token_cases [of m digest cfg p now jti]; force simp: prune_cache_def max_cache_entries_def)+
qed

lemma finish_token_inv:
  assumes "cache_inv digest sign rs m" "signing_of digest r s" "r \<in> rs" "\<forall>i. digest i \<noteq> []"
  shows "cache_inv digest sign rs (snd (finish_token sign s m))"
    "length (snd (finish_token sign s m)) \<le> Suc (length m)"
proof -
  have key: "sg_fingerprint s \<noteq> []" using assms(2,4) by (simp add: signing_of_def)
  have new: "signed_for digest sign rs (sg_fingerprint s)
      \<lparr>ct_token = sign (sg_secret s) (sg_claims s), ct_expires_at = sg_expires_at s\<rparr>"
    unfolding signed_for_def using assms(2,3) by force
  show "cache_inv digest sign rs (snd (finish_token sign s m))"
    using assms(1) new key by (auto simp: cache_inv_def finish_token_def Let_def jm_simps inv_intros nonempty_keys_set)
  show "length (snd (finish_token sign s m)) \<le> Suc (length m)"
    by (simp add: finish_token_def Let_def jm_simps)
qed

section \<open>The book\<close>

text \<open>A token served to \<open>r\<close> was signed for inputs with the same fingerprint as its own, by itself or by a
  request whose token has more than the refresh buffer left.\<close>

definition served_ok :: "(token_inputs \<Rightarrow> string) \<Rightarrow> signer \<Rightarrow> token_request set \<Rightarrow> token_request \<Rightarrow> string \<Rightarrow> bool" where
  "served_ok digest sign rs r t \<longleftrightarrow>
     (\<exists>r0 \<in> rs. \<exists>s. signing_of digest r0 s \<and> digest (inputs_of r0) = digest (inputs_of r) \<and>
        t = sign (sg_secret s) (sg_claims s) \<and>
        (r0 = r \<or> tr_now r + refresh_buffer (cf_jwt_ttl (tr_config r)) < sg_expires_at s))"

definition book_inv :: "(token_inputs \<Rightarrow> string) \<Rightarrow> signer \<Rightarrow> token_book \<Rightarrow> bool" where
  "book_inv digest sign b \<longleftrightarrow>
     cache_inv digest sign (set (tb_asked b)) (tb_cache b) \<and>
     (\<forall>(r, s) \<in> set (tb_awaited b). r \<in> set (tb_asked b) \<and> signing_of digest r s) \<and>
     (\<forall>(r, t) \<in> set (tb_served b). r \<in> set (tb_asked b) \<and> served_ok digest sign (set (tb_asked b)) r t) \<and>
     length (tb_cache b) + length (tb_awaited b) \<le> 255 + tb_peak b \<and> length (tb_awaited b) \<le> tb_peak b"

lemma served_ok_mono: "served_ok digest sign rs r t \<Longrightarrow> rs \<subseteq> rs' \<Longrightarrow> served_ok digest sign rs' r t"
  unfolding served_ok_def by blast

lemma ask_token_inv:
  assumes "book_inv digest sign b"
  shows "book_inv digest sign (ask_token digest r b)"
proof -
  let ?asked = "set (tb_asked (ask_token digest r b))"
  let ?begun = "begin_token digest (tr_config r) (tr_principal r) (tr_now r) (tr_jti r) (tb_cache b)"
  obtain g m where gm: "?begun = (g, m)" by fastforce
  have asked: "tb_asked (ask_token digest r b) = r # tb_asked b"
    by (simp add: ask_token_def gm split: begun.split)
  have grown: "set (tb_asked b) \<subseteq> ?asked" by (auto simp: asked)
  have old: "cache_inv digest sign ?asked (tb_cache b)"
    "\<And>r' s. (r', s) \<in> set (tb_awaited b) \<Longrightarrow> r' \<in> ?asked \<and> signing_of digest r' s"
    "\<And>r' t. (r', t) \<in> set (tb_served b) \<Longrightarrow> r' \<in> ?asked \<and> served_ok digest sign ?asked r' t"
    "length (tb_cache b) + length (tb_awaited b) \<le> 255 + tb_peak b" "length (tb_awaited b) \<le> tb_peak b"
    using assms cache_inv_mono [OF _ grown] served_ok_mono [OF _ grown] grown by (auto simp: book_inv_def)
  have cache: "cache_inv digest sign ?asked m" "length m \<le> length (tb_cache b)"
    "\<And>s. g = Signing s \<Longrightarrow> length m < 256"
    using begin_token_inv [OF old(1), of "tr_config r" "tr_principal r" "tr_now r" "tr_jti r"] by (simp_all add: gm)
  show ?thesis
  proof (cases rule: begin_token_cases [of "tb_cache b" digest "tr_config r" "tr_principal r" "tr_now r" "tr_jti r"])
    case (cached c)
    then have g: "g = Served (ct_token c)" using gm by simp
    have "signed_for digest sign ?asked (digest (inputs_of r)) c" using old(1) cached(1) by (simp add: cache_inv_def)
    then have "served_ok digest sign ?asked r (ct_token c)"
      using cached(2) unfolding served_ok_def signed_for_def by (fastforce simp: signing_of_def)
    then show ?thesis using old cache g
      unfolding book_inv_def asked by (auto simp: ask_token_def gm)
  next
    case (refused e)
    then have "g = Unsignable e" using gm by simp
    then show ?thesis using old cache unfolding book_inv_def asked by (auto simp: ask_token_def gm)
  next
    case (signing s)
    then have g: "g = Signing s" using gm by simp
    have "signing_of digest r s" using signing(1) by (simp add: signing_of_def)
    then show ?thesis using old cache(1) cache(3) [OF g]
      unfolding book_inv_def asked by (auto simp: ask_token_def gm g)
  qed
qed

lemma token_signed_inv:
  assumes inv: "book_inv digest sign b" and key: "\<forall>i. digest i \<noteq> []"
  shows "book_inv digest sign (token_signed sign i b)"
proof (cases "i < length (tb_awaited b)")
  case False
  then show ?thesis using inv by (simp add: token_signed_def)
next
  case True
  obtain r s where rs: "tb_awaited b ! i = (r, s)" by fastforce
  have "(r, s) \<in> set (tb_awaited b)" using True rs by (metis nth_mem)
  then have r: "r \<in> set (tb_asked b)" "signing_of digest r s" using inv by (auto simp: book_inv_def)
  have cache: "cache_inv digest sign (set (tb_asked b)) (tb_cache b)" using inv by (simp add: book_inv_def)
  note fin = finish_token_inv [OF cache r(2,1) key]
  have served: "served_ok digest sign (set (tb_asked b)) r (sign (sg_secret s) (sg_claims s))"
    unfolding served_ok_def using r by blast
  have left: "set (take i (tb_awaited b) @ drop (Suc i) (tb_awaited b)) \<subseteq> set (tb_awaited b)"
    using set_take_subset set_drop_subset by fastforce
  have step: "token_signed sign i b = b\<lparr>tb_cache := snd (finish_token sign s (tb_cache b)),
      tb_awaited := take i (tb_awaited b) @ drop (Suc i) (tb_awaited b),
      tb_served := (r, sign (sg_secret s) (sg_claims s)) # tb_served b\<rparr>"
    using True rs by (simp add: token_signed_def finish_token_def Let_def)
  have short: "length (snd (finish_token sign s (tb_cache b))) + (i + (length (tb_awaited b) - Suc i)) \<le> 255 + tb_peak b"
    "i + (length (tb_awaited b) - Suc i) \<le> tb_peak b"
    using fin(2) True inv by (auto simp: book_inv_def)
  show ?thesis
    unfolding book_inv_def step
    using inv fin(1) r served left short True by (auto simp: book_inv_def min_absorb2)
qed

lemma token_run_inv:
  assumes "\<forall>i. digest i \<noteq> []"
  shows "book_inv digest sign (token_run digest sign es)"
proof (induction es rule: rev_induct)
  case Nil
  then show ?case by (simp add: token_run_def new_book_def book_inv_def)
next
  case (snoc e es)
  have step: "token_run digest sign (es @ [e]) = token_step digest sign e (token_run digest sign es)"
    by (simp add: token_run_def)
  show ?case unfolding step
  proof (cases e)
    case Clear
    then show "book_inv digest sign (token_step digest sign e (token_run digest sign es))"
      using snoc by (auto simp: book_inv_def clear_token_cache_def)
  qed (use snoc ask_token_inv token_signed_inv [OF _ assms] in simp_all)
qed

text \<open>What a fact about fingerprints says of the caller itself when no two asked-for inputs collide.\<close>

definition own_token :: "signer \<Rightarrow> token_inputs \<Rightarrow> int \<Rightarrow> claims \<Rightarrow> string \<Rightarrow> bool" where
  "own_token sign i now cl t \<longleftrightarrow>
     t = sign (ti_secret i) cl \<and> now < cl_exp cl \<and> cl_issuer cl = ti_issuer i \<and>
     cl_subject cl = ti_subject i \<and> cl_role cl = ti_role i \<and>
     cl_ns cl = (case ti_namespaces i of None \<Rightarrow> None | Some ns \<Rightarrow> Some (claim_of (js_unique (map js_trim ns))))"

lemma served_own:
  assumes "served_ok digest sign rs r t" "inj_on digest (inputs_of ` rs)" "r \<in> rs"
  obtains r0 cl where "r0 \<in> rs" "inputs_of r0 = inputs_of r" "token_claims (inputs_of r) (tr_now r0) (tr_jti r0) = Inr cl"
    "own_token sign (inputs_of r) (tr_now r) cl t"
    "r0 = r \<or> tr_now r + refresh_buffer (cf_jwt_ttl (tr_config r)) < cl_exp cl"
proof -
  obtain r0 s where r0: "r0 \<in> rs" "signing_of digest r0 s" "digest (inputs_of r0) = digest (inputs_of r)"
    "t = sign (sg_secret s) (sg_claims s)"
    "r0 = r \<or> tr_now r + refresh_buffer (cf_jwt_ttl (tr_config r)) < sg_expires_at s"
    using assms(1) unfolding served_ok_def by blast
  have same: "inputs_of r0 = inputs_of r" using inj_onD [OF assms(2) r0(3)] r0(1) assms(3) by blast
  have s: "sg_secret s = ti_secret (inputs_of r)" "token_claims (inputs_of r) (tr_now r0) (tr_jti r0) = Inr (sg_claims s)"
    "sg_expires_at s = cl_exp (sg_claims s)"
    using r0(2) same by (simp_all add: signing_of_def)
  note cl = token_claims_Inr [OF s(2)]
  have "0 < refresh_buffer (cf_jwt_ttl (tr_config r))" by (simp add: refresh_buffer_def)
  then have "tr_now r < cl_exp (sg_claims s)" using r0(5) s(3) cl(1,4) by auto
  then show ?thesis using that [OF r0(1) same s(2)] cl(2,3,5,6) r0(4,5) s(1,3) by (simp add: own_token_def)
qed

subsection \<open>Overlapping requests\<close>

lemma asks_await:
  assumes "tb_cache b = []" "\<forall>r \<in> set rs. \<exists>cl. token_claims (inputs_of r) (tr_now r) (tr_jti r) = Inr cl"
  shows "tb_cache (fold (token_step digest sign) (map Ask rs) b) = [] \<and>
    map (sg_fingerprint \<circ> snd) (tb_awaited (fold (token_step digest sign) (map Ask rs) b)) =
    map (sg_fingerprint \<circ> snd) (tb_awaited b) @ map (\<lambda>r. digest (inputs_of r)) rs"
  using assms
proof (induction rs arbitrary: b)
  case Nil
  then show ?case by simp
next
  case (Cons r rs)
  obtain cl where cl: "token_claims (inputs_of r) (tr_now r) (tr_jti r) = Inr cl" using Cons.prems(2) by auto
  have empty: "prune_cache n [] = []" for n by (simp add: prune_cache_def prune_def)
  have "tb_cache (ask_token digest r b) = []"
    "map (sg_fingerprint \<circ> snd) (tb_awaited (ask_token digest r b)) =
      map (sg_fingerprint \<circ> snd) (tb_awaited b) @ [digest (inputs_of r)]"
    using Cons.prems(1) cl by (simp_all add: ask_token_def begin_token_def start_signing_def empty Let_def)
  then show ?case using Cons.IH [of "ask_token digest r b"] Cons.prems(2) by (simp add: comp_def)
qed

lemma signatures_fill:
  assumes "distinct (jm_keys (tb_cache b) @ map (sg_fingerprint \<circ> snd) (tb_awaited b))"
  shows "length (tb_cache (fold (token_step digest sign) (replicate (length (tb_awaited b)) (Signed 0)) b)) =
    length (tb_cache b) + length (tb_awaited b)"
  using assms
proof (induction "tb_awaited b" arbitrary: b)
  case Nil
  then show ?case by (simp flip: Nil(1))
next
  case (Cons rs rest)
  obtain r s where rs: "rs = (r, s)" by (cases rs)
  have aw: "tb_awaited b = (r, s) # rest" using Cons.hyps(2) rs by simp
  define b' where "b' = token_signed sign 0 b"
  have fresh: "jm_get (tb_cache b) (sg_fingerprint s) = None" using Cons.prems by (simp add: aw jm_get_None_iff)
  have b': "tb_awaited b' = rest" "tb_cache b' = tb_cache b @ [(sg_fingerprint s,
      \<lparr>ct_token = sign (sg_secret s) (sg_claims s), ct_expires_at = sg_expires_at s\<rparr>)]"
    using fresh by (simp_all add: b'_def token_signed_def aw finish_token_def Let_def jm_set_absent)
  have "distinct (jm_keys (tb_cache b') @ map (sg_fingerprint \<circ> snd) (tb_awaited b'))"
    using Cons.prems by (auto simp: b' aw jm_keys_def)
  from Cons.hyps(1) [OF b'(1) [symmetric] this] show ?case by (simp add: aw b' flip: b'_def)
qed

text \<open>The bound of 256 is one of requests that do not overlap: the cache is pruned before a signature is awaited
  and the token is stored after it. However many requests for different tokens are made before the
  first of their signatures is ready, all of their tokens end up in the cache.\<close>

theorem concurrent_signings_overfill:
  assumes "distinct (map (\<lambda>r. digest (inputs_of r)) rs)"
    and "\<forall>r \<in> set rs. \<exists>cl. token_claims (inputs_of r) (tr_now r) (tr_jti r) = Inr cl"
  shows "length (tb_cache (token_run digest sign (map Ask rs @ replicate (length rs) (Signed 0)))) = length rs"
proof -
  define b where "b = fold (token_step digest sign) (map Ask rs) new_book"
  have b: "tb_cache b = []" "map (sg_fingerprint \<circ> snd) (tb_awaited b) = map (\<lambda>r. digest (inputs_of r)) rs"
    using asks_await [of new_book rs digest sign] assms(2) by (simp_all add: b_def new_book_def)
  have "length (tb_awaited b) = length rs" using arg_cong [OF b(2), of length] by simp
  then show ?thesis
    using signatures_fill [of b digest sign] b assms(1) by (simp add: token_run_def jm_keys_def flip: b_def)
qed

text \<open>C16: A request is only ever signed as its own principal. Take any interleaving of requests for
  tokens, of signatures becoming ready (in any order) and of clearings of the cache, in which the digest has
  no collisions among the inputs asked for and never is empty. Every token served to a request was signed with its own secret, with
  its own principal's subject, role and namespaces and its issuer as claims (no namespace claim exactly
  when the principal is unrestricted), and has not expired: it was signed for the request itself,
  or for another one with the same inputs and has more than the refresh buffer of its life left.
  The cache holds at most 255 tokens more than the most signatures that were awaited at once: 256
  when requests never overlap, and more when they do (\<open>concurrent_signings_overfill\<close>).\<close>

theorem served_token_is_the_callers:
  assumes "b = token_run digest sign es"
    and "inj_on digest (inputs_of ` set (tb_asked b))" and "\<forall>i. digest i \<noteq> []"
  shows "length (tb_cache b) + length (tb_awaited b) \<le> 255 + tb_peak b \<and>
    (\<forall>(r, t) \<in> set (tb_served b). \<exists>r0 \<in> set (tb_asked b). \<exists>cl.
      inputs_of r0 = inputs_of r \<and> token_claims (inputs_of r) (tr_now r0) (tr_jti r0) = Inr cl \<and>
      t = sign (cf_jwt_secret (tr_config r)) cl \<and> tr_now r < cl_exp cl \<and>
      cl_issuer cl = cf_jwt_issuer (tr_config r) \<and>
      cl_subject cl = p_subject (tr_principal r) \<and> cl_role cl = p_role (tr_principal r) \<and>
      cl_ns cl = (case p_namespaces (tr_principal r) of None \<Rightarrow> None
                  | Some ns \<Rightarrow> Some (claim_of (js_unique (map js_trim ns)))) \<and>
      (r0 = r \<or> tr_now r + refresh_buffer (cf_jwt_ttl (tr_config r)) < cl_exp cl))"
proof -
  have inv: "book_inv digest sign b" unfolding assms(1) by (rule token_run_inv [OF assms(3)])
  have fields: "ti_secret (inputs_of r) = cf_jwt_secret (tr_config r)" "ti_issuer (inputs_of r) = cf_jwt_issuer (tr_config r)"
    "ti_subject (inputs_of r) = p_subject (tr_principal r)" "ti_role (inputs_of r) = p_role (tr_principal r)"
    "ti_namespaces (inputs_of r) = p_namespaces (tr_principal r)" for r
    by (simp_all add: token_inputs_of_def)
  have "\<exists>r0 \<in> set (tb_asked b). \<exists>cl.
      inputs_of r0 = inputs_of r \<and> token_claims (inputs_of r) (tr_now r0) (tr_jti r0) = Inr cl \<and>
      own_token sign (inputs_of r) (tr_now r) cl t \<and>
      (r0 = r \<or> tr_now r + refresh_buffer (cf_jwt_ttl (tr_config r)) < cl_exp cl)" if rt: "(r, t) \<in> set (tb_served b)" for r t
  proof -
    have "served_ok digest sign (set (tb_asked b)) r t" "r \<in> set (tb_asked b)" using inv rt by (auto simp: book_inv_def)
    then show ?thesis using served_own [OF _ assms(2)] by metis
  qed
  then show ?thesis using inv unfolding own_token_def fields by (fastforce simp: book_inv_def)
qed

definition sample_signing :: config where
  "sample_signing = sample_config\<lparr>cf_jwt_secret := ''0123456789abcdef0123456789abcdef'',
     cf_jwt_issuer := ''ferrum-foundry'', cf_jwt_ttl := 300, cf_jwt_audience := None\<rparr>"

definition sample_bob :: principal where
  "sample_bob = sample_ann\<lparr>p_subject := ''bob'', p_namespaces := None\<rparr>"

definition token_for :: "principal \<Rightarrow> int \<Rightarrow> token_request" where
  "token_for p now = \<lparr>tr_config = sample_signing, tr_principal = p, tr_now = now, tr_jti = ''j''\<rparr>"

definition plain_digest :: "token_inputs \<Rightarrow> string" where
  "plain_digest i = ''#'' @ ti_subject i"

definition plain_sign :: signer where
  "plain_sign secret cl = cl_subject cl @ show_nat (nat (cl_exp cl))"

definition sample_run :: "token_event list" where
  "sample_run = [Ask (token_for sample_bob 1000), Ask (token_for sample_ann 1000), Signed 1, Ask (token_for sample_ann 1100), Signed 0]"

lemma sample_claims:
  "p \<in> {sample_ann, sample_bob} \<Longrightarrow> n \<in> {1000, 1100} \<Longrightarrow>
     \<exists>cl. token_claims (token_inputs_of sample_signing p) n ''j'' = Inr cl \<and> cl_exp cl = n + 300"
  by (auto simp: token_claims_def token_inputs_of_def sample_signing_def sample_ann_def sample_bob_def blank_def js_trim_def
      white_space_def secret_bytes_def utf8_def max_safe_def normalize_audience_def normalize_namespaces_def js_unique_def
      is_namespace_name_def cps_def name_char_def name_start_def)

theorem served_token_is_the_callers_witness:
  "\<exists>t cl. (token_for sample_ann 1100, t) \<in> set (tb_served (token_run plain_digest plain_sign sample_run)) \<and>
     tb_peak (token_run plain_digest plain_sign sample_run) = 2 \<and>
     t = plain_sign (cf_jwt_secret sample_signing) cl \<and> cl_subject cl = ''ann'' \<and> 1100 < cl_exp cl"
proof -
  let ?b = "token_run plain_digest plain_sign sample_run"
  obtain bob where bob: "token_claims (token_inputs_of sample_signing sample_bob) 1000 ''j'' = Inr bob"
    using sample_claims [of sample_bob 1000] by auto
  obtain ann where ann: "token_claims (token_inputs_of sample_signing sample_ann) 1000 ''j'' = Inr ann"
    using sample_claims [of sample_ann 1000] by auto
  have digests: "plain_digest (token_inputs_of sample_signing sample_ann) = ''#ann''"
    "plain_digest (token_inputs_of sample_signing sample_bob) = ''#bob''"
    by (simp_all add: plain_digest_def token_inputs_of_def sample_ann_def sample_bob_def)
  have ttl: "refresh_buffer (cf_jwt_ttl sample_signing) = 60" "ti_ttl (token_inputs_of sample_signing p) = 300" for p
    by (simp_all add: refresh_buffer_def token_inputs_of_def sample_signing_def)
  have run: "(token_for sample_ann 1100, plain_sign (ti_secret (token_inputs_of sample_signing sample_ann)) ann) \<in> set (tb_served ?b) \<and>
      tb_peak ?b = 2 \<and> set (tb_asked ?b) = {token_for sample_bob 1000, token_for sample_ann 1000, token_for sample_ann 1100}"
    using bob ann by (simp add: token_run_def sample_run_def new_book_def ask_token_def begin_token_def start_signing_def token_for_def
        digests ttl prune_cache_def prune_def token_signed_def finish_token_def Let_def jm_set_absent insert_commute)
  then obtain t where t: "(token_for sample_ann 1100, t) \<in> set (tb_served ?b)" "tb_peak ?b = 2" by blast
  have "inj_on plain_digest (inputs_of ` set (tb_asked ?b))"
    using run by (auto simp: inj_on_def token_for_def plain_digest_def token_inputs_of_def sample_bob_def sample_ann_def)
  from served_token_is_the_callers [OF refl this] t(1)
  have "\<exists>cl. t = plain_sign (cf_jwt_secret sample_signing) cl \<and> cl_subject cl = p_subject sample_ann \<and> 1100 < cl_exp cl"
    by (fastforce simp: plain_digest_def token_for_def)
  then show ?thesis using t by (auto simp: sample_ann_def)
qed

end
