(* ===== verification/HealthSummary.thy ===== *)
theory HealthSummary
  imports Json
begin

text \<open>
  What a namespace-scoped principal sees of the gateway's health
  (\<open>server/health-summary.ts\<close> and the buffering in \<open>server/proxy.ts\<close>): the summary fields, and
  the serving block only when its active namespace is granted.
\<close>

definition scoped_health_fields :: "string list" where
  "scoped_health_fields = [''status'', ''timestamp'', ''mode'', ''admin_writes_enabled'', ''ready'']"

definition namespace_block_fields :: "string list" where
  "namespace_block_fields = [''active'', ''serving_scope'', ''data_plane_single_namespace'']"

definition json_scalar :: "'s json \<Rightarrow> bool" where
  "json_scalar v = (case v of JObj _ \<Rightarrow> False | JArr _ \<Rightarrow> False | _ \<Rightarrow> True)"

text \<open>The fields of \<open>source\<close> named in \<open>names\<close> that are scalars, in the order of \<open>names\<close>.\<close>

definition copy_scalars :: "(utf16 \<times> utf16 json) list \<Rightarrow> string list \<Rightarrow> (utf16 \<times> utf16 json) list" where
  "copy_scalars source names =
     List.map_filter (\<lambda>f. case map_of source (cps f) of
        Some v \<Rightarrow> if json_scalar v then Some (cps f, v) else None
      | None \<Rightarrow> None) names"

definition project_namespace_block :: "utf16 json option \<Rightarrow> string list \<Rightarrow> utf16 json option" where
  "project_namespace_block value grants =
     (case value of
        Some (JObj fs) \<Rightarrow>
          (case map_of fs (cps ''active'') of
             Some (JStr active) \<Rightarrow>
               if active \<in> cps ` set grants then Some (JObj (copy_scalars fs namespace_block_fields)) else None
           | _ \<Rightarrow> None)
      | _ \<Rightarrow> None)"

definition project_health_summary :: "utf16 json \<Rightarrow> string list \<Rightarrow> utf16 json option" where
  "project_health_summary parsed grants =
     (case parsed of
        JObj fs \<Rightarrow>
          Some (JObj (copy_scalars fs scoped_health_fields @
            (case project_namespace_block (map_of fs (cps ''namespace'')) grants of
               Some block \<Rightarrow> [(cps ''namespace'', block)] | None \<Rightarrow> [])))
      | _ \<Rightarrow> None)"

definition health_body_limit :: nat where
  "health_body_limit = 1024 * 1024"

fun health_chunks :: "nat \<Rightarrow> nat list \<Rightarrow> bool" where
  "health_chunks received [] = True"
| "health_chunks received (n # ns) =
     (if health_body_limit < received + n then False else health_chunks (received + n) ns)"

text \<open>\<open>scopedHealthSummary\<close>: the sizes of the chunks and what the joined body parses to;
  \<open>None\<close> is \<open>UnreadableHealthError\<close>, answered 502.\<close>

definition scoped_health_summary :: "nat list \<Rightarrow> utf16 json option \<Rightarrow> string list \<Rightarrow> utf16 json option" where
  "scoped_health_summary chunks parsed grants =
     (if \<not> health_chunks 0 chunks then None
      else case parsed of None \<Rightarrow> None | Some v \<Rightarrow> project_health_summary v grants)"

lemma health_chunks_iff: "health_chunks n ns \<longleftrightarrow> ns = [] \<or> n + sum_list ns \<le> health_body_limit"
proof (induction ns arbitrary: n)
  case Nil
  then show ?case by simp
next
  case (Cons a ns)
  then show ?case by (cases "ns = []") (simp_all add: add.assoc not_less)
qed

lemma copy_scalars_lookup:
  "map_of (copy_scalars source names) k =
     (if k \<in> cps ` set names then (case map_of source k of Some v \<Rightarrow> if json_scalar v then Some v else None | None \<Rightarrow> None)
      else None)"
  unfolding copy_scalars_def
  by (induction names) (auto simp: List.map_filter_simps split: option.splits)

lemma copy_scalars_keys: "set (map fst (copy_scalars source names)) \<subseteq> cps ` set names"
  by (auto simp: copy_scalars_def List.map_filter_def split: option.splits if_splits)

text \<open>A scoped health answer discloses nothing but its summary. It exists exactly when the
  gateway's body is at most 1 MiB (an empty body of no chunks aside) and a JSON object; its fields
  are the five summary fields with the gateway's own scalar values, and a \<open>namespace\<close> block of
  scalars exactly when the active namespace is one of the principal's grants. A name that is
  not granted never appears as \<open>active\<close>.\<close>

theorem health_discloses_only_the_summary:
  "(case scoped_health_summary chunks parsed grants of
      None \<Rightarrow> health_body_limit < sum_list chunks \<or> (case parsed of Some (JObj _) \<Rightarrow> False | _ \<Rightarrow> True)
    | Some out \<Rightarrow>
        sum_list chunks \<le> health_body_limit \<and>
        (\<exists>fs. parsed = Some (JObj fs) \<and>
          (\<forall>k. jfield k out =
             (if k \<in> cps ` set scoped_health_fields
              then (case map_of fs k of Some v \<Rightarrow> if json_scalar v then Some v else None | None \<Rightarrow> None)
              else if k = cps ''namespace'' then project_namespace_block (map_of fs k) grants
              else None)) \<and>
          (case jfield (cps ''namespace'') out of
             None \<Rightarrow> True
           | Some block \<Rightarrow>
               (\<exists>g \<in> set grants. jfield (cps ''active'') block = Some (JStr (cps g))) \<and>
               dom (\<lambda>k. jfield k block) \<subseteq> cps ` set namespace_block_fields)))"
proof (cases "scoped_health_summary chunks parsed grants")
  case None
  then show ?thesis
    by (auto simp: scoped_health_summary_def health_chunks_iff project_health_summary_def split: option.splits json.splits if_splits)
next
  case (Some out)
  then obtain fs where fs: "parsed = Some (JObj fs)" "sum_list chunks \<le> health_body_limit"
    "out = JObj (copy_scalars fs scoped_health_fields @
            (case project_namespace_block (map_of fs (cps ''namespace'')) grants of
               Some block \<Rightarrow> [(cps ''namespace'', block)] | None \<Rightarrow> []))"
    by (auto simp: scoped_health_summary_def health_chunks_iff project_health_summary_def split: option.splits json.splits if_splits)
  have out: "jfield k out =
             (if k \<in> cps ` set scoped_health_fields
              then (case map_of fs k of Some v \<Rightarrow> if json_scalar v then Some v else None | None \<Rightarrow> None)
              else if k = cps ''namespace'' then project_namespace_block (map_of fs k) grants
              else None)" for k
    unfolding fs(3) jfield_def
    by (auto simp: map_add_def copy_scalars_lookup scoped_health_fields_def split: option.splits)
  have block: "(\<exists>g \<in> set grants. jfield (cps ''active'') b = Some (JStr (cps g))) \<and>
               dom (\<lambda>k. jfield k b) \<subseteq> cps ` set namespace_block_fields"
    if "project_namespace_block v grants = Some b" for v b
    using that
    by (auto simp: project_namespace_block_def jfield_def copy_scalars_lookup namespace_block_fields_def json_scalar_def dom_def
        split: option.splits json.splits if_splits)
  have "cps ''namespace'' \<notin> cps ` set scoped_health_fields" by (auto simp: scoped_health_fields_def)
  then show ?thesis using Some fs(1,2) out block by (auto split: option.split)
qed

end
