(* ===== verification/QueryForm.thy ===== *)
theory QueryForm
  imports Registry
begin

text \<open>
  The query of a namespace delete as \<open>server/proxy.ts\<close> rewrites it: \<open>URLSearchParams\<close> parsed by
  \<open>Registry\<close>, \<open>delete\<close> and \<open>set\<close> on it, and its serialisation, with the round trip between the two.
  Parameters are bytes: an escape sequence that is not UTF-8 reaches the code as the replacement
  character, which no name compared here contains.
\<close>

section \<open>The confirmed cascade flag\<close>

text \<open>\<open>URLSearchParams\<close> written back into a query: names and values are bytes, and what is not
  unreserved is escaped.\<close>

definition form_plain :: "nat \<Rightarrow> bool" where
  "form_plain b \<longleftrightarrow>
     (48 \<le> b \<and> b \<le> 57) \<or> (65 \<le> b \<and> b \<le> 90) \<or> (97 \<le> b \<and> b \<le> 122) \<or> b \<in> {42, 45, 46, 95}"

definition form_byte :: "nat \<Rightarrow> string" where
  "form_byte b = (if form_plain b then [char_of b] else if b = 32 then ''+'' else percent b)"

definition form_encode :: "nat list \<Rightarrow> string" where
  "form_encode bs = concat (map form_byte bs)"

definition params_text :: "(nat list \<times> nat list) list \<Rightarrow> string" where
  "params_text ps =
     (let q = join_with CHR ''&'' (map (\<lambda>(k, v). form_encode k @ CHR ''='' # form_encode v) ps)
      in if ps = [] then [] else CHR ''?'' # q)"

definition confirm_query :: "bool \<Rightarrow> string \<Rightarrow> string" where
  "confirm_query confirmed query =
     params_text (filter (\<lambda>kv. fst kv \<noteq> cps ''confirm'') (search_params query) @
       (if confirmed then [(cps ''confirm'', cps ''true'')] else []))"

lemma hex_digit_plain: "n < 16 \<Longrightarrow> form_plain (of_char (hex_digit n))"
  by (auto simp: of_char_hex_digit form_plain_def)

lemma form_plain_small: "form_plain b \<Longrightarrow> b < 256"
  by (auto simp: form_plain_def)

lemma form_encode_chars:
  assumes "\<forall>b \<in> set bs. b < 256" "x \<in> set (cps (form_encode bs))"
  shows "form_plain x \<or> x = 37 \<or> x = 43"
proof -
  obtain b where b: "b \<in> set bs" "x \<in> set (cps (form_byte b))"
    using assms(2) by (auto simp: form_encode_def cps_def)
  have "b < 256" using b(1) assms(1) by blast
  then have "form_plain (of_char (hex_digit (b div 16)))" "form_plain (of_char (hex_digit (b mod 16)))"
    by (auto intro: hex_digit_plain)
  then show ?thesis using b(2) \<open>b < 256\<close>
    by (auto simp: form_byte_def cps_def percent_def split: if_splits)
qed

lemma form_encode_free:
  assumes "\<forall>b \<in> set bs. b < 256"
  shows "CHR ''&'' \<notin> set (form_encode bs)" "CHR ''='' \<notin> set (form_encode bs)"
proof -
  have "(of_char c :: nat) \<in> set (cps (form_encode bs))" if "c \<in> set (form_encode bs)" for c
    using that by (simp add: cps_def)
  then show "CHR ''&'' \<notin> set (form_encode bs)" "CHR ''='' \<notin> set (form_encode bs)"
    using form_encode_chars [OF assms] by (fastforce simp: form_plain_def)+
qed

lemma percent_byte_other: "c \<noteq> 37 \<Longrightarrow> percent_byte (c # cs) = None"
  by (cases cs; cases "tl cs") auto

lemma form_bytes_encode: "\<forall>b \<in> set bs. b < 256 \<Longrightarrow> form_bytes (cps (form_encode bs) @ rest) = bs @ form_bytes rest"
proof (induction bs)
  case Nil
  then show ?case by (simp add: form_encode_def cps_def)
next
  case (Cons b bs)
  have b: "b < 256" using Cons.prems by simp
  have split: "cps (form_encode (b # bs)) @ rest = cps (form_byte b) @ (cps (form_encode bs) @ rest)"
    by (simp add: form_encode_def cps_def)
  have step: "form_bytes (cps (form_byte b) @ xs) = b # form_bytes xs" for xs
  proof (cases "form_plain b")
    case True
    then have "b \<noteq> 37" "b \<noteq> 43" by (auto simp: form_plain_def)
    then show ?thesis using True b by (simp add: form_byte_def cps_def percent_byte_other)
  next
    case False
    show ?thesis
    proof (cases "b = 32")
      case True
      then show ?thesis using False by (simp add: form_byte_def cps_def percent_byte_other)
    next
      case b32: False
      have "form_bytes (cps (percent b) @ xs) = b # form_bytes xs"
        using percent_byte_percent [OF b, of xs] by (simp add: cps_def percent_def)
      then show ?thesis using False b32 by (simp add: form_byte_def)
    qed
  qed
  show ?case unfolding split step using Cons by simp
qed

lemma cut_at_append: "c \<notin> set s \<Longrightarrow> cut_at c (s @ c # t) = (s, Some t)"
  by (induction s) auto

definition byte_params :: "(nat list \<times> nat list) list \<Rightarrow> bool" where
  "byte_params ps \<longleftrightarrow> (\<forall>(k, v) \<in> set ps. (\<forall>b \<in> set k. b < 256) \<and> (\<forall>b \<in> set v. b < 256))"

lemma search_params_text:
  assumes "byte_params ps"
  shows "search_params (params_text ps) = ps"
proof (cases "ps = []")
  case True
  then show ?thesis by (simp add: params_text_def search_params_def)
next
  case False
  let ?enc = "\<lambda>(k, v). form_encode k @ CHR ''='' # form_encode v"
  have free: "CHR ''&'' \<notin> set (?enc kv)" "?enc kv \<noteq> []" if "kv \<in> set ps" for kv
    using that assms form_encode_free by (auto simp: byte_params_def split: prod.splits)
  have split: "split_on CHR ''&'' (join_with CHR ''&'' (map ?enc ps)) = map ?enc ps"
    using False free by (intro split_join) auto
  have filter: "filter (\<lambda>piece. piece \<noteq> []) (map ?enc ps) = map ?enc ps"
    using free(2) by (auto intro: filter_True)
  have dec: "(case cut_at CHR ''='' (?enc kv) of (k, v) \<Rightarrow>
      (form_bytes (cps k), case v of None \<Rightarrow> [] | Some v' \<Rightarrow> form_bytes (cps v'))) = kv" if "kv \<in> set ps" for kv
    using that assms form_bytes_encode [of _ "[]"]
    by (auto simp: byte_params_def cut_at_append form_encode_free split: prod.splits)
  show ?thesis using False dec
    by (simp add: search_params_def params_text_def Let_def split filter map_idI)
qed

lemma percent_byte_small: "percent_byte xs = Some (b, r) \<Longrightarrow> b < 256"
  by (cases xs rule: percent_byte.cases) (auto simp: hex_value_def split: if_splits option.splits)

lemma form_bytes_small: "\<forall>c \<in> set cs. c < 256 \<Longrightarrow> \<forall>b \<in> set (form_bytes cs). b < 256"
proof (induction cs rule: form_bytes.induct)
  case (2 c cs)
  show ?case
  proof (cases "percent_byte (c # cs)")
    case None
    then show ?thesis using 2 by auto
  next
    case (Some br)
    obtain b r where br: "br = (b, r)" by (cases br)
    have "b < 256" "set r \<subseteq> set (c # cs)"
      using Some br percent_byte_suffix percent_byte_small by blast+
    moreover have "\<forall>c \<in> set r. c < 256" using \<open>set r \<subseteq> set (c # cs)\<close> "2.prems" by auto
    ultimately show ?thesis using "2.IH"(2) [OF Some [unfolded br]] Some br by simp
  qed
qed simp

lemma search_params_bytes: "byte_params (search_params q)"
proof -
  have "\<forall>b \<in> set (form_bytes (cps s)). b < 256" for s by (rule form_bytes_small) (simp add: cps_def)
  then show ?thesis
    by (auto simp: byte_params_def search_params_def Let_def split: prod.splits option.splits)
qed

lemma confirm_query_params:
  "search_params (confirm_query confirmed q) =
     filter (\<lambda>kv. fst kv \<noteq> cps ''confirm'') (search_params q) @ (if confirmed then [(cps ''confirm'', cps ''true'')] else [])"
  unfolding confirm_query_def
  using search_params_bytes [of q] by (intro search_params_text) (auto simp: byte_params_def cps_def)

definition confirm_values :: "string \<Rightarrow> nat list list" where
  "confirm_values q = map snd (filter (\<lambda>kv. fst kv = cps ''confirm'') (search_params q))"

end
