(* ===== verification/ResponseBoundary.thy ===== *)
theory ResponseBoundary
  imports ProxyPath
begin

text \<open>
  What the proxy lets through of a gateway's answer (\<open>apiContentType\<close>, \<open>safeResponseHeader\<close> and
  the header copy in \<open>server/proxy.ts\<close>): an API answer, never a document of the console's origin.
\<close>

section \<open>The response boundary\<close>

definition api_response_media_types :: "string list" where
  "api_response_media_types =
     [''application/json'', ''application/yaml'', ''application/x-yaml'', ''application/octet-stream'',
      ''text/plain'', ''text/yaml'', ''text/x-yaml'']"

definition media_char :: "char \<Rightarrow> bool" where
  "media_char c \<longleftrightarrow> digit c \<or> (97 \<le> (of_char c :: nat) \<and> (of_char c :: nat) \<le> 122) \<or> c \<in> set ''!#$&^_.+-''"

definition media_token :: "string \<Rightarrow> bool" where
  "media_token s \<longleftrightarrow> s \<noteq> [] \<and> list_all media_char s"

definition media_type_essence :: "string \<Rightarrow> bool" where
  "media_type_essence s \<longleftrightarrow> (case split_on CHR ''/'' s of [t, u] \<Rightarrow> media_token t \<and> media_token u | _ \<Rightarrow> False)"

definition charset_parameter :: "string \<Rightarrow> string option" where
  "charset_parameter s =
     (if starts_with ''charset='' s \<and> media_token (drop 8 s) then Some (drop 8 s) else None)"

definition api_content_type :: "string option \<Rightarrow> string" where
  "api_content_type upstream =
     (case upstream of
        None \<Rightarrow> ''application/octet-stream''
      | Some u \<Rightarrow>
          if CHR '','' \<in> set u then ''application/octet-stream''
          else
            let pieces = split_on CHR '';'' u;
                essence = js_lower (js_trim (hd pieces)); parameters = tl pieces;
                charsets = List.map_filter (\<lambda>q. charset_parameter (js_lower (js_trim q))) parameters
            in if media_type_essence essence \<and>
                  (essence \<in> set api_response_media_types \<or> ends_with ''+json'' essence \<or> ends_with ''+yaml'' essence)
               then (case (parameters, charsets) of
                       ([q], [cs]) \<Rightarrow> essence @ ''; charset='' @ cs
                     | _ \<Rightarrow> essence)
               else ''application/octet-stream'')"

definition response_header_allowlist :: "string list" where
  "response_header_allowlist =
     [''accept-ranges'', ''cache-control'', ''content-disposition'', ''content-length'', ''content-range'',
      ''content-type'', ''etag'', ''expires'', ''last-modified'', ''location'', ''retry-after'', ''x-data-source'',
      ''x-ferrum-config-cursor'']"

text \<open>\<open>new URL(value, upstream)\<close> is an argument, \<open>None\<close> when it throws; a URL's query carries its
  question mark.\<close>

definition safe_response_header :: "(string \<Rightarrow> url \<Rightarrow> url option) \<Rightarrow> string \<Rightarrow> string \<Rightarrow> url \<Rightarrow> string option" where
  "safe_response_header parse name value upstream =
     (if name \<noteq> ''location'' then Some value
      else case parse value upstream of
        None \<Rightarrow> None
      | Some location \<Rightarrow>
          if u_origin location \<noteq> u_origin upstream then None
          else Some (''/api/proxy'' @ u_path location @ u_query location))"

record upstream_response =
  ur_status :: nat
  ur_headers :: "string \<Rightarrow> string option"

definition response_was_decoded :: "upstream_response \<Rightarrow> bool" where
  "response_was_decoded res =
     (case ur_headers res ''content-encoding'' of
        None \<Rightarrow> False
      | Some e \<Rightarrow> js_lower (js_trim e) \<noteq> [] \<and> js_lower (js_trim e) \<noteq> ''identity'')"

definition copy_headers :: "(string \<Rightarrow> string option) \<Rightarrow> string list \<Rightarrow> (string, string) jsmap \<Rightarrow> (string, string) jsmap" where
  "copy_headers value names hs =
     foldl (\<lambda>hs name. case value name of None \<Rightarrow> hs | Some v \<Rightarrow> jm_set name v hs) hs names"

definition copied_value :: "(string \<Rightarrow> url \<Rightarrow> url option) \<Rightarrow> url \<Rightarrow> upstream_response \<Rightarrow> string \<Rightarrow> string option" where
  "copied_value parse target res name =
     (if name = ''content-type'' \<or> (name = ''content-length'' \<and> response_was_decoded res) then None
      else case ur_headers res name of
        None \<Rightarrow> None
      | Some v \<Rightarrow> safe_response_header parse name v target)"

definition reply_headers ::
  "(string \<Rightarrow> url \<Rightarrow> url option) \<Rightarrow> url \<Rightarrow> upstream_response \<Rightarrow> (string, string) jsmap" where
  "reply_headers parse target res =
     (let copied = copy_headers (copied_value parse target res) response_header_allowlist [];
          bounded = jm_set ''content-security-policy'' ''sandbox''
            (jm_set ''x-content-type-options'' ''nosniff''
              (jm_set ''content-type'' (api_content_type (ur_headers res ''content-type'')) copied))
      in if ur_status res = 401 then jm_set ''x-ferrum-auth-layer'' ''gateway'' bounded else bounded)"

definition scoped_health_headers :: "upstream_response \<Rightarrow> (string, string) jsmap" where
  "scoped_health_headers res =
     (let copied = copy_headers (ur_headers res) [''cache-control'', ''expires'', ''retry-after''] []
      in if ur_status res = 401 then jm_set ''x-ferrum-auth-layer'' ''gateway'' copied else copied)"

section \<open>The response boundary holds\<close>

lemma media_charD:
  assumes "media_char c"
  shows "c \<noteq> CHR '',''" "c \<noteq> CHR '';''" "c \<noteq> CHR ''/''" "c \<noteq> CHR '' ''" "\<not> white_space c" "lower_char c = c"
  using assms by (auto simp: media_char_def digit_def white_space_def lower_char_def Let_def)

definition media_text :: "string \<Rightarrow> bool" where
  "media_text s \<longleftrightarrow> (\<forall>c \<in> set s. media_char c \<or> c = CHR ''/'' \<or> c = CHR ''='')"

lemma media_textD:
  assumes "media_text s"
  shows "CHR '','' \<notin> set s" "CHR '';'' \<notin> set s" "js_trim s = s" "js_lower s = s"
proof -
  have c: "c \<noteq> CHR '','' \<and> c \<noteq> CHR '';'' \<and> \<not> white_space c \<and> lower_char c = c" if "c \<in> set s" for c
    using assms that media_charD [of c] by (auto simp: media_text_def white_space_def lower_char_def Let_def)
  show "CHR '','' \<notin> set s" "CHR '';'' \<notin> set s" using c by blast+
  show "js_trim s = s" by (rule js_trim_free) (use c in blast)
  show "js_lower s = s" using c by (simp add: js_lower_def map_idI)
qed

lemma essence_text: "media_type_essence s \<Longrightarrow> media_text s"
proof -
  assume "media_type_essence s"
  then obtain t u where tu: "split_on CHR ''/'' s = [t, u]" "media_token t" "media_token u"
    by (auto simp: media_type_essence_def split: list.splits)
  then have "s = t @ CHR ''/'' # u" using join_split [of "CHR ''/''" s] by simp
  then show ?thesis using tu(2,3) by (auto simp: media_text_def media_token_def list_all_iff)
qed

definition api_type :: "string \<Rightarrow> bool" where
  "api_type s \<longleftrightarrow> media_type_essence s \<and>
     (s \<in> set api_response_media_types \<or> ends_with ''+json'' s \<or> ends_with ''+yaml'' s)"

lemma octet_stream: "api_type ''application/octet-stream''"
  by (simp add: api_type_def api_response_media_types_def media_type_essence_def media_token_def media_char_def digit_def)

lemma api_content_type_cases:
  obtains (plain) e where "api_content_type u = e" "api_type e"
    | (charset) e cs where "api_content_type u = e @ ''; charset='' @ cs" "api_type e" "media_token cs"
proof (cases "\<exists>v. u = Some v \<and> CHR '','' \<notin> set v \<and> api_type (js_lower (js_trim (hd (split_on CHR '';'' v))))")
  case False
  then have "api_content_type u = ''application/octet-stream''"
    by (auto simp: api_content_type_def api_type_def Let_def split: option.split)
  then show ?thesis using plain octet_stream by blast
next
  case True
  then obtain v where v: "u = Some v" "CHR '','' \<notin> set v" "api_type (js_lower (js_trim (hd (split_on CHR '';'' v))))"
    by blast
  let ?e = "js_lower (js_trim (hd (split_on CHR '';'' v)))" and ?ps = "tl (split_on CHR '';'' v)"
  let ?cs = "List.map_filter (\<lambda>q. charset_parameter (js_lower (js_trim q))) ?ps"
  have eq: "api_content_type u = (case (?ps, ?cs) of ([q], [cs]) \<Rightarrow> ?e @ ''; charset='' @ cs | _ \<Rightarrow> ?e)"
    using v by (simp add: api_content_type_def api_type_def Let_def)
  show ?thesis
  proof (cases "\<exists>q cs. ?ps = [q] \<and> ?cs = [cs]")
    case True
    then obtain q cs where q: "?ps = [q]" "?cs = [cs]" by blast
    then have "charset_parameter (js_lower (js_trim q)) = Some cs"
      by (auto simp: List.map_filter_simps split: option.splits)
    then have "media_token cs" by (auto simp: charset_parameter_def split: if_splits)
    then show ?thesis using charset v(3) q by (simp add: eq)
  next
    case False
    then have "api_content_type u = ?e" unfolding eq by (auto split: list.splits)
    then show ?thesis using plain v(3) by blast
  qed
qed

lemma api_content_type_fixed:
  "api_type e \<Longrightarrow> api_content_type (Some e) = e"
  "api_type e \<Longrightarrow> media_token cs \<Longrightarrow> api_content_type (Some (e @ ''; charset='' @ cs)) = e @ ''; charset='' @ cs"
proof -
  assume e: "api_type e"
  then have et: "media_text e" by (auto simp: api_type_def intro: essence_text)
  note e_ = media_textD [OF et]
  show "api_content_type (Some e) = e"
    using e e_ by (simp add: api_content_type_def api_type_def Let_def split_on_free)
  assume cs: "media_token cs"
  then have ct: "media_text (''charset='' @ cs)"
    by (auto simp: media_text_def media_token_def list_all_iff media_char_def)
  note c_ = media_textD [OF ct]
  have split: "split_on CHR '';'' (e @ ''; charset='' @ cs) = [e, '' charset='' @ cs]"
    using split_on_append [OF e_(2), of "'' charset='' @ cs"] c_(2) by (simp add: split_on_free)
  have "js_trim ('' charset='' @ cs) = js_trim (''charset='' @ cs)"
    by (simp add: js_trim_def white_space_def)
  then have charset: "charset_parameter (js_lower (js_trim ('' charset='' @ cs))) = Some cs"
    using c_(3,4) cs by (simp add: charset_parameter_def starts_with_def)
  have "CHR '','' \<notin> set (e @ ''; charset='' @ cs)" using e_(1) c_(1) by auto
  then show "api_content_type (Some (e @ ''; charset='' @ cs)) = e @ ''; charset='' @ cs"
    using e e_ charset unfolding api_content_type_def option.case Let_def split
    by (simp add: api_type_def List.map_filter_simps)
qed

lemma copy_headers_get:
  "jm_get (copy_headers value names hs) k =
     (if k \<in> set names \<and> value k \<noteq> None then value k else jm_get hs k)"
  unfolding copy_headers_def
  by (induction names arbitrary: hs) (auto simp: jm_simps split: option.split)

text \<open>No proxied answer can run as a document on the console's origin. Whatever headers the
  gateway sent, the reply has exactly one content type, built from one allowlisted (or \<open>+json\<close>,
  \<open>+yaml\<close>) media type with at most one charset, and re-reading that value changes nothing, so what
  a browser extracts is what was validated; it is \<open>nosniff\<close> and sandboxed; only allowlisted headers
  pass (no cookie); and a redirect stays on the gateway's origin, mapped under \<open>/api/proxy\<close>.\<close>

theorem proxied_answers_are_inert:
  "(\<exists>ct e. jm_get (reply_headers parse target res) ''content-type'' = Some ct \<and>
      api_content_type (Some ct) = ct \<and> api_type e \<and>
      (ct = e \<or> (\<exists>cs. media_token cs \<and> ct = e @ ''; charset='' @ cs))) \<and>
   jm_get (reply_headers parse target res) ''x-content-type-options'' = Some ''nosniff'' \<and>
   jm_get (reply_headers parse target res) ''content-security-policy'' = Some ''sandbox'' \<and>
   dom (jm_get (reply_headers parse target res)) \<subseteq> set (response_header_allowlist @
     [''content-security-policy'', ''x-content-type-options'', ''x-ferrum-auth-layer'']) \<and>
   (case jm_get (reply_headers parse target res) ''location'' of
      None \<Rightarrow> True
    | Some l \<Rightarrow> \<exists>loc :: url. u_origin loc = u_origin target \<and> l = ''/api/proxy'' @ u_path loc @ u_query loc)"
proof -
  let ?h = "reply_headers parse target res" and ?u = "ur_headers res ''content-type''"
  have get: "jm_get ?h k =
      (if ur_status res = 401 \<and> k = ''x-ferrum-auth-layer'' then Some ''gateway''
       else if k = ''content-security-policy'' then Some ''sandbox''
       else if k = ''x-content-type-options'' then Some ''nosniff''
       else if k = ''content-type'' then Some (api_content_type ?u)
       else if k \<in> set response_header_allowlist then copied_value parse target res k else None)" for k
    by (auto simp: reply_headers_def Let_def jm_get_set copy_headers_get)
  have inert: "\<exists>ct e. jm_get ?h ''content-type'' = Some ct \<and> api_content_type (Some ct) = ct \<and> api_type e \<and>
      (ct = e \<or> (\<exists>cs. media_token cs \<and> ct = e @ ''; charset='' @ cs))"
  proof (cases rule: api_content_type_cases [of ?u])
    case (plain e)
    then show ?thesis using api_content_type_fixed(1) [OF plain(2)] get [of "''content-type''"] by auto
  next
    case (charset e cs)
    then show ?thesis using api_content_type_fixed(2) [OF charset(2,3)] get [of "''content-type''"] by auto
  qed
  have names: "dom (jm_get ?h) \<subseteq> set (response_header_allowlist @
     [''content-security-policy'', ''x-content-type-options'', ''x-ferrum-auth-layer''])"
  proof
    fix k assume k: "k \<in> dom (jm_get ?h)"
    have "''content-type'' \<in> set response_header_allowlist" by (simp add: response_header_allowlist_def)
    then show "k \<in> set (response_header_allowlist @
     [''content-security-policy'', ''x-content-type-options'', ''x-ferrum-auth-layer''])"
      using k get [of k] by (cases "k \<in> set response_header_allowlist") (auto split: if_splits)
  qed
  have location: "copied_value parse target res ''location'' = Some l \<Longrightarrow>
      \<exists>loc :: url. u_origin loc = u_origin target \<and> l = ''/api/proxy'' @ u_path loc @ u_query loc" for l
  proof -
    assume c: "copied_value parse target res ''location'' = Some l"
    then obtain v where v: "ur_headers res ''location'' = Some v"
      by (cases "ur_headers res ''location''") (simp_all add: copied_value_def)
    then have safe: "safe_response_header parse ''location'' v target = Some l" using c by (simp add: copied_value_def)
    then obtain loc where loc: "parse v target = Some loc"
      by (cases "parse v target") (simp_all add: safe_response_header_def)
    have origin: "u_origin loc = u_origin target"
      using safe loc by (cases "u_origin loc = u_origin target") (simp_all add: safe_response_header_def)
    have "Some l = Some (''/api/proxy'' @ u_path loc @ u_query loc)"
      unfolding safe [symmetric] safe_response_header_def loc using origin by simp
    then have "l = ''/api/proxy'' @ u_path loc @ u_query loc" by (rule option.inject [THEN iffD1])
    with origin show ?thesis by (intro exI conjI)
  qed
  have passed: "jm_get ?h ''location'' = copied_value parse target res ''location''"
    by (simp add: get response_header_allowlist_def)
  have redirect: "case jm_get ?h ''location'' of None \<Rightarrow> True
    | Some l \<Rightarrow> \<exists>loc :: url. u_origin loc = u_origin target \<and> l = ''/api/proxy'' @ u_path loc @ u_query loc"
  proof (cases "copied_value parse target res ''location''")
    case None
    show ?thesis unfolding passed None by simp
  next
    case (Some l)
    show ?thesis unfolding passed Some option.case by (rule location [OF Some])
  qed
  have fixed: "jm_get ?h ''x-content-type-options'' = Some ''nosniff''" "jm_get ?h ''content-security-policy'' = Some ''sandbox''"
    by (simp_all add: get)
  show ?thesis by (intro conjI inert fixed names redirect)
qed

end
