(* ===== verification/ProxyHandler.thy ===== *)
theory ProxyHandler
  imports Jwt HealthSummary Admission QueryForm ResponseBoundary WaitBudget
begin

text \<open>
  The proxy route (\<open>server/proxy.ts\<close>) end to end, with the gateway target binding
  (\<open>server/gateway-target.ts\<close>): the \<open>onRequest\<close> hooks in their order, then the handler up to
  the request it forwards, and the response boundary. The handler loads the configuration again and
  yields while its token is signed, so a request is handled in up to two steps (\<open>proxy_request\<close> and
  \<open>resume_request\<close>), and runs interleave the steps of any number of requests with whatever the other routes do
  to the shared state. The HMAC of the target, the token digest, the signer and the byte length of
  a serialised body are arguments.
\<close>

section \<open>Gateway target\<close>

type_synonym target_mac = "string \<Rightarrow> string \<Rightarrow> string"

definition gateway_target_id :: "target_mac \<Rightarrow> config \<Rightarrow> string" where
  "gateway_target_id tm cfg = take 32 (tm (cf_jwt_secret cfg) (cf_admin_url cfg))"

definition declared_target :: "auth_request \<Rightarrow> string option" where
  "declared_target r =
     (case ar_headers r gateway_target_header of
        None \<Rightarrow> None
      | Some (Single v) \<Rightarrow> Some v
      | Some (Repeated vs) \<Rightarrow> (case vs of [] \<Rightarrow> None | v # _ \<Rightarrow> Some v))"

text \<open>The value named on the reply, and whether the request may proceed.\<close>

definition stamp_gateway_target :: "target_mac \<Rightarrow> config \<Rightarrow> auth_request \<Rightarrow> string \<times> bool" where
  "stamp_gateway_target tm cfg r =
     (let current = gateway_target_id tm cfg in
      (current, case declared_target r of None \<Rightarrow> True | Some d \<Rightarrow> d = current))"

section \<open>Request headers\<close>

definition request_header_allowlist :: "string list" where
  "request_header_allowlist =
     [''accept'', ''content-length'', ''content-type'', ''if-match'', ''if-none-match'', ''prefer'', ''range'',
      ''x-ferrum-namespace'']"

definition header_text :: "header_value option \<Rightarrow> string option" where
  "header_text v =
     (case v of
        Some (Single s) \<Rightarrow> Some s
      | Some (Repeated (s # _)) \<Rightarrow> if s = [] then None else Some s
      | _ \<Rightarrow> None)"

definition copy_request_headers :: "auth_request \<Rightarrow> string \<Rightarrow> (string, string) jsmap" where
  "copy_request_headers r authorization =
     foldl (\<lambda>hs name. case header_text (ar_headers r name) of None \<Rightarrow> hs | Some v \<Rightarrow> jm_set name v hs)
       [(''authorization'', authorization), (''accept-encoding'', ''identity''),
        (''x-ferrum-provisioned-by'', ''ferrum-foundry'')]
       request_header_allowlist"

definition without_headers :: "string list \<Rightarrow> (string, string) jsmap \<Rightarrow> (string, string) jsmap" where
  "without_headers names hs = foldl (\<lambda>h n. jm_delete n h) hs names"

section \<open>Hooks\<close>

datatype reject = AuthReject auth_reply | Reject nat string | RegistryReject registry_error

definition reject_status :: "reject \<Rightarrow> nat" where
  "reject_status e =
     (case e of
        AuthReject (Rejected status _) \<Rightarrow> status
      | AuthReject (LockedOut _) \<Rightarrow> 429
      | Reject status _ \<Rightarrow> status
      | RegistryReject re \<Rightarrow> error_status re)"

definition require_safe_proxy_path :: "bool \<Rightarrow> auth_request \<Rightarrow> principal \<Rightarrow> reject + bool" where
  "require_safe_proxy_path caret r p =
     (case proxy_target_path caret (ar_target r) of
        None \<Rightarrow> Inl (Reject 400 ''FERRUM_BFF_UNSAFE_PATH'')
      | Some path \<Rightarrow>
          if is_consumer_verification path \<or> is_deployment_snapshot path
          then Inl (Reject 403 ''FERRUM_BFF_CREDENTIAL_READ_DENIED'')
          else (case authorize_registry_path path (ar_method r) p of
                  Inl e \<Rightarrow> Inl (RegistryReject e)
                | Inr _ \<Rightarrow>
                    (case authorize_delete_confirmation path (ar_method r) (raw_target (ar_target r)) of
                       Inl e \<Rightarrow> Inl (RegistryReject e)
                     | Inr confirmed \<Rightarrow> Inr confirmed)))"

record bff_state =
  bs_auth :: auth_state
  bs_uploads :: upload_state
  bs_reads :: long_read_state
  bs_tokens :: token_cache

record bff_env =
  en_mac :: mac
  en_digest :: "token_inputs \<Rightarrow> string"
  en_sign :: signer
  en_target_mac :: target_mac
  en_caret :: bool
  en_body_bytes :: "utf16 json \<Rightarrow> nat"

definition upload_limits_of :: "config \<Rightarrow> upload_limits" where
  "upload_limits_of cfg =
     \<lparr>max_active_uploads = nat (cf_max_active_uploads cfg), max_large_uploads = nat (cf_max_large_uploads cfg),
      max_uploads_per_principal = nat (cf_max_uploads_per_principal cfg),
      max_large_uploads_per_principal = nat (cf_max_large_uploads_per_principal cfg)\<rparr>"

definition long_read_limits_of :: "config \<Rightarrow> long_read_limits" where
  "long_read_limits_of cfg =
     \<lparr>max_active_long_reads = nat (cf_max_active_long_reads cfg),
      max_long_reads_per_principal = nat (cf_max_long_reads_per_principal cfg)\<rparr>"

definition info_of :: "nat \<Rightarrow> bool \<Rightarrow> auth_request \<Rightarrow> string \<Rightarrow> principal \<Rightarrow> request_info" where
  "info_of i destroyed r path p =
     \<lparr>req_id = i, req_method = ar_method r, req_path = path, req_subject = Some (p_subject p),
      req_namespaces = p_namespaces p, reply_destroyed = destroyed\<rparr>"

text \<open>The \<open>onRequest\<close> hooks: the first reply ends the request. On success: the principal, the
  path and whether a cascade delete was confirmed.\<close>

definition admit ::
  "bff_env \<Rightarrow> config \<Rightarrow> nat \<Rightarrow> bool \<Rightarrow> auth_request \<Rightarrow> int \<Rightarrow> bff_state \<Rightarrow>
   (reject + principal \<times> string \<times> bool) \<times> bff_state" where
  "admit env cfg i destroyed r now st =
     (case require_admin_auth (en_mac env) cfg r now (bs_auth st) of
        (Inl a, au) \<Rightarrow> (Inl (AuthReject a), st\<lparr>bs_auth := au\<rparr>)
      | (Inr p, au) \<Rightarrow>
          let st1 = st\<lparr>bs_auth := au\<rparr> in
          (case require_safe_proxy_path (en_caret env) r p of
             Inl e \<Rightarrow> (Inl e, st1)
           | Inr confirmed \<Rightarrow>
               (case require_namespace_ceiling (en_caret env) r p of
                  Some a \<Rightarrow> (Inl (AuthReject a), st1)
                | None \<Rightarrow>
                    let path = the (proxy_target_path (en_caret env) (ar_target r));
                        info = info_of i destroyed r path p in
                    (case reserve_upload (upload_limits_of cfg) info (bs_uploads st1) of
                       (Some scope, up) \<Rightarrow> (Inl (Reject 429 ''FERRUM_BFF_UPLOAD_CAPACITY''), st1\<lparr>bs_uploads := up\<rparr>)
                     | (None, up) \<Rightarrow>
                         let st2 = st1\<lparr>bs_uploads := up\<rparr> in
                         (case reserve_long_read (long_read_limits_of cfg) info (bs_reads st2) of
                            (Some scope, lr) \<Rightarrow> (Inl (Reject 429 ''FERRUM_BFF_READ_CAPACITY''), st2\<lparr>bs_reads := lr\<rparr>)
                          | (None, lr) \<Rightarrow> (Inr (p, path, confirmed), st2\<lparr>bs_reads := lr\<rparr>))))))"

section \<open>The handler\<close>

text \<open>\<open>Number(content-length)\<close>: Node refuses a request whose length is not decimal digits.\<close>

definition declared_length :: "auth_request \<Rightarrow> nat option" where
  "declared_length r =
     (case ar_headers r ''content-length'' of
        Some (Single v) \<Rightarrow> if v \<noteq> [] \<and> list_all digit v then Some (decimal v) else None
      | _ \<Rightarrow> None)"

definition is_scoped_health_read :: "auth_request \<Rightarrow> principal \<Rightarrow> string \<Rightarrow> bool" where
  "is_scoped_health_read r p path \<longleftrightarrow>
     (ar_method r = ''GET'' \<or> ar_method r = ''HEAD'') \<and> (path = ''/health'' \<or> path = ''/status'') \<and> p_namespaces p \<noteq> None"

record forwarded =
  fw_method :: string
  fw_url :: url
  fw_headers :: "(string, string) jsmap"
  fw_principal :: principal
  fw_body :: "utf16 json option"
  fw_scoped_list :: bool
  fw_scoped_health :: bool

text \<open>A request body as the handler finds it: whether it is a stream, and what its collected
  bytes parse to, which only the registry routes read.\<close>

record request_body =
  rb_stream :: bool
  rb_json :: "utf16 json option"

definition registry_body :: "auth_request \<Rightarrow> string \<Rightarrow> principal \<Rightarrow> request_body \<Rightarrow> reject + utf16 json option" where
  "registry_body r path p body =
     (if \<not> is_registry_path path \<or> \<not> carries_request_body (ar_method r) then Inr None
      else case authorize_registry_body (if rb_stream body then rb_json body else None) (ar_method r) p of
        Inl e \<Rightarrow> Inl (RegistryReject e)
      | Inr v \<Rightarrow> Inr (Some v))"

definition forwarded_headers ::
  "bff_env \<Rightarrow> auth_request \<Rightarrow> string \<Rightarrow> utf16 json option \<Rightarrow> bool \<Rightarrow> (string, string) jsmap" where
  "forwarded_headers env r token body conditional_free =
     (let hs = copy_request_headers r (''Bearer '' @ token);
          hs' = (case body of
                   None \<Rightarrow> hs
                 | Some v \<Rightarrow> jm_set ''content-length'' (show_nat (en_body_bytes env v))
                              (jm_set ''content-type'' ''application/json'' hs))
      in if conditional_free then without_headers [''if-match'', ''if-none-match'', ''range''] hs' else hs')"

definition target_of :: "auth_request \<Rightarrow> bool \<Rightarrow> url \<Rightarrow> url" where
  "target_of r confirmed t =
     (if ar_method r = ''DELETE'' \<and> starts_with ''/namespaces/'' (u_path t)
      then t\<lparr>u_query := confirm_query confirmed (u_query t)\<rparr> else t)"

text \<open>A request on its way to the gateway: its checks are passed and its target is known.\<close>

record forwarding =
  wt_request :: auth_request
  wt_body :: request_body
  wt_principal :: principal
  wt_target :: url

definition start_forwarding ::
  "bff_env \<Rightarrow> config \<Rightarrow> url \<Rightarrow> auth_request \<Rightarrow> request_body \<Rightarrow> principal \<Rightarrow> string \<Rightarrow> bool \<Rightarrow> reject + forwarding" where
  "start_forwarding env cfg admin r body p path confirmed =
     (if \<not> snd (stamp_gateway_target (en_target_mac env) cfg r)
      then Inl (Reject 409 ''FERRUM_BFF_GATEWAY_TARGET_CHANGED'')
      else case proxy_target_url (en_caret env) (ar_target r) admin of
        None \<Rightarrow> Inl (Reject 500 ''Internal Server Error'')
      | Some t \<Rightarrow>
          if (case declared_length r of None \<Rightarrow> False | Some n \<Rightarrow> body_limit_for path < n)
          then Inl (Reject 413 ''FERRUM_BFF_BODY_LIMIT'')
          else Inr \<lparr>wt_request = r, wt_body = body, wt_principal = p, wt_target = target_of r confirmed t\<rparr>)"

text \<open>With its token: the body the registry routes inspect, then the request that is sent.\<close>

definition send_upstream :: "bff_env \<Rightarrow> forwarding \<Rightarrow> string \<Rightarrow> reject + forwarded" where
  "send_upstream env w token =
     (let r = wt_request w; p = wt_principal w; path = u_path (wt_target w) in
      case registry_body r path p (wt_body w) of
        Inl e \<Rightarrow> Inl e
      | Inr sent \<Rightarrow>
          let scoped_list = (ar_method r = ''GET'' \<and> path = ''/namespaces'' \<and> p_namespaces p \<noteq> None);
              scoped_health = is_scoped_health_read r p path
          in Inr \<lparr>fw_method = ar_method r, fw_url = wt_target w,
                  fw_headers = forwarded_headers env r token sent (scoped_list \<or> scoped_health),
                  fw_principal = p, fw_body = sent, fw_scoped_list = scoped_list,
                  fw_scoped_health = scoped_health\<rparr>)"

text \<open>How far a request gets in a step: a reply, the forwarded request, or a signature to wait for.\<close>

datatype progress = Replied reject | Sent forwarded | Awaiting forwarding signing

definition sent_or_replied :: "reject + forwarded \<Rightarrow> progress" where
  "sent_or_replied x = (case x of Inl e \<Rightarrow> Replied e | Inr f \<Rightarrow> Sent f)"

definition handle ::
  "bff_env \<Rightarrow> config \<Rightarrow> url \<Rightarrow> auth_request \<Rightarrow> request_body \<Rightarrow> principal \<Rightarrow> string \<Rightarrow> bool \<Rightarrow> int \<Rightarrow> string \<Rightarrow>
   bff_state \<Rightarrow> progress \<times> bff_state" where
  "handle env cfg admin r body p path confirmed now jti st =
     (case start_forwarding env cfg admin r body p path confirmed of
        Inl e \<Rightarrow> (Replied e, st)
      | Inr w \<Rightarrow>
          (case begin_token (en_digest env) cfg p (now div 1000) jti (bs_tokens st) of
             (Unsignable e, m) \<Rightarrow> (Replied (Reject 502 ''FERRUM_BFF_UPSTREAM_FAILURE''), st\<lparr>bs_tokens := m\<rparr>)
           | (Served token, m) \<Rightarrow> (sent_or_replied (send_upstream env w token), st\<lparr>bs_tokens := m\<rparr>)
           | (Signing s, m) \<Rightarrow> (Awaiting w s, st\<lparr>bs_tokens := m\<rparr>)))"

text \<open>The rest of the handler once the signature is ready; a request whose client went away meanwhile
  is not sent, but its token is stored.\<close>

definition resume_request ::
  "bff_env \<Rightarrow> forwarding \<Rightarrow> signing \<Rightarrow> bool \<Rightarrow> bff_state \<Rightarrow> progress \<times> bff_state" where
  "resume_request env w s aborted st =
     (let (token, m) = finish_token (en_sign env) s (bs_tokens st) in
      (if aborted then Replied (Reject 504 ''FERRUM_BFF_TIMEOUT'') else sent_or_replied (send_upstream env w token),
       st\<lparr>bs_tokens := m\<rparr>))"

text \<open>An arriving request with what the process reads for it: the configuration the hooks load and the
  one the handler loads again (with its admin URL parsed), the clock at both, and a fresh token id.\<close>

record proxy_arrival =
  av_hooks_config :: config
  av_config :: config
  av_admin :: url
  av_id :: nat
  av_destroyed :: bool
  av_request :: auth_request
  av_body :: request_body
  av_hooks_now :: int
  av_now :: int
  av_jti :: string

definition proxy_request :: "bff_env \<Rightarrow> proxy_arrival \<Rightarrow> bff_state \<Rightarrow> progress \<times> bff_state" where
  "proxy_request env a st =
     (case admit env (av_hooks_config a) (av_id a) (av_destroyed a) (av_request a) (av_hooks_now a) st of
        (Inl e, st') \<Rightarrow> (Replied e, st')
      | (Inr (p, path, confirmed), st') \<Rightarrow>
          handle env (av_config a) (av_admin a) (av_request a) (av_body a) p path confirmed (av_now a) (av_jti a) st')"

section \<open>Runs\<close>

text \<open>Any interleaving of requests arriving, of signatures becoming ready, and of the other routes and the
  ends of requests replacing the sessions, throttles and permits by others. The run keeps what
  was forwarded, with the arrival and the state it arrived in, and the tokens asked for.\<close>

datatype bff_event = ProxyArrive proxy_arrival | TokenReady nat bool | Elsewhere auth_state upload_state long_read_state

record bff_run =
  br_state :: bff_state
  br_awaiting :: "(bff_state \<times> proxy_arrival \<times> forwarding \<times> signing) list"
  br_sent :: "(bff_state \<times> proxy_arrival \<times> forwarded) list"
  br_asked :: "token_request list"

definition token_request_of :: "proxy_arrival \<Rightarrow> principal \<Rightarrow> token_request" where
  "token_request_of a p = \<lparr>tr_config = av_config a, tr_principal = p, tr_now = av_now a div 1000, tr_jti = av_jti a\<rparr>"

definition fresh_bff :: bff_state where
  "fresh_bff = \<lparr>bs_auth = fresh_auth, bs_uploads = empty_uploads, bs_reads = empty_long_reads, bs_tokens = []\<rparr>"

definition new_run :: bff_run where
  "new_run = \<lparr>br_state = fresh_bff, br_awaiting = [], br_sent = [], br_asked = []\<rparr>"

text \<open>The token an arrival asks for: none when a hook or a check of the handler replied.\<close>

definition asked_by :: "bff_env \<Rightarrow> proxy_arrival \<Rightarrow> bff_state \<Rightarrow> token_request list" where
  "asked_by env a st =
     (case admit env (av_hooks_config a) (av_id a) (av_destroyed a) (av_request a) (av_hooks_now a) st of
        (Inr (p, path, confirmed), _) \<Rightarrow> [token_request_of a p]
      | _ \<Rightarrow> [])"

fun proxy_step :: "bff_env \<Rightarrow> bff_event \<Rightarrow> bff_run \<Rightarrow> bff_run" where
  "proxy_step env (ProxyArrive a) b =
     (let b' = b\<lparr>br_asked := asked_by env a (br_state b) @ br_asked b\<rparr> in
      case proxy_request env a (br_state b) of
        (Replied e, st) \<Rightarrow> b'\<lparr>br_state := st\<rparr>
      | (Sent f, st) \<Rightarrow> b'\<lparr>br_state := st, br_sent := (br_state b, a, f) # br_sent b\<rparr>
      | (Awaiting w s, st) \<Rightarrow> b'\<lparr>br_state := st, br_awaiting := br_awaiting b @ [(br_state b, a, w, s)]\<rparr>)"
| "proxy_step env (TokenReady i aborted) b =
     (if i < length (br_awaiting b)
      then let (st0, a, w, s) = br_awaiting b ! i;
               b' = b\<lparr>br_awaiting := take i (br_awaiting b) @ drop (Suc i) (br_awaiting b)\<rparr> in
        (case resume_request env w s aborted (br_state b) of
           (Sent f, st) \<Rightarrow> b'\<lparr>br_state := st, br_sent := (st0, a, f) # br_sent b\<rparr>
         | (_, st) \<Rightarrow> b'\<lparr>br_state := st\<rparr>)
      else b)"
| "proxy_step env (Elsewhere au up lr) b =
     b\<lparr>br_state := (br_state b)\<lparr>bs_auth := au, bs_uploads := up, bs_reads := lr\<rparr>\<rparr>"

definition proxy_run :: "bff_env \<Rightarrow> bff_event list \<Rightarrow> bff_run" where
  "proxy_run env es = fold (proxy_step env) es new_run"

section \<open>Failures\<close>

text \<open>What may be thrown while a request is forwarded, and the reply each gets; an upload timeout
  also closes the unread remainder.\<close>

datatype upload_timeout = IdleTimeout | DeadlineTimeout

datatype proxy_failure =
  FailedRegistry registry_error | UnreadableHealth | ScanTimedOut | TooLarge
| UploadTimedOut upload_timeout | Aborted | Unreachable

definition failure_reply :: "bool \<Rightarrow> proxy_failure \<Rightarrow> reject \<times> string option \<times> bool" where
  "failure_reply uploading f =
     (case f of
        FailedRegistry e \<Rightarrow> (RegistryReject e, None, False)
      | UnreadableHealth \<Rightarrow> (Reject 502 ''FERRUM_BFF_UPSTREAM_FAILURE'', None, False)
      | ScanTimedOut \<Rightarrow> (Reject 504 ''FERRUM_BFF_TIMEOUT'', Some ''response'', False)
      | TooLarge \<Rightarrow> (Reject 413 ''FERRUM_BFF_BODY_LIMIT'', None, False)
      | UploadTimedOut reason \<Rightarrow> (Reject 504 ''FERRUM_BFF_TIMEOUT'', Some ''upload'', True)
      | Aborted \<Rightarrow> (Reject 504 ''FERRUM_BFF_TIMEOUT'', Some (if uploading then ''upload'' else ''response''), False)
      | Unreachable \<Rightarrow> (Reject 502 ''FERRUM_BFF_UPSTREAM_FAILURE'', None, False))"

section \<open>What is forwarded\<close>

lemma admit_Inr:
  assumes "admit env cfg i destroyed r now st = (Inr (p, path, confirmed), st')"
  obtains sess au where "current_principal cfg r now (bs_auth st) = (sess, Identity p, au)"
    "csrf_is_valid (en_mac env) cfg r now p sess"
    "require_safe_proxy_path (en_caret env) r p = Inr confirmed"
    "require_namespace_ceiling (en_caret env) r p = None"
    "proxy_target_path (en_caret env) (ar_target r) = Some path"
proof -
  obtain a au where adm: "require_admin_auth (en_mac env) cfg r now (bs_auth st) = (a, au)" by fastforce
  obtain q where a: "a = Inr q" using assms adm by (cases a) (simp_all add: admit_def)
  obtain c where safe: "require_safe_proxy_path (en_caret env) r q = Inr c"
    using assms adm a by (cases "require_safe_proxy_path (en_caret env) r q") (simp_all add: admit_def Let_def)
  have ceiling: "require_namespace_ceiling (en_caret env) r q = None"
    using assms adm a safe by (cases "require_namespace_ceiling (en_caret env) r q") (simp_all add: admit_def Let_def)
  have "q = p \<and> path = the (proxy_target_path (en_caret env) (ar_target r)) \<and> c = confirmed"
    using assms adm a safe ceiling by (auto simp: admit_def Let_def split: prod.splits option.splits)
  moreover have "proxy_target_path (en_caret env) (ar_target r) \<noteq> None"
    using safe by (auto simp: require_safe_proxy_path_def split: option.splits)
  moreover obtain sess where "current_principal cfg r now (bs_auth st) = (sess, Identity q, au)"
      "csrf_is_valid (en_mac env) cfg r now q sess"
    using require_admin_auth_Inr [OF adm [unfolded a]] by blast
  ultimately show ?thesis using that safe ceiling by auto
qed

lemma safe_proxy_path_Inr:
  assumes "require_safe_proxy_path caret r p = Inr confirmed" "proxy_target_path caret (ar_target r) = Some path"
  shows "\<not> is_consumer_verification path" "\<not> is_deployment_snapshot path"
    "authorize_registry_path path (ar_method r) p = Inr ()"
    "authorize_delete_confirmation path (ar_method r) (raw_target (ar_target r)) = Inr confirmed"
  using assms by (auto simp: require_safe_proxy_path_def split: if_splits sum.splits)

lemma proxy_target_url_eq:
  "proxy_target_url caret r admin =
    map_option (\<lambda>path. admin\<lparr>u_path := path,
      u_query := url_search (cps (tl (dropWhile (\<lambda>c. c \<noteq> CHR ''?'') (raw_target r)))), u_hash := []\<rparr>) (proxy_target_path caret r)"
proof (cases "target_segments r")
  case None
  then show ?thesis by (simp add: proxy_target_url_def proxy_target_path_eq)
next
  case (Some segs)
  note facts = target_segments_facts [OF Some]
  show ?thesis using Some pathname_settled [OF facts(1,2)]
    by (simp add: proxy_target_url_def proxy_target_path_eq Let_def)
qed

lemma start_forwarding_Inr:
  assumes "start_forwarding env cfg admin r body p path confirmed = Inr w"
    and "proxy_target_path (en_caret env) (ar_target r) = Some path"
  shows "wt_request w = r" "wt_body w = body" "wt_principal w = p" "u_path (wt_target w) = path"
    "u_origin (wt_target w) = u_origin admin" "snd (stamp_gateway_target (en_target_mac env) cfg r)"
    "wt_target w = target_of r confirmed (the (proxy_target_url (en_caret env) (ar_target r) admin))"
  using assms by (auto simp: start_forwarding_def proxy_target_url_eq target_of_def split: if_splits)

lemma send_upstream_Inr:
  assumes "send_upstream env w token = Inr f"
  shows "fw_url f = wt_target w" "fw_principal f = wt_principal w" "fw_method f = ar_method (wt_request w)"
    "fw_headers f = forwarded_headers env (wt_request w) token (fw_body f) (fw_scoped_list f \<or> fw_scoped_health f)"
    "registry_body (wt_request w) (u_path (wt_target w)) (wt_principal w) (wt_body w) = Inr (fw_body f)"
  using assms by (auto simp: send_upstream_def Let_def split: sum.splits)

lemma sent_or_replied_eq [simp]:
  "sent_or_replied x = Sent f \<longleftrightarrow> x = Inr f" "sent_or_replied x \<noteq> Awaiting w s"
  by (auto simp: sent_or_replied_def split: sum.splits)

text \<open>An arrival the hooks let through and whose checks the handler passed.\<close>

definition under_way :: "bff_env \<Rightarrow> bff_state \<Rightarrow> proxy_arrival \<Rightarrow> forwarding \<Rightarrow> bool" where
  "under_way env st a w \<longleftrightarrow>
     (\<exists>p path confirmed st1.
        admit env (av_hooks_config a) (av_id a) (av_destroyed a) (av_request a) (av_hooks_now a) st = (Inr (p, path, confirmed), st1) \<and>
        start_forwarding env (av_config a) (av_admin a) (av_request a) (av_body a) p path confirmed = Inr w)"

definition run_inv :: "bff_env \<Rightarrow> bff_run \<Rightarrow> bool" where
  "run_inv env b \<longleftrightarrow>
     cache_inv (en_digest env) (en_sign env) (set (br_asked b)) (bs_tokens (br_state b)) \<and>
     (\<forall>(st, a, w, s) \<in> set (br_awaiting b).
        under_way env st a w \<and> token_request_of a (wt_principal w) \<in> set (br_asked b) \<and>
        signing_of (en_digest env) (token_request_of a (wt_principal w)) s) \<and>
     (\<forall>(st, a, f) \<in> set (br_sent b). \<exists>w token.
        under_way env st a w \<and> send_upstream env w token = Inr f \<and>
        token_request_of a (wt_principal w) \<in> set (br_asked b) \<and>
        served_ok (en_digest env) (en_sign env) (set (br_asked b)) (token_request_of a (wt_principal w)) token)"

lemma run_inv_mono:
  assumes "run_inv env b" "set (br_asked b) \<subseteq> A"
  shows "cache_inv (en_digest env) (en_sign env) A (bs_tokens (br_state b))"
    "\<And>st a w s. (st, a, w, s) \<in> set (br_awaiting b) \<Longrightarrow>
        under_way env st a w \<and> token_request_of a (wt_principal w) \<in> A \<and>
        signing_of (en_digest env) (token_request_of a (wt_principal w)) s"
    "\<And>st a f. (st, a, f) \<in> set (br_sent b) \<Longrightarrow> \<exists>w token.
        under_way env st a w \<and> send_upstream env w token = Inr f \<and> token_request_of a (wt_principal w) \<in> A \<and>
        served_ok (en_digest env) (en_sign env) A (token_request_of a (wt_principal w)) token"
  using assms cache_inv_mono [OF _ assms(2)] served_ok_mono [OF _ assms(2)] unfolding run_inv_def by fast+

lemma admit_tokens: "admit env cfg i destroyed r now st = (x, st') \<Longrightarrow> bs_tokens st' = bs_tokens st"
  by (auto simp: admit_def Let_def split: prod.splits sum.splits option.splits)

text \<open>The step an arrival takes, told by the token it begins.\<close>

lemma proxy_request_cases:
  obtains (replied) e st' where "proxy_request env a st = (Replied e, st')"
      "cache_inv (en_digest env) (en_sign env) A (bs_tokens st) \<Longrightarrow> cache_inv (en_digest env) (en_sign env) A (bs_tokens st')"
    | (cached) w token m f st' where "under_way env st a w" "asked_by env a st = [token_request_of a (wt_principal w)]"
      "begin_token (en_digest env) (av_config a) (wt_principal w) (av_now a div 1000) (av_jti a) (bs_tokens st) = (Served token, m)"
      "send_upstream env w token = Inr f" "proxy_request env a st = (Sent f, st')" "bs_tokens st' = m"
    | (signing) w s m st' where "under_way env st a w" "asked_by env a st = [token_request_of a (wt_principal w)]"
      "begin_token (en_digest env) (av_config a) (wt_principal w) (av_now a div 1000) (av_jti a) (bs_tokens st) = (Signing s, m)"
      "proxy_request env a st = (Awaiting w s, st')" "bs_tokens st' = m"
proof -
  obtain x st1 where adm: "admit env (av_hooks_config a) (av_id a) (av_destroyed a) (av_request a) (av_hooks_now a) st = (x, st1)"
    by fastforce
  note tokens = admit_tokens [OF adm]
  show ?thesis
  proof (cases x)
    case (Inl e)
    then show ?thesis using replied adm tokens by (simp add: proxy_request_def)
  next
    case (Inr y)
    obtain p path confirmed where y: "y = (p, path, confirmed)" by (cases y)
    note adm = adm [unfolded Inr y]
    obtain path: "proxy_target_path (en_caret env) (ar_target (av_request a)) = Some path" using admit_Inr [OF adm] by metis
    have req: "proxy_request env a st =
        handle env (av_config a) (av_admin a) (av_request a) (av_body a) p path confirmed (av_now a) (av_jti a) st1"
      by (simp add: proxy_request_def adm)
    have asked: "asked_by env a st = [token_request_of a p]" by (simp add: asked_by_def adm)
    show ?thesis
    proof (cases "start_forwarding env (av_config a) (av_admin a) (av_request a) (av_body a) p path confirmed")
      case (Inl e)
      then show ?thesis using replied req tokens by (simp add: handle_def)
    next
      case w: (Inr w)
      have way: "under_way env st a w" "wt_principal w = p"
        using adm w start_forwarding_Inr(3) [OF w path] unfolding under_way_def by blast+
      obtain g m where gm: "begin_token (en_digest env) (av_config a) p (av_now a div 1000) (av_jti a) (bs_tokens st) = (g, m)"
        by fastforce
      have inv: "cache_inv (en_digest env) (en_sign env) A (bs_tokens st) \<Longrightarrow> cache_inv (en_digest env) (en_sign env) A m"
        using begin_token_inv(1) [of "en_digest env" "en_sign env" A "bs_tokens st"] gm by (metis snd_conv)
      show ?thesis
      proof (cases g)
        case (Unsignable e)
        then show ?thesis using replied inv by (simp add: req handle_def w tokens gm)
      next
        case (Signing s)
        then show ?thesis using signing way asked by (simp add: req handle_def w tokens gm)
      next
        case (Served token)
        show ?thesis
        proof (cases "send_upstream env w token")
          case (Inl e)
          then show ?thesis using replied inv Served by (simp add: req handle_def w tokens gm sent_or_replied_def)
        next
          case (Inr f)
          then show ?thesis using cached way asked Served by (simp add: req handle_def w tokens gm sent_or_replied_def)
        qed
      qed
    qed
  qed
qed

lemma arrive_inv:
  assumes inv: "run_inv env b"
  shows "run_inv env (proxy_step env (ProxyArrive a) b)"
proof -
  let ?b = "proxy_step env (ProxyArrive a) b" and ?d = "en_digest env" and ?sg = "en_sign env"
  have asked: "br_asked ?b = asked_by env a (br_state b) @ br_asked b"
    by (simp add: Let_def split: prod.split progress.split)
  note old = run_inv_mono [OF inv, of "set (br_asked ?b)", unfolded asked, OF subset_trans [OF Un_upper2 eq_refl [OF set_append [symmetric]]]]
  show ?thesis
  proof (cases rule: proxy_request_cases [of env a "br_state b" "set (asked_by env a (br_state b) @ br_asked b)"])
    case (replied e st')
    then show ?thesis using old unfolding run_inv_def by (simp add: Let_def) blast
  next
    case (cached w token m f st')
    let ?r = "token_request_of a (wt_principal w)"
    have r: "?r \<in> set (asked_by env a (br_state b) @ br_asked b)" by (simp add: cached(2))
    have tb: "ask_token ?d ?r \<lparr>tb_cache = bs_tokens (br_state b), tb_awaited = [], tb_asked = asked_by env a (br_state b) @ br_asked b,
        tb_served = [], tb_peak = length (bs_tokens (br_state b))\<rparr> =
      \<lparr>tb_cache = m, tb_awaited = [], tb_asked = ?r # asked_by env a (br_state b) @ br_asked b,
        tb_served = [(?r, token)], tb_peak = length (bs_tokens (br_state b))\<rparr>"
      using cached(3) by (simp add: ask_token_def token_request_of_def)
    have "book_inv ?d ?sg (ask_token ?d ?r \<lparr>tb_cache = bs_tokens (br_state b), tb_awaited = [],
        tb_asked = asked_by env a (br_state b) @ br_asked b, tb_served = [], tb_peak = length (bs_tokens (br_state b))\<rparr>)"
      using old(1) by (intro ask_token_inv) (simp add: book_inv_def)
    then have "cache_inv ?d ?sg (set (asked_by env a (br_state b) @ br_asked b)) m"
      "served_ok ?d ?sg (set (asked_by env a (br_state b) @ br_asked b)) ?r token"
      using r unfolding tb by (simp_all add: book_inv_def insert_absorb)
    then show ?thesis using old cached(1,4,5,6) r unfolding run_inv_def by (simp add: Let_def) blast
  next
    case (signing w s m st')
    let ?r = "token_request_of a (wt_principal w)"
    have r: "?r \<in> set (asked_by env a (br_state b) @ br_asked b)" by (simp add: signing(2))
    have "cache_inv ?d ?sg (set (asked_by env a (br_state b) @ br_asked b)) m"
      using begin_token_inv(1) [OF old(1), of "av_config a" "wt_principal w" "av_now a div 1000" "av_jti a"] signing(3) by simp
    moreover have "signing_of ?d ?r s"
      using signing(3) by (cases rule: begin_token_cases [of "bs_tokens (br_state b)" ?d "av_config a" "wt_principal w" "av_now a div 1000" "av_jti a"])
        (simp_all add: token_request_of_def)
    ultimately show ?thesis using old signing(1,4,5) r unfolding run_inv_def by (simp add: Let_def) blast
  qed
qed

lemma token_ready_inv:
  assumes inv: "run_inv env b" and key: "\<forall>i. en_digest env i \<noteq> []"
  shows "run_inv env (proxy_step env (TokenReady i aborted) b)"
proof (cases "i < length (br_awaiting b)")
  case False
  then show ?thesis using inv by simp
next
  case True
  obtain st0 a w s where e: "br_awaiting b ! i = (st0, a, w, s)" by (cases "br_awaiting b ! i")
  let ?r = "token_request_of a (wt_principal w)" and ?A = "set (br_asked b)"
  have "(st0, a, w, s) \<in> set (br_awaiting b)" using True e by (metis nth_mem)
  then have way: "under_way env st0 a w" "?r \<in> ?A" "signing_of (en_digest env) ?r s" using inv by (auto simp: run_inv_def)
  note old = run_inv_mono [OF inv subset_refl]
  obtain token m where tm: "finish_token (en_sign env) s (bs_tokens (br_state b)) = (token, m)" by fastforce
  have cache: "cache_inv (en_digest env) (en_sign env) ?A m"
    using finish_token_inv(1) [OF old(1) way(3,2) key] tm by simp
  have token: "token = en_sign env (sg_secret s) (sg_claims s)" using tm by (simp add: finish_token_def Let_def)
  then have served: "served_ok (en_digest env) (en_sign env) ?A ?r token" unfolding served_ok_def using way(2,3) by blast
  have left: "x \<in> set (br_awaiting b)" if "x \<in> set (take i (br_awaiting b) @ drop (Suc i) (br_awaiting b))" for x
    using that by (auto dest: in_set_takeD in_set_dropD)
  obtain g st where gst: "resume_request env w s aborted (br_state b) = (g, st)" by fastforce
  have st: "bs_tokens st = m" using gst tm by (auto simp: resume_request_def)
  have sent: "g = Sent f \<Longrightarrow> send_upstream env w token = Inr f" for f
    using gst tm by (auto simp: resume_request_def split: if_splits)
  define rest where "rest = take i (br_awaiting b) @ drop (Suc i) (br_awaiting b)"
  have kept: "(st', a', w', s') \<in> set rest \<Longrightarrow> (st', a', w', s') \<in> set (br_awaiting b)" for st' a' w' s'
    using left unfolding rest_def by blast
  show ?thesis
  proof (cases "\<exists>f. g = Sent f")
    case True
    then obtain f where f: "g = Sent f" by blast
    have "proxy_step env (TokenReady i aborted) b =
        b\<lparr>br_awaiting := rest, br_state := st, br_sent := (st0, a, f) # br_sent b\<rparr>"
      using \<open>i < length (br_awaiting b)\<close> by (simp add: e gst f rest_def Let_def)
    moreover have "run_inv env (b\<lparr>br_awaiting := rest, br_state := st, br_sent := (st0, a, f) # br_sent b\<rparr>)"
      unfolding run_inv_def using kept old(2,3) cache st way(1,2) served sent [OF f] by simp blast
    ultimately show ?thesis by simp
  next
    case False
    then have "proxy_step env (TokenReady i aborted) b = b\<lparr>br_awaiting := rest, br_state := st\<rparr>"
      using \<open>i < length (br_awaiting b)\<close> by (simp add: e gst rest_def Let_def split: progress.split)
    moreover have "run_inv env (b\<lparr>br_awaiting := rest, br_state := st\<rparr>)"
      unfolding run_inv_def using kept old(2,3) cache st by simp blast
    ultimately show ?thesis by simp
  qed
qed

lemma proxy_run_inv:
  assumes "\<forall>i. en_digest env i \<noteq> []"
  shows "run_inv env (proxy_run env es)"
proof (induction es rule: rev_induct)
  case Nil
  then show ?case by (simp add: proxy_run_def new_run_def fresh_bff_def run_inv_def)
next
  case (snoc e es)
  have step: "proxy_run env (es @ [e]) = proxy_step env e (proxy_run env es)" by (simp add: proxy_run_def)
  show ?case unfolding step
  proof (cases e)
    case (Elsewhere au up lr)
    then show "run_inv env (proxy_step env e (proxy_run env es))" using snoc by (simp add: run_inv_def)
  qed (use arrive_inv [OF snoc] token_ready_inv [OF snoc assms] in \<open>simp_all del: proxy_step.simps\<close>)
qed

text \<open>Where a forwarded request comes from.\<close>

lemma sent_from:
  assumes "(st, a, f) \<in> set (br_sent (proxy_run env es))" and "\<forall>i. en_digest env i \<noteq> []"
  obtains p path confirmed st1 w token where
    "admit env (av_hooks_config a) (av_id a) (av_destroyed a) (av_request a) (av_hooks_now a) st = (Inr (p, path, confirmed), st1)"
    "proxy_target_path (en_caret env) (ar_target (av_request a)) = Some path"
    "snd (stamp_gateway_target (en_target_mac env) (av_config a) (av_request a))"
    "u_path (fw_url f) = path" "u_origin (fw_url f) = u_origin (av_admin a)" "fw_principal f = p" "fw_method f = ar_method (av_request a)"
    "fw_headers f = forwarded_headers env (av_request a) token (fw_body f) (fw_scoped_list f \<or> fw_scoped_health f)"
    "registry_body (av_request a) path p (av_body a) = Inr (fw_body f)"
    "fw_url f = target_of (av_request a) confirmed (the (proxy_target_url (en_caret env) (ar_target (av_request a)) (av_admin a)))"
    "token_request_of a p \<in> set (br_asked (proxy_run env es))"
    "served_ok (en_digest env) (en_sign env) (set (br_asked (proxy_run env es))) (token_request_of a p) token"
proof -
  have "run_inv env (proxy_run env es)" by (rule proxy_run_inv [OF assms(2)])
  then obtain w token where w: "under_way env st a w" "send_upstream env w token = Inr f"
    "token_request_of a (wt_principal w) \<in> set (br_asked (proxy_run env es))"
    "served_ok (en_digest env) (en_sign env) (set (br_asked (proxy_run env es))) (token_request_of a (wt_principal w)) token"
    using assms(1) unfolding run_inv_def by blast
  obtain p path confirmed st1 where adm:
    "admit env (av_hooks_config a) (av_id a) (av_destroyed a) (av_request a) (av_hooks_now a) st = (Inr (p, path, confirmed), st1)"
    "start_forwarding env (av_config a) (av_admin a) (av_request a) (av_body a) p path confirmed = Inr w"
    using w(1) unfolding under_way_def by blast
  obtain path: "proxy_target_path (en_caret env) (ar_target (av_request a)) = Some path" using admit_Inr [OF adm(1)] by metis
  note st = start_forwarding_Inr [OF adm(2) path]
  note sent = send_upstream_Inr [OF w(2), unfolded st(1-4)]
  show ?thesis
    using that [OF adm(1) path st(6) _ _ sent(2,3,4,5) _ w(3,4) [unfolded st(3)]] st(4,5,7) by (simp add: sent(1))
qed

lemma copied_headers:
  "jm_get (foldl (\<lambda>hs name. case header_text (ar_headers r name) of None \<Rightarrow> hs | Some v \<Rightarrow> jm_set name v hs) hs names) k =
     (if k \<in> set names \<and> header_text (ar_headers r k) \<noteq> None then header_text (ar_headers r k) else jm_get hs k)"
  by (induction names arbitrary: hs) (auto simp: jm_simps split: option.split)

lemma get_without_headers: "jm_get (without_headers names hs) k = (if k \<in> set names then None else jm_get hs k)"
proof -
  have "jm_get (foldl (\<lambda>h n. jm_delete n h) hs names) k = (if k \<in> set names then None else jm_get hs k)"
    by (induction names arbitrary: hs) (auto simp: jm_simps)
  then show ?thesis by (simp add: without_headers_def)
qed

lemma forwarded_headers_get:
  "jm_get (forwarded_headers env r token sent c) k =
     (if c \<and> k \<in> {''if-match'', ''if-none-match'', ''range''} then None
      else if sent \<noteq> None \<and> k = ''content-length'' then Some (show_nat (en_body_bytes env (the sent)))
      else if sent \<noteq> None \<and> k = ''content-type'' then Some ''application/json''
      else jm_get (copy_request_headers r (''Bearer '' @ token)) k)"
  by (cases sent) (simp_all add: forwarded_headers_def Let_def get_without_headers jm_get_set)

lemma copy_request_headers_get:
  "jm_get (copy_request_headers r authorization) k =
     (if k \<in> set request_header_allowlist \<and> header_text (ar_headers r k) \<noteq> None then header_text (ar_headers r k)
      else if k = ''authorization'' then Some authorization
      else if k = ''accept-encoding'' then Some ''identity''
      else if k = ''x-ferrum-provisioned-by'' then Some ''ferrum-foundry''
      else None)"
  unfolding copy_request_headers_def copied_headers by (simp add: eq_commute)

lemma forwarded_header_names:
  assumes "jm_get (forwarded_headers env r token sent c) k \<noteq> None"
  shows "k \<in> set ([''authorization'', ''accept-encoding'', ''x-ferrum-provisioned-by''] @ request_header_allowlist)"
proof (rule ccontr)
  assume k: "k \<notin> set ([''authorization'', ''accept-encoding'', ''x-ferrum-provisioned-by''] @ request_header_allowlist)"
  have "''content-length'' \<in> set request_header_allowlist" "''content-type'' \<in> set request_header_allowlist"
    by (simp_all add: request_header_allowlist_def)
  then have "k \<noteq> ''content-length''" "k \<noteq> ''content-type''" using k by auto
  then show False using assms k by (simp add: forwarded_headers_get copy_request_headers_get split: if_splits)
qed

lemma forwarded_header_values:
  "jm_get (forwarded_headers env r token sent c) ''authorization'' = Some (''Bearer '' @ token)"
  "jm_get (forwarded_headers env r token sent c) ''x-ferrum-namespace'' = header_text (ar_headers r ''x-ferrum-namespace'')"
  by (simp_all add: forwarded_headers_get copy_request_headers_get request_header_allowlist_def)

text \<open>C17: Nothing is forwarded that the caller may not do. Take any interleaving of requests, of
  signatures becoming ready and of whatever the other routes do to sessions, throttles and permits, with a digest that is never
  empty and has no collisions among the inputs tokens were asked for. A request that leaves for the gateway
  was made by an authenticated principal, passed CSRF, and declared no other gateway target than
  the configuration it is sent with; its URL is on the configured origin with exactly the classified path, which is neither credential read;
  a registry path is one the principal may use; and if the principal is scoped, the route is one
  the namespace ceiling allows and the \<open>X-Ferrum-Namespace\<close> header forwarded, trimmed, is one of its
  grants unless the route is on the global allowlist. The headers are the allowlisted ones and
  three of the BFF's own (no cookie, no identity header, no client authorization), and the bearer
  token is one signed with the configured secret for exactly this principal: its claims name the
  principal's subject and role, all of its namespaces when it is scoped and none when it is
  not, and it has not expired, whoever else was signed for in between.\<close>

theorem forwarded_requests_confined:
  assumes "(st, a, f) \<in> set (br_sent (proxy_run env es))"
    and "inj_on (en_digest env) (inputs_of ` set (br_asked (proxy_run env es)))" and "\<forall>i. en_digest env i \<noteq> []"
    and "rq_route_url (ar_target (av_request a)) = Some ''/api/proxy/*''"
  shows "\<exists>sess au cl.
    current_principal (av_hooks_config a) (av_request a) (av_hooks_now a) (bs_auth st) = (sess, Identity (fw_principal f), au) \<and>
    csrf_is_valid (en_mac env) (av_hooks_config a) (av_request a) (av_hooks_now a) (fw_principal f) sess \<and>
    declared_target (av_request a) \<in> {None, Some (gateway_target_id (en_target_mac env) (av_config a))} \<and>
    u_origin (fw_url f) = u_origin (av_admin a) \<and>
    proxy_target_path (en_caret env) (ar_target (av_request a)) = Some (u_path (fw_url f)) \<and>
    \<not> is_consumer_verification (u_path (fw_url f)) \<and> \<not> is_deployment_snapshot (u_path (fw_url f)) \<and>
    authorize_registry_path (u_path (fw_url f)) (ar_method (av_request a)) (fw_principal f) = Inr () \<and>
    (case p_namespaces (fw_principal f) of
       None \<Rightarrow> True
     | Some grants \<Rightarrow>
         allowed_for_namespace (en_caret env) (ar_target (av_request a)) \<and>
         (edge_namespace_safe_global (en_caret env) (ar_target (av_request a)) \<or>
          (\<exists>v. jm_get (fw_headers f) ''x-ferrum-namespace'' = Some v \<and> js_trim v \<in> set grants))) \<and>
    dom (jm_get (fw_headers f)) \<subseteq>
      set ([''authorization'', ''accept-encoding'', ''x-ferrum-provisioned-by''] @ request_header_allowlist) \<and>
    jm_get (fw_headers f) ''authorization'' = Some (''Bearer '' @ en_sign env (cf_jwt_secret (av_config a)) cl) \<and>
    cl_issuer cl = cf_jwt_issuer (av_config a) \<and> av_now a div 1000 < cl_exp cl \<and>
    cl_subject cl = p_subject (fw_principal f) \<and> cl_role cl = p_role (fw_principal f) \<and>
    cl_ns cl = (case p_namespaces (fw_principal f) of None \<Rightarrow> None
                | Some ns \<Rightarrow> Some (claim_of (js_unique (map js_trim ns))))"
proof -
  let ?r = "av_request a"
  obtain p path confirmed st1 w token where
    adm: "admit env (av_hooks_config a) (av_id a) (av_destroyed a) ?r (av_hooks_now a) st = (Inr (p, path, confirmed), st1)"
    and path: "proxy_target_path (en_caret env) (ar_target ?r) = Some path"
    and out: "snd (stamp_gateway_target (en_target_mac env) (av_config a) ?r)"
    "u_path (fw_url f) = path" "u_origin (fw_url f) = u_origin (av_admin a)" "fw_principal f = p"
    "fw_headers f = forwarded_headers env ?r token (fw_body f) (fw_scoped_list f \<or> fw_scoped_health f)"
    and asked: "token_request_of a p \<in> set (br_asked (proxy_run env es))"
    and served: "served_ok (en_digest env) (en_sign env) (set (br_asked (proxy_run env es))) (token_request_of a p) token"
    using sent_from [OF assms(1,3)] by metis
  obtain sess au where in_: "current_principal (av_hooks_config a) ?r (av_hooks_now a) (bs_auth st) = (sess, Identity p, au)"
    "csrf_is_valid (en_mac env) (av_hooks_config a) ?r (av_hooks_now a) p sess" "require_safe_proxy_path (en_caret env) ?r p = Inr confirmed"
    "require_namespace_ceiling (en_caret env) ?r p = None"
    using admit_Inr [OF adm] by blast
  have proxy: "is_proxy_route (ar_target ?r)" using assms(4) by (simp add: is_proxy_route_def)
  have scoped: "case p_namespaces p of None \<Rightarrow> True
     | Some grants \<Rightarrow> allowed_for_namespace (en_caret env) (ar_target ?r) \<and>
         (edge_namespace_safe_global (en_caret env) (ar_target ?r) \<or>
          (\<exists>v. jm_get (fw_headers f) ''x-ferrum-namespace'' = Some v \<and> js_trim v \<in> set grants))"
    using in_(4) proxy unfolding out(5) forwarded_header_values
    by (auto simp: require_namespace_ceiling_def single_header_def header_text_def
        split: option.splits header_value.splits if_splits)
  have declared: "declared_target ?r \<in> {None, Some (gateway_target_id (en_target_mac env) (av_config a))}"
    using out(1) by (auto simp: stamp_gateway_target_def Let_def split: option.splits)
  have names: "dom (jm_get (fw_headers f)) \<subseteq>
      set ([''authorization'', ''accept-encoding'', ''x-ferrum-provisioned-by''] @ request_header_allowlist)"
    unfolding out(5) using forwarded_header_names by blast
  have bearer: "jm_get (fw_headers f) ''authorization'' = Some (''Bearer '' @ token)"
    unfolding out(5) by (rule forwarded_header_values)
  obtain cl where "own_token (en_sign env) (inputs_of (token_request_of a p)) (tr_now (token_request_of a p)) cl token"
    using served_own [OF served assms(2) asked] by metis
  then have own: "token = en_sign env (cf_jwt_secret (av_config a)) cl" "cl_issuer cl = cf_jwt_issuer (av_config a)"
    "av_now a div 1000 < cl_exp cl" "cl_subject cl = p_subject p" "cl_role cl = p_role p"
    "cl_ns cl = (case p_namespaces p of None \<Rightarrow> None | Some ns \<Rightarrow> Some (claim_of (js_unique (map js_trim ns))))"
    by (simp_all add: own_token_def token_request_of_def token_inputs_of_def)
  note safe = safe_proxy_path_Inr [OF in_(3) path]
  show ?thesis
    unfolding out(2,3,4)
    by (rule exI [of _ sess], rule exI [of _ au], rule exI [of _ cl],
        intro conjI in_(1,2) declared refl path safe(1-3) scoped names bearer [unfolded own(1)] own(2-6))
qed

text \<open>An arrival with no cached token is sent in two steps.\<close>

lemma sent_in_two_steps:
  assumes "admit env (av_hooks_config a) (av_id a) (av_destroyed a) (av_request a) (av_hooks_now a) (br_state b) = (Inr (p, path, confirmed), st1)"
    and "bs_tokens st1 = []" "br_awaiting b = []"
    and "start_forwarding env (av_config a) (av_admin a) (av_request a) (av_body a) p path confirmed = Inr w"
    and "token_claims (token_inputs_of (av_config a) p) (av_now a div 1000) (av_jti a) = Inr cl"
    and "\<And>token. \<exists>f. send_upstream env w token = Inr f"
  shows "\<exists>f token. send_upstream env w token = Inr f \<and>
    (br_state b, a, f) \<in> set (br_sent (fold (proxy_step env) [ProxyArrive a, TokenReady 0 False] b)) \<and>
    br_asked (fold (proxy_step env) [ProxyArrive a, TokenReady 0 False] b) = token_request_of a p # br_asked b"
proof -
  have asked: "asked_by env a (br_state b) = [token_request_of a p]" by (simp add: asked_by_def assms(1))
  obtain s m where "begin_token (en_digest env) (av_config a) p (av_now a div 1000) (av_jti a) [] = (Signing s, m)"
    by (simp add: begin_token_def start_signing_def assms(5) Let_def)
  then obtain s st2 where req: "proxy_request env a (br_state b) = (Awaiting w s, st2)"
    by (simp add: proxy_request_def assms(1) handle_def assms(4,2))
  obtain token m where tm: "finish_token (en_sign env) s (bs_tokens st2) = (token, m)" by fastforce
  obtain f where f: "send_upstream env w token = Inr f" using assms(6) by blast
  have "resume_request env w s False st2 = (Sent f, st2\<lparr>bs_tokens := m\<rparr>)"
    by (simp add: resume_request_def tm f sent_or_replied_def)
  then show ?thesis using f by (intro exI [of _ f] exI [of _ token]) (simp add: req asked assms(3) Let_def)
qed

subsection \<open>A sample request\<close>

definition sample_bff :: config where
  "sample_bff = sample_proxied\<lparr>cf_jwt_secret := ''0123456789abcdef0123456789abcdef'',
     cf_jwt_issuer := ''ferrum-foundry'', cf_jwt_ttl := 300, cf_jwt_audience := None, cf_admin_url := ''https://edge''\<rparr>"

definition sample_services :: bff_env where
  "sample_services = \<lparr>en_mac = (\<lambda>_ _ _. ''m''), en_digest = plain_digest, en_sign = plain_sign, en_target_mac = (\<lambda>_ u. u),
     en_caret = True, en_body_bytes = (\<lambda>_. 2)\<rparr>"

definition sample_get :: auth_request where
  "sample_get = proxied_caller\<lparr>ar_headers := (ar_headers proxied_caller)(''x-ferrum-namespace'' \<mapsto> Single ''demo''),
     ar_target := ProxyPath.sample_request\<lparr>rq_method := ''GET'', rq_raw_url := Some ''/api/proxy/proxies?limit=5'',
       rq_route_url := Some ''/api/proxy/*''\<rparr>\<rparr>"

definition sample_origin :: url where
  "sample_origin = \<lparr>u_origin = ''https://edge'', u_path = ''/'', u_query = [], u_hash = []\<rparr>"

lemma sample_get_path: "proxy_target_path True (ar_target sample_get) = Some ''/proxies''"
  by code_simp

lemma sample_get_allowed: "allowed_for_namespace True (ar_target sample_get)" by code_simp

lemma sample_get_identity:
  "\<exists>st. current_principal sample_bff sample_get 1000 fresh_auth = (None, Identity sample_ann, st)"
proof -
  have fields: "ar_raw_names sample_get = []" "cf_trusted_proxy_secret sample_bff = Some ''shared''"
      "cf_auth_mode sample_bff = TrustedProxy"
    by (simp_all add: sample_get_def proxied_caller_def sample_caller_def sample_bff_def sample_proxied_def)
  have h: "single_header sample_get trusted_proxy_secret_header = Some ''shared''"
    by (simp add: sample_get_def proxied_caller_def single_header_def trusted_proxy_secret_header_def js_trim_def white_space_def)
  have a: "asserted_principal sample_bff sample_get = Some sample_ann"
    by (simp add: asserted_principal_def sample_ann_def sample_bff_def sample_proxied_def sample_get_def proxied_caller_def
        single_header_def trusted_proxy_secret_header_def js_trim_def white_space_def parse_role_header_def
        contains_control_character_def parse_trusted_namespaces_def js_unique_def is_namespace_name_def cps_def
        name_char_def name_start_def)
  have "locked_ms sample_bff sample_get 1000 (ensure_throttle sample_bff fresh_auth) = 0"
    by (rule clean_not_locked [OF fresh_clean]) simp
  then show ?thesis using fields h a
    by (simp add: current_principal_def trusted_proxy_principal_def safe_equal_iff Let_def)
qed

lemma sample_get_admitted:
  "\<exists>st. admit sample_services sample_bff 7 False sample_get 1000 fresh_bff = (Inr (sample_ann, ''/proxies'', False), st) \<and> bs_tokens st = []"
proof -
  obtain au where cur: "current_principal sample_bff sample_get 1000 fresh_auth = (None, Identity sample_ann, au)"
    using sample_get_identity by blast
  have m: "ar_method sample_get = ''GET''" "en_caret sample_services = True"
    by (simp_all add: sample_get_def proxied_caller_def sample_services_def)
  have safe: "require_safe_proxy_path True sample_get sample_ann = Inr False"
    unfolding require_safe_proxy_path_def sample_get_path
    by (simp add: m is_consumer_verification_def is_deployment_snapshot_def path_match_def authorize_registry_path_def
        is_registry_path_def starts_with_def authorize_delete_confirmation_def)
  have ns: "single_header sample_get ''x-ferrum-namespace'' = Some ''demo''"
    by (simp add: sample_get_def single_header_def js_trim_def white_space_def)
  have ceiling: "require_namespace_ceiling True sample_get sample_ann = None"
    using sample_get_allowed ns by (simp add: require_namespace_ceiling_def sample_ann_def)
  have "waiting_route_timeout ''GET'' ''/proxies'' = 0" by code_simp
  then have read: "reserve_long_read lims (info_of 7 False sample_get ''/proxies'' sample_ann) lr = (None, lr)" for lims lr
    by (simp add: reserve_long_read_def info_of_def is_long_read_def is_scoped_namespace_list_def)
  have up: "reserve_upload lims (info_of 7 False sample_get ''/proxies'' sample_ann) u = (None, u)" for lims u
    by (simp add: reserve_upload_def info_of_def m carries_request_body_def)
  show ?thesis using cur safe ceiling read up sample_get_path
    by (simp add: admit_def require_admin_auth_def fresh_bff_def csrf_is_valid_def m)
qed

definition no_body :: request_body where
  "no_body = \<lparr>rb_stream = False, rb_json = None\<rparr>"

definition sample_arrival :: proxy_arrival where
  "sample_arrival = \<lparr>av_hooks_config = sample_bff, av_config = sample_bff, av_admin = sample_origin, av_id = 7, av_destroyed = False,
     av_request = sample_get, av_body = no_body, av_hooks_now = 1000, av_now = 1000, av_jti = ''j''\<rparr>"

theorem forwarded_requests_confined_witness:
  "\<exists>f cl. (fresh_bff, sample_arrival, f) \<in> set (br_sent (proxy_run sample_services [ProxyArrive sample_arrival, TokenReady 0 False])) \<and>
    u_path (fw_url f) = ''/proxies'' \<and> fw_principal f = sample_ann \<and>
    (\<exists>v. jm_get (fw_headers f) ''x-ferrum-namespace'' = Some v \<and> js_trim v \<in> {''demo'', ''edge''}) \<and>
    jm_get (fw_headers f) ''authorization'' = Some (''Bearer '' @ plain_sign (cf_jwt_secret sample_bff) cl) \<and>
    cl_subject cl = ''ann'' \<and> 1 < cl_exp cl"
proof -
  let ?run = "proxy_run sample_services [ProxyArrive sample_arrival, TokenReady 0 False]"
  obtain st where adm: "admit sample_services sample_bff 7 False sample_get 1000 fresh_bff = (Inr (sample_ann, ''/proxies'', False), st)"
      "bs_tokens st = []" using sample_get_admitted by blast
  have m: "ar_method sample_get = ''GET''" "en_caret sample_services = True" "ar_headers sample_get gateway_target_header = None"
      "ar_headers sample_get ''content-length'' = None"
    by (simp_all add: sample_get_def proxied_caller_def sample_services_def gateway_target_header_def trusted_proxy_secret_header_def)
  obtain t where url: "proxy_target_url True (ar_target sample_get) sample_origin = Some t" "u_path t = ''/proxies''"
    by (simp add: proxy_target_url_eq sample_get_path)
  have same: "target_of sample_get False t = t" by (simp add: target_of_def m)
  have stamped: "snd (stamp_gateway_target (en_target_mac sample_services) sample_bff sample_get)"
    by (simp add: stamp_gateway_target_def declared_target_def m Let_def)
  have short: "declared_length sample_get = None" by (simp add: declared_length_def m)
  obtain cl where claims: "token_claims (token_inputs_of sample_bff sample_ann) 1 ''j'' = Inr cl"
    by (simp add: token_claims_def token_inputs_of_def sample_bff_def sample_ann_def blank_def js_trim_def
        white_space_def secret_bytes_def utf8_def max_safe_def normalize_audience_def normalize_namespaces_def js_unique_def
        is_namespace_name_def cps_def name_char_def name_start_def)
  have reg: "registry_body sample_get ''/proxies'' sample_ann b = Inr None" for b
    by (simp add: registry_body_def is_registry_path_def starts_with_def)
  let ?w = "\<lparr>wt_request = sample_get, wt_body = no_body, wt_principal = sample_ann, wt_target = t\<rparr>"
  have start: "start_forwarding sample_services sample_bff sample_origin sample_get no_body sample_ann ''/proxies'' False = Inr ?w"
    by (simp add: start_forwarding_def stamped short url same m(2))
  have sends: "\<exists>f. send_upstream sample_services ?w token = Inr f" for token
    by (simp add: send_upstream_def url(2) reg Let_def)
  have "\<exists>f token. send_upstream sample_services ?w token = Inr f \<and>
      (fresh_bff, sample_arrival, f) \<in> set (br_sent ?run) \<and> br_asked ?run = [token_request_of sample_arrival sample_ann]"
    using sent_in_two_steps [of sample_services sample_arrival new_run sample_ann "''/proxies''" False st ?w cl] adm start claims sends
    by (simp add: proxy_run_def sample_arrival_def new_run_def del: proxy_step.simps)
  then obtain f token where f: "send_upstream sample_services ?w token = Inr f"
    "(fresh_bff, sample_arrival, f) \<in> set (br_sent ?run)" "br_asked ?run = [token_request_of sample_arrival sample_ann]"
    by blast
  have fp: "fw_principal f = sample_ann" "u_path (fw_url f) = ''/proxies''"
    using send_upstream_Inr [OF f(1)] url(2) by simp_all
  have inj: "inj_on (en_digest sample_services) (inputs_of ` set (br_asked ?run))" by (simp add: f(3))
  have digest: "\<forall>i. en_digest sample_services i \<noteq> []" by (simp add: sample_services_def plain_digest_def)
  have "rq_route_url (ar_target (av_request sample_arrival)) = Some ''/api/proxy/*''" by (simp add: sample_arrival_def sample_get_def)
  note confined = forwarded_requests_confined [OF f(2) inj digest this]
  have at: "av_request sample_arrival = sample_get" "av_config sample_arrival = sample_bff" "av_now sample_arrival div 1000 = 1"
    "en_sign sample_services = plain_sign" "p_namespaces sample_ann = Some [''demo'', ''edge'']" "p_subject sample_ann = ''ann''"
    by (simp_all add: sample_arrival_def sample_services_def sample_ann_def)
  have "\<exists>cl. (edge_namespace_safe_global True (ar_target sample_get) \<or>
      (\<exists>v. jm_get (fw_headers f) ''x-ferrum-namespace'' = Some v \<and> js_trim v \<in> set [''demo'', ''edge''])) \<and>
    jm_get (fw_headers f) ''authorization'' = Some (''Bearer '' @ plain_sign (cf_jwt_secret sample_bff) cl) \<and>
    cl_subject cl = ''ann'' \<and> 1 < cl_exp cl"
    using confined unfolding fp(1) at m(2) option.case by (elim exE conjE) (rule exI, intro conjI)
  moreover have "\<not> edge_namespace_safe_global True (ar_target sample_get)" by code_simp
  ultimately show ?thesis using f(2) fp unfolding list.set by blast
qed

section \<open>Confirmed cascades\<close>

definition raw_query :: "auth_request \<Rightarrow> string" where
  "raw_query r = (case snd (cut_at CHR ''?'' (raw_target (ar_target r))) of None \<Rightarrow> [] | Some q \<Rightarrow> q)"

text \<open>The gateway's cascade flag says what was authorized and nothing else. On a forwarded
  namespace delete, the query the gateway parses carries \<open>confirm=true\<close>, once, exactly when the raw
  query spelled the namespace's name as its only confirmation; otherwise it carries no \<open>confirm\<close>
  parameter at all, and in that case the raw query had none either (a wrong or repeated
  confirmation was refused). Every other parameter arrives as it was parsed.\<close>

theorem cascade_flag_is_the_authorized_one:
  assumes "(st, a, f) \<in> set (br_sent (proxy_run env es))" and "\<forall>i. en_digest env i \<noteq> []" and "r = av_request a"
    and "ar_method r = ''DELETE''" and "starts_with ''/namespaces/'' (u_path (fw_url f))"
  shows "((confirm_values (u_query (fw_url f)) = [cps ''true''] \<and>
       raw_confirmations (raw_query r) = [drop (length ''/namespaces/'') (u_path (fw_url f))]) \<or>
      (confirm_values (u_query (fw_url f)) = [] \<and> raw_confirmations (raw_query r) = [])) \<and>
    filter (\<lambda>kv. fst kv \<noteq> cps ''confirm'') (search_params (u_query (fw_url f))) =
    filter (\<lambda>kv. fst kv \<noteq> cps ''confirm'')
      (search_params (url_search (cps (tl (dropWhile (\<lambda>c. c \<noteq> CHR ''?'') (raw_target (ar_target r)))))))"
proof -
  obtain p path confirmed st1 where adm:
      "admit env (av_hooks_config a) (av_id a) (av_destroyed a) r (av_hooks_now a) st = (Inr (p, path, confirmed), st1)"
    and path: "proxy_target_path (en_caret env) (ar_target r) = Some path"
    and f: "u_path (fw_url f) = path"
    "fw_url f = target_of r confirmed (the (proxy_target_url (en_caret env) (ar_target r) (av_admin a)))"
    using sent_from [OF assms(1,2)] unfolding assms(3) by metis
  obtain safe: "require_safe_proxy_path (en_caret env) r p = Inr confirmed" using admit_Inr [OF adm] by metis
  let ?q = "url_search (cps (tl (dropWhile (\<lambda>c. c \<noteq> CHR ''?'') (raw_target (ar_target r)))))"
  have query: "u_query (fw_url f) = confirm_query confirmed ?q"
    using assms(4,5) unfolding f(1) by (simp add: f(2) target_of_def proxy_target_url_eq path)
  have decision: "(confirmed \<and> raw_confirmations (raw_query r) = [drop (length ''/namespaces/'') path]) \<or>
      (\<not> confirmed \<and> raw_confirmations (raw_query r) = [])"
    using safe_proxy_path_Inr(4) [OF safe path] assms(4,5) unfolding f(1)
    by (auto simp: authorize_delete_confirmation_def raw_query_def Let_def split: prod.splits if_splits)
  show ?thesis using decision
    by (auto simp: query f(1) confirm_values_def confirm_query_params)
qed

definition sample_deleting :: config where
  "sample_deleting = sample_bff\<lparr>cf_auth_mode := StaticMode, cf_jwt_role := Admin, cf_jwt_namespaces := None,
     cf_secure_cookies := True\<rparr>"

definition sample_delete_target :: http_request where
  "sample_delete_target = ProxyPath.sample_request\<lparr>rq_method := ''DELETE'',
     rq_raw_url := Some ''/api/proxy/namespaces/demo?confirm=demo''\<rparr>"

definition sample_delete :: auth_request where
  "sample_delete = sample_caller\<lparr>ar_method := ''DELETE'',
     ar_headers := [''x-csrf-token'' \<mapsto> Single ''c1''],
     ar_cookies := [cn_session (names_of_cookies sample_deleting) \<mapsto> ''s1'', cn_csrf (names_of_cookies sample_deleting) \<mapsto> ''c1''],
     ar_target := sample_delete_target\<rparr>"

lemma sample_delete_path:
  "ar_target sample_delete = sample_delete_target" "proxy_target_path True sample_delete_target = Some ''/namespaces/demo''"
  "authorize_delete_confirmation ''/namespaces/demo'' ''DELETE'' (raw_target sample_delete_target) = Inr True"
  "raw_confirmations (case snd (cut_at CHR ''?'' (raw_target sample_delete_target)) of None \<Rightarrow> [] | Some q \<Rightarrow> q) \<noteq> []"
     apply (simp add: sample_delete_def)
    apply code_simp+
  done

definition signed_in_bff :: bff_state where
  "signed_in_bff = fresh_bff\<lparr>bs_auth := fresh_auth\<lparr>au_sessions := [(''s1'', new_session sample_deleting ''c1'' 0)]\<rparr>\<rparr>"

lemma sample_delete_admitted:
  "\<exists>st. admit sample_services sample_deleting 7 False sample_delete 1000 signed_in_bff =
     (Inr (static_principal sample_deleting, ''/namespaces/demo'', True), st) \<and> bs_tokens st = []"
proof -
  let ?s = "new_session sample_deleting ''c1'' 0" and ?p = "static_principal sample_deleting"
  have cookies: "ar_cookies sample_delete (cn_session (names_of_cookies sample_deleting)) = Some ''s1''"
      "ar_cookies sample_delete (cn_csrf (names_of_cookies sample_deleting)) = Some ''c1''"
    by (simp_all add: sample_delete_def names_of_cookies_def sample_deleting_def)
  have csrf: "single_header sample_delete ''x-csrf-token'' = Some ''c1''"
    by (simp add: sample_delete_def single_header_def js_trim_def white_space_def)
  have s: "se_csrf ?s = ''c1''" "se_principal ?s = ?p" "\<not> se_expires_at ?s \<le> 1000" "cf_auth_mode sample_deleting = StaticMode"
    by (simp_all add: new_session_def sample_deleting_def sample_bff_def sample_proxied_def)
  have valid: "csrf_is_valid mac sample_deleting sample_delete 1000 ?p (Some ?s)" for mac
    by (simp add: csrf_is_valid_def cookies csrf s(1) safe_equal_iff)
  have "\<exists>au. read_static_session sample_deleting sample_delete 1000 (bs_auth signed_in_bff) = (Some ?s, au)"
    using cookies s(3) by (simp add: read_static_session_def signed_in_bff_def)
  then obtain au where adm: "require_admin_auth (en_mac sample_services) sample_deleting sample_delete 1000 (bs_auth signed_in_bff) = (Inr ?p, au)"
    using s(2,4) valid by (auto simp: require_admin_auth_def current_principal_def)
  note path = sample_delete_path(2) [folded sample_delete_path(1)]
  have m: "ar_method sample_delete = ''DELETE''" "en_caret sample_services = True" by (simp_all add: sample_delete_def sample_services_def)
  have p: "p_role ?p = Admin" "p_namespaces ?p = None" by (simp_all add: static_principal_def sample_deleting_def)
  note sample_delete_path(3) [folded sample_delete_path(1)]
  moreover have "authorize_registry_path ''/namespaces/demo'' ''DELETE'' ?p = Inr ()"
    using p by (simp add: authorize_registry_path_def is_registry_path_def starts_with_def path_name_def is_namespace_name_def
        cps_def name_char_def name_start_def registry_name_allowed_def)
  moreover have "\<not> is_consumer_verification ''/namespaces/demo''" "\<not> is_deployment_snapshot ''/namespaces/demo''" by code_simp+
  ultimately have safe: "require_safe_proxy_path True sample_delete ?p = Inr True"
    by (simp add: require_safe_proxy_path_def path m)
  have up: "reserve_upload lims (info_of 7 False sample_delete x ?p) u = (None, u)" for lims u x
    by (simp add: reserve_upload_def info_of_def m carries_request_body_def)
  have read: "reserve_long_read lims (info_of 7 False sample_delete x ?p) lr = (None, lr)" for lims lr x
    by (simp add: reserve_long_read_def info_of_def is_long_read_def m)
  show ?thesis using adm safe path up read p(2)
    by (simp add: admit_def require_namespace_ceiling_def m) (simp add: signed_in_bff_def fresh_bff_def)
qed

definition deleting_arrival :: proxy_arrival where
  "deleting_arrival = \<lparr>av_hooks_config = sample_deleting, av_config = sample_deleting, av_admin = sample_origin, av_id = 7,
     av_destroyed = False, av_request = sample_delete, av_body = no_body, av_hooks_now = 1000, av_now = 1000, av_jti = ''j''\<rparr>"

definition deleting_run :: "bff_event list" where
  "deleting_run = [Elsewhere (bs_auth signed_in_bff) empty_uploads empty_long_reads, ProxyArrive deleting_arrival, TokenReady 0 False]"

theorem cascade_flag_is_the_authorized_one_witness:
  "\<exists>f. (signed_in_bff, deleting_arrival, f) \<in> set (br_sent (proxy_run sample_services deleting_run)) \<and>
    u_path (fw_url f) = ''/namespaces/demo'' \<and> confirm_values (u_query (fw_url f)) = [cps ''true'']"
proof -
  let ?p = "static_principal sample_deleting"
  obtain st where adm: "admit sample_services sample_deleting 7 False sample_delete 1000 signed_in_bff =
     (Inr (?p, ''/namespaces/demo'', True), st)" "bs_tokens st = []" using sample_delete_admitted by blast
  have m: "ar_method sample_delete = ''DELETE''" "en_caret sample_services = True" "ar_headers sample_delete gateway_target_header = None"
      "ar_headers sample_delete ''content-length'' = None"
    by (simp_all add: sample_delete_def sample_services_def gateway_target_header_def)
  note path = sample_delete_path(2) [folded sample_delete_path(1)]
  obtain t where url: "proxy_target_url True (ar_target sample_delete) sample_origin = Some t" "u_path t = ''/namespaces/demo''"
    by (simp add: proxy_target_url_eq path)
  have same: "u_path (target_of sample_delete True t) = ''/namespaces/demo''" by (simp add: target_of_def url)
  have stamped: "snd (stamp_gateway_target (en_target_mac sample_services) sample_deleting sample_delete)"
    by (simp add: stamp_gateway_target_def declared_target_def m Let_def)
  have short: "declared_length sample_delete = None" by (simp add: declared_length_def m)
  obtain cl where claims: "token_claims (token_inputs_of sample_deleting ?p) 1 ''j'' = Inr cl"
    by (simp add: token_claims_def token_inputs_of_def sample_deleting_def sample_bff_def static_principal_def blank_def js_trim_def
        white_space_def secret_bytes_def utf8_def max_safe_def normalize_audience_def normalize_namespaces_def)
  have reg: "registry_body sample_delete x ?p b = Inr None" for x b
    by (simp add: registry_body_def carries_request_body_def m)
  let ?w = "\<lparr>wt_request = sample_delete, wt_body = no_body, wt_principal = ?p, wt_target = target_of sample_delete True t\<rparr>"
  have start: "start_forwarding sample_services sample_deleting sample_origin sample_delete no_body ?p ''/namespaces/demo'' True = Inr ?w"
    by (simp add: start_forwarding_def stamped short url m(2))
  have sends: "\<exists>f. send_upstream sample_services ?w token = Inr f" for token
    by (simp add: send_upstream_def reg Let_def)
  let ?b = "proxy_step sample_services (Elsewhere (bs_auth signed_in_bff) empty_uploads empty_long_reads) new_run"
  have b: "br_state ?b = signed_in_bff" "br_awaiting ?b = []"
    by (simp_all add: new_run_def signed_in_bff_def fresh_bff_def)
  have run: "proxy_run sample_services deleting_run = fold (proxy_step sample_services) [ProxyArrive deleting_arrival, TokenReady 0 False] ?b"
    by (simp add: proxy_run_def deleting_run_def del: proxy_step.simps)
  obtain f token where f: "send_upstream sample_services ?w token = Inr f"
    "(signed_in_bff, deleting_arrival, f) \<in> set (br_sent (proxy_run sample_services deleting_run))"
    using sent_in_two_steps [of sample_services deleting_arrival ?b ?p "''/namespaces/demo''" True st ?w cl] adm start claims sends b
    unfolding run by (auto simp: deleting_arrival_def simp del: proxy_step.simps)
  have fp: "u_path (fw_url f) = ''/namespaces/demo''" using send_upstream_Inr [OF f(1)] same by simp
  have digest: "\<forall>i. en_digest sample_services i \<noteq> []" by (simp add: sample_services_def plain_digest_def)
  have start: "starts_with ''/namespaces/'' (u_path (fw_url f))" using fp by (simp add: starts_with_def)
  have r: "sample_delete = av_request deleting_arrival" by (simp add: deleting_arrival_def)
  have "raw_confirmations (raw_query sample_delete) \<noteq> []"
    unfolding raw_query_def sample_delete_path(1) by (rule sample_delete_path(4))
  with cascade_flag_is_the_authorized_one [OF f(2) digest r m(1) start] f(2) fp show ?thesis by blast
qed

section \<open>Refusals\<close>

lemma auth_ignores_target [simp]:
  "require_admin_auth mac cfg (r\<lparr>ar_target := t\<rparr>) now st = require_admin_auth mac cfg r now st"
proof -
  have sh: "single_header (r\<lparr>ar_target := t\<rparr>) = single_header r" by (simp add: single_header_def fun_eq_iff)
  have lk: "locked_ms cfg (r\<lparr>ar_target := t\<rparr>) = locked_ms cfg r" "throttle_key (r\<lparr>ar_target := t\<rparr>) = throttle_key r"
    "reject_locked_out cfg (r\<lparr>ar_target := t\<rparr>) = reject_locked_out cfg r"
    "note_auth_failure cfg (r\<lparr>ar_target := t\<rparr>) = note_auth_failure cfg r"
    by (simp_all add: locked_ms_def throttle_key_def reject_locked_out_def note_auth_failure_def fun_eq_iff)
  have ap: "asserted_principal cfg (r\<lparr>ar_target := t\<rparr>) = asserted_principal cfg r"
    unfolding asserted_principal_def sh by simp
  have tp: "trusted_proxy_principal cfg (r\<lparr>ar_target := t\<rparr>) now st' = trusted_proxy_principal cfg r now st'" for st'
    unfolding trusted_proxy_principal_def sh lk ap by simp
  have cp: "current_principal cfg (r\<lparr>ar_target := t\<rparr>) now st = current_principal cfg r now st"
    unfolding current_principal_def read_static_session_def tp by simp
  have cv: "csrf_is_valid mac cfg (r\<lparr>ar_target := t\<rparr>) now p s = csrf_is_valid mac cfg r now p s" for p s
    unfolding csrf_is_valid_def sh by simp
  show ?thesis unfolding require_admin_auth_def cp cv lk by simp
qed

lemma require_admin_auth_status:
  "fst (require_admin_auth mac cfg r now st) = Inl a \<Longrightarrow> reject_status (AuthReject a) \<in> {401, 403, 429}"
  by (auto simp: require_admin_auth_def reject_status_def reject_locked_out_def
      split: prod.splits proxied.splits if_splits)

lemma safe_path_status:
  "require_safe_proxy_path caret r p = Inl e \<Longrightarrow> reject_status e \<in> {400, 403}"
  by (auto simp: require_safe_proxy_path_def reject_status_def error_status_def
      split: option.splits if_splits sum.splits registry_error.splits)

lemma ceiling_status: "require_namespace_ceiling caret r p = Some a \<Longrightarrow> reject_status (AuthReject a) = 403"
  by (auto simp: require_namespace_ceiling_def reject_status_def split: option.splits if_splits)

lemma reserve_upload_refused: "fst (reserve_upload lims info u) = Some s \<Longrightarrow> snd (reserve_upload lims info u) = u"
  by (auto simp: reserve_upload_def Let_def split: option.splits if_splits)

lemma reserve_long_read_refused:
  "fst (reserve_long_read lims info lr) = Some s \<Longrightarrow> snd (reserve_long_read lims info lr) = lr \<and> is_long_read info"
  by (auto simp: reserve_long_read_def Let_def split: option.splits if_splits)

lemma long_reads_carry_no_body: "is_long_read info \<Longrightarrow> reserve_upload lims info u = (None, u)"
  by (auto simp: is_long_read_def reserve_upload_def carries_request_body_def)

text \<open>C19: A refused request costs nothing and tells nothing. When a hook refuses, the reply is one
  of 400, 401, 403 and 429; no token is signed, no permit stays reserved and no cached token is
  touched; and a refusal by authentication is the same whatever path was asked for, so an
  unauthenticated caller learns nothing about which paths exist, are unsafe or are denied.\<close>

theorem refusals_cost_and_tell_nothing:
  assumes "admit env cfg i destroyed r now st = (Inl e, st')"
  shows "reject_status e \<in> {400, 401, 403, 429} \<and>
    bs_tokens st' = bs_tokens st \<and> bs_uploads st' = bs_uploads st \<and> bs_reads st' = bs_reads st \<and>
    (\<forall>a t. fst (require_admin_auth (en_mac env) cfg r now (bs_auth st)) = Inl a \<longrightarrow>
       admit env cfg i destroyed (r\<lparr>ar_target := t\<rparr>) now st = (Inl e, st'))"
proof -
  obtain a au where adm: "require_admin_auth (en_mac env) cfg r now (bs_auth st) = (a, au)" by fastforce
  show ?thesis
  proof (cases a)
    case (Inl x)
    then show ?thesis using assms adm require_admin_auth_status [of "en_mac env" cfg r now "bs_auth st" x]
      by (auto simp: admit_def)
  next
    case (Inr p)
    show ?thesis
    proof (cases "require_safe_proxy_path (en_caret env) r p")
      case (Inl x)
      then show ?thesis using assms adm Inr safe_path_status [OF Inl] by (auto simp: admit_def Let_def)
    next
      case safe: (Inr confirmed)
      show ?thesis
      proof (cases "require_namespace_ceiling (en_caret env) r p")
        case (Some x)
        then show ?thesis using assms adm Inr safe ceiling_status [OF Some] by (auto simp: admit_def Let_def)
      next
        case None
        let ?info = "info_of i destroyed r (the (proxy_target_path (en_caret env) (ar_target r))) p"
        obtain s up where up: "reserve_upload (upload_limits_of cfg) ?info (bs_uploads st) = (s, up)" by fastforce
        obtain s' lr where lr: "reserve_long_read (long_read_limits_of cfg) ?info (bs_reads st) = (s', lr)" by fastforce
        show ?thesis
        proof (cases s)
          case (Some x)
          then show ?thesis using assms adm Inr safe None up reserve_upload_refused [of "upload_limits_of cfg" ?info "bs_uploads st" x]
            by (auto simp: admit_def Let_def reject_status_def)
        next
          case noup: None
          obtain y where y: "s' = Some y"
            using assms adm Inr safe None up noup lr by (cases s') (auto simp: admit_def Let_def)
          then have long: "is_long_read ?info" "lr = bs_reads st"
            using reserve_long_read_refused [of "long_read_limits_of cfg" ?info "bs_reads st" y] lr by simp_all
          then have "up = bs_uploads st" using up long_reads_carry_no_body [OF long(1)] by simp
          then show ?thesis using assms adm Inr safe None up noup lr y long(2)
            by (auto simp: admit_def Let_def reject_status_def)
        qed
      qed
    qed
  qed
qed

theorem refusals_cost_and_tell_nothing_witness:
  "\<exists>e st. admit sample_services sample_static 7 False sample_caller 1000 fresh_bff = (Inl e, st) \<and>
     bs_tokens st = bs_tokens fresh_bff \<and> bs_uploads st = bs_uploads fresh_bff"
proof -
  have "trusted_proxy_principal sample_static sample_caller 1000 fresh_auth = (Anonymous, fresh_auth)"
    by (simp add: trusted_proxy_principal_def sample_caller_def single_header_def)
  moreover have "cf_auth_mode sample_static = StaticMode" "ar_cookies sample_caller = (\<lambda>_. None)"
    by (simp_all add: sample_static_def sample_caller_def)
  ultimately have "require_admin_auth mac sample_static sample_caller 1000 fresh_auth = (Inl (Rejected 401 ''Unauthorized''), fresh_auth)" for mac
    by (simp add: require_admin_auth_def current_principal_def read_static_session_def)
  then obtain e st where out: "admit sample_services sample_static 7 False sample_caller 1000 fresh_bff = (Inl e, st)"
    by (simp add: admit_def fresh_bff_def)
  from refusals_cost_and_tell_nothing [OF out] out show ?thesis by blast
qed

end
