(* ===== verification/ResourceBaseline.thy ===== *)
theory ResourceBaseline
  imports Json JsString
begin

text \<open>
  Edit baselines of the console (\<open>src/lib/resourceBaseline.ts\<close>): the canonical form whose
  serialisation is the fingerprint, the reductions of a resource to what a write replaces, the
  three-way comparison of the conflict dialog, and what of a value it may show.
  A member set to \<open>undefined\<close> is absent here, as it is in the serialised text; a fingerprint is the
  canonical value, which \<open>JSON.stringify\<close> writes injectively. The model is of resources without a member
  named \<open>__proto__\<close>: \<open>ordered[key] = ...\<close> and \<open>snapshot[key] = ...\<close> would hand its value to the inherited setter and
  leave it out of the copy, where the definitions here keep it.
\<close>

type_synonym resource = "(string \<times> string json) list"

section \<open>Fingerprints\<close>

primrec canonicalize :: "string json \<Rightarrow> string json" where
  "canonicalize JNull = JNull"
| "canonicalize (JBool b) = JBool b"
| "canonicalize (JNum n) = JNum n"
| "canonicalize (JStr s) = JStr s"
| "canonicalize (JArr vs) = JArr (map canonicalize vs)"
| "canonicalize (JObj fs) = JObj (sort_key fst (map (map_prod id canonicalize) fs))"

definition resource_fingerprint :: "resource \<Rightarrow> string json" where
  "resource_fingerprint snapshot = canonicalize (JObj snapshot)"

section \<open>Reductions\<close>

definition server_managed_fields :: "string list" where
  "server_managed_fields = [''created_at'', ''updated_at'', ''namespace'', ''api_spec_id'']"

definition proxy_baseline_omit :: "string list" where
  "proxy_baseline_omit = server_managed_fields @ [''plugins'']"

definition upstream_baseline_omit :: "string list" where
  "upstream_baseline_omit = server_managed_fields @
     [''port_overrides'', ''source_locality'', ''source_labels'', ''locality_lb_setting'', ''locality_lb_strict'']"

definition consumer_baseline_omit :: "string list" where
  "consumer_baseline_omit = server_managed_fields @ [''credentials'', ''labels'']"

definition plugin_baseline_omit :: "string list" where
  "plugin_baseline_omit = server_managed_fields @ [''labels'']"

definition delete_baseline_omit :: "string list" where
  "delete_baseline_omit = server_managed_fields"

definition baseline_snapshot :: "resource \<Rightarrow> string list \<Rightarrow> resource" where
  "baseline_snapshot resource omit = filter (\<lambda>(k, v). k \<notin> set omit) resource"

definition baseline_fingerprint :: "resource \<Rightarrow> string list \<Rightarrow> string json" where
  "baseline_fingerprint resource omit = resource_fingerprint (baseline_snapshot resource omit)"

definition pick_snapshot :: "resource \<Rightarrow> string list \<Rightarrow> resource" where
  "pick_snapshot resource names =
     List.map_filter (\<lambda>f. map_option (Pair f) (map_of resource f)) (js_unique names)"

lemma snapshot_fingerprint:
  "resource_fingerprint (baseline_snapshot c omit) =
     JObj (filter (\<lambda>(k, v). k \<notin> set omit) (sort_key fst (map (map_prod id canonicalize) c)))"
  by (simp add: resource_fingerprint_def baseline_snapshot_def filter_sort filter_map comp_def case_prod_beta')

lemma snapshot_fingerprint_cong:
  "resource_fingerprint c = resource_fingerprint c' \<Longrightarrow>
   resource_fingerprint (baseline_snapshot c omit) = resource_fingerprint (baseline_snapshot c' omit)"
  unfolding snapshot_fingerprint by (simp add: resource_fingerprint_def)

section \<open>The conflict dialog\<close>

record difference =
  df_field :: string
  df_original :: "string json option"
  df_current :: "string json option"
  df_proposed :: "string json option"
  df_changed_upstream :: bool
  df_changed_locally :: bool

definition same_value :: "string json option \<Rightarrow> string json option \<Rightarrow> bool" where
  "same_value a b =
     (let left = (case a of None \<Rightarrow> JNull | Some v \<Rightarrow> v); right = (case b of None \<Rightarrow> JNull | Some v \<Rightarrow> v) in
      resource_fingerprint [(''v'', left)] = resource_fingerprint [(''v'', right)])"

definition compare_baselines :: "resource \<Rightarrow> resource \<Rightarrow> resource \<Rightarrow> difference list" where
  "compare_baselines original current proposed =
     List.map_filter (\<lambda>f.
        let o' = map_of original f; c = map_of current f; p = map_of proposed f;
            upstream = \<not> same_value o' c; locally = \<not> same_value o' p in
        if \<not> upstream \<and> \<not> locally then None
        else Some \<lparr>df_field = f, df_original = o', df_current = c, df_proposed = p,
                   df_changed_upstream = upstream, df_changed_locally = locally\<rparr>)
      (sort (remdups (map fst original @ map fst current @ map fst proposed)))"

section \<open>Hidden values\<close>

definition contains :: "string \<Rightarrow> string \<Rightarrow> bool" where
  "contains needle s \<longleftrightarrow> list_ex (\<lambda>i. starts_with needle (drop i s)) [0..<Suc (length s)]"

text \<open>\<open>REDACTED_FIELD_PATTERN\<close>, case-insensitive, read as its alternatives.\<close>

definition redacted_needles :: "string list" where
  "redacted_needles =
     [''secret'', ''password'', ''passphrase'', ''credential'', ''apikey'', ''api_key'', ''api-key'', ''clientkey'',
      ''client_key'', ''client-key'', ''privatekey'', ''private_key'', ''private-key'', ''token'', ''jwk'', ''hmac'',
      ''signature'', ''salt'', ''certificatepem'', ''certificate_pem'', ''certificate-pem'', ''authorization'',
      ''cookie'', ''bearer'']"

definition material_location :: "string \<Rightarrow> bool" where
  "material_location f \<longleftrightarrow> ends_with ''_path'' (js_lower f) \<or> ends_with ''_paths'' (js_lower f)"

definition is_redacted_field :: "string \<Rightarrow> bool" where
  "is_redacted_field f \<longleftrightarrow>
     \<not> material_location f \<and>
     (let l = js_lower f in
      list_ex (\<lambda>n. contains n l) redacted_needles \<or> ends_with ''_key'' l \<or> l = ''key'' \<or> ends_with ''_pem'' l)"

text \<open>\<open>/-{3,}\s*BEGIN/i\<close>: at least three dashes, white space, then \<open>BEGIN\<close>.\<close>

definition inline_pem :: "string \<Rightarrow> bool" where
  "inline_pem s \<longleftrightarrow>
     list_ex (\<lambda>i. starts_with ''---'' (drop i s) \<and>
        starts_with ''begin'' (js_lower (dropWhile white_space (dropWhile (\<lambda>c. c = CHR ''-'') (drop i s)))))
       [0..<Suc (length s)]"

fun carries_inline_pem :: "string json \<Rightarrow> bool" where
  "carries_inline_pem (JStr s) = inline_pem s"
| "carries_inline_pem (JArr vs) = (\<exists>v \<in> set vs. carries_inline_pem v)"
| "carries_inline_pem _ = False"

definition is_inline_material :: "string \<Rightarrow> string json \<Rightarrow> bool" where
  "is_inline_material f v \<longleftrightarrow> material_location f \<and> carries_inline_pem v"

definition is_redacted_value :: "string \<Rightarrow> string json \<Rightarrow> bool" where
  "is_redacted_value f v \<longleftrightarrow> is_redacted_field f \<or> is_inline_material f v"

definition redact_field_value :: "string \<Rightarrow> string json \<Rightarrow> string json" where
  "redact_field_value f v =
     (if \<not> is_redacted_value f v \<or> v = JNull \<or> v = JStr [] then v else JStr ''[redacted]'')"

text \<open>The nested values of one side as the dialog's \<open>JSON.stringify\<close> replacer leaves them.\<close>

primrec shown_nested :: "string json \<Rightarrow> string json" where
  "shown_nested JNull = JNull"
| "shown_nested (JBool b) = JBool b"
| "shown_nested (JNum n) = JNum n"
| "shown_nested (JStr s) = JStr s"
| "shown_nested (JArr vs) = JArr (map shown_nested vs)"
| "shown_nested (JObj fs) =
     JObj (map (\<lambda>((k, v), (_, shown)). (k, if redact_field_value k v = v then shown else redact_field_value k v))
       (zip fs (map (map_prod id shown_nested) fs)))"

datatype shown = Absent | ShownText string | ShownJson "string json"

definition format_baseline_value :: "string \<Rightarrow> string json option \<Rightarrow> shown" where
  "format_baseline_value f value =
     (case value of
        None \<Rightarrow> Absent
      | Some v \<Rightarrow>
          if is_redacted_value f v
          then (if v = JNull then ShownText ''null'' else if v = JStr [] then ShownText [CHR 34, CHR 34]
                else ShownText ''[redacted]'')
          else (case v of
                  JNull \<Rightarrow> ShownText ''null''
                | JStr s \<Rightarrow> ShownText (if s = [] then [CHR 34, CHR 34] else s)
                | _ \<Rightarrow> ShownJson (shown_nested v)))"

end
