(* ===== verification/ConditionalWrite.thy ===== *)
theory ConditionalWrite
  imports ResourceBaseline
begin

text \<open>
  Guarded full-replacement writes (\<open>src/api/conditionalWrite.ts\<close>): the usable validator of a read,
  the verify-then-write loop and its three uses. A resource and a payload are JSON objects; the
  gateway is an effect on a world \<open>'w\<close>, in which other writers may act before each request. The
  locale \<open>conditional_store\<close> states what the loop needs of the gateway: a tag names the content it
  was issued for, and a write that carries it commits over that content only.
\<close>

section \<open>Validators\<close>

definition strong_tag_char :: "char \<Rightarrow> bool" where
  "strong_tag_char c \<longleftrightarrow> of_char c = (33 :: nat) \<or> (35 \<le> (of_char c :: nat) \<and> (of_char c :: nat) \<le> 126)"

definition quote_char :: char where
  "quote_char = CHR 34"

definition strong_etag :: "string option \<Rightarrow> string option" where
  "strong_etag header =
     (case header of
        None \<Rightarrow> None
      | Some h \<Rightarrow>
          if 3 \<le> length h \<and> hd h = quote_char \<and> last h = quote_char \<and> list_all strong_tag_char (butlast (tl h))
          then Some h else None)"

lemma strong_etag_SomeD: "strong_etag h = Some t \<Longrightarrow> h = Some t"
  by (simp add: strong_etag_def split: option.splits if_splits)

lemma strong_etag_idem: "strong_etag h = Some t \<Longrightarrow> strong_etag (Some t) = Some t"
  using strong_etag_SomeD by fastforce

lemma strong_etag_shape:
  assumes "strong_etag h = Some t"
  obtains body where "t = quote_char # body @ [quote_char]" "body \<noteq> []" "list_all strong_tag_char body"
proof -
  have t: "3 \<le> length t" "hd t = quote_char" "last t = quote_char" "list_all strong_tag_char (butlast (tl t))"
    using assms by (auto simp: strong_etag_def split: option.splits if_splits)
  obtain b where b: "t = quote_char # b" using t(1,2) by (cases t) auto
  then have ne: "b \<noteq> []" using t(1) by auto
  then have "b = butlast b @ [quote_char]" using t(3) b append_butlast_last_id [of b] by simp
  moreover have "butlast b \<noteq> []" using t(1) b length_butlast [of b] by fastforce
  ultimately show ?thesis using that [of "butlast b"] b t(4) by simp
qed

section \<open>Failures and outcomes\<close>

datatype operation = Save | Remove

record stale_detail =
  sd_resource :: string
  sd_operation :: operation
  sd_id :: string
  sd_namespace :: string
  sd_original :: resource
  sd_current :: resource
  sd_proposed :: resource

datatype failure =
    HttpError nat
  | RedactedWrite "nat option"
  | StaleResource stale_detail
  | GuardVerification operation
  | OtherFailure string

fun is_precondition_failed :: "failure \<Rightarrow> bool" where
  "is_precondition_failed (RedactedWrite response) = (response = Some 412)"
| "is_precondition_failed (HttpError status) = (status = 412)"
| "is_precondition_failed _ = False"

definition is_refusal :: "failure \<Rightarrow> bool" where
  "is_refusal e = (case e of StaleResource _ \<Rightarrow> True | GuardVerification _ \<Rightarrow> True | _ \<Rightarrow> False)"

definition is_stale_resource_error :: "failure \<Rightarrow> bool" where
  "is_stale_resource_error e = (case e of StaleResource _ \<Rightarrow> True | _ \<Rightarrow> False)"

section \<open>Requests\<close>

record tagged_read =
  tr_value :: resource
  tr_etag :: "string option"

record response =
  rs_status :: nat
  rs_body :: resource
  rs_etag :: "string option"

definition read_tagged :: "response \<Rightarrow> failure + tagged_read" where
  "read_tagged r =
     (if 200 \<le> rs_status r \<and> rs_status r < 300
      then Inr \<lparr>tr_value = rs_body r, tr_etag = strong_etag (rs_etag r)\<rparr>
      else Inl (HttpError (rs_status r)))"

text \<open>What a request adds to the client's defaults: the \<open>If-Match\<close> header, the statuses kept out of
  the error popup, and whether the popup waits for redaction.\<close>

record write_request =
  wr_if_match :: "string option"
  wr_handled :: "nat list"
  wr_redact :: bool

definition conditional_handled :: "string option \<Rightarrow> nat list \<Rightarrow> nat list" where
  "conditional_handled if_match handled = (if if_match = None then [] else [412]) @ handled"

definition conditional_put :: "string option \<Rightarrow> bool \<Rightarrow> nat list \<Rightarrow> write_request" where
  "conditional_put if_match redact_errors handled =
     \<lparr>wr_if_match = if_match, wr_handled = conditional_handled if_match handled, wr_redact = redact_errors\<rparr>"

definition conditional_delete :: "string option \<Rightarrow> nat list \<Rightarrow> write_request" where
  "conditional_delete if_match handled =
     \<lparr>wr_if_match = if_match, wr_handled = conditional_handled if_match handled, wr_redact = False\<rparr>"

section \<open>The verify-then-write loop\<close>

record write_guard =
  wg_baseline :: resource
  wg_select :: "resource \<Rightarrow> resource"

definition uncompared_guard :: write_guard where
  "uncompared_guard = \<lparr>wg_baseline = [], wg_select = \<lambda>_. []\<rparr>"

type_synonym ('w, 'a) effect = "'w \<Rightarrow> (failure + 'a) \<times> 'w"

record ('w, 'p, 'b) attempt_options =
  ao_resource :: string
  ao_id :: string
  ao_namespace :: string
  ao_operation :: operation
  ao_require_initial_validator :: bool
  ao_guard :: write_guard
  ao_read :: "('w, tagged_read) effect"
  ao_propose :: "resource \<Rightarrow> failure + 'p"
  ao_proposed_snapshot :: "'p \<Rightarrow> resource"
  ao_write :: "'p \<Rightarrow> string option \<Rightarrow> ('w, 'b) effect"

definition precondition_attempts :: nat where
  "precondition_attempts = 3"

definition refusal :: "('w, 'p, 'b) attempt_options \<Rightarrow> resource \<Rightarrow> 'p \<Rightarrow> failure" where
  "refusal opt current proposed =
     StaleResource \<lparr>sd_resource = ao_resource opt, sd_operation = ao_operation opt, sd_id = ao_id opt,
       sd_namespace = ao_namespace opt, sd_original = wg_baseline (ao_guard opt), sd_current = current,
       sd_proposed = ao_proposed_snapshot opt proposed\<rparr>"

datatype 'b attempt_end = Settled "failure + 'b" | Overtaken failure

definition verified_attempt ::
  "('w, 'p, 'b) attempt_options \<Rightarrow> bool \<Rightarrow> 'w \<Rightarrow> 'b attempt_end \<times> 'w" where
  "verified_attempt opt precondition_failed w =
     (case ao_read opt w of
        (Inl e, w1) \<Rightarrow> (Settled (Inl e), w1)
      | (Inr rd, w1) \<Rightarrow>
          let etag = strong_etag (tr_etag rd) in
          if \<not> precondition_failed \<and> ao_require_initial_validator opt \<and> etag = None
          then (Settled (Inl (GuardVerification (ao_operation opt))), w1)
          else
            let current = wg_select (ao_guard opt) (tr_value rd) in
            (case ao_propose opt (tr_value rd) of
               Inl e \<Rightarrow> (Settled (Inl e), w1)
             | Inr proposed \<Rightarrow>
                 if resource_fingerprint current \<noteq> resource_fingerprint (wg_baseline (ao_guard opt))
                 then (Settled (Inl (refusal opt current proposed)), w1)
                 else if precondition_failed \<and> etag = None
                 then (Settled (Inl (refusal opt current proposed)), w1)
                 else (case ao_write opt proposed etag w1 of
                         (Inr b, w2) \<Rightarrow> (Settled (Inr b), w2)
                       | (Inl e, w2) \<Rightarrow>
                           if etag = None \<or> \<not> is_precondition_failed e then (Settled (Inl e), w2)
                           else (Overtaken (refusal opt current proposed), w2))))"

function verified_attempts_from ::
  "('w, 'p, 'b) attempt_options \<Rightarrow> nat \<Rightarrow> bool \<Rightarrow> ('w, 'b) effect" where
  "verified_attempts_from opt attempt precondition_failed w =
     (case verified_attempt opt precondition_failed w of
        (Settled r, w') \<Rightarrow> (r, w')
      | (Overtaken refused, w') \<Rightarrow>
          if precondition_attempts \<le> attempt then (Inl refused, w')
          else verified_attempts_from opt (Suc attempt) True w')"
  by pat_completeness auto
termination
  by (relation "measure (\<lambda>(_, attempt, _, _). precondition_attempts - attempt)") auto

declare verified_attempts_from.simps [simp del]

definition verified_attempts :: "('w, 'p, 'b) attempt_options \<Rightarrow> ('w, 'b) effect" where
  "verified_attempts opt = verified_attempts_from opt 1 False"

section \<open>Its three uses\<close>

record ('w, 'p, 'b) replace_options =
  ro_resource :: string
  ro_id :: string
  ro_namespace :: string
  ro_read :: "('w, tagged_read) effect"
  ro_propose :: "resource \<Rightarrow> failure + 'p"

definition guarded_replace ::
  "('w, resource, 'b) replace_options \<Rightarrow> write_guard \<Rightarrow> (resource \<Rightarrow> string \<Rightarrow> ('w, 'b) effect) \<Rightarrow> ('w, 'b) effect" where
  "guarded_replace opt guard write =
     verified_attempts
       \<lparr>ao_resource = ro_resource opt, ao_id = ro_id opt, ao_namespace = ro_namespace opt, ao_operation = Save,
        ao_require_initial_validator = True, ao_guard = guard, ao_read = ro_read opt, ao_propose = ro_propose opt,
        ao_proposed_snapshot = wg_select guard,
        ao_write = (\<lambda>payload if_match w.
           case if_match of None \<Rightarrow> (Inl (GuardVerification Save), w) | Some t \<Rightarrow> write payload t w)\<rparr>"

definition replace_from_read ::
  "('w, resource, 'b) replace_options \<Rightarrow> (resource \<Rightarrow> string option \<Rightarrow> ('w, 'b) effect) \<Rightarrow> ('w, 'b) effect" where
  "replace_from_read opt write =
     verified_attempts
       \<lparr>ao_resource = ro_resource opt, ao_id = ro_id opt, ao_namespace = ro_namespace opt, ao_operation = Save,
        ao_require_initial_validator = False, ao_guard = uncompared_guard, ao_read = ro_read opt,
        ao_propose = ro_propose opt, ao_proposed_snapshot = (\<lambda>_. []), ao_write = write\<rparr>"

definition guarded_remove ::
  "string \<Rightarrow> string \<Rightarrow> string \<Rightarrow> write_guard \<Rightarrow> ('w, tagged_read) effect \<Rightarrow> (string \<Rightarrow> ('w, unit) effect) \<Rightarrow> ('w, unit) effect" where
  "guarded_remove resource ident ns guard rd remove =
     verified_attempts
       \<lparr>ao_resource = resource, ao_id = ident, ao_namespace = ns, ao_operation = Remove,
        ao_require_initial_validator = True, ao_guard = guard, ao_read = rd, ao_propose = (\<lambda>_. Inr ()),
        ao_proposed_snapshot = (\<lambda>_. wg_baseline guard),
        ao_write = (\<lambda>_ if_match w.
           case if_match of None \<Rightarrow> (Inl (GuardVerification Remove), w) | Some t \<Rightarrow> remove t w)\<rparr>"

section \<open>The gateway's contract\<close>

text \<open>
  \<open>log\<close> is a ghost: the content each of this client's committed writes replaced, and what was written.
  \<open>view\<close> is what a read of a stored content shows. An answer lost on the way may hide a commit, so an
  error other than the refused precondition says nothing of the log.
\<close>

locale conditional_store =
  fixes rd :: "('w, tagged_read) effect"
    and wr :: "'p \<Rightarrow> string \<Rightarrow> ('w, 'b) effect"
    and tag :: "'c \<Rightarrow> string"
    and view :: "'c \<Rightarrow> resource"
    and log :: "'w \<Rightarrow> ('c \<times> 'p) list"
  assumes read_silent: "log (snd (rd w)) = log w"
    and read_tags: "rd w = (Inr r, w') \<Longrightarrow> strong_etag (tr_etag r) = Some t \<Longrightarrow> \<exists>c. tr_value r = view c \<and> t = tag c"
    and write_commits: "wr p t w = (res, w') \<Longrightarrow> strong_etag (Some t) = Some t \<Longrightarrow>
      log w' = log w \<or> (\<exists>c. tag c = t \<and> log w' = log w @ [(c, p)])"
    and refused_silent: "wr p t w = (Inl e, w') \<Longrightarrow> strong_etag (Some t) = Some t \<Longrightarrow>
      is_precondition_failed e \<or> is_refusal e \<Longrightarrow> log w' = log w"
    and acknowledged: "wr p t w = (Inr b, w') \<Longrightarrow> strong_etag (Some t) = Some t \<Longrightarrow> log w' \<noteq> log w"
begin

text \<open>What one commit may do: it replaces content whose compared part is the baseline, with what the
  editor proposes for a read the gateway tags alike.\<close>

definition verified :: "('w, 'p, 'b) attempt_options \<Rightarrow> 'c \<times> 'p \<Rightarrow> bool" where
  "verified opt commit \<longleftrightarrow>
     (\<exists>c0. tag c0 = tag (fst commit) \<and> ao_propose opt (view c0) = Inr (snd commit) \<and>
           resource_fingerprint (wg_select (ao_guard opt) (view c0)) = resource_fingerprint (wg_baseline (ao_guard opt)))"

definition guards :: "('w, 'p, 'b) attempt_options \<Rightarrow> bool" where
  "guards opt \<longleftrightarrow>
     ao_read opt = rd \<and> (\<forall>p t w. ao_write opt p (Some t) w = wr p t w) \<and> ao_require_initial_validator opt"

definition settles :: "('w, 'p, 'b) attempt_options \<Rightarrow> 'w \<Rightarrow> failure + 'b \<Rightarrow> 'w \<Rightarrow> bool" where
  "settles opt w r w' \<longleftrightarrow>
     (log w' = log w \<and> (\<exists>e. r = Inl e)) \<or>
     (\<exists>commit. verified opt commit \<and> log w' = log w @ [commit] \<and> (\<forall>e. r = Inl e \<longrightarrow> \<not> is_refusal e))"

lemma settles_silent: "log w' = log w \<Longrightarrow> settles opt w (Inl e) w'"
  by (simp add: settles_def)

lemma settles_write:
  assumes wr: "wr p t w1 = (res, w2)" and t: "strong_etag (Some t) = Some t" and l1: "log w1 = log w"
    and c0: "t = tag c0" "ao_propose opt (view c0) = Inr p"
      "resource_fingerprint (wg_select (ao_guard opt) (view c0)) = resource_fingerprint (wg_baseline (ao_guard opt))"
  shows "settles opt w res w2"
proof (cases "log w2 = log w1")
  case True
  then obtain e where "res = Inl e" using acknowledged [OF _ t] wr by (cases res) blast+
  then show ?thesis using True l1 by (simp add: settles_silent)
next
  case False
  then obtain c where c: "tag c = t" "log w2 = log w1 @ [(c, p)]" using write_commits [OF wr t] by blast
  then have "verified opt (c, p)" using c0 by (auto simp: verified_def)
  moreover have "\<not> is_refusal e" if "res = Inl e" for e using refused_silent [of p t w1 e w2] wr t False that by blast
  ultimately show ?thesis using c(2) l1 by (auto simp: settles_def)
qed

lemma attempt_settles:
  assumes g: "guards opt" and run: "verified_attempt opt failed w = (Settled r, w')"
  shows "settles opt w r w'"
proof -
  have rd: "ao_read opt = rd" and wr: "\<And>p t. ao_write opt p (Some t) = wr p t"
    and req: "ao_require_initial_validator opt" using g by (auto simp: guards_def)
  obtain x w1 where x: "rd w = (x, w1)" by fastforce
  have l1: "log w1 = log w" using read_silent [of w] x by simp
  note run' = run [unfolded verified_attempt_def rd x Let_def]
  show ?thesis
  proof (cases x)
    case (Inl e)
    then show ?thesis using run' l1 by (auto simp: settles_silent)
  next
    case (Inr a)
    show ?thesis
    proof (cases "strong_etag (tr_etag a)")
      case None
      then show ?thesis using run' Inr l1 req by (auto simp: settles_silent split: sum.splits if_splits)
    next
      case (Some t)
      obtain c0 where c0: "tr_value a = view c0" "t = tag c0" using read_tags x Inr Some by blast
      show ?thesis
      proof (cases "ao_propose opt (tr_value a)")
        case (Inl e)
        then show ?thesis using run' \<open>x = Inr a\<close> Some l1 by (auto simp: settles_silent)
      next
        case (Inr p)
        obtain res w2 where w2: "wr p t w1 = (res, w2)" by fastforce
        show ?thesis
        proof (cases "resource_fingerprint (wg_select (ao_guard opt) (tr_value a)) =
                      resource_fingerprint (wg_baseline (ao_guard opt))")
          case True
          have "settles opt w res w2"
            by (rule settles_write [OF w2 strong_etag_idem [OF Some] l1 c0(2)]) (use Inr True c0 in simp_all)
          then show ?thesis using run' \<open>x = Inr a\<close> Some Inr True w2 by (auto simp: wr split: sum.splits if_splits)
        next
          case False
          then show ?thesis using run' \<open>x = Inr a\<close> Some Inr l1 by (auto simp: settles_silent)
        qed
      qed
    qed
  qed
qed

lemma attempt_overtaken:
  assumes g: "guards opt" and run: "verified_attempt opt failed w = (Overtaken refused, w')"
  shows "log w' = log w"
proof -
  have rd: "ao_read opt = rd" and wr: "\<And>p t. ao_write opt p (Some t) = wr p t"
    using g by (auto simp: guards_def)
  obtain x w1 where x: "rd w = (x, w1)" by fastforce
  have l1: "log w1 = log w" using read_silent [of w] x by simp
  note run' = run [unfolded verified_attempt_def rd x Let_def]
  obtain a t p e where w: "x = Inr a" "strong_etag (tr_etag a) = Some t" "wr p t w1 = (Inl e, w')" "is_precondition_failed e"
    using run' by (auto simp: wr split: sum.splits if_splits prod.splits option.splits)
  show ?thesis using refused_silent [OF w(3) strong_etag_idem [OF w(2)]] w(4) l1 by simp
qed

lemma loop_settles:
  assumes "guards opt" "verified_attempts_from opt n failed w = (r, w')"
  shows "settles opt w r w'"
  using assms
proof (induction opt n failed w rule: verified_attempts_from.induct)
  case (1 opt n failed w)
  obtain e w1 where a: "verified_attempt opt failed w = (e, w1)" by fastforce
  show ?case
  proof (cases e)
    case (Settled x)
    then show ?thesis using a "1.prems" attempt_settles verified_attempts_from.simps [of opt n failed w] by simp
  next
    case (Overtaken refused)
    have l: "log w1 = log w" using attempt_overtaken "1.prems"(1) a Overtaken by simp
    show ?thesis
    proof (cases "precondition_attempts \<le> n")
      case True
      then show ?thesis using a Overtaken "1.prems"(2) l verified_attempts_from.simps [of opt n failed w]
        by (auto simp: settles_silent)
    next
      case False
      have "verified_attempts_from opt (Suc n) True w1 = (r, w')"
        using a Overtaken "1.prems"(2) False verified_attempts_from.simps [of opt n failed w] by simp
      then have "settles opt w1 r w'" using "1.IH" [OF a [symmetric] _ False] Overtaken "1.prems"(1) by simp
      then show ?thesis by (simp add: settles_def l)
    qed
  qed
qed

end

end
