(* ===== verification/MaskedSecrets.thy ===== *)
theory MaskedSecrets
  imports ResourceBaseline
begin

text \<open>
  Masked secrets in role-projected reads (\<open>src/api/maskedSecrets.ts\<close>): which values are redaction
  placeholders, which keys Edge's name floor withholds, the JSON pointers of the placeholders of a
  document, clearing one of them, and the sites Edge's projection refuses. Parsing an absolute URL is a
  parameter.
\<close>

section \<open>Placeholders\<close>

record parsed_url =
  pu_username :: string
  pu_password :: string
  pu_pathname :: string
  pu_search :: string
  pu_hash :: string

type_synonym url_parser = "string \<Rightarrow> parsed_url option"

definition is_redaction_placeholder :: "url_parser \<Rightarrow> string json \<Rightarrow> bool" where
  "is_redaction_placeholder parse v =
     (case v of
        JStr s \<Rightarrow>
          s = ''[REDACTED]'' \<or>
          (case parse s of
             None \<Rightarrow> False
           | Some u \<Rightarrow>
               (pu_username u = ''redacted'' \<and> pu_password u = []) \<or> pu_pathname u = ''/[REDACTED_PATH]'' \<or>
               pu_search u = ''?[REDACTED_QUERY]'' \<or> pu_hash u = ''#[REDACTED_FRAGMENT]'')
      | _ \<Rightarrow> False)"

section \<open>Edge's name floor\<close>

definition key_separator :: "char \<Rightarrow> bool" where
  "key_separator c \<longleftrightarrow> c = CHR ''-'' \<or> c = CHR ''.'' \<or> c = CHR ''_''"

definition normalize_config_key :: "string \<Rightarrow> string" where
  "normalize_config_key key = js_lower (filter (\<lambda>c. \<not> key_separator c) key)"

definition upper :: "char \<Rightarrow> bool" where
  "upper c \<longleftrightarrow> letter c \<and> lower_char c \<noteq> c"

definition lower_or_digit :: "char \<Rightarrow> bool" where
  "lower_or_digit c \<longleftrightarrow> (letter c \<and> lower_char c = c) \<or> digit c"

definition lower_letter :: "char \<Rightarrow> bool" where
  "lower_letter c \<longleftrightarrow> letter c \<and> lower_char c = c"

text \<open>One match of the word pattern at the head of \<open>s\<close>: its length. The first alternative backs off from the
  run of capitals to the one before a capitalised word.\<close>

definition key_word :: "string \<Rightarrow> nat option" where
  "key_word s =
     (let caps = takeWhile upper s; n = length caps; after = drop n s in
      if 2 \<le> n \<and> after \<noteq> [] \<and> lower_letter (hd after) then Some (n - 1)
      else let start = (if caps = [] then 0 else 1); run = takeWhile lower_or_digit (drop start s) in
        if n \<le> 1 \<and> run \<noteq> [] then Some (start + length run)
        else let word = takeWhile (\<lambda>c. upper c \<or> digit c) s in
          if word = [] then None else Some (length word))"

function key_segments :: "string \<Rightarrow> string list" where
  "key_segments s =
     (if s = [] then []
      else case key_word s of
             Some (Suc n) \<Rightarrow> take (Suc n) s # key_segments (drop (Suc n) s)
           | _ \<Rightarrow> key_segments (tl s))"
  by pat_completeness auto
termination
  by (relation "measure length") (auto simp: neq_Nil_conv)

declare key_segments.simps [simp del]
definition sensitive_metadata_substrings :: "string list" where
  "sensitive_metadata_substrings =
     [''authorization'', ''cookie'', ''set-cookie'', ''x-api-key'', ''x-auth-token'', ''x-csrf-token'',
      ''cache_request_headers_snapshot'', ''grpc_web_shadowed_trailers'', ''claim_header.'', ''bearer'', ''password'',
      ''secret'', ''last_event_id'', ''last-event-id'']"

definition sensitive_normalized_substrings :: "string list" where
  "sensitive_normalized_substrings =
     [''integritykey'', ''apikey'', ''accesskey'', ''functionkey'', ''clientsecret'', ''credential'', ''privatekey'',
      ''serviceaccountjson'', ''webhook'']"

definition is_edge_sensitive_config_key :: "string \<Rightarrow> bool" where
  "is_edge_sensitive_config_key key \<longleftrightarrow>
     (let lower = js_lower key; segments = map js_lower (key_segments key); normalized = normalize_config_key key in
      starts_with ''mesh.metrics.'' lower \<or>
      lower = ''grpc_web.request_trailers'' \<or>
      (starts_with ''_'' key \<and> segments \<noteq> [] \<and> hd segments = ''dedup'') \<or>
      list_ex (\<lambda>needle. contains needle lower) sensitive_metadata_substrings \<or>
      ''token'' \<in> set segments \<or>
      ''apikey'' \<in> set segments \<or>
      (''api'' \<in> set segments \<and> ''key'' \<in> set segments) \<or>
      normalized = ''key'' \<or>
      list_ex (\<lambda>needle. contains needle normalized) sensitive_normalized_substrings)"

section \<open>JSON pointers\<close>

definition pointer_segment :: "string \<Rightarrow> string" where
  "pointer_segment key =
     concat (map (\<lambda>c. if c = CHR ''/'' then ''~1'' else [c])
       (concat (map (\<lambda>c. if c = CHR ''~'' then ''~0'' else [c]) key)))"

fun replace_pair :: "char \<Rightarrow> char \<Rightarrow> char \<Rightarrow> string \<Rightarrow> string" where
  "replace_pair a b r (x # y # s) = (if x = a \<and> y = b then r # replace_pair a b r s else x # replace_pair a b r (y # s))"
| "replace_pair a b r s = s"

definition unescape_segment :: "string \<Rightarrow> string" where
  "unescape_segment segment =
     replace_pair (CHR ''~'') (CHR ''0'') (CHR ''~'') (replace_pair (CHR ''~'') (CHR ''1'') (CHR ''/'') segment)"

text \<open>The places of the placeholders of a value, in document order, as pointers prefixed with \<open>base\<close>.\<close>

primrec placeholder_pointers :: "url_parser \<Rightarrow> string json \<Rightarrow> string \<Rightarrow> string list" where
  "placeholder_pointers parse JNull base = []"
| "placeholder_pointers parse (JBool b) base = []"
| "placeholder_pointers parse (JNum n) base = []"
| "placeholder_pointers parse (JStr s) base = (if is_redaction_placeholder parse (JStr s) then [base] else [])"
| "placeholder_pointers parse (JArr vs) base =
     concat (map (\<lambda>(i, pointers). pointers (base @ ''/'' @ show_nat i)) (enumerate 0 (map (placeholder_pointers parse) vs)))"
| "placeholder_pointers parse (JObj fs) base =
     concat (map (\<lambda>(k, pointers). pointers (base @ ''/'' @ pointer_segment k)) (map (map_prod id (placeholder_pointers parse)) fs))"

definition plugin_config_placeholder_pointers :: "url_parser \<Rightarrow> string json option \<Rightarrow> string list" where
  "plugin_config_placeholder_pointers parse config =
     (case config of None \<Rightarrow> [] | Some v \<Rightarrow> placeholder_pointers parse v ''/config'')"

definition upstream_consul_token_pointer :: string where
  "upstream_consul_token_pointer = ''/service_discovery/consul/token''"

definition upstream_placeholder_pointers :: "url_parser \<Rightarrow> resource \<Rightarrow> string list" where
  "upstream_placeholder_pointers parse upstream =
     (case Option.bind (jm_get upstream ''service_discovery'') (\<lambda>d. Option.bind (jfield ''consul'' d) (jfield ''token'')) of
        Some t \<Rightarrow> if is_redaction_placeholder parse t then [upstream_consul_token_pointer] else []
      | None \<Rightarrow> [])"

definition array_index :: "string \<Rightarrow> bool" where
  "array_index s \<longleftrightarrow> s \<noteq> [] \<and> list_all digit s \<and> (hd s \<noteq> CHR ''0'' \<or> s = ''0'')"

fun remove_segments :: "string list \<Rightarrow> string json \<Rightarrow> string json" where
  "remove_segments [] node = node"
| "remove_segments (segment # rest) node =
     (case node of
        JArr vs \<Rightarrow>
          if \<not> array_index segment \<or> length vs \<le> decimal segment then node
          else if rest = [] then JArr (take (decimal segment) vs @ drop (Suc (decimal segment)) vs)
          else JArr (vs[decimal segment := remove_segments rest (vs ! decimal segment)])
      | JObj fs \<Rightarrow>
          (case jm_get fs segment of
             None \<Rightarrow> node
           | Some child \<Rightarrow>
               if rest = [] then JObj (jm_delete segment fs)
               else JObj (jm_set segment (remove_segments rest child) fs))
      | _ \<Rightarrow> node)"

definition remove_at_pointer :: "string json \<Rightarrow> string \<Rightarrow> string json option" where
  "remove_at_pointer v pointer =
     (case pointer of
        [] \<Rightarrow> None
      | c # _ \<Rightarrow>
          if c \<noteq> CHR ''/'' then Some v
          else Some (remove_segments (map unescape_segment (tl (split_on (CHR ''/'') pointer))) v))"

section \<open>Refusals\<close>

record refusal_text =
  rt_pointers :: "string list"
  rt_role :: "string option"
  rt_local :: bool

text \<open>The first place \<open>needle\<close> occurs at or after \<open>n\<close>.\<close>

definition index_from :: "string \<Rightarrow> nat \<Rightarrow> string \<Rightarrow> nat option" where
  "index_from needle n s = List.find (\<lambda>i. starts_with needle (drop i s)) [n..<Suc (length s)]"

definition split_text :: "string \<Rightarrow> string \<Rightarrow> string \<times> string option" where
  "split_text needle s =
     (case index_from needle 0 s of
        None \<Rightarrow> (s, None)
      | Some i \<Rightarrow> (take i s, Some (drop (i + length needle) s)))"
definition refusal_at :: "string \<Rightarrow> (string \<times> string) option" where
  "refusal_at rest =
     (let mid = '' carry the redaction placeholder that '' @ [CHR 39]; tail = CHR 39 # '' reads return'' in
      Option.bind
        (List.find (\<lambda>j. starts_with mid (drop j rest) \<and>
             starts_with tail (dropWhile (\<lambda>c. c \<noteq> CHR 39) (drop (j + length mid) rest))) [1..<Suc (length rest)])
        (\<lambda>j. Some (take j rest, takeWhile (\<lambda>c. c \<noteq> CHR 39) (drop (j + length mid) rest))))"

definition edge_refusal :: "string \<Rightarrow> (string \<times> string) option" where
  "edge_refusal message =
     Option.bind
       (List.find (\<lambda>i. starts_with ''field(s) '' (drop i message) \<and> refusal_at (drop (i + 9) message) \<noteq> None)
          [0..<Suc (length message)])
       (\<lambda>i. refusal_at (drop (i + 9) message))"

lemma split_text_shorter:
  assumes "split_text needle s = (p, Some r)" "needle \<noteq> []"
  shows "length r < length s"
proof -
  obtain i where i: "index_from needle 0 s = Some i" "r = drop (i + length needle) s"
    using assms(1) by (auto simp: split_text_def split: option.splits)
  have "starts_with needle (drop i s)" using i(1) by (auto simp: index_from_def find_Some_iff)
  then have "drop i s \<noteq> []" using assms(2) by (auto simp: starts_with_iff)
  then have "0 < length s" by auto
  then show ?thesis using i(2) assms(2) by simp
qed

function split_text_on :: "string \<Rightarrow> string \<Rightarrow> string list" where
  "split_text_on needle s =
     (case split_text needle s of
        (p, Some r) \<Rightarrow> if needle = [] then [s] else p # split_text_on needle r
      | (p, None) \<Rightarrow> [p])"
  by pat_completeness auto
termination
  by (relation "measure (\<lambda>(_, s). length s)") (auto dest!: split_text_shorter [OF sym])

declare split_text_on.simps [simp del]

definition parse_masked_placeholder_message :: "string \<Rightarrow> refusal_text option" where
  "parse_masked_placeholder_message message =
     (case edge_refusal message of
        None \<Rightarrow> None
      | Some (pointers, role) \<Rightarrow>
          Some \<lparr>rt_pointers = split_text_on '', '' pointers, rt_role = Some role, rt_local = False\<rparr>)"

text \<open>A JSON text that denotes a string is longer than it, which ends the recursion.\<close>

function error_text :: "(string \<Rightarrow> string json option) \<Rightarrow> string json \<Rightarrow> string" where
  "error_text parse v =
     (case v of
        JStr s \<Rightarrow>
          (case parse s of
             None \<Rightarrow> s
           | Some (JStr s') \<Rightarrow> if length s' < length s then error_text parse (JStr s') else []
           | Some w \<Rightarrow> (case jfield ''error'' w of Some (JStr e) \<Rightarrow> e | _ \<Rightarrow> []))
      | w \<Rightarrow> (case jfield ''error'' w of Some (JStr e) \<Rightarrow> e | _ \<Rightarrow> []))"
  by pat_completeness auto
termination
  by (relation "measure (\<lambda>(_, v). case v of JStr s \<Rightarrow> length s | _ \<Rightarrow> 0)") auto

datatype error_link = MaskedWrite "string list" | HttpLink "nat option" "string json option"

fun masked_refusal_in :: "(string \<Rightarrow> string json option) \<Rightarrow> error_link list \<Rightarrow> refusal_text option" where
  "masked_refusal_in parse [] = None"
| "masked_refusal_in parse (MaskedWrite pointers # chain) =
     Some \<lparr>rt_pointers = pointers, rt_role = None, rt_local = True\<rparr>"
| "masked_refusal_in parse (HttpLink status data # chain) =
     (case (if status = Some 400
            then parse_masked_placeholder_message (case data of None \<Rightarrow> [] | Some d \<Rightarrow> error_text parse d) else None) of
        Some refused \<Rightarrow> Some refused
      | None \<Rightarrow> masked_refusal_in parse chain)"

definition masked_placeholder_refusal :: "(string \<Rightarrow> string json option) \<Rightarrow> error_link list \<Rightarrow> refusal_text option" where
  "masked_placeholder_refusal parse chain = masked_refusal_in parse (take 8 chain)"

section \<open>The sites Edge refuses\<close>

datatype sensitivity = Secret | Endpoint | Redis | Kafka

record sensitivity_rule =
  sr_path :: "string list"
  sr_sensitivity :: sensitivity

record site_log =
  sl_visited :: "string list"
  sl_sites :: "string list"

type_synonym 'a rendering = "site_log \<Rightarrow> 'a \<times> site_log"

primrec in_turn :: "'a rendering list \<Rightarrow> 'a list rendering" where
  "in_turn [] st = ([], st)"
| "in_turn (f # fs) st = (let (x, st1) = f st; (xs, st2) = in_turn fs st1 in (x # xs, st2))"

definition render :: "url_parser \<Rightarrow> string \<Rightarrow> string json \<Rightarrow> string json rendering" where
  "render parse pointer v st =
     (JStr ''[REDACTED]'',
      if pointer \<in> set (sl_visited st) then st
      else \<lparr>sl_visited = sl_visited st @ [pointer],
            sl_sites = sl_sites st @ (if is_redaction_placeholder parse v then [pointer] else [])\<rparr>)"

definition kafka_safe :: "string list \<Rightarrow> string \<Rightarrow> bool" where
  "kafka_safe safe property \<longleftrightarrow> js_lower (js_trim property) \<in> set safe"

definition apply_sensitivity ::
  "url_parser \<Rightarrow> string list \<Rightarrow> string \<Rightarrow> sensitivity \<Rightarrow> string json \<Rightarrow> string json rendering" where
  "apply_sensitivity parse safe pointer s v st =
     (if v = JNull then (v, st)
      else case (s, v) of
        (Kafka, JObj fs) \<Rightarrow>
          map_prod JObj id (in_turn (map (\<lambda>(k, w) st.
            if kafka_safe safe k \<or> w = JNull then ((k, w), st)
            else map_prod (Pair k) id (render parse (pointer @ ''/'' @ pointer_segment k) w st)) fs) st)
      | _ \<Rightarrow> render parse pointer v st)"

primrec apply_rule ::
  "url_parser \<Rightarrow> string list \<Rightarrow> string json \<Rightarrow> string \<Rightarrow> string list \<Rightarrow> sensitivity \<Rightarrow> string json rendering" where
  "apply_rule parse safe JNull pointer path s = (\<lambda>st. (JNull, st))"
| "apply_rule parse safe (JBool b) pointer path s = apply_sensitivity parse safe pointer (if path = [] then s else Secret) (JBool b)"
| "apply_rule parse safe (JNum n) pointer path s = apply_sensitivity parse safe pointer (if path = [] then s else Secret) (JNum n)"
| "apply_rule parse safe (JStr t) pointer path s = apply_sensitivity parse safe pointer (if path = [] then s else Secret) (JStr t)"
| "apply_rule parse safe (JArr vs) pointer path s =
     (if path = [] then apply_sensitivity parse safe pointer s (JArr vs)
      else (\<lambda>st. map_prod JArr id
        (in_turn (map (\<lambda>(i, f). f (pointer @ ''/'' @ show_nat i) (if hd path = ''*'' then tl path else path) s)
          (enumerate 0 (map (apply_rule parse safe) vs))) st)))"
| "apply_rule parse safe (JObj fs) pointer path s =
     (if path = [] then apply_sensitivity parse safe pointer s (JObj fs)
      else (\<lambda>st. map_prod JObj id
        (in_turn (map (\<lambda>((k, v), (_, f)) st.
           if hd path \<noteq> ''*'' \<and> normalize_config_key k \<noteq> normalize_config_key (hd path) then ((k, v), st)
           else map_prod (Pair k) id (f (pointer @ ''/'' @ pointer_segment k) (tl path) s st))
          (zip fs (map (map_prod id (apply_rule parse safe)) fs))) st)))"

primrec by_name :: "url_parser \<Rightarrow> string list \<Rightarrow> string json \<Rightarrow> string \<Rightarrow> string json rendering" where
  "by_name parse safe JNull pointer = Pair JNull"
| "by_name parse safe (JBool b) pointer = Pair (JBool b)"
| "by_name parse safe (JNum n) pointer = Pair (JNum n)"
| "by_name parse safe (JStr t) pointer = Pair (JStr t)"
| "by_name parse safe (JArr vs) pointer =
     (\<lambda>st. map_prod JArr id
        (in_turn (map (\<lambda>(i, f). f (pointer @ ''/'' @ show_nat i)) (enumerate 0 (map (by_name parse safe) vs))) st))"
| "by_name parse safe (JObj fs) pointer =
     (\<lambda>st. map_prod JObj id
        (in_turn (map (\<lambda>((k, v), (_, f)) st. map_prod (Pair k) id
           (let child = pointer @ ''/'' @ pointer_segment k in
            if is_edge_sensitive_config_key k then apply_sensitivity parse safe child Secret v st
            else if normalize_config_key k = ''redisurl'' then apply_sensitivity parse safe child Redis v st
            else f child st))
          (zip fs (map (map_prod id (by_name parse safe)) fs))) st))"

definition carries_userinfo :: "url_parser \<Rightarrow> string \<Rightarrow> bool" where
  "carries_userinfo parse s =
     (case parse s of None \<Rightarrow> False | Some u \<Rightarrow> pu_username u \<noteq> [] \<or> pu_password u \<noteq> [])"

primrec sweep :: "url_parser \<Rightarrow> string json \<Rightarrow> string \<Rightarrow> string json rendering" where
  "sweep parse JNull pointer = Pair JNull"
| "sweep parse (JBool b) pointer = Pair (JBool b)"
| "sweep parse (JNum n) pointer = Pair (JNum n)"
| "sweep parse (JStr t) pointer =
     (if carries_userinfo parse t then render parse pointer (JStr t) else Pair (JStr t))"
| "sweep parse (JArr vs) pointer =
     (\<lambda>st. map_prod JArr id
        (in_turn (map (\<lambda>(i, f). f (pointer @ ''/'' @ show_nat i)) (enumerate 0 (map (sweep parse) vs))) st))"
| "sweep parse (JObj fs) pointer =
     (\<lambda>st. map_prod JObj id
        (in_turn (map (\<lambda>(k, f) st. map_prod (Pair k) id (f (pointer @ ''/'' @ pointer_segment k) st))
          (map (map_prod id (sweep parse)) fs)) st))"

definition refused_placeholder_sites ::
  "url_parser \<Rightarrow> sensitivity_rule list option \<Rightarrow> string list \<Rightarrow> string json option \<Rightarrow> string list" where
  "refused_placeholder_sites parse rules safe config =
     (case rules of
        None \<Rightarrow> plugin_config_placeholder_pointers parse config
      | Some rs \<Rightarrow>
          (case config of
             None \<Rightarrow> []
           | Some JNull \<Rightarrow> []
           | Some (JObj fs) \<Rightarrow>
               let (v1, st1) = fold (\<lambda>r (v, st). apply_rule parse safe v ''/config'' (sr_path r) (sr_sensitivity r) st) rs
                                 (JObj fs, \<lparr>sl_visited = [], sl_sites = []\<rparr>);
                   (v2, st2) = by_name parse safe v1 ''/config'' st1 in
               sl_sites (snd (sweep parse v2 ''/config'' st2))
           | Some v \<Rightarrow> sl_sites (snd (render parse ''/config'' v \<lparr>sl_visited = [], sl_sites = []\<rparr>))))"

section \<open>Pointers name the hidden fields\<close>

text \<open>The places of a value as lists of keys and indices.\<close>

primrec sites_of :: "url_parser \<Rightarrow> string json \<Rightarrow> string list list" where
  "sites_of parse JNull = []"
| "sites_of parse (JBool b) = []"
| "sites_of parse (JNum n) = []"
| "sites_of parse (JStr s) = (if is_redaction_placeholder parse (JStr s) then [[]] else [])"
| "sites_of parse (JArr vs) = concat (map (\<lambda>(i, ps). map (Cons (show_nat i)) ps) (enumerate 0 (map (sites_of parse) vs)))"
| "sites_of parse (JObj fs) = concat (map (\<lambda>(k, ps). map (Cons k) ps) (map (map_prod id (sites_of parse)) fs))"

definition pointer_text :: "string list \<Rightarrow> string" where
  "pointer_text segments = concat (map (\<lambda>s. ''/'' @ pointer_segment s) segments)"

fun value_at :: "string list \<Rightarrow> string json \<Rightarrow> string json option" where
  "value_at [] v = Some v"
| "value_at (segment # rest) v =
     (case v of
        JArr vs \<Rightarrow> if array_index segment \<and> decimal segment < length vs then value_at rest (vs ! decimal segment) else None
      | JObj fs \<Rightarrow> Option.bind (jm_get fs segment) (value_at rest)
      | _ \<Rightarrow> None)"

primrec json_ok :: "string json \<Rightarrow> bool" where
  "json_ok JNull = True"
| "json_ok (JBool b) = True"
| "json_ok (JNum n) = True"
| "json_ok (JStr s) = True"
| "json_ok (JArr vs) = list_all id (map json_ok vs)"
| "json_ok (JObj fs) = (distinct (map fst fs) \<and> list_all snd (map (map_prod id json_ok) fs))"

text \<open>A pointer read back gives the keys it was written from.\<close>

lemma pointer_segment_Cons:
  "pointer_segment (c # s) =
     (if c = CHR ''~'' then ''~0'' else if c = CHR ''/'' then ''~1'' else [c]) @ pointer_segment s"
  by (simp add: pointer_segment_def)

lemma pointer_segment_Nil [simp]: "pointer_segment [] = []"
  by (simp add: pointer_segment_def)

lemma pointer_segment_digits: "list_all digit s \<Longrightarrow> pointer_segment s = s"
  by (induction s) (auto simp: pointer_segment_Cons digit_def)

lemma pointer_segment_show_nat [simp]: "pointer_segment (show_nat n) = show_nat n"
  using pointer_segment_digits digits_show_nat by blast

lemma enumerate_map: "enumerate n (map f xs) = map (apsnd f) (enumerate n xs)"
  by (auto simp: enumerate_eq_zip zip_map2)

lemma enumerate_memberD: "(i, x) \<in> set (enumerate n xs) \<Longrightarrow> x \<in> set xs"
  by (metis enumerate_eq_zip set_zip_rightD)

lemma pointers_are_sites:
  "placeholder_pointers parse v base = map (\<lambda>p. base @ pointer_text p) (sites_of parse v)"
proof (induction v arbitrary: base)
  case (JArr vs)
  have "placeholder_pointers parse v b = map (\<lambda>p. b @ pointer_text p) (sites_of parse v)" if "v \<in> set vs" for v b
    using JArr that by blast
  then show ?case
    by (auto simp: map_concat pointer_text_def enumerate_map comp_def dest!: enumerate_memberD
        intro!: arg_cong [where f = concat])
next
  case (JObj fs)
  have "placeholder_pointers parse (snd f) b = map (\<lambda>p. b @ pointer_text p) (sites_of parse (snd f))" if "f \<in> set fs" for f b
    using JObj [of f "snd f"] that by (cases f) (simp add: snds.simps)
  then show ?case
    by (auto simp: map_concat pointer_text_def intro!: arg_cong [where f = concat])
qed (auto simp: pointer_text_def)

lemma unescape_pointer_segment: "unescape_segment (pointer_segment s) = s"
proof -
  define slashed where "slashed = (\<lambda>s. concat (map (\<lambda>c. if c = CHR ''~'' then ''~0'' else [c]) s))"
  have one: "replace_pair (CHR ''~'') (CHR ''1'') (CHR ''/'') (pointer_segment s) = slashed s" for s
  proof (induction s)
    case (Cons c s)
    have step: "replace_pair (CHR ''~'') (CHR ''1'') (CHR ''/'') (x # t) = x # replace_pair (CHR ''~'') (CHR ''1'') (CHR ''/'') t"
      if "x \<noteq> CHR ''~''" for x t using that by (cases t) auto
    show ?case using Cons step by (simp add: pointer_segment_Cons slashed_def)
  qed (simp add: slashed_def)
  have two: "replace_pair (CHR ''~'') (CHR ''0'') (CHR ''~'') (slashed s) = s" for s
  proof (induction s)
    case (Cons c s)
    have step: "replace_pair (CHR ''~'') (CHR ''0'') (CHR ''~'') (x # t) = x # replace_pair (CHR ''~'') (CHR ''0'') (CHR ''~'') t"
      if "x \<noteq> CHR ''~''" for x t using that by (cases t) auto
    show ?case using Cons step by (simp add: slashed_def)
  qed (simp add: slashed_def)
  show ?thesis by (simp add: unescape_segment_def one two)
qed

lemma pointer_segment_no_slash: "CHR ''/'' \<notin> set (pointer_segment s)"
  by (induction s) (auto simp: pointer_segment_Cons)

lemma split_pointer_text:
  "segments \<noteq> [] \<Longrightarrow> map unescape_segment (tl (split_on (CHR ''/'') (pointer_text segments))) = segments"
proof (induction segments)
  case (Cons s rest)
  have head: "split_on (CHR ''/'') (pointer_text (t # ts)) = [] # split_on (CHR ''/'') (pointer_segment t @ pointer_text ts)" for t ts
    using split_on_append [of "CHR ''/''" "[]"] by (simp add: pointer_text_def)
  show ?case
  proof (cases rest)
    case Nil
    then show ?thesis using split_on_free [OF pointer_segment_no_slash]
      by (simp add: head) (simp add: pointer_text_def unescape_pointer_segment)
  next
    case (Cons t ts)
    have "pointer_segment s @ pointer_text rest = pointer_segment s @ CHR ''/'' # (pointer_segment t @ pointer_text ts)"
      by (simp add: Cons pointer_text_def)
    then have "split_on (CHR ''/'') (pointer_segment s @ pointer_text rest) =
        pointer_segment s # split_on (CHR ''/'') (pointer_segment t @ pointer_text ts)"
      using split_on_append [OF pointer_segment_no_slash] by simp
    then show ?thesis using Cons.IH Cons by (simp add: head unescape_pointer_segment)
  qed
qed simp

lemma show_nat_hd: "0 < n \<Longrightarrow> hd (show_nat n) \<noteq> CHR ''0''"
proof (induction n rule: show_nat.induct)
  case (1 n)
  have ne: "show_nat m \<noteq> []" for m using digits_show_nat by blast
  show ?case
  proof (cases "n < 10")
    case True
    then have "digit_value (char_of (48 + n)) = n" using digit_char_of by blast
    moreover have "digit_value (CHR ''0'') = 0" by (simp add: digit_value_def)
    ultimately have "char_of (48 + n) \<noteq> CHR ''0''" using "1.prems" by auto
    then show ?thesis using True by (simp add: show_nat.simps [of n])
  next
    case False
    then have "0 < n div 10" by simp
    then show ?thesis using 1 False ne by (simp add: show_nat.simps [of n])
  qed
qed

lemma array_index_show_nat [simp]: "array_index (show_nat n)"
proof (cases "n = 0")
  case True
  have "show_nat 0 = ''0''" by code_simp
  then show ?thesis using True by (simp add: array_index_def digit_def)
next
  case False
  then show ?thesis using show_nat_hd [of n] digits_show_nat [of n] by (auto simp: array_index_def)
qed

lemma enumerate_nthD: "(i, x) \<in> set (enumerate 0 xs) \<Longrightarrow> i < length xs \<and> xs ! i = x"
  by (simp add: in_set_enumerate_eq)

lemma site_in_array:
  "p \<in> set (sites_of parse (JArr vs)) \<longleftrightarrow> (\<exists>i q. p = show_nat i # q \<and> i < length vs \<and> q \<in> set (sites_of parse (vs ! i)))"
proof -
  have "p \<in> set (sites_of parse (JArr vs)) \<longleftrightarrow>
      (\<exists>x \<in> set (enumerate 0 vs). p \<in> Cons (show_nat (fst x)) ` set (sites_of parse (snd x)))"
    by (simp add: enumerate_map case_prod_beta)
  also have "\<dots> \<longleftrightarrow> (\<exists>i < length vs. p \<in> Cons (show_nat i) ` set (sites_of parse (vs ! i)))"
    unfolding Bex_def by (simp add: in_set_enumerate_eq split_paired_Ex)
  finally show ?thesis by blast
qed

lemma site_in_object:
  "p \<in> set (sites_of parse (JObj fs)) \<longleftrightarrow> (\<exists>k v q. p = k # q \<and> (k, v) \<in> set fs \<and> q \<in> set (sites_of parse v))"
proof -
  have "p \<in> set (sites_of parse (JObj fs)) \<longleftrightarrow>
      (\<exists>x \<in> set fs. p \<in> Cons (fst x) ` set (sites_of parse (snd x)))"
    by (simp add: case_prod_beta)
  also have "\<dots> \<longleftrightarrow> (\<exists>k v. (k, v) \<in> set fs \<and> p \<in> Cons k ` set (sites_of parse v))"
    unfolding Bex_def by (simp add: split_paired_Ex)
  finally show ?thesis by blast
qed

lemma json_ok_member: "json_ok (JObj fs) \<Longrightarrow> (k, v) \<in> set fs \<Longrightarrow> jm_get fs k = Some v \<and> json_ok v"
  by (force simp: jm_get_def list_all_iff map_of_eq_Some_iff)

lemma json_ok_nth: "json_ok (JArr vs) \<Longrightarrow> i < length vs \<Longrightarrow> json_ok (vs ! i)"
  by (auto simp: list_all_iff)

lemma site_resolves:
  "json_ok v \<Longrightarrow> p \<in> set (sites_of parse v) \<Longrightarrow> \<exists>x. value_at p v = Some x \<and> is_redaction_placeholder parse x"
proof (induction p arbitrary: v)
  case Nil
  then show ?case
    by (cases v) (auto simp: site_in_array site_in_object simp del: sites_of.simps(5,6) split: if_splits)
next
  case (Cons s rest)
  show ?case
  proof (cases v)
    case (JArr vs)
    then obtain i where i: "s = show_nat i" "i < length vs" "rest \<in> set (sites_of parse (vs ! i))"
      using Cons.prems(2) site_in_array [of "s # rest" parse vs] by auto
    then show ?thesis using Cons.IH [of "vs ! i"] json_ok_nth [of vs i] Cons.prems(1) JArr by simp
  next
    case (JObj fs)
    then obtain w where w: "(s, w) \<in> set fs" "rest \<in> set (sites_of parse w)"
      using Cons.prems(2) site_in_object [of "s # rest" parse fs] by auto
    have "jm_get fs s = Some w \<and> json_ok w" using json_ok_member [OF _ w(1)] Cons.prems(1) JObj by simp
    then show ?thesis using Cons.IH [of w] w(2) JObj by simp
  qed (use Cons.prems in \<open>auto split: if_splits\<close>)
qed

lemma distinct_prefixed:
  "distinct (map fst kps) \<Longrightarrow> \<forall>(k, ps) \<in> set kps. distinct ps \<Longrightarrow> distinct (concat (map (\<lambda>(k, ps). map (Cons k) ps) kps))"
  by (induction kps) (force simp: distinct_map)+

lemma show_nat_inject [simp]: "show_nat a = show_nat b \<longleftrightarrow> a = b"
  by (metis decimal_show_nat)

lemma sites_distinct: "json_ok v \<Longrightarrow> distinct (sites_of parse v)"
proof (induction v)
  case (JArr vs)
  have "sites_of parse (JArr vs) =
      concat (map (\<lambda>(k, ps). map (Cons k) ps) (map (apfst show_nat) (enumerate 0 (map (sites_of parse) vs))))"
    by (auto intro!: arg_cong [where f = concat])
  moreover have "distinct (map fst (map (apfst show_nat) (enumerate 0 (map (sites_of parse) vs))))"
  proof -
    have "map fst (map (apfst show_nat) xs) = map show_nat (map fst xs)" for xs :: "(nat \<times> string list list) list" by simp
    then show ?thesis by (simp only: map_fst_enumerate) (simp add: distinct_map inj_on_def)
  qed
  moreover have "\<forall>(k, ps) \<in> set (map (apfst show_nat) (enumerate 0 (map (sites_of parse) vs))). distinct ps"
    using JArr by (auto simp: list_all_iff dest!: enumerate_memberD)
  ultimately show ?case using distinct_prefixed by metis
next
  case (JObj fs)
  have "distinct (map fst (map (map_prod id (sites_of parse)) fs))" using JObj.prems by (simp add: comp_def)
  moreover have "\<forall>(k, ps) \<in> set (map (map_prod id (sites_of parse)) fs). distinct ps"
    using JObj json_ok_member [of fs] by (fastforce simp: snds.simps)
  ultimately show ?case unfolding sites_of.simps by (rule distinct_prefixed)
qed simp_all

text \<open>Clearing one place takes one placeholder out of the document.\<close>

definition hidden_count :: "url_parser \<Rightarrow> string json \<Rightarrow> nat" where
  "hidden_count parse v = length (sites_of parse v)"

lemma hidden_count_array: "hidden_count parse (JArr vs) = sum_list (map (hidden_count parse) vs)"
proof -
  have "length (concat (map (\<lambda>(i, v). map (Cons (show_nat i)) (sites_of parse v)) (enumerate n vs))) =
      sum_list (map (hidden_count parse) vs)" for n
    by (induction vs arbitrary: n) (simp_all add: hidden_count_def)
  then show ?thesis by (simp add: hidden_count_def [of parse "JArr vs"] enumerate_map comp_def case_prod_beta')
qed

lemma hidden_count_object: "hidden_count parse (JObj fs) = sum_list (map (hidden_count parse \<circ> snd) fs)"
  by (induction fs) (simp_all add: hidden_count_def split_beta)

lemma array_split: "i < length vs \<Longrightarrow> vs = take i vs @ vs ! i # drop (Suc i) vs"
  by (simp add: id_take_nth_drop)

lemma object_split:
  assumes "distinct (map fst fs)" "jm_get fs k = Some v"
  obtains xs ys where "fs = xs @ (k, v) # ys" "k \<notin> fst ` set xs" "k \<notin> fst ` set ys"
proof -
  have "(k, v) \<in> set fs" using assms(2) by (auto simp: jm_get_def map_of_SomeD)
  then obtain xs ys where "fs = xs @ (k, v) # ys" by (meson split_list)
  then show ?thesis using assms(1) that by auto
qed

lemma jm_set_split: "k \<notin> fst ` set xs \<Longrightarrow> jm_set k w (xs @ (k, v) # ys) = xs @ (k, w) # ys"
  unfolding jm_set_def by (induction xs) auto

lemma jm_delete_split:
  "(k :: string) \<notin> fst ` set xs \<Longrightarrow> k \<notin> fst ` set ys \<Longrightarrow> jm_delete k (xs @ (k, v) # ys) = xs @ ys"
proof -
  assume k: "k \<notin> fst ` set xs" "k \<notin> fst ` set ys"
  have "filter (\<lambda>(k', _). k \<noteq> k') zs = zs" if "k \<notin> fst ` set zs" for zs :: "(string \<times> 'a) list"
    by (rule filter_True) (use that in force)
  then show ?thesis unfolding jm_delete_def AList.delete_eq using k by simp
qed

lemma placeholder_alone: "[] \<in> set (sites_of parse v) \<Longrightarrow> hidden_count parse v = 1"
  by (cases v) (auto simp: hidden_count_def site_in_array site_in_object simp del: sites_of.simps(5,6) split: if_splits)

lemma remove_hides_less:
  "json_ok v \<Longrightarrow> p \<in> set (sites_of parse v) \<Longrightarrow> p \<noteq> [] \<Longrightarrow>
   Suc (hidden_count parse (remove_segments p v)) = hidden_count parse v"
proof (induction p arbitrary: v)
  case (Cons s rest)
  show ?case
  proof (cases v)
    case (JArr vs)
    then obtain i where i: "s = show_nat i" "i < length vs" "rest \<in> set (sites_of parse (vs ! i))"
      using Cons.prems(2) site_in_array [of "s # rest" parse vs] by auto
    have count: "hidden_count parse v =
        sum_list (map (hidden_count parse) (take i vs)) + hidden_count parse (vs ! i) +
        sum_list (map (hidden_count parse) (drop (Suc i) vs))"
      unfolding JArr hidden_count_array by (subst array_split [OF i(2)]) simp
    show ?thesis
    proof (cases "rest = []")
      case True
      then show ?thesis using count i placeholder_alone [of parse "vs ! i"] JArr by (simp add: hidden_count_array)
    next
      case False
      have "Suc (hidden_count parse (remove_segments rest (vs ! i))) = hidden_count parse (vs ! i)"
        using Cons.IH [OF _ i(3) False] json_ok_nth [of vs i] Cons.prems(1) JArr i(2) by simp
      then show ?thesis using count i False JArr
        by (simp add: hidden_count_array upd_conv_take_nth_drop)
    qed
  next
    case (JObj fs)
    then obtain w where w: "(s, w) \<in> set fs" "rest \<in> set (sites_of parse w)"
      using Cons.prems(2) site_in_object [of "s # rest" parse fs] by auto
    have g: "jm_get fs s = Some w" "json_ok w" using json_ok_member [OF _ w(1)] Cons.prems(1) JObj by simp_all
    have d: "distinct (map fst fs)" using Cons.prems(1) JObj by simp
    obtain xs ys where f: "fs = xs @ (s, w) # ys" "s \<notin> fst ` set xs" "s \<notin> fst ` set ys"
      using object_split [OF d g(1)] by blast
    show ?thesis
    proof (cases "rest = []")
      case True
      then show ?thesis using placeholder_alone [of parse w] w(2) JObj f g(1)
        by (simp add: hidden_count_object jm_delete_split)
    next
      case False
      have "Suc (hidden_count parse (remove_segments rest w)) = hidden_count parse w"
        using Cons.IH [OF g(2) w(2) False] .
      then show ?thesis using JObj f g(1) False by (simp add: hidden_count_object jm_set_split)
    qed
  qed (use Cons.prems in \<open>auto split: if_splits\<close>)
qed simp

text \<open>C21: the pointers reported for a document a role's read masked name its hidden fields exactly: they
  are distinct, each one, read back with the escapes of RFC 6901, leads to a redaction placeholder, and
  clearing a field by its pointer takes exactly one placeholder out of the document, whatever the keys
  are (slashes, tildes, digits) and however deep it lies.\<close>

theorem hidden_fields_named_and_clearable:
  assumes ok: "json_ok v" and p: "pointer \<in> set (placeholder_pointers parse v [])" and deep: "pointer \<noteq> []"
  shows "distinct (placeholder_pointers parse v []) \<and>
    (\<exists>x. value_at (map unescape_segment (tl (split_on (CHR ''/'') pointer))) v = Some x \<and> is_redaction_placeholder parse x) \<and>
    (\<exists>v'. remove_at_pointer v pointer = Some v' \<and>
      Suc (length (placeholder_pointers parse v' [])) = length (placeholder_pointers parse v []))"
proof -
  have count: "length (placeholder_pointers parse w []) = hidden_count parse w" for w
    by (simp add: pointers_are_sites hidden_count_def)
  obtain q where q: "q \<in> set (sites_of parse v)" "pointer = pointer_text q"
    using p by (auto simp: pointers_are_sites)
  have ne: "q \<noteq> []" using deep q(2) by (auto simp: pointer_text_def)
  have rb: "map unescape_segment (tl (split_on (CHR ''/'') pointer)) = q"
    using split_pointer_text [OF ne] q(2) by simp
  have resolves: "\<exists>x. value_at (map unescape_segment (tl (split_on (CHR ''/'') pointer))) v = Some x \<and> is_redaction_placeholder parse x"
    unfolding rb by (rule site_resolves [OF ok q(1)])
  have "inj_on pointer_text (set (sites_of parse v))"
  proof (rule inj_onI)
    fix a b assume ab: "pointer_text a = pointer_text b"
    show "a = b"
    proof (cases "a = [] \<or> b = []")
      case True
      then show ?thesis using ab by (cases a; cases b) (simp_all add: pointer_text_def)
    next
      case False
      then have "a = map unescape_segment (tl (split_on (CHR ''/'') (pointer_text a)))"
        "map unescape_segment (tl (split_on (CHR ''/'') (pointer_text b))) = b"
        using False by (simp_all add: split_pointer_text)
      then show ?thesis unfolding ab by (rule trans)
    qed
  qed
  then have dist: "distinct (placeholder_pointers parse v [])"
    using sites_distinct [OF ok, of parse] by (simp add: pointers_are_sites distinct_map)
  have "remove_at_pointer v pointer = Some (remove_segments q v)"
    using rb ne q(2) by (cases q) (simp_all add: remove_at_pointer_def pointer_text_def)
  then have "\<exists>v'. remove_at_pointer v pointer = Some v' \<and>
      Suc (length (placeholder_pointers parse v' [])) = length (placeholder_pointers parse v [])"
    using remove_hides_less [OF ok q(1) ne] by (simp add: count)
  then show ?thesis using resolves dist by blast
qed

definition masked_body :: "string json" where
  "masked_body = JObj [(''config'', JObj [(''a/b~'', JArr [JNull, JStr ''[REDACTED]'']), (''k'', JStr ''[REDACTED]'')])]"

theorem hidden_fields_named_and_clearable_witness:
  "placeholder_pointers (\<lambda>_. None) masked_body [] = [''/config/a~1b~0/1'', ''/config/k''] \<and>
   (\<exists>v'. remove_at_pointer masked_body ''/config/a~1b~0/1'' = Some v' \<and>
      Suc (length (placeholder_pointers (\<lambda>_. None) v' [])) = length (placeholder_pointers (\<lambda>_. None) masked_body []))"
proof (rule conjI)
  show e: "placeholder_pointers (\<lambda>_. None) masked_body [] = [''/config/a~1b~0/1'', ''/config/k'']"
    by code_simp
  show "\<exists>v'. remove_at_pointer masked_body ''/config/a~1b~0/1'' = Some v' \<and>
      Suc (length (placeholder_pointers (\<lambda>_. None) v' [])) = length (placeholder_pointers (\<lambda>_. None) masked_body [])"
  proof -
    have "json_ok masked_body" by code_simp
    moreover have "''/config/a~1b~0/1'' \<in> set (placeholder_pointers (\<lambda>_. None) masked_body [])" unfolding e by simp
    ultimately show ?thesis using hidden_fields_named_and_clearable [of masked_body "''/config/a~1b~0/1''" "\<lambda>_. None"] by blast
  qed
qed

end
