(* ===== verification/PluginSensitivity.thy ===== *)
theory PluginSensitivity
  imports MaskedSecrets
begin

text \<open>
  Edge's sensitivity table for plugin configurations, as the console carries it
  (\<open>src/api/pluginSensitivity.ts\<close>), and where a write would put a placeholder back at a site Edge
  masks (\<open>src/api/maskedSecretSites.ts\<close>).
\<close>

definition rule :: "sensitivity \<Rightarrow> string list \<Rightarrow> sensitivity_rule" where
  "rule s path = \<lparr>sr_path = path, sr_sensitivity = s\<rparr>"

definition redis_backed :: "sensitivity_rule list" where
  "redis_backed = [rule Redis [''redis_url'']]"

definition plugin_sensitivity :: "(string \<times> sensitivity_rule list) list" where
  "plugin_sensitivity =
    [(''otel_tracing'', [rule Endpoint [''endpoint''], rule Secret [''authorization''],
        rule Secret [''headers'', ''*'']]),
     (''correlation_id'', []), (''cors'', []), (''request_termination'', []), (''mesh_outbound_registry'', []),
     (''ip_restriction'', []), (''geo_restriction'', []), (''bot_detection'', []),
     (''spec_expose'', [rule Endpoint [''spec_url'']]), (''sse'', []), (''grpc_web'', []),
     (''grpc_method_router'', redis_backed), (''spiffe_identity'', []), (''mtls_auth'', []),
     (''jwks_auth'', [rule Endpoint [''providers'', ''*'', ''discovery_url''],
        rule Endpoint [''providers'', ''*'', ''jwks_uri''], rule Endpoint [''discovery_url''],
        rule Endpoint [''jwks_uri'']]),
     (''oauth2_introspection'', [rule Endpoint [''providers'', ''*'', ''discovery_url''],
        rule Endpoint [''providers'', ''*'', ''introspection_endpoint''], rule Endpoint [''discovery_url''],
        rule Endpoint [''introspection_endpoint'']]),
     (''oidc_relying_party'', [rule Endpoint [''providers'', ''*'', ''discovery_url''],
        rule Endpoint [''providers'', ''*'', ''jwks_uri''],
        rule Endpoint [''providers'', ''*'', ''token_endpoint''],
        rule Endpoint [''providers'', ''*'', ''authorization_endpoint''],
        rule Endpoint [''providers'', ''*'', ''userinfo_endpoint''],
        rule Endpoint [''providers'', ''*'', ''end_session_endpoint''], rule Endpoint [''discovery_url''],
        rule Endpoint [''jwks_uri''], rule Endpoint [''token_endpoint''],
        rule Endpoint [''authorization_endpoint''], rule Endpoint [''userinfo_endpoint''],
        rule Endpoint [''end_session_endpoint'']]),
     (''jwt_auth'', []), (''key_auth'', []), (''ldap_auth'', [rule Endpoint [''ldap_url'']]), (''basic_auth'', []),
     (''hmac_auth'', []), (''soap_ws_security'', []), (''access_control'', []), (''tcp_connection_throttle'', []),
     (''mesh_authz'', []), (''opa'', [rule Secret [''headers'', ''*'']]), (''adaptive_concurrency'', []),
     (''request_deduplication'', redis_backed), (''request_size_limiting'', []), (''ws_message_size_limiting'', []),
     (''graphql'', redis_backed), (''rate_limiting'', redis_backed), (''ws_rate_limiting'', redis_backed),
     (''udp_rate_limiting'', redis_backed),
     (''ai_transcript_audit'', [rule Endpoint [''sink'', ''endpoint_url''],
        rule Secret [''sink'', ''custom_headers'', ''*''], rule Endpoint [''endpoint_url''],
        rule Secret [''headers'', ''*''], rule Secret [''custom_headers'', ''*'']]),
     (''ai_prompt_shield'', []), (''waf'', []), (''fault_injection'', []), (''body_validator'', []),
     (''openapi_validator'', []), (''ai_semantic_firewall'', [rule Endpoint [''provider'', ''endpoint'']]),
     (''ai_request_guard'', []),
     (''ai_tool_governor'', [rule Endpoint [''endpoint_url''], rule Endpoint [''approval'', ''endpoint_url'']]),
     (''ai_stream_router'', [rule Endpoint [''providers'', ''*'', ''endpoint'']]),
     (''mcp_gateway'', [rule Endpoint [''servers'', ''*'', ''upstream_url''], rule Endpoint [''upstream_url'']]),
     (''a2a_gateway'', []), (''mesh_route_dispatch'', []),
     (''ai_semantic_cache'', [rule Redis [''redis_url''], rule Endpoint [''semantic_embedding_endpoint''],
        rule Secret [''semantic_embedding_auth_header'']]),
     (''request_transformer'', []),
     (''serverless_function'', [rule Endpoint [''function_url''], rule Endpoint [''aws_endpoint_url''],
        rule Secret [''azure_function_key'']]),
     (''response_mock'', []), (''grpc_deadline'', []), (''load_testing'', []), (''request_mirror'', []),
     (''response_size_limiting'', []), (''response_caching'', []), (''response_transformer'', []),
     (''compression'', []), (''ai_prompt_compressor'', []),
     (''ai_federation'', [rule Endpoint [''base_url''], rule Endpoint [''providers'', ''*'', ''base_url'']]),
     (''ai_response_guard'', []), (''security_headers'', []), (''ai_token_metrics'', []),
     (''ai_rate_limiter'', redis_backed), (''stdout_logging'', []), (''ws_frame_logging'', []),
     (''statsd_logging'', []),
     (''http_logging'', [rule Endpoint [''endpoint_url''], rule Secret [''custom_headers'', ''*'']]),
     (''tcp_logging'', []), (''kafka_logging'', [rule Kafka [''producer_config'']]),
     (''loki_logging'', [rule Endpoint [''endpoint_url''], rule Secret [''authorization_header''],
        rule Secret [''custom_headers'', ''*'']]),
     (''udp_logging'', []), (''ws_logging'', [rule Endpoint [''endpoint_url'']]), (''transaction_debugger'', []),
     (''proxy_alerts'', [rule Endpoint [''channels'', ''*'', ''webhook_url''],
        rule Endpoint [''channels'', ''*'', ''url''], rule Secret [''channels'', ''*'', ''headers'', ''*''],
        rule Secret [''channels'', ''*'', ''body_template'']]),
     (''prometheus_metrics'', []), (''api_chargeback'', []),
     (''api_chargeback_sink'', [rule Endpoint [''clickhouse'', ''url''],
        rule Secret [''clickhouse'', ''insert_query_params'', ''*'']]),
     (''workload_metrics'', [rule Endpoint [''tracing_provider'', ''config'', ''url''],
        rule Endpoint [''tracing_provider'', ''config'', ''agent_url''],
        rule Endpoint [''tracing_provider'', ''config'', ''collector_url''],
        rule Endpoint [''tracing_provider'', ''config'', ''endpoint''],
        rule Endpoint [''tracing_providers'', ''*'', ''config'', ''url''],
        rule Endpoint [''tracing_providers'', ''*'', ''config'', ''agent_url''],
        rule Endpoint [''tracing_providers'', ''*'', ''config'', ''collector_url''],
        rule Endpoint [''tracing_providers'', ''*'', ''config'', ''endpoint'']]),
     (''__mesh_bpf_metrics'', []), (''transaction_log_schema'', [])]"

definition kafka_safe_producer_properties :: "string list" where
  "kafka_safe_producer_properties =
    [''acks'', ''batch.num.messages'', ''batch.size'', ''client.id'', ''compression.codec'', ''compression.level'',
     ''compression.type'', ''delivery.timeout.ms'', ''enable.idempotence'', ''linger.ms'', ''max.in.flight'',
     ''max.in.flight.requests.per.connection'', ''message.max.bytes'', ''message.send.max.retries'',
     ''message.timeout.ms'', ''metadata.max.age.ms'', ''partitioner'', ''queue.buffering.max.kbytes'',
     ''queue.buffering.max.messages'', ''queue.buffering.max.ms'', ''reconnect.backoff.max.ms'',
     ''reconnect.backoff.ms'', ''request.required.acks'', ''request.timeout.ms'', ''retries'',
     ''retry.backoff.max.ms'', ''retry.backoff.ms'', ''socket.keepalive.enable'', ''socket.nagle.disable'',
     ''socket.timeout.ms'', ''sticky.partitioning.linger.ms'', ''topic.metadata.refresh.interval.ms'']"

section \<open>Placeholder sites of a body\<close>

record placeholder_sites =
  ps_blocking :: "string list"
  ps_other :: "string list"

definition plugin_config_refused_sites :: "url_parser \<Rightarrow> string \<Rightarrow> string json option \<Rightarrow> string list" where
  "plugin_config_refused_sites parse plugin config =
     refused_placeholder_sites parse (map_of plugin_sensitivity plugin) kafka_safe_producer_properties config"

definition split_sites :: "string list \<Rightarrow> string list \<Rightarrow> placeholder_sites" where
  "split_sites all refused =
     \<lparr>ps_blocking = filter (\<lambda>p. p \<in> set refused) all, ps_other = filter (\<lambda>p. p \<notin> set refused) all\<rparr>"

definition plugin_config_placeholder_sites ::
  "url_parser \<Rightarrow> string \<Rightarrow> string json option \<Rightarrow> string option \<Rightarrow> placeholder_sites" where
  "plugin_config_placeholder_sites parse plugin config role =
     (let all = plugin_config_placeholder_pointers parse config in
      if all = [] then \<lparr>ps_blocking = [], ps_other = []\<rparr>
      else split_sites all (if role = Some ''admin'' then [] else plugin_config_refused_sites parse plugin config))"

definition upstream_placeholder_sites :: "url_parser \<Rightarrow> resource \<Rightarrow> string option \<Rightarrow> placeholder_sites" where
  "upstream_placeholder_sites parse upstream role =
     (let all = upstream_placeholder_pointers parse upstream in
      split_sites all (if role = Some ''admin'' then [] else all))"

end
