(* ===== verification/UpstreamWrites.thy ===== *)
theory UpstreamWrites
  imports ConditionalWrite PluginSensitivity
begin

text \<open>
  Writes of upstreams (\<open>src/api/upstreams.ts\<close>): the payload rebuilt from a read, the merge of a
  form over it, the two guards, and the three operations over the conditional writes. The \<open>PUT\<close> and
  \<open>DELETE\<close> of the client, the read and the URL parser are parameters.
\<close>

section \<open>Objects\<close>

definition spread :: "resource \<Rightarrow> resource \<Rightarrow> resource" where
  "spread a b = fold (\<lambda>(k, v) m. jm_set k v m) b a"

definition without :: "string list \<Rightarrow> resource \<Rightarrow> resource" where
  "without names r = filter (\<lambda>(k, v). k \<notin> set names) r"

lemma jm_get_spread: "jm_get (spread a b) k = (case jm_get (rev b) k of None \<Rightarrow> jm_get a k | Some v \<Rightarrow> Some v)"
  unfolding spread_def
proof (induction b arbitrary: a)
  case (Cons p b)
  then show ?case
    by (cases p) (auto simp: jm_get_set jm_get_def [of "rev b @ [p]" for p] map_add_def jm_get_def [of "rev b"] split: option.splits)
qed simp

lemma jm_ok_spread [inv_intros]: "jm_ok a \<Longrightarrow> jm_ok (spread a b)"
  unfolding spread_def by (induction b arbitrary: a) (auto intro: jm_ok_set)

lemma jm_get_without: "jm_get (without names r) k = (if k \<in> set names then None else jm_get r k)"
  unfolding without_def jm_get_def by (induction r) auto

section \<open>Payloads\<close>

definition to_update_payload :: "resource \<Rightarrow> resource" where
  "to_update_payload upstream =
     without [''created_at'', ''updated_at'', ''namespace'', ''api_spec_id'', ''port_overrides'', ''source_locality'',
              ''source_labels'', ''locality_lb_setting'', ''locality_lb_strict''] upstream"

text \<open>\<open>id ?? data.id\<close>, kept only when it is truthy.\<close>

definition with_upstream_id :: "resource \<Rightarrow> string option \<Rightarrow> resource" where
  "with_upstream_id data ident =
     (case (case ident of Some i \<Rightarrow> Some (JStr i) | None \<Rightarrow> jm_get data ''id'') of
        Some (JStr i) \<Rightarrow> if i = [] then data else jm_set ''id'' (JStr i) data
      | _ \<Rightarrow> data)"

definition clear_when_absent :: "string list" where
  "clear_when_absent =
     [''name'', ''hash_on'', ''hash_on_cookie_config'', ''health_checks'', ''service_discovery'', ''subsets'',
      ''backend_tls_client_cert_path'', ''backend_tls_client_key_path'', ''backend_tls_server_ca_cert_path'',
      ''backend_tls_sni'']"

definition merge_form_update_payload :: "resource \<Rightarrow> resource \<Rightarrow> resource" where
  "merge_form_update_payload upstream changes =
     (let merged = (case jm_get changes ''targets'' of
            None \<Rightarrow> jm_delete ''targets'' (spread (to_update_payload upstream) changes)
          | Some targets \<Rightarrow> jm_set ''targets'' targets (spread (to_update_payload upstream) changes));
          cleared = fold (\<lambda>f m. if jm_get changes f = None then jm_set f JNull m else m) clear_when_absent merged in
      if jm_get changes ''backend_tls_san_allow_list'' = None
      then jm_set ''backend_tls_san_allow_list'' (JArr []) cleared else cleared)"

section \<open>Guards\<close>

definition to_baseline :: "resource \<Rightarrow> resource" where
  "to_baseline upstream = baseline_snapshot upstream upstream_baseline_omit"

definition upstream_write_guard :: "resource \<Rightarrow> write_guard" where
  "upstream_write_guard seed = \<lparr>wg_baseline = to_baseline seed, wg_select = to_baseline\<rparr>"

definition targets_write_guard :: "resource \<Rightarrow> write_guard" where
  "targets_write_guard seed =
     \<lparr>wg_baseline = pick_snapshot seed [''targets''], wg_select = \<lambda>v. pick_snapshot v [''targets'']\<rparr>"

section \<open>Operations\<close>

text \<open>\<open>withRedactedFailure\<close> replaces a transport failure; the status of its response is kept.\<close>

fun redacted_failure :: "failure \<Rightarrow> failure" where
  "redacted_failure (HttpError status) = RedactedWrite (Some status)"
| "redacted_failure (OtherFailure _) = RedactedWrite None"
| "redacted_failure e = e"

definition put_upstream ::
  "(resource \<Rightarrow> write_request \<Rightarrow> ('w, resource) effect) \<Rightarrow> resource \<Rightarrow> string option \<Rightarrow> ('w, resource) effect" where
  "put_upstream put body if_match w =
     (case put body (conditional_put if_match True []) w of
        (Inl e, w') \<Rightarrow> (Inl (redacted_failure e), w')
      | (Inr v, w') \<Rightarrow> (Inr v, w'))"

definition upstream_options ::
  "string \<Rightarrow> string \<Rightarrow> string \<Rightarrow> ('w, tagged_read) effect \<Rightarrow> (resource \<Rightarrow> failure + resource) \<Rightarrow>
   ('w, resource, resource) replace_options" where
  "upstream_options resource ident ns rd propose =
     \<lparr>ro_resource = resource, ro_id = ident, ro_namespace = ns, ro_read = rd, ro_propose = propose\<rparr>"

definition update_upstream ::
  "string \<Rightarrow> ('w, tagged_read) effect \<Rightarrow> (resource \<Rightarrow> write_request \<Rightarrow> ('w, resource) effect) \<Rightarrow>
   string \<Rightarrow> resource \<Rightarrow> write_guard option \<Rightarrow> ('w, resource) effect" where
  "update_upstream ns rd put ident data guard =
     (let payload = with_upstream_id data (Some ident) in
      case guard of
        None \<Rightarrow> put_upstream put payload None
      | Some g \<Rightarrow> guarded_replace (upstream_options ''upstream'' ident ns rd (\<lambda>_. Inr payload)) g
                   (\<lambda>body t. put_upstream put body (Some t)))"

definition propose_targets :: "url_parser \<Rightarrow> string option \<Rightarrow> string \<Rightarrow> string json \<Rightarrow> resource \<Rightarrow> failure + resource" where
  "propose_targets parse role ident targets current =
     (if ps_blocking (upstream_placeholder_sites parse current role) \<noteq> [] then Inl (OtherFailure ''MaskedSecretWriteError'')
      else Inr (with_upstream_id (jm_set ''targets'' targets (to_update_payload current)) (Some ident)))"

definition update_targets ::
  "string \<Rightarrow> url_parser \<Rightarrow> string option \<Rightarrow> ('w, tagged_read) effect \<Rightarrow> (resource \<Rightarrow> write_request \<Rightarrow> ('w, resource) effect) \<Rightarrow>
   string \<Rightarrow> string json \<Rightarrow> write_guard option \<Rightarrow> ('w, resource) effect" where
  "update_targets ns parse role rd put ident targets guard =
     (let opt = upstream_options ''upstream targets'' ident ns rd (propose_targets parse role ident targets) in
      case guard of
        Some g \<Rightarrow> guarded_replace opt g (\<lambda>body t. put_upstream put body (Some t))
      | None \<Rightarrow> replace_from_read opt (put_upstream put))"

definition remove_upstream ::
  "string \<Rightarrow> ('w, tagged_read) effect \<Rightarrow> (write_request \<Rightarrow> ('w, unit) effect) \<Rightarrow> string \<Rightarrow> write_guard option \<Rightarrow>
   ('w, unit) effect" where
  "remove_upstream ns rd del ident guard =
     (case guard of
        Some g \<Rightarrow> guarded_remove ''upstream'' ident ns g rd (\<lambda>t. del (conditional_delete (Some t) []))
      | None \<Rightarrow> del (conditional_delete None []))"

end
