(* ===== verification/MockGateway.thy ===== *)
theory MockGateway
  imports UpstreamWrites
begin

text \<open>
  The repository's stand-in for the gateway's admin API (\<open>scripts/mock-admin-gateway.mjs\<close>): strong
  tags, \<open>If-Match\<close>, the association precondition of plugin configurations, the resource routes and
  the read-only modes. It answers the conditional writes of \<open>ConditionalWrite\<close>, whose contract it
  meets. The digest behind a tag, the locale order of the associations, the clock and the random
  identifiers are parameters.
\<close>

type_synonym refusal_answer = "nat \<times> string"

section \<open>Tags and \<open>If-Match\<close>\<close>

definition nullish :: "string json option \<Rightarrow> string json option \<Rightarrow> string json option" where
  "nullish a b = (case a of None \<Rightarrow> b | Some JNull \<Rightarrow> b | _ \<Rightarrow> a)"

definition item_namespace :: "resource \<Rightarrow> string json" where
  "item_namespace item = (case nullish (jm_get item ''namespace'') None of None \<Rightarrow> JStr ''ferrum'' | Some v \<Rightarrow> v)"

definition tag_representation :: "(string json list \<Rightarrow> string json list) \<Rightarrow> string \<Rightarrow> resource \<Rightarrow> resource" where
  "tag_representation collate kind item =
     (case jm_get item ''plugins'' of
        Some (JArr ps) \<Rightarrow> if kind = ''proxies'' then jm_set ''plugins'' (JArr (collate ps)) item else item
      | _ \<Rightarrow> item)"

definition resource_etag ::
  "(string \<Rightarrow> string json \<Rightarrow> string json option \<Rightarrow> string json \<Rightarrow> string) \<Rightarrow> (string json list \<Rightarrow> string json list) \<Rightarrow>
   string \<Rightarrow> resource \<Rightarrow> string" where
  "resource_etag digest collate kind item =
     quote_char # digest kind (item_namespace item) (jm_get item ''id'')
       (canonicalize (JObj (tag_representation collate kind item))) @ [quote_char]"

definition etag_char :: "char \<Rightarrow> bool" where
  "etag_char c \<longleftrightarrow> of_char c = (33 :: nat) \<or> (35 \<le> (of_char c :: nat) \<and> (of_char c :: nat) \<le> 126) \<or> 128 \<le> (of_char c :: nat)"

definition ows :: "char \<Rightarrow> bool" where
  "ows c \<longleftrightarrow> of_char c = (32 :: nat) \<or> of_char c = (9 :: nat)"

text \<open>One match of the sticky pattern: the member, and what follows its comma (\<open>None\<close> at the end).\<close>

definition take_member :: "string \<Rightarrow> (string \<times> string option) option" where
  "take_member s =
     (let s1 = dropWhile ows s;
          weak = (if starts_with ''W/'' s1 then ''W/'' else []);
          s2 = drop (length weak) s1 in
      case s2 of
        [] \<Rightarrow> None
      | q # s3 \<Rightarrow>
          if q \<noteq> quote_char then None
          else (case dropWhile etag_char s3 of
                  [] \<Rightarrow> None
                | q' # s4 \<Rightarrow>
                    if q' \<noteq> quote_char then None
                    else let member = weak @ quote_char # takeWhile etag_char s3 @ [quote_char] in
                      (case dropWhile ows s4 of
                         [] \<Rightarrow> Some (member, None)
                       | c # s5 \<Rightarrow> if c = CHR '','' then Some (member, Some s5) else None)))"

lemma take_member_shorter: "take_member s = Some (m, Some r) \<Longrightarrow> length r < length s"
proof -
  assume a: "take_member s = Some (m, Some r)"
  obtain n q s3 q' s4 where w: "drop n (dropWhile ows s) = q # s3"
    "dropWhile etag_char s3 = q' # s4" "dropWhile ows s4 = CHR '','' # r"
    using a by (auto simp: take_member_def Let_def split: list.splits if_splits) (metis drop_0)+
  have "length (q # s3) \<le> length s" unfolding w(1) [symmetric]
    using length_dropWhile_le [of ows s] by simp
  moreover have "length (q' # s4) \<le> length s3" unfolding w(2) [symmetric] by (rule length_dropWhile_le)
  moreover have "length (CHR '','' # r) \<le> length s4" unfolding w(3) [symmetric] by (rule length_dropWhile_le)
  ultimately show ?thesis by simp
qed

function parse_members :: "string \<Rightarrow> string list option" where
  "parse_members s =
     (if s = [] then Some []
      else case take_member s of
             None \<Rightarrow> None
           | Some (m, None) \<Rightarrow> Some [m]
           | Some (m, Some rest) \<Rightarrow> map_option (Cons m) (parse_members rest))"
  by pat_completeness auto
termination
  by (relation "measure length") (auto dest: take_member_shorter)

declare parse_members.simps [simp del]

definition parse_entity_tags :: "string \<Rightarrow> string list option" where
  "parse_entity_tags header = (if header = [] then None else parse_members header)"

definition evaluate_if_match :: "string option \<Rightarrow> string \<Rightarrow> refusal_answer option" where
  "evaluate_if_match header current_tag =
     (case header of
        None \<Rightarrow> None
      | Some h \<Rightarrow>
          let v = js_trim h in
          if v = ''*'' then None
          else (case parse_entity_tags v of
                  None \<Rightarrow> Some (400, ''Malformed If-Match header'')
                | Some members \<Rightarrow>
                    if current_tag \<in> set members then None
                    else Some (412, ''Precondition Failed: the resource changed since the supplied ETag was issued'')))"

definition if_match_routes :: "seg_pat list list" where
  "if_match_routes =
     [[Lit ''proxies'', Wild], [Lit ''upstreams'', Wild], [Lit ''consumers'', Wild], [Lit ''plugins'', Lit ''config'', Wild]]"

definition if_match_route_refusal :: "string \<Rightarrow> string \<Rightarrow> string option \<Rightarrow> refusal_answer option" where
  "if_match_route_refusal method path header =
     (if header = None \<or> method \<in> {''GET'', ''HEAD'', ''OPTIONS''} then None
      else if method \<in> {''PUT'', ''DELETE''} \<and> list_ex (\<lambda>route. path_match route False path) if_match_routes then None
      else Some (400, ''If-Match is not supported on '' @ method @ '' '' @ path))"

lemma strong_char_facts:
  assumes "strong_tag_char c"
  shows "etag_char c" "c \<noteq> quote_char" "\<not> ows c" "\<not> white_space c"
  using assms by (auto simp: strong_tag_char_def etag_char_def quote_char_def ows_def white_space_def)

lemma quote_facts: "\<not> etag_char quote_char" "\<not> ows quote_char" "\<not> white_space quote_char"
  by (auto simp: etag_char_def quote_char_def ows_def white_space_def)

lemma strong_tag_member:
  assumes "strong_etag (Some t) = Some t"
  shows "take_member t = Some (t, None)"
proof -
  obtain body where t: "t = quote_char # body @ [quote_char]" "list_all strong_tag_char body"
    using strong_etag_shape [OF assms] by blast
  have e: "\<forall>c \<in> set body. etag_char c" using t(2) strong_char_facts(1) by (auto simp: list_all_iff)
  have "takeWhile etag_char (body @ [quote_char]) = body" "dropWhile etag_char (body @ [quote_char]) = [quote_char]"
    using e quote_facts(1) by simp_all
  moreover have "dropWhile ows t = t" using quote_facts(2) t(1) by simp
  moreover have "\<not> starts_with ''W/'' t" by (simp add: t(1) starts_with_def quote_char_def)
  ultimately show ?thesis unfolding take_member_def Let_def by (simp add: t(1))
qed

lemma evaluate_strong:
  assumes "strong_etag (Some t) = Some t"
  shows "evaluate_if_match (Some t) current =
    (if current = t then None
     else Some (412, ''Precondition Failed: the resource changed since the supplied ETag was issued''))"
proof -
  obtain body where t: "t = quote_char # body @ [quote_char]" "list_all strong_tag_char body"
    using strong_etag_shape [OF assms] by blast
  have "\<forall>c \<in> set t. \<not> white_space c"
    using t strong_char_facts(4) quote_facts(3) by (auto simp: list_all_iff)
  then have "js_trim t = t" by (rule js_trim_free)
  moreover have "t \<noteq> ''*''" by (simp add: t(1) quote_char_def)
  moreover have "parse_entity_tags t = Some [t]"
  proof -
    have "t \<noteq> []" by (simp add: t(1))
    then show ?thesis
      unfolding parse_entity_tags_def by (subst parse_members.simps) (simp add: strong_tag_member [OF assms])
  qed
  ultimately show ?thesis by (simp add: evaluate_if_match_def)
qed
section \<open>Associations of plugin configurations\<close>

definition id_char :: "char \<Rightarrow> bool" where
  "id_char c \<longleftrightarrow> letter c \<or> digit c \<or> c \<in> set ''._-''"

definition resource_id :: "string \<Rightarrow> bool" where
  "resource_id s \<longleftrightarrow> s \<noteq> [] \<and> (letter (hd s) \<or> digit (hd s)) \<and> list_all id_char s"

fun expected_entries :: "string list \<Rightarrow> string list \<Rightarrow> string + string list" where
  "expected_entries seen [] = Inr seen"
| "expected_entries seen (e # es) =
     (if 254 < length e \<or> \<not> resource_id e then Inl (''expected_proxy_ids: invalid resource ID '' @ e)
      else if e \<in> set seen then Inl (''expected_proxy_ids lists a proxy more than once: '' @ e)
      else expected_entries (seen @ [e]) es)"

definition parse_expected_proxy_ids :: "string list \<Rightarrow> string + string list" where
  "parse_expected_proxy_ids values =
     (case values of
        [] \<Rightarrow> Inl ''expected_proxy_ids query parameter is required''
      | [v] \<Rightarrow> if v = [] then Inr [] else expected_entries [] (split_on CHR '','' v)
      | _ \<Rightarrow> Inl ''expected_proxy_ids must not be supplied more than once'')"

fun text_member :: "string json option \<Rightarrow> string option" where
  "text_member (Some (JStr s)) = Some s"
| "text_member _ = None"

definition associated_with :: "string \<Rightarrow> resource \<Rightarrow> bool" where
  "associated_with ident proxy =
     (case jm_get proxy ''plugins'' of
        Some (JArr ps) \<Rightarrow> list_ex (\<lambda>a. jfield ''plugin_config_id'' a = Some (JStr ident)) ps
      | _ \<Rightarrow> False)"

definition association_precondition_refusal ::
  "resource list \<Rightarrow> string \<Rightarrow> string \<Rightarrow> string list \<Rightarrow> string json option \<Rightarrow> refusal_answer option" where
  "association_precondition_refusal proxies ns ident expected kept =
     (let referencing = filter (\<lambda>p. item_namespace p = JStr ns \<and> associated_with ident p) proxies;
          unexpected = sort (filter (\<lambda>i. Some (JStr i) \<noteq> kept \<and> i \<notin> set expected)
                         (List.map_filter (\<lambda>p. text_member (jm_get p ''id'')) referencing)) in
      if unexpected = [] then None
      else Some (412, ''plugin config '' @ ident @ '' is referenced by proxies outside expected_proxy_ids: '' @
                      concat (map (\<lambda>i. i @ '', '') unexpected)))"

definition detach_deleted_plugin_config :: "string \<Rightarrow> resource list \<Rightarrow> string \<Rightarrow> string \<Rightarrow> resource list" where
  "detach_deleted_plugin_config now proxies ns ident =
     map (\<lambda>p. if item_namespace p \<noteq> JStr ns \<or> \<not> associated_with ident p then p
              else (case jm_get p ''plugins'' of
                      Some (JArr ps) \<Rightarrow>
                        jm_set ''updated_at'' (JStr now)
                          (jm_set ''plugins''
                            (JArr (filter (\<lambda>a. jfield ''plugin_config_id'' a \<noteq> Some (JStr ident)) ps)) p)
                    | _ \<Rightarrow> p)) proxies"

section \<open>Labels\<close>

definition stamp_provisioned_by :: "resource \<Rightarrow> string option \<Rightarrow> resource" where
  "stamp_provisioned_by labels provisioner =
     (case provisioner of
        Some p \<Rightarrow> if p \<noteq> [] \<and> jm_get labels ''provisioned-by'' = None
                  then jm_set ''provisioned-by'' (JStr p) labels else labels
      | None \<Rightarrow> labels)"

definition clone_labels :: "resource \<Rightarrow> resource" where
  "clone_labels body = (case jm_get body ''labels'' of Some (JObj ls) \<Rightarrow> ls | _ \<Rightarrow> [])"

definition omit_empty_labels :: "resource \<Rightarrow> resource" where
  "omit_empty_labels item = (if jm_get item ''labels'' = Some (JObj []) then jm_delete ''labels'' item else item)"

definition apply_create_labels :: "resource \<Rightarrow> string option \<Rightarrow> resource" where
  "apply_create_labels body provisioner =
     (let labels = stamp_provisioned_by (clone_labels body) provisioner in
      if labels = [] then jm_delete ''labels'' body else jm_set ''labels'' (JObj labels) body)"

section \<open>Resource routes\<close>

record crud_context =
  cc_kind :: "string option"
  cc_if_match :: "string option"
  cc_proxies :: "resource list option"
  cc_expected :: "string list"
  cc_proxy_filter :: "string option"
  cc_offset :: "nat option"
  cc_limit :: "nat option"
  cc_ns :: string
  cc_defaults :: resource
  cc_validate :: "resource \<Rightarrow> string \<Rightarrow> string option"
  cc_provisioner :: "string option"
  cc_now :: string
  cc_uuid :: string
  cc_tag :: "string \<Rightarrow> resource \<Rightarrow> string"

definition answer :: "nat \<Rightarrow> resource \<Rightarrow> response" where
  "answer status body = \<lparr>rs_status = status, rs_body = body, rs_etag = None\<rparr>"

definition refuse :: "refusal_answer \<Rightarrow> response" where
  "refuse r = answer (fst r) [(''error'', JStr (snd r))]"

definition paginate :: "resource list \<Rightarrow> nat option \<Rightarrow> nat option \<Rightarrow> resource" where
  "paginate items offset page =
     (let from = (case offset of None \<Rightarrow> 0 | Some n \<Rightarrow> n);
          count = (case page of None \<Rightarrow> 100 | Some n \<Rightarrow> if n = 0 then 100 else n) in
      [(''data'', JArr (map JObj (take count (drop from items)))),
       (''pagination'', JObj [(''offset'', JNum (of_nat from)), (''limit'', JNum (of_nat count)),
                              (''total'', JNum (of_nat (length items)))])])"

definition filter_plugin_config_list :: "resource list \<Rightarrow> string option \<Rightarrow> refusal_answer + resource list" where
  "filter_plugin_config_list rows proxy_filter =
     (case proxy_filter of
        None \<Rightarrow> Inr rows
      | Some p \<Rightarrow>
          if 254 < length p \<or> \<not> resource_id p then Inl (400, ''Invalid proxy_id '' @ p)
          else Inr (filter (\<lambda>r. jm_get r ''proxy_id'' = Some (JStr p)) rows))"

definition has_id :: "string \<Rightarrow> resource \<Rightarrow> bool" where
  "has_id ident item \<longleftrightarrow> jm_get item ''id'' = Some (JStr ident)"

definition kept_proxy :: "string \<Rightarrow> resource \<Rightarrow> resource \<Rightarrow> string json option" where
  "kept_proxy method body existing =
     (if method = ''PUT'' \<and> nullish (jm_get body ''scope'') (jm_get existing ''scope'') = Some (JStr ''proxy'')
      then nullish (jm_get body ''proxy_id'') (jm_get existing ''proxy_id'') else None)"

definition item_refusal :: "crud_context \<Rightarrow> resource list \<Rightarrow> string \<Rightarrow> string \<Rightarrow> resource \<Rightarrow> refusal_answer option" where
  "item_refusal ctx items method ident body =
     (case (if cc_kind ctx = Some ''plugins/config'' then parse_expected_proxy_ids (cc_expected ctx) else Inr []) of
        Inl msg \<Rightarrow> Some (400, msg)
      | Inr expected \<Rightarrow>
          (case find (has_id ident) items of
             None \<Rightarrow> Some (404, ''not found'')
           | Some existing \<Rightarrow>
               (case (case cc_kind ctx of None \<Rightarrow> None
                      | Some kind \<Rightarrow> evaluate_if_match (cc_if_match ctx) (cc_tag ctx kind existing)) of
                  Some r \<Rightarrow> Some r
                | None \<Rightarrow>
                    (case cc_proxies ctx of
                       Some proxies \<Rightarrow>
                         if cc_kind ctx = Some ''plugins/config''
                         then association_precondition_refusal proxies (cc_ns ctx) ident expected
                                (kept_proxy method body existing)
                         else None
                     | None \<Rightarrow> None))))"

definition rewritten :: "crud_context \<Rightarrow> string \<Rightarrow> resource \<Rightarrow> resource \<Rightarrow> resource" where
  "rewritten ctx ident body existing =
     omit_empty_labels (jm_set ''updated_at'' (JStr (cc_now ctx)) (jm_set ''id'' (JStr ident) (spread existing body)))"

definition created :: "crud_context \<Rightarrow> resource \<Rightarrow> resource" where
  "created ctx body =
     omit_empty_labels
       (spread (spread (spread [(''id'', JStr (cc_uuid ctx)), (''namespace'', JStr (cc_ns ctx))] (cc_defaults ctx))
                  (apply_create_labels body (cc_provisioner ctx)))
               [(''created_at'', JStr (cc_now ctx)), (''updated_at'', JStr (cc_now ctx))])"

fun update_first :: "('a \<Rightarrow> bool) \<Rightarrow> ('a \<Rightarrow> 'a list) \<Rightarrow> 'a list \<Rightarrow> 'a list" where
  "update_first P f [] = []"
| "update_first P f (x # xs) = (if P x then f x @ xs else x # update_first P f xs)"

definition crud_write ::
  "crud_context \<Rightarrow> resource list \<Rightarrow> string \<Rightarrow> string option \<Rightarrow> resource \<Rightarrow> response \<times> resource list" where
  "crud_write ctx items method ident body =
     (if method \<in> {''POST'', ''PUT''} \<and> cc_validate ctx body method \<noteq> None
      then (answer 400 [(''error'', JStr (the (cc_validate ctx body method)))], items)
      else if method = ''POST''
      then (answer 201 (created ctx body), items @ [created ctx body])
      else if method = ''PUT'' \<or> method = ''DELETE''
      then (case ident of
              None \<Rightarrow> (refuse (404, ''not found''), items)
            | Some i \<Rightarrow>
                (case find (has_id i) items of
                   None \<Rightarrow> (refuse (404, ''not found''), items)
                 | Some existing \<Rightarrow>
                     if method = ''PUT''
                     then (answer 200 (rewritten ctx i body existing),
                           update_first (has_id i) (\<lambda>x. [rewritten ctx i body x]) items)
                     else (answer 204 [], update_first (has_id i) (\<lambda>_. []) items)))
      else (refuse (405, ''method not allowed''), items))"

definition crud ::
  "crud_context \<Rightarrow> resource list \<Rightarrow> string \<Rightarrow> string option \<Rightarrow> resource \<Rightarrow> response \<times> resource list" where
  "crud ctx items method ident body =
     (case ident of
        None \<Rightarrow>
          if method = ''GET''
          then (let rows = filter (\<lambda>x. item_namespace x = JStr (cc_ns ctx)) items in
                case (if cc_kind ctx = Some ''plugins/config''
                      then filter_plugin_config_list rows (cc_proxy_filter ctx) else Inr rows) of
                  Inl r \<Rightarrow> (refuse r, items)
                | Inr selected \<Rightarrow> (answer 200 (paginate selected (cc_offset ctx) (cc_limit ctx)), items))
          else crud_write ctx items method None body
      | Some i \<Rightarrow>
          if method = ''GET''
          then (case find (has_id i) items of
                  None \<Rightarrow> (refuse (404, ''not found''), items)
                | Some item \<Rightarrow>
                    ((answer 200 item)\<lparr>rs_etag := map_option (\<lambda>kind. cc_tag ctx kind item) (cc_kind ctx)\<rparr>, items))
          else if method \<in> {''PUT'', ''DELETE''}
          then (case item_refusal ctx items method i body of
                  Some r \<Rightarrow> (refuse r, items)
                | None \<Rightarrow> crud_write ctx items method ident body)
          else crud_write ctx items method ident body)"

section \<open>Read-only modes\<close>

definition read_only_gateway_modes :: "string list" where
  "read_only_gateway_modes = [''file'', ''dp'', ''mesh'', ''node_agent'']"

definition under :: "string \<Rightarrow> string \<Rightarrow> bool" where
  "under prefix path \<longleftrightarrow> path = prefix \<or> starts_with (prefix @ ''/'') path"

definition read_only_gated :: "string \<Rightarrow> bool" where
  "read_only_gated path \<longleftrightarrow>
     list_ex (\<lambda>p. under p path)
       [''/proxies'', ''/consumers'', ''/plugins/config'', ''/upstreams'', ''/api-specs'', ''/namespaces'',
        ''/gateway-trust-bundles''] \<or>
     path = ''/batch'' \<or> path = ''/restore'' \<or> starts_with ''/admin/tls/'' path"

definition operational_action :: "string \<Rightarrow> bool" where
  "operational_action path \<longleftrightarrow> under ''/admin/tls/rotate'' path \<or> path = ''/admin/tls/validate''"

definition read_only_mode_refusal :: "string \<Rightarrow> string \<Rightarrow> string \<Rightarrow> refusal_answer option" where
  "read_only_mode_refusal mode method path =
     (if mode \<notin> set read_only_gateway_modes \<or> method \<in> {''GET'', ''HEAD'', ''OPTIONS''} \<or>
         operational_action path \<or> \<not> read_only_gated path
      then None else Some (403, ''Admin API is in read-only mode''))"
section \<open>The mock as a conditional store\<close>

text \<open>Other writers change the collection between this client's requests: one pending change is
  applied before each request.\<close>

record mock_world =
  mw_items :: "resource list"
  mw_others :: "(resource list \<Rightarrow> resource list) list"
  mw_log :: "(resource \<times> resource) list"

definition meanwhile :: "mock_world \<Rightarrow> mock_world" where
  "meanwhile w =
     (case mw_others w of
        [] \<Rightarrow> w
      | f # fs \<Rightarrow> w\<lparr>mw_items := f (mw_items w), mw_others := fs\<rparr>)"

definition mock_read :: "crud_context \<Rightarrow> string \<Rightarrow> string \<Rightarrow> (mock_world, tagged_read) effect" where
  "mock_read ctx kind ident w =
     (let w1 = meanwhile w in
      (read_tagged (fst (crud (ctx\<lparr>cc_kind := Some kind\<rparr>) (mw_items w1) ''GET'' (Some ident) [])), w1))"

definition mock_put :: "crud_context \<Rightarrow> string \<Rightarrow> string \<Rightarrow> resource \<Rightarrow> string \<Rightarrow> (mock_world, resource) effect" where
  "mock_put ctx kind ident payload t w =
     (let w1 = meanwhile w;
          (r, items) = crud (ctx\<lparr>cc_kind := Some kind, cc_if_match := Some t\<rparr>) (mw_items w1) ''PUT'' (Some ident) payload in
      if rs_status r = 200
      then (Inr (rs_body r),
            w1\<lparr>mw_items := items, mw_log := mw_log w1 @ [(the (find (has_id ident) (mw_items w1)), payload)]\<rparr>)
      else (Inl (HttpError (rs_status r)), w1\<lparr>mw_items := items\<rparr>))"

lemma meanwhile_log [simp]: "mw_log (meanwhile w) = mw_log w"
  by (simp add: meanwhile_def split: list.splits)

lemma mock_put_committed:
  assumes "strong_etag (Some t) = Some t"
    and "rs_status (fst (crud (ctx\<lparr>cc_kind := Some kind, cc_if_match := Some t\<rparr>) items ''PUT'' (Some ident) payload)) = 200"
  shows "\<exists>c. find (has_id ident) items = Some c \<and> cc_tag ctx kind c = t"
proof -
  let ?ctx = "ctx\<lparr>cc_kind := Some kind, cc_if_match := Some t\<rparr>"
  have "item_refusal ?ctx items ''PUT'' ident payload = None"
    using assms(2)
    by (auto simp: crud_def refuse_def answer_def item_refusal_def evaluate_strong [OF assms(1)]
          association_precondition_refusal_def Let_def split: option.splits sum.splits if_splits)
  then show ?thesis
    by (auto simp: item_refusal_def evaluate_strong [OF assms(1)] split: option.splits sum.splits if_splits)
qed

interpretation mock: conditional_store "mock_read ctx kind ident" "mock_put ctx kind ident" "cc_tag ctx kind" id mw_log
  for ctx kind ident
proof
  fix w r w' t
  show "mw_log (snd (mock_read ctx kind ident w)) = mw_log w" by (simp add: mock_read_def Let_def)
  assume "mock_read ctx kind ident w = (Inr r, w')" "strong_etag (tr_etag r) = Some t"
  then show "\<exists>c. tr_value r = id c \<and> t = cc_tag ctx kind c"
    by (auto simp: mock_read_def crud_def read_tagged_def answer_def refuse_def Let_def
        dest!: strong_etag_SomeD split: option.splits if_splits)
next
  fix p t w res w'
  assume "mock_put ctx kind ident p t w = (res, w')" "strong_etag (Some t) = Some t"
  then show "mw_log w' = mw_log w \<or> (\<exists>c. cc_tag ctx kind c = t \<and> mw_log w' = mw_log w @ [(c, p)])"
    using mock_put_committed [of t kind ctx "mw_items (meanwhile w)" ident p]
    by (auto simp: mock_put_def Let_def split: prod.splits if_splits)
next
  fix p t w e w'
  assume "mock_put ctx kind ident p t w = (Inl e, w')"
  then show "mw_log w' = mw_log w" by (auto simp: mock_put_def Let_def split: prod.splits if_splits)
next
  fix p t w b w'
  assume "mock_put ctx kind ident p t w = (Inr b, w')"
  then show "mw_log w' \<noteq> mw_log w" by (auto simp: mock_put_def Let_def split: prod.splits if_splits)
qed
section \<open>A digest without collisions\<close>

text \<open>The mock's digest stands for Edge's MAC, whose contract is that equal tags mean equal content.
  A prefix code of the content is such a digest.\<close>

definition bit_char :: "bool \<Rightarrow> char" where
  "bit_char b = (if b then CHR ''B'' else CHR ''A'')"

primrec char_code :: "char \<Rightarrow> string" where
  "char_code (Char b0 b1 b2 b3 b4 b5 b6 b7) = map bit_char [b0, b1, b2, b3, b4, b5, b6, b7]"

definition listed :: "('a \<Rightarrow> string) \<Rightarrow> 'a list \<Rightarrow> string" where
  "listed e xs = concat (map (\<lambda>x. CHR ''E'' # e x) xs) @ ''Z''"

definition int_code :: "int \<Rightarrow> string" where
  "int_code i = bit_char (i < 0) # listed (\<lambda>_. []) (replicate (nat \<bar>i\<bar>) ())"

primrec json_code :: "string json \<Rightarrow> string" where
  "json_code JNull = ''N''"
| "json_code (JBool b) = ''C'' @ [bit_char b]"
| "json_code (JNum r) = ''R'' @ int_code (fst (quotient_of r)) @ int_code (snd (quotient_of r))"
| "json_code (JStr s) = ''S'' @ listed char_code s"
| "json_code (JArr vs) = ''L'' @ listed id (map json_code vs)"
| "json_code (JObj fs) = ''O'' @ listed (\<lambda>(k, c). listed char_code k @ c) (map (map_prod id json_code) fs)"

definition plain_digest :: "string \<Rightarrow> string json \<Rightarrow> string json option \<Rightarrow> string json \<Rightarrow> string" where
  "plain_digest kind ns ident rep =
     json_code (JArr [JStr kind, ns, JArr (case ident of None \<Rightarrow> [] | Some i \<Rightarrow> [i]), rep])"

definition prefix_code :: "('a \<Rightarrow> string) \<Rightarrow> 'a \<Rightarrow> bool" where
  "prefix_code e x \<longleftrightarrow> (\<forall>y r r'. e x @ r = e y @ r' \<longrightarrow> x = y \<and> r = r')"

lemma prefix_codeD: "prefix_code e x \<Longrightarrow> e x @ r = e y @ r' \<Longrightarrow> x = y \<and> r = r'"
  by (auto simp: prefix_code_def)

lemma listed_Cons: "listed e (x # xs) = CHR ''E'' # e x @ listed e xs"
  by (simp add: listed_def)

lemma listed_prefix_code:
  assumes "\<forall>x \<in> set xs. prefix_code e x"
  shows "prefix_code (listed e) xs"
  using assms
proof (induction xs)
  case Nil
  have "listed e [] @ r = listed e y @ r' \<Longrightarrow> [] = y \<and> r = r'" for y r r'
    by (cases y) (simp_all add: listed_def)
  then show ?case by (auto simp: prefix_code_def)
next
  case (Cons x xs)
  have "listed e (x # xs) @ r = listed e y @ r' \<Longrightarrow> x # xs = y \<and> r = r'" for y r r'
  proof (cases y)
    case (Cons z zs)
    assume "listed e (x # xs) @ r = listed e y @ r'"
    then have eq: "e x @ (listed e xs @ r) = e z @ (listed e zs @ r')" using Cons by (simp add: listed_Cons)
    have "x = z \<and> listed e xs @ r = listed e zs @ r'" using prefix_codeD [of e x] eq Cons.prems by simp
    moreover have "prefix_code (listed e) xs" using Cons.IH Cons.prems by simp
    ultimately show ?thesis using prefix_codeD [of "listed e" xs r zs r'] Cons by simp
  qed (simp add: listed_def)
  then show ?case by (auto simp: prefix_code_def)
qed

lemma char_prefix_code: "prefix_code char_code c"
proof -
  have "char_code c @ r = char_code d @ r' \<Longrightarrow> c = d \<and> r = r'" for d r r'
    by (cases c; cases d) (auto simp: bit_char_def split: if_splits)
  then show ?thesis by (auto simp: prefix_code_def)
qed

lemma int_prefix_code: "prefix_code int_code i"
proof -
  have "int_code i @ r = int_code j @ r' \<Longrightarrow> i = j \<and> r = r'" for j r r'
  proof -
    assume a: "int_code i @ r = int_code j @ r'"
    have u: "prefix_code (listed (\<lambda>_ :: unit. [])) xs" for xs by (rule listed_prefix_code) (simp add: prefix_code_def)
    have "(i < 0) = (j < 0)" using a by (auto simp: int_code_def bit_char_def split: if_splits)
    moreover have "replicate (nat \<bar>i\<bar>) () = replicate (nat \<bar>j\<bar>) () \<and> r = r'"
      using a prefix_codeD [OF u, of "replicate (nat \<bar>i\<bar>) ()" r "replicate (nat \<bar>j\<bar>) ()" r']
      by (simp add: int_code_def)
    then have "nat \<bar>i\<bar> = nat \<bar>j\<bar> \<and> r = r'" by (metis length_replicate)
    ultimately show ?thesis by auto
  qed
  then show ?thesis by (auto simp: prefix_code_def)
qed

lemma text_prefix_code: "prefix_code (listed char_code) s"
  by (rule listed_prefix_code) (simp add: char_prefix_code)

definition member_code :: "string \<times> string json \<Rightarrow> string" where
  "member_code f = listed char_code (fst f) @ json_code (snd f)"

lemma json_code_nested:
  "json_code (JArr vs) = ''L'' @ listed json_code vs"
  "json_code (JObj fs) = ''O'' @ listed member_code fs"
  by (simp_all add: listed_def member_code_def comp_def case_prod_beta')

lemma json_prefix_code: "prefix_code json_code v"
proof (induction v)
  case (JNum x)
  have "json_code (JNum x) @ r = json_code y @ r' \<Longrightarrow> JNum x = y \<and> r = r'" for y r r'
  proof (cases y)
    case (JNum z)
    assume "json_code (JNum x) @ r = json_code y @ r'"
    then have "int_code (fst (quotient_of x)) @ int_code (snd (quotient_of x)) @ r =
        int_code (fst (quotient_of z)) @ int_code (snd (quotient_of z)) @ r'" using JNum by simp
    from prefix_codeD [OF int_prefix_code this] prefix_codeD [OF int_prefix_code, of "snd (quotient_of x)" r]
    have "quotient_of x = quotient_of z \<and> r = r'" by (auto simp: prod_eq_iff)
    then show ?thesis using quotient_of_inject [of x z] JNum by simp
  qed simp_all
  then show ?case by (auto simp: prefix_code_def)
next
  case (JStr x)
  have "json_code (JStr x) @ r = json_code y @ r' \<Longrightarrow> JStr x = y \<and> r = r'" for y r r'
    by (cases y) (auto dest: prefix_codeD [OF text_prefix_code])
  then show ?case by (auto simp: prefix_code_def)
next
  case (JArr vs)
  have "prefix_code (listed json_code) vs" by (rule listed_prefix_code) (use JArr in auto)
  then have "json_code (JArr vs) @ r = json_code y @ r' \<Longrightarrow> JArr vs = y \<and> r = r'" for y r r'
    unfolding json_code_nested by (cases y) (auto simp: json_code_nested simp del: json_code.simps(5,6) dest: prefix_codeD)
  then show ?case by (auto simp: prefix_code_def)
next
  case (JObj fs)
  have m: "prefix_code member_code f" if f: "f \<in> set fs" for f
  proof -
    have v: "prefix_code json_code (snd f)" using JObj [OF f, of "snd f"] by (cases f) (simp add: snds.simps)
    have "member_code f @ r = member_code g @ r' \<Longrightarrow> f = g \<and> r = r'" for g r r'
      using prefix_codeD [OF text_prefix_code, of "fst f" "json_code (snd f) @ r" "fst g"] prefix_codeD [OF v, of r "snd g" r']
      by (simp add: member_code_def prod_eq_iff)
    then show ?thesis by (auto simp: prefix_code_def)
  qed
  have "prefix_code (listed member_code) fs" by (rule listed_prefix_code) (use m in auto)
  then have "json_code (JObj fs) @ r = json_code y @ r' \<Longrightarrow> JObj fs = y \<and> r = r'" for y r r'
    unfolding json_code_nested by (cases y) (auto simp: json_code_nested simp del: json_code.simps(5,6) dest: prefix_codeD)
  then show ?case by (auto simp: prefix_code_def)
next
  case JNull
  have "json_code JNull @ r = json_code y @ r' \<Longrightarrow> JNull = y \<and> r = r'" for y r r' by (cases y) auto
  then show ?case by (auto simp: prefix_code_def)
next
  case (JBool x)
  have "json_code (JBool x) @ r = json_code y @ r' \<Longrightarrow> JBool x = y \<and> r = r'" for y r r'
    by (cases y) (auto simp: bit_char_def split: if_splits)
  then show ?case by (auto simp: prefix_code_def)
qed

lemma json_code_inject: "json_code v = json_code v' \<Longrightarrow> v = v'"
  using prefix_codeD [OF json_prefix_code, of v "[]" v' "[]"] by simp

lemma plain_tag_covers:
  assumes "resource_etag plain_digest collate kind c = resource_etag plain_digest collate kind c'" "kind \<noteq> ''proxies''"
  shows "resource_fingerprint c = resource_fingerprint c'"
proof -
  have rep: "tag_representation collate kind x = x" for x
    using assms(2) by (simp add: tag_representation_def split: option.splits json.splits)
  show ?thesis using assms(1)
    by (simp add: resource_etag_def rep plain_digest_def resource_fingerprint_def del: json_code.simps canonicalize.simps)
      (drule json_code_inject, simp)
qed

lemma strong_code: "list_all strong_tag_char (json_code v)"
proof -
  have lit: "strong_tag_char CHR ''E''" "strong_tag_char CHR ''Z''" "strong_tag_char CHR ''N''" "strong_tag_char CHR ''C''"
    "strong_tag_char CHR ''R''" "strong_tag_char CHR ''S''" "strong_tag_char CHR ''L''" "strong_tag_char CHR ''O''"
    by (simp_all add: strong_tag_char_def)
  have bit: "strong_tag_char (bit_char b)" for b by (simp add: bit_char_def strong_tag_char_def)
  have chr: "list_all strong_tag_char (char_code c)" for c by (cases c) (simp add: bit)
  have tx: "list_all strong_tag_char (listed char_code s)" for s
    by (induction s) (simp_all add: listed_def lit chr)
  have un: "list_all strong_tag_char (listed (\<lambda>_. []) us)" for us :: "unit list"
    by (induction us) (simp_all add: listed_def lit)
  have int: "list_all strong_tag_char (int_code i)" for i by (simp add: int_code_def bit un)
  have ls: "list_all strong_tag_char (listed e xs)" if "\<And>x. x \<in> set xs \<Longrightarrow> list_all strong_tag_char (e x)"
    for e :: "string json \<Rightarrow> string" and xs
    using that by (induction xs) (simp_all add: listed_def lit)
  have ms: "list_all strong_tag_char (listed member_code fs)"
    if "\<And>f. f \<in> set fs \<Longrightarrow> list_all strong_tag_char (json_code (snd f))" for fs
    using that by (induction fs) (simp_all add: listed_def member_code_def lit tx [unfolded listed_def, simplified])
  show ?thesis
  proof (induction v)
    case (JArr vs)
    then show ?case unfolding json_code_nested by (simp add: lit ls)
  next
    case (JObj fs)
    have "list_all strong_tag_char (json_code (snd f))" if "f \<in> set fs" for f
      using JObj [OF that, of "snd f"] by (cases f) (simp add: snds.simps)
    then show ?case unfolding json_code_nested by (simp add: lit ms)
  qed (simp_all add: lit bit int tx)
qed

lemma plain_tag_strong:
  "strong_etag (Some (resource_etag plain_digest collate kind c)) = Some (resource_etag plain_digest collate kind c)"
proof -
  define code where "code = plain_digest kind (item_namespace c) (jm_get c ''id'')
       (canonicalize (JObj (tag_representation collate kind c)))"
  have "list_all strong_tag_char code" unfolding code_def plain_digest_def by (rule strong_code)
  moreover have "code \<noteq> []" by (simp add: code_def plain_digest_def)
  ultimately show ?thesis unfolding resource_etag_def code_def [symmetric]
    by (cases code) (simp_all add: strong_etag_def)
qed

text \<open>The mock's answers to the two requests of an attempt.\<close>

lemma mock_read_item:
  assumes "find (has_id ident) (mw_items (meanwhile w)) = Some c"
  shows "mock_read ctx kind ident w =
    (Inr \<lparr>tr_value = c, tr_etag = strong_etag (Some (cc_tag ctx kind c))\<rparr>, meanwhile w)"
  using assms by (simp add: mock_read_def crud_def read_tagged_def answer_def Let_def)

lemma mock_put_overtaken:
  assumes "find (has_id ident) (mw_items (meanwhile w)) = Some c" "kind \<noteq> ''plugins/config''"
    and "strong_etag (Some t) = Some t" "cc_tag ctx kind c \<noteq> t"
  shows "mock_put ctx kind ident payload t w = (Inl (HttpError 412), meanwhile w)"
  using assms(1,2,4)
  by (simp add: mock_put_def crud_def item_refusal_def evaluate_strong [OF assms(3)] refuse_def answer_def Let_def)

lemma mock_put_stored:
  assumes "find (has_id ident) (mw_items (meanwhile w)) = Some c" "kind \<noteq> ''plugins/config''"
    and "strong_etag (Some t) = Some t" "cc_tag ctx kind c = t" "cc_validate ctx payload ''PUT'' = None"
  shows "\<exists>items b. mock_put ctx kind ident payload t w =
    (Inr b, (meanwhile w)\<lparr>mw_items := items, mw_log := mw_log w @ [(c, payload)]\<rparr>)"
  using assms(1,2,4,5)
  by (cases "cc_proxies ctx")
    (simp_all add: mock_put_def crud_def crud_write_def item_refusal_def evaluate_strong [OF assms(3)] answer_def Let_def,
      (rule exI, rule refl)+)

section \<open>Guarded saves\<close>

text \<open>C20: for any gateway that keeps the contract of conditional writes, with tags that cover what
  the guard compares, a guarded save refines an atomic compare-and-swap, however other writers act
  between its requests: it either commits nothing and reports an error, or commits exactly once, over
  content that at the commit still agrees with the editor's baseline, the payload proposed for a read
  tagged as that content; and a refusal (a conflict or an unverifiable guard) committed nothing.\<close>

theorem guarded_saves_swap_atomically:
  assumes store: "conditional_store rd wr tag view commits"
    and covers: "\<And>c c'. tag c = tag c' \<Longrightarrow>
      resource_fingerprint (wg_select guard (view c)) = resource_fingerprint (wg_select guard (view c'))"
    and run: "guarded_replace (opt\<lparr>ro_read := rd\<rparr>) guard wr w = (r, w')"
  shows "(commits w' = commits w \<and> (\<exists>e. r = Inl e)) \<or>
         (\<exists>c p. commits w' = commits w @ [(c, p)] \<and>
            resource_fingerprint (wg_select guard (view c)) = resource_fingerprint (wg_baseline guard) \<and>
            (\<exists>c0. tag c0 = tag c \<and> ro_propose opt (view c0) = Inr p) \<and> (\<forall>e. r = Inl e \<longrightarrow> \<not> is_refusal e))"
proof -
  let ?opt = "\<lparr>ao_resource = ro_resource opt, ao_id = ro_id opt, ao_namespace = ro_namespace opt, ao_operation = Save,
        ao_require_initial_validator = True, ao_guard = guard, ao_read = rd, ao_propose = ro_propose opt,
        ao_proposed_snapshot = wg_select guard,
        ao_write = (\<lambda>payload if_match w.
           case if_match of None \<Rightarrow> (Inl (GuardVerification Save), w) | Some t \<Rightarrow> wr payload t w)\<rparr>"
  have "verified_attempts_from ?opt 1 False w = (r, w')"
    using run by (simp add: guarded_replace_def verified_attempts_def)
  then have "conditional_store.settles tag view commits ?opt w r w'"
    by (rule conditional_store.loop_settles [OF store, rotated])
      (simp add: conditional_store.guards_def [OF store])
  then show ?thesis
  proof (cases "commits w' = commits w")
    case False
    then obtain c p where "conditional_store.verified tag view ?opt (c, p)" "commits w' = commits w @ [(c, p)]"
      "\<forall>e. r = Inl e \<longrightarrow> \<not> is_refusal e"
      using \<open>conditional_store.settles tag view commits ?opt w r w'\<close>
      unfolding conditional_store.settles_def [OF store] by auto
    moreover obtain c0 where "tag c0 = tag c" "ro_propose opt (view c0) = Inr p"
      "resource_fingerprint (wg_select guard (view c0)) = resource_fingerprint (wg_baseline guard)"
      using calculation(1) unfolding conditional_store.verified_def [OF store] by auto
    ultimately show ?thesis using covers [of c0 c] by auto
  next
    case True
    then show ?thesis using \<open>conditional_store.settles tag view commits ?opt w r w'\<close>
      unfolding conditional_store.settles_def [OF store] by auto
  qed
qed

definition demo_item :: resource where
  "demo_item = [(''id'', JStr ''u''), (''targets'', JStr ''a'')]"

definition demo_moved :: resource where
  "demo_moved = [(''id'', JStr ''u''), (''targets'', JStr ''a''), (''source_locality'', JStr ''z'')]"

definition demo_payload :: resource where
  "demo_payload = [(''id'', JStr ''u''), (''targets'', JStr ''b'')]"

definition demo_context :: crud_context where
  "demo_context =
     \<lparr>cc_kind = None, cc_if_match = None, cc_proxies = None, cc_expected = [], cc_proxy_filter = None, cc_offset = None,
      cc_limit = None, cc_ns = ''ferrum'', cc_defaults = [], cc_validate = (\<lambda>_ _. None), cc_provisioner = None,
      cc_now = ''t'', cc_uuid = ''n'', cc_tag = resource_etag plain_digest id\<rparr>"

text \<open>The mesh controller writes its own field between the first read and the first write.\<close>

definition demo_world :: mock_world where
  "demo_world = \<lparr>mw_items = [demo_item], mw_others = [id, \<lambda>_. [demo_moved]], mw_log = []\<rparr>"

definition demo_options :: "(mock_world, resource, resource) replace_options" where
  "demo_options = upstream_options ''upstream'' ''u'' ''ferrum'' (mock_read demo_context ''upstreams'' ''u'') (\<lambda>_. Inr demo_payload)"

abbreviation demo_save :: "(failure + resource) \<times> mock_world" where
  "demo_save \<equiv>
     guarded_replace (demo_options\<lparr>ro_read := mock_read demo_context ''upstreams'' ''u''\<rparr>) (upstream_write_guard demo_item)
       (mock_put demo_context ''upstreams'' ''u'') demo_world"

lemma demo_covers:
  assumes "cc_tag demo_context ''upstreams'' c = cc_tag demo_context ''upstreams'' c'"
  shows "resource_fingerprint (wg_select (upstream_write_guard seed) (id c)) =
         resource_fingerprint (wg_select (upstream_write_guard seed) (id c'))"
proof -
  have "resource_fingerprint c = resource_fingerprint c'"
    by (rule plain_tag_covers [of id "''upstreams''"]) (use assms in \<open>simp_all add: demo_context_def\<close>)
  from snapshot_fingerprint_cong [OF this] show ?thesis by (simp add: upstream_write_guard_def to_baseline_def)
qed

lemma demo_tags:
  "strong_etag (Some (cc_tag demo_context k c)) = Some (cc_tag demo_context k c)"
  "cc_tag demo_context ''upstreams'' demo_moved \<noteq> cc_tag demo_context ''upstreams'' demo_item"
proof -
  show "strong_etag (Some (cc_tag demo_context k c)) = Some (cc_tag demo_context k c)"
    by (simp add: demo_context_def plain_tag_strong)
  have "resource_fingerprint demo_moved \<noteq> resource_fingerprint demo_item"
    by (simp add: resource_fingerprint_def demo_moved_def demo_item_def)
  then show "cc_tag demo_context ''upstreams'' demo_moved \<noteq> cc_tag demo_context ''upstreams'' demo_item"
    using plain_tag_covers [of id "''upstreams''" demo_moved demo_item] by (auto simp: demo_context_def)
qed

text \<open>The first write is refused, the second attempt verifies the moved item and commits.\<close>

lemma demo_save_commits: "\<exists>b. fst demo_save = Inr b \<and> mw_log (snd demo_save) = [(demo_moved, demo_payload)]"
proof -
  let ?ctx = demo_context
  let ?w1 = "demo_world\<lparr>mw_others := [\<lambda>_. [demo_moved]]\<rparr>"
  let ?w2 = "demo_world\<lparr>mw_items := [demo_moved], mw_others := []\<rparr>"
  have m: "meanwhile demo_world = ?w1" "meanwhile ?w1 = ?w2" "meanwhile ?w2 = ?w2"
    by (simp_all add: meanwhile_def demo_world_def)
  have f: "find (has_id ''u'') (mw_items ?w1) = Some demo_item" "find (has_id ''u'') (mw_items ?w2) = Some demo_moved"
    by (simp_all add: demo_world_def demo_item_def demo_moved_def has_id_def)
  have same: "resource_fingerprint (to_baseline demo_moved) = resource_fingerprint (to_baseline demo_item)"
    by (simp add: to_baseline_def baseline_snapshot_def upstream_baseline_omit_def server_managed_fields_def
        demo_moved_def demo_item_def)
  have r1: "mock_read ?ctx ''upstreams'' ''u'' demo_world = (Inr \<lparr>tr_value = demo_item, tr_etag = Some (cc_tag ?ctx ''upstreams'' demo_item)\<rparr>, ?w1)"
    using mock_read_item [of "''u''" demo_world demo_item ?ctx "''upstreams''"] m(1) f(1) by (simp add: demo_tags(1))
  have p1: "mock_put ?ctx ''upstreams'' ''u'' demo_payload (cc_tag ?ctx ''upstreams'' demo_item) ?w1 = (Inl (HttpError 412), ?w2)"
    using mock_put_overtaken [of "''u''" ?w1 demo_moved "''upstreams''"] m(2) f(2) demo_tags by simp
  have r2: "mock_read ?ctx ''upstreams'' ''u'' ?w2 = (Inr \<lparr>tr_value = demo_moved, tr_etag = Some (cc_tag ?ctx ''upstreams'' demo_moved)\<rparr>, ?w2)"
    using mock_read_item [of "''u''" ?w2 demo_moved ?ctx "''upstreams''"] m(3) f(2) by (simp add: demo_tags(1))
  have "cc_validate ?ctx demo_payload ''PUT'' = None" by (simp add: demo_context_def)
  then obtain items b where p2: "mock_put ?ctx ''upstreams'' ''u'' demo_payload (cc_tag ?ctx ''upstreams'' demo_moved) ?w2 =
      (Inr b, ?w2\<lparr>mw_items := items, mw_log := mw_log ?w2 @ [(demo_moved, demo_payload)]\<rparr>)"
    using mock_put_stored [of "''u''" ?w2 demo_moved "''upstreams''" "cc_tag ?ctx ''upstreams'' demo_moved" ?ctx demo_payload]
      m(3) f(2) demo_tags(1) by auto
  let ?opt = "\<lparr>ao_resource = ''upstream'', ao_id = ''u'', ao_namespace = ''ferrum'', ao_operation = Save,
        ao_require_initial_validator = True, ao_guard = upstream_write_guard demo_item,
        ao_read = mock_read ?ctx ''upstreams'' ''u'', ao_propose = (\<lambda>_. Inr demo_payload),
        ao_proposed_snapshot = wg_select (upstream_write_guard demo_item),
        ao_write = (\<lambda>payload if_match w.
           case if_match of None \<Rightarrow> (Inl (GuardVerification Save), w)
             | Some t \<Rightarrow> mock_put ?ctx ''upstreams'' ''u'' payload t w)\<rparr>"
  have save: "demo_save = verified_attempts_from ?opt 1 False demo_world"
    by (simp add: guarded_replace_def verified_attempts_def demo_options_def upstream_options_def)
  have a1: "\<exists>e. verified_attempt ?opt False demo_world = (Overtaken e, ?w2)"
    unfolding verified_attempt_def by (simp add: r1 p1 demo_tags(1) upstream_write_guard_def same)
  have a2: "\<exists>w. verified_attempt ?opt True ?w2 = (Settled (Inr b), w) \<and> mw_log w = [(demo_moved, demo_payload)]"
    unfolding verified_attempt_def
    by (simp add: r2 p2 demo_tags(1) upstream_write_guard_def same) (simp add: demo_world_def)
  have next_attempt: "\<not> precondition_attempts \<le> (1 :: nat)" by (simp add: precondition_attempts_def)
  obtain e where e: "verified_attempt ?opt False demo_world = (Overtaken e, ?w2)" using a1 by blast
  obtain w where w: "verified_attempt ?opt True ?w2 = (Settled (Inr b), w)" "mw_log w = [(demo_moved, demo_payload)]"
    using a2 by blast
  have "verified_attempts_from ?opt 1 False demo_world = (Inr b, w)"
    unfolding verified_attempts_from.simps [of ?opt 1 False demo_world] e
    using next_attempt by (simp add: verified_attempts_from.simps [of ?opt _ True ?w2] w(1))
  then show ?thesis using save w(2) by simp
qed

theorem guarded_saves_swap_atomically_witness:
  "\<exists>c p. mw_log (snd demo_save) = [(c, p)] \<and>
     resource_fingerprint (to_baseline c) = resource_fingerprint (to_baseline demo_item) \<and> p = demo_payload"
proof -
  obtain r w' where run: "demo_save = (r, w')" by fastforce
  have log1: "mw_log w' = [(demo_moved, demo_payload)]" using demo_save_commits run by simp
  have "mw_log demo_world = []" by (simp add: demo_world_def)
  then show ?thesis
    using guarded_saves_swap_atomically [OF mock.conditional_store_axioms demo_covers run] log1 run
    by (auto simp: upstream_write_guard_def)
qed

end
