(* ===== verification/SecretRedaction.thy ===== *)
theory SecretRedaction
  imports PluginSensitivity
begin

text \<open>
  Submitted secrets in rejected writes (\<open>src/api/secretRedaction.ts\<close>): which strings of a payload are
  secrets, the forms in which a failure can echo them, and the redaction of a text and of an error
  body. The scan of a YAML document for its scalars is a parameter of the spec-document case.
\<close>

section \<open>The secrets of a payload\<close>

primrec submitted_values :: "string json \<Rightarrow> string list" where
  "submitted_values JNull = []"
| "submitted_values (JBool b) = []"
| "submitted_values (JNum n) = []"
| "submitted_values (JStr s) = (if s = [] then [] else [s])"
| "submitted_values (JArr vs) = concat (map submitted_values vs)"
| "submitted_values (JObj fs) = concat (map snd (map (map_prod id submitted_values) fs))"

record secrets =
  sec_values :: "string list"
  sec_tokens :: "string list"

definition no_secrets :: secrets where
  "no_secrets = \<lparr>sec_values = [], sec_tokens = []\<rparr>"

definition classified :: "string list \<Rightarrow> secrets" where
  "classified vs = \<lparr>sec_values = vs, sec_tokens = []\<rparr>"

definition merge_secrets :: "secrets list \<Rightarrow> secrets" where
  "merge_secrets sets = \<lparr>sec_values = concat (map sec_values sets), sec_tokens = concat (map sec_tokens sets)\<rparr>"

definition min_distinctive :: nat where
  "min_distinctive = 8"

definition unclassified :: "string list \<Rightarrow> secrets" where
  "unclassified vs =
     \<lparr>sec_values = filter (\<lambda>v. \<not> length (js_trim v) < min_distinctive) vs,
      sec_tokens = filter (\<lambda>v. length (js_trim v) < min_distinctive) vs\<rparr>"

text \<open>\<open>SECRET_FIELD_EXTRA\<close>, case-insensitive, read as its alternatives.\<close>

definition secret_field_needles :: "string list" where
  "secret_field_needles =
     [''webhook'', ''serviceaccount'', ''service_account'', ''service-account'', ''accesskey'', ''access_key'',
      ''access-key'', ''functionkey'', ''function_key'', ''function-key'', ''integritykey'', ''integrity_key'',
      ''integrity-key'']"

definition is_secret_field :: "string \<Rightarrow> bool" where
  "is_secret_field f \<longleftrightarrow>
     is_redacted_field f \<or> ends_with ''headers'' (js_lower f) \<or>
     list_ex (\<lambda>n. contains n (js_lower f)) secret_field_needles"

text \<open>\<open>ABSOLUTE_URL\<close>: the user information up to the last \<open>@\<close> before the path, and what follows the host.\<close>

definition scheme_char :: "char \<Rightarrow> bool" where
  "scheme_char c \<longleftrightarrow> letter c \<or> digit c \<or> c = CHR ''+'' \<or> c = CHR ''.'' \<or> c = CHR ''-''"

definition authority_char :: "char \<Rightarrow> bool" where
  "authority_char c \<longleftrightarrow> c \<noteq> CHR ''/'' \<and> c \<noteq> CHR ''?'' \<and> c \<noteq> CHR ''#'' \<and> \<not> white_space c"

definition absolute_url :: "string \<Rightarrow> (string \<times> string) option" where
  "absolute_url s =
     (let scheme = takeWhile scheme_char s; after = dropWhile scheme_char s; rest = drop 3 after;
          authority = takeWhile authority_char rest in
      if scheme = [] \<or> \<not> letter (hd scheme) \<or> \<not> starts_with ''://'' after \<or> list_ex white_space rest then None
      else Some (if CHR ''@'' \<in> set authority
                 then rev (tl (dropWhile (\<lambda>c. c \<noteq> CHR ''@'') (rev authority))) else [],
                 drop (length authority) rest))"

definition url_secrets :: "string \<Rightarrow> string list" where
  "url_secrets v =
     (case absolute_url (js_trim v) of
        None \<Rightarrow> []
      | Some (userinfo, tail) \<Rightarrow>
          let rest = (if tail = ''/'' then [] else tail) in
          if userinfo = [] \<and> rest = [] then [] else filter (\<lambda>s. s \<noteq> []) [v, userinfo, rest])"

definition projected_secrets :: "string json \<Rightarrow> sensitivity \<Rightarrow> string list" where
  "projected_secrets v s =
     (if v = JNull then []
      else if s = Endpoint \<or> s = Redis
      then (case v of
              JStr t \<Rightarrow> if absolute_url (js_trim t) \<noteq> None then url_secrets t else submitted_values v
            | _ \<Rightarrow> submitted_values v)
      else (case (s, v) of
              (Kafka, JObj fs) \<Rightarrow>
                concat (map (\<lambda>(k, w). if kafka_safe kafka_safe_producer_properties k then [] else submitted_values w) fs)
            | _ \<Rightarrow> submitted_values v))"

primrec rule_secrets :: "string json \<Rightarrow> string list \<Rightarrow> sensitivity \<Rightarrow> string list" where
  "rule_secrets JNull path s = projected_secrets JNull (if path = [] then s else Secret)"
| "rule_secrets (JBool b) path s = projected_secrets (JBool b) (if path = [] then s else Secret)"
| "rule_secrets (JNum n) path s = projected_secrets (JNum n) (if path = [] then s else Secret)"
| "rule_secrets (JStr t) path s = projected_secrets (JStr t) (if path = [] then s else Secret)"
| "rule_secrets (JArr vs) path s =
     (if path = [] then projected_secrets (JArr vs) s
      else concat (map (\<lambda>f. f (if hd path = ''*'' then tl path else path) s) (map rule_secrets vs)))"
| "rule_secrets (JObj fs) path s =
     (if path = [] then projected_secrets (JObj fs) s
      else concat (map (\<lambda>(k, f). if hd path = ''*'' \<or> normalize_config_key k = normalize_config_key (hd path)
                                then f (tl path) s else [])
             (map (map_prod id rule_secrets) fs)))"

primrec config_floor_secrets :: "string json \<Rightarrow> string list" where
  "config_floor_secrets JNull = []"
| "config_floor_secrets (JBool b) = []"
| "config_floor_secrets (JNum n) = []"
| "config_floor_secrets (JStr s) = url_secrets s"
| "config_floor_secrets (JArr vs) = concat (map config_floor_secrets vs)"
| "config_floor_secrets (JObj fs) =
     concat (map (\<lambda>((f, v), (_, deeper)).
        if is_secret_field f \<or> is_edge_sensitive_config_key f \<or> is_inline_material f v then submitted_values v
        else if normalize_config_key f = ''redisurl'' then projected_secrets v Redis
        else deeper) (zip fs (map (map_prod id config_floor_secrets) fs)))"

definition plugin_config_secrets :: "string \<Rightarrow> string json \<Rightarrow> secrets" where
  "plugin_config_secrets plugin config =
     (if config = JNull then no_secrets
      else case map_of plugin_sensitivity plugin of
             None \<Rightarrow> merge_secrets [classified (config_floor_secrets config), unclassified (submitted_values config)]
           | Some rules \<Rightarrow>
               (case config of
                  JObj _ \<Rightarrow>
                    classified (js_unique
                      (concat (map (\<lambda>r. rule_secrets config (sr_path r) (sr_sensitivity r)) rules) @
                       config_floor_secrets config))
                | _ \<Rightarrow> classified (submitted_values config)))"

primrec secret_values :: "string json \<Rightarrow> secrets" where
  "secret_values JNull = no_secrets"
| "secret_values (JBool b) = no_secrets"
| "secret_values (JNum n) = no_secrets"
| "secret_values (JStr s) = classified (url_secrets s)"
| "secret_values (JArr vs) = merge_secrets (map secret_values vs)"
| "secret_values (JObj fs) =
     (let field = (\<lambda>((f, v), (_, deeper)).
            if is_secret_field f \<or> is_inline_material f v then classified (submitted_values v) else deeper);
          entries = zip fs (map (map_prod id secret_values) fs) in
      case (jm_get fs ''plugin_name'', jm_get fs ''config'') of
        (Some (JStr plugin), Some config) \<Rightarrow>
          merge_secrets
            [plugin_config_secrets plugin config,
             merge_secrets (map field (filter (\<lambda>e. fst (fst e) \<noteq> ''config'') entries))]
      | _ \<Rightarrow> merge_secrets (map field entries))"

definition nonempty_text :: "string json option \<Rightarrow> string list" where
  "nonempty_text v = (case v of Some (JStr s) \<Rightarrow> if s = [] then [] else [s] | _ \<Rightarrow> [])"

definition restore_secrets :: "string json \<Rightarrow> secrets" where
  "restore_secrets backup =
     (let items = (case Option.bind (jfield ''api_specs'' backup) (jfield ''items'') of Some (JArr vs) \<Rightarrow> vs | _ \<Rightarrow> []) in
      merge_secrets
        [secret_values backup,
         classified (concat (map (\<lambda>i. nonempty_text (jfield ''spec_content_base64'' i) @
                                      nonempty_text (jfield ''external_ref_snapshot_base64'' i)) items))])"

definition spec_document_secrets ::
  "(string \<Rightarrow> string json option) \<Rightarrow> (string \<Rightarrow> string list) \<Rightarrow> string \<Rightarrow> secrets" where
  "spec_document_secrets parse_json yaml_scalars document =
     (case parse_json document of
        Some (JObj fs) \<Rightarrow>
          let entries = (case jm_get fs ''x-ferrum-plugins'' of
                           None \<Rightarrow> [] | Some (JArr vs) \<Rightarrow> vs | Some v \<Rightarrow> [v]) in
          merge_secrets (secret_values (JObj (filter (\<lambda>(k, v). k \<noteq> ''x-ferrum-plugins'') fs)) #
            map (\<lambda>e. case jfield ''plugin_name'' e of
                       Some (JStr _) \<Rightarrow> secret_values e
                     | _ \<Rightarrow> unclassified (submitted_values e)) entries)
      | _ \<Rightarrow> unclassified (yaml_scalars document))"
section \<open>Forms of a secret\<close>

definition min_secret_line :: nat where
  "min_secret_line = 16"

text \<open>\<open>split(/\r?\n|\r/)\<close>\<close>

fun split_lines :: "string \<Rightarrow> string list" where
  "split_lines [] = [[]]"
| "split_lines (c # s) =
     (if c = CHR 13 then
        (case s of
           [] \<Rightarrow> [] # split_lines []
         | d # t \<Rightarrow> if d = CHR 10 then [] # split_lines t else [] # split_lines (d # t))
      else if c = CHR 10 then [] # split_lines s
      else (c # hd (split_lines s)) # tl (split_lines s))"

text \<open>\<open>PEM_ARMOR_LINE\<close>: dashes, \<open>BEGIN\<close> or \<open>END\<close>, a label of capitals, digits and spaces, dashes.\<close>

definition label_char :: "char \<Rightarrow> bool" where
  "label_char c \<longleftrightarrow> upper c \<or> digit c \<or> c = CHR '' ''"

definition pem_armor_line :: "string \<Rightarrow> bool" where
  "pem_armor_line l \<longleftrightarrow>
     list_ex (\<lambda>p. starts_with p l \<and> ends_with ''-----'' (drop (length p) l) \<and>
                  (let label = take (length l - length p - 5) (drop (length p) l) in label \<noteq> [] \<and> list_all label_char label))
       [''-----BEGIN '', ''-----END '']"

definition line_break :: "char \<Rightarrow> bool" where
  "line_break c \<longleftrightarrow> c = CHR 10 \<or> c = CHR 13"

definition secret_lines :: "string \<Rightarrow> string list" where
  "secret_lines v =
     (if \<not> list_ex line_break v then []
      else filter (\<lambda>l. min_secret_line \<le> length (js_trim l) \<and> \<not> pem_armor_line (js_trim l)) (split_lines v))"

text \<open>What \<open>JSON.stringify\<close> writes between the quotes.\<close>

definition hex_char :: "nat \<Rightarrow> char" where
  "hex_char n = (if n < 10 then char_of (48 + n) else char_of (87 + n))"

definition json_escape_char :: "char \<Rightarrow> string" where
  "json_escape_char c =
     (let n = (of_char c :: nat) in
      if n = 34 then [CHR 92, CHR 34]
      else if n = 92 then [CHR 92, CHR 92]
      else if n = 8 then [CHR 92, CHR ''b'']
      else if n = 9 then [CHR 92, CHR ''t'']
      else if n = 10 then [CHR 92, CHR ''n'']
      else if n = 12 then [CHR 92, CHR ''f'']
      else if n = 13 then [CHR 92, CHR ''r'']
      else if n < 32 then [CHR 92] @ ''u00'' @ [hex_char (n div 16), hex_char (n mod 16)]
      else [c])"

definition json_escape :: "string \<Rightarrow> string" where
  "json_escape s = concat (map json_escape_char s)"

definition forms_of :: "string \<Rightarrow> string list" where
  "forms_of v =
     concat (map (\<lambda>c. if c = [] then [] else [c, json_escape c])
       ([v, js_trim v] @ concat (map (\<lambda>l. [l, js_trim l]) (secret_lines v))))"

record redaction_forms =
  rf_substrings :: "string list"
  rf_tokens :: "string list"
  rf_structural :: "string list"

definition longest_first :: "string list \<Rightarrow> string list" where
  "longest_first fs = sort_key (\<lambda>f. - int (length f)) fs"

definition make_forms :: "secrets \<Rightarrow> redaction_forms" where
  "make_forms s =
     (let substrings = js_unique (concat (map forms_of (sec_values s)));
          whole = js_unique (concat (map forms_of (sec_tokens s)));
          by_length = longest_first substrings in
      \<lparr>rf_substrings = by_length,
       rf_tokens = longest_first (filter (\<lambda>f. js_trim f \<noteq> [] \<and> f \<notin> set substrings) whole),
       rf_structural = filter (\<lambda>f. min_distinctive \<le> length (js_trim f)) by_length\<rparr>)"

section \<open>Redacting a text\<close>

text \<open>\<open>[\p{L}\p{N}_]\<close> on Latin-1.\<close>

definition token_character :: "char \<Rightarrow> bool" where
  "token_character c \<longleftrightarrow>
     (let n = (of_char c :: nat) in
      letter c \<or> digit c \<or> n \<in> {95, 170, 178, 179, 181, 185, 186, 188, 189, 190} \<or>
      (192 \<le> n \<and> n \<noteq> 215 \<and> n \<noteq> 247))"

type_synonym span = "nat \<times> nat"

definition at_token_boundary :: "string \<Rightarrow> span \<Rightarrow> bool" where
  "at_token_boundary s sp \<longleftrightarrow>
     (fst sp = 0 \<or> \<not> token_character (s ! (fst sp - 1))) \<and>
     (length s \<le> snd sp \<or> \<not> token_character (s ! snd sp))"

definition occurrences :: "string \<Rightarrow> string list \<Rightarrow> bool \<Rightarrow> span list" where
  "occurrences s forms whole_token =
     concat (map (\<lambda>f. if f = [] then []
        else filter (\<lambda>sp. \<not> whole_token \<or> at_token_boundary s sp)
          (map (\<lambda>i. (i, i + length f)) (filter (\<lambda>i. starts_with f (drop i s)) [0..<length s]))) forms)"

definition redaction_marker :: string where
  "redaction_marker = ''[REDACTED]''"

definition slice :: "nat \<Rightarrow> nat \<Rightarrow> string \<Rightarrow> string" where
  "slice a b s = take (b - a) (drop a s)"

fun replace_from :: "string \<Rightarrow> nat \<Rightarrow> span \<Rightarrow> span list \<Rightarrow> string" where
  "replace_from s cursor (start, stop) [] = slice cursor start s @ redaction_marker @ drop stop s"
| "replace_from s cursor (start, stop) ((start', stop') # rest) =
     (if start' < stop then replace_from s cursor (start, max stop stop') rest
      else slice cursor start s @ redaction_marker @ replace_from s stop (start', stop') rest)"

definition replace_spans :: "string \<Rightarrow> span list \<Rightarrow> string" where
  "replace_spans s spans =
     (case sort_key fst spans of
        [] \<Rightarrow> s
      | sp # rest \<Rightarrow> replace_from s 0 sp rest)"

definition redact_submitted :: "string \<Rightarrow> redaction_forms \<Rightarrow> string" where
  "redact_submitted s forms =
     replace_spans s (occurrences s (rf_substrings forms) False @ occurrences s (rf_tokens forms) True)"

definition redact_structure :: "string \<Rightarrow> redaction_forms \<Rightarrow> string" where
  "redact_structure s forms = replace_spans s (occurrences s (rf_structural forms) False)"

section \<open>Redacting a body\<close>

definition fixed_vocabulary_fields :: "string list" where
  "fixed_vocabulary_fields = [''code'', ''phase'', ''rollback'', ''failure_class'', ''confirmation_required'']"

text \<open>\<open>Object.fromEntries\<close>: a repeated key keeps its first place and its last value.\<close>

definition from_entries :: "(string \<times> 'v) list \<Rightarrow> (string \<times> 'v) list" where
  "from_entries es = fold (\<lambda>(k, v) m. jm_set k v m) es []"

primrec redact_value :: "redaction_forms \<Rightarrow> string json \<Rightarrow> string json" where
  "redact_value forms JNull = JNull"
| "redact_value forms (JBool b) = JBool b"
| "redact_value forms (JNum n) = JNum n"
| "redact_value forms (JStr s) = JStr (redact_submitted s forms)"
| "redact_value forms (JArr vs) = JArr (map (redact_value forms) vs)"
| "redact_value forms (JObj fs) =
     JObj (from_entries (map (\<lambda>(k, v). (redact_structure k forms, v)) (map (map_prod id (redact_value forms)) fs)))"

definition redact_body :: "redaction_forms \<Rightarrow> string json \<Rightarrow> string json" where
  "redact_body forms v =
     (case v of
        JObj fs \<Rightarrow>
          JObj (from_entries (map (\<lambda>(k, item). (redact_structure k forms,
            case item of
              JStr s \<Rightarrow> if k \<in> set fixed_vocabulary_fields then JStr (redact_structure s forms) else redact_value forms item
            | _ \<Rightarrow> redact_value forms item)) fs))
      | _ \<Rightarrow> redact_value forms v)"

definition redact_body_text ::
  "(string \<Rightarrow> string json option) \<Rightarrow> (string json \<Rightarrow> string) \<Rightarrow> redaction_forms \<Rightarrow> string \<Rightarrow> string" where
  "redact_body_text parse stringify forms s =
     (case parse s of
        Some (JObj fs) \<Rightarrow> redact_structure (stringify (redact_body forms (JObj fs))) forms
      | Some (JArr vs) \<Rightarrow> redact_structure (stringify (redact_body forms (JArr vs))) forms
      | _ \<Rightarrow> redact_submitted s forms)"

definition redact_data ::
  "(string \<Rightarrow> string json option) \<Rightarrow> (string json \<Rightarrow> string) \<Rightarrow> redaction_forms \<Rightarrow> string json \<Rightarrow> string json" where
  "redact_data parse stringify forms data =
     (case data of
        JStr s \<Rightarrow> JStr (redact_body_text parse stringify forms s)
      | _ \<Rightarrow> redact_body forms data)"

section \<open>A failed write\<close>

record write_failure =
  wf_name :: string
  wf_message :: string
  wf_data :: "string json option"
  wf_body :: "string option"
  wf_status :: "nat option"
  wf_committed :: "string option"
  wf_unobserved :: bool

text \<open>\<open>None\<close> for what was thrown when it is not an \<open>Error\<close>; the body is the unread text of the response.\<close>

definition redact_write_failure ::
  "(string \<Rightarrow> string json option) \<Rightarrow> (string json \<Rightarrow> string) \<Rightarrow> write_failure option \<Rightarrow> secrets \<Rightarrow> write_failure" where
  "redact_write_failure parse stringify error s =
     (let forms = make_forms s in
      case error of
        None \<Rightarrow> \<lparr>wf_name = ''RedactedWriteError'', wf_message = ''Request failed'', wf_data = None, wf_body = None,
                 wf_status = None, wf_committed = None, wf_unobserved = False\<rparr>
      | Some e \<Rightarrow>
          \<lparr>wf_name = (if wf_name e \<noteq> [] \<and> (wf_status e \<noteq> None \<or> wf_name e \<noteq> ''HTTPError'') then wf_name e
                      else ''RedactedWriteError''),
           wf_message = redact_submitted (wf_message e) forms,
           wf_data =
             (case wf_data e of
                Some d \<Rightarrow> Some (redact_data parse stringify forms d)
              | None \<Rightarrow>
                  (case (wf_status e, wf_body e) of
                     (Some _, Some t) \<Rightarrow> if t = [] then None else Some (JStr (redact_body_text parse stringify forms t))
                   | _ \<Rightarrow> None)),
           wf_body = None, wf_status = wf_status e, wf_committed = wf_committed e, wf_unobserved = wf_unobserved e\<rparr>)"

section \<open>Every occurrence is covered, everything else is kept\<close>

text \<open>A redaction as the text cut into kept pieces and pieces replaced by a marker.\<close>

datatype piece = Kept string | Cut string

primrec source_of :: "piece list \<Rightarrow> string" where
  "source_of [] = []"
| "source_of (p # ps) = (case p of Kept s \<Rightarrow> s | Cut s \<Rightarrow> s) @ source_of ps"

primrec shown_of :: "piece list \<Rightarrow> string" where
  "shown_of [] = []"
| "shown_of (p # ps) = (case p of Kept s \<Rightarrow> s | Cut s \<Rightarrow> redaction_marker) @ shown_of ps"

primrec cut_places :: "nat \<Rightarrow> piece list \<Rightarrow> nat set" where
  "cut_places n [] = {}"
| "cut_places n (p # ps) =
     (case p of Kept s \<Rightarrow> cut_places (n + length s) ps | Cut s \<Rightarrow> {n..<n + length s} \<union> cut_places (n + length s) ps)"

definition span_places :: "span \<Rightarrow> nat set" where
  "span_places sp = {fst sp..<snd sp}"

definition places_of :: "string \<Rightarrow> string \<Rightarrow> nat set" where
  "places_of f s = (if f = [] then {} else {i. \<exists>a \<le> i. i < a + length f \<and> a + length f \<le> length s \<and> starts_with f (drop a s)})"

lemma slice_length: "a \<le> b \<Longrightarrow> b \<le> length s \<Longrightarrow> length (slice a b s) = b - a"
  by (simp add: slice_def)

lemma slice_drop: "a \<le> b \<Longrightarrow> slice a b s @ drop b s = drop a s"
  by (metis append_take_drop_id drop_drop le_add_diff_inverse2 slice_def)

lemma replace_from_pieces:
  assumes "cursor \<le> fst sp" "fst sp < snd sp" "snd sp \<le> length s" "sorted (map fst (sp # rest))"
    and "\<forall>x \<in> set rest. fst x < snd x \<and> snd x \<le> length s"
  shows "\<exists>ps. source_of ps = drop cursor s \<and> shown_of ps = replace_from s cursor sp rest \<and>
    cut_places cursor ps = span_places sp \<union> (\<Union>x \<in> set rest. span_places x)"
  using assms
proof (induction s cursor sp rest rule: replace_from.induct)
  case (1 s cursor start stop)
  let ?ps = "[Kept (slice cursor start s), Cut (slice start stop s), Kept (drop stop s)]"
  have "source_of ?ps = drop cursor s" using 1 slice_drop [of start stop s] slice_drop [of cursor start s] by simp
  moreover have "cut_places cursor ?ps = {start..<stop}" using 1 by (simp add: slice_length)
  ultimately show ?case by (intro exI [of _ ?ps]) (simp add: span_places_def)
next
  case (2 s cursor start stop start' stop' rest)
  show ?case
  proof (cases "start' < stop")
    case True
    obtain ps where ps: "source_of ps = drop cursor s" "shown_of ps = replace_from s cursor (start, max stop stop') rest"
      "cut_places cursor ps = span_places (start, max stop stop') \<union> (\<Union>x \<in> set rest. span_places x)"
      using "2.IH"(1) [OF True] "2.prems" by (auto simp: less_max_iff_disj)
    have "{start..<max stop stop'} = {start..<stop} \<union> {start'..<stop'}" using True "2.prems" by auto
    then show ?thesis using ps True by (intro exI [of _ ps]) (auto simp: span_places_def)
  next
    case False
    obtain ps where ps: "source_of ps = drop stop s" "shown_of ps = replace_from s stop (start', stop') rest"
      "cut_places stop ps = span_places (start', stop') \<union> (\<Union>x \<in> set rest. span_places x)"
      using "2.IH"(2) [OF False] False "2.prems" by auto
    let ?ps = "Kept (slice cursor start s) # Cut (slice start stop s) # ps"
    have "source_of ?ps = drop cursor s" using ps "2.prems" slice_drop [of start stop s] slice_drop [of cursor start s] by simp
    moreover have "cut_places cursor ?ps = {start..<stop} \<union> cut_places stop ps" using "2.prems" by (simp add: slice_length)
    ultimately show ?thesis using ps False by (intro exI [of _ ?ps]) (simp add: span_places_def Un_assoc)
  qed
qed

lemma replace_spans_pieces:
  assumes "\<forall>x \<in> set spans. fst x < snd x \<and> snd x \<le> length s"
  shows "\<exists>ps. source_of ps = s \<and> shown_of ps = replace_spans s spans \<and>
    cut_places 0 ps = (\<Union>x \<in> set spans. span_places x)"
proof (cases "sort_key fst spans")
  case Nil
  then have "spans = []" by (metis set_empty set_sort)
  then show ?thesis by (intro exI [of _ "[Kept s]"]) (simp add: replace_spans_def)
next
  case (Cons sp rest)
  have set: "set spans = insert sp (set rest)" using Cons by (metis list.set(2) set_sort)
  have "sorted (map fst (sp # rest))" unfolding Cons [symmetric] by (rule sorted_sort_key)
  then obtain ps where "source_of ps = drop 0 s" "shown_of ps = replace_from s 0 sp rest"
    "cut_places 0 ps = span_places sp \<union> (\<Union>x \<in> set rest. span_places x)"
    using replace_from_pieces [of 0 sp s rest] assms set by auto
  then show ?thesis using Cons set by (intro exI [of _ ps]) (simp add: replace_spans_def)
qed

lemma starts_with_length:
  assumes "starts_with f (drop a s)" "f \<noteq> []"
  shows "a + length f \<le> length s" "a < length s"
proof -
  obtain t where "drop a s = f @ t" using assms(1) by (auto simp: starts_with_iff)
  then have "length s - a = length f + length t" by (metis length_append length_drop)
  moreover have "0 < length f" using assms(2) by simp
  ultimately show "a + length f \<le> length s" "a < length s" by linarith+
qed

lemma occurrences_in_text:
  "sp \<in> set (occurrences s forms whole) \<Longrightarrow> fst sp < snd sp \<and> snd sp \<le> length s"
  by (auto simp: occurrences_def split: if_splits dest: starts_with_length)

lemma occurrences_plain_places:
  "(\<Union>sp \<in> set (occurrences s forms False). span_places sp) = (\<Union>f \<in> set forms. places_of f s)"
proof -
  have one: "(\<Union>i \<in> {i. i < length s \<and> starts_with f (drop i s)}. {i..<i + length f}) = places_of f s" if "f \<noteq> []" for f
    using that starts_with_length [of f _ s] by (auto simp: places_of_def) blast
  have "(\<Union>sp \<in> set (occurrences s forms False). span_places sp) =
      (\<Union>f \<in> set forms. if f = [] then {} else (\<Union>i \<in> {i. i < length s \<and> starts_with f (drop i s)}. {i..<i + length f}))"
    by (auto simp: occurrences_def span_places_def split: if_splits)
  then show ?thesis using one by (auto simp: places_of_def split: if_splits)
qed

lemma occurrences_whole_places:
  "(\<Union>sp \<in> set (occurrences s forms True). span_places sp) \<subseteq> (\<Union>f \<in> set forms. places_of f s)"
  unfolding occurrences_plain_places [symmetric]
  by (rule UN_mono) (auto simp: occurrences_def split: if_splits)

lemma forms_of_self: "v \<noteq> [] \<Longrightarrow> v \<in> set (forms_of v)"
  by (simp add: forms_of_def)

lemma value_is_form: "v \<in> set (sec_values s) \<Longrightarrow> v \<noteq> [] \<Longrightarrow> v \<in> set (rf_substrings (make_forms s))"
  by (auto simp: make_forms_def Let_def longest_first_def intro: forms_of_self)

lemma token_is_form:
  "v \<in> set (sec_tokens s) \<Longrightarrow> js_trim v \<noteq> [] \<Longrightarrow>
   v \<in> set (rf_substrings (make_forms s)) \<or> v \<in> set (rf_tokens (make_forms s))"
proof -
  assume v: "v \<in> set (sec_tokens s)" "js_trim v \<noteq> []"
  have "v \<noteq> []" using v(2) by (auto simp: js_trim_def)
  then have "v \<in> set (forms_of v)" by (rule forms_of_self)
  then have "v \<in> (\<Union>w \<in> set (sec_tokens s). set (forms_of w))" using v(1) by blast
  then show ?thesis using v(2) by (auto simp: make_forms_def Let_def longest_first_def)
qed

text \<open>The places where a token stands whole.\<close>

definition whole_places_of :: "string \<Rightarrow> string \<Rightarrow> nat set" where
  "whole_places_of f s =
     (if js_trim f = [] then {}
      else {i. \<exists>a \<le> i. i < a + length f \<and> starts_with f (drop a s) \<and> at_token_boundary s (a, a + length f)})"

lemma whole_places_covered:
  assumes "f \<in> set forms" "js_trim f \<noteq> []"
  shows "whole_places_of f s \<subseteq> (\<Union>sp \<in> set (occurrences s forms True). span_places sp)"
proof
  fix i assume "i \<in> whole_places_of f s"
  then obtain a where a: "a \<le> i" "i < a + length f" "starts_with f (drop a s)" "at_token_boundary s (a, a + length f)"
    using assms(2) by (auto simp: whole_places_of_def)
  have ne: "f \<noteq> []" using assms(2) by (auto simp: js_trim_def)
  have "(a, a + length f) \<in> set (occurrences s forms True)"
    using assms(1) a(3,4) ne starts_with_length(2) [OF a(3) ne] by (auto simp: occurrences_def intro!: bexI [of _ f])
  then show "i \<in> (\<Union>sp \<in> set (occurrences s forms True). span_places sp)"
    using a(1,2) by (force simp: span_places_def)
qed

lemma whole_places_subset: "whole_places_of f s \<subseteq> places_of f s"
  using starts_with_length(1) [of f _ s] by (auto simp: whole_places_of_def places_of_def js_trim_def)

text \<open>C22: a failure's text is redacted exactly: cut into pieces that put together are the text, it is shown
  with one marker for each piece cut out and the rest as it was; what is cut out covers every occurrence
  of every submitted secret, and every whole-token occurrence of every short unclassified value, however
  they overlap; and nothing is cut out that no form of a submitted value covers.\<close>

theorem submitted_secrets_are_covered:
  "\<exists>ps. source_of ps = text' \<and> shown_of ps = redact_submitted text' (make_forms s) \<and>
     (\<Union>v \<in> set (sec_values s). places_of v text') \<union> (\<Union>v \<in> set (sec_tokens s). whole_places_of v text') \<subseteq> cut_places 0 ps \<and>
     cut_places 0 ps \<subseteq> (\<Union>v \<in> set (sec_values s @ sec_tokens s). \<Union>f \<in> set (forms_of v). places_of f text')"
proof -
  let ?F = "make_forms s"
  let ?spans = "occurrences text' (rf_substrings ?F) False @ occurrences text' (rf_tokens ?F) True"
  obtain ps where ps: "source_of ps = text'" "shown_of ps = redact_submitted text' ?F"
    "cut_places 0 ps = (\<Union>x \<in> set ?spans. span_places x)"
    using replace_spans_pieces [of ?spans text'] occurrences_in_text unfolding redact_submitted_def by fastforce
  have cut: "cut_places 0 ps = (\<Union>f \<in> set (rf_substrings ?F). places_of f text') \<union>
      (\<Union>x \<in> set (occurrences text' (rf_tokens ?F) True). span_places x)"
    using ps(3) occurrences_plain_places [of text' "rf_substrings ?F"] by auto
  have classified_cut: "places_of v text' \<subseteq> cut_places 0 ps" if "v \<in> set (sec_values s)" for v
    using value_is_form [OF that] cut by (cases "v = []") (auto simp: places_of_def [of "[]"])
  have token_cut: "whole_places_of v text' \<subseteq> cut_places 0 ps" if v: "v \<in> set (sec_tokens s)" for v
  proof (cases "js_trim v = []")
    case False
    then consider "v \<in> set (rf_substrings ?F)" | "v \<in> set (rf_tokens ?F)" using token_is_form [OF v] by blast
    then show ?thesis
      by cases (use whole_places_subset [of v text'] whole_places_covered [OF _ False] cut in blast)+
  qed (simp add: whole_places_of_def)
  have "cut_places 0 ps \<subseteq> (\<Union>f \<in> set (rf_substrings ?F @ rf_tokens ?F). places_of f text')"
    using cut occurrences_whole_places [of text' "rf_tokens ?F"] by auto
  moreover have "set (rf_substrings ?F @ rf_tokens ?F) \<subseteq> (\<Union>v \<in> set (sec_values s @ sec_tokens s). set (forms_of v))"
    by (auto simp: make_forms_def Let_def longest_first_def)
  ultimately have "cut_places 0 ps \<subseteq> (\<Union>f \<in> (\<Union>v \<in> set (sec_values s @ sec_tokens s). set (forms_of v)). places_of f text')"
    by (meson UN_mono order_refl order_trans)
  then show ?thesis using ps(1,2) classified_cut token_cut
    by (intro exI [of _ ps] conjI Un_least UN_least) (simp_all add: UN_UN_flatten)
qed

end
