(* ===== verification/PluginMembership.thy ===== *)
theory PluginMembership
  imports UpstreamWrites
begin

text \<open>
  Membership plans of plugins (\<open>src/lib/pluginMembership.ts\<close>): the multi-request saves, creates and
  deletes of a plugin configuration together with the proxies that list it, and what a failed save puts
  back. The gateway is the record of its effects on a world \<open>'w\<close>; messages are constructors. The effects
  are composed with \<open>then_do\<close> and \<open>attempt\<close>, and what a plan can write is proved with a small logic
  of the writes it emits (\<open>emits\<close>).
\<close>

section \<open>Failures\<close>

datatype reason =
    GroupNeedsProxy | ScopeNeedsProxy | ScopeCannotCarryProxy | OnlyGroupsHaveMembers | DuplicateOrBlankIds
  | UnknownProxies "string list"
  | ProxyChangedDuringPreflight string
  | PluginChangedDuringPreflight string
  | ProxyChangedDuringAttach string
  | ProxyChangedDuringDetach string
  | CouldNotAttach string
  | CreateDidNotConverge
  | UpdateDidNotConverge
  | SavedButUnverified bool
  | ChangedDuringDeletion
  | DeletionFailed

datatype recovery_note =
    PluginExists string "string json option"
  | PluginMissing string
  | ExistenceUnverified string
  | RemainingReferences "string list"
  | ReferencesUnverified
  | LeftAttached string
  | NotOverwritten string
  | NotReattached string
  | AssociationRollbackFailed string
  | MaskedNotRestored "string list"
  | MissingNotRestored string
  | ConfigNotOverwritten string
  | NotRestoredOver "string list"
  | PluginRollbackFailed string
  | CreatedAndKept string
  | DoesNotRun string
  | MembersBefore "string list"
  | ScopeChangeDetached "string list"
  | CheckTarget string

text \<open>A failed request carries whether the gateway said its write committed; a plan's own error may carry
  its cause and the configuration to recover with.\<close>

datatype plan_failure =
    Request failure bool
  | Membership reason "recovery_note list" "plan_failure option" "resource option"
  | MembershipChanged string operation "string list"
  | SavedUnverified "recovery_note list" plan_failure "resource option" bool

primrec committed :: "plan_failure \<Rightarrow> bool" where
  "committed (Request f c) = c"
| "committed (Membership why notes cause config) =
     (case map_option committed cause of None \<Rightarrow> False | Some c \<Rightarrow> c)"
| "committed (MembershipChanged ident op ids) = False"
| "committed (SavedUnverified notes cause saved later) = committed cause"

fun refused_precondition :: "plan_failure \<Rightarrow> bool" where
  "refused_precondition (Request f _) = is_precondition_failed f"
| "refused_precondition _ = False"

fun is_not_found :: "plan_failure \<Rightarrow> bool" where
  "is_not_found (Request (HttpError status) _) = (status = 404)"
| "is_not_found (Request (RedactedWrite status) _) = (status = Some 404)"
| "is_not_found _ = False"

fun refused_before_writing :: "plan_failure \<Rightarrow> bool" where
  "refused_before_writing (Request (StaleResource _) _) = True"
| "refused_before_writing (MembershipChanged _ _ _) = True"
| "refused_before_writing _ = False"

section \<open>Effects\<close>

type_synonym ('w, 'a) plan = "'w \<Rightarrow> (plan_failure + 'a) \<times> 'w"

definition give :: "'a \<Rightarrow> ('w, 'a) plan" where
  "give a w = (Inr a, w)"

definition throw :: "plan_failure \<Rightarrow> ('w, 'a) plan" where
  "throw e w = (Inl e, w)"

definition then_do :: "('w, 'a) plan \<Rightarrow> ('a \<Rightarrow> ('w, 'b) plan) \<Rightarrow> ('w, 'b) plan" where
  "then_do m f w = (case m w of (Inl e, w') \<Rightarrow> (Inl e, w') | (Inr a, w') \<Rightarrow> f a w')"

definition attempt :: "('w, 'a) plan \<Rightarrow> ('w, plan_failure + 'a) plan" where
  "attempt m w = (case m w of (r, w') \<Rightarrow> (Inr r, w'))"

definition refuse_if :: "plan_failure option \<Rightarrow> ('w, unit) plan" where
  "refuse_if e = (case e of None \<Rightarrow> give () | Some f \<Rightarrow> throw f)"

record 'w membership_deps =
  md_namespace :: string
  md_role :: "string option"
  md_list_proxies :: "('w, resource list) plan"
  md_get_proxy :: "string \<Rightarrow> ('w, resource) plan"
  md_update_proxy :: "string \<Rightarrow> resource \<Rightarrow> resource option \<Rightarrow> ('w, resource) plan"
  md_get_plugin :: "string \<Rightarrow> ('w, resource) plan"
  md_create_plugin :: "resource \<Rightarrow> ('w, resource) plan"
  md_update_plugin :: "string \<Rightarrow> resource \<Rightarrow> resource option \<Rightarrow> string list \<Rightarrow> ('w, resource) plan"
  md_delete_plugin :: "string \<Rightarrow> resource option \<Rightarrow> string list \<Rightarrow> ('w, unit) plan"
  md_can_condition :: "resource \<Rightarrow> bool"

section \<open>Resources\<close>

definition text_of :: "string json option \<Rightarrow> string" where
  "text_of v = (case v of Some (JStr s) \<Rightarrow> s | _ \<Rightarrow> [])"

definition id_of :: "resource \<Rightarrow> string" where
  "id_of r = text_of (jm_get r ''id'')"

definition scope_of :: "resource \<Rightarrow> string" where
  "scope_of r = text_of (jm_get r ''scope'')"

definition proxy_id_of :: "resource \<Rightarrow> string" where
  "proxy_id_of r = text_of (jm_get r ''proxy_id'')"

definition associations :: "resource \<Rightarrow> string json list" where
  "associations proxy = (case jm_get proxy ''plugins'' of Some (JArr ps) \<Rightarrow> ps | _ \<Rightarrow> [])"

definition names_plugin :: "string \<Rightarrow> string json \<Rightarrow> bool" where
  "names_plugin plugin_id a \<longleftrightarrow> jfield ''plugin_config_id'' a = Some (JStr plugin_id)"

definition references_plugin :: "resource \<Rightarrow> string \<Rightarrow> bool" where
  "references_plugin proxy plugin_id \<longleftrightarrow> list_ex (names_plugin plugin_id) (associations proxy)"

definition referencing_proxy_ids :: "resource list \<Rightarrow> string \<Rightarrow> string list" where
  "referencing_proxy_ids proxies plugin_id = map id_of (filter (\<lambda>p. references_plugin p plugin_id) proxies)"

definition write_payload :: "resource \<Rightarrow> resource" where
  "write_payload r = without [''created_at'', ''updated_at'', ''namespace'', ''api_spec_id''] r"

definition observed_membership :: "resource \<Rightarrow> string list \<Rightarrow> string list" where
  "observed_membership plugin members =
     (if scope_of plugin = ''proxy_group'' then js_unique members
      else if scope_of plugin = ''proxy'' \<and> proxy_id_of plugin \<noteq> [] then [proxy_id_of plugin] else [])"

definition desired_associations :: "resource \<Rightarrow> string \<Rightarrow> bool \<Rightarrow> string json list" where
  "desired_associations proxy plugin_id include =
     (let others = filter (\<lambda>a. \<not> names_plugin plugin_id a) (associations proxy) in
      if include then others @ [JObj [(''plugin_config_id'', JStr plugin_id)]] else others)"

definition association_needs_change :: "resource \<Rightarrow> string \<Rightarrow> bool \<Rightarrow> bool" where
  "association_needs_change proxy plugin_id include \<longleftrightarrow>
     (let matches = length (filter (names_plugin plugin_id) (associations proxy)) in
      if include then matches \<noteq> 1 else matches \<noteq> 0)"

definition association_payload :: "resource \<Rightarrow> string \<Rightarrow> bool \<Rightarrow> resource" where
  "association_payload proxy plugin_id include =
     jm_set ''plugins'' (JArr (desired_associations proxy plugin_id include)) (write_payload proxy)"

section \<open>Checks\<close>

definition membership_unchanged :: "resource list \<Rightarrow> string \<Rightarrow> string list \<Rightarrow> operation \<Rightarrow> plan_failure option" where
  "membership_unchanged proxies plugin_id observed op =
     (let unexpected = filter (\<lambda>i. i \<notin> set observed) (referencing_proxy_ids proxies plugin_id) in
      if unexpected = [] then None else Some (MembershipChanged plugin_id op unexpected))"

definition editor_baseline ::
  "resource \<Rightarrow> write_guard option \<Rightarrow> operation \<Rightarrow> resource option \<Rightarrow> string \<Rightarrow> plan_failure option" where
  "editor_baseline plugin guard op proposed ns =
     (case guard of
        None \<Rightarrow> None
      | Some g \<Rightarrow>
          if resource_fingerprint (wg_select g plugin) = resource_fingerprint (wg_baseline g) then None
          else Some (Request (StaleResource
            \<lparr>sd_resource = ''plugin configuration'', sd_operation = op, sd_id = id_of plugin, sd_namespace = ns,
             sd_original = wg_baseline g, sd_current = wg_select g plugin,
             sd_proposed = (case proposed of Some p \<Rightarrow> wg_select g p | None \<Rightarrow> wg_baseline g)\<rparr>) False))"

definition plain :: "reason \<Rightarrow> plan_failure" where
  "plain why = Membership why [] None None"

definition validate_scope :: "resource \<Rightarrow> string list \<Rightarrow> plan_failure option" where
  "validate_scope data desired =
     (if scope_of data = ''proxy_group'' \<and> desired = [] then Some (plain GroupNeedsProxy)
      else if scope_of data = ''proxy'' \<and> proxy_id_of data = [] then Some (plain ScopeNeedsProxy)
      else if scope_of data \<noteq> ''proxy'' \<and> proxy_id_of data \<noteq> [] then Some (plain ScopeCannotCarryProxy)
      else if scope_of data \<noteq> ''proxy_group'' \<and> desired \<noteq> [] then Some (plain OnlyGroupsHaveMembers)
      else None)"

definition unique_ids :: "string list \<Rightarrow> plan_failure option" where
  "unique_ids ids =
     (if \<not> distinct ids \<or> list_ex (\<lambda>i. js_trim i = []) ids then Some (plain DuplicateOrBlankIds) else None)"

definition load_plan :: "'w membership_deps \<Rightarrow> string list \<Rightarrow> ('w, resource list) plan" where
  "load_plan d ids =
     then_do (refuse_if (unique_ids ids)) (\<lambda>_.
     then_do (md_list_proxies d) (\<lambda>proxies.
     let missing = filter (\<lambda>i. i \<notin> set (map id_of proxies)) ids in
     if missing \<noteq> [] then throw (plain (UnknownProxies missing)) else give proxies))"

definition get_plugin_if_present :: "'w membership_deps \<Rightarrow> string \<Rightarrow> ('w, resource option) plan" where
  "get_plugin_if_present d plugin_id =
     then_do (attempt (md_get_plugin d plugin_id)) (\<lambda>r.
       case r of Inr p \<Rightarrow> give (Some p) | Inl e \<Rightarrow> if is_not_found e then give None else throw e)"

definition recovery_state :: "'w membership_deps \<Rightarrow> string \<Rightarrow> ('w, recovery_note list) plan" where
  "recovery_state d plugin_id =
     then_do (attempt (get_plugin_if_present d plugin_id)) (\<lambda>p.
     then_do (attempt (md_list_proxies d)) (\<lambda>ps.
     give [(case p of
              Inr (Some plugin) \<Rightarrow> PluginExists plugin_id (jm_get plugin ''scope'')
            | Inr None \<Rightarrow> PluginMissing plugin_id
            | Inl _ \<Rightarrow> ExistenceUnverified plugin_id),
           (case ps of
              Inr proxies \<Rightarrow> RemainingReferences (referencing_proxy_ids proxies plugin_id)
            | Inl _ \<Rightarrow> ReferencesUnverified)]))"

definition unless_changed :: "('w, 'a) plan \<Rightarrow> plan_failure \<Rightarrow> ('w, 'a) plan" where
  "unless_changed write changed =
     then_do (attempt write) (\<lambda>r.
       case r of Inr a \<Rightarrow> give a | Inl e \<Rightarrow> if refused_precondition e then throw changed else throw e)"

section \<open>Associations\<close>

record association_change =
  ac_before :: resource
  ac_after :: resource

definition apply_change ::
  "'w membership_deps \<Rightarrow> string \<Rightarrow> string list \<Rightarrow> resource \<Rightarrow> ('w, association_change) plan" where
  "apply_change d plugin_id desired snapshot =
     then_do (md_get_proxy d (id_of snapshot)) (\<lambda>current.
     if jm_get current ''updated_at'' \<noteq> jm_get snapshot ''updated_at''
     then throw (plain (ProxyChangedDuringPreflight (id_of snapshot)))
     else then_do
       (unless_changed
         (md_update_proxy d (id_of snapshot)
           (association_payload current plugin_id (id_of current \<in> set desired)) (Some current))
         (plain (ProxyChangedDuringPreflight (id_of snapshot))))
       (\<lambda>after. give \<lparr>ac_before = current, ac_after = after\<rparr>))"

text \<open>The changes made before a failure are kept for the rollback.\<close>

primrec apply_changes ::
  "'w membership_deps \<Rightarrow> string \<Rightarrow> string list \<Rightarrow> resource list \<Rightarrow> association_change list \<Rightarrow>
   ('w, plan_failure option \<times> association_change list) plan" where
  "apply_changes d plugin_id desired [] applied = give (None, applied)"
| "apply_changes d plugin_id desired (s # rest) applied =
     then_do (attempt (apply_change d plugin_id desired s)) (\<lambda>r.
       case r of
         Inl e \<Rightarrow> give (Some e, applied)
       | Inr c \<Rightarrow> apply_changes d plugin_id desired rest (applied @ [c]))"

definition apply_association_plan ::
  "'w membership_deps \<Rightarrow> resource list \<Rightarrow> string \<Rightarrow> string list \<Rightarrow>
   ('w, plan_failure option \<times> association_change list) plan" where
  "apply_association_plan d proxies plugin_id desired =
     (let changed = filter (\<lambda>p. association_needs_change p plugin_id (id_of p \<in> set desired)) proxies;
          ordered = sort_key (\<lambda>p. if id_of p \<in> set desired then 0 else 1 :: nat) changed in
      apply_changes d plugin_id desired ordered [])"
section \<open>Rollback\<close>

definition rollback_change :: "'w membership_deps \<Rightarrow> string \<Rightarrow> association_change \<Rightarrow> ('w, recovery_note list) plan" where
  "rollback_change d plugin_id c =
     (if \<not> references_plugin (ac_before c) plugin_id then give [LeftAttached (id_of (ac_after c))]
      else
        then_do (attempt
          (then_do (md_get_proxy d (id_of (ac_after c))) (\<lambda>current.
           if jm_get current ''updated_at'' \<noteq> jm_get (ac_after c) ''updated_at''
           then give [NotOverwritten (id_of current)]
           else then_do (get_plugin_if_present d plugin_id) (\<lambda>plugin.
             if plugin = None then give [NotReattached (id_of current)]
             else then_do (md_update_proxy d (id_of current) (write_payload (ac_before c)) (Some current))
                    (\<lambda>_. give [])))))
        (\<lambda>r. give (case r of
             Inr notes \<Rightarrow> notes
           | Inl e \<Rightarrow> if refused_precondition e then [NotOverwritten (id_of (ac_before c))]
                     else [AssociationRollbackFailed (id_of (ac_before c))])))"

primrec rollback_changes ::
  "'w membership_deps \<Rightarrow> string \<Rightarrow> association_change list \<Rightarrow> ('w, recovery_note list) plan" where
  "rollback_changes d plugin_id [] = give []"
| "rollback_changes d plugin_id (c # cs) =
     then_do (rollback_change d plugin_id c) (\<lambda>notes.
     then_do (rollback_changes d plugin_id cs) (\<lambda>more. give (notes @ more)))"

definition rollback_associations ::
  "'w membership_deps \<Rightarrow> string \<Rightarrow> association_change list \<Rightarrow> ('w, recovery_note list) plan" where
  "rollback_associations d plugin_id applied =
     rollback_changes d plugin_id
       (sort_key (\<lambda>c. if references_plugin (ac_before c) plugin_id then 0 else 1 :: nat) (rev applied))"

definition rollback_fence :: "string list \<Rightarrow> association_change list \<Rightarrow> string \<Rightarrow> resource \<Rightarrow> string list" where
  "rollback_fence observed applied plugin_id data =
     js_unique (observed @
       map (\<lambda>c. id_of (ac_after c)) (filter (\<lambda>c. references_plugin (ac_after c) plugin_id) applied) @
       (if scope_of data = ''proxy'' \<and> proxy_id_of data \<noteq> [] then [proxy_id_of data] else []))"

definition unaccounted_references :: "resource list \<Rightarrow> string \<Rightarrow> string list \<Rightarrow> string list" where
  "unaccounted_references proxies plugin_id fence =
     filter (\<lambda>i. i \<notin> set fence) (referencing_proxy_ids proxies plugin_id)"

definition rollback_plugin ::
  "url_parser \<Rightarrow> 'w membership_deps \<Rightarrow> resource \<Rightarrow> resource \<Rightarrow> string list \<Rightarrow> ('w, recovery_note list) plan" where
  "rollback_plugin parse d before after fence =
     (let masked = ps_blocking (plugin_config_placeholder_sites parse (text_of (jm_get before ''plugin_name''))
                                  (jm_get before ''config'') (md_role d)) in
      if masked \<noteq> [] then give [MaskedNotRestored masked]
      else
        then_do (attempt
          (then_do (get_plugin_if_present d (id_of after)) (\<lambda>found.
           case found of
             None \<Rightarrow> give [MissingNotRestored (id_of after)]
           | Some current \<Rightarrow>
               if jm_get current ''updated_at'' \<noteq> jm_get after ''updated_at''
               then give [ConfigNotOverwritten (id_of after)]
               else then_do (md_list_proxies d) (\<lambda>proxies.
                 let unaccounted = unaccounted_references proxies (id_of before) fence in
                 if unaccounted \<noteq> [] then give [NotRestoredOver unaccounted]
                 else then_do (md_update_plugin d (id_of before) (write_payload before) (Some current) fence)
                        (\<lambda>_. give [])))))
        (\<lambda>r. case r of
             Inr notes \<Rightarrow> give notes
           | Inl e \<Rightarrow>
               if refused_precondition e
               then then_do (attempt (md_list_proxies d)) (\<lambda>ps.
                 let unaccounted = (case ps of Inr proxies \<Rightarrow> unaccounted_references proxies (id_of before) fence | Inl _ \<Rightarrow> []) in
                 give (if unaccounted \<noteq> [] then [NotRestoredOver unaccounted] else [ConfigNotOverwritten (id_of after)]))
               else give [PluginRollbackFailed (id_of before)]))"

section \<open>The plugin write and its attachment\<close>

definition update_plugin_if_unchanged ::
  "'w membership_deps \<Rightarrow> resource \<Rightarrow> resource \<Rightarrow> write_guard option \<Rightarrow> string list \<Rightarrow> ('w, resource) plan" where
  "update_plugin_if_unchanged d snapshot data guard expected =
     (let changed = plain (PluginChangedDuringPreflight (id_of snapshot)) in
      then_do (md_get_plugin d (id_of snapshot)) (\<lambda>current.
      then_do (refuse_if (editor_baseline current guard Save (Some data) (md_namespace d))) (\<lambda>_.
      if jm_get current ''updated_at'' \<noteq> jm_get snapshot ''updated_at'' then throw changed
      else then_do (attempt (md_update_plugin d (id_of snapshot) data (Some current) expected)) (\<lambda>r.
        case r of
          Inr updated \<Rightarrow> give updated
        | Inl e \<Rightarrow>
            if \<not> refused_precondition e then throw e
            else then_do (get_plugin_if_present d (id_of snapshot)) (\<lambda>latest.
              then_do (refuse_if (Option.bind latest (\<lambda>l. editor_baseline l guard Save (Some data) (md_namespace d)))) (\<lambda>_.
              then_do (attempt (md_list_proxies d)) (\<lambda>ps.
              then_do (refuse_if (case ps of
                         Inr proxies \<Rightarrow> membership_unchanged proxies (id_of snapshot) expected Save
                       | Inl _ \<Rightarrow> None)) (\<lambda>_.
              throw changed))))))))"

definition reconcile_proxy_scoped_association :: "'w membership_deps \<Rightarrow> string \<Rightarrow> string \<Rightarrow> ('w, unit) plan" where
  "reconcile_proxy_scoped_association d plugin_id proxy_id =
     then_do (md_get_proxy d proxy_id) (\<lambda>proxy.
     if references_plugin proxy plugin_id then give ()
     else then_do
       (unless_changed (md_update_proxy d (id_of proxy) (association_payload proxy plugin_id True) (Some proxy))
         (plain (ProxyChangedDuringAttach proxy_id))) (\<lambda>_.
     then_do (md_get_proxy d proxy_id) (\<lambda>confirmed.
     if references_plugin confirmed plugin_id then give ()
     else throw (Membership (CouldNotAttach plugin_id) [DoesNotRun proxy_id] None None))))"

definition detach_former_proxy_scope :: "'w membership_deps \<Rightarrow> string \<Rightarrow> string \<Rightarrow> ('w, unit) plan" where
  "detach_former_proxy_scope d plugin_id former =
     then_do (attempt (md_get_proxy d former)) (\<lambda>r.
       case r of
         Inl e \<Rightarrow> if is_not_found e then give () else throw e
       | Inr proxy \<Rightarrow>
           if \<not> references_plugin proxy plugin_id then give ()
           else then_do
             (unless_changed (md_update_proxy d (id_of proxy) (association_payload proxy plugin_id False) (Some proxy))
               (plain (ProxyChangedDuringDetach former))) (\<lambda>_. give ()))"

definition kept_created_plugin :: "'w membership_deps \<Rightarrow> resource \<Rightarrow> ('w, recovery_note list) plan" where
  "kept_created_plugin d created =
     then_do (recovery_state d (id_of created)) (\<lambda>notes. give (CreatedAndKept (id_of created) # notes))"

section \<open>Plans\<close>

definition create_not_converged :: "'w membership_deps \<Rightarrow> resource \<Rightarrow> plan_failure \<Rightarrow> ('w, resource) plan" where
  "create_not_converged d created cause =
     then_do (kept_created_plugin d created) (\<lambda>recovery.
       throw (Membership CreateDidNotConverge recovery (Some cause) (Some (write_payload created))))"

definition create_plugin_with_membership :: "'w membership_deps \<Rightarrow> resource \<Rightarrow> string list \<Rightarrow> ('w, resource) plan" where
  "create_plugin_with_membership d data desired =
     then_do (refuse_if (validate_scope data desired)) (\<lambda>_.
     then_do (load_plan d (if scope_of data = ''proxy_group'' then desired else [])) (\<lambda>proxies.
     then_do (md_create_plugin d data) (\<lambda>created.
     if scope_of data = ''proxy'' \<and> proxy_id_of data \<noteq> []
     then then_do (attempt (reconcile_proxy_scoped_association d (id_of created) (proxy_id_of data))) (\<lambda>r.
       case r of Inr _ \<Rightarrow> give created | Inl e \<Rightarrow> create_not_converged d created e)
     else if scope_of data \<noteq> ''proxy_group'' then give created
     else then_do (apply_association_plan d proxies (id_of created) desired) (\<lambda>(e, applied).
       case e of None \<Rightarrow> give created | Some f \<Rightarrow> create_not_converged d created f))))"

definition saved_unverified ::
  "'w membership_deps \<Rightarrow> string \<Rightarrow> resource \<Rightarrow> resource list \<Rightarrow> resource option \<Rightarrow> plan_failure \<Rightarrow> ('w, resource) plan" where
  "saved_unverified d plugin_id data proxies updated cause =
     (let members = referencing_proxy_ids proxies plugin_id;
          target = scope_of data = ''proxy'' \<and> proxy_id_of data \<noteq> [] in
      then_do (case updated of
                 Some u \<Rightarrow> give (Some u)
               | None \<Rightarrow> then_do (attempt (get_plugin_if_present d plugin_id)) (\<lambda>r.
                   give (case r of Inr p \<Rightarrow> p | Inl _ \<Rightarrow> None))) (\<lambda>saved.
      then_do (recovery_state d plugin_id) (\<lambda>notes.
      throw (SavedUnverified
        ([MembersBefore members,
          ScopeChangeDetached (filter (\<lambda>i. \<not> (scope_of data = ''proxy'' \<and> i = proxy_id_of data)) members)] @
         (if target then [CheckTarget (proxy_id_of data)] else []) @ notes)
        cause saved (updated = None)))))"

definition update_failed ::
  "url_parser \<Rightarrow> 'w membership_deps \<Rightarrow> string \<Rightarrow> resource \<Rightarrow> resource \<Rightarrow> resource list \<Rightarrow> string list \<Rightarrow>
   resource option \<Rightarrow> association_change list \<Rightarrow> plan_failure \<Rightarrow> ('w, resource) plan" where
  "update_failed parse d plugin_id data before proxies observed updated applied e =
     (if refused_before_writing e \<and> updated = None then throw e
      else if (updated \<noteq> None \<or> (updated = None \<and> committed e)) \<and>
              scope_of before = ''proxy_group'' \<and> scope_of data \<noteq> ''proxy_group''
      then saved_unverified d plugin_id data proxies updated e
      else let fence = rollback_fence observed applied plugin_id data in
        then_do (case updated of
                   Some u \<Rightarrow>
                     if scope_of before \<noteq> ''proxy_group'' then rollback_plugin parse d before u fence
                     else then_do (rollback_associations d plugin_id applied) (\<lambda>notes.
                       then_do (rollback_plugin parse d before u fence) (\<lambda>more. give (notes @ more)))
                 | None \<Rightarrow> rollback_associations d plugin_id applied) (\<lambda>recovery.
        then_do (recovery_state d plugin_id) (\<lambda>notes.
        throw (Membership UpdateDidNotConverge (recovery @ notes) (Some e) (Some (write_payload before))))))"

text \<open>What follows the plugin write: the group's associations, or the proxy scope's attachments.\<close>

definition follow_up ::
  "'w membership_deps \<Rightarrow> string \<Rightarrow> resource \<Rightarrow> resource \<Rightarrow> resource list \<Rightarrow> string list \<Rightarrow>
   ('w, plan_failure option \<times> association_change list) plan" where
  "follow_up d plugin_id data before proxies desired =
     (let former = (if scope_of before = ''proxy'' then proxy_id_of before else []) in
      if scope_of data = ''proxy_group'' then apply_association_plan d proxies plugin_id desired
      else then_do (attempt
        (if scope_of data = ''proxy'' \<and> proxy_id_of data \<noteq> []
         then then_do (reconcile_proxy_scoped_association d plugin_id (proxy_id_of data)) (\<lambda>_.
           if former \<noteq> [] \<and> former \<noteq> proxy_id_of data then detach_former_proxy_scope d plugin_id former else give ())
         else if former \<noteq> [] then detach_former_proxy_scope d plugin_id former else give ()))
        (\<lambda>r. give (case r of Inr _ \<Rightarrow> None | Inl e \<Rightarrow> Some e, [])))"

definition update_plugin_with_membership ::
  "url_parser \<Rightarrow> 'w membership_deps \<Rightarrow> string \<Rightarrow> resource \<Rightarrow> string list \<Rightarrow> write_guard option \<Rightarrow> string list \<Rightarrow>
   ('w, resource) plan" where
  "update_plugin_with_membership parse d plugin_id data desired guard observed_ids =
     (let observed = js_unique observed_ids in
      then_do (refuse_if (validate_scope data desired)) (\<lambda>_.
      then_do (md_get_plugin d plugin_id) (\<lambda>before.
      then_do (refuse_if (editor_baseline before guard Save (Some data) (md_namespace d))) (\<lambda>_.
      then_do (load_plan d (if scope_of data = ''proxy_group'' then desired else [])) (\<lambda>proxies.
      then_do (refuse_if (membership_unchanged proxies plugin_id observed Save)) (\<lambda>_.
      then_do (attempt (update_plugin_if_unchanged d before data guard observed)) (\<lambda>r.
      case r of
        Inl e \<Rightarrow> update_failed parse d plugin_id data before proxies observed None [] e
      | Inr updated \<Rightarrow>
          then_do (follow_up d plugin_id data before proxies desired) (\<lambda>(e, applied).
            case e of
              None \<Rightarrow> give updated
            | Some f \<Rightarrow> update_failed parse d plugin_id data before proxies observed (Some updated) applied f))))))))"

definition delete_plugin_with_membership ::
  "'w membership_deps \<Rightarrow> string \<Rightarrow> write_guard option \<Rightarrow> string list \<Rightarrow> ('w, unit) plan" where
  "delete_plugin_with_membership d plugin_id guard observed_ids =
     (let observed = js_unique observed_ids; ns = md_namespace d in
      then_do (md_get_plugin d plugin_id) (\<lambda>plugin.
      if \<not> md_can_condition d plugin then throw (Request (GuardVerification Remove) False)
      else then_do (refuse_if (editor_baseline plugin guard Remove None ns)) (\<lambda>_.
      then_do (md_list_proxies d) (\<lambda>proxies.
      then_do (refuse_if (membership_unchanged proxies plugin_id observed Remove)) (\<lambda>_.
      then_do (attempt (md_delete_plugin d plugin_id (Some plugin) observed)) (\<lambda>r.
      case r of
        Inr _ \<Rightarrow> give ()
      | Inl e \<Rightarrow>
          if is_not_found e then give ()
          else if committed e then throw e
          else if refused_precondition e
          then then_do (attempt (get_plugin_if_present d plugin_id)) (\<lambda>l.
            then_do (refuse_if (case l of
                       Inr (Some latest) \<Rightarrow> editor_baseline latest guard Remove None ns
                     | _ \<Rightarrow> None)) (\<lambda>_.
            then_do (attempt (md_list_proxies d)) (\<lambda>ps.
            then_do (refuse_if (case ps of
                       Inr now_listed \<Rightarrow> membership_unchanged now_listed plugin_id observed Remove
                     | Inl _ \<Rightarrow> None)) (\<lambda>_.
            then_do (recovery_state d plugin_id) (\<lambda>notes.
            throw (Membership ChangedDuringDeletion notes (Some e) None))))))
          else then_do (recovery_state d plugin_id) (\<lambda>notes.
            throw (Membership DeletionFailed notes (Some e) (Some (write_payload plugin))))))))))"
section \<open>What a plan writes\<close>

text \<open>The requests of a run, with what the reads answered.\<close>

datatype plan_event =
    ListedProxies "plan_failure + resource list"
  | ReadProxy string "plan_failure + resource"
  | ReadPlugin string "plan_failure + resource"
  | PutProxy string resource "resource option"
  | PostPlugin resource
  | PutPlugin string resource "resource option" "string list"
  | RemovePlugin string "resource option" "string list"

definition noting :: "((plan_failure + 'a) \<Rightarrow> 'l) \<Rightarrow> ('w, 'a) plan \<Rightarrow> ('w \<times> 'l list, 'a) plan" where
  "noting ev m s = (case m (fst s) of (r, w') \<Rightarrow> (r, (w', snd s @ [ev r])))"

definition logged :: "'w membership_deps \<Rightarrow> ('w \<times> plan_event list) membership_deps" where
  "logged d =
     \<lparr>md_namespace = md_namespace d, md_role = md_role d,
      md_list_proxies = noting ListedProxies (md_list_proxies d),
      md_get_proxy = (\<lambda>i. noting (ReadProxy i) (md_get_proxy d i)),
      md_update_proxy = (\<lambda>i p b. noting (\<lambda>_. PutProxy i p b) (md_update_proxy d i p b)),
      md_get_plugin = (\<lambda>i. noting (ReadPlugin i) (md_get_plugin d i)),
      md_create_plugin = (\<lambda>p. noting (\<lambda>_. PostPlugin p) (md_create_plugin d p)),
      md_update_plugin = (\<lambda>i p b x. noting (\<lambda>_. PutPlugin i p b x) (md_update_plugin d i p b x)),
      md_delete_plugin = (\<lambda>i b x. noting (\<lambda>_. RemovePlugin i b x) (md_delete_plugin d i b x)),
      md_can_condition = md_can_condition d\<rparr>"

fun is_write :: "plan_event \<Rightarrow> bool" where
  "is_write (ListedProxies _) = False"
| "is_write (ReadProxy _ _) = False"
| "is_write (ReadPlugin _ _) = False"
| "is_write _ = True"

definition writes :: "plan_event list \<Rightarrow> plan_event list" where
  "writes evs = filter is_write evs"

lemma writes_simps [simp]: "writes [] = []" "writes (xs @ ys) = writes xs @ writes ys"
  "writes (e # evs) = (if is_write e then e # writes evs else writes evs)"
  by (simp_all add: writes_def)

definition faithful_reads :: "'w membership_deps \<Rightarrow> bool" where
  "faithful_reads d \<longleftrightarrow>
     (\<forall>i w p w'. md_get_proxy d i w = (Inr p, w') \<longrightarrow> id_of p = i) \<and>
     (\<forall>i w p w'. md_get_plugin d i w = (Inr p, w') \<longrightarrow> id_of p = i)"

text \<open>\<open>emits m Q\<close>: whatever the gateway does, a run of \<open>m\<close> appends events to the log that \<open>Q\<close> allows with its
  result.\<close>

definition emits :: "('w \<times> 'l list, 'a) plan \<Rightarrow> ((plan_failure + 'a) \<Rightarrow> 'l list \<Rightarrow> bool) \<Rightarrow> bool" where
  "emits m Q \<longleftrightarrow> (\<forall>w l r w' l'. m (w, l) = (r, (w', l')) \<longrightarrow> (\<exists>new. l' = l @ new \<and> Q r new))"

named_theorems emits_rules \<open>events of the composed effects\<close>

lemma emitsD: "emits m Q \<Longrightarrow> m (w, l) = (r, (w', l')) \<Longrightarrow> \<exists>new. l' = l @ new \<and> Q r new"
  by (simp add: emits_def)

lemma emits_give [emits_rules]: "Q (Inr a) [] \<Longrightarrow> emits (give a) Q"
  by (simp add: emits_def give_def)

lemma emits_throw [emits_rules]: "Q (Inl e) [] \<Longrightarrow> emits (throw e) Q"
  by (simp add: emits_def throw_def)

lemma emits_noting: "(\<And>r. (\<exists>w w'. m w = (r, w')) \<Longrightarrow> Q r [ev r]) \<Longrightarrow> emits (noting ev m) Q"
  unfolding emits_def
proof (intro allI impI)
  fix w l r w' l'
  assume ok: "\<And>r. (\<exists>w w'. m w = (r, w')) \<Longrightarrow> Q r [ev r]" and run: "noting ev m (w, l) = (r, (w', l'))"
  obtain x w1 where m: "m w = (x, w1)" by (metis surj_pair)
  then have "x = r" "l' = l @ [ev r]" using run unfolding noting_def by auto
  then show "\<exists>new. l' = l @ new \<and> Q r new" using ok m by auto
qed

lemma emits_then:
  assumes "emits m P" "\<And>e n. P (Inl e) n \<Longrightarrow> Q (Inl e) n"
    and "\<And>a n. P (Inr a) n \<Longrightarrow> emits (f a) (\<lambda>r n'. Q r (n @ n'))"
  shows "emits (then_do m f) Q"
  unfolding emits_def
proof (intro allI impI)
  fix w l r w' l'
  assume run: "then_do m f (w, l) = (r, (w', l'))"
  obtain x w1 l1 where m: "m (w, l) = (x, (w1, l1))" by (metis surj_pair)
  obtain n where n: "l1 = l @ n" "P x n" using emitsD [OF assms(1) m] by blast
  show "\<exists>new. l' = l @ new \<and> Q r new"
  proof (cases x)
    case (Inl e)
    then show ?thesis using run m n assms(2) by (auto simp: then_do_def)
  next
    case (Inr a)
    then have "f a (w1, l1) = (r, (w', l'))" using run m by (simp add: then_do_def)
    then obtain n' where "l' = l1 @ n'" "Q r (n @ n')"
      using emitsD [OF assms(3)] n(2) [unfolded Inr] by metis
    then show ?thesis using n(1) by auto
  qed
qed

lemma emits_attempt: "emits m P \<Longrightarrow> (\<And>r n. P r n \<Longrightarrow> Q (Inr r) n) \<Longrightarrow> emits (attempt m) Q"
  unfolding emits_def
proof (intro allI impI)
  fix w l r w' l'
  assume P: "\<forall>w l r w' l'. m (w, l) = (r, (w', l')) \<longrightarrow> (\<exists>new. l' = l @ new \<and> P r new)"
    and ok: "\<And>r n. P r n \<Longrightarrow> Q (Inr r) n" and run: "attempt m (w, l) = (r, (w', l'))"
  obtain x w1 l1 where m: "m (w, l) = (x, (w1, l1))" by (metis surj_pair)
  then have "r = Inr x" "l' = l1" using run by (simp_all add: attempt_def)
  then show "\<exists>new. l' = l @ new \<and> Q r new" using P m ok by metis
qed

lemma emits_weaken: "emits m P \<Longrightarrow> (\<And>r n. P r n \<Longrightarrow> Q r n) \<Longrightarrow> emits m Q"
  unfolding emits_def by blast

lemma emits_refuse [emits_rules]:
  assumes "\<And>e. x = Some e \<Longrightarrow> Q (Inl e) []" "x = None \<Longrightarrow> emits (f ()) Q"
  shows "emits (then_do (refuse_if x) f) Q"
proof (cases x)
  case None
  then show ?thesis using assms(2) by (simp add: then_do_def refuse_if_def give_def emits_def)
next
  case (Some e)
  then show ?thesis using assms(1) by (simp add: then_do_def refuse_if_def throw_def emits_def)
qed

text \<open>An effect that writes nothing.\<close>

definition silent :: "('w \<times> plan_event list, 'a) plan \<Rightarrow> bool" where
  "silent m \<longleftrightarrow> emits m (\<lambda>_ n. writes n = [])"

lemma silent_reads [simp]:
  "silent (md_list_proxies (logged d))" "silent (md_get_proxy (logged d) i)" "silent (md_get_plugin (logged d) i)"
  by (auto simp: silent_def logged_def intro: emits_noting)

lemma silent_give [simp]: "silent (give a)" and silent_throw [simp]: "silent (throw e)"
  by (auto simp: silent_def intro: emits_rules)

lemma silent_then: "silent m \<Longrightarrow> (\<And>a. silent (f a)) \<Longrightarrow> silent (then_do m f)"
  unfolding silent_def by (rule emits_then, assumption) (auto intro: emits_weaken)

lemma silent_attempt: "silent m \<Longrightarrow> silent (attempt m)"
  unfolding silent_def by (rule emits_attempt)

lemma silent_refuse [simp]: "silent (refuse_if x)"
  by (cases x) (simp_all add: refuse_if_def)

lemma silent_present [simp]: "silent (get_plugin_if_present (logged d) i)"
  unfolding get_plugin_if_present_def by (auto intro!: silent_then silent_attempt split: sum.split)

lemma silent_recovery [simp]: "silent (recovery_state (logged d) i)"
  unfolding recovery_state_def by (auto intro!: silent_then silent_attempt)

lemma silent_load [simp]: "silent (load_plan (logged d) ids)"
  unfolding load_plan_def Let_def by (auto intro!: silent_then)

lemma emits_silent:
  assumes "silent m" "\<And>e n. writes n = [] \<Longrightarrow> Q (Inl e) n" "\<And>a n. writes n = [] \<Longrightarrow> emits (f a) (\<lambda>r n'. Q r (n @ n'))"
  shows "emits (then_do m f) Q"
  using assms unfolding silent_def by (rule emits_then)

lemma emits_silent_attempt:
  assumes "silent m" "\<And>r n. writes n = [] \<Longrightarrow> emits (f r) (\<lambda>x n'. Q x (n @ n'))"
  shows "emits (then_do (attempt m) f) Q"
  by (rule emits_then [OF emits_attempt [OF assms(1) [unfolded silent_def],
        where Q = "\<lambda>x n. (\<exists>r. x = Inr r) \<and> writes n = []"]]) (use assms(2) in auto)

lemma emits_read:
  assumes "\<And>e. Q (Inl e) [ev (Inl e)]"
    and "\<And>a w w'. m w = (Inr a, w') \<Longrightarrow> emits (f a) (\<lambda>r n. Q r (ev (Inr a) # n))"
  shows "emits (then_do (noting ev m) f) Q"
proof (rule emits_then [OF emits_noting [where Q = "\<lambda>r n. n = [ev r] \<and> (\<exists>w w'. m w = (r, w'))"]], goal_cases)
  case (2 e n)
  then show ?case using assms(1) by auto
next
  case (3 a n)
  then show ?case using assms(2) by auto
qed auto

lemma emits_write_attempt:
  assumes "\<And>r. emits (f r) (\<lambda>x n. Q x (ev r # n))"
  shows "emits (then_do (attempt (noting ev m)) f) Q"
proof (rule emits_then [OF emits_attempt [OF emits_noting [where Q = "\<lambda>r n. n = [ev r]"],
        where Q = "\<lambda>x n. \<exists>r. x = Inr r \<and> n = [ev r]"]], goal_cases)
  case (4 a n)
  then show ?case using assms by auto
qed auto

lemma emits_if: "(c \<Longrightarrow> emits a Q) \<Longrightarrow> (\<not> c \<Longrightarrow> emits b Q) \<Longrightarrow> emits (if c then a else b) Q"
  by simp

lemma silent_if: "silent a \<Longrightarrow> silent b \<Longrightarrow> silent (if c then a else b)"
  by simp

section \<open>Deleting a plugin\<close>

lemma unfold_logged:
  "md_get_plugin (logged d) i = noting (ReadPlugin i) (md_get_plugin d i)"
  "md_get_proxy (logged d) i = noting (ReadProxy i) (md_get_proxy d i)"
  "md_list_proxies (logged d) = noting ListedProxies (md_list_proxies d)"
  "md_update_plugin (logged d) i p b x = noting (\<lambda>_. PutPlugin i p b x) (md_update_plugin d i p b x)"
  "md_update_proxy (logged d) i p b = noting (\<lambda>_. PutProxy i p b) (md_update_proxy d i p b)"
  "md_delete_plugin (logged d) i b x = noting (\<lambda>_. RemovePlugin i b x) (md_delete_plugin d i b x)"
  "md_can_condition (logged d) = md_can_condition d" "md_namespace (logged d) = md_namespace d"
  "md_role (logged d) = md_role d"
  by (simp_all add: logged_def)

definition deleted_as_observed ::
  "'w membership_deps \<Rightarrow> string \<Rightarrow> write_guard option \<Rightarrow> string list \<Rightarrow> plan_failure + unit \<Rightarrow> plan_event list \<Rightarrow> bool" where
  "deleted_as_observed d pid guard ids r n \<longleftrightarrow>
     writes n = [] \<and> isl r \<or>
     (\<exists>plugin proxies later.
        n = [ReadPlugin pid (Inr plugin), ListedProxies (Inr proxies), RemovePlugin pid (Some plugin) (js_unique ids)] @ later \<and>
        writes later = [] \<and> md_can_condition d plugin \<and>
        editor_baseline plugin guard Remove None (md_namespace d) = None \<and>
        set (referencing_proxy_ids proxies pid) \<subseteq> set ids)"

lemma silent_emits: "silent m \<Longrightarrow> (\<And>r n. writes n = [] \<Longrightarrow> Q r n) \<Longrightarrow> emits m Q"
  unfolding silent_def by (rule emits_weaken)

lemma membership_unchanged_None:
  "membership_unchanged proxies pid observed op = None \<longleftrightarrow> set (referencing_proxy_ids proxies pid) \<subseteq> set observed"
  by (auto simp: membership_unchanged_def Let_def filter_empty_conv)

lemma emits_delete: "emits (delete_plugin_with_membership (logged d) pid guard ids) (deleted_as_observed d pid guard ids)"
  unfolding delete_plugin_with_membership_def Let_def unfold_logged
  apply (rule emits_read, simp add: deleted_as_observed_def)
  apply (rule emits_if, rule emits_throw, simp add: deleted_as_observed_def)
  apply (rule emits_refuse, simp add: deleted_as_observed_def)
  apply (rule emits_read, simp add: deleted_as_observed_def)
  apply (rule emits_refuse, simp add: deleted_as_observed_def)
  apply (rule emits_write_attempt)
  apply (rule silent_emits)
   apply (fold unfold_logged(3))
   apply (auto intro!: silent_then silent_attempt split: sum.split) [1]
  apply (simp add: deleted_as_observed_def membership_unchanged_None)
  done

text \<open>C24: Deleting a plugin with its memberships sends at most one write, and nothing before it but two reads: the
  plugin and the proxy listing. The \<open>DELETE\<close> goes out only when that very read can condition it and matches the
  editor's baseline, when every proxy listing the plugin is one the page showed, and it names exactly those as
  expected; when nothing was written the caller is told so. Whatever the gateway answers.\<close>

theorem plugin_deleted_only_as_observed:
  "case delete_plugin_with_membership (logged d) pid guard ids (w, []) of
     (r, (w', n)) \<Rightarrow> deleted_as_observed d pid guard ids r n"
proof -
  obtain r w' n where run: "delete_plugin_with_membership (logged d) pid guard ids (w, []) = (r, (w', n))"
    by (metis surj_pair)
  then show ?thesis using emitsD [OF emits_delete run] by simp
qed

section \<open>Saving a plugin\<close>

fun attaching :: "string \<Rightarrow> plan_event \<Rightarrow> bool" where
  "attaching pid (PutProxy i payload (Some cur)) =
     (i = id_of cur \<and> payload = association_payload cur pid True)"
| "attaching pid _ = False"

fun detaching :: "string \<Rightarrow> plan_event \<Rightarrow> bool" where
  "detaching pid (PutProxy i payload (Some cur)) =
     (i = id_of cur \<and> payload = association_payload cur pid False)"
| "detaching pid _ = False"

text \<open>A write of the rollback puts back a proxy that listed the plugin, or the plugin as it was read.\<close>

fun restoring :: "string \<Rightarrow> resource \<Rightarrow> plan_event \<Rightarrow> bool" where
  "restoring pid before (PutProxy i payload (Some cur)) = (i = id_of cur \<and> references_plugin payload pid)"
| "restoring pid before (PutPlugin i payload (Some cur) fence) = (i = id_of before \<and> payload = write_payload before)"
| "restoring pid before _ = False"

definition attach_then_detach :: "string \<Rightarrow> plan_event list \<Rightarrow> bool" where
  "attach_then_detach pid evs \<longleftrightarrow>
     list_all (detaching pid) (dropWhile (attaching pid) evs)"

lemma attach_then_detach_Nil [simp]: "attach_then_detach pid []"
  by (simp add: attach_then_detach_def)

lemma attach_then_detach_Cons: "attaching pid e \<Longrightarrow> attach_then_detach pid evs \<Longrightarrow> attach_then_detach pid (e # evs)"
  by (simp add: attach_then_detach_def)

lemma detaching_not_attaching: "detaching pid e \<Longrightarrow> \<not> attaching pid e"
proof (cases "(pid, e)" rule: detaching.cases)
  case (1 p i payload cur)
  have "association_payload cur pid True \<noteq> association_payload cur pid False"
  proof
    assume "association_payload cur pid True = association_payload cur pid False"
    then have "jm_get (association_payload cur pid True) ''plugins'' = jm_get (association_payload cur pid False) ''plugins''"
      by simp
    then show False by (simp add: association_payload_def desired_associations_def Let_def jm_get_set)
  qed
  moreover assume "detaching pid e"
  ultimately show ?thesis using 1 by auto
qed auto

lemma attach_then_detach_all: "list_all (detaching pid) evs \<Longrightarrow> attach_then_detach pid evs"
  by (cases evs) (auto simp: attach_then_detach_def dest: detaching_not_attaching)

text \<open>A single guarded proxy write.\<close>

lemma emits_guarded_put:
  "emits (unless_changed (md_update_proxy (logged d) i p b) e) (\<lambda>r n. n = [PutProxy i p b])"
  unfolding unless_changed_def unfold_logged
  by (rule emits_write_attempt) (auto intro!: emits_rules split: sum.split)

lemma faithful_proxy: "faithful_reads d \<Longrightarrow> md_get_proxy d i w = (Inr p, w') \<Longrightarrow> id_of p = i"
  unfolding faithful_reads_def by blast

lemma faithful_plugin: "faithful_reads d \<Longrightarrow> md_get_plugin d i w = (Inr p, w') \<Longrightarrow> id_of p = i"
  unfolding faithful_reads_def by blast

lemma emits_apply_change:
  assumes "faithful_reads d"
  shows "emits (apply_change (logged d) pid desired s) (\<lambda>r n. writes n = [] \<or>
    (\<exists>e. writes n = [e] \<and> (if id_of s \<in> set desired then attaching pid e else detaching pid e)))"
  unfolding apply_change_def unfold_logged(2)
  apply (rule emits_read, simp)
  apply (rule emits_if, rule emits_throw, simp)
  apply (rule emits_then [OF emits_guarded_put])
   apply (auto dest: faithful_proxy [OF assms] intro!: emits_give)
  done

lemma emits_apply_detaches:
  assumes "faithful_reads d"
  shows "\<forall>s\<in>set xs. id_of s \<notin> set desired \<Longrightarrow>
    emits (apply_changes (logged d) pid desired xs applied) (\<lambda>r n. \<not> isl r \<and> list_all (detaching pid) (writes n))"
proof (induction xs arbitrary: applied)
  case Nil
  then show ?case by (simp add: emits_give)
next
  case (Cons s xs)
  show ?case unfolding apply_changes.simps
  proof (rule emits_then [OF emits_attempt [OF emits_apply_change [OF assms], where
          Q = "\<lambda>x n. (\<exists>r. x = Inr r) \<and> list_all (detaching pid) (writes n)"]], goal_cases)
    case (3 a n)
    show ?case
    proof (cases a)
      case (Inr c)
      have "emits (apply_changes (logged d) pid desired xs (applied @ [c]))
              (\<lambda>r n. \<not> isl r \<and> list_all (detaching pid) (writes n))"
        by (rule Cons.IH) (use Cons.prems in auto)
      then show ?thesis using Inr 3 by (auto elim!: emits_weaken)
    qed (use 3 in \<open>auto intro!: emits_give\<close>)
  qed (use Cons.prems in auto)
qed

lemma emits_apply_sorted:
  assumes "faithful_reads d"
  shows "sorted (map (\<lambda>p. if id_of p \<in> set desired then 0 else 1 :: nat) xs) \<Longrightarrow>
    emits (apply_changes (logged d) pid desired xs applied) (\<lambda>r n. \<not> isl r \<and> attach_then_detach pid (writes n))"
proof (induction xs arbitrary: applied)
  case Nil
  then show ?case by (simp add: emits_give)
next
  case (Cons s xs)
  show ?case
  proof (cases "id_of s \<in> set desired")
    case True
    have IH: "emits (apply_changes (logged d) pid desired xs (applied @ [c]))
        (\<lambda>r n. \<not> isl r \<and> attach_then_detach pid (writes n))" for c
      by (rule Cons.IH) (use Cons.prems in simp)
    show ?thesis unfolding apply_changes.simps
    proof (rule emits_then [OF emits_attempt [OF emits_apply_change [OF assms], where
          Q = "\<lambda>x n. (\<exists>r. x = Inr r) \<and> (writes n = [] \<or> (\<exists>e. writes n = [e] \<and> attaching pid e))"]], goal_cases)
      case (3 a n)
      show ?case
      proof (cases a)
        case (Inr c)
        then show ?thesis using 3 IH [of c] by (auto elim!: emits_weaken intro: attach_then_detach_Cons)
      qed (use 3 in \<open>auto intro!: emits_give attach_then_detach_Cons\<close>)
    qed (use True in auto)
  next
    case False
    then have "\<forall>p\<in>set (s # xs). id_of p \<notin> set desired" using Cons.prems by (auto split: if_splits)
    from emits_apply_detaches [OF assms this, of pid applied] show ?thesis
      by (rule emits_weaken) (auto intro: attach_then_detach_all)
  qed
qed

lemma emits_association_plan:
  assumes "faithful_reads d"
  shows "emits (apply_association_plan (logged d) proxies pid desired)
           (\<lambda>r n. \<not> isl r \<and> attach_then_detach pid (writes n))"
  unfolding apply_association_plan_def Let_def by (rule emits_apply_sorted [OF assms]) simp

lemma emits_reconcile:
  assumes "faithful_reads d"
  shows "emits (reconcile_proxy_scoped_association (logged d) pid target)
           (\<lambda>r n. writes n = [] \<or> (\<exists>e. writes n = [e] \<and> attaching pid e))"
  unfolding reconcile_proxy_scoped_association_def unfold_logged(2)
  apply (rule emits_read, simp)
  apply (rule emits_if, rule emits_give, simp)
  apply (rule emits_then [OF emits_guarded_put], simp)
  apply (fold unfold_logged(2))
  apply (rule silent_emits)
   apply (auto intro!: silent_then silent_if)
  done

lemma emits_detach_former:
  "emits (detach_former_proxy_scope (logged d) pid former) (\<lambda>r n. list_all (detaching pid) (writes n))"
  unfolding detach_former_proxy_scope_def
  apply (rule emits_silent_attempt, simp)
  apply (auto split: sum.split intro!: emits_if emits_rules)
  apply (rule emits_then [OF emits_guarded_put])
   apply (auto intro!: emits_give)
  done

lemma emits_settled:
  assumes "emits m (\<lambda>r n. Q (writes n))"
  shows "emits (then_do (attempt m) (\<lambda>r. give (g r))) (\<lambda>r n. \<not> isl r \<and> Q (writes n))"
  by (rule emits_then [OF emits_attempt [OF assms, where Q = "\<lambda>x n. \<not> isl x \<and> Q (writes n)"]])
     (auto intro: emits_give)

text \<open>After the plugin write, every attachment precedes every detachment.\<close>

lemma emits_follow_up:
  assumes "faithful_reads d"
  shows "emits (follow_up (logged d) pid data before proxies desired)
           (\<lambda>r n. \<not> isl r \<and> attach_then_detach pid (writes n))"
proof -
  have detach: "emits (detach_former_proxy_scope (logged d) pid f) (\<lambda>r n. attach_then_detach pid (writes n))" for f
    by (rule emits_weaken [OF emits_detach_former]) (rule attach_then_detach_all)
  have "emits (then_do (reconcile_proxy_scoped_association (logged d) pid t) (\<lambda>_.
           if c then detach_former_proxy_scope (logged d) pid f else give ()))
        (\<lambda>r n. attach_then_detach pid (writes n))" for t c f
    apply (rule emits_then [OF emits_reconcile [OF assms]])
     apply (auto simp: attach_then_detach_Cons) [1]
    apply (rule emits_if)
     apply (rule emits_weaken [OF detach], auto simp: attach_then_detach_Cons) [1]
    apply (rule emits_give, auto simp: attach_then_detach_Cons)
    done
  then show ?thesis
    unfolding follow_up_def Let_def
    by (intro emits_if emits_association_plan [OF assms] emits_settled)
       (auto intro: detach emits_give)
qed

section \<open>What a rollback writes\<close>

lemma references_write_payload [simp]: "references_plugin (write_payload r) pid = references_plugin r pid"
  by (simp add: references_plugin_def associations_def write_payload_def jm_get_without)

definition rolls_back :: "string \<Rightarrow> resource \<Rightarrow> ('w \<times> plan_event list, 'a) plan \<Rightarrow> bool" where
  "rolls_back pid before m \<longleftrightarrow> emits m (\<lambda>r n. list_all (restoring pid before) (writes n))"

lemma rolls_back_silent: "silent m \<Longrightarrow> rolls_back pid before m"
  unfolding rolls_back_def by (rule silent_emits) auto

lemma rolls_back_simps [simp]: "rolls_back pid before (give a)" "rolls_back pid before (throw e)"
  "rolls_back pid before (recovery_state (logged d) i)" "rolls_back pid before (get_plugin_if_present (logged d) i)"
  "rolls_back pid before (md_list_proxies (logged d))" "rolls_back pid before (md_get_proxy (logged d) i)"
  by (simp_all add: rolls_back_silent)

lemma rolls_back_then: "rolls_back pid before m \<Longrightarrow> (\<And>a. rolls_back pid before (f a)) \<Longrightarrow> rolls_back pid before (then_do m f)"
  unfolding rolls_back_def by (rule emits_then, assumption) (auto elim: emits_weaken)

lemma rolls_back_attempt: "rolls_back pid before m \<Longrightarrow> rolls_back pid before (attempt m)"
  unfolding rolls_back_def by (rule emits_attempt)

lemma rolls_back_if: "(c \<Longrightarrow> rolls_back pid before a) \<Longrightarrow> (\<not> c \<Longrightarrow> rolls_back pid before b) \<Longrightarrow> rolls_back pid before (if c then a else b)"
  by simp

lemmas rolls_back_rules = rolls_back_then rolls_back_attempt rolls_back_if

lemma rolls_back_restore: "rolls_back pid before (md_update_plugin (logged d) (id_of before) (write_payload before) (Some cur) fence)"
  unfolding rolls_back_def unfold_logged by (rule emits_noting) simp

lemma rolls_back_reattach:
  "references_plugin b pid \<Longrightarrow> rolls_back pid before (md_update_proxy (logged d) (id_of cur) (write_payload b) (Some cur))"
  unfolding rolls_back_def unfold_logged by (rule emits_noting) simp

lemma rolls_back_change: "rolls_back pid before (rollback_change (logged d) pid c)"
  unfolding rollback_change_def
  by (auto intro!: rolls_back_rules rolls_back_reattach split: sum.split)

lemma rolls_back_changes: "rolls_back pid before (rollback_changes (logged d) pid cs)"
  by (induction cs) (auto intro!: rolls_back_then rolls_back_change)

lemma rolls_back_associations: "rolls_back pid before (rollback_associations (logged d) pid applied)"
  unfolding rollback_associations_def by (rule rolls_back_changes)

lemma rolls_back_plugin: "rolls_back pid before (rollback_plugin parse (logged d) before after fence)"
  unfolding rollback_plugin_def Let_def
  by (auto intro!: rolls_back_rules rolls_back_restore split: sum.split option.split)

lemma rolls_back_failed:
  "rolls_back pid before (update_failed parse (logged d) pid data before proxies observed updated applied e)"
  unfolding update_failed_def saved_unverified_def Let_def
  by (auto intro!: rolls_back_rules rolls_back_associations rolls_back_plugin split: sum.split option.split)

section \<open>Saving as observed\<close>

lemma emits_load_plan:
  "emits (load_plan (logged d) xs) (\<lambda>r n. writes n = [] \<and> (isl r \<or> (\<exists>ps. r = Inr ps \<and> n = [ListedProxies (Inr ps)])))"
  unfolding load_plan_def Let_def unfold_logged(3)
  by (rule emits_refuse, simp, rule emits_read) (auto intro: emits_rules)

text \<open>The plugin write goes out only over the state it was checked against.\<close>

definition put_as_checked ::
  "'w membership_deps \<Rightarrow> string \<Rightarrow> resource \<Rightarrow> resource \<Rightarrow> write_guard option \<Rightarrow> string list \<Rightarrow> plan_event list \<Rightarrow> bool" where
  "put_as_checked d pid before data guard observed n \<longleftrightarrow>
     (\<exists>cur later. n = [ReadPlugin pid (Inr cur), PutPlugin pid data (Some cur) observed] @ later \<and> writes later = [] \<and>
        editor_baseline cur guard Save (Some data) (md_namespace d) = None \<and>
        jm_get cur ''updated_at'' = jm_get before ''updated_at'')"

lemma emits_put_as_checked:
  assumes "id_of before = pid"
  shows "emits (update_plugin_if_unchanged (logged d) before data guard observed)
    (\<lambda>r n. writes n = [] \<and> isl r \<or> put_as_checked d pid before data guard observed n)"
  unfolding update_plugin_if_unchanged_def Let_def unfold_logged assms
  apply (rule emits_read, simp)
  apply (rule emits_refuse, simp)
  apply (rule emits_if, rule emits_throw, simp)
  apply (rule emits_write_attempt)
  apply (fold unfold_logged(3))
  apply (rule silent_emits)
   apply (auto intro!: silent_then silent_attempt split: sum.split) [1]
  apply (auto simp: put_as_checked_def)
  done

text \<open>The writes of a save after its checks: the plugin, the proxies, and what a failure puts back.\<close>

definition written_out ::
  "'w membership_deps \<Rightarrow> string \<Rightarrow> resource \<Rightarrow> resource \<Rightarrow> write_guard option \<Rightarrow> string list \<Rightarrow>
   plan_failure + resource \<Rightarrow> plan_event list \<Rightarrow> bool" where
  "written_out d pid before data guard observed r n \<longleftrightarrow>
     (\<exists>put later followed restored.
        n = put @ later \<and> put_as_checked d pid before data guard observed put \<and>
        writes later = followed @ restored \<and> attach_then_detach pid followed \<and>
        list_all (restoring pid before) restored \<and> (isl r \<or> restored = []))"

definition saved_as_observed ::
  "'w membership_deps \<Rightarrow> string \<Rightarrow> resource \<Rightarrow> write_guard option \<Rightarrow> string list \<Rightarrow> plan_failure + resource \<Rightarrow>
   plan_event list \<Rightarrow> bool" where
  "saved_as_observed d pid data guard ids r n \<longleftrightarrow>
     writes n = [] \<and> isl r \<or>
     (\<exists>before proxies rest.
        n = [ReadPlugin pid (Inr before), ListedProxies (Inr proxies)] @ rest \<and>
        editor_baseline before guard Save (Some data) (md_namespace d) = None \<and>
        set (referencing_proxy_ids proxies pid) \<subseteq> set ids \<and>
        written_out d pid before data guard (js_unique ids) r rest)"

definition fails :: "('w, 'a) plan \<Rightarrow> bool" where
  "fails m \<longleftrightarrow> (\<forall>s. isl (fst (m s)))"

lemma fails_throw [simp]: "fails (throw e)"
  by (simp add: fails_def throw_def)

lemma fails_then: "(\<And>a. fails (f a)) \<Longrightarrow> fails (then_do m f)"
  by (auto simp: fails_def then_do_def split: prod.split sum.split)

lemma fails_update_failed [simp]:
  "fails (update_failed parse d pid data before proxies observed updated applied e)"
  by (auto simp: update_failed_def saved_unverified_def Let_def intro!: fails_then)

lemma emits_update_failed:
  "emits (update_failed parse (logged d) pid data before proxies observed updated applied e)
     (\<lambda>r n. isl r \<and> list_all (restoring pid before) (writes n))"
  unfolding emits_def
proof (intro allI impI)
  fix w l r w' l'
  assume run: "update_failed parse (logged d) pid data before proxies observed updated applied e (w, l) = (r, (w', l'))"
  have "isl (fst (update_failed parse (logged d) pid data before proxies observed updated applied e (w, l)))"
    using fails_update_failed unfolding fails_def by metis
  then have "isl r" using run by simp
  then show "\<exists>new. l' = l @ new \<and> isl r \<and> list_all (restoring pid before) (writes new)"
    using emitsD [OF rolls_back_failed [unfolded rolls_back_def] run] by blast
qed

lemma emits_follow_or_restore:
  assumes f: "faithful_reads d" and put: "put_as_checked d pid before data guard observed put"
  shows "emits (then_do (follow_up (logged d) pid data before proxies desired) (\<lambda>(e, applied).
            case e of
              None \<Rightarrow> give updated
            | Some f \<Rightarrow> update_failed parse (logged d) pid data before proxies observed (Some updated) applied f))
          (\<lambda>r n. written_out d pid before data guard observed r (put @ n))"
proof (rule emits_then [OF emits_follow_up [OF f]], goal_cases)
  case (2 a n)
  obtain e applied where a: "a = (e, applied)" by (cases a)
  have give: "written_out d pid before data guard observed (Inr updated) (put @ n @ [])"
    unfolding written_out_def using 2 put by (intro exI [of _ put] exI [of _ n] exI [of _ "writes n"] exI [of _ "[]"]) simp
  have fail: "written_out d pid before data guard observed r (put @ n @ n')"
    if "isl r \<and> list_all (restoring pid before) (writes n')" for r n'
    unfolding written_out_def using 2 put that
    by (intro exI [of _ put] exI [of _ "n @ n'"] exI [of _ "writes n"] exI [of _ "writes n'"]) simp
  show ?case
  proof (cases e)
    case None
    then show ?thesis using give by (simp add: a emits_give)
  next
    case (Some f)
    then show ?thesis using fail by (auto simp: a intro: emits_weaken [OF emits_update_failed])
  qed
qed auto

lemma silent_update_failed [simp]:
  "silent (update_failed parse (logged d) pid data before proxies observed None [] e)"
  unfolding update_failed_def saved_unverified_def rollback_associations_def Let_def
  by (auto intro!: silent_then silent_attempt split: sum.split option.split)

lemma emits_after_checks:
  assumes f: "faithful_reads d" and pid: "id_of before = pid"
  shows "emits (then_do (attempt (update_plugin_if_unchanged (logged d) before data guard observed)) (\<lambda>r.
      case r of
        Inl e \<Rightarrow> update_failed parse (logged d) pid data before proxies observed None [] e
      | Inr updated \<Rightarrow>
          then_do (follow_up (logged d) pid data before proxies desired) (\<lambda>(e, applied).
            case e of
              None \<Rightarrow> give updated
            | Some f \<Rightarrow> update_failed parse (logged d) pid data before proxies observed (Some updated) applied f)))
    (\<lambda>r n. writes n = [] \<and> isl r \<or> written_out d pid before data guard observed r n)"
proof (rule emits_then [OF emits_attempt [OF emits_put_as_checked [OF pid], where
     Q = "\<lambda>x n. \<exists>y. x = Inr y \<and> (writes n = [] \<and> isl y \<or> put_as_checked d pid before data guard observed n)"]],
   goal_cases)
  case (3 a n)
  show ?case
  proof (cases a)
    case (Inl e)
    have "written_out d pid before data guard observed r (n @ n')"
      if "put_as_checked d pid before data guard observed n" "isl r" "writes n' = []" for r n'
      unfolding written_out_def using that
      by (intro exI [of _ n] exI [of _ n'] exI [of _ "[]"]) simp
    moreover have "emits (update_failed parse (logged d) pid data before proxies observed None [] e)
        (\<lambda>r n. isl r \<and> writes n = [])"
      using emits_update_failed silent_update_failed unfolding silent_def emits_def by (metis same_append_eq)
    ultimately show ?thesis using 3 by (auto simp: Inl elim!: emits_weaken)
  next
    case (Inr u)
    then have put: "put_as_checked d pid before data guard observed n" using 3 by auto
    show ?thesis unfolding Inr sum.case(2)
      by (rule emits_weaken [OF emits_follow_or_restore [OF f put]]) simp
  qed
qed auto

lemma emits_update:
  assumes f: "faithful_reads d"
  shows "emits (update_plugin_with_membership parse (logged d) pid data desired guard ids)
           (saved_as_observed d pid data guard ids)"
  unfolding update_plugin_with_membership_def Let_def unfold_logged(1,8)
proof (rule emits_refuse, simp add: saved_as_observed_def, rule emits_read, simp add: saved_as_observed_def,
    rule emits_refuse, simp add: saved_as_observed_def, rule emits_then [OF emits_load_plan],
    simp add: saved_as_observed_def, rule emits_refuse, goal_cases)
  case (2 before w w' proxies n)
  then have "id_of before = pid" using faithful_plugin [OF f] by blast
  then show ?case
    by (rule emits_weaken [OF emits_after_checks [OF f]])
       (use 2 in \<open>auto simp: saved_as_observed_def membership_unchanged_None\<close>)
qed (auto simp: saved_as_observed_def)

text \<open>C23: Saving a plugin with its memberships writes nothing unless the plugin read twice matches the editor's
  baseline both times at one revision and every proxy listing it was on the page. Then the plugin is written first,
  on the read that was checked and naming the observed proxies as expected; every proxy is attached before any is
  detached, so the group's last reference never goes first; and what follows a failure only puts back what was
  there (a proxy write that still lists the plugin, the plugin as it was read). A successful save restores nothing.
  The gateway is assumed to answer a read of an identifier with the resource of that identifier.\<close>

theorem plugin_saved_only_as_observed:
  assumes "faithful_reads d"
  shows "case update_plugin_with_membership parse (logged d) pid data desired guard ids (w, []) of
           (r, (w', n)) \<Rightarrow> saved_as_observed d pid data guard ids r n"
proof -
  obtain r w' n where run: "update_plugin_with_membership parse (logged d) pid data desired guard ids (w, []) = (r, (w', n))"
    by (metis surj_pair)
  then show ?thesis using emitsD [OF emits_update [OF assms] run] by simp
qed

text \<open>A concrete gateway: two proxies, one of which lists the group plugin \<open>p\<close>.\<close>

definition sample_proxy :: "string \<Rightarrow> string json list \<Rightarrow> resource" where
  "sample_proxy i listed = [(''id'', JStr i), (''plugins'', JArr listed)]"

definition sample_group :: resource where
  "sample_group = [(''id'', JStr ''p''), (''scope'', JStr ''proxy_group'')]"

definition sample_deps :: "unit membership_deps" where
  "sample_deps =
     (let a = sample_proxy ''a'' [JObj [(''plugin_config_id'', JStr ''p'')]]; b = sample_proxy ''b'' [];
          missing = Request (HttpError 404) False in
      \<lparr>md_namespace = ''ns'', md_role = None, md_list_proxies = give [a, b],
       md_get_proxy = (\<lambda>i. if i = ''a'' then give a else if i = ''b'' then give b else throw missing),
       md_update_proxy = (\<lambda>i p base. give p),
       md_get_plugin = (\<lambda>i. if i = ''p'' then give sample_group else throw missing),
       md_create_plugin = give, md_update_plugin = (\<lambda>i p base ids. give p),
       md_delete_plugin = (\<lambda>i base ids. give ()), md_can_condition = (\<lambda>_. True)\<rparr>)"

lemma sample_faithful: "faithful_reads sample_deps"
  by (auto simp: faithful_reads_def sample_deps_def sample_proxy_def sample_group_def id_of_def text_of_def
      give_def throw_def Let_def jm_get_def split: if_splits)

definition sample_save :: "(plan_failure + resource) \<times> unit \<times> plan_event list" where
  "sample_save = update_plugin_with_membership (\<lambda>_. None) (logged sample_deps) ''p'' sample_group [''a'', ''b''] None [''a''] ((), [])"

lemma sample_save_runs: "\<not> isl (fst sample_save) \<and> length (writes (snd (snd sample_save))) = 2"
  by code_simp

lemma plugin_saved_only_as_observed_witness:
  "faithful_reads sample_deps \<and> \<not> isl (fst sample_save) \<and>
   (case sample_save of (r, (w', n)) \<Rightarrow> saved_as_observed sample_deps ''p'' sample_group None [''a''] r n)"
  using plugin_saved_only_as_observed [OF sample_faithful, where parse = "\<lambda>_. None" and pid = "''p''"
      and data = sample_group and desired = "[''a'', ''b'']" and guard = None and ids = "[''a'']" and w = "()"]
    sample_faithful sample_save_runs
  by (simp add: sample_save_def)

end
