(* ===== verification/UploadDrain.thy ===== *)
theory UploadDrain
  imports Prelude
begin

text \<open>
  Draining an upload the reply no longer needs (\<open>server/upload-drain.ts\<close>): the two slot pools, the
  deadline and idle timers of each drain, and the closing of connections once their response is out, as a
  machine over timed events. Times are milliseconds of the process clock; a timer runs when the clock
  reaches it, before whatever else happens at that moment.
\<close>

section \<open>Requests\<close>

definition DRAIN_LINGER :: int where "DRAIN_LINGER = 5000"
definition DRAIN_OVERSIZE_LINGER :: int where "DRAIN_OVERSIZE_LINGER = 1000"
definition DRAIN_BYTE_CAP :: int where "DRAIN_BYTE_CAP = 4 * 1024 * 1024"
definition SIGNED_OUT_DRAIN_SLOTS :: int where "SIGNED_OUT_DRAIN_SLOTS = 8"
definition SIGNED_OUT_DRAIN_LINGER :: int where "SIGNED_OUT_DRAIN_LINGER = 1000"

record drain_config =
  dc_max_active_uploads :: int
  dc_write_timeout :: int

text \<open>\<open>Number(headers['content-length'])\<close> is \<open>None\<close> when it is not finite.\<close>

definition declares_body :: "bool \<Rightarrow> int option \<Rightarrow> bool" where
  "declares_body transfer_encoding declared \<longleftrightarrow>
     transfer_encoding \<or> (case declared of Some n \<Rightarrow> n > 0 | None \<Rightarrow> False)"

record unread_upload =
  uu_budget_ends_at :: int
  uu_close_unread :: bool

definition new_unread :: "drain_config \<Rightarrow> int \<Rightarrow> unread_upload" where
  "new_unread cfg now = \<lparr>uu_budget_ends_at = now + dc_write_timeout cfg, uu_close_unread = False\<rparr>"

definition set_upload_budget :: "int \<Rightarrow> unread_upload \<Rightarrow> unread_upload" where
  "set_upload_budget ends_at u = u\<lparr>uu_budget_ends_at := ends_at\<rparr>"

definition close_unread_upload :: "unread_upload \<Rightarrow> unread_upload" where
  "close_unread_upload u = u\<lparr>uu_close_unread := True\<rparr>"

record drain_request =
  dr_complete :: bool
  dr_socket_open :: bool
  dr_signed_out :: bool
  dr_declared_length :: "int option"

section \<open>State\<close>

record drain =
  dn_signed_out :: bool
  dn_started :: int
  dn_linger :: int
  dn_idle_timeout :: int
  dn_deadline :: int
  dn_idle_at :: int
  dn_drained :: int
  dn_oversize :: bool
  dn_settled :: bool

text \<open>An exchange whose reply went out over an unread upload: the connection, and the drain if it got one.\<close>

record exchange =
  ex_written :: bool
  ex_close_when_written :: bool
  ex_destroyed :: bool
  ex_drain :: "drain option"

record drain_state =
  ds_signed_in :: int
  ds_signed_out :: int
  ds_closing :: bool
  ds_exchanges :: "exchange list"

definition new_drains :: drain_state where
  "new_drains = \<lparr>ds_signed_in = 0, ds_signed_out = 0, ds_closing = False, ds_exchanges = []\<rparr>"

definition active_in :: "bool \<Rightarrow> drain_state \<Rightarrow> int" where
  "active_in signed_out st = (if signed_out then ds_signed_out st else ds_signed_in st)"

definition change_active :: "bool \<Rightarrow> int \<Rightarrow> drain_state \<Rightarrow> drain_state" where
  "change_active signed_out n st =
     (if signed_out then st\<lparr>ds_signed_out := n\<rparr> else st\<lparr>ds_signed_in := n\<rparr>)"

definition drain_slots :: "drain_config \<Rightarrow> bool \<Rightarrow> int" where
  "drain_slots cfg signed_out =
     (if signed_out then min SIGNED_OUT_DRAIN_SLOTS (dc_max_active_uploads cfg) else dc_max_active_uploads cfg)"

definition draining :: "exchange \<Rightarrow> bool" where
  "draining ex = (case ex_drain ex of Some d \<Rightarrow> \<not> dn_settled d | None \<Rightarrow> False)"

section \<open>Operations\<close>

definition close_connection :: "exchange \<Rightarrow> exchange" where
  "close_connection ex = (if ex_written ex then ex\<lparr>ex_destroyed := True\<rparr> else ex\<lparr>ex_close_when_written := True\<rparr>)"

definition response_finished :: "exchange \<Rightarrow> exchange" where
  "response_finished ex =
     (let written = ex\<lparr>ex_written := True\<rparr> in
      if ex_close_when_written ex then written\<lparr>ex_destroyed := True\<rparr> else written)"

definition at_exchange :: "nat \<Rightarrow> (exchange \<Rightarrow> exchange) \<Rightarrow> drain_state \<Rightarrow> drain_state" where
  "at_exchange i f st =
     (if i < length (ds_exchanges st)
      then st\<lparr>ds_exchanges := (ds_exchanges st)[i := f (ds_exchanges st ! i)]\<rparr> else st)"

definition on_drain :: "(drain \<Rightarrow> drain) \<Rightarrow> exchange \<Rightarrow> exchange" where
  "on_drain f ex = ex\<lparr>ex_drain := map_option f (ex_drain ex)\<rparr>"

text \<open>A second call settles nothing.\<close>

definition settle_drain :: "nat \<Rightarrow> drain_state \<Rightarrow> drain_state" where
  "settle_drain i st =
     (if i < length (ds_exchanges st) \<and> draining (ds_exchanges st ! i)
      then let so = dn_signed_out (the (ex_drain (ds_exchanges st ! i))) in
           change_active so (max 0 (active_in so st - 1))
             (at_exchange i (on_drain (\<lambda>d. d\<lparr>dn_settled := True\<rparr>)) st)
      else st)"

text \<open>\<open>abandon\<close> runs from a timer of the drain or from \<open>preClose\<close>, both only while it is not settled.\<close>

definition abandon_drain :: "nat \<Rightarrow> drain_state \<Rightarrow> drain_state" where
  "abandon_drain i st =
     (if i < length (ds_exchanges st) \<and> draining (ds_exchanges st ! i)
      then at_exchange i close_connection (settle_drain i st) else st)"

definition linger_briefly :: "int \<Rightarrow> drain \<Rightarrow> drain" where
  "linger_briefly now d =
     (let remaining = dn_linger d - (now - dn_started d) in
      d\<lparr>dn_oversize := True, dn_deadline := now + max 0 (min remaining DRAIN_OVERSIZE_LINGER)\<rparr>)"

definition on_chunk :: "int \<Rightarrow> int \<Rightarrow> drain \<Rightarrow> drain" where
  "on_chunk now len d =
     (let counted = d\<lparr>dn_drained := dn_drained d + len\<rparr>;
          bounded = (if \<not> dn_oversize d \<and> dn_drained counted > DRAIN_BYTE_CAP
                     then linger_briefly now counted else counted) in
      bounded\<lparr>dn_idle_at := now + dn_idle_timeout d\<rparr>)"

definition start_drain :: "drain_config \<Rightarrow> drain_request \<Rightarrow> int \<Rightarrow> int \<Rightarrow> drain" where
  "start_drain cfg r linger now =
     (let idle = min (dc_write_timeout cfg) linger;
          armed = \<lparr>dn_signed_out = dr_signed_out r, dn_started = now, dn_linger = linger, dn_idle_timeout = idle,
                   dn_deadline = now + linger, dn_idle_at = now + idle, dn_drained = 0, dn_oversize = False,
                   dn_settled = False\<rparr> in
      (case dr_declared_length r of
         Some n \<Rightarrow> if n > DRAIN_BYTE_CAP then linger_briefly now armed else armed
       | None \<Rightarrow> armed))"

definition drain_unread_upload :: "drain_config \<Rightarrow> drain_request \<Rightarrow> unread_upload \<Rightarrow> int \<Rightarrow> drain_state \<Rightarrow> drain_state" where
  "drain_unread_upload cfg r u now st =
     (if dr_complete r \<or> \<not> dr_socket_open r then st
      else let so = dr_signed_out r;
               linger = min (uu_budget_ends_at u - now) (if so then SIGNED_OUT_DRAIN_LINGER else DRAIN_LINGER);
               ex = \<lparr>ex_written = False, ex_close_when_written = False, ex_destroyed = False, ex_drain = None\<rparr> in
        if uu_close_unread u \<or> ds_closing st \<or> linger \<le> 0 \<or> active_in so st \<ge> drain_slots cfg so
        then st\<lparr>ds_exchanges := ds_exchanges st @ [close_connection ex]\<rparr>
        else change_active so (active_in so st + 1)
               (st\<lparr>ds_exchanges := ds_exchanges st @ [ex\<lparr>ex_drain := Some (start_drain cfg r linger now)\<rparr>]\<rparr>))"

definition abandon_all :: "(exchange \<Rightarrow> bool) \<Rightarrow> drain_state \<Rightarrow> drain_state" where
  "abandon_all due st =
     fold (\<lambda>i s. if due (ds_exchanges s ! i) then abandon_drain i s else s) [0 ..< length (ds_exchanges st)] st"

definition pre_close :: "drain_state \<Rightarrow> drain_state" where
  "pre_close st = abandon_all (\<lambda>_. True) (st\<lparr>ds_closing := True\<rparr>)"

section \<open>Time\<close>

definition timer_due :: "int \<Rightarrow> exchange \<Rightarrow> bool" where
  "timer_due now ex = (case ex_drain ex of Some d \<Rightarrow> min (dn_deadline d) (dn_idle_at d) \<le> now | None \<Rightarrow> False)"

definition fire_timers :: "int \<Rightarrow> drain_state \<Rightarrow> drain_state" where
  "fire_timers now = abandon_all (timer_due now)"

datatype drain_event =
    Prefinish drain_request unread_upload
  | Response_out nat
  | Chunk nat int
  | Upload_over nat
  | Pre_close
  | Clock

text \<open>\<open>Upload_over\<close> is the end, the error or the close of the request's stream; chunks reach only a drain that
  still listens.\<close>

fun handle_drain_event :: "drain_config \<Rightarrow> int \<Rightarrow> drain_event \<Rightarrow> drain_state \<Rightarrow> drain_state" where
  "handle_drain_event cfg now (Prefinish r u) st = drain_unread_upload cfg r u now st"
| "handle_drain_event cfg now (Response_out i) st = at_exchange i response_finished st"
| "handle_drain_event cfg now (Chunk i len) st =
     (if i < length (ds_exchanges st) \<and> draining (ds_exchanges st ! i)
      then at_exchange i (on_drain (on_chunk now len)) st else st)"
| "handle_drain_event cfg now (Upload_over i) st = settle_drain i st"
| "handle_drain_event cfg now Pre_close st = pre_close st"
| "handle_drain_event cfg now Clock st = st"

definition drain_step :: "drain_config \<Rightarrow> int \<Rightarrow> drain_event \<Rightarrow> drain_state \<Rightarrow> drain_state" where
  "drain_step cfg now e st = handle_drain_event cfg now e (fire_timers now st)"

inductive drains_run :: "drain_config \<Rightarrow> int \<times> drain_state \<Rightarrow> int \<times> drain_state \<Rightarrow> bool" for cfg where
  stay: "drains_run cfg (t, st) (t, st)"
| go: "drains_run cfg (t, st) (t', st') \<Longrightarrow> t' \<le> t'' \<Longrightarrow> drains_run cfg (t, st) (t'', drain_step cfg t'' e st')"


section \<open>Counting the drains\<close>

definition drain_weight :: "bool \<Rightarrow> exchange \<Rightarrow> int" where
  "drain_weight so ex = (if draining ex \<and> dn_signed_out (the (ex_drain ex)) = so then 1 else 0)"

definition drains_of :: "bool \<Rightarrow> drain_state \<Rightarrow> int" where
  "drains_of so st = sum_list (map (drain_weight so) (ds_exchanges st))"

definition counted :: "drain_state \<Rightarrow> bool" where
  "counted st \<longleftrightarrow> ds_signed_in st = drains_of False st \<and> ds_signed_out st = drains_of True st"

lemma counted_active: "counted st \<Longrightarrow> active_in so st = drains_of so st"
  by (simp add: counted_def active_in_def)

lemma active_change [simp]: "active_in so (change_active so' n st) = (if so = so' then n else active_in so st)"
  by (auto simp: active_in_def change_active_def)

lemma change_fields [simp]:
  "ds_exchanges (change_active so n st) = ds_exchanges st" "ds_closing (change_active so n st) = ds_closing st"
  by (simp_all add: change_active_def)

lemma at_exchange_fields [simp]: "ds_closing (at_exchange i f st) = ds_closing st"
  "length (ds_exchanges (at_exchange i f st)) = length (ds_exchanges st)"
  "active_in so (at_exchange i f st) = active_in so st"
  by (simp_all add: at_exchange_def active_in_def)

lemma sum_list_update_int:
  "k < length (xs :: int list) \<Longrightarrow> sum_list (xs[k := x]) = sum_list xs + x - xs ! k"
  by (induction xs arbitrary: k) (auto simp: nth_Cons split: nat.splits)

lemma drains_of_update:
  assumes "i < length (ds_exchanges st)"
  shows "drains_of so (at_exchange i f st) =
    drains_of so st + drain_weight so (f (ds_exchanges st ! i)) - drain_weight so (ds_exchanges st ! i)"
  using assms by (simp add: drains_of_def at_exchange_def map_update sum_list_update_int)

lemma drains_of_pos:
  assumes "i < length (ds_exchanges st)"
  shows "drain_weight so (ds_exchanges st ! i) \<le> drains_of so st"
proof -
  have "drain_weight so (ds_exchanges st ! i) \<in> set (map (drain_weight so) (ds_exchanges st))" using assms by auto
  moreover have "x \<ge> 0" if "x \<in> set (map (drain_weight so) (ds_exchanges st))" for x
    using that by (auto simp: drain_weight_def)
  ultimately show ?thesis unfolding drains_of_def by (rule member_le_sum_list) auto
qed

lemma counted_iff: "counted st \<longleftrightarrow> (\<forall>so. active_in so st = drains_of so st)"
  by (auto simp: counted_def active_in_def split: if_splits)

lemma draining_settled [simp]: "\<not> draining (on_drain (\<lambda>d. d\<lparr>dn_settled := True\<rparr>) ex)"
  by (auto simp: draining_def on_drain_def split: option.split)

lemma draining_close [simp]: "draining (close_connection ex) = draining ex" "ex_drain (close_connection ex) = ex_drain ex"
  by (simp_all add: draining_def close_connection_def)

lemma weight_close [simp]: "drain_weight so (close_connection ex) = drain_weight so ex"
  by (simp add: drain_weight_def)

lemma drains_of_change [simp]: "drains_of so (change_active so' n st) = drains_of so st"
  by (simp add: drains_of_def)

lemma counted_settle:
  assumes "counted st"
  shows "counted (settle_drain i st)"
proof (cases "i < length (ds_exchanges st) \<and> draining (ds_exchanges st ! i)")
  case True
  let ?so = "dn_signed_out (the (ex_drain (ds_exchanges st ! i)))"
  have w: "drain_weight so (ds_exchanges st ! i) = (if so = ?so then 1 else 0)" for so
    using True by (simp add: drain_weight_def)
  have "1 \<le> drains_of ?so st" using drains_of_pos [of i st ?so] True w by simp
  then show ?thesis using True assms unfolding counted_iff settle_drain_def Let_def
    by (auto simp: drains_of_update w drain_weight_def [of _ "on_drain _ _"])
next
  case False
  then show ?thesis using assms by (auto simp: settle_drain_def)
qed

lemma settle_fields [simp]: "ds_closing (settle_drain i st) = ds_closing st"
  "length (ds_exchanges (settle_drain i st)) = length (ds_exchanges st)"
  by (simp_all add: settle_drain_def Let_def)

lemma counted_abandon: "counted st \<Longrightarrow> counted (abandon_drain i st)"
  using counted_settle [of st i]
  by (auto simp: abandon_drain_def counted_iff drains_of_update)

definition abandoned :: "exchange \<Rightarrow> exchange" where
  "abandoned ex = (if draining ex then close_connection (on_drain (\<lambda>d. d\<lparr>dn_settled := True\<rparr>) ex) else ex)"

lemma abandon_exchanges:
  assumes "i < length (ds_exchanges st)"
  shows "ds_exchanges (abandon_drain i st) = (ds_exchanges st)[i := abandoned (ds_exchanges st ! i)]"
  using assms by (simp add: abandon_drain_def abandoned_def settle_drain_def Let_def at_exchange_def)

lemma abandon_closing [simp]: "ds_closing (abandon_drain i st) = ds_closing st"
  by (simp add: abandon_drain_def)

lemma abandon_prefix:
  assumes "k \<le> length (ds_exchanges st)"
  shows "ds_exchanges (fold (\<lambda>i s. if due (ds_exchanges s ! i) then abandon_drain i s else s) [0 ..< k] st) =
    map (\<lambda>ex. if due ex then abandoned ex else ex) (take k (ds_exchanges st)) @ drop k (ds_exchanges st)"
  using assms
proof (induction k)
  case (Suc k)
  let ?s = "fold (\<lambda>i s. if due (ds_exchanges s ! i) then abandon_drain i s else s) [0 ..< k] st"
  let ?xs = "ds_exchanges st"
  have IH: "ds_exchanges ?s = map (\<lambda>ex. if due ex then abandoned ex else ex) (take k ?xs) @ drop k ?xs"
    using Suc by simp
  have k: "k < length ?xs" using Suc.prems by simp
  then have at: "ds_exchanges ?s ! k = ?xs ! k" "k < length (ds_exchanges ?s)" by (simp_all add: IH nth_append)
  have "drop k ?xs = ?xs ! k # drop (Suc k) ?xs" using k by (simp add: Cons_nth_drop_Suc)
  then show ?case using k at
    by (simp add: abandon_exchanges IH list_update_append take_Suc_conv_app_nth)
qed simp

lemma abandon_all_exchanges:
  "ds_exchanges (abandon_all due st) = map (\<lambda>ex. if due ex then abandoned ex else ex) (ds_exchanges st)"
  unfolding abandon_all_def by (simp add: abandon_prefix)

lemma abandon_all_rest: "counted st \<Longrightarrow> counted (abandon_all due st)"
  "ds_closing (abandon_all due st) = ds_closing st"
proof -
  have "(counted st \<longrightarrow> counted (fold (\<lambda>i s. if due (ds_exchanges s ! i) then abandon_drain i s else s) is st)) \<and>
    ds_closing (fold (\<lambda>i s. if due (ds_exchanges s ! i) then abandon_drain i s else s) is st) = ds_closing st" for "is"
    by (induction "is" arbitrary: st) (auto simp: counted_abandon)
  then show "counted st \<Longrightarrow> counted (abandon_all due st)" "ds_closing (abandon_all due st) = ds_closing st"
    unfolding abandon_all_def by auto
qed


section \<open>The invariant\<close>

definition drain_bounded :: "int \<Rightarrow> drain \<Rightarrow> bool" where
  "drain_bounded t d \<longleftrightarrow>
     t < dn_deadline d \<and> dn_deadline d \<le> dn_started d + dn_linger d \<and> dn_started d \<le> t \<and>
     dn_linger d \<le> (if dn_signed_out d then SIGNED_OUT_DRAIN_LINGER else DRAIN_LINGER) \<and>
     (if dn_oversize d then dn_deadline d \<le> t + DRAIN_OVERSIZE_LINGER
      else dn_drained d \<le> DRAIN_BYTE_CAP \<and> dn_deadline d = dn_started d + dn_linger d)"

definition exchange_ok :: "bool \<Rightarrow> int \<Rightarrow> exchange \<Rightarrow> bool" where
  "exchange_ok closing t ex \<longleftrightarrow>
     (ex_destroyed ex \<longrightarrow> ex_written ex) \<and>
     (draining ex \<longrightarrow> \<not> closing \<and> drain_bounded t (the (ex_drain ex)))"

definition drains_inv :: "drain_config \<Rightarrow> int \<Rightarrow> drain_state \<Rightarrow> bool" where
  "drains_inv cfg t st \<longleftrightarrow>
     counted st \<and> (\<forall>so. active_in so st \<le> max 0 (drain_slots cfg so)) \<and>
     (\<forall>ex\<in>set (ds_exchanges st). exchange_ok (ds_closing st) t ex)"

lemma exchange_ok_close [simp]: "exchange_ok c t (close_connection ex) \<longleftrightarrow> exchange_ok c t ex"
  by (auto simp: exchange_ok_def close_connection_def draining_def)

lemma exchange_ok_out: "exchange_ok c t ex \<Longrightarrow> exchange_ok c t (response_finished ex)"
  by (auto simp: exchange_ok_def response_finished_def draining_def Let_def)

lemma exchange_ok_settle: "exchange_ok c t ex \<Longrightarrow> exchange_ok c' t' (on_drain (\<lambda>d. d\<lparr>dn_settled := True\<rparr>) ex)"
  by (simp add: exchange_ok_def) (simp add: on_drain_def)

lemma exchange_ok_abandoned: "exchange_ok c t ex \<Longrightarrow> exchange_ok c' t' (abandoned ex)"
  using exchange_ok_settle [of c t ex c' t'] by (cases "draining ex") (simp_all add: abandoned_def, simp add: exchange_ok_def)

lemma exchange_ok_later:
  assumes "exchange_ok c t ex" "t \<le> t'" "\<not> timer_due t' ex"
  shows "exchange_ok c t' ex"
  using assms by (auto simp: exchange_ok_def drain_bounded_def timer_due_def draining_def split: option.splits if_splits)

lemma drain_bounded_chunk:
  assumes "drain_bounded t d"
  shows "drain_bounded t (on_chunk t len d)"
  using assms
  by (auto simp: drain_bounded_def on_chunk_def linger_briefly_def Let_def DRAIN_OVERSIZE_LINGER_def split: if_splits)

lemma settled_on_chunk [simp]: "dn_settled (on_chunk t len d) = dn_settled d"
  by (simp add: on_chunk_def linger_briefly_def Let_def)

lemma draining_on_chunk [simp]: "draining (on_drain (on_chunk t len) ex) = draining ex"
  by (auto simp: draining_def on_drain_def split: option.split)

lemma exchange_ok_chunk: "exchange_ok c t ex \<Longrightarrow> exchange_ok c t (on_drain (on_chunk t len) ex)"
  using drain_bounded_chunk by (auto simp: exchange_ok_def on_drain_def draining_def split: option.splits)

lemma drains_invI:
  assumes "counted st" "\<And>so. active_in so st \<le> max 0 (drain_slots cfg so)"
    "\<And>ex. ex \<in> set (ds_exchanges st) \<Longrightarrow> exchange_ok (ds_closing st) t ex"
  shows "drains_inv cfg t st"
  using assms by (simp add: drains_inv_def)

lemma drains_invD:
  assumes "drains_inv cfg t st"
  shows "counted st" "active_in so st \<le> max 0 (drain_slots cfg so)"
    "ex \<in> set (ds_exchanges st) \<Longrightarrow> exchange_ok (ds_closing st) t ex"
  using assms by (simp_all add: drains_inv_def)

lemma drains_inv_fire:
  assumes "drains_inv cfg t st" "t \<le> t'"
  shows "drains_inv cfg t' (fire_timers t' st)"
proof -
  have le: "active_in so (fire_timers t' st) \<le> active_in so st" for so
  proof -
    have "drain_weight so (if timer_due t' ex then abandoned ex else ex) \<le> drain_weight so ex" for ex
      by (auto simp: drain_weight_def abandoned_def)
    then have "drains_of so (fire_timers t' st) \<le> drains_of so st"
      by (auto simp: drains_of_def fire_timers_def abandon_all_exchanges comp_def intro: sum_list_mono)
    then show ?thesis
      using assms(1) abandon_all_rest(1) by (simp add: drains_inv_def counted_iff fire_timers_def)
  qed
  show ?thesis
  proof (rule drains_invI)
    show "counted (fire_timers t' st)"
      using drains_invD(1) [OF assms(1)] abandon_all_rest(1) by (simp add: fire_timers_def)
    show "active_in so (fire_timers t' st) \<le> max 0 (drain_slots cfg so)" for so
      using le drains_invD(2) [OF assms(1)] by (rule order_trans)
  next
    fix ex
    assume "ex \<in> set (ds_exchanges (fire_timers t' st))"
    then obtain ex' where ex': "ex' \<in> set (ds_exchanges st)" "ex = (if timer_due t' ex' then abandoned ex' else ex')"
      by (auto simp: fire_timers_def abandon_all_exchanges)
    have "exchange_ok (ds_closing st) t ex'" by (rule drains_invD(3) [OF assms(1) ex'(1)])
    then show "exchange_ok (ds_closing (fire_timers t' st)) t' ex"
      using exchange_ok_abandoned exchange_ok_later assms(2) ex'(2) by (auto simp: fire_timers_def abandon_all_rest(2))
  qed
qed

lemma set_at_exchange:
  assumes "x \<in> set (ds_exchanges (at_exchange i f st))"
  obtains "x \<in> set (ds_exchanges st)" | y where "y \<in> set (ds_exchanges st)" "x = f y"
proof (cases "i < length (ds_exchanges st)")
  case True
  then have "x \<in> insert (f (ds_exchanges st ! i)) (set (ds_exchanges st))"
    using assms set_update_subset_insert [of "ds_exchanges st" i] by (auto simp: at_exchange_def)
  then show ?thesis using that True by (metis insertE nth_mem)
next
  case False
  then show ?thesis using assms that(1) by (simp add: at_exchange_def)
qed

lemma drains_inv_at:
  assumes "drains_inv cfg t st" "counted (at_exchange i f st)"
    "\<And>ex. exchange_ok (ds_closing st) t ex \<Longrightarrow> exchange_ok (ds_closing st) t (f ex)"
  shows "drains_inv cfg t (at_exchange i f st)"
proof (rule drains_invI)
  fix ex
  assume "ex \<in> set (ds_exchanges (at_exchange i f st))"
  then show "exchange_ok (ds_closing (at_exchange i f st)) t ex"
    by (rule set_at_exchange) (use assms(3) drains_invD(3) [OF assms(1)] in auto)
qed (use assms(2) drains_invD(2) [OF assms(1)] in auto)

lemma counted_at: "counted st \<Longrightarrow> (\<And>so ex. drain_weight so (f ex) = drain_weight so ex) \<Longrightarrow> counted (at_exchange i f st)"
  by (cases "i < length (ds_exchanges st)") (auto simp: counted_iff drains_of_update, simp add: at_exchange_def counted_iff)

lemma active_settle: "counted st \<Longrightarrow> active_in so (settle_drain i st) \<le> active_in so st"
  using drains_of_pos [of i st so]
  by (auto simp: settle_drain_def Let_def drain_weight_def counted_active split: if_splits)

lemma drains_inv_settle:
  assumes "drains_inv cfg t st"
  shows "drains_inv cfg t (settle_drain i st)"
proof (rule drains_invI)
  show "counted (settle_drain i st)" using drains_invD(1) [OF assms] by (rule counted_settle)
  show "active_in so (settle_drain i st) \<le> max 0 (drain_slots cfg so)" for so
    using active_settle [OF drains_invD(1) [OF assms]] drains_invD(2) [OF assms] by (rule order_trans)
next
  fix ex
  assume ex: "ex \<in> set (ds_exchanges (settle_drain i st))"
  have ok: "exchange_ok (ds_closing st) t y" if "y \<in> set (ds_exchanges st)" for y
    using that by (rule drains_invD(3) [OF assms])
  from ex have "ex \<in> set (ds_exchanges st) \<or>
      ex \<in> set (ds_exchanges (at_exchange i (on_drain (\<lambda>d. d\<lparr>dn_settled := True\<rparr>)) st))"
    by (auto simp: settle_drain_def Let_def split: if_splits)
  then have "exchange_ok (ds_closing st) t ex"
  proof
    assume "ex \<in> set (ds_exchanges (at_exchange i (on_drain (\<lambda>d. d\<lparr>dn_settled := True\<rparr>)) st))"
    then show ?thesis by (rule set_at_exchange) (use ok exchange_ok_settle in metis)+
  qed (rule ok)
  then show "exchange_ok (ds_closing (settle_drain i st)) t ex" by simp
qed

lemma drains_inv_pre_close:
  assumes "drains_inv cfg t st"
  shows "drains_inv cfg t (pre_close st)"
proof (rule drains_invI)
  have c: "counted (st\<lparr>ds_closing := True\<rparr>)" using drains_invD(1) [OF assms] by (simp add: counted_def drains_of_def)
  then show "counted (pre_close st)" unfolding pre_close_def by (rule abandon_all_rest(1))
  have "drain_weight so (abandoned ex) = 0" for so ex by (simp add: drain_weight_def abandoned_def)
  then have "drains_of so (pre_close st) = 0" for so
    by (simp add: drains_of_def pre_close_def abandon_all_exchanges comp_def)
  then show "active_in so (pre_close st) \<le> max 0 (drain_slots cfg so)" for so
    using \<open>counted (pre_close st)\<close> by (simp add: counted_active)
next
  fix ex
  assume "ex \<in> set (ds_exchanges (pre_close st))"
  then obtain ex' where "ex' \<in> set (ds_exchanges st)" "ex = abandoned ex'"
    by (auto simp: pre_close_def abandon_all_exchanges)
  then show "exchange_ok (ds_closing (pre_close st)) t ex"
    using drains_invD(3) [OF assms] exchange_ok_abandoned by metis
qed

lemma start_drain_bounded:
  assumes "0 < linger" "linger \<le> (if dr_signed_out r then SIGNED_OUT_DRAIN_LINGER else DRAIN_LINGER)"
  shows "drain_bounded t (start_drain cfg r linger t)" "\<not> dn_settled (start_drain cfg r linger t)"
    "dn_signed_out (start_drain cfg r linger t) = dr_signed_out r"
  using assms
  by (auto simp: drain_bounded_def start_drain_def linger_briefly_def Let_def DRAIN_OVERSIZE_LINGER_def
      DRAIN_BYTE_CAP_def split: option.split)

lemma drains_inv_append:
  assumes "drains_inv cfg t st" "exchange_ok (ds_closing st) t ex"
    "active_in so st + n \<le> max 0 (drain_slots cfg so)"
    "\<And>so'. drain_weight so' ex = (if so' = so then n else 0)"
  shows "drains_inv cfg t (change_active so (active_in so st + n) (st\<lparr>ds_exchanges := ds_exchanges st @ [ex]\<rparr>))"
proof (rule drains_invI)
  have "drains_of so' (st\<lparr>ds_exchanges := ds_exchanges st @ [ex]\<rparr>) = drains_of so' st + (if so' = so then n else 0)" for so'
    by (simp add: drains_of_def assms(4))
  moreover have "active_in so' (st\<lparr>ds_exchanges := ds_exchanges st @ [ex]\<rparr>) = active_in so' st" for so'
    by (simp add: active_in_def)
  ultimately show "counted (change_active so (active_in so st + n) (st\<lparr>ds_exchanges := ds_exchanges st @ [ex]\<rparr>))"
    "active_in so' (change_active so (active_in so st + n) (st\<lparr>ds_exchanges := ds_exchanges st @ [ex]\<rparr>)) \<le>
      max 0 (drain_slots cfg so')" for so'
    using drains_invD(1,2) [OF assms(1)] assms(3) by (auto simp: counted_iff)
qed (use assms(2) drains_invD(3) [OF assms(1)] in auto)

lemma drains_inv_unread:
  assumes "drains_inv cfg t st"
  shows "drains_inv cfg t (drain_unread_upload cfg r u t st)"
proof -
  let ?so = "dr_signed_out r"
  let ?linger = "min (uu_budget_ends_at u - t) (if ?so then SIGNED_OUT_DRAIN_LINGER else DRAIN_LINGER)"
  let ?ex = "\<lparr>ex_written = False, ex_close_when_written = False, ex_destroyed = False, ex_drain = None\<rparr>"
  have closed: "drains_inv cfg t (st\<lparr>ds_exchanges := ds_exchanges st @ [close_connection ?ex]\<rparr>)"
  proof -
    have "st\<lparr>ds_exchanges := ds_exchanges st @ [close_connection ?ex]\<rparr> =
        change_active ?so (active_in ?so st + 0) (st\<lparr>ds_exchanges := ds_exchanges st @ [close_connection ?ex]\<rparr>)"
      by (simp add: change_active_def active_in_def)
    also have "drains_inv cfg t \<dots>"
      by (rule drains_inv_append [OF assms])
        (use drains_invD(2) [OF assms, of ?so] in \<open>auto simp: exchange_ok_def draining_def drain_weight_def close_connection_def\<close>)
    finally show ?thesis .
  qed
  have opened: "drains_inv cfg t (change_active ?so (active_in ?so st + 1)
      (st\<lparr>ds_exchanges := ds_exchanges st @ [?ex\<lparr>ex_drain := Some (start_drain cfg r ?linger t)\<rparr>]\<rparr>))"
    if "\<not> ds_closing st" "\<not> ?linger \<le> 0" "\<not> active_in ?so st \<ge> drain_slots cfg ?so"
    using that start_drain_bounded [where linger = ?linger and r = r and t = t and cfg = cfg]
    by (intro drains_inv_append [OF assms])
      (auto simp: exchange_ok_def draining_def drain_weight_def)
  show ?thesis unfolding drain_unread_upload_def Let_def using assms closed opened by (simp split: if_split) 
qed

lemma drain_weight_same:
  "drain_weight so (response_finished ex) = drain_weight so ex"
  "drain_weight so (on_drain (on_chunk t len) ex) = drain_weight so ex"
  by (auto simp: drain_weight_def response_finished_def draining_def on_drain_def on_chunk_def linger_briefly_def Let_def
      split: option.splits)

lemma drains_inv_handle: "drains_inv cfg t st \<Longrightarrow> drains_inv cfg t (handle_drain_event cfg t e st)"
  by (cases e)
    (auto simp: drain_weight_same intro!: drains_inv_unread drains_inv_settle drains_inv_pre_close drains_inv_at
       counted_at exchange_ok_out exchange_ok_chunk dest: drains_invD(1))

lemma drains_inv_step: "drains_inv cfg t st \<Longrightarrow> t \<le> t' \<Longrightarrow> drains_inv cfg t' (drain_step cfg t' e st)"
  unfolding drain_step_def by (intro drains_inv_handle drains_inv_fire)

lemma drains_inv_run: "drains_run cfg (t, st) (t', st') \<Longrightarrow> drains_inv cfg t st \<Longrightarrow> drains_inv cfg t' st' \<and> t \<le> t'"
proof (induction "(t, st)" "(t', st')" arbitrary: t' st' rule: drains_run.induct)
  case (go t1 st1 t2 e)
  then have "drains_inv cfg t1 st1" "t \<le> t1" by auto
  then show ?case using go.hyps(3) drains_inv_step [of cfg t1 st1 t2 e] by simp
qed simp

lemma drains_inv_new [simp]: "drains_inv cfg t new_drains"
  by (auto simp: drains_inv_def new_drains_def counted_def drains_of_def active_in_def)

section \<open>Every drain ends\<close>

text \<open>How the drain of one exchange may change: it stays settled, and its deadline never moves back.\<close>

definition drain_after :: "exchange \<Rightarrow> exchange \<Rightarrow> bool" where
  "drain_after ex ex' \<longleftrightarrow>
     (draining ex' \<longrightarrow> draining ex \<and> dn_deadline (the (ex_drain ex')) \<le> dn_deadline (the (ex_drain ex)))"

definition exchanges_after :: "drain_state \<Rightarrow> drain_state \<Rightarrow> bool" where
  "exchanges_after st st' \<longleftrightarrow>
     length (ds_exchanges st) \<le> length (ds_exchanges st') \<and>
     (\<forall>i < length (ds_exchanges st). drain_after (ds_exchanges st ! i) (ds_exchanges st' ! i))"

lemma drain_after_refl [simp]: "drain_after ex ex"
  by (simp add: drain_after_def)

lemma exchanges_after_refl [simp]: "exchanges_after st st"
  by (simp add: exchanges_after_def)

lemma exchanges_after_trans: "exchanges_after st st' \<Longrightarrow> exchanges_after st' st'' \<Longrightarrow> exchanges_after st st''"
  unfolding exchanges_after_def drain_after_def by (meson le_trans order_trans order_less_le_trans)

lemma exchanges_after_at:
  "(\<And>ex. ex \<in> set (ds_exchanges st) \<Longrightarrow> drain_after ex (f ex)) \<Longrightarrow> exchanges_after st (at_exchange i f st)"
  by (auto simp: exchanges_after_def at_exchange_def nth_list_update)

lemma exchanges_after_settle: "exchanges_after st (settle_drain i st)"
proof -
  have "drain_after ex (on_drain (\<lambda>d. d\<lparr>dn_settled := True\<rparr>) ex)" for ex by (simp add: drain_after_def)
  then have "exchanges_after st (at_exchange i (on_drain (\<lambda>d. d\<lparr>dn_settled := True\<rparr>)) st)"
    by (intro exchanges_after_at)
  then show ?thesis by (simp add: settle_drain_def Let_def exchanges_after_def)
qed

lemma exchanges_after_abandon_all: "exchanges_after st (abandon_all due st)"
  by (auto simp: exchanges_after_def abandon_all_exchanges drain_after_def abandoned_def)

lemma drain_after_chunk:
  assumes "exchange_ok c t ex"
  shows "drain_after ex (on_drain (on_chunk t len) ex)"
  using assms
  by (auto simp: drain_after_def exchange_ok_def drain_bounded_def on_drain_def on_chunk_def linger_briefly_def
      draining_def Let_def split: option.splits if_splits)

lemma exchanges_after_step:
  assumes "drains_inv cfg t st" "t \<le> t'"
  shows "exchanges_after st (drain_step cfg t' e st)"
proof -
  let ?s = "fire_timers t' st"
  have inv: "drains_inv cfg t' ?s" using assms by (rule drains_inv_fire)
  have out: "drain_after ex (response_finished ex)" for ex
    by (simp add: drain_after_def response_finished_def draining_def Let_def)
  have "exchanges_after ?s (handle_drain_event cfg t' e ?s)"
  proof (cases e)
    case (Prefinish r u)
    then show ?thesis
      by (auto simp: exchanges_after_def drain_unread_upload_def Let_def nth_append)
  next
    case Pre_close
    have "exchanges_after (?s\<lparr>ds_closing := True\<rparr>) (pre_close ?s)"
      unfolding pre_close_def by (rule exchanges_after_abandon_all)
    then show ?thesis by (simp add: Pre_close exchanges_after_def)
  qed (use drains_invD(3) [OF inv] in
    \<open>auto intro!: exchanges_after_at exchanges_after_settle out drain_after_chunk\<close>)
  moreover have "exchanges_after st ?s" unfolding fire_timers_def by (rule exchanges_after_abandon_all)
  ultimately show ?thesis unfolding drain_step_def using exchanges_after_trans by blast
qed

lemma exchanges_after_run:
  "drains_run cfg (t, st) (t', st') \<Longrightarrow> drains_inv cfg t st \<Longrightarrow> exchanges_after st st'"
proof (induction "(t, st)" "(t', st')" arbitrary: t' st' rule: drains_run.induct)
  case (go t1 st1 t2 e)
  then have "drains_inv cfg t1 st1" using drains_inv_run by blast
  then have "exchanges_after st1 (drain_step cfg t2 e st1)" using go.hyps(3) by (rule exchanges_after_step)
  then show ?case using go exchanges_after_trans by blast
qed simp

lemma drain_not_past_deadline:
  assumes "drains_inv cfg t st" "drains_run cfg (t, st) (t', st')" "i < length (ds_exchanges st)"
    "dn_deadline (the (ex_drain (ds_exchanges st ! i))) \<le> t'"
  shows "\<not> draining (ds_exchanges st' ! i)"
proof
  assume d: "draining (ds_exchanges st' ! i)"
  have after: "exchanges_after st st'" using assms(2,1) by (rule exchanges_after_run)
  then have "i < length (ds_exchanges st')" using assms(3) by (simp add: exchanges_after_def)
  moreover have "drains_inv cfg t' st'" using drains_inv_run [OF assms(2,1)] by simp
  ultimately have "exchange_ok (ds_closing st') t' (ds_exchanges st' ! i)" by (simp add: drains_inv_def)
  then have "t' < dn_deadline (the (ex_drain (ds_exchanges st' ! i)))"
    using d by (simp add: exchange_ok_def drain_bounded_def)
  then show False using after assms(3,4) d by (auto simp: exchanges_after_def drain_after_def)
qed

definition drain_expired :: "int \<Rightarrow> int \<Rightarrow> drain \<Rightarrow> bool" where
  "drain_expired t t' d \<longleftrightarrow>
     dn_started d + (if dn_signed_out d then SIGNED_OUT_DRAIN_LINGER else DRAIN_LINGER) \<le> t' \<or>
     dn_drained d > DRAIN_BYTE_CAP \<and> t + DRAIN_OVERSIZE_LINGER \<le> t'"

text \<open>C25: Whatever uploads arrive, stall or run on, each pool's counter is the number of drains in it and never
  exceeds its slots, so callers without a principal hold at most eight and never a signed-in slot. A connection is
  destroyed only after its response was written. Once the server is closing nothing drains. A drain ends by itself:
  5 seconds after it started (1 second without a principal), and within 1 second of having discarded more than
  4 MiB.\<close>

theorem drains_bounded_and_ended:
  assumes run: "drains_run cfg (t0, new_drains) (t, st)" and later: "drains_run cfg (t, st) (t', st')"
  shows "(\<forall>so. active_in so st = drains_of so st \<and> active_in so st \<le> max 0 (drain_slots cfg so)) \<and>
    (\<forall>ex \<in> set (ds_exchanges st). (ex_destroyed ex \<longrightarrow> ex_written ex) \<and> (ds_closing st \<longrightarrow> \<not> draining ex)) \<and>
    (\<forall>i < length (ds_exchanges st).
       draining (ds_exchanges st ! i) \<longrightarrow> drain_expired t t' (the (ex_drain (ds_exchanges st ! i))) \<longrightarrow>
       \<not> draining (ds_exchanges st' ! i))"
proof -
  have inv: "drains_inv cfg t st" using drains_inv_run [OF run] by simp
  have "\<not> draining (ds_exchanges st' ! i)"
    if i: "i < length (ds_exchanges st)" "draining (ds_exchanges st ! i)"
      and "drain_expired t t' (the (ex_drain (ds_exchanges st ! i)))" for i
  proof (rule drain_not_past_deadline [OF inv later i(1)])
    have "exchange_ok (ds_closing st) t (ds_exchanges st ! i)" using inv i(1) by (simp add: drains_inv_def)
    then show "dn_deadline (the (ex_drain (ds_exchanges st ! i))) \<le> t'"
      using that by (auto simp: exchange_ok_def drain_bounded_def drain_expired_def split: if_splits)
  qed
  then show ?thesis
    using drains_invD(1,2) [OF inv] drains_invD(3) [OF inv] by (auto simp: counted_active exchange_ok_def)
qed

definition sample_drain_config :: drain_config where
  "sample_drain_config = \<lparr>dc_max_active_uploads = 4, dc_write_timeout = 10000\<rparr>"

definition sample_oversize :: drain_state where
  "sample_oversize = drain_step sample_drain_config 0
     (Prefinish \<lparr>dr_complete = False, dr_socket_open = True, dr_signed_out = False, dr_declared_length = None\<rparr>
        (new_unread sample_drain_config 0)) new_drains"

definition sample_running :: drain_state where
  "sample_running = drain_step sample_drain_config 20 (Chunk 0 5000000) sample_oversize"

definition sample_ended :: drain_state where
  "sample_ended = drain_step sample_drain_config 1020 Clock sample_running"

lemma drains_bounded_and_ended_witness:
  "drains_run sample_drain_config (0, new_drains) (20, sample_running) \<and>
   drains_run sample_drain_config (20, sample_running) (1020, sample_ended) \<and>
   length (ds_exchanges sample_running) = 1 \<and> draining (ds_exchanges sample_running ! 0) \<and>
   \<not> draining (ds_exchanges sample_ended ! 0)"
proof -
  have a: "drains_run sample_drain_config (0, new_drains) (20, sample_running)"
    unfolding sample_running_def sample_oversize_def
    by (rule drains_run.go, rule drains_run.go, rule drains_run.stay) simp_all
  have b: "drains_run sample_drain_config (20, sample_running) (1020, sample_ended)"
    unfolding sample_ended_def by (rule drains_run.go, rule drains_run.stay) simp
  have c: "length (ds_exchanges sample_running) = 1 \<and> draining (ds_exchanges sample_running ! 0) \<and>
      drain_expired 20 1020 (the (ex_drain (ds_exchanges sample_running ! 0)))"
    by code_simp
  then show ?thesis using a b drains_bounded_and_ended [OF a b] by auto
qed

end
