(* ===== verification/Readiness.thy ===== *)
theory Readiness
  imports Json
begin

text \<open>
  Liveness and readiness of the BFF (\<open>server/routes/health.ts\<close>): the probe of the gateway, what an
  anonymous and an authenticated caller are told of it, and the shared probe with its five-second cache,
  which a configuration change retires.
\<close>

section \<open>The probe\<close>

text \<open>A reply of the gateway: its status, the sizes of the body's chunks and what the body parses to.\<close>

record gateway_reply =
  gr_status :: nat
  gr_chunks :: "nat list"
  gr_parsed :: "string json option"

definition reply_ok :: "gateway_reply \<Rightarrow> bool" where
  "reply_ok r \<longleftrightarrow> 200 \<le> gr_status r \<and> gr_status r \<le> 299"

fun within_probe_limit :: "nat \<Rightarrow> nat list \<Rightarrow> bool" where
  "within_probe_limit bytes [] = True"
| "within_probe_limit bytes (n # ns) = (if bytes + n > 64 * 1024 then False else within_probe_limit (bytes + n) ns)"

definition bounded_json :: "gateway_reply \<Rightarrow> string json option" where
  "bounded_json r =
     (if \<not> within_probe_limit 0 (gr_chunks r) then None
      else case gr_parsed r of Some (JObj fs) \<Rightarrow> Some (JObj fs) | _ \<Rightarrow> None)"

definition gateway_health_statuses :: "string list" where
  "gateway_health_statuses = [''ok'', ''degraded'', ''starting'', ''unavailable'', ''draining'']"

definition health_snapshot :: "string json option \<Rightarrow> (string \<times> bool) option" where
  "health_snapshot body =
     (case body of
        None \<Rightarrow> None
      | Some b \<Rightarrow>
          (case (jfield ''status'' b, jfield ''ready'' b) of
             (Some (JStr s), Some (JBool ready)) \<Rightarrow> if s \<in> set gateway_health_statuses then Some (s, ready) else None
           | _ \<Rightarrow> None))"

datatype verdict = Ready | Degraded | Unavailable

record readiness_result =
  rr_http :: nat
  rr_verdict :: verdict
  rr_ready :: bool
  rr_checked_at :: string
  rr_gateway_status :: "nat option"

definition probe_failed :: "string \<Rightarrow> readiness_result" where
  "probe_failed checked = \<lparr>rr_http = 503, rr_verdict = Unavailable, rr_ready = False, rr_checked_at = checked, rr_gateway_status = None\<rparr>"

text \<open>\<open>None\<close> is a token that could not be signed, or a fetch that rejected or timed out. The second call is made
  only over a ready snapshot.\<close>

definition probe_readiness :: "string \<Rightarrow> bool \<Rightarrow> gateway_reply option \<Rightarrow> gateway_reply option \<Rightarrow> readiness_result" where
  "probe_readiness checked token health namespaces =
     (case (if token then health else None) of
        None \<Rightarrow> probe_failed checked
      | Some r \<Rightarrow>
          let snapshot = health_snapshot (bounded_json r);
              health_ready = (reply_ok r \<and> map_option snd snapshot = Some True) in
          if health_ready \<and> namespaces = None then probe_failed checked
          else let auth_status = (if health_ready then gr_status (the namespaces) else gr_status r);
                   gateway_ready = (health_ready \<and> reply_ok (the namespaces));
                   degraded = (gateway_ready \<and> map_option fst snapshot = Some ''degraded'') in
            \<lparr>rr_http = (if gateway_ready then 200 else 503),
             rr_verdict = (if gateway_ready then (if degraded then Degraded else Ready) else Unavailable),
             rr_ready = gateway_ready, rr_checked_at = checked, rr_gateway_status = Some auth_status\<rparr>)"

section \<open>What a caller is told\<close>

fun verdict_text :: "verdict \<Rightarrow> string" where
  "verdict_text Ready = ''ready''"
| "verdict_text Degraded = ''degraded''"
| "verdict_text Unavailable = ''unavailable''"

definition component_text :: "verdict \<Rightarrow> string" where
  "component_text v = (if v = Ready then ''ok'' else verdict_text v)"

definition readiness_body :: "string \<Rightarrow> readiness_result \<Rightarrow> string json" where
  "readiness_body version r =
     JObj [(''status'', JStr (verdict_text (rr_verdict r))), (''ready'', JBool (rr_ready r)), (''version'', JStr version),
       (''checkedAt'', JStr (rr_checked_at r)),
       (''components'', JObj [(''bff'', JObj [(''status'', JStr ''ok'')]),
          (''gateway'', JObj ((''status'', JStr (component_text (rr_verdict r))) #
             (case rr_gateway_status r of None \<Rightarrow> [] | Some n \<Rightarrow> [(''httpStatus'', JNum (of_nat n))])))])]"

definition public_readiness :: "readiness_result \<Rightarrow> string json" where
  "public_readiness r =
     JObj [(''status'', JStr (if rr_ready r then ''ready'' else ''unavailable'')), (''ready'', JBool (rr_ready r))]"

definition ready_answer :: "string \<Rightarrow> bool \<Rightarrow> readiness_result \<Rightarrow> nat \<times> string json" where
  "ready_answer version authenticated r =
     (rr_http r, if authenticated then readiness_body version r else public_readiness r)"

definition live_answer :: "string \<Rightarrow> bool \<Rightarrow> string json" where
  "live_answer version authenticated =
     JObj ((''status'', JStr ''ok'') # (if authenticated then [(''version'', JStr version)] else []))"

section \<open>The shared probe\<close>

record probe =
  pb_generation :: nat
  pb_result :: "readiness_result option"
  pb_finished :: int

record readiness_state =
  rs_generation :: nat
  rs_cached :: "(readiness_result \<times> int) option"
  rs_in_flight :: "nat option"
  rs_probes :: "probe list"

definition readiness_init :: readiness_state where
  "readiness_init = \<lparr>rs_generation = 0, rs_cached = None, rs_in_flight = None, rs_probes = []\<rparr>"

definition CACHE_TTL :: int where "CACHE_TTL = 5000"

definition configuration_changed :: "readiness_state \<Rightarrow> readiness_state" where
  "configuration_changed st = st\<lparr>rs_generation := rs_generation st + 1, rs_cached := None, rs_in_flight := None\<rparr>"

datatype readiness_answer = Cached readiness_result | Awaits nat

definition readiness :: "int \<Rightarrow> readiness_state \<Rightarrow> readiness_answer \<times> readiness_state" where
  "readiness now st =
     (case rs_cached st of
        Some (r, expires_at) \<Rightarrow>
          if expires_at > now then (Cached r, st)
          else (case rs_in_flight st of
                  Some i \<Rightarrow> (Awaits i, st)
                | None \<Rightarrow> (Awaits (length (rs_probes st)),
                    st\<lparr>rs_in_flight := Some (length (rs_probes st)),
                       rs_probes := rs_probes st @ [\<lparr>pb_generation = rs_generation st, pb_result = None, pb_finished = 0\<rparr>]\<rparr>))
      | None \<Rightarrow>
          (case rs_in_flight st of
             Some i \<Rightarrow> (Awaits i, st)
           | None \<Rightarrow> (Awaits (length (rs_probes st)),
               st\<lparr>rs_in_flight := Some (length (rs_probes st)),
                  rs_probes := rs_probes st @ [\<lparr>pb_generation = rs_generation st, pb_result = None, pb_finished = 0\<rparr>]\<rparr>)))"

text \<open>A probe resolves once; it caches its result only for the generation that accepted it.\<close>

definition probe_settled :: "nat \<Rightarrow> readiness_result \<Rightarrow> int \<Rightarrow> readiness_state \<Rightarrow> readiness_state" where
  "probe_settled i r now st =
     (if i < length (rs_probes st) \<and> pb_result (rs_probes st ! i) = None
      then st\<lparr>rs_probes := (rs_probes st)[i := (rs_probes st ! i)\<lparr>pb_result := Some r, pb_finished := now\<rparr>],
              rs_cached := (if rs_generation st = pb_generation (rs_probes st ! i) then Some (r, now + CACHE_TTL)
                            else rs_cached st),
              rs_in_flight := (if rs_in_flight st = Some i then None else rs_in_flight st)\<rparr>
      else st)"

inductive readiness_reach :: "readiness_state \<Rightarrow> bool" where
  start: "readiness_reach readiness_init"
| ask: "readiness_reach st \<Longrightarrow> readiness_reach (snd (readiness now st))"
| settle: "readiness_reach st \<Longrightarrow> readiness_reach (probe_settled i r now st)"
| change: "readiness_reach st \<Longrightarrow> readiness_reach (configuration_changed st)"

definition pending_now :: "readiness_state \<Rightarrow> nat \<Rightarrow> bool" where
  "pending_now st i \<longleftrightarrow>
     i < length (rs_probes st) \<and> pb_generation (rs_probes st ! i) = rs_generation st \<and> pb_result (rs_probes st ! i) = None"

definition finished_now :: "readiness_state \<Rightarrow> readiness_result \<Rightarrow> int \<Rightarrow> bool" where
  "finished_now st r t \<longleftrightarrow>
     (\<exists>p \<in> set (rs_probes st). pb_generation p = rs_generation st \<and> pb_result p = Some r \<and> pb_finished p = t)"

definition readiness_inv :: "readiness_state \<Rightarrow> bool" where
  "readiness_inv st \<longleftrightarrow>
     (\<forall>p \<in> set (rs_probes st). pb_generation p \<le> rs_generation st) \<and>
     (\<forall>i. pending_now st i \<longleftrightarrow> rs_in_flight st = Some i) \<and>
     (\<forall>r e. rs_cached st = Some (r, e) \<longrightarrow> finished_now st r (e - CACHE_TTL))"

lemma readiness_inv_init: "readiness_inv readiness_init"
  by (simp add: readiness_inv_def readiness_init_def pending_now_def)

lemma readiness_inv_change:
  assumes "readiness_inv st"
  shows "readiness_inv (configuration_changed st)"
proof -
  have "pb_generation (rs_probes st ! i) \<noteq> rs_generation st + 1" if "i < length (rs_probes st)" for i
    using assms that unfolding readiness_inv_def by (metis Suc_eq_plus1 nth_mem not_less_eq_eq order_refl)
  then show ?thesis using assms
    by (auto simp: readiness_inv_def configuration_changed_def pending_now_def)
qed

definition probe_started :: "readiness_state \<Rightarrow> readiness_state" where
  "probe_started st = st\<lparr>rs_in_flight := Some (length (rs_probes st)),
     rs_probes := rs_probes st @ [\<lparr>pb_generation = rs_generation st, pb_result = None, pb_finished = 0\<rparr>]\<rparr>"

lemma readiness_inv_started:
  assumes "readiness_inv st" "rs_in_flight st = None"
  shows "readiness_inv (probe_started st)"
proof -
  have none: "\<not> pending_now st i" for i using assms by (simp add: readiness_inv_def)
  have "pending_now (probe_started st) i \<longleftrightarrow> i = length (rs_probes st)" for i
    using none [of i] by (auto simp: pending_now_def probe_started_def nth_append)
  moreover have "finished_now (probe_started st) r t" if "finished_now st r t" for r t
    using that by (auto simp: finished_now_def probe_started_def)
  ultimately show ?thesis using assms(1) by (auto simp: readiness_inv_def) (auto simp: probe_started_def)
qed

lemma readiness_cases:
  "snd (readiness now st) = st \<and> (\<exists>r e. fst (readiness now st) = Cached r \<and> rs_cached st = Some (r, e) \<and> now < e) \<or>
   snd (readiness now st) = st \<and> (\<exists>i. fst (readiness now st) = Awaits i \<and> rs_in_flight st = Some i) \<or>
   snd (readiness now st) = probe_started st \<and> rs_in_flight st = None \<and>
     fst (readiness now st) = Awaits (length (rs_probes st))"
  by (auto simp: readiness_def probe_started_def split: option.split)

lemma readiness_inv_ask: "readiness_inv st \<Longrightarrow> readiness_inv (snd (readiness now st))"
  using readiness_cases [of now st] readiness_inv_started by auto

lemma readiness_inv_settled:
  assumes inv: "readiness_inv st"
  shows "readiness_inv (probe_settled i r now st)"
proof (cases "i < length (rs_probes st) \<and> pb_result (rs_probes st ! i) = None")
  case True
  let ?st = "probe_settled i r now st"
  have pending: "pending_now ?st j \<longleftrightarrow> pending_now st j \<and> j \<noteq> i" for j
    using True by (auto simp: pending_now_def probe_settled_def nth_list_update)
  have kept: "finished_now ?st r' t" if f: "finished_now st r' t" for r' t
  proof -
    obtain j where "j < length (rs_probes st)" "pb_generation (rs_probes st ! j) = rs_generation st"
      "pb_result (rs_probes st ! j) = Some r'" "pb_finished (rs_probes st ! j) = t"
      using f by (auto simp: finished_now_def in_set_conv_nth)
    then show ?thesis using True unfolding finished_now_def
      by (intro bexI [of _ "rs_probes st ! j"])
        (auto simp: probe_settled_def in_set_conv_nth nth_list_update intro!: exI [of _ j])
  qed
  have new: "finished_now ?st r now" if "rs_generation st = pb_generation (rs_probes st ! i)"
    using True that unfolding finished_now_def
    by (intro bexI [of _ "(rs_probes st ! i)\<lparr>pb_result := Some r, pb_finished := now\<rparr>"])
      (auto simp: probe_settled_def intro: set_update_memI)
  have "\<forall>p \<in> set (rs_probes ?st). pb_generation p \<le> rs_generation st"
    using inv True set_update_subset_insert [of "rs_probes st" i]
    by (fastforce simp: readiness_inv_def probe_settled_def)
  moreover have "\<forall>j. pending_now ?st j \<longleftrightarrow> rs_in_flight ?st = Some j"
    using inv True unfolding pending by (auto simp: readiness_inv_def probe_settled_def)
  moreover have "finished_now ?st r' (e - CACHE_TTL)" if c: "rs_cached ?st = Some (r', e)" for r' e
    using c True inv kept new by (auto simp: probe_settled_def readiness_inv_def split: if_splits)
  moreover have "rs_generation ?st = rs_generation st" by (simp add: probe_settled_def)
  ultimately show ?thesis by (simp only: readiness_inv_def) blast
next
  case False
  then show ?thesis using inv by (auto simp: probe_settled_def)
qed

lemma readiness_reach_inv: "readiness_reach st \<Longrightarrow> readiness_inv st"
  by (induction rule: readiness_reach.induct)
    (simp_all add: readiness_inv_init readiness_inv_ask readiness_inv_settled readiness_inv_change)

lemma pending_after_settle:
  "readiness_inv st \<Longrightarrow> pending_now st i \<Longrightarrow> pending_now st j \<Longrightarrow> i = j"
  by (simp add: readiness_inv_def)

text \<open>C26: Whatever requests, probe results and configuration changes came before, a readiness request is answered by
  the configuration in force: either by a probe accepted under it that finished less than five seconds before, or by
  the one unfinished probe of it, which the request starts when there is none. A probe accepted under an earlier
  configuration is never joined and its result never cached.\<close>

theorem readiness_answers_current:
  assumes "readiness_reach st"
  shows "case readiness now st of
      (Cached r, st') \<Rightarrow> \<exists>t. finished_now st r t \<and> now < t + CACHE_TTL
    | (Awaits i, st') \<Rightarrow> pending_now st' i \<and> {j. pending_now st' j} = {i} \<and> rs_generation st' = rs_generation st"
proof -
  have inv: "readiness_inv st" using assms by (rule readiness_reach_inv)
  then have inv': "readiness_inv (snd (readiness now st))" by (rule readiness_inv_ask)
  have awaits: "pending_now st' i \<and> {j. pending_now st' j} = {i}" if "readiness_inv st'" "rs_in_flight st' = Some i" for st' i
    using that by (auto simp: readiness_inv_def)
  show ?thesis
  proof (cases "\<exists>r. fst (readiness now st) = Cached r")
    case True
    then obtain r e where c: "readiness now st = (Cached r, st)" "rs_cached st = Some (r, e)" "now < e"
      using readiness_cases [of now st] by (metis readiness_answer.distinct(1) prod.collapse readiness_answer.inject(1))
    then have "finished_now st r (e - CACHE_TTL)" using inv by (simp add: readiness_inv_def)
    then show ?thesis using c by (auto simp: CACHE_TTL_def intro!: exI [of _ "e - CACHE_TTL"])
  next
    case False
    then obtain i where i: "fst (readiness now st) = Awaits i" "rs_in_flight (snd (readiness now st)) = Some i"
        "rs_generation (snd (readiness now st)) = rs_generation st"
      using readiness_cases [of now st] by (auto simp: probe_started_def)
    then show ?thesis using awaits [OF inv' i(2)] by (simp add: split_beta split: readiness_answer.split)
  qed
qed

lemma readiness_answers_current_witness:
  "\<exists>st r. readiness_reach st \<and> fst (readiness 5100 st) = Cached r \<and> finished_now st r 200 \<and> (5100::int) < 200 + CACHE_TTL"
proof -
  let ?r = "probe_failed ''t''"
  let ?st = "probe_settled 0 ?r 200 (snd (readiness 100 readiness_init))"
  have reach: "readiness_reach ?st" by (intro readiness_reach.intros)
  have c: "readiness 5100 ?st = (Cached ?r, ?st)"
    by (simp add: readiness_def readiness_init_def probe_settled_def CACHE_TTL_def)
  from readiness_answers_current [OF reach, of 5100] obtain t where t: "finished_now ?st ?r t" "5100 < t + CACHE_TTL"
    unfolding c by auto
  have "t = 200" using t(1)
    by (simp add: finished_now_def readiness_def readiness_init_def probe_settled_def)
  then show ?thesis using reach c t by (intro exI [of _ ?st] exI [of _ ?r]) simp
qed

text \<open>What a probe must have seen to call the gateway ready: a signed token, a 2xx health snapshot reporting itself
  ready, within 64 KiB, and a 2xx answer to the authenticated call after it.\<close>

definition ready_snapshot :: "gateway_reply \<Rightarrow> bool" where
  "ready_snapshot h \<longleftrightarrow>
     sum_list (gr_chunks h) \<le> 64 * 1024 \<and>
     (case gr_parsed h of
        Some (JObj fs) \<Rightarrow> map_of fs ''ready'' = Some (JBool True) \<and>
          (case map_of fs ''status'' of Some (JStr s) \<Rightarrow> s \<in> set gateway_health_statuses | _ \<Rightarrow> False)
      | _ \<Rightarrow> False)"

definition gateway_proven :: "bool \<Rightarrow> gateway_reply option \<Rightarrow> gateway_reply option \<Rightarrow> bool" where
  "gateway_proven token health namespaces \<longleftrightarrow>
     token \<and>
     (case health of None \<Rightarrow> False
      | Some h \<Rightarrow> reply_ok h \<and> ready_snapshot h) \<and>
     (case namespaces of None \<Rightarrow> False | Some n \<Rightarrow> reply_ok n)"

lemma within_probe_limit_iff: "within_probe_limit n ns \<longleftrightarrow> ns = [] \<or> n + sum_list ns \<le> 64 * 1024"
proof (induction ns arbitrary: n)
  case (Cons a ns)
  then show ?case by (cases "ns = []") (simp_all add: add.assoc not_less)
qed simp

lemma health_snapshot_ready:
  "map_option snd (health_snapshot (bounded_json h)) = Some True \<longleftrightarrow> ready_snapshot h"
  by (auto simp: health_snapshot_def bounded_json_def ready_snapshot_def within_probe_limit_iff jfield_def
      split: option.splits json.splits if_splits)

lemma probe_ready_iff: "rr_ready (probe_readiness checked token health namespaces) \<longleftrightarrow> gateway_proven token health namespaces"
  unfolding probe_readiness_def Let_def health_snapshot_ready
  by (auto simp: gateway_proven_def probe_failed_def split: option.splits)

lemma probe_http: "rr_http (probe_readiness checked token health namespaces) =
    (if rr_ready (probe_readiness checked token health namespaces) then 200 else 503)"
  by (simp add: probe_readiness_def probe_failed_def Let_def split: option.split)

text \<open>An anonymous caller of the readiness endpoint gets one of two fixed answers, decided by whether the probe
  saw the gateway ready and authenticated; nothing else of the gateway's replies, the version or the time shows.
  A bare 2xx, an oversized or foreign body and a failed authenticated call are never a positive verdict.\<close>

theorem anonymous_readiness_is_the_verdict:
  "ready_answer version False (probe_readiness checked token health namespaces) =
     (if gateway_proven token health namespaces
      then (200, JObj [(''status'', JStr ''ready''), (''ready'', JBool True)])
      else (503, JObj [(''status'', JStr ''unavailable''), (''ready'', JBool False)]))"
  using probe_ready_iff [of checked token health namespaces] probe_http [of checked token health namespaces]
  by (simp add: ready_answer_def public_readiness_def)

end
