(* ===== verification/MutationOutcome.thy ===== *)
theory MutationOutcome
  imports Json JsString
begin

text \<open>
  What a failed write says of its outcome (\<open>api/mutationOutcome.ts\<close>): the wrapper that reports a lost answer
  as unknown, and the classifier of unobserved outcomes. An error is the client's: its name and message, and for
  an HTTP answer its status, headers and parsed body.
\<close>

record client_error =
  ce_name :: string
  ce_message :: string
  ce_status :: "nat option"
  ce_headers :: "string \<Rightarrow> string option"
  ce_data :: "string json option"

datatype unobserved_reason = Gateway_timeout | Upstream_failure | Client_timeout | Transport

type_synonym unobserved_outcome = "unobserved_reason \<times> string option"

definition bff_error_body :: "client_error \<Rightarrow> string json option" where
  "bff_error_body e =
     (case ce_data e of Some (JObj fs) \<Rightarrow> Some (JObj fs) | Some (JArr vs) \<Rightarrow> Some (JArr vs) | _ \<Rightarrow> None)"

definition body_field :: "string \<Rightarrow> string json option \<Rightarrow> string json option" where
  "body_field k b = Option.bind b (jfield k)"

definition json_text :: "string json option \<Rightarrow> string option" where
  "json_text v = (case v of Some (JStr s) \<Rightarrow> Some s | _ \<Rightarrow> None)"

definition classify_unobserved_outcome :: "client_error \<Rightarrow> unobserved_outcome option" where
  "classify_unobserved_outcome e =
     (if ce_name e \<in> {''UnboundNamespaceError'', ''PathSegmentError''} then None
      else case ce_status e of
        None \<Rightarrow>
          if ce_name e = ''TimeoutError'' then Some (Client_timeout, None)
          else Some (Transport, if ce_message e = [] then None else Some (ce_message e))
      | Some status \<Rightarrow>
          let body = bff_error_body e; detail = json_text (body_field ''error'' body) in
          if status = 504
          then (if body_field ''phase'' body = Some (JStr ''upload'') then None else Some (Gateway_timeout, detail))
          else if status = 502 then Some (Upstream_failure, detail)
          else None)"

text \<open>\<open>observeMutation\<close> of a rejected request: whether it is rethrown as an unknown outcome. \<open>committed\<close> is the
  client's committed-write marker.\<close>

definition outcome_unknown :: "bool \<Rightarrow> client_error \<Rightarrow> bool" where
  "outcome_unknown committed e =
     (let upload_rejected =
            ce_status e = Some 504 \<and>
            body_field ''code'' (bff_error_body e) = Some (JStr ''FERRUM_BFF_TIMEOUT'') \<and>
            body_field ''phase'' (bff_error_body e) = Some (JStr ''upload'');
          local_path_refusal = (ce_name e = ''PathSegmentError'') in
      \<not> committed \<and> \<not> local_path_refusal \<and> \<not> upload_rejected \<and>
      (case ce_status e of None \<Rightarrow> True | Some s \<Rightarrow> s = 408 \<or> s \<ge> 500))"

lemma classified_is_unknown:
  "classify_unobserved_outcome e \<noteq> None \<Longrightarrow> \<not> committed \<Longrightarrow> outcome_unknown committed e"
  by (auto simp: classify_unobserved_outcome_def outcome_unknown_def Let_def split: option.splits if_splits)

end
