(* ===== verification/ApplyMonitor.thy ===== *)
theory ApplyMonitor
  imports MutationOutcome Prelude WaitBudget "HOL-Library.Sublist"
begin

text \<open>
  The live-apply monitor of the console (\<open>api/gatewayMetadata.ts\<close>): the ownership of configuration
  mutations, the classification of their answers, and the polls of \<open>/config/apply-status\<close>. The module
  variables are one record; an asynchronous function is the events at which it resumes (the answer's headers,
  its body when it is a 503, each answer of a poll), so any interleaving of requests is a list of events.
\<close>

section \<open>Cursors\<close>

definition uint64_text :: "string \<Rightarrow> nat option" where
  "uint64_text s =
     (if s = [] \<or> \<not> list_all digit s \<or> length s > 20 \<or> decimal s > 18446744073709551615 then None else Some (decimal s))"

definition uint64 :: "string json \<Rightarrow> nat option" where
  "uint64 v =
     (case v of
        JNum r \<Rightarrow> (case safe_integer (JNum r :: string json) of Some i \<Rightarrow> if i < 0 then None else Some (nat i) | None \<Rightarrow> None)
      | JStr s \<Rightarrow> uint64_text s
      | _ \<Rightarrow> None)"

record config_cursor =
  cu_raw :: string
  cu_epoch :: string
  cu_sequence :: string

definition parse_config_cursor :: "string option \<Rightarrow> config_cursor option" where
  "parse_config_cursor value =
     (case value of
        None \<Rightarrow> None
      | Some v \<Rightarrow>
          (case split_on CHR '':'' v of
             [epoch, sequence] \<Rightarrow>
               if uint64_text epoch = None \<or> uint64_text sequence = None then None
               else Some \<lparr>cu_raw = v, cu_epoch = epoch, cu_sequence = sequence\<rparr>
           | _ \<Rightarrow> None))"

section \<open>State\<close>

datatype apply_state =
    Idle | Nothing_applied | Outcome_unknown | Pending | Succeeded | Applied | Rejected | Unverifiable | Unmonitored

fun holds_known_commit :: "apply_state \<Rightarrow> bool" where
  "holds_known_commit Pending = True"
| "holds_known_commit Rejected = True"
| "holds_known_commit Unverifiable = True"
| "holds_known_commit Unmonitored = True"
| "holds_known_commit Idle = False"
| "holds_known_commit Nothing_applied = False"
| "holds_known_commit Outcome_unknown = False"
| "holds_known_commit Succeeded = False"
| "holds_known_commit Applied = False"

record apply_info =
  ap_state :: apply_state
  ap_namespace :: "string option"
  ap_cursor :: "string option"
  ap_url :: "string option"
  ap_reason :: "string option"
  ap_retry_after :: "string option"
  ap_polling :: bool

definition IDLE_APPLY :: apply_info where
  "IDLE_APPLY = \<lparr>ap_state = Idle, ap_namespace = None, ap_cursor = None, ap_url = None, ap_reason = None,
     ap_retry_after = None, ap_polling = False\<rparr>"

record response_metadata =
  rm_cached :: "(string \<times> string) option"
  rm_etag :: "string option"
  rm_cache_control :: "string option"
  rm_content_disposition :: "string option"

definition no_metadata :: response_metadata where
  "no_metadata = \<lparr>rm_cached = None, rm_etag = None, rm_cache_control = None, rm_content_disposition = None\<rparr>"

record request_identity =
  ri_session :: nat
  ri_order :: "nat option"

record mutation_request =
  mr_url :: string
  mr_method :: string
  mr_path :: string
  mr_namespace :: "string option"

record gateway_response =
  gw_status :: nat
  gw_cursor :: "string option"
  gw_retry_after :: "string option"
  gw_data_source :: "string option"
  gw_etag :: "string option"
  gw_cache_control :: "string option"
  gw_content_disposition :: "string option"

record apply_poll =
  po_cursor :: config_cursor
  po_generation :: nat
  po_namespace :: "string option"
  po_attempt :: nat
  po_waits :: nat

text \<open>A 503 whose body is being read: the request, the answer, its owner and the cached mark computed from it.\<close>

record pending_body =
  pd_request :: mutation_request
  pd_response :: gateway_response
  pd_owner :: request_identity
  pd_cached :: "(string \<times> string) option"

record monitor =
  mo_apply :: apply_info
  mo_meta :: response_metadata
  mo_poll_generation :: nat
  mo_latest_order :: nat
  mo_session :: nat
  mo_scoped :: bool
  mo_polls :: "apply_poll list"
  mo_bodies :: "pending_body list"

definition monitor_init :: "bool \<Rightarrow> monitor" where
  "monitor_init scoped = \<lparr>mo_apply = IDLE_APPLY, mo_meta = no_metadata, mo_poll_generation = 0, mo_latest_order = 0,
     mo_session = 0, mo_scoped = scoped, mo_polls = [], mo_bodies = []\<rparr>"

section \<open>Requests\<close>

definition operational_post_paths :: "seg_pat list list" where
  "operational_post_paths =
     [[Lit ''api'', Lit ''proxy'', Lit ''admin'', Lit ''tls'', Lit ''rotate'', Wild],
      [Lit ''api'', Lit ''proxy'', Lit ''admin'', Lit ''tls'', Lit ''validate''],
      [Lit ''api'', Lit ''proxy'', Lit ''mesh'', Lit ''egress-scope'', Lit ''test''],
      [Lit ''api'', Lit ''proxy'', Lit ''backend-capabilities'', Lit ''refresh'']]"

definition is_configuration_mutation :: "mutation_request \<Rightarrow> bool" where
  "is_configuration_mutation r \<longleftrightarrow>
     mr_method r \<notin> {''GET'', ''HEAD'', ''OPTIONS''} \<and>
     (mr_method r \<noteq> ''POST'' \<or> \<not> list_ex (\<lambda>p. path_match p False (mr_path r)) operational_post_paths)"

definition is_proxied :: "mutation_request \<Rightarrow> bool" where
  "is_proxied r \<longleftrightarrow> sublist ''/api/proxy/'' (mr_url r)"

definition begin_gateway_request :: "mutation_request \<Rightarrow> monitor \<Rightarrow> request_identity \<times> monitor" where
  "begin_gateway_request r m =
     (if \<not> is_proxied r \<or> \<not> is_configuration_mutation r
      then (\<lparr>ri_session = mo_session m, ri_order = None\<rparr>, m)
      else let order = mo_latest_order m + 1;
               m1 = m\<lparr>mo_latest_order := order\<rparr>;
               m2 = (if ap_state (mo_apply m) \<noteq> Idle \<and> \<not> holds_known_commit (ap_state (mo_apply m))
                     then m1\<lparr>mo_apply := IDLE_APPLY\<rparr> else m1) in
        (\<lparr>ri_session = mo_session m, ri_order = Some order\<rparr>, m2))"

section \<open>Answers\<close>

definition response_reason :: "string json option \<Rightarrow> string option" where
  "response_reason body = json_text (body_field ''reason'' body)"

definition is_committed_not_live :: "string json option \<Rightarrow> bool" where
  "is_committed_not_live body \<longleftrightarrow> body_field ''applied'' body = Some (JBool False)"

type_synonym committed_write = "string option \<times> string option"

definition committed_not_live_answer :: "nat \<Rightarrow> string option \<Rightarrow> string json option \<Rightarrow> committed_write option" where
  "committed_not_live_answer status cursor_header body =
     (if status \<noteq> 503 then None
      else let cursor = parse_config_cursor cursor_header in
        if cursor = None \<and> \<not> is_committed_not_live body then None
        else Some (map_option cu_raw cursor, response_reason body))"

definition classify_committed_write :: "client_error \<Rightarrow> committed_write option" where
  "classify_committed_write e =
     (case ce_status e of
        None \<Rightarrow> None
      | Some status \<Rightarrow> committed_not_live_answer status (ce_headers e ''x-ferrum-config-cursor'') (ce_data e))"

definition response_ok :: "nat \<Rightarrow> bool" where
  "response_ok status \<longleftrightarrow> 200 \<le> status \<and> status \<le> 299"

definition owns_banner :: "request_identity \<Rightarrow> monitor \<Rightarrow> bool" where
  "owns_banner owner m \<longleftrightarrow> ri_session owner = mo_session m \<and> ri_order owner = Some (mo_latest_order m)"

definition answer_metadata :: "gateway_response \<Rightarrow> (string \<times> string) option \<Rightarrow> response_metadata" where
  "answer_metadata resp cached =
     \<lparr>rm_cached = cached, rm_etag = gw_etag resp, rm_cache_control = gw_cache_control resp,
      rm_content_disposition = gw_content_disposition resp\<rparr>"

definition apply_of :: "mutation_request \<Rightarrow> apply_state \<Rightarrow> string option \<Rightarrow> string option \<Rightarrow> string option \<Rightarrow> bool \<Rightarrow> apply_info" where
  "apply_of r state cursor reason retry_after polling =
     \<lparr>ap_state = state, ap_namespace = mr_namespace r, ap_cursor = cursor, ap_url = Some (mr_url r), ap_reason = reason,
      ap_retry_after = retry_after, ap_polling = polling\<rparr>"

text \<open>The next banner of an answer that is not suppressed by a known commit.\<close>

definition classify_answer :: "mutation_request \<Rightarrow> gateway_response \<Rightarrow> string json option \<Rightarrow> apply_info" where
  "classify_answer r resp body =
     (let cursor = parse_config_cursor (gw_cursor resp);
          raw = map_option cu_raw cursor;
          not_live = committed_not_live_answer (gw_status resp) (gw_cursor resp) body in
      if not_live \<noteq> None
      then apply_of r (if cursor \<noteq> None then Pending else Unverifiable) raw (response_reason body) None (cursor \<noteq> None)
      else if gw_status resp = 503 then apply_of r Nothing_applied None None (gw_retry_after resp) False
      else if gw_status resp = 202
      then apply_of r (if cursor \<noteq> None then Pending else Unverifiable) raw
             (if cursor \<noteq> None then None else Some ''missing_apply_cursor'') None (cursor \<noteq> None)
      else if response_ok (gw_status resp) \<and> cursor \<noteq> None then apply_of r Applied raw None None False
      else if response_ok (gw_status resp) then apply_of r Succeeded None None None False
      else IDLE_APPLY)"

definition unmonitored_if_scoped :: "bool \<Rightarrow> bool \<Rightarrow> apply_info \<Rightarrow> apply_info" where
  "unmonitored_if_scoped scoped not_live a =
     (if ap_polling a \<and> scoped
      then a\<lparr>ap_state := Unmonitored, ap_polling := False,
             ap_reason := (if not_live then Some (case ap_reason a of Some s \<Rightarrow> s | None \<Rightarrow> ''committed_not_live'') else None)\<rparr>
      else a)"

text \<open>The part of \<open>observeGatewayResponse\<close> after the body is known.\<close>

definition observe_rest ::
  "mutation_request \<Rightarrow> gateway_response \<Rightarrow> request_identity \<Rightarrow> (string \<times> string) option \<Rightarrow> string json option \<Rightarrow> monitor \<Rightarrow> monitor" where
  "observe_rest r resp owner cached body m =
     (if \<not> owns_banner owner m then m
      else let meta = answer_metadata resp cached;
               cursor = parse_config_cursor (gw_cursor resp);
               not_live = committed_not_live_answer (gw_status resp) (gw_cursor resp) body \<noteq> None;
               committed = (response_ok (gw_status resp) \<or> not_live) in
        if \<not> committed \<and> holds_known_commit (ap_state (mo_apply m)) then m\<lparr>mo_meta := meta\<rparr>
        else let generation = (if committed then mo_poll_generation m + 1 else mo_poll_generation m);
                 next_apply = unmonitored_if_scoped (mo_scoped m) not_live (classify_answer r resp body);
                 m1 = m\<lparr>mo_poll_generation := generation, mo_apply := next_apply, mo_meta := meta\<rparr> in
          (case cursor of
             Some c \<Rightarrow>
               if ap_polling next_apply
               then m1\<lparr>mo_polls := mo_polls m @ [\<lparr>po_cursor = c, po_generation = generation, po_namespace = mr_namespace r,
                                                    po_attempt = 0, po_waits = 0\<rparr>]\<rparr>
               else m1
           | None \<Rightarrow> m1))"

definition cached_mark :: "mutation_request \<Rightarrow> gateway_response \<Rightarrow> string \<Rightarrow> monitor \<Rightarrow> (string \<times> string) option" where
  "cached_mark r resp now m =
     (if gw_data_source resp = Some ''cached'' then Some (mr_url r, now)
      else case rm_cached (mo_meta m) of
        Some (url, observed) \<Rightarrow> if url = mr_url r then None else Some (url, observed)
      | None \<Rightarrow> None)"

text \<open>\<open>observeGatewayResponse\<close> up to the await of a 503's body, which any other event may precede.\<close>

definition observe_response :: "mutation_request \<Rightarrow> gateway_response \<Rightarrow> request_identity \<Rightarrow> string \<Rightarrow> monitor \<Rightarrow> monitor" where
  "observe_response r resp owner now m =
     (if \<not> is_proxied r \<or> ri_session owner \<noteq> mo_session m then m
      else let cached = cached_mark r resp now m in
        if \<not> is_configuration_mutation r then m\<lparr>mo_meta := answer_metadata resp cached\<rparr>
        else if \<not> owns_banner owner m then m
        else if gw_status resp = 503
        then m\<lparr>mo_bodies := mo_bodies m @ [\<lparr>pd_request = r, pd_response = resp, pd_owner = owner, pd_cached = cached\<rparr>]\<rparr>
        else observe_rest r resp owner cached None m)"

definition body_read :: "nat \<Rightarrow> string json option \<Rightarrow> monitor \<Rightarrow> monitor" where
  "body_read i body m =
     (if i < length (mo_bodies m)
      then let p = mo_bodies m ! i in
           observe_rest (pd_request p) (pd_response p) (pd_owner p) (pd_cached p) body
             (m\<lparr>mo_bodies := take i (mo_bodies m) @ drop (Suc i) (mo_bodies m)\<rparr>)
      else m)"

definition observe_failure :: "mutation_request \<Rightarrow> client_error \<Rightarrow> request_identity \<Rightarrow> monitor \<Rightarrow> unobserved_outcome option \<times> monitor" where
  "observe_failure r e identity m =
     (if ri_order identity = None then (None, m)
      else case classify_unobserved_outcome e of
        None \<Rightarrow> (None, m)
      | Some outcome \<Rightarrow>
          if \<not> owns_banner identity m \<or> holds_known_commit (ap_state (mo_apply m)) then (Some outcome, m)
          else (Some outcome,
            m\<lparr>mo_apply := apply_of r Outcome_unknown None
                 (Some (case fst outcome of Gateway_timeout \<Rightarrow> ''gateway_timeout'' | Upstream_failure \<Rightarrow> ''upstream_failure''
                        | Client_timeout \<Rightarrow> ''client_timeout'' | Transport \<Rightarrow> ''transport'')) None False\<rparr>))"

definition clear_gateway_metadata :: "monitor \<Rightarrow> monitor" where
  "clear_gateway_metadata m =
     m\<lparr>mo_session := mo_session m + 1, mo_poll_generation := mo_poll_generation m + 1, mo_latest_order := mo_latest_order m + 1,
       mo_meta := no_metadata, mo_apply := IDLE_APPLY\<rparr>"

section \<open>Polls\<close>

definition field_uint64 :: "string \<Rightarrow> string json \<Rightarrow> nat option" where
  "field_uint64 k v = Option.bind (jfield k v) uint64"

definition valid_apply_status :: "string json \<Rightarrow> config_cursor \<Rightarrow> bool" where
  "valid_apply_status v c =
     (case (jfield ''state'' v, field_uint64 ''topology_epoch'' v, field_uint64 ''sequence'' v,
            field_uint64 ''accepted_topology_epoch'' v, field_uint64 ''accepted_sequence'' v) of
        (Some (JStr state), Some epoch, Some sequence, Some accepted_epoch, Some accepted_sequence) \<Rightarrow>
          state \<in> {''applied'', ''pending'', ''rejected'', ''unverifiable''} \<and>
          Some epoch = uint64_text (cu_epoch c) \<and> Some sequence = uint64_text (cu_sequence c) \<and>
          (state \<noteq> ''applied'' \<or> (accepted_epoch = epoch \<and> accepted_sequence \<ge> sequence))
      | _ \<Rightarrow> False)"

definition MAX_CAPACITY_WAITS :: nat where "MAX_CAPACITY_WAITS = 4"
definition MAX_CAPACITY_WAIT_MS :: nat where "MAX_CAPACITY_WAIT_MS = 8000"

definition capacity_retry_delay :: "client_error \<Rightarrow> nat option" where
  "capacity_retry_delay e =
     (if ce_status e \<noteq> Some 429 then None
      else let header = js_trim (case ce_headers e ''retry-after'' of Some h \<Rightarrow> h | None \<Rightarrow> []);
               seconds = (if header \<noteq> [] \<and> list_all digit header \<and> length header \<le> 6 then decimal header else 1) in
        Some (min (max seconds 1 * 1000) MAX_CAPACITY_WAIT_MS))"

definition capacity_wait :: "nat \<Rightarrow> nat \<Rightarrow> nat" where
  "capacity_wait delay waits = min (delay * 2 ^ (waits - 1)) MAX_CAPACITY_WAIT_MS"

definition is_apply_status_denied :: "client_error \<Rightarrow> bool" where
  "is_apply_status_denied e \<longleftrightarrow> ce_status e = Some 403"

definition with_apply :: "(apply_info \<Rightarrow> apply_info) \<Rightarrow> monitor \<Rightarrow> monitor" where
  "with_apply f m = m\<lparr>mo_apply := f (mo_apply m)\<rparr>"

definition next_attempt :: "apply_poll \<Rightarrow> monitor \<Rightarrow> monitor \<times> apply_poll option" where
  "next_attempt p m =
     (if po_attempt p + 1 < 8 then (m, Some (p\<lparr>po_attempt := po_attempt p + 1\<rparr>))
      else (with_apply (\<lambda>a. a\<lparr>ap_polling := False\<rparr>) m, None))"

text \<open>What one answer of the status fetcher does; a poll of an older generation publishes nothing more.\<close>

definition poll_answer :: "apply_poll \<Rightarrow> client_error + string json \<Rightarrow> monitor \<Rightarrow> monitor \<times> apply_poll option" where
  "poll_answer p answer m =
     (if po_generation p \<noteq> mo_poll_generation m then (m, None)
      else case answer of
        Inr v \<Rightarrow>
          if \<not> valid_apply_status v (po_cursor p)
          then (with_apply (\<lambda>a. a\<lparr>ap_state := Unverifiable, ap_reason := Some ''invalid_apply_status'', ap_polling := False\<rparr>) m, None)
          else if jfield ''state'' v = Some (JStr ''pending'') then next_attempt p m
          else if jfield ''state'' v = Some (JStr ''rejected'')
          then (with_apply (\<lambda>a. a\<lparr>ap_state := Rejected, ap_reason := Some ''runtime_rejected'', ap_polling := False\<rparr>) m, None)
          else if jfield ''state'' v = Some (JStr ''unverifiable'')
          then (with_apply (\<lambda>a. a\<lparr>ap_state := Unverifiable, ap_reason := Some ''topology_changed_or_unknown'', ap_polling := False\<rparr>) m, None)
          else (with_apply (\<lambda>a. a\<lparr>ap_state := Applied, ap_reason := None, ap_polling := False\<rparr>) m, None)
      | Inl e \<Rightarrow>
          if capacity_retry_delay e \<noteq> None \<and> po_waits p < MAX_CAPACITY_WAITS
          then (m, Some (p\<lparr>po_waits := po_waits p + 1\<rparr>))
          else if \<not> is_apply_status_denied e \<and> po_attempt p < 2 then next_attempt p m
          else (with_apply (\<lambda>a.
                  if is_apply_status_denied e then a\<lparr>ap_state := Unmonitored, ap_polling := False\<rparr>
                  else a\<lparr>ap_state := Unverifiable, ap_reason := Some ''apply_status_unavailable'', ap_polling := False\<rparr>) m, None))"

definition poll_answered :: "nat \<Rightarrow> client_error + string json \<Rightarrow> monitor \<Rightarrow> monitor" where
  "poll_answered i answer m =
     (if i < length (mo_polls m)
      then case poll_answer (mo_polls m ! i) answer m of
             (m', None) \<Rightarrow> m'\<lparr>mo_polls := take i (mo_polls m) @ drop (Suc i) (mo_polls m)\<rparr>
           | (m', Some p) \<Rightarrow> m'\<lparr>mo_polls := (mo_polls m)[i := p]\<rparr>
      else m)"

section \<open>Runs\<close>

datatype monitor_event =
    Issue mutation_request
  | Answer mutation_request gateway_response request_identity string
  | Body_read nat "string json option"
  | Failure mutation_request client_error request_identity
  | Poll_answered nat "client_error + string json"
  | Clear

fun monitor_step :: "monitor_event \<Rightarrow> monitor \<Rightarrow> monitor" where
  "monitor_step (Issue r) m = snd (begin_gateway_request r m)"
| "monitor_step (Answer r resp owner now) m = observe_response r resp owner now m"
| "monitor_step (Body_read i body) m = body_read i body m"
| "monitor_step (Failure r e identity) m = snd (observe_failure r e identity m)"
| "monitor_step (Poll_answered i answer) m = poll_answered i answer m"
| "monitor_step Clear m = clear_gateway_metadata m"

definition monitor_run :: "bool \<Rightarrow> monitor_event list \<Rightarrow> monitor" where
  "monitor_run scoped events = fold monitor_step events (monitor_init scoped)"

section \<open>The polls of the current commit\<close>

definition current_polls :: "monitor \<Rightarrow> apply_poll list" where
  "current_polls m = filter (\<lambda>p. po_generation p = mo_poll_generation m) (mo_polls m)"

text \<open>At most one poll may still publish; while it runs the banner is the pending commit whose cursor it asks for.\<close>

fun banner_ok :: "apply_poll list \<Rightarrow> apply_info \<Rightarrow> bool" where
  "banner_ok [] a = (\<not> ap_polling a)"
| "banner_ok [p] a = (ap_polling a \<and> ap_state a = Pending \<and> ap_cursor a = Some (cu_raw (po_cursor p)) \<and>
     ap_namespace a = po_namespace p)"
| "banner_ok _ a = False"

definition monitor_inv :: "monitor \<Rightarrow> bool" where
  "monitor_inv m \<longleftrightarrow>
     (\<forall>p \<in> set (mo_polls m). po_generation p \<le> mo_poll_generation m \<and> po_attempt p < 8 \<and> po_waits p \<le> MAX_CAPACITY_WAITS) \<and>
     banner_ok (current_polls m) (mo_apply m)"

lemma banner_length: "banner_ok ps a \<Longrightarrow> length ps \<le> 1"
  by (cases "(ps, a)" rule: banner_ok.cases) auto

lemma banner_keep: "banner_ok ps a \<Longrightarrow> ap_state a \<noteq> Pending \<Longrightarrow> \<not> ap_polling b \<Longrightarrow> banner_ok ps b"
  by (cases "(ps, a)" rule: banner_ok.cases) auto

lemma monitor_inv_init: "monitor_inv (monitor_init scoped)"
  by (simp add: monitor_inv_def monitor_init_def current_polls_def IDLE_APPLY_def)

lemma monitor_inv_same:
  assumes "monitor_inv m" "mo_polls m' = mo_polls m" "mo_poll_generation m' = mo_poll_generation m"
    "mo_apply m' = mo_apply m \<or> (ap_state (mo_apply m) \<noteq> Pending \<and> \<not> ap_polling (mo_apply m'))"
  shows "monitor_inv m'"
proof -
  have "current_polls m' = current_polls m" using assms(2,3) by (simp add: current_polls_def)
  then show ?thesis using assms banner_keep by (auto simp: monitor_inv_def)
qed

lemma monitor_inv_begin: "monitor_inv m \<Longrightarrow> monitor_inv (snd (begin_gateway_request r m))"
  by (rule monitor_inv_same [of m]) (auto simp: begin_gateway_request_def Let_def IDLE_APPLY_def)

lemma monitor_inv_failure: "monitor_inv m \<Longrightarrow> monitor_inv (snd (observe_failure r e identity m))"
  by (rule monitor_inv_same [of m]) (auto simp: observe_failure_def apply_of_def split: option.split)

lemma stale_polls:
  assumes "monitor_inv m" "mo_polls m' = mo_polls m" "mo_poll_generation m' = mo_poll_generation m + 1"
  shows "current_polls m' = []"
  using assms by (auto simp: current_polls_def monitor_inv_def filter_empty_conv)

lemma monitor_inv_clear:
  assumes "monitor_inv m"
  shows "monitor_inv (clear_gateway_metadata m)"
proof -
  have "current_polls (clear_gateway_metadata m) = []"
    by (rule stale_polls [OF assms]) (simp_all add: clear_gateway_metadata_def)
  then show ?thesis using assms by (force simp: monitor_inv_def clear_gateway_metadata_def IDLE_APPLY_def)
qed

lemma classify_polling:
  "ap_polling (classify_answer r resp body) \<longleftrightarrow>
     parse_config_cursor (gw_cursor resp) \<noteq> None \<and>
     (committed_not_live_answer (gw_status resp) (gw_cursor resp) body \<noteq> None \<or> gw_status resp = 202)"
  by (auto simp: classify_answer_def apply_of_def IDLE_APPLY_def Let_def committed_not_live_answer_def split: if_splits)

lemma polling_banner:
  assumes "ap_polling (unmonitored_if_scoped s nl (classify_answer r resp body))" "parse_config_cursor (gw_cursor resp) = Some c"
  shows "ap_state (unmonitored_if_scoped s nl (classify_answer r resp body)) = Pending"
    "ap_cursor (unmonitored_if_scoped s nl (classify_answer r resp body)) = Some (cu_raw c)"
    "ap_namespace (unmonitored_if_scoped s nl (classify_answer r resp body)) = mr_namespace r"
  using assms
  by (auto simp: unmonitored_if_scoped_def classify_answer_def apply_of_def IDLE_APPLY_def Let_def split: if_splits)

lemma polling_commits:
  assumes "ap_polling (unmonitored_if_scoped s nl (classify_answer r resp body))"
  shows "parse_config_cursor (gw_cursor resp) \<noteq> None"
    "response_ok (gw_status resp) \<or> committed_not_live_answer (gw_status resp) (gw_cursor resp) body \<noteq> None"
  using assms
  by (auto simp: unmonitored_if_scoped_def classify_polling response_ok_def split: if_splits)

lemma monitor_inv_rest:
  assumes inv: "monitor_inv m"
  shows "monitor_inv (observe_rest r resp owner cached body m)"
proof -
  let ?not_live = "committed_not_live_answer (gw_status resp) (gw_cursor resp) body \<noteq> None"
  let ?next = "unmonitored_if_scoped (mo_scoped m) ?not_live (classify_answer r resp body)"
  let ?committed = "response_ok (gw_status resp) \<or> ?not_live"
  consider "\<not> owns_banner owner m" | "owns_banner owner m" "\<not> ?committed" "holds_known_commit (ap_state (mo_apply m))"
    | "owns_banner owner m" "\<not> ?committed" "\<not> holds_known_commit (ap_state (mo_apply m))"
    | "owns_banner owner m" "?committed"
    by blast
  then show ?thesis
  proof cases
    case 3
    then have "\<not> ap_polling ?next" using polling_commits(2) by blast
    then have same: "mo_polls (observe_rest r resp owner cached body m) = mo_polls m"
      "mo_poll_generation (observe_rest r resp owner cached body m) = mo_poll_generation m"
      "mo_apply (observe_rest r resp owner cached body m) = ?next"
      using 3 by (auto simp: observe_rest_def Let_def split: option.split)
    show ?thesis
      by (rule monitor_inv_same [OF inv same(1,2)]) (use same(3) 3 \<open>\<not> ap_polling ?next\<close> in auto)
  next
    case 4
    show ?thesis
    proof (cases "ap_polling ?next")
      case True
      then obtain c where c: "parse_config_cursor (gw_cursor resp) = Some c" using polling_commits(1) by blast
      let ?p = "\<lparr>po_cursor = c, po_generation = mo_poll_generation m + 1, po_namespace = mr_namespace r, po_attempt = 0, po_waits = 0\<rparr>"
      have m': "mo_polls (observe_rest r resp owner cached body m) = mo_polls m @ [?p]"
        "mo_poll_generation (observe_rest r resp owner cached body m) = mo_poll_generation m + 1"
        "mo_apply (observe_rest r resp owner cached body m) = ?next"
        using 4 True c by (auto simp: observe_rest_def Let_def)
      have "current_polls (observe_rest r resp owner cached body m) = [?p]"
        using inv by (auto simp: current_polls_def m' monitor_inv_def filter_empty_conv)
      then show ?thesis
        using inv True polling_banner [OF True c] by (auto simp: monitor_inv_def m')
    next
      case False
      then have m': "mo_polls (observe_rest r resp owner cached body m) = mo_polls m"
        "mo_poll_generation (observe_rest r resp owner cached body m) = mo_poll_generation m + 1"
        "mo_apply (observe_rest r resp owner cached body m) = ?next"
        using 4 by (auto simp: observe_rest_def Let_def split: option.split)
      have "current_polls (observe_rest r resp owner cached body m) = []" by (rule stale_polls [OF inv m'(1,2)])
      then show ?thesis using inv False by (force simp: monitor_inv_def m')
    qed
  qed (use inv in \<open>auto simp: observe_rest_def Let_def intro: monitor_inv_same\<close>)
qed

lemma monitor_inv_observe: "monitor_inv m \<Longrightarrow> monitor_inv (observe_response r resp owner now m)"
  unfolding observe_response_def Let_def
  by (simp add: monitor_inv_rest monitor_inv_same [of m "m\<lparr>mo_meta := x\<rparr>" for x]
      monitor_inv_same [of m "m\<lparr>mo_bodies := x\<rparr>" for x])

lemma monitor_inv_body: "monitor_inv m \<Longrightarrow> monitor_inv (body_read i body m)"
  unfolding body_read_def Let_def
  by (simp add: monitor_inv_rest monitor_inv_same [of m "m\<lparr>mo_bodies := x\<rparr>" for x])

lemma poll_answer_stale: "po_generation p \<noteq> mo_poll_generation m \<Longrightarrow> poll_answer p answer m = (m, None)"
  by (simp add: poll_answer_def)

lemma with_apply_fields [simp]: "mo_polls (with_apply f m) = mo_polls m" "mo_apply (with_apply f m) = f (mo_apply m)"
  "mo_poll_generation (with_apply f m) = mo_poll_generation m"
  by (simp_all add: with_apply_def)

text \<open>A current poll goes on without touching the banner, or ends and stops the banner's polling.\<close>

lemma poll_answer_current:
  assumes "po_attempt p < 8" "po_waits p \<le> MAX_CAPACITY_WAITS" "po_generation p = mo_poll_generation m"
  shows "(\<exists>q. poll_answer p answer m = (m, Some q) \<and> po_cursor q = po_cursor p \<and> po_generation q = po_generation p \<and>
            po_namespace q = po_namespace p \<and> po_attempt q < 8 \<and> po_waits q \<le> MAX_CAPACITY_WAITS \<and>
            po_attempt p + po_waits p < po_attempt q + po_waits q) \<or>
         (\<exists>a. poll_answer p answer m = (m\<lparr>mo_apply := a\<rparr>, None) \<and> \<not> ap_polling a \<and>
            ap_cursor a = ap_cursor (mo_apply m) \<and> ap_namespace a = ap_namespace (mo_apply m) \<and>
            ap_url a = ap_url (mo_apply m) \<and>
            (ap_state a = ap_state (mo_apply m) \<or> holds_known_commit (ap_state a) \<or>
             (\<exists>v. answer = Inr v \<and> valid_apply_status v (po_cursor p) \<and> jfield ''state'' v = Some (JStr ''applied''))))"
proof -
  have next_ok: "(\<exists>q. next_attempt p m = (m, Some q) \<and> po_cursor q = po_cursor p \<and> po_generation q = po_generation p \<and>
            po_namespace q = po_namespace p \<and> po_attempt q < 8 \<and> po_waits q \<le> MAX_CAPACITY_WAITS \<and>
            po_attempt p + po_waits p < po_attempt q + po_waits q) \<or>
      next_attempt p m = (m\<lparr>mo_apply := (mo_apply m)\<lparr>ap_polling := False\<rparr>\<rparr>, None)"
    using assms(2) by (auto simp: next_attempt_def with_apply_def)
  show ?thesis
  proof (cases answer)
    case (Inl e)
    then show ?thesis using next_ok assms by (auto simp: poll_answer_def with_apply_def)
  next
    case (Inr v)
    have applied: "jfield ''state'' v = Some (JStr ''applied'')"
      if "valid_apply_status v (po_cursor p)" "jfield ''state'' v \<noteq> Some (JStr ''pending'')"
        "jfield ''state'' v \<noteq> Some (JStr ''rejected'')" "jfield ''state'' v \<noteq> Some (JStr ''unverifiable'')"
      using that by (auto simp: valid_apply_status_def split: option.splits json.splits)
    note step = poll_answer_def Inr with_apply_def assms(3)
    show ?thesis
    proof (cases "valid_apply_status v (po_cursor p)")
      case False
      then show ?thesis by (intro disjI2) (auto simp: step)
    next
      case True
      show ?thesis
      proof (cases "jfield ''state'' v = Some (JStr ''pending'')")
        case pending: True
        have "poll_answer p answer m = next_attempt p m" using True pending by (simp add: step)
        then show ?thesis using next_ok by (elim disjE) (simp, intro disjI2, auto)
      next
        case False
        then show ?thesis using True applied [OF True False] by (intro disjI2) (auto simp: step)
      qed
    qed
  qed
qed

lemma current_split:
  assumes "mo_polls m = A @ p # B" "po_generation p = mo_poll_generation m" "monitor_inv m"
  shows "filter (\<lambda>q. po_generation q = mo_poll_generation m) A = []" "filter (\<lambda>q. po_generation q = mo_poll_generation m) B = []"
    "current_polls m = [p]"
proof -
  let ?A = "filter (\<lambda>q. po_generation q = mo_poll_generation m) A" and ?B = "filter (\<lambda>q. po_generation q = mo_poll_generation m) B"
  have c: "current_polls m = ?A @ p # ?B" using assms(1,2) by (simp add: current_polls_def)
  have one: "length (current_polls m) \<le> 1" using assms(3) banner_length by (auto simp: monitor_inv_def)
  show "?A = []" "?B = []" using one unfolding c by simp_all
  then show "current_polls m = [p]" by (simp add: c)
qed

lemma poll_answered_split:
  assumes "mo_polls m = A @ p # B"
  shows "poll_answered (length A) answer m =
    (case poll_answer p answer m of (m', None) \<Rightarrow> m'\<lparr>mo_polls := A @ B\<rparr> | (m', Some q) \<Rightarrow> m'\<lparr>mo_polls := A @ q # B\<rparr>)"
  by (simp add: poll_answered_def assms split: prod.split option.split)

lemma monitor_inv_poll:
  assumes inv: "monitor_inv m"
  shows "monitor_inv (poll_answered i answer m)"
proof (cases "i < length (mo_polls m)")
  case True
  then obtain A p B where split: "mo_polls m = A @ p # B" "i = length A"
    using id_take_nth_drop [OF True] by (metis length_take min.absorb4)
  have ok: "po_generation p \<le> mo_poll_generation m" "po_attempt p < 8" "po_waits p \<le> MAX_CAPACITY_WAITS"
    using inv by (auto simp: monitor_inv_def split(1))
  show ?thesis
  proof (cases "po_generation p = mo_poll_generation m")
    case False
    then have "current_polls (poll_answered i answer m) = current_polls m"
      by (simp add: split poll_answered_split poll_answer_stale current_polls_def)
    then show ?thesis using inv False
      by (auto simp: split poll_answered_split poll_answer_stale monitor_inv_def current_polls_def)
  next
    case True
    note cur = current_split [OF split(1) True inv]
    consider q where "poll_answer p answer m = (m, Some q)" "po_cursor q = po_cursor p" "po_generation q = po_generation p"
        "po_namespace q = po_namespace p" "po_attempt q < 8" "po_waits q \<le> MAX_CAPACITY_WAITS"
      | a where "poll_answer p answer m = (m\<lparr>mo_apply := a\<rparr>, None)" "\<not> ap_polling a"
      using poll_answer_current [OF ok(2,3) True, of answer] by blast
    then show ?thesis
    proof cases
      case 1
      then show ?thesis using inv cur True
        by (auto simp: split poll_answered_split monitor_inv_def current_polls_def)
    next
      case 2
      then show ?thesis using inv cur
        by (auto simp: split poll_answered_split monitor_inv_def current_polls_def)
    qed
  qed
next
  case False
  then show ?thesis using inv by (simp add: poll_answered_def)
qed

lemma monitor_inv_step: "monitor_inv m \<Longrightarrow> monitor_inv (monitor_step e m)"
  by (cases e)
    (simp_all add: monitor_inv_begin monitor_inv_observe monitor_inv_body monitor_inv_failure monitor_inv_poll monitor_inv_clear)

lemma monitor_inv_run: "monitor_inv (monitor_run scoped events)"
proof -
  have "monitor_inv (fold monitor_step events m)" if "monitor_inv m" for m
    using that by (induction events arbitrary: m) (simp_all add: monitor_inv_step)
  then show ?thesis using monitor_inv_init by (simp add: monitor_run_def)
qed

section \<open>Known commits\<close>

text \<open>The commit a banner reports: the namespace it was made in, its cursor and its request.\<close>

definition commit_of :: "apply_info \<Rightarrow> string option \<times> string option \<times> string option" where
  "commit_of a = (ap_namespace a, ap_cursor a, ap_url a)"

text \<open>An answer saying that the newest mutation of this session committed.\<close>

definition answer_commits :: "gateway_response \<Rightarrow> string json option \<Rightarrow> bool" where
  "answer_commits resp body \<longleftrightarrow>
     response_ok (gw_status resp) \<or> committed_not_live_answer (gw_status resp) (gw_cursor resp) body \<noteq> None"

fun newest_committed :: "monitor_event \<Rightarrow> monitor \<Rightarrow> bool" where
  "newest_committed (Answer r resp owner now) m = (owns_banner owner m \<and> answer_commits resp None)"
| "newest_committed (Body_read i body) m =
     (i < length (mo_bodies m) \<and> owns_banner (pd_owner (mo_bodies m ! i)) m \<and> answer_commits (pd_response (mo_bodies m ! i)) body)"
| "newest_committed _ m = False"

text \<open>A status answer proving that the banner's own commit is live.\<close>

fun proved_live :: "monitor_event \<Rightarrow> monitor \<Rightarrow> bool" where
  "proved_live (Poll_answered i (Inr v)) m =
     (i < length (mo_polls m) \<and> po_generation (mo_polls m ! i) = mo_poll_generation m \<and>
      ap_cursor (mo_apply m) = Some (cu_raw (po_cursor (mo_polls m ! i))) \<and>
      valid_apply_status v (po_cursor (mo_polls m ! i)) \<and> jfield ''state'' v = Some (JStr ''applied''))"
| "proved_live _ m = False"

lemma rest_keeps:
  assumes "holds_known_commit (ap_state (mo_apply m))" "\<not> (owns_banner owner m \<and> answer_commits resp body)"
  shows "mo_apply (observe_rest r resp owner cached body m) = mo_apply m"
  using assms by (auto simp: observe_rest_def answer_commits_def Let_def)

lemma poll_keeps:
  assumes inv: "monitor_inv m" and known: "holds_known_commit (ap_state (mo_apply m))"
  shows "commit_of (mo_apply (poll_answered i answer m)) = commit_of (mo_apply m) \<and>
    (holds_known_commit (ap_state (mo_apply (poll_answered i answer m))) \<or> proved_live (Poll_answered i answer) m)"
proof (cases "i < length (mo_polls m) \<and> po_generation (mo_polls m ! i) = mo_poll_generation m")
  case True
  let ?p = "mo_polls m ! i"
  have i: "i < length (mo_polls m)" "?p \<in> set (mo_polls m)" using True by auto
  have split: "mo_polls m = take i (mo_polls m) @ ?p # drop (Suc i) (mo_polls m)" using id_take_nth_drop [OF i(1)] .
  have cursor: "ap_cursor (mo_apply m) = Some (cu_raw (po_cursor ?p))"
    using current_split(3) [OF split _ inv] True inv by (simp add: monitor_inv_def)
  have bounds: "po_attempt ?p < 8" "po_waits ?p \<le> MAX_CAPACITY_WAITS" using inv i(2) by (auto simp: monitor_inv_def)
  consider q where "poll_answer ?p answer m = (m, Some q)"
    | a where "poll_answer ?p answer m = (m\<lparr>mo_apply := a\<rparr>, None)" "commit_of a = commit_of (mo_apply m)"
        "ap_state a = ap_state (mo_apply m) \<or> holds_known_commit (ap_state a) \<or>
         (\<exists>v. answer = Inr v \<and> valid_apply_status v (po_cursor ?p) \<and> jfield ''state'' v = Some (JStr ''applied''))"
    using poll_answer_current [OF bounds conjunct2 [OF True], of answer] unfolding commit_of_def
    by (elim disjE exE conjE) (blast | simp)+
  then show ?thesis
  proof cases
    case 1
    then show ?thesis using i(1) known by (simp add: poll_answered_def)
  next
    case 2
    then have "mo_apply (poll_answered i answer m) = a" using i(1) by (simp add: poll_answered_def)
    then show ?thesis using 2 known True cursor by auto
  qed
next
  case False
  then show ?thesis using known by (auto simp: poll_answered_def poll_answer_stale)
qed

text \<open>C27: A change the gateway is known to have committed, but not known to be serving, stays on the banner, whatever
  requests are issued, answered, lost or still being read, in any interleaving: its namespace, cursor and request
  stay and its state keeps saying so, until an answer reports that a newer mutation committed, a status answer for
  its very cursor proves it live, or the session is cleared. No poll of an older commit publishes over it.\<close>

theorem known_commit_never_dropped:
  assumes "m = monitor_run scoped events" "holds_known_commit (ap_state (mo_apply m))" "\<not> newest_committed e m" "e \<noteq> Clear"
  shows "commit_of (mo_apply (monitor_step e m)) = commit_of (mo_apply m) \<and>
    (holds_known_commit (ap_state (mo_apply (monitor_step e m))) \<or> proved_live e m)"
proof (cases e)
  case (Issue r)
  then show ?thesis using assms(2) by (simp add: begin_gateway_request_def Let_def)
next
  case (Answer r resp owner now)
  then show ?thesis using assms(2,3) rest_keeps [of m owner resp None]
    by (simp add: observe_response_def Let_def)
next
  case (Body_read i body)
  let ?m = "m\<lparr>mo_bodies := take i (mo_bodies m) @ drop (Suc i) (mo_bodies m)\<rparr>"
  have "owns_banner owner ?m = owns_banner owner m" for owner by (simp add: owns_banner_def)
  then show ?thesis using Body_read assms(2,3) rest_keeps [of ?m]
    by (simp add: body_read_def Let_def)
next
  case (Failure r err identity)
  then show ?thesis using assms(2) by (simp add: observe_failure_def split: option.split)
next
  case (Poll_answered i answer)
  have "monitor_inv m" unfolding assms(1) by (rule monitor_inv_run)
  from poll_keeps [OF this assms(2)] show ?thesis by (simp add: Poll_answered)
qed (use assms(4) in simp)

definition sample_write :: mutation_request where
  "sample_write = \<lparr>mr_url = ''/api/proxy/proxies'', mr_method = ''POST'', mr_path = ''/api/proxy/proxies'', mr_namespace = Some ''ns''\<rparr>"

definition sample_accepted :: gateway_response where
  "sample_accepted = \<lparr>gw_status = 202, gw_cursor = Some ''1:2'', gw_retry_after = None, gw_data_source = None, gw_etag = None,
     gw_cache_control = None, gw_content_disposition = None\<rparr>"

definition sample_committed :: "monitor_event list" where
  "sample_committed = [Issue sample_write, Answer sample_write sample_accepted \<lparr>ri_session = 0, ri_order = Some 1\<rparr> ''now'', Issue sample_write]"

lemma known_commit_never_dropped_witness:
  "let m = monitor_run False sample_committed; refused = sample_accepted\<lparr>gw_status := 409, gw_cursor := None\<rparr>;
       m' = monitor_step (Answer sample_write refused \<lparr>ri_session = 0, ri_order = Some 2\<rparr> ''later'') m in
   ap_state (mo_apply m) = Pending \<and> owns_banner \<lparr>ri_session = 0, ri_order = Some 2\<rparr> m \<and>
   commit_of (mo_apply m') = (Some ''ns'', Some ''1:2'', Some ''/api/proxy/proxies'') \<and> holds_known_commit (ap_state (mo_apply m'))"
proof -
  let ?m = "monitor_run False sample_committed"
  let ?refused = "sample_accepted\<lparr>gw_status := 409, gw_cursor := None\<rparr>"
  let ?e = "Answer sample_write ?refused \<lparr>ri_session = 0, ri_order = Some 2\<rparr> ''later''"
  have proxied: "is_proxied sample_write"     unfolding is_proxied_def sublist_def by (rule exI [of _ "[]"], rule exI [of _ "''proxies''"]) (simp add: sample_write_def)
  have config: "is_configuration_mutation sample_write" by code_simp
  have cursor: "parse_config_cursor (Some ''1:2'') = Some \<lparr>cu_raw = ''1:2'', cu_epoch = ''1'', cu_sequence = ''2''\<rparr>"
    by (simp add: parse_config_cursor_def uint64_text_def digit_def decimal_def digit_value_def)
  have known: "ap_state (mo_apply ?m) = Pending \<and> owns_banner \<lparr>ri_session = 0, ri_order = Some 2\<rparr> ?m \<and>
      commit_of (mo_apply ?m) = (Some ''ns'', Some ''1:2'', Some ''/api/proxy/proxies'')"
    using proxied config cursor
    by (simp add: monitor_run_def sample_committed_def begin_gateway_request_def monitor_init_def observe_response_def
        owns_banner_def sample_accepted_def observe_rest_def Let_def response_ok_def committed_not_live_answer_def
        classify_answer_def unmonitored_if_scoped_def apply_of_def IDLE_APPLY_def commit_of_def)
      (simp add: sample_write_def)
  have quiet: "\<not> newest_committed ?e ?m"
    by (simp add: answer_commits_def response_ok_def committed_not_live_answer_def sample_accepted_def)
  from known_commit_never_dropped [OF refl _ quiet] known show ?thesis by (simp add: Let_def del: monitor_step.simps)
qed

end
