(* ===== verification/OutcomeLatches.thy ===== *)
theory OutcomeLatches
  imports MutationOutcome Prelude
begin

text \<open>
  The latches that keep an action whose answer was lost from being repeated, and the count of writes in flight
  (\<open>stores/outcomeLatches.ts\<close>). Every installed latch is an object of its own: an identity beside its contents.
\<close>

section \<open>Latches\<close>

datatype outcome_latch =
    Acme_order_creation string string
  | Acme_renewal string string
  | Acme_finalization string
  | Api_spec_write string string
  | Restore string string unobserved_outcome bool

record acme_order =
  ao_id :: string
  ao_status :: string

definition terminal_acme_order_statuses :: "string list" where
  "terminal_acme_order_statuses = [''valid'', ''failed'', ''cancelled'']"

definition acme_order_in_progress :: "acme_order \<Rightarrow> bool" where
  "acme_order_in_progress o1 \<longleftrightarrow> ao_status o1 \<notin> set terminal_acme_order_statuses"

fun latch_key :: "outcome_latch \<Rightarrow> string" where
  "latch_key (Acme_order_creation message order_id) = ''acme:order-creation''"
| "latch_key (Acme_renewal certificate_id order_id) = ''acme:renewal:'' @ certificate_id"
| "latch_key (Acme_finalization order_id) = ''acme:finalization:'' @ order_id"
| "latch_key (Api_spec_write ns message) = ''api-spec:'' @ ns"
| "latch_key (Restore ns file outcome confirmed) = ''restore:'' @ ns"

text \<open>The keys the components ask by.\<close>

datatype latch_subject = Order_creation | Renewal string | Finalization string | Spec_writes string | Restores string

fun subject_key :: "latch_subject \<Rightarrow> string" where
  "subject_key Order_creation = ''acme:order-creation''"
| "subject_key (Renewal certificate_id) = ''acme:renewal:'' @ certificate_id"
| "subject_key (Finalization order_id) = ''acme:finalization:'' @ order_id"
| "subject_key (Spec_writes ns) = ''api-spec:'' @ ns"
| "subject_key (Restores ns) = ''restore:'' @ ns"

fun subject_of :: "outcome_latch \<Rightarrow> latch_subject" where
  "subject_of (Acme_order_creation message order_id) = Order_creation"
| "subject_of (Acme_renewal certificate_id order_id) = Renewal certificate_id"
| "subject_of (Acme_finalization order_id) = Finalization order_id"
| "subject_of (Api_spec_write ns message) = Spec_writes ns"
| "subject_of (Restore ns file outcome confirmed) = Restores ns"

fun settled_by :: "outcome_latch \<Rightarrow> acme_order list option \<Rightarrow> bool" where
  "settled_by (Acme_order_creation message order_id) orders =
     list_ex (\<lambda>o1. ao_id o1 = order_id) (case orders of Some os \<Rightarrow> os | None \<Rightarrow> [])"
| "settled_by (Acme_renewal certificate_id order_id) orders =
     list_ex (\<lambda>o1. ao_id o1 = order_id) (case orders of Some os \<Rightarrow> os | None \<Rightarrow> [])"
| "settled_by (Acme_finalization order_id) orders =
     list_ex (\<lambda>o1. ao_id o1 = order_id \<and> \<not> acme_order_in_progress o1) (case orders of Some os \<Rightarrow> os | None \<Rightarrow> [])"
| "settled_by (Api_spec_write ns message) orders = False"
| "settled_by (Restore ns file outcome confirmed) orders = False"

section \<open>The store\<close>

record latch_store =
  ls_latches :: "(string, nat \<times> outcome_latch) jsmap"
  ls_next :: nat
  ls_in_flight :: "(string, nat) jsmap"
  ls_writes :: "(string \<times> bool) list"

definition no_latches :: latch_store where
  "no_latches = \<lparr>ls_latches = [], ls_next = 0, ls_in_flight = [], ls_writes = []\<rparr>"

definition latch_outcome :: "outcome_latch \<Rightarrow> latch_store \<Rightarrow> latch_store" where
  "latch_outcome l st =
     st\<lparr>ls_latches := jm_set (latch_key l) (ls_next st, l) (ls_latches st), ls_next := ls_next st + 1\<rparr>"

definition release_outcome_latch :: "string \<Rightarrow> nat \<times> outcome_latch \<Rightarrow> latch_store \<Rightarrow> bool \<times> latch_store" where
  "release_outcome_latch key reviewed st =
     (if jm_get (ls_latches st) key \<noteq> Some reviewed then (False, st)
      else (True, st\<lparr>ls_latches := jm_delete key (ls_latches st)\<rparr>))"

definition settle_outcome_latches :: "acme_order list option \<Rightarrow> latch_store \<Rightarrow> latch_store" where
  "settle_outcome_latches orders st =
     st\<lparr>ls_latches := fold (\<lambda>(key, i, l) next. if settled_by l orders then jm_delete key next else next)
          (ls_latches st) (ls_latches st)\<rparr>"

text \<open>\<open>beginWrite\<close> returns a release, here the index of its write; a second call of it does nothing.\<close>

definition begin_write :: "string \<Rightarrow> latch_store \<Rightarrow> nat \<times> latch_store" where
  "begin_write key st =
     (length (ls_writes st),
      st\<lparr>ls_in_flight := jm_set key ((case jm_get (ls_in_flight st) key of Some n \<Rightarrow> n | None \<Rightarrow> 0) + 1) (ls_in_flight st),
         ls_writes := ls_writes st @ [(key, False)]\<rparr>)"

definition end_write :: "nat \<Rightarrow> latch_store \<Rightarrow> latch_store" where
  "end_write w st =
     (if w < length (ls_writes st) \<and> \<not> snd (ls_writes st ! w)
      then let key = fst (ls_writes st ! w);
               count = int (case jm_get (ls_in_flight st) key of Some n \<Rightarrow> n | None \<Rightarrow> 1) - 1 in
        st\<lparr>ls_in_flight := (if count > 0 then jm_set key (nat count) (ls_in_flight st) else jm_delete key (ls_in_flight st)),
           ls_writes := (ls_writes st)[w := (key, True)]\<rparr>
      else st)"

definition is_write_in_flight :: "string \<Rightarrow> latch_store \<Rightarrow> bool" where
  "is_write_in_flight key st \<longleftrightarrow> (case jm_get (ls_in_flight st) key of Some n \<Rightarrow> n | None \<Rightarrow> 0) > 0"

datatype latch_event =
    Latch outcome_latch
  | Release string "nat \<times> outcome_latch"
  | Observed "acme_order list option"
  | Begin_write string
  | End_write nat

fun latch_step :: "latch_event \<Rightarrow> latch_store \<Rightarrow> latch_store" where
  "latch_step (Latch l) st = latch_outcome l st"
| "latch_step (Release key reviewed) st = snd (release_outcome_latch key reviewed st)"
| "latch_step (Observed orders) st = settle_outcome_latches orders st"
| "latch_step (Begin_write key) st = snd (begin_write key st)"
| "latch_step (End_write w) st = end_write w st"

definition latch_run :: "latch_event list \<Rightarrow> latch_store" where
  "latch_run events = fold latch_step events no_latches"

section \<open>Keys\<close>

lemma latch_key_subject: "latch_key l = subject_key (subject_of l)"
  by (cases l) simp_all

lemma subject_key_inj: "subject_key a = subject_key b \<Longrightarrow> a = b"
  by (cases a; cases b) auto

section \<open>Invariant\<close>

definition unreleased :: "string \<Rightarrow> latch_store \<Rightarrow> nat" where
  "unreleased key st = length (filter (\<lambda>(k, released). k = key \<and> \<not> released) (ls_writes st))"

definition latch_inv :: "latch_store \<Rightarrow> bool" where
  "latch_inv st \<longleftrightarrow>
     jm_ok (ls_latches st) \<and> (\<forall>(key, i, l) \<in> set (ls_latches st). key = latch_key l \<and> i < ls_next st) \<and>
     (\<forall>key. jm_get (ls_in_flight st) key = (if unreleased key st = 0 then None else Some (unreleased key st)))"

lemma latch_inv_init: "latch_inv no_latches"
  by (simp add: latch_inv_def no_latches_def unreleased_def)

lemma jm_set_entries: "(k', v') \<in> set (jm_set k v m) \<Longrightarrow> (k' = k \<and> v' = v) \<or> (k', v') \<in> set m"
  by (induction m) (auto simp: jm_set_def split: if_splits)

lemma jm_delete_entries: "(k', v') \<in> set (jm_delete k m) \<Longrightarrow> (k', v') \<in> set m"
  by (auto simp: jm_delete_def AList.delete_eq)

lemma latch_inv_latch: "latch_inv st \<Longrightarrow> latch_inv (latch_outcome l st)"
  by (fastforce simp: latch_inv_def latch_outcome_def unreleased_def intro: jm_ok_set dest: jm_set_entries)

lemma latch_inv_release: "latch_inv st \<Longrightarrow> latch_inv (snd (release_outcome_latch key reviewed st))"
  by (fastforce simp: latch_inv_def release_outcome_latch_def unreleased_def intro: jm_ok_delete dest: jm_delete_entries)

lemma settled_map:
  "jm_get (fold (\<lambda>(key, i, l) next. if settled_by l orders then jm_delete key next else next) es m) k =
     (if \<exists>i l. (k, i, l) \<in> set es \<and> settled_by l orders then None else jm_get m k)"
proof (induction es arbitrary: m)
  case (Cons e es)
  obtain key i l where e: "e = (key, i, l)" by (cases e) auto
  show ?case
  proof (cases "settled_by l orders \<and> key = k")
    case True
    then have "\<exists>i l. (k, i, l) \<in> set (e # es) \<and> settled_by l orders" using e by auto
    then show ?thesis using True by (simp add: e Cons jm_rules)
  next
    case False
    then have "(\<exists>i l. (k, i, l) \<in> set (e # es) \<and> settled_by l orders) =
        (\<exists>i l. (k, i, l) \<in> set es \<and> settled_by l orders)" using e by auto
    then show ?thesis using False by (auto simp: e Cons jm_rules)
  qed
qed simp

lemma settled_entries:
  "set (fold (\<lambda>(key, i, l) next. if settled_by l orders then jm_delete key next else next) es m) \<subseteq> set m"
proof (induction es arbitrary: m)
  case (Cons e es)
  obtain k i l where e: "e = (k, i, l)" by (cases e) auto
  have "set (jm_delete k m) \<subseteq> set m" using jm_delete_entries by fastforce
  then show ?case using Cons [of m] Cons [of "jm_delete k m"] by (auto simp: e)
qed simp

lemma settled_ok: "jm_ok m \<Longrightarrow> jm_ok (fold (\<lambda>(key, i, l) next. if settled_by l orders then jm_delete key next else next) es m)"
  by (induction es arbitrary: m) (simp_all add: jm_ok_delete split: prod.split)

lemma latch_inv_settle: "latch_inv st \<Longrightarrow> latch_inv (settle_outcome_latches orders st)"
  using settled_entries [of orders "ls_latches st" "ls_latches st"]
  by (auto simp: latch_inv_def settle_outcome_latches_def unreleased_def intro: settled_ok)

lemma latch_inv_begin: "latch_inv st \<Longrightarrow> latch_inv (snd (begin_write key st))"
  by (auto simp: latch_inv_def begin_write_def unreleased_def jm_rules)

lemma filter_update_length:
  "w < length xs \<Longrightarrow> P (xs ! w) \<Longrightarrow> \<not> P y \<Longrightarrow> length (filter P (xs[w := y])) + 1 = length (filter P xs)"
  by (induction xs arbitrary: w) (auto simp: nth_Cons split: nat.splits)

lemma filter_update_other:
  "w < length xs \<Longrightarrow> \<not> P (xs ! w) \<Longrightarrow> \<not> P y \<Longrightarrow> length (filter P (xs[w := y])) = length (filter P xs)"
  by (induction xs arbitrary: w) (auto simp: nth_Cons split: nat.splits)

lemma latch_inv_end:
  assumes inv: "latch_inv st"
  shows "latch_inv (end_write w st)"
proof (cases "w < length (ls_writes st) \<and> \<not> snd (ls_writes st ! w)")
  case True
  obtain key where key: "ls_writes st ! w = (key, False)" using True by (cases "ls_writes st ! w") auto
  have same: "unreleased key (end_write w st) + 1 = unreleased key st"
    using True filter_update_length [of w "ls_writes st" "\<lambda>(k, released). k = key \<and> \<not> released" "(key, True)"]
    by (simp add: unreleased_def end_write_def key Let_def)
  have other: "unreleased k (end_write w st) = unreleased k st" if "k \<noteq> key" for k
    using True that filter_update_other [of w "ls_writes st" "\<lambda>(k', released). k' = k \<and> \<not> released" "(key, True)"]
    by (simp add: unreleased_def end_write_def key Let_def)
  have "jm_get (ls_in_flight st) key = Some (unreleased key st)" using inv same by (simp add: latch_inv_def)
  then have "jm_get (ls_in_flight (end_write w st)) k =
      (if unreleased k (end_write w st) = 0 then None else Some (unreleased k (end_write w st)))" for k
    using True same other [of k] inv
    by (cases "k = key") (auto simp: end_write_def key Let_def jm_rules latch_inv_def)
  moreover have "ls_latches (end_write w st) = ls_latches st" "ls_next (end_write w st) = ls_next st"
    by (simp_all add: end_write_def Let_def)
  ultimately show ?thesis using inv by (simp add: latch_inv_def)
next
  case False
  then show ?thesis using inv by (auto simp: end_write_def)
qed

lemma latch_inv_step: "latch_inv st \<Longrightarrow> latch_inv (latch_step e st)"
  by (cases e) (simp_all add: latch_inv_latch latch_inv_release latch_inv_settle latch_inv_begin latch_inv_end)

lemma latch_inv_fold: "latch_inv st \<Longrightarrow> latch_inv (fold latch_step events st)"
  by (induction events arbitrary: st) (simp_all add: latch_inv_step)

section \<open>What ends a latch\<close>

text \<open>What a list of orders proves of an unanswered request, said of the orders themselves: that an order
  creation or renewal reached the gateway, when an order with the id the request chose is among them; that an order was
  finalized, when that order is among them and has come to its end. Nothing is ever proved of a
  specification write or a restore.\<close>

inductive proves_outcome :: "outcome_latch \<Rightarrow> acme_order list \<Rightarrow> bool" where
  created: "\<lparr>ao_id = order_id, ao_status = status\<rparr> \<in> set orders \<Longrightarrow> proves_outcome (Acme_order_creation message order_id) orders"
| renewed: "\<lparr>ao_id = order_id, ao_status = status\<rparr> \<in> set orders \<Longrightarrow> proves_outcome (Acme_renewal certificate_id order_id) orders"
| finalized: "\<lparr>ao_id = order_id, ao_status = status\<rparr> \<in> set orders \<Longrightarrow> status \<in> {''valid'', ''failed'', ''cancelled''} \<Longrightarrow>
    proves_outcome (Acme_finalization order_id) orders"

inductive_simps proves_outcome_simps:
  "proves_outcome (Acme_order_creation message order_id) orders"
  "proves_outcome (Acme_renewal certificate_id order_id) orders"
  "proves_outcome (Acme_finalization order_id) orders"
  "proves_outcome (Api_spec_write ns message) orders"
  "proves_outcome (Restore ns file outcome confirmed) orders"

lemma settled_iff_proved: "settled_by l (Some orders) \<longleftrightarrow> proves_outcome l orders"
proof -
  have order: "o1 = \<lparr>ao_id = ao_id o1, ao_status = ao_status o1\<rparr>" for o1 :: acme_order by simp
  have some: "list_ex P orders \<longleftrightarrow> (\<exists>i s. \<lparr>ao_id = i, ao_status = s\<rparr> \<in> set orders \<and> P \<lparr>ao_id = i, ao_status = s\<rparr>)" for P
    using order unfolding list_ex_iff by metis
  show ?thesis
  proof (cases l)
    case (Acme_finalization order_id)
    then show ?thesis
      unfolding Acme_finalization settled_by.simps option.case some proves_outcome_simps
      by (auto simp: acme_order_in_progress_def terminal_acme_order_statuses_def)
  next
    case (Acme_order_creation message order_id)
    then show ?thesis by (simp add: proves_outcome_simps some [of "\<lambda>o1. ao_id o1 = order_id"])
  next
    case (Acme_renewal certificate_id order_id)
    then show ?thesis by (simp add: proves_outcome_simps some [of "\<lambda>o1. ao_id o1 = order_id"])
  qed (simp_all add: proves_outcome_simps)
qed

lemma settled_by_nothing: "\<not> settled_by l None"
  by (cases l) simp_all

text \<open>An event that may end the latch \<open>(i, l)\<close>: a read proving the outcome of its own request, the operator's
  re-arm of that very latch, or a newer unanswered request on the same subject.\<close>

definition ends_latch :: "nat \<times> outcome_latch \<Rightarrow> latch_event \<Rightarrow> bool" where
  "ends_latch latch e \<longleftrightarrow>
     (\<exists>orders. e = Observed (Some orders) \<and> proves_outcome (snd latch) orders) \<or>
     e = Release (latch_key (snd latch)) latch \<or>
     (\<exists>l'. e = Latch l' \<and> subject_of l' = subject_of (snd latch))"

lemma latch_read:
  assumes inv: "latch_inv st" and here: "jm_get (ls_latches st) (latch_key l) = Some (i, l)"
  shows "jm_get (ls_latches (settle_outcome_latches orders st)) (latch_key l) = (if settled_by l orders then None else Some (i, l))"
proof -
  have "(i', l') = (i, l)" if "(latch_key l, i', l') \<in> set (ls_latches st)" for i' l'
    using inv here that jm_in_get [of "ls_latches st"] by (fastforce simp: latch_inv_def)
  moreover have "(latch_key l, i, l) \<in> set (ls_latches st)" using here by (rule jm_get_in)
  ultimately have "(\<exists>i' l'. (latch_key l, i', l') \<in> set (ls_latches st) \<and> settled_by l' orders) \<longleftrightarrow> settled_by l orders"
    by blast
  then show ?thesis by (simp add: settle_outcome_latches_def settled_map here)
qed

lemma latch_kept:
  assumes inv: "latch_inv st" and here: "jm_get (ls_latches st) (latch_key l) = Some (i, l)" and keeps: "\<not> ends_latch (i, l) e"
  shows "jm_get (ls_latches (latch_step e st)) (latch_key l) = Some (i, l)"
proof (cases e)
  case (Latch l')
  then have "latch_key l' \<noteq> latch_key l" using keeps latch_key_subject subject_key_inj unfolding ends_latch_def by (metis snd_conv)
  then show ?thesis using here by (simp add: Latch latch_outcome_def jm_rules)
next
  case (Release key reviewed)
  then show ?thesis using here keeps by (auto simp: release_outcome_latch_def ends_latch_def jm_rules)
next
  case (Observed orders)
  then have "\<not> settled_by l orders"
    using keeps settled_by_nothing by (cases orders) (auto simp: ends_latch_def settled_iff_proved)
  then show ?thesis using latch_read [OF inv here, of orders] by (simp add: Observed)
qed (use here in \<open>simp_all add: begin_write_def end_write_def Let_def\<close>)

text \<open>C28: An action whose answer was lost stays disarmed until something proves what became of it. After any
  events, the latch of an unanswered request is still there, or among them was a read of orders that proves the
  outcome of that very request (an order with the id it chose, for a finalization in a final status), the operator's
  re-arm of that very latch, or a newer unanswered request on the same subject. A read of orders ends the latch exactly when it
  proves its outcome, and no read at all ends the latch of a specification write or of a restore. A re-arm of
  another latch than the one shown releases nothing, and a subject counts as in flight exactly while a write begun
  on it has not ended, however often its end is reported.\<close>

theorem latches_end_only_by_proof:
  assumes "jm_get (ls_latches (latch_run before)) (latch_key l) = Some (i, l)"
  shows "(jm_get (ls_latches (latch_run (before @ later))) (latch_key l) = Some (i, l) \<or>
      (\<exists>e \<in> set later. (\<exists>orders. e = Observed (Some orders) \<and> proves_outcome l orders) \<or>
         e = Release (latch_key l) (i, l) \<or> (\<exists>l'. e = Latch l' \<and> subject_of l' = subject_of l))) \<and>
    jm_get (ls_latches (latch_run (before @ [Observed (Some orders)]))) (latch_key l) =
      (if proves_outcome l orders then None else Some (i, l)) \<and>
    (case l of
       Api_spec_write ns message \<Rightarrow> jm_get (ls_latches (latch_run (before @ [Observed read]))) (latch_key l) = Some (i, l)
     | Restore ns file outcome confirmed \<Rightarrow> jm_get (ls_latches (latch_run (before @ [Observed read]))) (latch_key l) = Some (i, l)
     | _ \<Rightarrow> True) \<and>
    (is_write_in_flight key (latch_run (before @ later)) \<longleftrightarrow> (key, False) \<in> set (ls_writes (latch_run (before @ later))))"
proof (intro conjI)
  have inv: "latch_inv (latch_run es)" for es unfolding latch_run_def using latch_inv_init by (rule latch_inv_fold)
  have kept: "jm_get (ls_latches (fold latch_step later st)) (latch_key l) = Some (i, l)"
    if "latch_inv st" "jm_get (ls_latches st) (latch_key l) = Some (i, l)" "\<forall>e \<in> set later. \<not> ends_latch (i, l) e" for st
    using that by (induction later arbitrary: st) (simp_all add: latch_kept latch_inv_step)
  show "jm_get (ls_latches (latch_run (before @ later))) (latch_key l) = Some (i, l) \<or>
      (\<exists>e \<in> set later. (\<exists>orders. e = Observed (Some orders) \<and> proves_outcome l orders) \<or>
         e = Release (latch_key l) (i, l) \<or> (\<exists>l'. e = Latch l' \<and> subject_of l' = subject_of l))"
    using kept [OF inv assms] unfolding ends_latch_def by (auto simp: latch_run_def)
  have read: "latch_run (before @ [Observed os]) = settle_outcome_latches os (latch_run before)" for os
    by (simp add: latch_run_def)
  show "jm_get (ls_latches (latch_run (before @ [Observed (Some orders)]))) (latch_key l) =
      (if proves_outcome l orders then None else Some (i, l))"
    using latch_read [OF inv assms, of "Some orders"] by (simp add: read settled_iff_proved)
  show "case l of
       Api_spec_write ns message \<Rightarrow> jm_get (ls_latches (latch_run (before @ [Observed read]))) (latch_key l) = Some (i, l)
     | Restore ns file outcome confirmed \<Rightarrow> jm_get (ls_latches (latch_run (before @ [Observed read]))) (latch_key l) = Some (i, l)
     | _ \<Rightarrow> True"
    using latch_read [OF inv assms, of read] by (cases l) (simp_all add: read)
  have "(unreleased key st = 0) = ((key, False) \<notin> set (ls_writes st))" for st
    by (auto simp: unreleased_def filter_empty_conv)
  then show "is_write_in_flight key (latch_run (before @ later)) \<longleftrightarrow>
      (key, False) \<in> set (ls_writes (latch_run (before @ later)))"
    using inv [of "before @ later"] by (auto simp: is_write_in_flight_def latch_inv_def)
qed

definition sample_renewal :: outcome_latch where
  "sample_renewal = Acme_renewal ''cert'' ''order-1''"

lemma latches_end_only_by_proof_witness:
  "let earlier = [Latch sample_renewal];
       later = [Observed (Some [\<lparr>ao_id = ''order-0'', ao_status = ''valid''\<rparr>]), Release ''acme:renewal:cert'' (7, sample_renewal),
                Begin_write ''restore:ns''] in
   jm_get (ls_latches (latch_run (earlier @ later))) ''acme:renewal:cert'' = Some (0, sample_renewal) \<and>
   is_write_in_flight ''restore:ns'' (latch_run (earlier @ later))"
proof -
  let ?later = "[Observed (Some [\<lparr>ao_id = ''order-0'', ao_status = ''valid''\<rparr>]), Release ''acme:renewal:cert'' (7, sample_renewal),
      Begin_write ''restore:ns'']"
  have "jm_get (ls_latches (latch_run [Latch sample_renewal])) (latch_key sample_renewal) = Some (0, sample_renewal)"
    by (simp add: latch_run_def latch_outcome_def no_latches_def jm_rules)
  from latches_end_only_by_proof [OF this, of ?later "[]" None "''restore:ns''"]
  show ?thesis
    by (simp add: sample_renewal_def latch_run_def begin_write_def proves_outcome_simps)
qed

end
