(* ===== verification/ApiClient.thy ===== *)
theory ApiClient
  imports ApplyMonitor ProxyHandler
begin

text \<open>
  The console's HTTP client (\<open>api/client.ts\<close>) and its gateway target binding (\<open>api/gatewayTarget.ts\<close>): the
  hooks around every request over the state of the page. The HTTP library (ky) calls the hooks; whether it sends a
  request again is its decision over the options and \<open>shouldRetry\<close>, a parameter. The documents shown to the
  operator are left out.
\<close>

section \<open>The page\<close>

record client_page =
  pg_bound :: "string option"
  pg_retired :: bool
  pg_last_ticket :: nat
  pg_csrf :: "cptext option"
  pg_csrf_cookie :: "string option"
  pg_monitor :: monitor

definition new_page :: "bool \<Rightarrow> client_page" where
  "new_page scoped = \<lparr>pg_bound = None, pg_retired = False, pg_last_ticket = 0, pg_csrf = None, pg_csrf_cookie = None,
     pg_monitor = monitor_init scoped\<rparr>"

definition retire_gateway_target :: "client_page \<Rightarrow> client_page" where
  "retire_gateway_target pg =
     (if pg_retired pg then pg
      else pg\<lparr>pg_retired := True, pg_monitor := clear_gateway_metadata (pg_monitor pg)\<rparr>)"

definition observe_gateway_target :: "string option \<Rightarrow> client_page \<Rightarrow> client_page" where
  "observe_gateway_target target pg =
     (case target of
        None \<Rightarrow> pg
      | Some t \<Rightarrow>
          if t = [] \<or> pg_retired pg then pg
          else if pg_bound pg = None then pg\<lparr>pg_bound := Some t\<rparr>
          else if Some t \<noteq> pg_bound pg then retire_gateway_target pg
          else pg)"

definition targets_gateway :: "string \<Rightarrow> bool" where
  "targets_gateway path \<longleftrightarrow>
     starts_with ''/api/proxy/'' path \<or> path = ''/api/settings'' \<or> starts_with ''/api/settings/'' path"

definition issue_request_ticket :: "client_page \<Rightarrow> nat \<times> client_page" where
  "issue_request_ticket pg = (pg_last_ticket pg + 1, pg\<lparr>pg_last_ticket := pg_last_ticket pg + 1\<rparr>)"

definition set_csrf_token :: "cptext option \<Rightarrow> string option \<Rightarrow> client_page \<Rightarrow> client_page" where
  "set_csrf_token token cookie_name pg =
     pg\<lparr>pg_csrf := token, pg_csrf_cookie := (if token = None then None else cookie_name)\<rparr>"

text \<open>\<open>readCookie\<close> over \<open>document.cookie\<close>; a value that does not decode is taken as it is.\<close>

fun cookie_entry :: "string \<Rightarrow> string list \<Rightarrow> cptext option" where
  "cookie_entry name [] = None"
| "cookie_entry name (entry # rest) =
     (case dropWhile (\<lambda>c. c \<noteq> CHR ''='') entry of
        [] \<Rightarrow> cookie_entry name rest
      | separator # raw \<Rightarrow>
          if js_trim (takeWhile (\<lambda>c. c \<noteq> CHR ''='') entry) \<noteq> name then cookie_entry name rest
          else let value = cps (js_trim raw);
                   decoded = (case decode_uri value of Some v \<Rightarrow> v | None \<Rightarrow> value) in
               if decoded = [] then None else Some decoded)"

definition read_cookie :: "string \<Rightarrow> string \<Rightarrow> cptext option" where
  "read_cookie cookies name = cookie_entry name (split_on CHR '';'' cookies)"

definition current_csrf_token :: "string \<Rightarrow> client_page \<Rightarrow> cptext option" where
  "current_csrf_token cookies pg =
     (case pg_csrf pg of
        None \<Rightarrow> None
      | Some [] \<Rightarrow> None
      | Some token \<Rightarrow>
          (case Option.bind (pg_csrf_cookie pg) (\<lambda>name. if name = [] then None else read_cookie cookies name) of
             Some value \<Rightarrow> Some value
           | None \<Rightarrow> Some token))"

section \<open>Before a request\<close>

record request_context =
  cx_fleet_global :: bool
  cx_ticket :: "nat option"
  cx_silent :: bool
  cx_redact :: bool
  cx_handled :: "nat list"
  cx_defer :: bool

definition plain_context :: request_context where
  "plain_context = \<lparr>cx_fleet_global = False, cx_ticket = None, cx_silent = False, cx_redact = False, cx_handled = [],
     cx_defer = False\<rparr>"

text \<open>\<open>scoped\<close> pins a request to a namespace, and refuses an empty one.\<close>

definition scoped_namespace :: "string \<Rightarrow> string option" where
  "scoped_namespace ns = (if ns = [] then None else Some ns)"

record sent_request =
  sq_request :: mutation_request
  sq_context :: request_context
  sq_target :: "string option"
  sq_csrf :: "cptext option"
  sq_identity :: request_identity
  sq_ticket :: nat

datatype refused_request = Gateway_target_changed | Unbound_namespace

definition before_request :: "string \<Rightarrow> mutation_request \<Rightarrow> request_context \<Rightarrow> client_page \<Rightarrow> (refused_request + sent_request) \<times> client_page" where
  "before_request cookies r cx pg =
     (if targets_gateway (mr_path r) \<and> pg_retired pg then (Inl Gateway_target_changed, pg)
      else if is_proxied r \<and> \<not> cx_fleet_global cx \<and> mr_namespace r = None then (Inl Unbound_namespace, pg)
      else let (identity, mon) = begin_gateway_request r (pg_monitor pg);
               pg1 = pg\<lparr>pg_monitor := mon\<rparr>;
               (ticket, pg2) = (case cx_ticket cx of Some t \<Rightarrow> (t, pg1) | None \<Rightarrow> issue_request_ticket pg1) in
        (Inr \<lparr>sq_request = r, sq_context = cx\<lparr>cx_ticket := Some ticket\<rparr>,
              sq_target = (if targets_gateway (mr_path r) then pg_bound pg else None),
              sq_csrf = (if mr_method r \<in> {''GET'', ''HEAD'', ''OPTIONS''} then None else current_csrf_token cookies pg),
              sq_identity = identity, sq_ticket = ticket\<rparr>, pg2))"

section \<open>Retries\<close>

definition retry_limit :: nat where "retry_limit = 2"

definition retry_methods :: "string list" where
  "retry_methods = [''get'', ''head'', ''options'']"

definition retry_status_codes :: "nat list" where
  "retry_status_codes = [408, 413, 429, 500, 502, 503, 504]"

text \<open>\<open>Some False\<close> is a refusal, \<open>None\<close> leaves the decision to the library.\<close>

definition should_retry :: "client_error \<Rightarrow> bool option" where
  "should_retry e =
     (if ce_status e = Some 429 \<and> ce_headers e ''x-ferrum-auth-layer'' = Some ''bff'' then Some False
      else if ce_status e = Some 503 \<and>
              (ce_headers e ''x-ferrum-config-cursor'' \<noteq> None \<or> body_field ''applied'' (bff_error_body e) = Some (JBool False))
      then Some False
      else None)"

section \<open>After an answer\<close>

text \<open>The page after the answer, and the ticket the authentication store is told of.\<close>

definition after_response ::
  "sent_request \<Rightarrow> gateway_response \<Rightarrow> string option \<Rightarrow> string option \<Rightarrow> string \<Rightarrow> client_page \<Rightarrow> nat option \<times> client_page" where
  "after_response s resp target auth_layer now pg =
     (let pg1 = observe_gateway_target target pg;
          pg2 = pg1\<lparr>pg_monitor := observe_response (sq_request s) resp (sq_identity s) now (pg_monitor pg1)\<rparr> in
      (if gw_status resp = 401 \<and> auth_layer = Some ''bff'' then Some (sq_ticket s) else None, pg2))"

section \<open>A failed request\<close>

definition silent_probes :: "string list" where
  "silent_probes = [''/api/proxy/mesh/'', ''/api/proxy/node-waypoint/'', ''/api/proxy/service-waypoint/'',
     ''/api/proxy/gateway-trust'', ''/api/proxy/charges'', ''/api/proxy/backend-capabilities'', ''/api/proxy/api-specs'',
     ''/api/proxy/audit'']"

definition is_expected_probe_failure :: "nat \<Rightarrow> string \<Rightarrow> bool" where
  "is_expected_probe_failure status url \<longleftrightarrow>
     status \<in> {404, 503, 501} \<and> list_ex (\<lambda>p. sublist p url) silent_probes"

definition gateway_target_changed_code :: string where
  "gateway_target_changed_code = ''FERRUM_BFF_GATEWAY_TARGET_CHANGED''"

definition is_gateway_target_refusal :: "mutation_request \<Rightarrow> client_error \<Rightarrow> bool" where
  "is_gateway_target_refusal r e \<longleftrightarrow>
     ce_status e = Some 409 \<and> targets_gateway (mr_path r) \<and>
     body_field ''code'' (bff_error_body e) = Some (JStr gateway_target_changed_code)"

record api_error =
  ae_status :: nat
  ae_body :: "string json option"
  ae_url :: string
  ae_outcome :: "unobserved_outcome option"

datatype popup = Quiet | Held api_error | Deferred api_error | Reported api_error

text \<open>The marks an error carries afterwards, and what becomes of its popup. The body of a failure without an answer
  is its message.\<close>

record failed_request =
  fr_unobserved :: bool
  fr_committed :: "committed_write option"
  fr_popup :: popup

definition committed_answer :: "sent_request \<Rightarrow> client_error \<Rightarrow> committed_write option" where
  "committed_answer s e = (if ri_order (sq_identity s) \<noteq> None then classify_committed_write e else None)"

definition before_error :: "sent_request \<Rightarrow> client_error \<Rightarrow> client_page \<Rightarrow> failed_request \<times> client_page" where
  "before_error s e pg =
     (let r = sq_request s; cx = sq_context s;
          pg1 = (if is_gateway_target_refusal r e then retire_gateway_target pg else pg);
          (unobserved, mon) = observe_failure r e (sq_identity s) (pg_monitor pg1);
          pg2 = pg1\<lparr>pg_monitor := mon\<rparr>;
          committed = committed_answer s e;
          detail = \<lparr>ae_status = (case ce_status e of Some st \<Rightarrow> st | None \<Rightarrow> 0),
                    ae_body = (if ce_status e \<noteq> None then ce_data e else Some (JStr (ce_message e))),
                    ae_url = mr_url r, ae_outcome = unobserved\<rparr>;
          shown =
            (if committed \<noteq> None then Quiet
             else if cx_silent cx \<or> ce_name e = ''AbortError'' then Quiet
             else if pg_retired pg2 then Quiet
             else if (case ce_status e of Some st \<Rightarrow> is_expected_probe_failure st (mr_url r) | None \<Rightarrow> False) then Quiet
             else if (case ce_status e of Some st \<Rightarrow> st \<in> set (cx_handled cx) | None \<Rightarrow> False) then Quiet
             else if cx_redact cx then Held detail
             else if cx_defer cx then Deferred detail
             else Reported detail) in
      (\<lparr>fr_unobserved = (unobserved \<noteq> None), fr_committed = committed, fr_popup = shown\<rparr>, pg2))"

text \<open>A held or deferred report is taken once.\<close>

definition take_held_report :: "failed_request \<Rightarrow> api_error option \<times> failed_request" where
  "take_held_report f = (case fr_popup f of Held d \<Rightarrow> (Some d, f\<lparr>fr_popup := Quiet\<rparr>) | _ \<Rightarrow> (None, f))"

definition report_deferred_query_error :: "failed_request \<Rightarrow> api_error option \<times> failed_request" where
  "report_deferred_query_error f = (case fr_popup f of Deferred d \<Rightarrow> (Some d, f\<lparr>fr_popup := Quiet\<rparr>) | _ \<Rightarrow> (None, f))"

section \<open>Runs of a page\<close>

datatype page_event =
    Send string mutation_request request_context
  | Answered sent_request gateway_response "string option" "string option" string
  | Failed sent_request client_error
  | Target_seen "string option"
  | Csrf_set "cptext option" "string option"
  | Monitor_event monitor_event

fun page_step :: "page_event \<Rightarrow> client_page \<times> sent_request list \<Rightarrow> client_page \<times> sent_request list" where
  "page_step (Send cookies r cx) (pg, sent) =
     (case before_request cookies r cx pg of (Inr s, pg') \<Rightarrow> (pg', sent @ [s]) | (Inl _, pg') \<Rightarrow> (pg', sent))"
| "page_step (Answered s resp target auth_layer now) (pg, sent) = (snd (after_response s resp target auth_layer now pg), sent)"
| "page_step (Failed s e) (pg, sent) = (snd (before_error s e pg), sent)"
| "page_step (Target_seen target) (pg, sent) = (observe_gateway_target target pg, sent)"
| "page_step (Csrf_set token name) (pg, sent) = (set_csrf_token token name pg, sent)"
| "page_step (Monitor_event e) (pg, sent) = (pg\<lparr>pg_monitor := monitor_step e (pg_monitor pg)\<rparr>, sent)"

definition page_run :: "bool \<Rightarrow> page_event list \<Rightarrow> client_page \<times> sent_request list" where
  "page_run scoped events = fold page_step events (new_page scoped, [])"

section \<open>One page, one gateway\<close>

fun target_seen :: "page_event \<Rightarrow> string list" where
  "target_seen (Answered s resp target auth_layer now) = (case target of Some t \<Rightarrow> if t = [] then [] else [t] | None \<Rightarrow> [])"
| "target_seen (Target_seen target) = (case target of Some t \<Rightarrow> if t = [] then [] else [t] | None \<Rightarrow> [])"
| "target_seen _ = []"

definition page_inv :: "page_event list \<Rightarrow> client_page \<times> sent_request list \<Rightarrow> bool" where
  "page_inv events st \<longleftrightarrow>
     (pg_retired (fst st) \<or> (\<forall>t \<in> set (concat (map target_seen events)). pg_bound (fst st) = Some t)) \<and>
     (\<forall>s \<in> set (snd st). sq_target s = None \<or> sq_target s = pg_bound (fst st))"

lemma retire_fields [simp]: "pg_bound (retire_gateway_target pg) = pg_bound pg" "pg_retired (retire_gateway_target pg)"
  by (simp_all add: retire_gateway_target_def)

lemma observe_target_cases:
  "(pg_retired (observe_gateway_target target pg) \<longleftrightarrow>
      pg_retired pg \<or> (\<exists>t. target = Some t \<and> t \<noteq> [] \<and> pg_bound pg \<noteq> None \<and> pg_bound pg \<noteq> Some t)) \<and>
   pg_bound (observe_gateway_target target pg) =
     (if pg_bound pg = None \<and> \<not> pg_retired pg \<and> target \<noteq> Some [] then target else pg_bound pg)"
  by (auto simp: observe_gateway_target_def split: option.split)

lemma before_request_page:
  "pg_bound (snd (before_request cookies r cx pg)) = pg_bound pg \<and>
   pg_retired (snd (before_request cookies r cx pg)) = pg_retired pg"
  by (auto simp: before_request_def issue_request_ticket_def Let_def split: prod.split option.split)

lemma before_request_sent:
  "fst (before_request cookies r cx pg) = Inr s \<Longrightarrow>
     sq_request s = r \<and> sq_target s = (if targets_gateway (mr_path r) then pg_bound pg else None) \<and>
     \<not> (targets_gateway (mr_path r) \<and> pg_retired pg) \<and>
     \<not> (is_proxied r \<and> \<not> cx_fleet_global cx \<and> mr_namespace r = None)"
  by (auto simp: before_request_def Let_def split: if_splits prod.splits)

lemma before_error_page:
  "pg_bound (snd (before_error s e pg)) = pg_bound pg \<and>
   pg_retired (snd (before_error s e pg)) = (pg_retired pg \<or> is_gateway_target_refusal (sq_request s) e)"
  by (auto simp: before_error_def Let_def split: prod.split)

lemma after_response_page:
  "pg_bound (snd (after_response s resp target auth_layer now pg)) = pg_bound (observe_gateway_target target pg) \<and>
   pg_retired (snd (after_response s resp target auth_layer now pg)) = pg_retired (observe_gateway_target target pg)"
  by (simp add: after_response_def Let_def)

lemma page_inv_observed:
  assumes "page_inv events (pg, sent)" "target_seen e = (case target of Some t \<Rightarrow> if t = [] then [] else [t] | None \<Rightarrow> [])"
    "pg_bound pg' = pg_bound (observe_gateway_target target pg)" "pg_retired pg' = pg_retired (observe_gateway_target target pg)"
  shows "page_inv (events @ [e]) (pg', sent)"
  using assms observe_target_cases [of target pg]
  by (cases target) (auto simp: page_inv_def split: if_splits)

lemma page_inv_step:
  assumes inv: "page_inv events st"
  shows "page_inv (events @ [e]) (page_step e st)"
proof -
  obtain pg sent where st: "st = (pg, sent)" by (cases st)
  show ?thesis
  proof (cases e)
    case (Send cookies r cx)
    obtain x pg' where x: "before_request cookies r cx pg = (x, pg')" by (cases "before_request cookies r cx pg")
    have "pg_bound pg' = pg_bound pg" "pg_retired pg' = pg_retired pg" using before_request_page [of cookies r cx pg] x by simp_all
    moreover have "sq_target q = None \<or> sq_target q = pg_bound pg" if "x = Inr q" for q
      using before_request_sent [of cookies r cx pg q] x that by simp
    ultimately show ?thesis using inv x by (cases x) (simp_all add: st Send page_inv_def)
  next
    case (Answered s resp target auth_layer now)
    then show ?thesis using page_inv_observed [OF inv [unfolded st]] after_response_page by (simp add: st)
  next
    case (Failed s err)
    then show ?thesis using inv before_error_page [of s err pg] by (auto simp: st page_inv_def)
  next
    case (Target_seen target)
    then show ?thesis using page_inv_observed [OF inv [unfolded st]] by (simp add: st)
  qed (use inv in \<open>auto simp: st page_inv_def set_csrf_token_def\<close>)
qed

lemma page_inv_run: "page_inv events (page_run scoped events)"
proof (induction events rule: rev_induct)
  case Nil
  then show ?case by (simp add: page_inv_def page_run_def)
next
  case (snoc e events)
  have "page_run scoped (events @ [e]) = page_step e (page_run scoped events)" by (simp add: page_run_def)
  then show ?case using page_inv_step [OF snoc] by metis
qed

text \<open>C29: A page belongs to one gateway. Whatever was sent, answered, lost or observed before, a request that passes
  the client's checks carries the namespace its operation was bound to unless it is marked fleet-global; and when it
  goes to the gateway, every target the BFF ever named to this page is the one it declares, no earlier request
  declared another, and the BFF, whatever its settings are by then, lets it through only if its target still is
  that one.\<close>

theorem page_bound_to_one_gateway:
  assumes "page_run scoped events = (pg, sent)" "before_request cookies r cx pg = (Inr s, pg')"
  shows "(is_proxied r \<longrightarrow> cx_fleet_global cx \<or> mr_namespace r \<noteq> None) \<and>
    (targets_gateway (mr_path r) \<longrightarrow>
       (\<forall>t \<in> set (concat (map target_seen events)). sq_target s = Some t) \<and>
       (\<forall>s' \<in> set sent. sq_target s' = None \<or> sq_target s' = sq_target s) \<and>
       (\<forall>t tm cfg q. sq_target s = Some t \<longrightarrow> ar_headers q gateway_target_header = Some (Single t) \<longrightarrow>
          stamp_gateway_target tm cfg q = (gateway_target_id tm cfg, gateway_target_id tm cfg = t)))"
proof -
  have sent: "sq_target s = (if targets_gateway (mr_path r) then pg_bound pg else None)"
    "\<not> (targets_gateway (mr_path r) \<and> pg_retired pg)" "\<not> (is_proxied r \<and> \<not> cx_fleet_global cx \<and> mr_namespace r = None)"
    using before_request_sent [of cookies r cx pg s] assms(2) by auto
  have "stamp_gateway_target tm cfg q = (gateway_target_id tm cfg, gateway_target_id tm cfg = t)"
    if "ar_headers q gateway_target_header = Some (Single t)" for t tm cfg q
    using that by (auto simp: stamp_gateway_target_def declared_target_def Let_def)
  then show ?thesis using page_inv_run [of events scoped] sent by (auto simp: page_inv_def assms(1))
qed

definition sample_read :: mutation_request where
  "sample_read = \<lparr>mr_url = ''/api/proxy/proxies'', mr_method = ''GET'', mr_path = ''/api/proxy/proxies'', mr_namespace = Some ''ns''\<rparr>"

lemma page_bound_to_one_gateway_witness:
  "let events = [Target_seen (Some ''gw1''), Target_seen (Some ''gw1'')]; (pg, sent) = page_run False events in
   \<exists>s pg'. before_request [] sample_read plain_context pg = (Inr s, pg') \<and> sq_target s = Some ''gw1''"
proof -
  let ?events = "[Target_seen (Some ''gw1''), Target_seen (Some ''gw1'')]"
  obtain pg sent where run: "page_run False ?events = (pg, sent)" by (cases "page_run False ?events")
  then have pg: "\<not> pg_retired pg"
    by (auto simp: page_run_def observe_gateway_target_def new_page_def)
  have gw: "targets_gateway (mr_path sample_read)" by (simp add: targets_gateway_def sample_read_def starts_with_def)
  have "\<exists>s pg'. before_request [] sample_read plain_context pg = (Inr s, pg')"
    using pg by (simp add: before_request_def sample_read_def plain_context_def Let_def split: prod.split)
  then obtain s pg' where s: "before_request [] sample_read plain_context pg = (Inr s, pg')" by blast
  from page_bound_to_one_gateway [OF run s] gw have "sq_target s = Some ''gw1''" by simp
  then show ?thesis using s by (auto simp: run Let_def)
qed

section \<open>Failures\<close>

text \<open>What is documented of the library's retries: at most \<open>limit\<close>, only for the methods listed, and never against
  \<open>shouldRetry\<close>.\<close>

type_synonym retry_library = "nat \<Rightarrow> string list \<Rightarrow> nat list \<Rightarrow> bool option \<Rightarrow> string \<Rightarrow> client_error \<Rightarrow> nat \<Rightarrow> bool"

definition respects_retry_options :: "retry_library \<Rightarrow> bool" where
  "respects_retry_options ky \<longleftrightarrow>
     (\<forall>limit methods codes decision meth e attempt. ky limit methods codes decision meth e attempt \<longrightarrow>
        attempt \<le> limit \<and> js_lower meth \<in> set methods \<and> decision \<noteq> Some False)"

definition sent_again :: "retry_library \<Rightarrow> mutation_request \<Rightarrow> client_error \<Rightarrow> nat \<Rightarrow> bool" where
  "sent_again ky r e attempt = ky retry_limit retry_methods retry_status_codes (should_retry e) (mr_method r) e attempt"

lemma committed_never_retried:
  assumes "classify_committed_write e \<noteq> None"
  shows "should_retry e = Some False"
proof -
  have "ce_status e = Some 503"
    "parse_config_cursor (ce_headers e ''x-ferrum-config-cursor'') \<noteq> None \<or> is_committed_not_live (ce_data e)"
    using assms by (auto simp: classify_committed_write_def committed_not_live_answer_def Let_def split: option.splits if_splits)
  moreover have "body_field ''applied'' (bff_error_body e) = Some (JBool False)" if "is_committed_not_live (ce_data e)"
    using that by (cases "ce_data e")
      (auto simp: is_committed_not_live_def body_field_def bff_error_body_def jfield_def split: json.splits)
  moreover have "parse_config_cursor None = None" by (simp add: parse_config_cursor_def)
  ultimately show ?thesis unfolding should_retry_def by (cases "ce_headers e ''x-ferrum-config-cursor''") auto
qed

text \<open>C30: A failed request is sent again only if it is a read, at most twice, and never when the gateway said the
  change is committed. A configuration write answered that way is marked committed and never shown as a failure; one
  whose answer was lost is marked unobserved whatever the caller silenced, unless it was committed or never
  dispatched, and a report of it says so.\<close>

theorem failed_writes_told_as_they_are:
  assumes "respects_retry_options ky"
  shows "(sent_again ky (sq_request s) e attempt \<longrightarrow>
       attempt \<le> 2 \<and> js_lower (mr_method (sq_request s)) \<in> {''get'', ''head'', ''options''} \<and> classify_committed_write e = None) \<and>
    (case fst (before_error s e pg) of f \<Rightarrow>
       (fr_committed f = (if ri_order (sq_identity s) \<noteq> None then classify_committed_write e else None)) \<and>
       (fr_unobserved f \<longleftrightarrow> ri_order (sq_identity s) \<noteq> None \<and> classify_unobserved_outcome e \<noteq> None) \<and>
       (case fr_popup f of
          Quiet \<Rightarrow> fst (take_held_report f) = None \<and> fst (report_deferred_query_error f) = None
        | Held d \<Rightarrow> fr_committed f = None \<and> (fr_unobserved f \<longleftrightarrow> ae_outcome d \<noteq> None) \<and>
            fst (take_held_report (snd (take_held_report f))) = None
        | Deferred d \<Rightarrow> fr_committed f = None \<and> (fr_unobserved f \<longleftrightarrow> ae_outcome d \<noteq> None) \<and>
            fst (report_deferred_query_error (snd (report_deferred_query_error f))) = None
        | Reported d \<Rightarrow> fr_committed f = None \<and> (fr_unobserved f \<longleftrightarrow> ae_outcome d \<noteq> None)))"
proof -
  have retry: "attempt \<le> 2" "js_lower (mr_method (sq_request s)) \<in> {''get'', ''head'', ''options''}" "classify_committed_write e = None"
    if again: "sent_again ky (sq_request s) e attempt"
  proof -
    have again_ok: "attempt \<le> retry_limit \<and> js_lower (mr_method (sq_request s)) \<in> set retry_methods \<and> should_retry e \<noteq> Some False"
      using assms again unfolding respects_retry_options_def sent_again_def by blast
    then show "attempt \<le> 2" "js_lower (mr_method (sq_request s)) \<in> {''get'', ''head'', ''options''}"
      by (simp_all add: retry_limit_def retry_methods_def)
    show "classify_committed_write e = None"
      using again_ok committed_never_retried by blast
  qed
  obtain f pg' where f: "before_error s e pg = (f, pg')" by (cases "before_error s e pg")
  have observed: "fst (observe_failure r e i m) = (if ri_order i = None then None else classify_unobserved_outcome e)" for r i m
    by (auto simp: observe_failure_def split: option.split)
  define mon where "mon = pg_monitor (if is_gateway_target_refusal (sq_request s) e then retire_gateway_target pg else pg)"
  obtain u m' where u: "observe_failure (sq_request s) e (sq_identity s) mon = (u, m')"
    by (cases "observe_failure (sq_request s) e (sq_identity s) mon")
  then have u': "u = (if ri_order (sq_identity s) = None then None else classify_unobserved_outcome e)"
    using observed by (metis fst_conv)
  have fields: "fr_committed f = committed_answer s e" "fr_unobserved f \<longleftrightarrow> u \<noteq> None"
    using f u by (auto simp: before_error_def Let_def mon_def simp del: not_None_eq split: if_splits)
  have popup: "fr_popup f = Quiet \<or> (committed_answer s e = None \<and> (\<exists>d. ae_outcome d = u \<and> fr_popup f \<in> {Held d, Deferred d, Reported d}))"
    using f u by (cases "committed_answer s e") (auto simp: before_error_def Let_def mon_def split: if_splits)
  show ?thesis
    using retry fields popup u' committed_answer_def [of s e] unfolding f
    by (auto simp: take_held_report_def report_deferred_query_error_def split: popup.split)
qed

definition sample_ky :: retry_library where
  "sample_ky limit methods codes decision meth e attempt \<longleftrightarrow>
     attempt \<le> limit \<and> js_lower meth \<in> set methods \<and> decision \<noteq> Some False \<and>
     (case ce_status e of Some st \<Rightarrow> st \<in> set codes | None \<Rightarrow> True)"

definition sample_unavailable :: client_error where
  "sample_unavailable = \<lparr>ce_name = ''HTTPError'', ce_message = ''unavailable'', ce_status = Some 503, ce_headers = (\<lambda>_. None),
     ce_data = Some (JObj [(''applied'', JBool False)])\<rparr>"

definition sample_sent :: sent_request where
  "sample_sent = \<lparr>sq_request = sample_write, sq_context = plain_context, sq_target = None, sq_csrf = None,
     sq_identity = \<lparr>ri_session = 0, ri_order = Some 1\<rparr>, sq_ticket = 1\<rparr>"

lemma failed_writes_told_as_they_are_witness:
  "respects_retry_options sample_ky \<and> \<not> sent_again sample_ky sample_write sample_unavailable 1 \<and>
   fr_committed (fst (before_error sample_sent sample_unavailable (new_page False))) = Some (None, None)"
proof -
  have ky: "respects_retry_options sample_ky" by (simp add: respects_retry_options_def sample_ky_def)
  have c: "classify_committed_write sample_unavailable = Some (None, None)"
    by (simp add: classify_committed_write_def sample_unavailable_def committed_not_live_answer_def parse_config_cursor_def
        is_committed_not_live_def body_field_def jfield_def response_reason_def json_text_def)
  from failed_writes_told_as_they_are [OF ky, of sample_sent sample_unavailable 1 "new_page False"] show ?thesis
    using ky c by (auto simp: sample_sent_def)
qed

end
