(* ===== verification/EffectivePolicy.thy ===== *)
theory EffectivePolicy
  imports Json Prelude "HOL-Library.Multiset" "HOL-Library.Product_Lexorder" "HOL-Library.Char_ord"
begin

text \<open>
  Which plugins run for a proxy, and what that means for a consumer (\<open>lib/effectivePolicy.ts\<close>,
  \<open>lib/pluginProtocols.ts\<close>): the attachment index, the shadowing of globals, the protocol filter, and the
  access decision. \<open>localeCompare\<close> is the platform's collation, a parameter that maps a string to its key. A
  reason is a constructor carrying the values its text interpolates.
\<close>

section \<open>Data\<close>

datatype plugin_scope = Global_scope | Proxy_scope | Group_scope

record plugin_config =
  pc_id :: string
  pc_name :: string
  pc_scope :: plugin_scope
  pc_enabled :: bool
  pc_proxy_id :: "string option"
  pc_priority :: "int option"
  pc_triggered :: bool
  pc_config :: "string json"
  pc_updated_at :: "string option"

record proxy_view =
  px_id :: string
  px_plugins :: "string list"
  px_scheme :: "string option"

record consumer_view =
  cv_username :: string
  cv_groups :: "string list"
  cv_credentials :: "string json"

section \<open>Protocols\<close>

definition stream_schemes :: "string list" where "stream_schemes = [''tcp'', ''tcps'', ''udp'', ''dtls'']"
definition tcp_stream_schemes :: "string list" where "tcp_stream_schemes = [''tcp'', ''tcps'']"
definition udp_stream_schemes :: "string list" where "udp_stream_schemes = [''udp'', ''dtls'']"

definition stream_capable_plugins :: "string list" where
  "stream_capable_plugins =
     [''ip_restriction'', ''spiffe_identity'', ''mtls_auth'', ''access_control'', ''mesh_authz'',
      ''geo_restriction'', ''rate_limiting'', ''correlation_id'', ''otel_tracing'', ''stdout_logging'',
      ''statsd_logging'', ''http_logging'', ''tcp_logging'', ''kafka_logging'', ''loki_logging'', ''udp_logging'',
      ''ws_logging'', ''prometheus_metrics'', ''api_chargeback'', ''api_chargeback_sink'', ''workload_metrics'',
      ''transaction_debugger'', ''fault_injection'', ''proxy_alerts'']"

definition tcp_only_stream_plugins :: "string list" where "tcp_only_stream_plugins = [''tcp_connection_throttle'']"
definition udp_only_stream_plugins :: "string list" where "udp_only_stream_plugins = [''udp_rate_limiting'']"
definition waf_stream_modes :: "string list" where "waf_stream_modes = [''enforce'', ''monitor'']"

definition waf_enabled_actions :: "string list" where
  "waf_enabled_actions = [''enforce'', ''block'', ''reject'', ''monitor'', ''log'', ''warn'']"

definition waf_disabled_actions :: "string list" where "waf_disabled_actions = [''disabled'', ''disable'', ''off'']"

text \<open>A field that is absent or \<open>null\<close>.\<close>

definition absent :: "string json option \<Rightarrow> bool" where
  "absent v \<longleftrightarrow> v = None \<or> v = Some JNull"

definition non_empty_string :: "string json option \<Rightarrow> bool" where
  "non_empty_string v = (case v of Some (JStr s) \<Rightarrow> s \<noteq> [] | _ \<Rightarrow> False)"

definition is_record :: "string json \<Rightarrow> bool" where
  "is_record v = (case v of JObj _ \<Rightarrow> True | _ \<Rightarrow> False)"

definition text_in :: "string list \<Rightarrow> string json option \<Rightarrow> bool" where
  "text_in names v = (case v of Some (JStr s) \<Rightarrow> s \<in> set names | _ \<Rightarrow> False)"

definition waf_signature_enabled :: "string json \<Rightarrow> bool" where
  "waf_signature_enabled s \<longleftrightarrow> absent (jfield ''action'' s) \<or> text_in waf_enabled_actions (jfield ''action'' s)"

definition waf_signature_valid :: "string json \<Rightarrow> bool" where
  "waf_signature_valid s \<longleftrightarrow>
     is_record s \<and> non_empty_string (jfield ''id'' s) \<and> non_empty_string (jfield ''pattern'' s) \<and>
     (absent (jfield ''action'' s) \<or> text_in (waf_enabled_actions @ waf_disabled_actions) (jfield ''action'' s))"

definition is_boolean :: "string json option \<Rightarrow> bool" where
  "is_boolean v = (case v of Some (JBool _) \<Rightarrow> True | _ \<Rightarrow> False)"

definition waf_inspects_streams :: "string json \<Rightarrow> bool" where
  "waf_inspects_streams config =
     (let mode = jfield ''mode'' config in
      if \<not> is_record config then False
      else if \<not> absent mode \<and> \<not> text_in waf_stream_modes mode then False
      else case jfield ''stream'' config of
        None \<Rightarrow> False
      | Some stream \<Rightarrow>
          if \<not> is_record stream then False
          else let require_tls = jfield ''tcp_require_tls'' stream in
            if \<not> absent require_tls \<and> \<not> is_boolean require_tls then False
            else (case (if absent (jfield ''signatures'' stream) then Some (JArr []) else jfield ''signatures'' stream) of
              Some (JArr signatures) \<Rightarrow>
                list_all waf_signature_valid signatures \<and>
                distinct (map (jfield ''id'') signatures) \<and>
                (require_tls = Some (JBool True) \<or> list_ex waf_signature_enabled signatures)
            | _ \<Rightarrow> False))"

definition scheme_of :: "proxy_view \<Rightarrow> string" where
  "scheme_of proxy = (case px_scheme proxy of Some s \<Rightarrow> s | None \<Rightarrow> ''https'')"

definition is_stream_proxy :: "proxy_view \<Rightarrow> bool" where
  "is_stream_proxy proxy \<longleftrightarrow> scheme_of proxy \<in> set stream_schemes"

definition plugin_applies :: "plugin_config \<Rightarrow> proxy_view \<Rightarrow> bool" where
  "plugin_applies plugin proxy =
     (if \<not> is_stream_proxy proxy then True
      else if pc_name plugin = ''waf'' then waf_inspects_streams (pc_config plugin)
      else if pc_name plugin \<in> set tcp_only_stream_plugins then scheme_of proxy \<in> set tcp_stream_schemes
      else if pc_name plugin \<in> set udp_only_stream_plugins then scheme_of proxy \<in> set udp_stream_schemes
      else pc_name plugin \<in> set stream_capable_plugins)"

section \<open>Attachment\<close>

record attachment_index =
  ai_globals :: "plugin_config list"
  ai_by_id :: "(string, plugin_config) jsmap"

definition build_attachment_index :: "plugin_config list \<Rightarrow> attachment_index" where
  "build_attachment_index configs =
     fold (\<lambda>p ix. if \<not> pc_enabled p then ix
                  else if pc_scope p = Global_scope then ix\<lparr>ai_globals := ai_globals ix @ [p]\<rparr>
                  else ix\<lparr>ai_by_id := jm_set (pc_id p) p (ai_by_id ix)\<rparr>)
       configs \<lparr>ai_globals = [], ai_by_id = []\<rparr>"

definition additive_plugin_names :: "string list" where
  "additive_plugin_names = [''request_size_limiting'', ''response_size_limiting'']"

definition istio_route_transform_prefix :: "string \<Rightarrow> string option" where
  "istio_route_transform_prefix name =
     (if name = ''request_transformer'' then Some ''istio-vs-req-xform-''
      else if name = ''response_transformer'' then Some ''istio-vs-resp-xform-'' else None)"

definition is_istio_route_transform_consumer :: "plugin_config \<Rightarrow> proxy_view \<Rightarrow> bool" where
  "is_istio_route_transform_consumer plugin proxy \<longleftrightarrow>
     pc_scope plugin = Proxy_scope \<and> pc_proxy_id plugin = Some (px_id proxy) \<and>
     (case istio_route_transform_prefix (pc_name plugin) of
        None \<Rightarrow> False
      | Some prefix \<Rightarrow> pc_id plugin = prefix @ px_id proxy) \<and>
     jfield ''rules'' (pc_config plugin) = Some (JArr []) \<and>
     jfield ''apply_route_overrides'' (pc_config plugin) = Some (JBool True)"

definition shadows_global :: "plugin_config \<Rightarrow> proxy_view \<Rightarrow> bool" where
  "shadows_global plugin proxy \<longleftrightarrow>
     pc_name plugin \<notin> set additive_plugin_names \<and> \<not> is_istio_route_transform_consumer plugin proxy"

definition eligible :: "proxy_view \<Rightarrow> plugin_config \<Rightarrow> bool" where
  "eligible proxy plugin \<longleftrightarrow>
     (pc_scope plugin = Proxy_scope \<longrightarrow> pc_proxy_id plugin = Some (px_id proxy)) \<and>
     (pc_scope plugin = Group_scope \<longrightarrow> pc_proxy_id plugin = None)"

definition plugin_priority :: "plugin_config \<Rightarrow> int" where
  "plugin_priority plugin = (case pc_priority plugin of Some n \<Rightarrow> n | None \<Rightarrow> max_safe)"

definition scoped_plugins :: "proxy_view \<Rightarrow> attachment_index \<Rightarrow> plugin_config list" where
  "scoped_plugins proxy ix =
     filter (eligible proxy) (List.map_filter (jm_get (ai_by_id ix)) (js_unique (px_plugins proxy)))"

definition attached_plugins :: "(string \<Rightarrow> 'k::linorder) \<Rightarrow> proxy_view \<Rightarrow> attachment_index \<Rightarrow> plugin_config list" where
  "attached_plugins collate proxy ix =
     (let scoped = scoped_plugins proxy ix;
          shadowed = map pc_name (filter (\<lambda>p. shadows_global p proxy) scoped);
          globals = filter (\<lambda>p. pc_name p \<notin> set shadowed) (ai_globals ix) in
      sort_key (\<lambda>p. (plugin_priority p, collate (pc_id p))) (globals @ scoped))"

definition effective_plugins :: "(string \<Rightarrow> 'k::linorder) \<Rightarrow> proxy_view \<Rightarrow> plugin_config list \<Rightarrow> plugin_config list" where
  "effective_plugins collate proxy configs =
     filter (\<lambda>p. plugin_applies p proxy) (attached_plugins collate proxy (build_attachment_index configs))"

definition inapplicable_plugins :: "(string \<Rightarrow> 'k::linorder) \<Rightarrow> proxy_view \<Rightarrow> plugin_config list \<Rightarrow> plugin_config list" where
  "inapplicable_plugins collate proxy configs =
     filter (\<lambda>p. \<not> plugin_applies p proxy) (attached_plugins collate proxy (build_attachment_index configs))"

section \<open>Authentication and access control\<close>

definition local_auth_credential :: "string \<Rightarrow> string option" where
  "local_auth_credential name =
     map_of [(''key_auth'', ''keyauth''), (''jwt_auth'', ''jwt''), (''hmac_auth'', ''hmac_auth''), (''mtls_auth'', ''mtls_auth'')] name"

definition unobservable_local_auth :: "string list" where "unobservable_local_auth = [''basic_auth'']"

definition external_auth_plugins :: "string list" where
  "external_auth_plugins = [''jwks_auth'', ''oauth2_introspection'', ''oidc_relying_party'', ''ldap_auth'', ''spiffe_identity'',
     ''soap_ws_security'']"

definition soap_establishes_identity :: "plugin_config \<Rightarrow> bool" where
  "soap_establishes_identity plugin \<longleftrightarrow>
     pc_name plugin \<noteq> ''soap_ws_security'' \<or>
     list_ex (\<lambda>key. case jfield key (pc_config plugin) of
         Some (JObj fs) \<Rightarrow> map_of fs ''enabled'' \<noteq> Some (JBool False)
       | Some (JArr _) \<Rightarrow> True
       | _ \<Rightarrow> False) [''username_token'', ''x509_signature'', ''saml'']"

text \<open>Names \<open>in\<close> finds on every object, through its prototype.\<close>

definition object_prototype_names :: "string list" where
  "object_prototype_names =
     [''constructor'', ''__defineGetter__'', ''__defineSetter__'', ''hasOwnProperty'', ''__lookupGetter__'',
      ''__lookupSetter__'', ''isPrototypeOf'', ''propertyIsEnumerable'', ''toString'', ''valueOf'', ''__proto__'',
      ''toLocaleString'']"

definition is_auth_plugin :: "plugin_config \<Rightarrow> bool" where
  "is_auth_plugin plugin \<longleftrightarrow>
     pc_name plugin \<in> set unobservable_local_auth \<or>
     local_auth_credential (pc_name plugin) \<noteq> None \<or> pc_name plugin \<in> set object_prototype_names \<or>
     (pc_name plugin \<in> set external_auth_plugins \<and> soap_establishes_identity plugin)"

definition known_plugin_names :: "string list" where
  "known_plugin_names =
     [''key_auth'', ''basic_auth'', ''jwt_auth'', ''jwks_auth'', ''oauth2_introspection'', ''oidc_relying_party'',
      ''ldap_auth'', ''hmac_auth'', ''mtls_auth'', ''soap_ws_security'', ''spiffe_identity'', ''access_control'',
      ''ip_restriction'', ''geo_restriction'', ''bot_detection'', ''waf'', ''opa'', ''security_headers'', ''cors'',
      ''rate_limiting'', ''request_size_limiting'', ''response_size_limiting'', ''tcp_connection_throttle'',
      ''adaptive_concurrency'', ''request_termination'', ''request_deduplication'', ''response_caching'',
      ''request_transformer'', ''response_transformer'', ''compression'', ''body_validator'', ''openapi_validator'',
      ''request_mirror'', ''response_mock'', ''serverless_function'', ''graphql'', ''correlation_id'',
      ''stdout_logging'', ''http_logging'', ''tcp_logging'', ''udp_logging'', ''kafka_logging'', ''loki_logging'',
      ''ws_logging'', ''statsd_logging'', ''prometheus_metrics'', ''otel_tracing'', ''transaction_debugger'',
      ''transaction_log_schema'', ''proxy_alerts'', ''workload_metrics'', ''ai_federation'', ''ai_stream_router'',
      ''ai_prompt_shield'', ''ai_response_guard'', ''ai_request_guard'', ''ai_rate_limiter'', ''ai_token_metrics'',
      ''ai_semantic_cache'', ''ai_semantic_firewall'', ''ai_prompt_compressor'', ''ai_tool_governor'',
      ''ai_transcript_audit'', ''mcp_gateway'', ''a2a_gateway'', ''mesh_authz'', ''mesh_outbound_registry'',
      ''mesh_route_dispatch'', ''sse'', ''grpc_web'', ''grpc_method_router'', ''grpc_deadline'',
      ''ws_message_size_limiting'', ''ws_rate_limiting'', ''ws_frame_logging'', ''udp_rate_limiting'',
      ''api_chargeback'', ''api_chargeback_sink'', ''load_testing'', ''fault_injection'', ''spec_expose'']"

definition is_unmodelled_plugin :: "plugin_config \<Rightarrow> bool" where
  "is_unmodelled_plugin plugin \<longleftrightarrow> pc_name plugin \<notin> set known_plugin_names"

definition is_access_control :: "plugin_config \<Rightarrow> bool" where
  "is_access_control plugin \<longleftrightarrow> pc_name plugin = ''access_control''"

datatype access_decision = Public | Allowed | Denied | Conditional

datatype access_reason =
    Unrecognized_plugins "string list"
  | Acl_without_identity string
  | Triggered_acl_without_identity
  | No_authentication
  | Denies_consumer string string
  | Denies_group string string
  | Allow_list_mismatch string
  | Allow_list_matches string
  | Acl_trigger
  | No_credential
  | Basic_auth_unknown
  | External_identity "string list"
  | Auth_trigger
  | Order_not_exposed
  | Local_credential "string list"
  | Matching_credential "string list"
  | Plugin_trigger
  | External_unmappable
  | Order_not_fully_exposed

definition unidentified_access :: "plugin_config list \<Rightarrow> access_decision \<times> access_reason list" where
  "unidentified_access effective =
     (let unmodelled = filter is_unmodelled_plugin effective;
          acls = filter is_access_control effective;
          untriggered = filter (\<lambda>p. \<not> pc_triggered p) acls in
      if unmodelled \<noteq> [] then (Conditional, [Unrecognized_plugins (map pc_name unmodelled)])
      else if untriggered \<noteq> [] then (Denied, map (\<lambda>p. Acl_without_identity (pc_id p)) untriggered)
      else if acls \<noteq> [] then (Conditional, [Triggered_acl_without_identity])
      else (Public, [No_authentication]))"

definition string_list :: "string json \<Rightarrow> string \<Rightarrow> string list" where
  "string_list config key =
     (case jfield key config of
        Some (JArr vs) \<Rightarrow> List.map_filter (\<lambda>v. case v of JStr s \<Rightarrow> Some s | _ \<Rightarrow> None) vs
      | _ \<Rightarrow> [])"

text \<open>One untriggered access-control plugin: the reason it denies for, or the reasons it adds.\<close>

definition acl_verdict :: "consumer_view \<Rightarrow> plugin_config \<Rightarrow> access_reason + access_reason list" where
  "acl_verdict consumer plugin =
     (let config = pc_config plugin; groups = set (cv_groups consumer);
          denied_group = find (\<lambda>g. g \<in> groups) (string_list config ''disallowed_groups'');
          allowed_consumers = string_list config ''allowed_consumers'';
          allowed_groups = string_list config ''allowed_groups'' in
      if cv_username consumer \<in> set (string_list config ''disallowed_consumers'') then
        Inl (Denies_consumer (pc_id plugin) (cv_username consumer))
      else if denied_group \<noteq> None \<and> denied_group \<noteq> Some [] then
        Inl (Denies_group (pc_id plugin) (the denied_group))
      else if allowed_consumers \<noteq> [] \<or> allowed_groups \<noteq> [] then
        (if cv_username consumer \<notin> set allowed_consumers \<and> \<not> list_ex (\<lambda>g. g \<in> groups) allowed_groups
         then Inl (Allow_list_mismatch (pc_id plugin))
         else Inr [Allow_list_matches (pc_id plugin)])
      else Inr [])"

fun acl_loop :: "consumer_view \<Rightarrow> access_reason list \<Rightarrow> plugin_config list \<Rightarrow> access_reason + access_reason list" where
  "acl_loop consumer reasons [] = Inr reasons"
| "acl_loop consumer reasons (p # ps) =
     (case acl_verdict consumer p of Inl r \<Rightarrow> Inl r | Inr rs \<Rightarrow> acl_loop consumer (reasons @ rs) ps)"

record acl_result =
  acl_denied :: bool
  acl_conditional :: bool
  acl_reasons :: "access_reason list"

definition acl_decision :: "consumer_view \<Rightarrow> plugin_config list \<Rightarrow> acl_result" where
  "acl_decision consumer plugins =
     (let conditional = filter pc_triggered plugins in
      case acl_loop consumer [] (filter (\<lambda>p. \<not> pc_triggered p) plugins) of
        Inl r \<Rightarrow> \<lparr>acl_denied = True, acl_conditional = (conditional \<noteq> []), acl_reasons = [r]\<rparr>
      | Inr rs \<Rightarrow> \<lparr>acl_denied = False, acl_conditional = (conditional \<noteq> []),
                  acl_reasons = (if conditional \<noteq> [] then rs @ [Acl_trigger] else rs)\<rparr>)"

definition has_credential :: "consumer_view \<Rightarrow> string \<Rightarrow> bool" where
  "has_credential consumer type =
     (case jfield type (cv_credentials consumer) of Some (JArr entries) \<Rightarrow> entries \<noteq> [] | _ \<Rightarrow> False)"

definition matches_locally :: "consumer_view \<Rightarrow> plugin_config \<Rightarrow> bool" where
  "matches_locally consumer plugin =
     (case local_auth_credential (pc_name plugin) of Some c \<Rightarrow> has_credential consumer c | None \<Rightarrow> False)"

definition is_external :: "plugin_config \<Rightarrow> bool" where
  "is_external plugin \<longleftrightarrow> pc_name plugin \<in> set external_auth_plugins"

definition is_basic_auth :: "plugin_config \<Rightarrow> bool" where
  "is_basic_auth plugin \<longleftrightarrow> pc_name plugin \<in> set unobservable_local_auth"

definition priority_indeterminate :: "plugin_config list \<Rightarrow> bool" where
  "priority_indeterminate auth \<longleftrightarrow> length auth > 1 \<and> list_ex (\<lambda>p. pc_priority p = None) auth"

definition resolve_consumer_access :: "plugin_config list \<Rightarrow> consumer_view \<Rightarrow> access_decision \<times> access_reason list" where
  "resolve_consumer_access effective consumer =
     (let auth = filter is_auth_plugin effective in
      if auth = [] then unidentified_access effective
      else
        let acl = acl_decision consumer (filter is_access_control effective);
            local = filter (matches_locally consumer) auth;
            external = filter is_external auth;
            unknown_local = (local = [] \<and> list_ex is_basic_auth auth);
            triggered = filter pc_triggered auth;
            indeterminate = priority_indeterminate auth in
        if acl_denied acl then (Denied, acl_reasons acl)
        else if local = [] \<and> external = [] \<and> \<not> unknown_local then (Denied, [No_credential])
        else if unknown_local \<or> external \<noteq> [] \<or> triggered \<noteq> [] \<or> acl_conditional acl \<or> indeterminate then
          (Conditional,
             acl_reasons acl @ (if unknown_local then [Basic_auth_unknown] else []) @
             (if external \<noteq> [] then [External_identity (map pc_name external)] else []) @
             (if triggered \<noteq> [] then [Auth_trigger] else []) @
             (if indeterminate then [Order_not_exposed] else []) @
             (if local \<noteq> [] then [Local_credential (map pc_name local)] else []))
        else (Allowed, acl_reasons acl @ [Matching_credential (map pc_name local)]))"

record policy_analysis =
  pa_effective :: "plugin_config list"
  pa_auth :: "plugin_config list"
  pa_acls :: "plugin_config list"
  pa_problems :: "access_reason list"
  pa_consumers :: "(consumer_view \<times> access_decision \<times> access_reason list) list"
  pa_conditional :: bool
  pa_reasons :: "access_reason list"
  pa_latest :: "string option"

definition latest_update :: "plugin_config list \<Rightarrow> string option" where
  "latest_update plugins =
     (let stamps = sort (filter (\<lambda>t. t \<noteq> []) (List.map_filter pc_updated_at plugins)) in
      if stamps = [] then None else Some (last stamps))"

definition analyze_proxy_policy ::
  "(string \<Rightarrow> 'k::linorder) \<Rightarrow> proxy_view \<Rightarrow> plugin_config list \<Rightarrow> consumer_view list \<Rightarrow> policy_analysis" where
  "analyze_proxy_policy collate proxy configs consumers =
     (let effective = effective_plugins collate proxy configs;
          auth = filter is_auth_plugin effective;
          unidentified = unidentified_access effective;
          reasons =
            (if auth = [] \<and> list_ex is_unmodelled_plugin effective then snd unidentified else []) @
            (if list_ex is_basic_auth auth then [Basic_auth_unknown] else []) @
            (if list_ex pc_triggered effective then [Plugin_trigger] else []) @
            (if list_ex is_external auth then [External_unmappable] else []) @
            (if priority_indeterminate auth then [Order_not_fully_exposed] else []) in
      \<lparr>pa_effective = effective, pa_auth = auth, pa_acls = filter is_access_control effective,
       pa_problems = (if auth = [] \<and> fst unidentified = Denied then snd unidentified else []),
       pa_consumers = map (\<lambda>c. (c, resolve_consumer_access effective c)) consumers,
       pa_conditional = (reasons \<noteq> []), pa_reasons = reasons, pa_latest = latest_update effective\<rparr>)"

section \<open>The collection-wide reading\<close>

text \<open>The filter over the whole collection that the index stands for.\<close>

definition attaches_scoped :: "proxy_view \<Rightarrow> plugin_config \<Rightarrow> bool" where
  "attaches_scoped proxy p \<longleftrightarrow>
     pc_enabled p \<and> pc_scope p \<noteq> Global_scope \<and> pc_id p \<in> set (px_plugins proxy) \<and> eligible proxy p"

definition attaches :: "proxy_view \<Rightarrow> plugin_config list \<Rightarrow> plugin_config \<Rightarrow> bool" where
  "attaches proxy configs p \<longleftrightarrow>
     (if pc_scope p = Global_scope
      then pc_enabled p \<and> \<not> list_ex (\<lambda>q. attaches_scoped proxy q \<and> shadows_global q proxy \<and> pc_name q = pc_name p) configs
      else attaches_scoped proxy p)"

lemma index_globals: "ai_globals (build_attachment_index configs) = filter (\<lambda>p. pc_enabled p \<and> pc_scope p = Global_scope) configs"
proof -
  have "ai_globals (fold (\<lambda>p ix. if \<not> pc_enabled p then ix
                  else if pc_scope p = Global_scope then ix\<lparr>ai_globals := ai_globals ix @ [p]\<rparr>
                  else ix\<lparr>ai_by_id := jm_set (pc_id p) p (ai_by_id ix)\<rparr>) configs ix) =
        ai_globals ix @ filter (\<lambda>p. pc_enabled p \<and> pc_scope p = Global_scope) configs" for ix :: attachment_index
    by (induction configs arbitrary: ix) auto
  then show ?thesis by (simp add: build_attachment_index_def)
qed

text \<open>With distinct ids, an id finds exactly the enabled scoped configuration that carries it.\<close>

lemma index_by_id:
  assumes "distinct (map pc_id configs)"
  shows "jm_get (ai_by_id (build_attachment_index configs)) i = Some p \<longleftrightarrow>
         p \<in> set configs \<and> pc_enabled p \<and> pc_scope p \<noteq> Global_scope \<and> pc_id p = i"
proof -
  have "jm_get (ai_by_id (fold (\<lambda>p ix. if \<not> pc_enabled p then ix
                  else if pc_scope p = Global_scope then ix\<lparr>ai_globals := ai_globals ix @ [p]\<rparr>
                  else ix\<lparr>ai_by_id := jm_set (pc_id p) p (ai_by_id ix)\<rparr>) configs ix)) i = Some p \<longleftrightarrow>
        (p \<in> set configs \<and> pc_enabled p \<and> pc_scope p \<noteq> Global_scope \<and> pc_id p = i) \<or>
        (jm_get (ai_by_id ix) i = Some p \<and>
         (\<forall>q \<in> set configs. pc_enabled q \<and> pc_scope q \<noteq> Global_scope \<longrightarrow> pc_id q \<noteq> i))" for ix :: attachment_index
    using assms
  proof (induction configs arbitrary: ix)
    case Nil
    then show ?case by simp
  next
    case (Cons q qs)
    then show ?case by (cases "pc_id q = i") (force simp: jm_simps image_iff)+
  qed
  then show ?thesis by (simp add: build_attachment_index_def)
qed

lemma in_map_filter: "y \<in> set (List.map_filter f xs) \<longleftrightarrow> (\<exists>x \<in> set xs. f x = Some y)"
  by (induction xs) (auto simp: List.map_filter_simps split: option.splits)

lemma set_scoped_plugins:
  assumes "distinct (map pc_id configs)"
  shows "set (scoped_plugins proxy (build_attachment_index configs)) = {p \<in> set configs. attaches_scoped proxy p}"
  by (auto simp: scoped_plugins_def in_map_filter attaches_scoped_def index_by_id [OF assms])

lemma distinct_scoped_plugins:
  assumes "distinct (map pc_id configs)"
  shows "distinct (scoped_plugins proxy (build_attachment_index configs))"
proof -
  let ?get = "jm_get (ai_by_id (build_attachment_index configs))"
  have id: "pc_id (the (?get i)) = i" if some: "?get i \<noteq> None" for i
  proof -
    obtain p where p: "?get i = Some p" using some by (cases "?get i") simp_all
    then have "pc_id p = i" unfolding index_by_id [OF assms] by simp
    then show ?thesis using p by simp
  qed
  have "inj_on (\<lambda>i. the (?get i)) {i. ?get i \<noteq> None}"
    by (rule inj_on_inverseI [of _ pc_id]) (use id in blast)
  then have "distinct (map (\<lambda>i. the (?get i)) (filter (\<lambda>i. ?get i \<noteq> None) (js_unique (px_plugins proxy))))"
    by (auto simp: distinct_map intro: inj_on_subset)
  then show ?thesis by (simp add: scoped_plugins_def List.map_filter_def comp_def)
qed

lemma mset_attached_plugins:
  assumes "distinct (map pc_id configs)"
  shows "mset (attached_plugins collate proxy (build_attachment_index configs)) = mset (filter (attaches proxy configs) configs)"
proof -
  let ?ix = "build_attachment_index configs"
  let ?scoped = "scoped_plugins proxy ?ix"
  let ?shadowed = "map pc_name (filter (\<lambda>p. shadows_global p proxy) ?scoped)"
  let ?globals = "filter (\<lambda>p. pc_name p \<notin> set ?shadowed) (ai_globals ?ix)"
  have dc: "distinct configs" using assms by (simp add: distinct_map)
  have d: "distinct (?globals @ ?scoped)"
    using dc distinct_scoped_plugins [OF assms] set_scoped_plugins [OF assms, of proxy]
    by (auto simp: index_globals attaches_scoped_def)
  have "set (?globals @ ?scoped) = set (filter (attaches proxy configs) configs)"
    by (auto simp: set_scoped_plugins [OF assms] index_globals attaches_def list_ex_iff attaches_scoped_def image_iff)
  then have "mset (?globals @ ?scoped) = mset (filter (attaches proxy configs) configs)"
    using d dc by (metis distinct_filter set_eq_iff_mset_eq_distinct)
  then show ?thesis by (simp add: attached_plugins_def Let_def)
qed

lemma sorted_attached_plugins:
  "sorted (map (\<lambda>p. (plugin_priority p, collate (pc_id p))) (attached_plugins collate proxy ix))"
  by (simp add: attached_plugins_def Let_def)

lemma mset_filter_attached:
  assumes "distinct (map pc_id configs)"
  shows "mset (filter P (attached_plugins collate proxy (build_attachment_index configs))) =
         mset (filter (\<lambda>p. attaches proxy configs p \<and> P p) configs)"
  by (simp add: mset_attached_plugins [OF assms] filter_filter_mset conj_commute)

lemma mset_effective_plugins:
  assumes "distinct (map pc_id configs)"
  shows "mset (effective_plugins collate proxy configs) =
         mset (filter (\<lambda>p. attaches proxy configs p \<and> plugin_applies p proxy) configs)"
  unfolding effective_plugins_def by (rule mset_filter_attached [OF assms])

text \<open>C31: The attachment index computes the gateway's scope merge. When the configurations of a collection have
  distinct ids, the effective and the inapplicable plugins of a proxy are, in ascending order of priority and
  then of collated id, the two parts (applicable to the proxy's protocol or not) of the same collection-wide
  selection: an enabled global configuration that no attached, shadowing configuration of the same name
  replaces, and an enabled scoped one that the proxy's own list names and that is eligible for it.
\<close>

theorem effective_plugins_are_the_scope_merge:
  assumes "distinct (map pc_id configs)"
  shows "sorted (map (\<lambda>p. (plugin_priority p, collate (pc_id p))) (effective_plugins collate proxy configs)) \<and>
         mset (effective_plugins collate proxy configs) =
           mset (filter (\<lambda>p. attaches proxy configs p \<and> plugin_applies p proxy) configs) \<and>
         sorted (map (\<lambda>p. (plugin_priority p, collate (pc_id p))) (inapplicable_plugins collate proxy configs)) \<and>
         mset (inapplicable_plugins collate proxy configs) =
           mset (filter (\<lambda>p. attaches proxy configs p \<and> \<not> plugin_applies p proxy) configs)"
  unfolding effective_plugins_def inapplicable_plugins_def
  by (intro conjI mset_filter_attached [OF assms] sorted_filter sorted_attached_plugins)

definition demo_configs :: "plugin_config list" where
  "demo_configs =
     [\<lparr>pc_id = ''g1'', pc_name = ''key_auth'', pc_scope = Global_scope, pc_enabled = True, pc_proxy_id = None,
       pc_priority = None, pc_triggered = False, pc_config = JObj [], pc_updated_at = None\<rparr>,
      \<lparr>pc_id = ''g2'', pc_name = ''cors'', pc_scope = Global_scope, pc_enabled = True, pc_proxy_id = None,
       pc_priority = Some 5, pc_triggered = False, pc_config = JObj [], pc_updated_at = None\<rparr>,
      \<lparr>pc_id = ''s1'', pc_name = ''key_auth'', pc_scope = Proxy_scope, pc_enabled = True, pc_proxy_id = Some ''p'',
       pc_priority = Some 1, pc_triggered = False, pc_config = JObj [], pc_updated_at = None\<rparr>]"

definition demo_proxy :: proxy_view where
  "demo_proxy = \<lparr>px_id = ''p'', px_plugins = [''s1''], px_scheme = None\<rparr>"

theorem effective_plugins_are_the_scope_merge_witness:
  "distinct (map pc_id demo_configs) \<and>
   map pc_id (effective_plugins (\<lambda>s. s) demo_proxy demo_configs) = [''s1'', ''g2''] \<and>
   mset (effective_plugins (\<lambda>s. s) demo_proxy demo_configs) =
     mset (filter (\<lambda>p. attaches demo_proxy demo_configs p \<and> plugin_applies p demo_proxy) demo_configs)"
proof -
  have d: "distinct (map pc_id demo_configs)" by (simp add: demo_configs_def)
  have "map pc_id (effective_plugins (\<lambda>s. s) demo_proxy demo_configs) = [''s1'', ''g2'']" by code_simp
  then show ?thesis using d effective_plugins_are_the_scope_merge [OF d, of "\<lambda>s. s" demo_proxy] by blast
qed

section \<open>What a decision rests on\<close>

lemma acl_loop_Inr_iff: "(\<exists>rs. acl_loop consumer reasons ps = Inr rs) \<longleftrightarrow> (\<forall>p \<in> set ps. \<not> isl (acl_verdict consumer p))"
  by (induction ps arbitrary: reasons) (auto split: sum.splits)

definition acl_refuses :: "consumer_view \<Rightarrow> plugin_config \<Rightarrow> bool" where
  "acl_refuses consumer p \<longleftrightarrow> is_access_control p \<and> \<not> pc_triggered p \<and> isl (acl_verdict consumer p)"

lemma acl_denied_iff:
  "acl_denied (acl_decision consumer (filter is_access_control effective)) \<longleftrightarrow> list_ex (acl_refuses consumer) effective"
proof -
  let ?ps = "filter (\<lambda>p. \<not> pc_triggered p) (filter is_access_control effective)"
  have "acl_denied (acl_decision consumer (filter is_access_control effective)) \<longleftrightarrow>
        \<not> (\<exists>rs. acl_loop consumer [] ?ps = Inr rs)"
    by (cases "acl_loop consumer [] ?ps") (auto simp: acl_decision_def Let_def)
  then show ?thesis by (auto simp: acl_loop_Inr_iff list_ex_iff acl_refuses_def)
qed

lemma acl_conditional_iff:
  "acl_conditional (acl_decision consumer (filter is_access_control effective)) \<longleftrightarrow>
   list_ex (\<lambda>p. is_access_control p \<and> pc_triggered p) effective"
  by (auto simp: acl_decision_def Let_def list_ex_iff filter_empty_conv split: sum.splits)

lemma filter_Nil_iff_list_ex: "filter P xs = [] \<longleftrightarrow> \<not> list_ex P xs"
  by (auto simp: filter_empty_conv list_ex_iff)

lemma unidentified_decision:
  "fst (unidentified_access effective) =
     (if list_ex is_unmodelled_plugin effective then Conditional
      else if list_ex (\<lambda>p. is_access_control p \<and> \<not> pc_triggered p) effective then Denied
      else if list_ex is_access_control effective then Conditional
      else Public)"
  by (auto simp: unidentified_access_def Let_def filter_Nil_iff_list_ex list_ex_iff)

lemma matches_locally_auth: "matches_locally consumer p \<Longrightarrow> is_auth_plugin p"
  by (auto simp: matches_locally_def is_auth_plugin_def split: option.splits)

text \<open>The decision as a function of which plugins are there, not of their order.\<close>

lemma identified_decision:
  assumes "list_ex is_auth_plugin effective"
  shows "fst (resolve_consumer_access effective consumer) =
     (let matched = list_ex (matches_locally consumer) effective;
          external = list_ex (\<lambda>p. is_auth_plugin p \<and> is_external p) effective;
          basic = list_ex is_basic_auth effective in
      if list_ex (acl_refuses consumer) effective then Denied
      else if \<not> matched \<and> \<not> external \<and> \<not> basic then Denied
      else if (\<not> matched \<and> basic) \<or> external \<or>
              list_ex (\<lambda>p. (is_auth_plugin p \<or> is_access_control p) \<and> pc_triggered p) effective \<or>
              priority_indeterminate (filter is_auth_plugin effective)
      then Conditional else Allowed)"
proof -
  have ne: "filter is_auth_plugin effective \<noteq> []" using assms by (simp add: filter_Nil_iff_list_ex)
  have local: "filter (matches_locally consumer) (filter is_auth_plugin effective) = [] \<longleftrightarrow>
               \<not> list_ex (matches_locally consumer) effective"
    by (auto simp: filter_empty_conv list_ex_iff dest: matches_locally_auth)
  have external: "filter is_external (filter is_auth_plugin effective) = [] \<longleftrightarrow>
               \<not> list_ex (\<lambda>p. is_auth_plugin p \<and> is_external p) effective"
    by (auto simp: filter_empty_conv list_ex_iff)
  have basic: "list_ex is_basic_auth (filter is_auth_plugin effective) \<longleftrightarrow> list_ex is_basic_auth effective"
    by (auto simp: list_ex_iff is_basic_auth_def is_auth_plugin_def)
  have triggered: "filter pc_triggered (filter is_auth_plugin effective) = [] \<longleftrightarrow>
               \<not> list_ex (\<lambda>p. is_auth_plugin p \<and> pc_triggered p) effective"
    by (auto simp: filter_empty_conv list_ex_iff)
  have split: "list_ex (\<lambda>p. (is_auth_plugin p \<or> is_access_control p) \<and> pc_triggered p) effective \<longleftrightarrow>
      list_ex (\<lambda>p. is_auth_plugin p \<and> pc_triggered p) effective \<or>
      list_ex (\<lambda>p. is_access_control p \<and> pc_triggered p) effective"
    by (auto simp: list_ex_iff)
  show ?thesis
    unfolding resolve_consumer_access_def Let_def split
    by (simp only: ne local external basic triggered acl_denied_iff acl_conditional_iff not_not if_False fst_conv
        if_distrib [of fst] disj_assoc disj_comms cong: if_cong) (auto simp: Let_def)
qed

definition running :: "proxy_view \<Rightarrow> plugin_config list \<Rightarrow> plugin_config set" where
  "running proxy configs = {p \<in> set configs. attaches proxy configs p \<and> plugin_applies p proxy}"

lemma set_effective_plugins:
  assumes "distinct (map pc_id configs)"
  shows "set (effective_plugins collate proxy configs) = running proxy configs"
  using mset_eq_setD [OF mset_effective_plugins [OF assms, of collate proxy]] by (auto simp: running_def)

lemma distinct_effective_plugins:
  assumes "distinct (map pc_id configs)"
  shows "distinct (effective_plugins collate proxy configs)"
  using mset_effective_plugins [OF assms, of collate proxy] assms
  by (metis distinct_filter distinct_map mset_eq_imp_distinct_iff)

lemma indeterminate_iff:
  assumes "distinct effective"
  shows "priority_indeterminate (filter is_auth_plugin effective) \<longleftrightarrow>
         (\<exists>p \<in> set effective. \<exists>q \<in> set effective. p \<noteq> q \<and> is_auth_plugin p \<and> is_auth_plugin q \<and> pc_priority p = None)"
proof -
  let ?auth = "filter is_auth_plugin effective"
  have d: "distinct ?auth" using assms by simp
  have "\<exists>q \<in> set ?auth. p \<noteq> q" if "length ?auth > 1" "p \<in> set ?auth" for p
  proof (rule ccontr)
    assume "\<not> (\<exists>q \<in> set ?auth. p \<noteq> q)"
    then have "set ?auth \<subseteq> {p}" by auto
    then have "card (set ?auth) \<le> 1" using card_mono [of "{p}"] by simp
    then show False using that distinct_card [OF d] by simp
  qed
  moreover have "length ?auth > 1" if "p \<in> set ?auth" "q \<in> set ?auth" "p \<noteq> q" for p q
  proof -
    have "card {p, q} \<le> card (set ?auth)" using that by (intro card_mono) auto
    then show ?thesis using that distinct_card [OF d] by simp
  qed
  ultimately show ?thesis unfolding priority_indeterminate_def list_ex_iff by fastforce
qed

text \<open>What may identify the consumer: a credential the console sees, one it cannot see, or an outside identity.\<close>

definition may_identify :: "consumer_view \<Rightarrow> plugin_config \<Rightarrow> bool" where
  "may_identify consumer p \<longleftrightarrow>
     matches_locally consumer p \<or> is_basic_auth p \<or> (is_auth_plugin p \<and> is_external p)"

text \<open>C32: The access shown for a consumer depends on which plugins the gateway runs for the proxy and not on their
  order. "Allowed" is shown exactly when some running plugin authenticates the consumer by a credential it is
  seen to have, no running access control refuses it, nothing that authenticates or authorizes is triggered
  per request or maps outside identities, and no two authentication plugins run in an order that is not known.
  "Public" is shown exactly when nothing running authenticates, authorizes or is outside the catalog. "Denied"
  is shown exactly when, with a recognized authentication plugin running, an untriggered access control refuses the
  consumer or no recognized plugin may identify it; without one, when an untriggered access control runs and nothing is outside
  the catalog. So without a recognized authentication plugin, a plugin outside the catalog makes the decision "Conditional".
  Beside one it does not: it is ignored, and "Allowed" and "Denied" are shown as if it were not there, against
  what the comment on \<open>isUnmodelledPlugin\<close> says. There the decision shown is not a justified one
  (\<open>unmodelled_plugin_ignored_beside_auth\<close> shows a consumer denied whom the unrecognized plugin may identify).
\<close>

theorem access_shown_by_running_plugins:
  assumes ids: "distinct (map pc_id configs)"
    and shown: "(consumer, decision, reasons) \<in> set (pa_consumers (analyze_proxy_policy collate proxy configs consumers))"
  shows "(decision = Allowed \<longleftrightarrow>
            (\<exists>p \<in> running proxy configs. matches_locally consumer p) \<and>
            (\<forall>p \<in> running proxy configs. \<not> acl_refuses consumer p \<and> \<not> (is_auth_plugin p \<and> is_external p) \<and>
               ((is_auth_plugin p \<or> is_access_control p) \<longrightarrow> \<not> pc_triggered p) \<and>
               (\<forall>q \<in> running proxy configs. p \<noteq> q \<and> is_auth_plugin p \<and> is_auth_plugin q \<longrightarrow> pc_priority p \<noteq> None))) \<and>
         (decision = Public \<longleftrightarrow>
            (\<forall>p \<in> running proxy configs. \<not> is_auth_plugin p \<and> \<not> is_access_control p \<and> \<not> is_unmodelled_plugin p)) \<and>
         (decision = Denied \<longleftrightarrow>
            (if \<exists>p \<in> running proxy configs. is_auth_plugin p
             then (\<exists>p \<in> running proxy configs. acl_refuses consumer p) \<or>
                  (\<forall>p \<in> running proxy configs. \<not> may_identify consumer p)
             else (\<exists>p \<in> running proxy configs. is_access_control p \<and> \<not> pc_triggered p) \<and>
                  (\<forall>p \<in> running proxy configs. \<not> is_unmodelled_plugin p))) \<and>
         ((\<exists>p \<in> running proxy configs. is_unmodelled_plugin p) \<and> (\<forall>p \<in> running proxy configs. \<not> is_auth_plugin p) \<longrightarrow>
            decision = Conditional)"
proof -
  let ?eff = "effective_plugins collate proxy configs"
  have set: "set ?eff = running proxy configs" by (rule set_effective_plugins [OF ids])
  have dist: "distinct ?eff" by (rule distinct_effective_plugins [OF ids])
  have d: "decision = fst (resolve_consumer_access ?eff consumer)"
    using shown by (auto simp: analyze_proxy_policy_def Let_def) (metis fst_conv)
  have known: "(decision = Allowed \<longleftrightarrow>
            (\<exists>p \<in> running proxy configs. matches_locally consumer p) \<and>
            (\<forall>p \<in> running proxy configs. \<not> acl_refuses consumer p \<and> \<not> (is_auth_plugin p \<and> is_external p) \<and>
               ((is_auth_plugin p \<or> is_access_control p) \<longrightarrow> \<not> pc_triggered p) \<and>
               (\<forall>q \<in> running proxy configs. p \<noteq> q \<and> is_auth_plugin p \<and> is_auth_plugin q \<longrightarrow> pc_priority p \<noteq> None))) \<and>
         (decision = Public \<longleftrightarrow>
            (\<forall>p \<in> running proxy configs. \<not> is_auth_plugin p \<and> \<not> is_access_control p \<and> \<not> is_unmodelled_plugin p)) \<and>
         (decision = Denied \<longleftrightarrow>
            (if \<exists>p \<in> running proxy configs. is_auth_plugin p
             then (\<exists>p \<in> running proxy configs. acl_refuses consumer p) \<or>
                  (\<forall>p \<in> running proxy configs. \<not> may_identify consumer p)
             else (\<exists>p \<in> running proxy configs. is_access_control p \<and> \<not> pc_triggered p) \<and>
                  (\<forall>p \<in> running proxy configs. \<not> is_unmodelled_plugin p)))"
  proof (cases "list_ex is_auth_plugin ?eff")
    case True
    have match: "matches_locally consumer p \<Longrightarrow> is_auth_plugin p" for p by (rule matches_locally_auth)
    have basic: "is_basic_auth p \<Longrightarrow> is_auth_plugin p" for p by (simp add: is_basic_auth_def is_auth_plugin_def)
    show ?thesis
      unfolding d identified_decision [OF True] Let_def indeterminate_iff [OF dist] list_ex_iff set may_identify_def
      using True [unfolded list_ex_iff set] by auto
  next
    case False
    then have "filter is_auth_plugin ?eff = []" by (simp add: filter_Nil_iff_list_ex)
    then have "fst (resolve_consumer_access ?eff consumer) = fst (unidentified_access ?eff)"
      by (simp add: resolve_consumer_access_def)
    then show ?thesis
      unfolding d using False matches_locally_auth unfolding unidentified_decision list_ex_iff set by auto
  qed
  have "decision = Conditional" if "\<exists>p \<in> running proxy configs. is_unmodelled_plugin p" "\<forall>p \<in> running proxy configs. \<not> is_auth_plugin p"
  proof -
    have "filter is_auth_plugin ?eff = []" "list_ex is_unmodelled_plugin ?eff"
      using that by (auto simp: filter_empty_conv list_ex_iff set)
    then show ?thesis by (simp add: d resolve_consumer_access_def unidentified_decision)
  qed
  with known show ?thesis by blast
qed

definition demo_consumer :: consumer_view where
  "demo_consumer = \<lparr>cv_username = ''ann'', cv_groups = [], cv_credentials = JObj [(''keyauth'', JArr [JNull])]\<rparr>"

theorem access_shown_by_running_plugins_witness:
  "(demo_consumer, Allowed, [Matching_credential [''key_auth'']]) \<in>
     set (pa_consumers (analyze_proxy_policy (\<lambda>s. s) demo_proxy demo_configs [demo_consumer])) \<and>
   (\<exists>p \<in> running demo_proxy demo_configs. matches_locally demo_consumer p)"
proof -
  have d: "distinct (map pc_id demo_configs)" by (simp add: demo_configs_def)
  have "pa_consumers (analyze_proxy_policy (\<lambda>s. s) demo_proxy demo_configs [demo_consumer]) =
        [(demo_consumer, Allowed, [Matching_credential [''key_auth'']])]" by code_simp
  then have m: "(demo_consumer, Allowed, [Matching_credential [''key_auth'']]) \<in>
     set (pa_consumers (analyze_proxy_policy (\<lambda>s. s) demo_proxy demo_configs [demo_consumer]))" by simp
  show ?thesis using m access_shown_by_running_plugins [OF d m] by blast
qed

text \<open>
  A plugin outside the catalog keeps the decision open only while no recognized plugin authenticates: beside
  one, a consumer without its credential is shown as denied, although the unrecognized plugin may identify it.
\<close>

lemma unmodelled_plugin_ignored_beside_auth:
  "let custom = \<lparr>pc_id = ''c'', pc_name = ''my_auth'', pc_scope = Global_scope, pc_enabled = True,
                 pc_proxy_id = None, pc_priority = Some 1, pc_triggered = False, pc_config = JObj [],
                 pc_updated_at = None\<rparr>;
       shown = analyze_proxy_policy (\<lambda>s. s) demo_proxy (custom # demo_configs)
                 [demo_consumer\<lparr>cv_credentials := JObj []\<rparr>] in
   is_unmodelled_plugin custom \<and> custom \<in> set (pa_effective shown) \<and>
   map (fst \<circ> snd) (pa_consumers shown) = [Denied] \<and> \<not> pa_conditional shown"
  by code_simp

end
