(* ===== verification/TrustBundle.thy ===== *)
theory TrustBundle
  imports Json JsString
begin

text \<open>
  Reading the trust bundle the gateway is verified with (\<open>server/ca.ts\<close>): from a path confined to a root, through one
  bounded read of an unchanging regular file, to certificates and comments only. What the file system answers at
  each call, the UTF-8 decoder, the certificate parser and the digest are arguments; texts are lists of
  UTF-16 code units. A load also tells what it held in its buffer, whether it succeeded or not.
\<close>

section \<open>Paths\<close>

definition path_segments :: "string \<Rightarrow> string list" where
  "path_segments p = filter (\<lambda>s. s \<noteq> []) (split_on CHR ''/'' p)"

fun strip_common :: "'a list \<Rightarrow> 'a list \<Rightarrow> 'a list \<times> 'a list" where
  "strip_common (x # xs) (y # ys) = (if x = y then strip_common xs ys else (x # xs, y # ys))"
| "strip_common xs ys = (xs, ys)"

text \<open>\<open>relative\<close> and \<open>dirname\<close> of \<open>node:path\<close> on canonical absolute paths.\<close>

definition relative_path :: "string \<Rightarrow> string \<Rightarrow> string" where
  "relative_path base candidate =
     (let (up, down) = strip_common (path_segments base) (path_segments candidate) in
      join_with CHR ''/'' (replicate (length up) ''..'' @ down))"

definition dirname :: "string \<Rightarrow> string" where
  "dirname p = CHR ''/'' # join_with CHR ''/'' (butlast (path_segments p))"

definition is_within_root :: "string \<Rightarrow> string \<Rightarrow> bool" where
  "is_within_root candidate base =
     (let rel = relative_path base candidate in
      rel = [] \<or> (\<not> starts_with ''../'' rel \<and> rel \<noteq> ''..''))"

section \<open>Reading a trust bundle\<close>

definition MAX_CA_BUNDLE_BYTES :: nat where "MAX_CA_BUNDLE_BYTES = 1024 * 1024"

record ca_bundle =
  cb_path :: string
  cb_pem :: utf16
  cb_fingerprint :: utf16

record file_stat =
  fs_regular :: bool
  fs_dev :: nat
  fs_ino :: nat
  fs_size :: nat
  fs_mtime :: nat
  fs_ctime :: nat

text \<open>What the calls of one load answer; \<open>None\<close> is a call that throws. \<open>ld_chunks\<close> are the successive reads, an
  empty one at the end of the file.\<close>

record ca_load =
  ld_realpath :: "string \<Rightarrow> string option"
  ld_before :: "file_stat option"
  ld_chunks :: "nat list list"
  ld_after :: "file_stat option"
  ld_realpath_after :: "string \<Rightarrow> string option"
  ld_path_stat :: "file_stat option"

record crypto =
  cr_utf8 :: "nat list \<Rightarrow> utf16"
  cr_certificate :: "utf16 \<Rightarrow> bool"
  cr_sha256 :: "utf16 \<Rightarrow> utf16"

datatype ca_error = Not_readable | Outside_root | Not_regular | Bad_size | Changed_meanwhile | Bad_pem

fun read_loop :: "nat \<Rightarrow> nat list \<Rightarrow> nat list list \<Rightarrow> nat list" where
  "read_loop capacity acc [] = acc"
| "read_loop capacity acc (c # cs) =
     (if length acc \<ge> capacity \<or> c = [] then acc
      else read_loop capacity (acc @ take (capacity - length acc) c) cs)"

definition pem_begin :: utf16 where "pem_begin = cps ''-----BEGIN CERTIFICATE-----''"
definition pem_end :: utf16 where "pem_end = cps ''-----END CERTIFICATE-----''"

definition text_starts :: "utf16 \<Rightarrow> utf16 \<Rightarrow> bool" where
  "text_starts p s \<longleftrightarrow> take (length p) s = p"

text \<open>The shortest text up to and including the next end marker, and what follows it.\<close>

fun up_to_end :: "utf16 \<Rightarrow> (utf16 \<times> utf16) option" where
  "up_to_end [] = None"
| "up_to_end (c # s) =
     (if text_starts pem_end (c # s) then Some (pem_end, drop (length pem_end) (c # s))
      else map_option (\<lambda>(a, b). (c # a, b)) (up_to_end s))"

lemma text_starts_split: "text_starts p s \<Longrightarrow> s = p @ drop (length p) s"
  unfolding text_starts_def by (metis append_take_drop_id)

lemma up_to_end_parts: "up_to_end s = Some (a, b) \<Longrightarrow> s = a @ b \<and> (\<exists>body. a = body @ pem_end)"
proof (induction s arbitrary: a)
  case (Cons c s)
  show ?case
  proof (cases "text_starts pem_end (c # s)")
    case True
    then show ?thesis using Cons.prems text_starts_split [OF True] by auto
  next
    case False
    then obtain a' where a': "up_to_end s = Some (a', b)" "a = c # a'" using Cons.prems by auto
    then obtain body where "s = a' @ b" "a' = body @ pem_end" using Cons.IH by blast
    then have "c # s = a @ b" "a = (c # body) @ pem_end" using a'(2) by simp_all
    then show ?thesis by blast
  qed
qed simp

text \<open>The certificate blocks of a text, and the text without them.\<close>

function pem_blocks :: "utf16 \<Rightarrow> utf16 list \<times> utf16" where
  "pem_blocks s =
     (case s of
        [] \<Rightarrow> ([], [])
      | c # rest \<Rightarrow>
          (case (if text_starts pem_begin s then up_to_end (drop (length pem_begin) s) else None) of
             Some (a, b) \<Rightarrow> (let (bs, r) = pem_blocks b in ((pem_begin @ a) # bs, r))
           | None \<Rightarrow> (let (bs, r) = pem_blocks rest in (bs, c # r))))"
  by pat_completeness auto
termination
proof (relation "measure length")
  fix s c rest x a b
  assume s: "s = c # rest"
    and x: "(if text_starts pem_begin s then up_to_end (drop (length pem_begin) s) else None) = Some x" "(a, b) = x"
  then have "drop (length pem_begin) s = a @ b" by (auto split: if_splits dest: up_to_end_parts)
  then have "length b \<le> length s - length pem_begin" by (metis le_add2 length_append length_drop)
  then show "(b, s) \<in> measure length" using s by (simp add: pem_begin_def cps_def)
qed auto

declare pem_blocks.simps [simp del]

text \<open>The white space of \<open>\s\<close> and \<open>trim\<close>, and the ends of lines.\<close>

definition text_space :: "nat \<Rightarrow> bool" where
  "text_space c \<longleftrightarrow>
     (9 \<le> c \<and> c \<le> 13) \<or> c \<in> {32, 160, 5760, 8232, 8233, 8239, 8287, 12288, 65279} \<or> (8192 \<le> c \<and> c \<le> 8202)"

definition line_end :: "nat \<Rightarrow> bool" where
  "line_end c \<longleftrightarrow> c \<in> {10, 13, 8232, 8233}"

lemma no_line_end: "(\<forall>x \<in> set u. \<not> line_end x) \<longleftrightarrow> set u \<inter> {10, 13, 8232, 8233} = {}"
  by (auto simp: line_end_def)

text \<open>Nothing is left once comment lines are removed and the rest is trimmed.\<close>

definition only_comments :: "utf16 \<Rightarrow> bool" where
  "only_comments s \<longleftrightarrow>
     list_all (\<lambda>l. dropWhile text_space l = [] \<or> hd (dropWhile text_space l) = 35)
       (split_on 10 (map (\<lambda>c. if line_end c then 10 else c) s))"

definition stable_read :: "file_stat \<Rightarrow> file_stat \<Rightarrow> file_stat \<Rightarrow> nat list \<Rightarrow> bool" where
  "stable_read before after path_stat contents \<longleftrightarrow>
     fs_dev after = fs_dev before \<and> fs_ino after = fs_ino before \<and>
     fs_dev path_stat = fs_dev before \<and> fs_ino path_stat = fs_ino before \<and>
     length contents = fs_size before \<and> fs_size after = fs_size before \<and>
     fs_mtime after = fs_mtime before \<and> fs_ctime after = fs_ctime before"

definition read_bundle :: "crypto \<Rightarrow> string \<Rightarrow> nat list \<Rightarrow> ca_error + ca_bundle" where
  "read_bundle cr path contents =
     (let pem = cr_utf8 cr contents; (blocks, remainder) = pem_blocks pem in
      if blocks = [] \<or> \<not> only_comments remainder then Inl Bad_pem
      else if \<not> list_all (cr_certificate cr) blocks then Inl Bad_pem
      else Inr \<lparr>cb_path = path, cb_pem = pem, cb_fingerprint = cr_sha256 cr pem\<rparr>)"

text \<open>A load, with the bytes it held in its buffer.\<close>

definition run_load :: "crypto \<Rightarrow> string \<Rightarrow> string option \<Rightarrow> nat \<Rightarrow> ca_load \<Rightarrow> (ca_error + ca_bundle) \<times> nat list" where
  "run_load cr requested configured_root max_bytes ld =
     (case ld_realpath ld requested of
        None \<Rightarrow> (Inl Not_readable, [])
      | Some path \<Rightarrow>
     (case ld_realpath ld (case configured_root of Some r \<Rightarrow> r | None \<Rightarrow> dirname path) of
        None \<Rightarrow> (Inl Not_readable, [])
      | Some base \<Rightarrow>
          if \<not> is_within_root path base then (Inl Outside_root, [])
          else case ld_before ld of
            None \<Rightarrow> (Inl Not_readable, [])
          | Some before \<Rightarrow>
              if \<not> fs_regular before then (Inl Not_regular, [])
              else if fs_size before = 0 \<or> max_bytes < fs_size before then (Inl Bad_size, [])
              else let contents = read_loop (fs_size before + 1) [] (ld_chunks ld) in
                (case (ld_after ld, ld_realpath_after ld requested) of
                   (Some after, Some path_after) \<Rightarrow>
                     (case (ld_realpath_after ld (case configured_root of Some r \<Rightarrow> r | None \<Rightarrow> dirname path_after), ld_path_stat ld) of
                        (Some root_after, Some path_stat) \<Rightarrow>
                          if contents = [] \<or> max_bytes < length contents then (Inl Bad_size, contents)
                          else if path_after \<noteq> path \<or> root_after \<noteq> base \<or> \<not> stable_read before after path_stat contents
                          then (Inl Changed_meanwhile, contents)
                          else (read_bundle cr path contents, contents)
                      | _ \<Rightarrow> (Inl Not_readable, contents))
                 | _ \<Rightarrow> (Inl Not_readable, contents))))"

definition load_ca_bundle :: "crypto \<Rightarrow> string \<Rightarrow> string option \<Rightarrow> nat \<Rightarrow> ca_load \<Rightarrow> ca_error + ca_bundle" where
  "load_ca_bundle cr requested configured_root max_bytes ld = fst (run_load cr requested configured_root max_bytes ld)"

section \<open>What a bundle is\<close>

lemma strip_common_parts: "strip_common xs ys = (u, d) \<Longrightarrow> \<exists>c. xs = c @ u \<and> ys = c @ d"
proof (induction xs ys rule: strip_common.induct)
  case (1 x xs y ys)
  show ?case
  proof (cases "x = y")
    case True
    then obtain c where "xs = c @ u" "ys = c @ d" using 1 by auto
    then show ?thesis using True by (intro exI [of _ "x # c"]) simp
  qed (use 1 in auto)
qed auto

lemma strip_common_prefix: "strip_common xs ys = ([], d) \<longleftrightarrow> ys = xs @ d"
proof
  show "strip_common xs ys = ([], d) \<Longrightarrow> ys = xs @ d" using strip_common_parts by fastforce
  show "ys = xs @ d \<Longrightarrow> strip_common xs ys = ([], d)"
  proof (induction xs arbitrary: ys)
    case Nil
    then show ?case by (cases ys) auto
  qed auto
qed

lemma within_root_iff:
  assumes "''..'' \<notin> set (path_segments candidate)"
  shows "is_within_root candidate base \<longleftrightarrow> (\<exists>d. path_segments candidate = path_segments base @ d)"
proof -
  obtain u d where ud: "strip_common (path_segments base) (path_segments candidate) = (u, d)" by fastforce
  then obtain c where c: "path_segments base = c @ u" "path_segments candidate = c @ d" using strip_common_parts by blast
  have free: "CHR ''/'' \<notin> set s" if "s \<in> set (path_segments candidate)" for s
    using that split_on_pieces [of s "CHR ''/''" candidate] by (auto simp: path_segments_def)
  have rel: "relative_path base candidate = join_with CHR ''/'' (replicate (length u) ''..'' @ d)"
    using ud by (simp add: relative_path_def)
  show ?thesis
  proof (cases u)
    case Nil
    have split: "split_on CHR ''/'' (join_with CHR ''/'' d) = d" if "d \<noteq> []"
      using that free c(2) by (intro split_join) auto
    have "\<not> starts_with ''../'' (join_with CHR ''/'' d)"
    proof
      assume "starts_with ''../'' (join_with CHR ''/'' d)"
      then obtain t where t: "join_with CHR ''/'' d = ''..'' @ CHR ''/'' # t" by (auto simp: starts_with_iff)
      then have "d \<noteq> []" by auto
      then have "d = ''..'' # split_on CHR ''/'' t" using split t split_on_append [of "CHR ''/''" "''..''" t] by simp
      then show False using assms c(2) by simp
    qed
    moreover have "join_with CHR ''/'' d \<noteq> ''..''"
    proof
      assume j: "join_with CHR ''/'' d = ''..''"
      then have "d \<noteq> []" by auto
      then have "d = [''..'']" using split j by simp
      then show False using assms c(2) by simp
    qed
    ultimately have "is_within_root candidate base" using Nil rel by (simp add: is_within_root_def)
    then show ?thesis using c Nil by auto
  next
    case (Cons x u')
    have "path_segments candidate \<noteq> path_segments base @ e" for e
    proof
      assume "path_segments candidate = path_segments base @ e"
      then have "strip_common (path_segments base) (path_segments candidate) = ([], e)" by (simp add: strip_common_prefix)
      then show False using ud Cons by simp
    qed
    moreover have "\<not> is_within_root candidate base"
    proof -
      have "relative_path base candidate = ''..'' \<or> starts_with ''../'' (relative_path base candidate)"
        unfolding rel Cons by (cases "replicate (length u') ''..'' @ d") (auto simp: starts_with_def)
      then show ?thesis by (auto simp: is_within_root_def starts_with_def)
    qed
    ultimately show ?thesis by auto
  qed
qed

lemma load_parts:
  assumes "load_ca_bundle cr requested configured_root max_bytes ld = Inr b"
  obtains path base before after path_stat contents where "ld_realpath ld requested = Some path"
      "ld_realpath ld (case configured_root of Some r \<Rightarrow> r | None \<Rightarrow> dirname path) = Some base"
      "is_within_root path base" "ld_before ld = Some before" "fs_regular before" "fs_size before \<noteq> 0" "fs_size before \<le> max_bytes"
      "ld_after ld = Some after" "ld_realpath_after ld requested = Some path" "ld_path_stat ld = Some path_stat"
      "ld_realpath_after ld (case configured_root of Some r \<Rightarrow> r | None \<Rightarrow> dirname path) = Some base"
      "contents = read_loop (fs_size before + 1) [] (ld_chunks ld)"
      "stable_read before after path_stat contents" "read_bundle cr path contents = Inr b"
    using assms unfolding load_ca_bundle_def run_load_def Let_def
    by (auto split: option.splits if_splits)

lemma load_digest:
  assumes "load_ca_bundle cr requested configured_root max_bytes ld = Inr b"
  shows "cb_fingerprint b = cr_sha256 cr (cb_pem b)"
proof -
  obtain path contents where "read_bundle cr path contents = Inr b" using load_parts [OF assms] by metis
  then show ?thesis by (auto simp: read_bundle_def Let_def split: prod.splits if_splits)
qed

lemma read_loop_bounded: "length acc \<le> capacity \<Longrightarrow> length (read_loop capacity acc cs) \<le> capacity"
  by (induction capacity acc cs rule: read_loop.induct) auto

text \<open>A read that fills less than the buffer ends at the end of the file and cuts nothing off.\<close>

lemma read_loop_whole:
  "length acc \<le> capacity \<Longrightarrow> length (read_loop capacity acc cs) < capacity \<Longrightarrow>
     read_loop capacity acc cs = acc @ concat (takeWhile (\<lambda>c. c \<noteq> []) cs)"
proof (induction capacity acc cs rule: read_loop.induct)
  case (2 capacity acc c cs)
  show ?case
  proof (cases "length acc \<ge> capacity \<or> c = []")
    case True
    then show ?thesis using 2 by auto
  next
    case False
    let ?acc = "acc @ take (capacity - length acc) c"
    have fits: "length ?acc \<le> capacity" using False by (auto simp: min_def)
    have step: "read_loop capacity acc (c # cs) = read_loop capacity ?acc cs" using False by simp
    have "length ?acc < capacity"
    proof (rule ccontr)
      assume "\<not> length ?acc < capacity"
      then have full: "length ?acc \<ge> capacity" by (simp only: not_less)
      then have "read_loop capacity ?acc cs = ?acc" by (cases cs) (simp_all only: read_loop.simps if_True simp_thms)
      then show False using 2(3) step full by simp
    qed
    then have "take (capacity - length acc) c = c" by (cases "length c \<le> capacity - length acc") (auto simp: min_def split: if_splits)
    then show ?thesis using 2(1) [OF False fits] 2(3) step False by simp
  qed
qed simp

lemma pem_blocks_parts:
  "\<exists>parts rest. s = concat (map (\<lambda>(r, b). r @ b) parts) @ rest \<and> map snd parts = fst (pem_blocks s) \<and>
     concat (map fst parts) @ rest = snd (pem_blocks s) \<and> (\<forall>(r, b) \<in> set parts. \<exists>body. b = pem_begin @ body @ pem_end)"
proof (induction s rule: pem_blocks.induct)
  case (1 s)
  show ?case
  proof (cases s)
    case Nil
    then show ?thesis by (intro exI [of _ "[]"]) (simp add: pem_blocks.simps)
  next
    case (Cons c cs)
    define found where "found = (if text_starts pem_begin s then up_to_end (drop (length pem_begin) s) else None)"
    show ?thesis
    proof (cases found)
      case None
      then obtain parts rest where p: "cs = concat (map (\<lambda>(r, b). r @ b) parts) @ rest" "map snd parts = fst (pem_blocks cs)"
        "concat (map fst parts) @ rest = snd (pem_blocks cs)" "\<forall>(r, b) \<in> set parts. \<exists>body. b = pem_begin @ body @ pem_end"
        using 1(1) [OF Cons] unfolding found_def by blast
      have blocks: "pem_blocks s = (fst (pem_blocks cs), c # snd (pem_blocks cs))"
        using None Cons unfolding found_def by (subst pem_blocks.simps) (simp add: split_beta)
      show ?thesis
      proof (cases parts)
        case Nil
        then show ?thesis using p Cons blocks by (intro exI [of _ "[]"] exI [of _ "c # rest"]) simp
      next
        case p': (Cons rb more)
        obtain r0 b0 where "rb = (r0, b0)" by (cases rb)
        then show ?thesis using p p' Cons blocks
          by (intro exI [of _ "(c # r0, b0) # more"] exI [of _ rest]) auto
      qed
    next
      case (Some ab)
      obtain a b where ab: "ab = (a, b)" by (cases ab)
      then have starts: "text_starts pem_begin s" and up: "up_to_end (drop (length pem_begin) s) = Some (a, b)"
        using Some by (auto simp: found_def split: if_splits)
      obtain body where s: "s = pem_begin @ a @ b" "a = body @ pem_end"
        using text_starts_split [OF starts] up_to_end_parts [OF up] by auto
      have "\<exists>parts rest. b = concat (map (\<lambda>(r, b). r @ b) parts) @ rest \<and> map snd parts = fst (pem_blocks b) \<and>
          concat (map fst parts) @ rest = snd (pem_blocks b) \<and> (\<forall>(r, b) \<in> set parts. \<exists>body. b = pem_begin @ body @ pem_end)"
        using 1(2) [OF Cons _ refl] Some ab unfolding found_def by blast
      then obtain parts rest where p: "b = concat (map (\<lambda>(r, b). r @ b) parts) @ rest" "map snd parts = fst (pem_blocks b)"
        "concat (map fst parts) @ rest = snd (pem_blocks b)" "\<forall>(r, b) \<in> set parts. \<exists>body. b = pem_begin @ body @ pem_end"
        by blast
      have blocks: "pem_blocks s = ((pem_begin @ a) # fst (pem_blocks b), snd (pem_blocks b))"
        using Some ab Cons unfolding found_def by (subst pem_blocks.simps) (simp add: split_beta)
      show ?thesis using p s blocks
        by (intro exI [of _ "([], pem_begin @ a) # parts"] exI [of _ rest]) auto
    qed
  qed
qed

lemma split_on_sep: "split_on c (u @ c # v) = split_on c u @ split_on c v"
  by (induction u) (auto split: list.split simp: neq_Nil_conv)

text \<open>Every piece between two separators is a piece of the split.\<close>

lemma piece_in_split:
  assumes "c \<notin> set p" "u = [] \<or> last u = c" "v = [] \<or> hd v = c"
  shows "p \<in> set (split_on c (u @ p @ v))"
proof -
  have tail: "split_on c (p @ v) = p # (case v of [] \<Rightarrow> [] | _ # w \<Rightarrow> split_on c w)"
    using assms(1,3) by (cases v) (simp_all add: split_on_free split_on_append)
  show ?thesis
  proof (cases "u = []")
    case True
    then show ?thesis using tail by simp
  next
    case False
    then obtain w where w: "u = w @ [c]" using assms(2) by (metis append_butlast_last_id)
    show ?thesis using tail by (simp add: w split_on_sep)
  qed
qed

lemma last_line:
  "\<exists>before line. u = before @ line \<and> c \<notin> set line \<and> (before = [] \<or> last before = c)"
proof (induction u rule: rev_induct)
  case (snoc x u)
  then obtain before line where u: "u = before @ line" "c \<notin> set line" "before = [] \<or> last before = c" by blast
  show ?case
  proof (cases "x = c")
    case True
    then show ?thesis by (intro exI [of _ "u @ [x]"] exI [of _ "[]"]) simp
  next
    case False
    then show ?thesis using u by (intro exI [of _ before] exI [of _ "line @ [x]"]) auto
  qed
qed simp

text \<open>In what is left beside the certificates, every character but white space is a \<open>#\<close> or follows one on its line.\<close>

lemma only_comments_reads:
  assumes "only_comments s" "s = u @ c # v" "\<not> text_space c"
  shows "\<exists>u1 u2. u @ [c] = u1 @ 35 # u2 \<and> (\<forall>x \<in> set u2. \<not> line_end x)"
proof -
  let ?f = "\<lambda>c. if line_end c then 10 else c :: nat"
  have space: "text_space c \<longleftrightarrow> text_space (?f c)" for c by (auto simp: text_space_def line_end_def)
  have c: "?f c = c" "c \<noteq> 10" "\<not> line_end c" using assms(3) by (auto simp: text_space_def line_end_def)
  obtain before line where u: "map ?f u = before @ line" "10 \<notin> set line" "before = [] \<or> last before = 10"
    using last_line [of "map ?f u" 10] by blast
  define rest where "rest = takeWhile (\<lambda>x. x \<noteq> 10) (map ?f v)"
  define later where "later = dropWhile (\<lambda>x. x \<noteq> 10) (map ?f v)"
  have piece: "10 \<notin> set (line @ c # rest)" using u(2) c(2) by (auto simp: rest_def dest: set_takeWhileD)
  have whole: "map ?f s = before @ (line @ c # rest) @ later"
    using u(1) c(1) by (simp add: assms(2) rest_def later_def)
  have "later = [] \<or> hd later = 10" using hd_dropWhile [of "\<lambda>x. x \<noteq> 10" "map ?f v"] by (auto simp: later_def)
  from piece_in_split [OF piece u(3) this]
  have "line @ c # rest \<in> set (split_on 10 (map ?f s))" by (simp only: whole)
  then have ok: "dropWhile text_space (line @ c # rest) = [] \<or> hd (dropWhile text_space (line @ c # rest)) = 35"
    using assms(1) by (auto simp: only_comments_def list_all_iff)
  have "\<exists>l1 l2. line @ [c] = l1 @ 35 # l2"
  proof (cases "\<forall>x \<in> set line. text_space x")
    case True
    then have "dropWhile text_space (line @ c # rest) = c # rest" using assms(3) by (simp add: dropWhile_append3)
    then show ?thesis using ok by auto
  next
    case False
    then have "dropWhile text_space (line @ c # rest) = dropWhile text_space line @ c # rest" "dropWhile text_space line \<noteq> []"
      by (auto simp: dropWhile_append)
    then obtain l2 where "dropWhile text_space line = 35 # l2" using ok by (cases "dropWhile text_space line") auto
    then have "line @ [c] = takeWhile text_space line @ 35 # l2 @ [c]" by (metis append_Cons append_assoc takeWhile_dropWhile_id)
    then show ?thesis by blast
  qed
  then obtain l1 l2 where l: "line @ [c] = l1 @ 35 # l2" by blast
  then have mapped: "map ?f (u @ [c]) = (before @ l1) @ 35 # l2" using u(1) c(1) by simp
  define n where "n = length (before @ l1)"
  have "u @ [c] = take n (u @ [c]) @ drop n (u @ [c])" by (rule append_take_drop_id [symmetric])
  moreover have drop: "map ?f (drop n (u @ [c])) = 35 # l2" unfolding drop_map [symmetric] mapped n_def by simp
  then obtain y u2 where y: "drop n (u @ [c]) = y # u2" "?f y = 35" "map ?f u2 = l2"
    unfolding map_eq_Cons_conv by blast
  have "10 \<notin> set l2" using l u(2) c(2) by (metis UnI2 append_is_Nil_conv in_set_conv_decomp insert_iff list.set(2) set_append set_ConsD Un_iff empty_iff list.set(1))
  then have "\<forall>x \<in> set u2. \<not> line_end x" using y(3) by (auto simp: image_iff)
  moreover have "y = 35" using y(2) by (auto split: if_splits)
  ultimately show ?thesis using y(1) by metis
qed

text \<open>C35: A trust bundle is what one unchanging, regular file inside the approved root holds. However a load ends,
  it never held more than one byte beyond the limit. If it succeeds, and the paths
  \<open>realpath\<close> answers have no \<open>..\<close> segment, the path it resolved lies below the resolved root
  and both resolve the same after the read; the file is regular and has between one byte and the limit; its
  device, inode, size and both times are the same after the read, and the path still names that device and inode;
  what was read up to the end of the file is exactly its size, and the bundle's text decodes it, with its digest. The text
  is a sequence of certificates the parser accepts, at least one, each from a begin marker to an end marker, and
  what stands around them, taken together, is white space and comments: any other character is a \<open>#\<close> or follows one on its line.\<close>

theorem trust_bundle_confined:
  assumes "\<forall>p q. ld_realpath ld p = Some q \<longrightarrow> ''..'' \<notin> set (path_segments q)"
  shows "length (snd (run_load cr requested configured_root max_bytes ld)) \<le> max_bytes + 1 \<and>
   (load_ca_bundle cr requested configured_root max_bytes ld = Inr b \<longrightarrow>
    (\<exists>base before after path_stat d parts rest.
      ld_realpath ld requested = Some (cb_path b) \<and> ld_realpath_after ld requested = Some (cb_path b) \<and>
      ld_realpath ld (case configured_root of Some r \<Rightarrow> r | None \<Rightarrow> dirname (cb_path b)) = Some base \<and>
      ld_realpath_after ld (case configured_root of Some r \<Rightarrow> r | None \<Rightarrow> dirname (cb_path b)) = Some base \<and>
      path_segments (cb_path b) = path_segments base @ d \<and>
      ld_before ld = Some before \<and> ld_after ld = Some after \<and> ld_path_stat ld = Some path_stat \<and>
      fs_regular before \<and> 0 < fs_size before \<and> fs_size before \<le> max_bytes \<and>
      (fs_dev after, fs_ino after, fs_size after, fs_mtime after, fs_ctime after) =
        (fs_dev before, fs_ino before, fs_size before, fs_mtime before, fs_ctime before) \<and>
      (fs_dev path_stat, fs_ino path_stat) = (fs_dev before, fs_ino before) \<and>
      length (concat (takeWhile (\<lambda>c. c \<noteq> []) (ld_chunks ld))) = fs_size before \<and>
      cb_pem b = cr_utf8 cr (concat (takeWhile (\<lambda>c. c \<noteq> []) (ld_chunks ld))) \<and> cb_fingerprint b = cr_sha256 cr (cb_pem b) \<and>
      cb_pem b = concat (map (\<lambda>(r, certificate). r @ certificate) parts) @ rest \<and> parts \<noteq> [] \<and>
      (\<forall>(r, certificate) \<in> set parts. cr_certificate cr certificate \<and>
         (\<exists>body. certificate = cps ''-----BEGIN CERTIFICATE-----'' @ body @ cps ''-----END CERTIFICATE-----'')) \<and>
      (\<forall>u c v. concat (map fst parts) @ rest = u @ c # v \<and> \<not> text_space c \<longrightarrow>
         (\<exists>u1 u2. u @ [c] = u1 @ 35 # u2 \<and> set u2 \<inter> {10, 13, 8232, 8233} = {}))))"
proof (intro conjI impI)
  show "length (snd (run_load cr requested configured_root max_bytes ld)) \<le> max_bytes + 1"
  proof -
    have held: "length (read_loop (Suc n) [] (ld_chunks ld)) \<le> Suc max_bytes" if "n \<le> max_bytes" for n
      using read_loop_bounded [of "[]" "Suc n" "ld_chunks ld"] that by simp
    show ?thesis by (auto simp: run_load_def Let_def held split: option.split)
  qed
next
  assume loaded: "load_ca_bundle cr requested configured_root max_bytes ld = Inr b"
  let ?read = "concat (takeWhile (\<lambda>c. c \<noteq> []) (ld_chunks ld))"
  obtain path base before after path_stat contents where l: "ld_realpath ld requested = Some path"
      "ld_realpath ld (case configured_root of Some r \<Rightarrow> r | None \<Rightarrow> dirname path) = Some base"
      "is_within_root path base" "ld_before ld = Some before" "fs_regular before" "fs_size before \<noteq> 0" "fs_size before \<le> max_bytes"
      "ld_after ld = Some after" "ld_realpath_after ld requested = Some path" "ld_path_stat ld = Some path_stat"
      "ld_realpath_after ld (case configured_root of Some r \<Rightarrow> r | None \<Rightarrow> dirname path) = Some base"
      "contents = read_loop (fs_size before + 1) [] (ld_chunks ld)"
      "stable_read before after path_stat contents" "read_bundle cr path contents = Inr b"
    using load_parts [OF loaded] by metis
  have contents: "contents = ?read" "length contents = fs_size before"
    using l(13) read_loop_whole [of "[]" "fs_size before + 1" "ld_chunks ld"] by (simp_all add: l(12) stable_read_def)
  have r: "cb_path b = path" "cb_pem b = cr_utf8 cr contents"
      "cb_fingerprint b = cr_sha256 cr (cb_pem b)" "fst (pem_blocks (cb_pem b)) \<noteq> []"
      "list_all (cr_certificate cr) (fst (pem_blocks (cb_pem b)))" "only_comments (snd (pem_blocks (cb_pem b)))"
    using l(14) by (auto simp: read_bundle_def Let_def split: prod.splits if_splits)
  obtain d where d: "path_segments path = path_segments base @ d"
    using l(1,3) assms within_root_iff by blast
  obtain parts rest where p: "cb_pem b = concat (map (\<lambda>(r, b). r @ b) parts) @ rest" "map snd parts = fst (pem_blocks (cb_pem b))"
      "concat (map fst parts) @ rest = snd (pem_blocks (cb_pem b))" "\<forall>(r, b) \<in> set parts. \<exists>body. b = pem_begin @ body @ pem_end"
    using pem_blocks_parts [of "cb_pem b"] by blast
  have accepted: "\<forall>(r, certificate) \<in> set parts. cr_certificate cr certificate \<and>
         (\<exists>body. certificate = cps ''-----BEGIN CERTIFICATE-----'' @ body @ cps ''-----END CERTIFICATE-----'')"
    using p(4) r(5) unfolding p(2) [symmetric] pem_begin_def pem_end_def list_all_iff by force
  have comments: "\<forall>u c v. concat (map fst parts) @ rest = u @ c # v \<and> \<not> text_space c \<longrightarrow>
         (\<exists>u1 u2. u @ [c] = u1 @ 35 # u2 \<and> set u2 \<inter> {10, 13, 8232, 8233} = {})"
  proof (intro allI impI)
    fix u c v
    assume "concat (map fst parts) @ rest = u @ c # v \<and> \<not> text_space c"
    then obtain u1 u2 where "u @ [c] = u1 @ 35 # u2" "\<forall>x \<in> set u2. \<not> line_end x"
      using only_comments_reads [OF r(6), of u c v] unfolding p(3) by blast
    then show "\<exists>u1 u2. u @ [c] = u1 @ 35 # u2 \<and> set u2 \<inter> {10, 13, 8232, 8233} = {}"
      using no_line_end [of u2] by (intro exI [of _ u1] exI [of _ u2] conjI) simp_all
  qed
  have "parts \<noteq> []" using p(2) r(4) by auto
  moreover have "(fs_dev after, fs_ino after, fs_size after, fs_mtime after, fs_ctime after) =
        (fs_dev before, fs_ino before, fs_size before, fs_mtime before, fs_ctime before)"
      "(fs_dev path_stat, fs_ino path_stat) = (fs_dev before, fs_ino before)"
    using l(13) by (simp_all add: stable_read_def)
  ultimately show "\<exists>base before after path_stat d parts rest.
      ld_realpath ld requested = Some (cb_path b) \<and> ld_realpath_after ld requested = Some (cb_path b) \<and>
      ld_realpath ld (case configured_root of Some r \<Rightarrow> r | None \<Rightarrow> dirname (cb_path b)) = Some base \<and>
      ld_realpath_after ld (case configured_root of Some r \<Rightarrow> r | None \<Rightarrow> dirname (cb_path b)) = Some base \<and>
      path_segments (cb_path b) = path_segments base @ d \<and>
      ld_before ld = Some before \<and> ld_after ld = Some after \<and> ld_path_stat ld = Some path_stat \<and>
      fs_regular before \<and> 0 < fs_size before \<and> fs_size before \<le> max_bytes \<and>
      (fs_dev after, fs_ino after, fs_size after, fs_mtime after, fs_ctime after) =
        (fs_dev before, fs_ino before, fs_size before, fs_mtime before, fs_ctime before) \<and>
      (fs_dev path_stat, fs_ino path_stat) = (fs_dev before, fs_ino before) \<and>
      length ?read = fs_size before \<and>
      cb_pem b = cr_utf8 cr ?read \<and> cb_fingerprint b = cr_sha256 cr (cb_pem b) \<and>
      cb_pem b = concat (map (\<lambda>(r, certificate). r @ certificate) parts) @ rest \<and> parts \<noteq> [] \<and>
      (\<forall>(r, certificate) \<in> set parts. cr_certificate cr certificate \<and>
         (\<exists>body. certificate = cps ''-----BEGIN CERTIFICATE-----'' @ body @ cps ''-----END CERTIFICATE-----'')) \<and>
      (\<forall>u c v. concat (map fst parts) @ rest = u @ c # v \<and> \<not> text_space c \<longrightarrow>
         (\<exists>u1 u2. u @ [c] = u1 @ 35 # u2 \<and> set u2 \<inter> {10, 13, 8232, 8233} = {}))"
    using l(1,2,4-11) contents r(1-3) d p(1) accepted comments
    by (intro exI [of _ base] exI [of _ before] exI [of _ after] exI [of _ path_stat] exI [of _ d] exI [of _ parts] exI [of _ rest])
      (simp only: r(1) contents(1) [symmetric] neq0_conv [symmetric] not_False_eq_True simp_thms)
qed

text \<open>A sample file: a comment line, then one certificate around the given text.\<close>

definition sample_pem :: "string \<Rightarrow> utf16" where
  "sample_pem x = 35 # 8364 # 8232 # pem_begin @ cps x @ pem_end"

definition sample_stat :: "string \<Rightarrow> file_stat" where
  "sample_stat x = \<lparr>fs_regular = True, fs_dev = 1, fs_ino = 2, fs_size = length (sample_pem x), fs_mtime = 3, fs_ctime = 3\<rparr>"

definition sample_realpath :: "string \<Rightarrow> string option" where
  "sample_realpath p = (if p = ''/ca/live.pem'' then Some ''/ca/v1/a.pem'' else if p = ''/ca'' then Some ''/ca'' else None)"

definition sample_load :: "string \<Rightarrow> ca_load" where
  "sample_load x = \<lparr>ld_realpath = sample_realpath, ld_before = Some (sample_stat x), ld_chunks = [take 9 (sample_pem x), drop 9 (sample_pem x)],
     ld_after = Some (sample_stat x), ld_realpath_after = sample_realpath, ld_path_stat = Some (sample_stat x)\<rparr>"

definition plain_crypto :: crypto where
  "plain_crypto = \<lparr>cr_utf8 = (\<lambda>s. s), cr_certificate = (\<lambda>_. True), cr_sha256 = (\<lambda>s. s)\<rparr>"

lemma sample_blocks:
  "pem_blocks (sample_pem ''one'') = ([pem_begin @ cps ''one'' @ pem_end], [35, 8364, 8232])"
  "pem_blocks (sample_pem ''two'') = ([pem_begin @ cps ''two'' @ pem_end], [35, 8364, 8232])"
  by code_simp+

lemma sample_loaded:
  assumes "x \<in> {''one'', ''two''}" "100 \<le> limit"
  shows "load_ca_bundle plain_crypto ''/ca/live.pem'' (Some ''/ca'') limit (sample_load x) =
     Inr \<lparr>cb_path = ''/ca/v1/a.pem'', cb_pem = sample_pem x, cb_fingerprint = sample_pem x\<rparr>"
proof -
  have len: "length (sample_pem x) = 58" using assms(1) by (auto simp: sample_pem_def pem_begin_def pem_end_def cps_def)
  then have parts: "take 9 (sample_pem x) \<noteq> []" "drop 9 (sample_pem x) \<noteq> []" "sample_pem x \<noteq> []" by auto
  have two: "read_loop cap [] [c1, c2] = c1 @ c2" if "c1 \<noteq> []" "c2 \<noteq> []" "length (c1 @ c2) < cap" for cap c1 c2
    using that by simp
  have read: "read_loop (length (sample_pem x) + 1) [] [take 9 (sample_pem x), drop 9 (sample_pem x)] = sample_pem x"
    using two [OF parts(1,2), of "length (sample_pem x) + 1"] by simp
  have inside: "is_within_root ''/ca/v1/a.pem'' ''/ca''" "only_comments [35, 8364, 8232]"
     apply code_simp
    apply (simp add: only_comments_def line_end_def text_space_def)
    done
  have whole: "read_bundle plain_crypto ''/ca/v1/a.pem'' (sample_pem x) =
      Inr \<lparr>cb_path = ''/ca/v1/a.pem'', cb_pem = sample_pem x, cb_fingerprint = sample_pem x\<rparr>"
    using assms(1) inside(2) by (auto simp: read_bundle_def plain_crypto_def sample_blocks Let_def)
  show ?thesis
    using assms(2) inside(1) read whole parts(3)
    by (simp add: load_ca_bundle_def run_load_def sample_load_def sample_stat_def sample_realpath_def stable_read_def len Let_def)
qed

theorem trust_bundle_confined_witness:
  "load_ca_bundle plain_crypto ''/ca/live.pem'' (Some ''/ca'') 100 (sample_load ''one'') =
     Inr \<lparr>cb_path = ''/ca/v1/a.pem'', cb_pem = sample_pem ''one'', cb_fingerprint = sample_pem ''one''\<rparr> \<and>
   (\<exists>d. path_segments ''/ca/v1/a.pem'' = path_segments ''/ca'' @ d) \<and>
   load_ca_bundle plain_crypto ''/ca/live.pem'' (Some ''/ca'') 10 (sample_load ''one'') = Inl Bad_size"
proof -
  have canonical: "\<forall>p q. ld_realpath (sample_load ''one'') p = Some q \<longrightarrow> ''..'' \<notin> set (path_segments q)"
    by (auto simp: sample_load_def sample_realpath_def path_segments_def)
  have loaded: "load_ca_bundle plain_crypto ''/ca/live.pem'' (Some ''/ca'') 100 (sample_load ''one'') =
     Inr \<lparr>cb_path = ''/ca/v1/a.pem'', cb_pem = sample_pem ''one'', cb_fingerprint = sample_pem ''one''\<rparr>"
    by (rule sample_loaded) simp_all
  have "load_ca_bundle plain_crypto ''/ca/live.pem'' (Some ''/ca'') 10 (sample_load ''one'') = Inl Bad_size" by code_simp
  moreover have "\<exists>d. path_segments ''/ca/v1/a.pem'' = path_segments ''/ca'' @ d"
    using mp [OF conjunct2 [OF trust_bundle_confined [OF canonical]] loaded] by (auto simp: sample_load_def sample_realpath_def)
  ultimately show ?thesis using loaded by blast
qed


end
