(* ===== verification/NetworkPolicy.thy ===== *)
theory NetworkPolicy
  imports Config
begin

text \<open>
  Which addresses the BFF may connect to (\<open>server/tls.ts\<close>): the bytes of an IPv6 address, the IPv4 address it
  embeds, the blocked networks, and the DNS lookup that refuses them. \<open>BlockList\<close> of \<open>node:net\<close> is modelled on
  the 128 bits of an address, an IPv4 address being its IPv4-mapped form; it throws on a text that is no address
  of the family.
\<close>

section \<open>Texts of numbers\<close>

definition hex_digit :: "char \<Rightarrow> nat" where
  "hex_digit c = (let n = (of_char c :: nat) in if n \<le> 57 then n - 48 else if n \<ge> 97 then n - 87 else n - 55)"

definition parse_hex :: "string \<Rightarrow> nat" where
  "parse_hex s = foldl (\<lambda>n c. 16 * n + hex_digit c) 0 s"

definition hex_digit_char :: "nat \<Rightarrow> char" where
  "hex_digit_char n = (if n < 10 then char_of (48 + n) else char_of (87 + n))"

text \<open>\<open>n.toString(16)\<close>.\<close>

fun show_hex :: "nat \<Rightarrow> string" where
  "show_hex n = (if n < 16 then [hex_digit_char n] else show_hex (n div 16) @ [hex_digit_char (n mod 16)])"

declare show_hex.simps [simp del]

section \<open>The bytes of an IPv6 address\<close>

text \<open>The trailing dotted quad: where the leftmost suffix of four runs of digits between dots begins.\<close>

definition quad_like :: "string \<Rightarrow> bool" where
  "quad_like s \<longleftrightarrow> length (split_on CHR ''.'' s) = 4 \<and> list_all (\<lambda>p. p \<noteq> [] \<and> list_all digit p) (split_on CHR ''.'' s)"

definition trailing_quad :: "string \<Rightarrow> nat option" where
  "trailing_quad s = find (\<lambda>i. quad_like (drop i s)) [0 ..< length s]"

definition pair_text :: "nat \<Rightarrow> nat \<Rightarrow> string" where
  "pair_text a b = show_hex (or (push_bit 8 a) b)"

definition unquad :: "string \<Rightarrow> string" where
  "unquad t =
     (case trailing_quad t of
        None \<Rightarrow> t
      | Some i \<Rightarrow>
          (case map decimal (split_on CHR ''.'' (drop i t)) of
             [a, b, c, d] \<Rightarrow> take i t @ pair_text a b @ CHR '':'' # pair_text c d
           | _ \<Rightarrow> t))"

definition ipv6_bytes :: "string \<Rightarrow> nat list option" where
  "ipv6_bytes address =
     (let t = hd (split_on CHR ''%'' address) in
      if is_ip t \<noteq> 6 then None
      else let (head, tail) = (case split_double_colon [] (unquad t) of Some (l, r) \<Rightarrow> (l, Some r) | None \<Rightarrow> (unquad t, None));
               head_groups = groups_of head;
               tail_groups = (case tail of Some r \<Rightarrow> groups_of r | None \<Rightarrow> []);
               groups = (case tail of None \<Rightarrow> head_groups
                         | Some _ \<Rightarrow> head_groups @ replicate (8 - length head_groups - length tail_groups) ''0'' @ tail_groups) in
        if length groups \<noteq> 8 then None
        else Some (concat (map (\<lambda>g. [parse_hex g div 256, parse_hex g mod 256]) groups)))"

definition quad_text :: "nat list \<Rightarrow> string" where
  "quad_text bs = join_with CHR ''.'' (map show_nat bs)"

definition embedded_ipv4 :: "string \<Rightarrow> string option" where
  "embedded_ipv4 address =
     (case ipv6_bytes address of
        None \<Rightarrow> None
      | Some bytes \<Rightarrow>
          let zero = (\<lambda>m n. list_all (\<lambda>b. b = 0) (take (n - m) (drop m bytes)));
              quad = (\<lambda>i. quad_text (take 4 (drop i bytes))) in
          if zero 0 10 \<and> bytes ! 10 = 255 \<and> bytes ! 11 = 255 then Some (quad 12)
          else if zero 0 12 then Some (quad 12)
          else if bytes ! 0 = 0 \<and> bytes ! 1 = 100 \<and> bytes ! 2 = 255 \<and> bytes ! 3 = 155 \<and> zero 4 12 then Some (quad 12)
          else if bytes ! 0 = 32 \<and> bytes ! 1 = 2 then Some (quad 2)
          else None)"

section \<open>Networks\<close>

text \<open>How the platform reads an address: the groups of an IPv6 address, and its 128 bits.\<close>

definition ipv4_octets :: "string \<Rightarrow> nat list" where
  "ipv4_octets s = map decimal (split_on CHR ''.'' s)"

fun group_values :: "string list \<Rightarrow> nat list" where
  "group_values [] = []"
| "group_values [g] =
     (if hex_group g then [parse_hex g]
      else case ipv4_octets g of [a, b, c, d] \<Rightarrow> [a * 256 + b, c * 256 + d] | _ \<Rightarrow> [])"
| "group_values (g # gs) = parse_hex g # group_values gs"

definition ipv6_groups :: "string \<Rightarrow> nat list" where
  "ipv6_groups s =
     (case split_double_colon [] s of
        None \<Rightarrow> group_values (groups_of s)
      | Some (l, r) \<Rightarrow>
          (let a = group_values (groups_of l); b = group_values (groups_of r) in
           a @ replicate (8 - length a - length b) 0 @ b))"

definition bytes_of_groups :: "nat list \<Rightarrow> nat list" where
  "bytes_of_groups gs = concat (map (\<lambda>v. [v div 256, v mod 256]) gs)"

definition byte_bits :: "nat \<Rightarrow> bool list" where
  "byte_bits b = map (\<lambda>i. odd (b div 2 ^ i)) [7, 6, 5, 4, 3, 2, 1, 0]"

definition bits_of_bytes :: "nat list \<Rightarrow> bool list" where
  "bits_of_bytes bs = concat (map byte_bits bs)"

definition mapped_bits :: "nat list \<Rightarrow> bool list" where
  "mapped_bits octets = bits_of_bytes (replicate 10 0 @ [255, 255] @ octets)"

definition address_bits :: "ip_family \<Rightarrow> string \<Rightarrow> bool list option" where
  "address_bits family s =
     (case family of
        IPv4 \<Rightarrow> if is_ipv4 s then Some (mapped_bits (ipv4_octets s)) else None
      | IPv6 \<Rightarrow> if is_ipv6 s then Some (bits_of_bytes (bytes_of_groups (ipv6_groups (hd (split_on CHR ''%'' s))))) else None)"

definition network_bits :: "cidr \<Rightarrow> bool list" where
  "network_bits n =
     (case address_bits (cd_family n) (cd_address n) of
        Some bits \<Rightarrow> take (if cd_family n = IPv4 then 96 + cd_prefix n else cd_prefix n) bits
      | None \<Rightarrow> [])"

definition in_network :: "bool list \<Rightarrow> cidr \<Rightarrow> bool" where
  "in_network bits n \<longleftrightarrow> take (length (network_bits n)) bits = network_bits n"

definition block_check :: "cidr list \<Rightarrow> ip_family \<Rightarrow> string \<Rightarrow> bool option" where
  "block_check networks family address =
     map_option (\<lambda>bits. list_ex (in_network bits) networks) (address_bits family address)"

definition blocked_networks :: "cidr list" where
  "blocked_networks =
     map (\<lambda>(a, p). \<lparr>cd_address = a, cd_prefix = p, cd_family = IPv4\<rparr>)
       [(''0.0.0.0'', 8), (''10.0.0.0'', 8), (''100.64.0.0'', 10), (''127.0.0.0'', 8), (''169.254.0.0'', 16),
        (''172.16.0.0'', 12), (''192.0.0.0'', 24), (''192.0.2.0'', 24), (''192.168.0.0'', 16), (''198.18.0.0'', 15),
        (''198.51.100.0'', 24), (''203.0.113.0'', 24), (''224.0.0.0'', 4), (''240.0.0.0'', 4)] @
     map (\<lambda>(a, p). \<lparr>cd_address = a, cd_prefix = p, cd_family = IPv6\<rparr>)
       [(''::'', 128), (''::1'', 128), (''64:ff9b:1::'', 48), (''100::'', 64), (''fec0::'', 10), (''fc00::'', 7),
        (''fe80::'', 10), (''ff00::'', 8), (''2001:db8::'', 32)]"

section \<open>The destination policy\<close>

fun parse_allowed_cidrs :: "string list \<Rightarrow> cidr list option" where
  "parse_allowed_cidrs [] = Some []"
| "parse_allowed_cidrs (v # vs) =
     (case parse_cidr v of
        None \<Rightarrow> None
      | Some n \<Rightarrow> map_option (\<lambda>ns. n # ns) (parse_allowed_cidrs vs))"

definition trusted_origin :: "config \<Rightarrow> bool" where
  "trusted_origin cfg \<longleftrightarrow> cf_admin_url cfg = cf_initial_admin_origin cfg"

text \<open>\<open>embedded\<close> is what is left to judge once the address itself is not explicitly allowed; \<open>None\<close>: the code
  throws.\<close>

definition judge_address :: "config \<Rightarrow> ip_family \<Rightarrow> string \<Rightarrow> bool option \<Rightarrow> bool option" where
  "judge_address cfg family address rest =
     (if trusted_origin cfg then Some True
      else case parse_allowed_cidrs (cf_admin_allowed_cidrs cfg) of
        None \<Rightarrow> None
      | Some allowed \<Rightarrow>
          (case block_check allowed family address of
             None \<Rightarrow> None
           | Some explicit \<Rightarrow> if explicit then Some True else rest))"

definition not_blocked :: "ip_family \<Rightarrow> string \<Rightarrow> bool option" where
  "not_blocked family address = map_option Not (block_check blocked_networks family address)"

definition address_is_allowed :: "config \<Rightarrow> string \<Rightarrow> nat \<Rightarrow> bool option" where
  "address_is_allowed cfg address family =
     (if family = 6
      then judge_address cfg IPv6 address
             (case embedded_ipv4 address of
                Some v4 \<Rightarrow> judge_address cfg IPv4 v4 (not_blocked IPv4 v4)
              | None \<Rightarrow> not_blocked IPv6 address)
      else judge_address cfg IPv4 address (not_blocked IPv4 address))"

datatype outcome = Proceeds | Refused | Throws

definition assert_literal_address_allowed :: "config \<Rightarrow> string \<Rightarrow> outcome" where
  "assert_literal_address_allowed cfg hostname =
     (let address = strip_brackets hostname; family = is_ip address in
      if family = 0 then Proceeds
      else case address_is_allowed cfg address family of
        None \<Rightarrow> Throws | Some ok \<Rightarrow> if ok then Proceeds else Refused)"

text \<open>The answer of the platform's lookup: an error, one address, or all of them.\<close>

datatype dns_answer = Dns_error string | One_address string "nat option" | All_addresses "(string \<times> nat) list"

definition dns_addresses :: "dns_answer \<Rightarrow> (string \<times> nat) list" where
  "dns_addresses answer =
     (case answer of
        Dns_error e \<Rightarrow> []
      | One_address a f \<Rightarrow> [(a, case f of Some n \<Rightarrow> n | None \<Rightarrow> is_ip a)]
      | All_addresses as \<Rightarrow> as)"

fun some_denied :: "config \<Rightarrow> (string \<times> nat) list \<Rightarrow> bool option" where
  "some_denied cfg [] = Some False"
| "some_denied cfg ((a, f) # as) =
     (case address_is_allowed cfg a f of
        None \<Rightarrow> None
      | Some ok \<Rightarrow> if ok then some_denied cfg as else Some True)"

text \<open>\<open>Inl\<close> is the error handed to the connection.\<close>

definition secure_lookup :: "config \<Rightarrow> dns_answer \<Rightarrow> (string + dns_answer) option" where
  "secure_lookup cfg answer =
     (case answer of
        Dns_error e \<Rightarrow> Some (Inl e)
      | _ \<Rightarrow> map_option (\<lambda>denied. if denied then Inl ''EACCES'' else Inr answer) (some_denied cfg (dns_addresses answer)))"

section \<open>The bytes are the address\<close>

text \<open>Hexadecimal texts.\<close>

lemma hex_digit_char: "n < 16 \<Longrightarrow> hex_digit (hex_digit_char n) = n \<and> hex_char (hex_digit_char n)"
  by (auto simp: hex_digit_def hex_digit_char_def hex_char_def digit_def Let_def)

lemma parse_hex_snoc: "parse_hex (s @ [c]) = 16 * parse_hex s + hex_digit c"
  by (simp add: parse_hex_def)

lemma parse_show_hex [simp]: "parse_hex (show_hex n) = n"
proof (induction n rule: show_hex.induct)
  case (1 n)
  show ?case
  proof (cases "n < 16")
    case True
    then show ?thesis using hex_digit_char [of n] by (simp add: show_hex.simps [of n] parse_hex_def)
  next
    case False
    then show ?thesis using 1 hex_digit_char [of "n mod 16"] by (simp add: show_hex.simps [of n] parse_hex_snoc)
  qed
qed

lemma show_hex_chars: "show_hex n \<noteq> [] \<and> list_all hex_char (show_hex n)"
proof (induction n rule: show_hex.induct)
  case (1 n)
  then show ?case using hex_digit_char [of n] hex_digit_char [of "n mod 16"]
    by (cases "n < 16") (simp_all add: show_hex.simps [of n])
qed

lemma hex_char_not_colon: "hex_char c \<Longrightarrow> c \<noteq> CHR '':'' \<and> c \<noteq> CHR ''.'' \<and> c \<noteq> CHR ''%''"
  by (auto simp: hex_char_def digit_def)

lemma digit_not_colon: "digit c \<Longrightarrow> c \<noteq> CHR '':'' \<and> c \<noteq> CHR ''.'' \<and> c \<noteq> CHR ''%''"
  by (auto simp: digit_def)

lemma or_push_bit: "b < 256 \<Longrightarrow> or (push_bit 8 a) b = a * 256 + (b :: nat)"
proof -
  assume b: "b < 256"
  then have "b = take_bit 8 b" by (simp add: take_bit_nat_eq_self)
  then have low: "bit b n \<Longrightarrow> \<not> 8 \<le> n" for n by (metis bit_take_bit_iff not_le)
  have "push_bit 8 a + b = or (push_bit 8 a) b"
    by (rule disjunctive_add) (use low in \<open>auto simp: bit_push_bit_iff\<close>)
  then show ?thesis by (simp add: push_bit_eq_mult)
qed

text \<open>Splitting a text at its last separator.\<close>

lemma split_on_append_gen: "split_on c (u @ c # t) = split_on c u @ split_on c t"
proof (induction u)
  case Nil
  then show ?case by simp
next
  case (Cons x u)
  then show ?case by (cases "split_on c u") auto
qed

lemma split_on_last:
  "\<exists>p. s = p @ last (split_on c s) \<and>
     (p = [] \<and> split_on c s = [s] \<or> (\<exists>u. p = u @ [c] \<and> split_on c s = split_on c u @ [last (split_on c s)]))"
proof (cases "c \<in> set s")
  case False
  then show ?thesis by (simp add: split_on_free)
next
  case True
  then obtain u t where s: "s = u @ c # t" "c \<notin> set t" by (meson split_list_last)
  then have "split_on c s = split_on c u @ [t]" by (simp add: split_on_append_gen split_on_free)
  then show ?thesis using s by (intro exI [of _ "u @ [c]"]) auto
qed

lemma is_ipv4_parts:
  assumes "is_ipv4 g"
  obtains a b c d where "split_on CHR ''.'' g = [a, b, c, d]" "octet a" "octet b" "octet c" "octet d"
  using assms unfolding is_ipv4_def by (auto simp: length_Suc_conv eval_nat_numeral)

lemma octet_bound: "octet s \<Longrightarrow> decimal s < 256"
  by (simp add: octet_def)

lemma is_ipv4_chars: "is_ipv4 g \<Longrightarrow> c \<in> set g \<Longrightarrow> digit c \<or> c = CHR ''.''"
proof -
  assume g: "is_ipv4 g" and c: "c \<in> set g"
  have "set (join_with CHR ''.'' ss) \<subseteq> \<Union> (set ` set ss) \<union> {CHR ''.''}" for ss :: "string list"
    by (induction "CHR ''.''" ss rule: join_with.induct) auto
  from this [of "split_on CHR ''.'' g"] have "c \<in> \<Union> (set ` set (split_on CHR ''.'' g)) \<union> {CHR ''.''}"
    using c by auto
  then show ?thesis using g by (auto simp: is_ipv4_def list_all_iff octet_def)
qed

lemma quad_like_chars: "quad_like g \<Longrightarrow> c \<in> set g \<Longrightarrow> digit c \<or> c = CHR ''.''"
proof -
  assume g: "quad_like g" and c: "c \<in> set g"
  have "set (join_with CHR ''.'' ss) \<subseteq> \<Union> (set ` set ss) \<union> {CHR ''.''}" for ss :: "string list"
    by (induction "CHR ''.''" ss rule: join_with.induct) auto
  from this [of "split_on CHR ''.'' g"] have "c \<in> \<Union> (set ` set (split_on CHR ''.'' g)) \<union> {CHR ''.''}"
    using c by auto
  then show ?thesis using g by (auto simp: quad_like_def list_all_iff)
qed

lemma is_ipv4_quad_like: "is_ipv4 g \<Longrightarrow> quad_like g"
  by (auto simp: is_ipv4_def quad_like_def list_all_iff octet_def)

lemma is_ipv4_not_hex: "is_ipv4 g \<Longrightarrow> \<not> hex_group g"
proof
  assume g: "is_ipv4 g" "hex_group g"
  then have "CHR ''.'' \<notin> set g" by (auto simp: hex_group_def list_all_iff hex_char_def digit_def)
  then have "split_on CHR ''.'' g = [g]" by (rule split_on_free)
  then show False using g(1) by (simp add: is_ipv4_def)
qed

lemma trailing_quad_none: "CHR ''.'' \<notin> set t \<Longrightarrow> trailing_quad t = None"
proof -
  assume t: "CHR ''.'' \<notin> set t"
  have "\<not> quad_like (drop i t)" for i
  proof
    assume q: "quad_like (drop i t)"
    have "CHR ''.'' \<notin> set (drop i t)" using t by (meson in_set_dropD)
    then have "split_on CHR ''.'' (drop i t) = [drop i t]" by (rule split_on_free)
    then show False using q by (simp add: quad_like_def)
  qed
  then show ?thesis by (simp add: trailing_quad_def find_None_iff)
qed

lemma trailing_quad_some:
  assumes "t = p @ q" "quad_like q" "p = [] \<or> last p = CHR '':''"
  shows "trailing_quad t = Some (length p)"
proof -
  have ne: "q \<noteq> []" using assms(2) by (auto simp: quad_like_def)
  have "\<not> quad_like (drop i t)" if "i < length p" for i
  proof
    assume q: "quad_like (drop i t)"
    have "p \<noteq> []" "last p = CHR '':''" using that assms(3) by auto
    then have "CHR '':'' \<in> set (drop i p)" using that by (metis last_drop last_in_set length_drop zero_less_diff length_greater_0_conv)
    then have "CHR '':'' \<in> set (drop i t)" using assms(1) by simp
    then show False using quad_like_chars [OF q, of "CHR '':''"] by (simp add: digit_def)
  qed
  moreover have "quad_like (drop (length p) t)" using assms by simp
  moreover have "length p < length t" using assms(1) ne by simp
  ultimately show ?thesis
    unfolding trailing_quad_def find_Some_iff by (auto intro!: exI [of _ "length p"])
qed

text \<open>Finding the double colon, and putting the two groups of a dotted quad behind it.\<close>

lemma double_colon_parts: "split_double_colon acc s = Some (l, r) \<Longrightarrow> \<exists>l'. l = rev acc @ l' \<and> s = l' @ '':'' @ '':'' @ r"
proof (induction acc s rule: split_double_colon.induct)
  case (1 acc a b s)
  show ?case
  proof (cases "a = CHR '':'' \<and> b = CHR '':''")
    case True
    then show ?thesis using "1.prems" by auto
  next
    case False
    then obtain l' where "l = rev (a # acc) @ l'" "b # s = l' @ '':'' @ '':'' @ r" using 1 by auto
    then show ?thesis by (intro exI [of _ "a # l'"]) simp
  qed
qed auto

lemma double_colon_append: "split_double_colon acc p = Some (l, r) \<Longrightarrow> split_double_colon acc (p @ q) = Some (l, r @ q)"
  by (induction acc p rule: split_double_colon.induct) (auto split: if_splits)

lemma double_colon_free: "CHR '':'' \<notin> set q \<Longrightarrow> split_double_colon acc q = None"
  by (induction acc q rule: split_double_colon.induct) auto

lemma double_colon_one: "CHR '':'' \<notin> set g \<Longrightarrow> CHR '':'' \<notin> set h \<Longrightarrow> g \<noteq> [] \<Longrightarrow> h \<noteq> [] \<Longrightarrow>
    split_double_colon acc (g @ CHR '':'' # h) = None"
proof (induction g arbitrary: acc)
  case (Cons x g)
  then show ?case by (cases g; cases h) (auto simp: double_colon_free)
qed simp

lemma double_colon_behind:
  "split_double_colon acc p = None \<Longrightarrow> \<forall>acc. split_double_colon acc q = None \<Longrightarrow> q = [] \<or> hd q \<noteq> CHR '':'' \<Longrightarrow>
   split_double_colon acc (p @ q) = None"
proof (induction acc p rule: split_double_colon.induct)
  case (1 acc a b s)
  then show ?case by (auto split: if_splits)
qed (cases q; auto)+

definition unquad_parts :: "string \<Rightarrow> string" where
  "unquad_parts q = (case map decimal (split_on CHR ''.'' q) of
     [a, b, c, d] \<Rightarrow> pair_text a b @ CHR '':'' # pair_text c d | _ \<Rightarrow> q)"

lemma unquad_parts_ipv4:
  assumes "is_ipv4 q"
  obtains a b c d where "ipv4_octets q = [a, b, c, d]" "a < 256" "b < 256" "c < 256" "d < 256"
    "unquad_parts q = show_hex (a * 256 + b) @ CHR '':'' # show_hex (c * 256 + d)"
proof -
  obtain a b c d where q: "split_on CHR ''.'' q = [a, b, c, d]" "octet a" "octet b" "octet c" "octet d"
    using assms by (rule is_ipv4_parts)
  have "unquad_parts q = show_hex (decimal a * 256 + decimal b) @ CHR '':'' # show_hex (decimal c * 256 + decimal d)"
    using q by (simp add: unquad_parts_def pair_text_def or_push_bit octet_bound)
  then show thesis using that q octet_bound by (simp add: ipv4_octets_def)
qed

lemma unquad_some:
  assumes "t = p @ q" "is_ipv4 q" "p = [] \<or> last p = CHR '':''"
  shows "unquad t = p @ unquad_parts q"
proof -
  have "trailing_quad t = Some (length p)" using trailing_quad_some [OF assms(1)] assms(2,3) by (simp add: is_ipv4_quad_like)
  moreover obtain a b c d where "ipv4_octets q = [a, b, c, d]" using assms(2) by (rule unquad_parts_ipv4)
  ultimately show ?thesis using assms(1) by (simp add: unquad_def unquad_parts_def ipv4_octets_def)
qed

lemma unquad_parts_groups:
  assumes "is_ipv4 q"
  shows "\<exists>g h. unquad_parts q = g @ CHR '':'' # h \<and> g \<noteq> [] \<and> h \<noteq> [] \<and> CHR '':'' \<notin> set g \<and> CHR '':'' \<notin> set h \<and>
           map parse_hex (split_on CHR '':'' (unquad_parts q)) = group_values [q]"
proof -
  obtain a b c d where q: "ipv4_octets q = [a, b, c, d]"
    "unquad_parts q = show_hex (a * 256 + b) @ CHR '':'' # show_hex (c * 256 + d)"
    using assms by (rule unquad_parts_ipv4)
  have free: "CHR '':'' \<notin> set (show_hex n)" for n
    using show_hex_chars [of n] hex_char_not_colon by (auto simp: list_all_iff)
  have "split_on CHR '':'' (unquad_parts q) = [show_hex (a * 256 + b), show_hex (c * 256 + d)]"
    unfolding q(2) by (simp add: split_on_append split_on_free free)
  then show ?thesis using q free show_hex_chars is_ipv4_not_hex [OF assms]
    by (intro exI [of _ "show_hex (a * 256 + b)"] exI [of _ "show_hex (c * 256 + d)"]) simp
qed

text \<open>The groups of a valid text, read as the code reads them.\<close>

lemma group_count_parts:
  "group_count quad gs = Some n \<Longrightarrow>
     length (group_values gs) = n \<and> (\<forall>g \<in> set (butlast gs). hex_group g) \<and>
     (gs = [] \<or> hex_group (last gs) \<or> (quad \<and> is_ipv4 (last gs)))"
proof (induction quad gs arbitrary: n rule: group_count.induct)
  case (2 quad g)
  show ?case
  proof (cases "hex_group g")
    case False
    then have g: "is_ipv4 g" "quad" "n = 2" using "2.prems" by (auto split: if_splits)
    obtain a b c d where "ipv4_octets g = [a, b, c, d]" using g(1) by (rule unquad_parts_ipv4)
    then show ?thesis using g False by simp
  qed (use "2.prems" in simp)
qed (auto split: if_splits)

lemma group_values_hex: "\<forall>g \<in> set gs. hex_group g \<Longrightarrow> group_values gs = map parse_hex gs"
  by (induction gs rule: group_values.induct) auto

lemma group_values_last: "\<forall>g \<in> set gs. hex_group g \<Longrightarrow> group_values (gs @ [q]) = map parse_hex gs @ group_values [q]"
proof (induction gs)
  case (Cons g gs)
  then show ?case by (cases "gs @ [q]") auto
qed simp

text \<open>A text of groups, with its trailing dotted quad rewritten as two of them.\<close>

lemma groups_rewritten:
  assumes "r0 = [] \<or> last r0 = CHR '':''" "is_ipv4 q" "\<forall>g \<in> set (butlast (groups_of (r0 @ q))). hex_group g"
  shows "map parse_hex (groups_of (r0 @ unquad_parts q)) = group_values (groups_of (r0 @ q))"
proof -
  obtain g h where gh: "unquad_parts q = g @ CHR '':'' # h" "g \<noteq> []"
      "map parse_hex (split_on CHR '':'' (unquad_parts q)) = group_values [q]"
    using unquad_parts_groups [OF assms(2)] by blast
  have qne: "q \<noteq> []" using assms(2) by (auto simp: is_ipv4_def)
  have "CHR '':'' \<notin> set q" using is_ipv4_chars [OF assms(2), of "CHR '':''"] by (auto simp: digit_def)
  then have sq: "split_on CHR '':'' q = [q]" by (rule split_on_free)
  show ?thesis
  proof (cases "r0 = []")
    case True
    then show ?thesis using gh qne sq by (simp add: groups_of_def)
  next
    case False
    then obtain u where u: "r0 = u @ [CHR '':'']" using assms(1) by (metis append_butlast_last_id)
    have "\<forall>g \<in> set (split_on CHR '':'' u). hex_group g"
      using assms(3) sq by (simp add: u groups_of_def split_on_append_gen)
    then show ?thesis using gh(3) sq
      by (simp add: u groups_of_def split_on_append_gen group_values_last)
  qed
qed

lemma hex_parts_no_dot:
  assumes "\<forall>g \<in> set (split_on CHR '':'' s). hex_group g \<or> g = []"
  shows "CHR ''.'' \<notin> set s"
proof -
  have "set (join_with CHR '':'' ss) \<subseteq> \<Union> (set ` set ss) \<union> {CHR '':''}" for ss :: "string list"
    by (induction "CHR '':''" ss rule: join_with.induct) auto
  from this [of "split_on CHR '':'' s"] have "set s \<subseteq> \<Union> (set ` set (split_on CHR '':'' s)) \<union> {CHR '':''}" by simp
  moreover have "CHR ''.'' \<notin> set g" if "g \<in> set (split_on CHR '':'' s)" for g
    using assms that hex_char_not_colon by (fastforce simp: hex_group_def list_all_iff)
  ultimately show ?thesis by auto
qed

lemma hex_groups_free: "\<forall>g \<in> set (groups_of s). hex_group g \<Longrightarrow> \<forall>g \<in> set (split_on CHR '':'' s). hex_group g \<or> g = []"
  by (cases "s = []") (auto simp: groups_of_def)

lemma all_hex: "\<forall>g \<in> set (butlast gs). hex_group g \<Longrightarrow> gs = [] \<or> hex_group (last gs) \<Longrightarrow> \<forall>g \<in> set gs. hex_group g"
  by (metis append_butlast_last_id list.set_cases rotate1.simps(2) set_ConsD set_rotate1 empty_iff list.set(1))

text \<open>The two shapes of a text: with one double colon, or without.\<close>

lemma plain_groups:
  assumes "split_double_colon [] t = None" "group_count True (groups_of t) = Some n"
  shows "split_double_colon [] (unquad t) = None \<and> map parse_hex (groups_of (unquad t)) = group_values (groups_of t)"
proof -
  let ?q = "last (split_on CHR '':'' t)"
  obtain p where t: "t = p @ ?q" "p = [] \<or> last p = CHR '':''"
    using split_on_last [of t "CHR '':''"] by fastforce
  have parts: "\<forall>g \<in> set (butlast (groups_of t)). hex_group g"
      "groups_of t = [] \<or> hex_group (last (groups_of t)) \<or> is_ipv4 (last (groups_of t))"
    using group_count_parts [OF assms(2)] by auto
  show ?thesis
  proof (cases "is_ipv4 ?q")
    case True
    obtain g h where gh: "unquad_parts ?q = g @ CHR '':'' # h" "g \<noteq> []" "h \<noteq> []" "CHR '':'' \<notin> set g" "CHR '':'' \<notin> set h"
      using unquad_parts_groups [OF True] by blast
    have u: "unquad t = p @ unquad_parts ?q" by (rule unquad_some [OF t(1) True t(2)])
    have "split_double_colon [] p = None"
      using assms(1) double_colon_append [of "[]" p] t(1) by (metis not_None_eq prod.exhaust)
    moreover have "\<forall>acc. split_double_colon acc (unquad_parts ?q) = None" using gh by (simp add: double_colon_one)
    moreover have "hd (unquad_parts ?q) \<noteq> CHR '':''" using gh by (cases g) auto
    ultimately have "split_double_colon [] (unquad t) = None" unfolding u by (intro double_colon_behind) auto
    moreover have "map parse_hex (groups_of (unquad t)) = group_values (groups_of t)"
      using groups_rewritten [OF t(2) True] parts(1) t(1) u by simp
    ultimately show ?thesis by simp
  next
    case False
    have hex: "\<forall>g \<in> set (groups_of t). hex_group g"
    proof (rule all_hex [OF parts(1)])
      show "groups_of t = [] \<or> hex_group (last (groups_of t))" using parts(2) False by (auto simp: groups_of_def split: if_splits)
    qed
    have "unquad t = t" using trailing_quad_none [OF hex_parts_no_dot [OF hex_groups_free [OF hex]]] by (simp add: unquad_def)
    then show ?thesis using assms(1) by (simp add: group_values_hex [OF hex])
  qed
qed

lemma compressed_groups:
  assumes "split_double_colon [] t = Some (l, r)" "group_count False (groups_of l) = Some m" "group_count True (groups_of r) = Some n"
  shows "\<exists>r'. split_double_colon [] (unquad t) = Some (l, r') \<and> map parse_hex (groups_of l) = group_values (groups_of l) \<and>
           map parse_hex (groups_of r') = group_values (groups_of r)"
proof -
  have t: "t = l @ '':'' @ '':'' @ r" using double_colon_parts [OF assms(1)] by auto
  have hexl: "\<forall>g \<in> set (groups_of l). hex_group g" using group_count_parts [OF assms(2)] all_hex [of "groups_of l"] by simp
  have parts: "\<forall>g \<in> set (butlast (groups_of r)). hex_group g"
      "groups_of r = [] \<or> hex_group (last (groups_of r)) \<or> is_ipv4 (last (groups_of r))"
    using group_count_parts [OF assms(3)] by auto
  let ?q = "last (split_on CHR '':'' r)"
  obtain r0 where r: "r = r0 @ ?q" "r0 = [] \<or> last r0 = CHR '':''"
    using split_on_last [of r "CHR '':''"] by fastforce
  show ?thesis
  proof (cases "is_ipv4 ?q")
    case True
    let ?p = "l @ '':'' @ '':'' @ r0"
    have free: "CHR '':'' \<notin> set ?q" using is_ipv4_chars [OF True, of "CHR '':''"] by (auto simp: digit_def)
    have ends: "?p = [] \<or> last ?p = CHR '':''" using r(2) by auto
    have tp: "t = ?p @ ?q" using t r(1) by simp
    have u: "unquad t = ?p @ unquad_parts ?q" by (rule unquad_some [OF tp True ends])
    obtain l0 r1 where p: "split_double_colon [] ?p = Some (l0, r1)"
    proof (cases "split_double_colon [] ?p")
      case None
      have "split_double_colon [] (?p @ ?q) = None"
        by (rule double_colon_behind [OF None]) (use free hd_in_set in \<open>force simp: double_colon_free\<close>)+
      then show thesis using assms(1) tp by simp
    qed (use that in \<open>metis prod.exhaust\<close>)
    have "split_double_colon [] (?p @ ?q) = Some (l0, r1 @ ?q)" by (rule double_colon_append [OF p])
    then have "l0 = l" and e: "r1 @ ?q = r" using assms(1) tp by auto
    from e r(1) have "r1 @ ?q = r0 @ ?q" by (rule trans)
    then have "r1 = r0" by (rule append_same_eq [THEN iffD1])
    then have "split_double_colon [] (unquad t) = Some (l, r0 @ unquad_parts ?q)"
      using double_colon_append [OF p, of "unquad_parts ?q"] by (simp add: u \<open>l0 = l\<close>)
    moreover have "map parse_hex (groups_of (r0 @ unquad_parts ?q)) = group_values (groups_of r)"
      using groups_rewritten [OF r(2) True] parts(1) r(1) by simp
    ultimately show ?thesis by (simp add: group_values_hex [OF hexl])
  next
    case False
    have hexr: "\<forall>g \<in> set (groups_of r). hex_group g"
    proof (rule all_hex [OF parts(1)])
      show "groups_of r = [] \<or> hex_group (last (groups_of r))" using parts(2) False by (auto simp: groups_of_def split: if_splits)
    qed
    have "CHR ''.'' \<notin> set l" "CHR ''.'' \<notin> set r"
      using hexl hexr by (auto intro!: hex_parts_no_dot hex_groups_free)
    then have "CHR ''.'' \<notin> set t" by (simp add: t)
    then have "unquad t = t" by (simp add: unquad_def trailing_quad_none)
    then show ?thesis using assms(1) by (simp add: group_values_hex [OF hexl] group_values_hex [OF hexr])
  qed
qed

lemma parse_hex_bound: "list_all hex_char s \<Longrightarrow> parse_hex s < 16 ^ length s"
proof (induction s rule: rev_induct)
  case (snoc c s)
  have "hex_digit c < 16" using snoc.prems by (auto simp: hex_char_def digit_def hex_digit_def Let_def)
  then show ?case using snoc by (simp add: parse_hex_snoc)
qed (simp add: parse_hex_def)

lemma hex_group_bound: "hex_group g \<Longrightarrow> parse_hex g < 65536"
proof -
  assume g: "hex_group g"
  then have "parse_hex g < 16 ^ length g" by (intro parse_hex_bound) (simp add: hex_group_def)
  also have "(16 :: nat) ^ length g \<le> 16 ^ 4" using g by (intro power_increasing) (auto simp: hex_group_def)
  finally show ?thesis by simp
qed

lemma group_values_bound: "group_count quad gs = Some n \<Longrightarrow> v \<in> set (group_values gs) \<Longrightarrow> v < 65536"
proof (induction quad gs arbitrary: n rule: group_count.induct)
  case (2 quad g)
  show ?case
  proof (cases "hex_group g")
    case False
    then have "is_ipv4 g" using "2.prems" by (auto split: if_splits)
    then obtain a b c d where "ipv4_octets g = [a, b, c, d]" "a < 256" "b < 256" "c < 256" "d < 256" by (rule unquad_parts_ipv4)
    then show ?thesis using "2.prems" False by auto
  qed (use "2.prems" hex_group_bound in auto)
qed (auto simp: hex_group_bound split: if_splits)

lemma ipv6_address_groups:
  assumes "is_ipv6_address t"
  shows "length (ipv6_groups t) = 8 \<and> (\<forall>v \<in> set (ipv6_groups t). v < 65536) \<and>
    (case split_double_colon [] (unquad t) of
       None \<Rightarrow> map parse_hex (groups_of (unquad t)) = ipv6_groups t
     | Some (l, r) \<Rightarrow> ipv6_groups t =
         map parse_hex (groups_of l) @ replicate (8 - length (groups_of l) - length (groups_of r)) 0 @ map parse_hex (groups_of r))"
proof (cases "split_double_colon [] t")
  case None
  then have c: "group_count True (groups_of t) = Some 8" using assms by (simp add: is_ipv6_address_def)
  then show ?thesis
    using plain_groups [OF None c] group_count_parts [OF c] group_values_bound [OF c] None by (simp add: ipv6_groups_def)
next
  case (Some lr)
  obtain l r where lr: "split_double_colon [] t = Some (l, r)" using Some by (cases lr) auto
  obtain m n where mn: "group_count False (groups_of l) = Some m" "group_count True (groups_of r) = Some n" "m + n \<le> 7"
    using assms lr by (auto simp: is_ipv6_address_def split: option.splits)
  obtain r' where r': "split_double_colon [] (unquad t) = Some (l, r')"
      "map parse_hex (groups_of l) = group_values (groups_of l)" "map parse_hex (groups_of r') = group_values (groups_of r)"
    using compressed_groups [OF lr mn(1,2)] by blast
  have lens: "length (groups_of l) = m" "length (groups_of r') = n" "length (group_values (groups_of l)) = m"
      "length (group_values (groups_of r)) = n"
    using group_count_parts [OF mn(1)] group_count_parts [OF mn(2)] r'(2,3) by (metis length_map)+
  have "ipv6_groups t = group_values (groups_of l) @ replicate (8 - m - n) 0 @ group_values (groups_of r)"
    using lr lens by (simp add: ipv6_groups_def)
  then show ?thesis using r' lens mn(3) group_values_bound [OF mn(1)] group_values_bound [OF mn(2)] by auto
qed

lemma ipv6_address_not_ipv4: "is_ipv6_address t \<Longrightarrow> \<not> is_ipv4 t"
proof
  assume t: "is_ipv6_address t" "is_ipv4 t"
  then have "CHR '':'' \<notin> set t" using is_ipv4_chars [OF t(2), of "CHR '':''"] by (auto simp: digit_def)
  then have "split_double_colon [] t = None" "groups_of t = (if t = [] then [] else [t])"
    by (auto simp: double_colon_free groups_of_def split_on_free)
  then show False using t(1) by (auto simp: is_ipv6_address_def split: if_splits)
qed

text \<open>The bytes the code computes are those of the address the platform reads.\<close>

lemma ipv6_bytes_correct:
  assumes "is_ipv6 a"
  shows "ipv6_bytes a = Some (bytes_of_groups (ipv6_groups (hd (split_on CHR ''%'' a)))) \<and>
         length (ipv6_groups (hd (split_on CHR ''%'' a))) = 8 \<and> (\<forall>v \<in> set (ipv6_groups (hd (split_on CHR ''%'' a))). v < 65536)"
proof -
  let ?t = "hd (split_on CHR ''%'' a)"
  have t: "is_ipv6_address ?t" using assms by (auto simp: is_ipv6_def split: list.splits)
  have "CHR ''%'' \<notin> set ?t" using split_on_pieces [of ?t "CHR ''%''" a] by simp
  then have "split_on CHR ''%'' ?t = [?t]" by (rule split_on_free)
  then have six: "is_ip ?t = 6" using t ipv6_address_not_ipv4 [OF t] by (simp add: is_ip_def is_ipv6_def)
  have bytes: "concat (map (\<lambda>g. [parse_hex g div 256, parse_hex g mod 256]) gs) = bytes_of_groups (map parse_hex gs)" for gs
    by (simp add: bytes_of_groups_def comp_def)
  have zero: "parse_hex ''0'' = 0" by (simp add: parse_hex_def hex_digit_def)
  show ?thesis
  proof (cases "split_double_colon [] (unquad ?t)")
    case None
    then have "map parse_hex (groups_of (unquad ?t)) = ipv6_groups ?t" "length (ipv6_groups ?t) = 8"
        "\<forall>v \<in> set (ipv6_groups ?t). v < 65536" using ipv6_address_groups [OF t] by auto
    moreover from this(1,2) have "length (groups_of (unquad ?t)) = 8" by (metis length_map)
    ultimately show ?thesis using None six by (simp add: ipv6_bytes_def bytes)
  next
    case (Some lr)
    obtain l r where lr: "split_double_colon [] (unquad ?t) = Some (l, r)" using Some by (cases lr) auto
    let ?gs = "groups_of l @ replicate (8 - length (groups_of l) - length (groups_of r)) ''0'' @ groups_of r"
    have g: "ipv6_groups ?t = map parse_hex ?gs" "length (ipv6_groups ?t) = 8" "\<forall>v \<in> set (ipv6_groups ?t). v < 65536"
      using ipv6_address_groups [OF t] lr zero by auto
    from g(1,2) have "length ?gs = 8" by (metis length_map)
    then have "ipv6_bytes a = Some (concat (map (\<lambda>g. [parse_hex g div 256, parse_hex g mod 256]) ?gs))"
      using lr six by (simp add: ipv6_bytes_def Let_def)
    then show ?thesis unfolding bytes g(1) [symmetric] using g(2,3) by simp
  qed
qed

section \<open>The policy on bits\<close>

lemma length_bytes_of_groups: "length (bytes_of_groups gs) = 2 * length gs"
  by (induction gs) (auto simp: bytes_of_groups_def)

lemma bytes_of_groups_bound: "\<forall>v \<in> set gs. v < 65536 \<Longrightarrow> \<forall>b \<in> set (bytes_of_groups gs). b < 256"
  by (induction gs) (auto simp: bytes_of_groups_def)

lemma length_byte_bits [simp]: "length (byte_bits b) = 8"
  by (simp add: byte_bits_def)

lemma bits_of_bytes_simps [simp]:
  "bits_of_bytes [] = []" "bits_of_bytes (b # bs) = byte_bits b @ bits_of_bytes bs"
  "bits_of_bytes (bs @ cs) = bits_of_bytes bs @ bits_of_bytes cs"
  by (simp_all add: bits_of_bytes_def)

lemma length_bits_of_bytes [simp]: "length (bits_of_bytes bs) = 8 * length bs"
  by (induction bs) auto

lemma take_bits_of_bytes: "take (8 * n) (bits_of_bytes bs) = bits_of_bytes (take n bs)"
proof (induction bs arbitrary: n)
  case (Cons b bs)
  then show ?case by (cases n) auto
qed simp

lemma drop_bits_of_bytes: "drop (8 * n) (bits_of_bytes bs) = bits_of_bytes (drop n bs)"
proof (induction bs arbitrary: n)
  case (Cons b bs)
  then show ?case by (cases n) auto
qed simp

lemma byte_bits_inj:
  assumes "a < 256" "b < 256" "byte_bits a = byte_bits b"
  shows "a = b"
proof (rule bit_eqI)
  fix n :: nat
  show "bit a n \<longleftrightarrow> bit b n"
  proof (cases "n < 8")
    case True
    then have "n \<in> set [7, 6, 5, 4, 3, 2, 1, 0]" by auto
    then show ?thesis using assms(3) unfolding byte_bits_def bit_iff_odd map_eq_conv by blast
  next
    case False
    then have "(2 :: nat) ^ 8 \<le> 2 ^ n" by (intro power_increasing) auto
    then have "a < 2 ^ n" "b < 2 ^ n" using assms(1,2) by auto
    then show ?thesis by (simp add: bit_iff_odd)
  qed
qed

lemma bits_of_bytes_inj:
  "length as = length bs \<Longrightarrow> \<forall>b \<in> set as \<union> set bs. b < 256 \<Longrightarrow> bits_of_bytes as = bits_of_bytes bs \<longleftrightarrow> as = bs"
proof (induction as bs rule: list_induct2)
  case (Cons a as b bs)
  have "bits_of_bytes (a # as) = bits_of_bytes (b # bs) \<longleftrightarrow> byte_bits a = byte_bits b \<and> bits_of_bytes as = bits_of_bytes bs"
    by (simp only: bits_of_bytes_simps append_eq_append_conv [OF disjI1] length_byte_bits)
  moreover have "byte_bits a = byte_bits b \<longleftrightarrow> a = b" using byte_bits_inj [of a b] Cons.prems by auto
  moreover have "bits_of_bytes as = bits_of_bytes bs \<longleftrightarrow> as = bs" using Cons by (intro Cons.IH) auto
  ultimately show ?case by blast
qed simp

text \<open>The IPv4 bits an address reaches by construction: mapped, compatible, well-known NAT64, 6to4.\<close>

definition embedded_bits :: "bool list \<Rightarrow> bool list option" where
  "embedded_bits v =
     (if take 96 v = bits_of_bytes (replicate 10 0 @ [255, 255]) \<or> take 96 v = bits_of_bytes (replicate 12 0) \<or>
         take 96 v = bits_of_bytes ([0, 100, 255, 155] @ replicate 8 0)
      then Some (drop 96 v)
      else if take 16 v = bits_of_bytes [32, 2] then Some (take 32 (drop 16 v))
      else None)"

definition mapped :: "bool list \<Rightarrow> bool list" where
  "mapped w = bits_of_bytes (replicate 10 0 @ [255, 255]) @ w"

definition reached :: "bool list \<Rightarrow> bool list" where
  "reached v = (case embedded_bits v of Some w \<Rightarrow> mapped w | None \<Rightarrow> v)"

lemma show_nat_head: "n > 0 \<Longrightarrow> hd (show_nat n) \<noteq> CHR ''0''"
proof (induction n rule: show_nat.induct)
  case (1 n)
  show ?case
  proof (cases "n < 10")
    case True
    have "char_of (48 + n) \<noteq> CHR ''0''"
    proof
      assume "char_of (48 + n) = CHR ''0''"
      then have "digit_value (char_of (48 + n)) = 0" by (simp add: digit_value_def)
      then show False using digit_char_of [OF True] 1(2) by simp
    qed
    then show ?thesis using True by (simp add: show_nat.simps [of n])
  next
    case False
    then show ?thesis using 1 digits_show_nat [of "n div 10"] by (simp add: show_nat.simps [of n])
  qed
qed

lemma short_show_nat: "n < 1000 \<Longrightarrow> length (show_nat n) \<le> 3 \<and> (length (show_nat n) = 1 \<or> n > 0)"
  by (simp add: show_nat.simps [of n] show_nat.simps [of "n div 10"] show_nat.simps [of "n div 10 div 10"])

lemma octet_show_nat: "b < 256 \<Longrightarrow> octet (show_nat b)"
  using short_show_nat [of b] show_nat_head [of b] digits_show_nat [of b] by (auto simp: octet_def)

lemma quad_text_ipv4:
  assumes "length bs = 4" "\<forall>b \<in> set bs. b < 256"
  shows "is_ipv4 (quad_text bs) \<and> ipv4_octets (quad_text bs) = bs"
proof -
  have "CHR ''.'' \<notin> set (show_nat b)" for b
    using digits_show_nat [of b] digit_not_colon by (auto simp: list_all_iff)
  moreover have "map show_nat bs \<noteq> []" using assms(1) by auto
  ultimately have "split_on CHR ''.'' (quad_text bs) = map show_nat bs"
    unfolding quad_text_def by (intro split_join) auto
  then show ?thesis using assms by (auto simp: is_ipv4_def ipv4_octets_def list_all_iff octet_show_nat comp_def)
qed

lemma sixteen:
  assumes "length bytes = 16"
  obtains a b c d e f g h i j k l m n p q where "bytes = [a, b, c, d, e, f, g, h, i, j, k, l, m, n, p, q :: nat]"
  using assms by (auto simp: length_Suc_conv eval_nat_numeral)

lemma embedded_ipv4_bits:
  assumes "is_ipv6 a" "address_bits IPv6 a = Some v"
  shows "case embedded_ipv4 a of
      None \<Rightarrow> embedded_bits v = None
    | Some s \<Rightarrow> \<exists>w. embedded_bits v = Some w \<and> address_bits IPv4 s = Some (mapped w)"
proof -
  define bytes where "bytes = bytes_of_groups (ipv6_groups (hd (split_on CHR ''%'' a)))"
  have b: "ipv6_bytes a = Some bytes" "length bytes = 16" "\<forall>b \<in> set bytes. b < 256"
    using ipv6_bytes_correct [OF assms(1)] bytes_of_groups_bound by (auto simp: bytes_def length_bytes_of_groups)
  have v: "v = bits_of_bytes bytes" using assms by (simp add: address_bits_def bytes_def)
  obtain a0 a1 a2 a3 a4 a5 a6 a7 a8 a9 a10 a11 a12 a13 a14 a15
    where e: "bytes = [a0, a1, a2, a3, a4, a5, a6, a7, a8, a9, a10, a11, a12, a13, a14, a15]"
    using b(2) by (rule sixteen)
  have t96: "take 96 v = bits_of_bytes (take 12 bytes)" and t16: "take 16 v = bits_of_bytes (take 2 bytes)"
    and d96: "drop 96 v = bits_of_bytes (drop 12 bytes)"
    using take_bits_of_bytes [of 12 bytes] take_bits_of_bytes [of 2 bytes] drop_bits_of_bytes [of 12 bytes] by (simp_all add: v)
  have d16: "take 32 (drop 16 v) = bits_of_bytes (take 4 (drop 2 bytes))"
    using drop_bits_of_bytes [of 2 bytes] take_bits_of_bytes [of 4 "drop 2 bytes"] by (simp add: v)
  have p: "bits_of_bytes (take 12 bytes) = bits_of_bytes xs \<longleftrightarrow> take 12 bytes = xs"
    if "length xs = 12" "\<forall>x \<in> set xs. x < 256" for xs
    using that b by (intro bits_of_bytes_inj) (auto dest: in_set_takeD)
  have p2: "bits_of_bytes (take 2 bytes) = bits_of_bytes [32, 2] \<longleftrightarrow> take 2 bytes = [32, 2]"
    using b by (intro bits_of_bytes_inj) (auto dest: in_set_takeD)
  have q: "address_bits IPv4 (quad_text bs) = Some (mapped (bits_of_bytes bs))" if "length bs = 4" "\<forall>x \<in> set bs. x < 256" for bs
    using quad_text_ipv4 [OF that] by (simp add: address_bits_def mapped_bits_def mapped_def)
  have parts: "take 12 bytes = [a0, a1, a2, a3, a4, a5, a6, a7, a8, a9, a10, a11]" "take 2 bytes = [a0, a1]"
      "drop 12 bytes = [a12, a13, a14, a15]" "take 4 (drop 2 bytes) = [a2, a3, a4, a5]" "take 4 (drop 12 bytes) = [a12, a13, a14, a15]"
      "take 10 bytes = [a0, a1, a2, a3, a4, a5, a6, a7, a8, a9]" "take 8 (drop 4 bytes) = [a4, a5, a6, a7, a8, a9, a10, a11]"
      "bytes ! 0 = a0" "bytes ! Suc 0 = a1" "bytes ! 2 = a2" "bytes ! 3 = a3" "bytes ! 10 = a10" "bytes ! 11 = a11"
    by (simp_all add: e)
  have q12: "address_bits IPv4 (quad_text (drop 12 bytes)) = Some (mapped (bits_of_bytes (drop 12 bytes)))"
    and q2: "address_bits IPv4 (quad_text (take 4 (drop 2 bytes))) = Some (mapped (bits_of_bytes (take 4 (drop 2 bytes))))"
    by (rule q; use b in \<open>auto dest: in_set_takeD in_set_dropD\<close>)+
  have r: "replicate 8 (0 :: nat) = [0, 0, 0, 0, 0, 0, 0, 0]" "replicate 10 (0 :: nat) = [0, 0, 0, 0, 0, 0, 0, 0, 0, 0]"
      "replicate 12 (0 :: nat) = [0, 0, 0, 0, 0, 0, 0, 0, 0, 0, 0, 0]"
    by (simp_all add: numeral_eq_Suc)
  define is_mapped is_compat is_nat64 is_6to4
    where "is_mapped \<longleftrightarrow> take 12 bytes = replicate 10 0 @ [255, 255]"
      and "is_compat \<longleftrightarrow> take 12 bytes = replicate 12 0"
      and "is_nat64 \<longleftrightarrow> take 12 bytes = [0, 100, 255, 155] @ replicate 8 0"
      and "is_6to4 \<longleftrightarrow> take 2 bytes = [32, 2]"
  have code: "embedded_ipv4 a = (if is_mapped \<or> is_compat \<or> is_nat64 then Some (quad_text (drop 12 bytes))
      else if is_6to4 then Some (quad_text (take 4 (drop 2 bytes))) else None)"
    unfolding embedded_ipv4_def b(1) is_mapped_def is_compat_def is_nat64_def is_6to4_def
    by (simp add: parts r conj_assoc)
  have p12: "bits_of_bytes (take 12 bytes) = bits_of_bytes (replicate 10 0 @ [255, 255]) \<longleftrightarrow> take 12 bytes = replicate 10 0 @ [255, 255]"
      "bits_of_bytes (take 12 bytes) = bits_of_bytes (replicate 12 0) \<longleftrightarrow> take 12 bytes = replicate 12 0"
      "bits_of_bytes (take 12 bytes) = bits_of_bytes ([0, 100, 255, 155] @ replicate 8 0) \<longleftrightarrow>
       take 12 bytes = [0, 100, 255, 155] @ replicate 8 0"
    by (rule p; simp)+
  have ref: "embedded_bits v = (if is_mapped \<or> is_compat \<or> is_nat64 then Some (bits_of_bytes (drop 12 bytes))
      else if is_6to4 then Some (bits_of_bytes (take 4 (drop 2 bytes))) else None)"
    unfolding embedded_bits_def t96 t16 d96 d16 p2 is_mapped_def is_compat_def is_nat64_def is_6to4_def
    by (simp only: p12)
  show ?thesis unfolding code ref using q12 q2 by simp
qed

text \<open>The bits of the blocked networks, evaluated once.\<close>

lemma replicate_num: "replicate (numeral k) x = x # replicate (pred_numeral k) x"
  by (simp add: numeral_eq_Suc)



lemmas address_eval = address_bits_def mapped_bits_def ipv4_octets_def is_ipv4_def octet_def decimal_def digit_def digit_value_def

lemmas ipv6_eval = is_ipv6_def is_ipv6_address_def groups_of_def hex_group_def hex_char_def ipv6_groups_def
  bytes_of_groups_def parse_hex_def hex_digit_def

definition blocked_table :: "(nat \<times> nat list) list" where
  "blocked_table =
     [(104, [0, 0, 0, 0, 0, 0, 0, 0, 0, 0, 255, 255, 0, 0, 0, 0]),
      (104, [0, 0, 0, 0, 0, 0, 0, 0, 0, 0, 255, 255, 10, 0, 0, 0]),
      (106, [0, 0, 0, 0, 0, 0, 0, 0, 0, 0, 255, 255, 100, 64, 0, 0]),
      (104, [0, 0, 0, 0, 0, 0, 0, 0, 0, 0, 255, 255, 127, 0, 0, 0]),
      (112, [0, 0, 0, 0, 0, 0, 0, 0, 0, 0, 255, 255, 169, 254, 0, 0]),
      (108, [0, 0, 0, 0, 0, 0, 0, 0, 0, 0, 255, 255, 172, 16, 0, 0]),
      (120, [0, 0, 0, 0, 0, 0, 0, 0, 0, 0, 255, 255, 192, 0, 0, 0]),
      (120, [0, 0, 0, 0, 0, 0, 0, 0, 0, 0, 255, 255, 192, 0, 2, 0]),
      (112, [0, 0, 0, 0, 0, 0, 0, 0, 0, 0, 255, 255, 192, 168, 0, 0]),
      (111, [0, 0, 0, 0, 0, 0, 0, 0, 0, 0, 255, 255, 198, 18, 0, 0]),
      (120, [0, 0, 0, 0, 0, 0, 0, 0, 0, 0, 255, 255, 198, 51, 100, 0]),
      (120, [0, 0, 0, 0, 0, 0, 0, 0, 0, 0, 255, 255, 203, 0, 113, 0]),
      (100, [0, 0, 0, 0, 0, 0, 0, 0, 0, 0, 255, 255, 224, 0, 0, 0]),
      (100, [0, 0, 0, 0, 0, 0, 0, 0, 0, 0, 255, 255, 240, 0, 0, 0]),
      (128, [0, 0, 0, 0, 0, 0, 0, 0, 0, 0, 0, 0, 0, 0, 0, 0]),
      (128, [0, 0, 0, 0, 0, 0, 0, 0, 0, 0, 0, 0, 0, 0, 0, 1]),
      (48, [0, 100, 255, 155, 0, 1, 0, 0, 0, 0, 0, 0, 0, 0, 0, 0]),
      (64, [1, 0, 0, 0, 0, 0, 0, 0, 0, 0, 0, 0, 0, 0, 0, 0]),
      (10, [254, 192, 0, 0, 0, 0, 0, 0, 0, 0, 0, 0, 0, 0, 0, 0]),
      (7, [252, 0, 0, 0, 0, 0, 0, 0, 0, 0, 0, 0, 0, 0, 0, 0]),
      (10, [254, 128, 0, 0, 0, 0, 0, 0, 0, 0, 0, 0, 0, 0, 0, 0]),
      (8, [255, 0, 0, 0, 0, 0, 0, 0, 0, 0, 0, 0, 0, 0, 0, 0]),
      (32, [32, 1, 13, 184, 0, 0, 0, 0, 0, 0, 0, 0, 0, 0, 0, 0])]"

lemma blocked_bits: "map network_bits blocked_networks = map (\<lambda>(k, bs). take k (bits_of_bytes bs)) blocked_table"
  by (simp add: blocked_networks_def blocked_table_def network_bits_def address_eval ipv6_eval Let_def replicate_num
      del: bits_of_bytes_simps)

lemma blocked_shape: "list_all (\<lambda>(k, bs). k \<le> 128 \<and> length bs = 16) blocked_table"
  by (simp add: blocked_table_def)

lemma blocked_beginning:
  assumes "n \<in> set blocked_networks" "in_network v n" "take l v = bits_of_bytes p"
  obtains k bs where "(k, bs) \<in> set blocked_table" "network_bits n = take k (bits_of_bytes bs)"
    "length (network_bits n) = k" "take (min l k) (bits_of_bytes p) = take (min l k) (bits_of_bytes bs)"
proof -
  have "network_bits n \<in> set (map (\<lambda>(k, bs). take k (bits_of_bytes bs)) blocked_table)"
    using assms(1) unfolding blocked_bits [symmetric] by simp
  then obtain k bs where k: "(k, bs) \<in> set blocked_table" "network_bits n = take k (bits_of_bytes bs)" by auto
  have "k \<le> 128" "length bs = 16" using blocked_shape k(1) by (auto simp: list_all_iff)
  then have len: "length (network_bits n) = k" by (simp add: k(2))
  let ?m = "min l k"
  have "take ?m (bits_of_bytes p) = take ?m v"
    using arg_cong [OF assms(3), of "take ?m"] by (simp add: take_take min_absorb1)
  moreover have "take ?m (bits_of_bytes bs) = take ?m v"
    using arg_cong [OF assms(2) [unfolded in_network_def len], of "take ?m"] by (simp add: k(2) take_take min_absorb1)
  ultimately show thesis using that k len by metis
qed

lemma r12: "replicate 12 (0 :: nat) = [0, 0, 0, 0, 0, 0, 0, 0, 0, 0, 0, 0]" and r8: "replicate 8 (0 :: nat) = [0, 0, 0, 0, 0, 0, 0, 0]"
  by (simp_all add: replicate_num)

lemma no_blocked_6to4:
  "list_all (\<lambda>(k, bs). take (min 16 k) (bits_of_bytes [32, 2]) \<noteq> take (min 16 k) (bits_of_bytes bs)) blocked_table"
  by (simp add: blocked_table_def Let_def byte_bits_def)

lemma no_blocked_nat64:
  "list_all (\<lambda>(k, bs). take (min 96 k) (bits_of_bytes [0, 100, 255, 155, 0, 0, 0, 0, 0, 0, 0, 0]) \<noteq> take (min 96 k) (bits_of_bytes bs)) blocked_table"
  by (simp add: blocked_table_def Let_def byte_bits_def)

lemma blocked_compatible:
  "list_all (\<lambda>(k, bs). take (min 96 k) (bits_of_bytes [0, 0, 0, 0, 0, 0, 0, 0, 0, 0, 0, 0]) = take (min 96 k) (bits_of_bytes bs) \<longrightarrow>
     k = 128 \<and> bs \<in> {[0, 0, 0, 0, 0, 0, 0, 0, 0, 0, 0, 0, 0, 0, 0, 0], [0, 0, 0, 0, 0, 0, 0, 0, 0, 0, 0, 0, 0, 0, 0, 1]}) blocked_table"
  by (simp add: blocked_table_def Let_def byte_bits_def)

lemma this_host_bits:
  "network_bits (hd blocked_networks) = take 104 (bits_of_bytes [0, 0, 0, 0, 0, 0, 0, 0, 0, 0, 255, 255, 0, 0, 0, 0])"
  using blocked_bits by (simp add: blocked_networks_def blocked_table_def)

lemma this_host: "length w = 32 \<Longrightarrow> take 8 w = byte_bits 0 \<Longrightarrow> in_network (mapped w) (hd blocked_networks)"
  using take_bits_of_bytes [of 13 "[0, 0, 0, 0, 0, 0, 0, 0, 0, 0, 255, 255, 0, 0, 0, 0]"]
  by (simp add: in_network_def this_host_bits mapped_def replicate_num)

text \<open>Judging an address by the IPv4 one it embeds lets no blocked address through.\<close>

lemma blocked_reached:
  assumes "length v = 128" "n \<in> set blocked_networks" "in_network v n"
  shows "\<exists>m \<in> set blocked_networks. in_network (reached v) m"
proof -
  note beginning = blocked_beginning [OF assms(2,3)]
  consider "take 96 v = bits_of_bytes (replicate 10 0 @ [255, 255])" | "take 96 v = bits_of_bytes (replicate 12 0)"
    | "take 96 v = bits_of_bytes ([0, 100, 255, 155] @ replicate 8 0)" | "take 16 v = bits_of_bytes [32, 2]"
    | "embedded_bits v = None"
    by (metis embedded_bits_def)
  then show ?thesis
  proof cases
    case 1
    then have "reached v = v" by (simp only: reached_def embedded_bits_def mapped_def) (metis append_take_drop_id option.simps(5))
    then show ?thesis using assms by auto
  next
    case 2
    then have "take 96 v = bits_of_bytes [0, 0, 0, 0, 0, 0, 0, 0, 0, 0, 0, 0]" by (simp only: r12)
    then obtain k bs where "(k, bs) \<in> set blocked_table" "network_bits n = take k (bits_of_bytes bs)"
        "length (network_bits n) = k" "take (min 96 k) (bits_of_bytes [0, 0, 0, 0, 0, 0, 0, 0, 0, 0, 0, 0]) = take (min 96 k) (bits_of_bytes bs)"
      by (rule beginning)
    then have n: "length (network_bits n) = 128" "drop 96 (network_bits n) = bits_of_bytes (drop 12 bs)"
        "bs \<in> {[0, 0, 0, 0, 0, 0, 0, 0, 0, 0, 0, 0, 0, 0, 0, 0], [0, 0, 0, 0, 0, 0, 0, 0, 0, 0, 0, 0, 0, 0, 0, 1]}"
      using blocked_compatible drop_bits_of_bytes [of 12 bs] by (auto simp: list_all_iff simp del: bits_of_bytes_simps)
    then have "network_bits n = v" using assms(1,3) by (simp add: in_network_def)
    then have "length (drop 96 v) = 32" "take 8 (drop 96 v) = byte_bits 0" using n by auto
    then have "in_network (mapped (drop 96 v)) (hd blocked_networks)" by (rule this_host)
    moreover have "reached v = mapped (drop 96 v)" using 2 by (simp only: reached_def embedded_bits_def) simp
    moreover have "hd blocked_networks \<in> set blocked_networks" by (simp add: blocked_networks_def)
    ultimately show ?thesis by auto
  next
    case 3
    then have "take 96 v = bits_of_bytes [0, 100, 255, 155, 0, 0, 0, 0, 0, 0, 0, 0]" by (simp only: r8 append.simps)
    then obtain k bs where "(k, bs) \<in> set blocked_table"
        "take (min 96 k) (bits_of_bytes [0, 100, 255, 155, 0, 0, 0, 0, 0, 0, 0, 0]) = take (min 96 k) (bits_of_bytes bs)"
      by (rule beginning)
    then show ?thesis using no_blocked_nat64 by (auto simp: list_all_iff simp del: bits_of_bytes_simps)
  next
    case 4
    then obtain k bs where "(k, bs) \<in> set blocked_table" "take (min 16 k) (bits_of_bytes [32, 2]) = take (min 16 k) (bits_of_bytes bs)"
      by (rule beginning)
    then show ?thesis using no_blocked_6to4 by (auto simp: list_all_iff simp del: bits_of_bytes_simps)
  next
    case 5
    then show ?thesis using assms by (auto simp: reached_def)
  qed
qed

definition family_of :: "nat \<Rightarrow> ip_family" where
  "family_of f = (if f = 6 then IPv6 else IPv4)"

lemma address_bits_length: "address_bits family a = Some v \<Longrightarrow> length v = 128"
proof (cases family)
  case IPv4
  assume a: "address_bits family a = Some v"
  then have i: "is_ipv4 a" "v = mapped_bits (ipv4_octets a)" using IPv4 by (auto simp: address_bits_def split: if_splits)
  obtain w x y z where "ipv4_octets a = [w, x, y, z]" using i(1) by (rule unquad_parts_ipv4)
  then show ?thesis using i by (simp add: mapped_bits_def)
next
  case IPv6
  assume a: "address_bits family a = Some v"
  then have i: "is_ipv6 a" using IPv6 by (auto simp: address_bits_def split: if_splits)
  then show ?thesis using a IPv6 ipv6_bytes_correct [OF i] by (auto simp: address_bits_def length_bytes_of_groups)
qed

lemma reached_ipv4: "address_bits IPv4 a = Some v \<Longrightarrow> reached v = v"
  by (auto simp: address_bits_def mapped_bits_def reached_def embedded_bits_def mapped_def split: if_splits)

text \<open>The verdict in terms of bits.\<close>

lemma address_is_allowed_bits:
  assumes "\<not> trusted_origin cfg" "parse_allowed_cidrs (cf_admin_allowed_cidrs cfg) = Some allowed"
    and "address_bits (family_of f) a = Some v"
  shows "address_is_allowed cfg a f = Some
    ((\<exists>n \<in> set allowed. in_network v n \<or> in_network (reached v) n) \<or> (\<forall>n \<in> set blocked_networks. \<not> in_network (reached v) n))"
proof -
  have judge: "judge_address cfg family address rest = (if \<exists>n \<in> set allowed. in_network w n then Some True else rest)"
    if "address_bits family address = Some w" for family address w rest
    using assms(1,2) that by (simp add: judge_address_def block_check_def list_ex_iff)
  have clear: "not_blocked family address = Some (\<forall>n \<in> set blocked_networks. \<not> in_network w n)"
    if "address_bits family address = Some w" for family address w
    using that by (auto simp: not_blocked_def block_check_def list_ex_iff)
  show ?thesis
  proof (cases "f = 6")
    case True
    then have six: "address_bits IPv6 a = Some v" using assms(3) by (simp add: family_of_def)
    then have valid: "is_ipv6 a" by (auto simp: address_bits_def split: if_splits)
    note e = embedded_ipv4_bits [OF valid six]
    show ?thesis
    proof (cases "embedded_ipv4 a")
      case None
      then have "reached v = v" using e by (simp add: reached_def)
      then show ?thesis using True None six by (simp add: address_is_allowed_def judge [OF six] clear [OF six])
    next
      case (Some s)
      then obtain w where w: "embedded_bits v = Some w" "address_bits IPv4 s = Some (mapped w)" using e by auto
      then have "reached v = mapped w" by (simp add: reached_def)
      then show ?thesis using True Some
        by (auto simp: address_is_allowed_def judge [OF six] judge [OF w(2)] clear [OF w(2)])
    qed
  next
    case False
    then have four: "address_bits IPv4 a = Some v" using assms(3) by (simp add: family_of_def)
    then show ?thesis using False reached_ipv4 [OF four]
      by (simp add: address_is_allowed_def judge [OF four] clear [OF four])
  qed
qed

text \<open>What a connection to the gateway is opened to: a literal address checked when the dispatcher is made, or what
  the guarded lookup hands over.\<close>

definition connects_to :: "config \<Rightarrow> string \<Rightarrow> dns_answer \<Rightarrow> (string \<times> nat) list" where
  "connects_to cfg hostname answer =
     (let address = strip_brackets hostname in
      if assert_literal_address_allowed cfg hostname \<noteq> Proceeds then []
      else if is_ip address \<noteq> 0 then [(address, is_ip address)]
      else case secure_lookup cfg answer of Some (Inr ok) \<Rightarrow> dns_addresses ok | _ \<Rightarrow> [])"

lemma some_denied_False: "some_denied cfg as = Some False \<Longrightarrow> (a, f) \<in> set as \<Longrightarrow> address_is_allowed cfg a f = Some True"
  by (induction cfg as rule: some_denied.induct) (auto split: option.splits if_splits)

lemma secure_lookup_allowed:
  "secure_lookup cfg answer = Some (Inr ok) \<Longrightarrow> (a, f) \<in> set (dns_addresses ok) \<Longrightarrow> address_is_allowed cfg a f = Some True"
  by (cases answer) (auto simp: secure_lookup_def split: if_splits dest: some_denied_False)

lemma connects_allowed: "(a, f) \<in> set (connects_to cfg hostname answer) \<Longrightarrow> address_is_allowed cfg a f = Some True"
  by (auto simp: connects_to_def assert_literal_address_allowed_def Let_def
      split: if_splits option.splits sum.splits dest: secure_lookup_allowed secure_lookup_allowed [OF sym])

text \<open>C33: A gateway origin that was set at run time is never reached at a private address. Whatever its name resolves
  to, an address the BFF connects to either lies, itself or by the IPv4 address it reaches by construction, in a
  network the operator allowed, or lies in no blocked network, and neither does the IPv4 address it is
  mapped to, compatible with, translated to by the well-known NAT64 prefix or tunnelled to by 6to4.\<close>

theorem connections_confined:
  assumes "\<not> trusted_origin cfg" "parse_allowed_cidrs (cf_admin_allowed_cidrs cfg) = Some allowed"
    and "(a, f) \<in> set (connects_to cfg hostname answer)" "address_bits (family_of f) a = Some v"
  shows "(\<exists>n \<in> set allowed. in_network v n \<or> in_network (reached v) n) \<or>
         (\<forall>n \<in> set blocked_networks. \<not> in_network v n \<and> \<not> in_network (reached v) n)"
  using address_is_allowed_bits [OF assms(1,2,4)] connects_allowed [OF assms(3)]
    blocked_reached [OF address_bits_length [OF assms(4)]] by auto

definition sample_target :: config where
  "sample_target = sample_config\<lparr>cf_admin_url := ''https://edge.example'', cf_initial_admin_origin := ''https://edge'',
     cf_admin_allowed_cidrs := []\<rparr>"

lemma some_blocked:
  "(\<exists>n \<in> set blocked_networks. in_network v n) \<longleftrightarrow>
   list_ex (\<lambda>(k, bs). take k v = take k (bits_of_bytes bs)) blocked_table"
proof -
  have "(\<exists>n \<in> set blocked_networks. in_network v n) \<longleftrightarrow>
        (\<exists>b \<in> set (map network_bits blocked_networks). take (length b) v = b)"
    by (simp add: in_network_def)
  then show ?thesis using blocked_shape unfolding blocked_bits by (fastforce simp: list_ex_iff list_all_iff)
qed

definition nat64_bits :: "nat list \<Rightarrow> bool list" where
  "nat64_bits quad = bits_of_bytes ([0, 100, 255, 155, 0, 0, 0, 0, 0, 0, 0, 0] @ quad)"

lemma reached_nat64: "length quad = 4 \<Longrightarrow> reached (nat64_bits quad) = mapped (bits_of_bytes quad)"
  using take_bits_of_bytes [of 12 "[0, 100, 255, 155, 0, 0, 0, 0, 0, 0, 0, 0] @ quad"]
    drop_bits_of_bytes [of 12 "[0, 100, 255, 155, 0, 0, 0, 0, 0, 0, 0, 0] @ quad"]
  by (simp add: reached_def embedded_bits_def nat64_bits_def r8)

lemma sample_bits:
  "address_bits IPv6 ''64:ff9b::808:808'' = Some (nat64_bits [8, 8, 8, 8])"
  "address_bits IPv6 ''64:ff9b::a9fe:a9fe'' = Some (nat64_bits [169, 254, 169, 254])"
  by (simp_all add: address_eval ipv6_eval Let_def replicate_num nat64_bits_def del: bits_of_bytes_simps)

lemma sample_blocked:
  "list_ex (\<lambda>(k, bs). take k (mapped (bits_of_bytes [169, 254, 169, 254])) = take k (bits_of_bytes bs)) blocked_table"
  "\<not> list_ex (\<lambda>(k, bs). take k (mapped (bits_of_bytes [8, 8, 8, 8])) = take k (bits_of_bytes bs)) blocked_table"
  by (simp_all add: blocked_table_def mapped_def byte_bits_def replicate_num)

theorem connections_confined_witness:
  "secure_lookup sample_target (All_addresses [(''64:ff9b::a9fe:a9fe'', 6)]) = Some (Inl ''EACCES'') \<and>
   connects_to sample_target ''edge.example'' (All_addresses [(''64:ff9b::808:808'', 6)]) = [(''64:ff9b::808:808'', 6)] \<and>
   \<not> list_ex (in_network (nat64_bits [8, 8, 8, 8])) blocked_networks \<and>
   \<not> list_ex (in_network (reached (nat64_bits [8, 8, 8, 8]))) blocked_networks"
proof -
  have cfg: "\<not> trusted_origin sample_target" "parse_allowed_cidrs (cf_admin_allowed_cidrs sample_target) = Some []"
    by (simp_all add: trusted_origin_def sample_target_def)
  have verdict: "address_is_allowed sample_target a 6 = Some (\<not> list_ex (\<lambda>(k, bs). take k (mapped (bits_of_bytes quad)) = take k (bits_of_bytes bs)) blocked_table)"
    if "address_bits IPv6 a = Some (nat64_bits quad)" "length quad = 4" for a quad
    using address_is_allowed_bits [OF cfg, of 6 a] that reached_nat64 [OF that(2)] some_blocked
    by (auto simp: family_of_def)
  have v: "address_is_allowed sample_target ''64:ff9b::808:808'' 6 = Some True"
      "address_is_allowed sample_target ''64:ff9b::a9fe:a9fe'' 6 = Some False"
    using verdict [OF sample_bits(1)] verdict [OF sample_bits(2)] sample_blocked by simp_all
  have "is_ip ''edge.example'' = 0" "strip_brackets ''edge.example'' = ''edge.example''"
    by (simp_all add: is_ip_def address_eval ipv6_eval strip_brackets_def)
  then have c: "connects_to sample_target ''edge.example'' (All_addresses [(''64:ff9b::808:808'', 6)]) = [(''64:ff9b::808:808'', 6)]"
    using v(1) by (simp add: connects_to_def assert_literal_address_allowed_def secure_lookup_def dns_addresses_def)
  have "(\<exists>n \<in> set ([] :: cidr list). in_network (nat64_bits [8, 8, 8, 8]) n \<or> in_network (reached (nat64_bits [8, 8, 8, 8])) n) \<or>
        (\<forall>n \<in> set blocked_networks. \<not> in_network (nat64_bits [8, 8, 8, 8]) n \<and> \<not> in_network (reached (nat64_bits [8, 8, 8, 8])) n)"
    by (rule connections_confined [OF cfg, of "''64:ff9b::808:808''" 6 "''edge.example''" "All_addresses [(''64:ff9b::808:808'', 6)]"])
      (simp_all add: c family_of_def sample_bits)
  then show ?thesis using c v(2) by (simp add: secure_lookup_def dns_addresses_def list_ex_iff)
qed

end
