(* ===== verification/Dispatchers.thy ===== *)
theory Dispatchers
  imports NetworkPolicy TrustBundle
begin

text \<open>
  The connections to the gateway (\<open>server/tls.ts\<close>): the cache in front of the trust bundle, the fingerprint of a
  connection policy, and the dispatchers that are kept, replaced and retired. Loading a bundle is
  \<open>TrustBundle\<close>; what the file system answers at each call, the certificate parser and the digest are arguments; an undici agent is what it
  was created with.
\<close>

section \<open>The cache in front of the read\<close>

record ca_cache =
  cc_config :: "string \<times> string option"
  cc_identity :: string
  cc_checked :: int
  cc_bundle :: ca_bundle

definition CA_RECHECK_INTERVAL :: int where "CA_RECHECK_INTERVAL = 1000"

text \<open>One resolution of the bundle: the two clock readings, the text \<open>caFileIdentity\<close> gives at its successive
  calls (\<open>None\<close>: it throws), and what the file system answers to the successive loads.\<close>

record ca_world =
  cw_now :: int
  cw_later :: int
  cw_identity :: "nat \<Rightarrow> string option"
  cw_loads :: "nat \<Rightarrow> ca_load"

definition load_now :: "crypto \<Rightarrow> ca_world \<Rightarrow> string \<times> string option \<Rightarrow> nat \<Rightarrow> ca_error + ca_bundle" where
  "load_now cr w ident attempt = load_ca_bundle cr (fst ident) (snd ident) MAX_CA_BUNDLE_BYTES (cw_loads w attempt)"

fun read_stable :: "crypto \<Rightarrow> ca_world \<Rightarrow> string \<times> string option \<Rightarrow> string \<Rightarrow> nat \<Rightarrow> nat \<Rightarrow> (ca_error + ca_bundle) \<times> ca_cache option" where
  "read_stable cr w ident identity attempt 0 = (Inl Changed_meanwhile, None)"
| "read_stable cr w ident identity attempt (Suc left) =
     (case load_now cr w ident attempt of
        Inl e \<Rightarrow> (Inl e, None)
      | Inr bundle \<Rightarrow>
          (case cw_identity w (Suc attempt) of
             None \<Rightarrow> (load_now cr w ident (Suc attempt), None)
           | Some after \<Rightarrow>
               if identity = after
               then (Inr bundle, Some \<lparr>cc_config = ident, cc_identity = after, cc_checked = cw_later w, cc_bundle = bundle\<rparr>)
               else read_stable cr w ident after (Suc attempt) left))"

definition is_https :: "config \<Rightarrow> bool" where
  "is_https cfg \<longleftrightarrow> starts_with ''https://'' (cf_admin_url cfg)"

definition current_ca_bundle :: "crypto \<Rightarrow> config \<Rightarrow> ca_world \<Rightarrow> ca_cache option \<Rightarrow> (ca_error + ca_bundle option) \<times> ca_cache option" where
  "current_ca_bundle cr cfg w cache =
     (case (if is_https cfg then cf_tls_ca_path cfg else None) of
        None \<Rightarrow> (Inr None, None)
      | Some path \<Rightarrow>
          if path = [] then (Inr None, None)
          else let ident = (path, cf_tls_ca_root cfg);
                   cached = (case cache of Some c \<Rightarrow> if cc_config c = ident then Some c else None | None \<Rightarrow> None) in
          (case cached of
             Some c \<Rightarrow>
               if 0 \<le> cw_now w - cc_checked c \<and> cw_now w - cc_checked c < CA_RECHECK_INTERVAL
               then (Inr (Some (cc_bundle c)), cache)
               else (case cw_identity w 0 of
                  None \<Rightarrow> (map_sum id Some (load_now cr w ident 0), cache)
                | Some identity \<Rightarrow>
                    if cc_identity c = identity
                    then (Inr (Some (cc_bundle c)), Some (c\<lparr>cc_checked := cw_now w\<rparr>))
                    else (case read_stable cr w ident identity 0 2 of
                       (r, stored) \<Rightarrow> (map_sum id Some r, if stored = None then cache else stored)))
           | None \<Rightarrow>
               (case cw_identity w 0 of
                  None \<Rightarrow> (map_sum id Some (load_now cr w ident 0), cache)
                | Some identity \<Rightarrow>
                    (case read_stable cr w ident identity 0 2 of
                       (r, stored) \<Rightarrow> (map_sum id Some r, if stored = None then cache else stored)))))"

section \<open>Dispatchers\<close>

datatype pool = Proxy_pool | Probe_pool

definition PROBE_CONNECTIONS :: int where "PROBE_CONNECTIONS = 4"

record conn_fingerprint =
  fp_origin :: string
  fp_connections :: int
  fp_connect_timeout :: int
  fp_tls_verify :: bool
  fp_ca_path :: "string option"
  fp_ca_fingerprint :: "utf16 option"
  fp_ca_root :: "string option"
  fp_cidrs :: "string list"

definition dispatcher_fingerprint :: "config \<Rightarrow> ca_bundle option \<Rightarrow> int \<Rightarrow> conn_fingerprint" where
  "dispatcher_fingerprint cfg bundle connections =
     \<lparr>fp_origin = cf_admin_url cfg, fp_connections = connections, fp_connect_timeout = cf_connect_timeout cfg,
      fp_tls_verify = cf_tls_verify cfg, fp_ca_path = map_option cb_path bundle,
      fp_ca_fingerprint = map_option cb_fingerprint bundle, fp_ca_root = cf_tls_ca_root cfg,
      fp_cidrs = cf_admin_allowed_cidrs cfg\<rparr>"

text \<open>An agent is an object of its own with the options it was created with; its lookup is \<open>secure_lookup ag_config\<close>.\<close>

record agent =
  ag_id :: nat
  ag_config :: config
  ag_connections :: int
  ag_timeout :: int
  ag_verify :: "bool option"
  ag_ca :: "utf16 option"

record dispatchers =
  ds_proxy :: "(conn_fingerprint \<times> agent) option"
  ds_probe :: "(conn_fingerprint \<times> agent) option"
  ds_retiring :: "agent list"
  ds_cache :: "ca_cache option"
  ds_created :: nat

definition no_dispatchers :: dispatchers where
  "no_dispatchers = \<lparr>ds_proxy = None, ds_probe = None, ds_retiring = [], ds_cache = None, ds_created = 0\<rparr>"

definition active_dispatcher :: "pool \<Rightarrow> dispatchers \<Rightarrow> (conn_fingerprint \<times> agent) option" where
  "active_dispatcher p ds = (case p of Proxy_pool \<Rightarrow> ds_proxy ds | Probe_pool \<Rightarrow> ds_probe ds)"

definition set_active :: "pool \<Rightarrow> conn_fingerprint \<times> agent \<Rightarrow> dispatchers \<Rightarrow> dispatchers" where
  "set_active p d ds = (case p of Proxy_pool \<Rightarrow> ds\<lparr>ds_proxy := Some d\<rparr> | Probe_pool \<Rightarrow> ds\<lparr>ds_probe := Some d\<rparr>)"

definition create_dispatcher :: "config \<Rightarrow> string \<Rightarrow> ca_bundle option \<Rightarrow> int \<Rightarrow> nat \<Rightarrow> agent option" where
  "create_dispatcher cfg hostname bundle connections n =
     (if assert_literal_address_allowed cfg hostname \<noteq> Proceeds then None
      else Some \<lparr>ag_id = n, ag_config = cfg, ag_connections = connections, ag_timeout = cf_connect_timeout cfg,
                 ag_verify = (if is_https cfg then Some (cf_tls_verify cfg) else None),
                 ag_ca = (if is_https cfg then map_option cb_pem bundle else None)\<rparr>)"

definition retire_dispatcher :: "agent \<Rightarrow> dispatchers \<Rightarrow> dispatchers" where
  "retire_dispatcher a ds = (if a \<in> set (ds_retiring ds) then ds else ds\<lparr>ds_retiring := ds_retiring ds @ [a]\<rparr>)"

text \<open>\<open>None\<close>: the request fails (the bundle cannot be read, or a literal address is refused).\<close>

definition select_dispatcher :: "crypto \<Rightarrow> pool \<Rightarrow> config \<Rightarrow> string \<Rightarrow> int \<Rightarrow> ca_world \<Rightarrow> dispatchers \<Rightarrow> agent option \<times> dispatchers" where
  "select_dispatcher cr p cfg hostname connections w ds =
     (case current_ca_bundle cr cfg w (ds_cache ds) of
        (Inl e, cache) \<Rightarrow> (None, ds\<lparr>ds_cache := cache\<rparr>)
      | (Inr bundle, cache) \<Rightarrow>
          let ds1 = ds\<lparr>ds_cache := cache\<rparr>; fp = dispatcher_fingerprint cfg bundle connections;
              active = active_dispatcher p ds1 in
          if map_option fst active = Some fp then (map_option snd active, ds1)
          else case create_dispatcher cfg hostname bundle connections (ds_created ds1) of
            None \<Rightarrow> (None, ds1)
          | Some next_agent \<Rightarrow>
              let ds2 = set_active p (fp, next_agent) (ds1\<lparr>ds_created := Suc (ds_created ds1)\<rparr>) in
              (Some next_agent, case active of Some (_, a) \<Rightarrow> retire_dispatcher a ds2 | None \<Rightarrow> ds2))"

definition get_dispatcher :: "crypto \<Rightarrow> config \<Rightarrow> string \<Rightarrow> ca_world \<Rightarrow> dispatchers \<Rightarrow> agent option \<times> dispatchers" where
  "get_dispatcher cr cfg hostname w = select_dispatcher cr Proxy_pool cfg hostname (cf_gateway_max_connections cfg) w"

definition get_probe_dispatcher :: "crypto \<Rightarrow> config \<Rightarrow> string \<Rightarrow> ca_world \<Rightarrow> dispatchers \<Rightarrow> agent option \<times> dispatchers" where
  "get_probe_dispatcher cr cfg hostname w = select_dispatcher cr Probe_pool cfg hostname PROBE_CONNECTIONS w"

definition agents_of :: "(conn_fingerprint \<times> agent) option \<Rightarrow> agent list" where
  "agents_of d = (case d of Some (_, a) \<Rightarrow> [a] | None \<Rightarrow> [])"

definition close_dispatchers :: "dispatchers \<Rightarrow> dispatchers" where
  "close_dispatchers ds =
     fold retire_dispatcher (agents_of (ds_proxy ds) @ agents_of (ds_probe ds))
       (ds\<lparr>ds_proxy := None, ds_probe := None, ds_cache := None\<rparr>)"

definition agent_closed :: "agent \<Rightarrow> dispatchers \<Rightarrow> dispatchers" where
  "agent_closed a ds = ds\<lparr>ds_retiring := filter (\<lambda>b. b \<noteq> a) (ds_retiring ds)\<rparr>"

section \<open>Runs\<close>

datatype dispatch_event =
    Proxied config string ca_world
  | Probed config string ca_world
  | Agent_closed agent
  | Close_all

text \<open>The state, and what was handed out: the pool, the configuration and the bundle of the request, and the agent.\<close>

type_synonym handed = "pool \<times> config \<times> ca_bundle option \<times> agent"

definition resolved_bundle :: "crypto \<Rightarrow> config \<Rightarrow> ca_world \<Rightarrow> dispatchers \<Rightarrow> ca_bundle option" where
  "resolved_bundle cr cfg w ds = (case fst (current_ca_bundle cr cfg w (ds_cache ds)) of Inr b \<Rightarrow> b | Inl _ \<Rightarrow> None)"

definition dispatch_step :: "crypto \<Rightarrow> dispatch_event \<Rightarrow> dispatchers \<times> handed list \<Rightarrow> dispatchers \<times> handed list" where
  "dispatch_step cr e = (\<lambda>(ds, handed).
     case e of
       Proxied cfg hostname w \<Rightarrow>
         (case get_dispatcher cr cfg hostname w ds of
            (None, ds') \<Rightarrow> (ds', handed)
          | (Some a, ds') \<Rightarrow> (ds', handed @ [(Proxy_pool, cfg, resolved_bundle cr cfg w ds, a)]))
     | Probed cfg hostname w \<Rightarrow>
         (case get_probe_dispatcher cr cfg hostname w ds of
            (None, ds') \<Rightarrow> (ds', handed)
          | (Some a, ds') \<Rightarrow> (ds', handed @ [(Probe_pool, cfg, resolved_bundle cr cfg w ds, a)]))
     | Agent_closed a \<Rightarrow> (agent_closed a ds, handed)
     | Close_all \<Rightarrow> (close_dispatchers ds, handed))"

definition dispatch_run :: "crypto \<Rightarrow> dispatch_event list \<Rightarrow> dispatchers \<times> handed list" where
  "dispatch_run cr events = fold (dispatch_step cr) events (no_dispatchers, [])"

section \<open>The invariant\<close>

text \<open>A bundle one of the worlds \<open>W\<close> loaded from \<open>ident\<close>, a path and its root.\<close>

definition loaded_from :: "crypto \<Rightarrow> ca_world set \<Rightarrow> string \<times> string option \<Rightarrow> ca_bundle \<Rightarrow> bool" where
  "loaded_from cr W ident b \<longleftrightarrow>
     (\<exists>w \<in> W. \<exists>k. load_ca_bundle cr (fst ident) (snd ident) MAX_CA_BUNDLE_BYTES (cw_loads w k) = Inr b)"

definition bundle_ok :: "crypto \<Rightarrow> ca_world set \<Rightarrow> ca_bundle \<Rightarrow> bool" where
  "bundle_ok cr W b \<longleftrightarrow> (\<exists>ident. loaded_from cr W ident b)"

definition cache_ok :: "crypto \<Rightarrow> ca_world set \<Rightarrow> ca_cache option \<Rightarrow> bool" where
  "cache_ok cr W cache \<longleftrightarrow> (\<forall>c. cache = Some c \<longrightarrow> loaded_from cr W (cc_config c) (cc_bundle c))"

text \<open>The bundle a request of configuration \<open>cfg\<close> is to be served with.\<close>

definition bundle_of_config :: "crypto \<Rightarrow> ca_world set \<Rightarrow> config \<Rightarrow> ca_bundle option \<Rightarrow> bool" where
  "bundle_of_config cr W cfg b \<longleftrightarrow>
     (if is_https cfg \<and> cf_tls_ca_path cfg \<noteq> None \<and> cf_tls_ca_path cfg \<noteq> Some []
      then \<exists>c. b = Some c \<and> loaded_from cr W (the (cf_tls_ca_path cfg), cf_tls_ca_root cfg) c else b = None)"

lemma loaded_digest: "loaded_from cr W ident b \<Longrightarrow> cb_fingerprint b = cr_sha256 cr (cb_pem b)"
  using load_digest by (auto simp: loaded_from_def)

lemma load_now_from: "w \<in> W \<Longrightarrow> load_now cr w ident k = Inr b \<Longrightarrow> loaded_from cr W ident b"
  unfolding loaded_from_def load_now_def by blast

lemma read_stable_ok:
  "w \<in> W \<Longrightarrow> read_stable cr w ident identity k n = (r, stored) \<Longrightarrow>
   (\<forall>b. r = Inr b \<longrightarrow> loaded_from cr W ident b) \<and> cache_ok cr W stored"
  by (induction cr w ident identity k n rule: read_stable.induct)
    (auto simp: cache_ok_def load_now_from split: sum.splits option.splits if_splits)

lemma current_ca_bundle_ok:
  assumes "w \<in> W" "cache_ok cr W cache" "current_ca_bundle cr cfg w cache = (r, cache')"
  shows "(\<forall>b. r = Inr b \<longrightarrow> bundle_of_config cr W cfg b) \<and> cache_ok cr W cache'"
proof (cases "is_https cfg \<and> cf_tls_ca_path cfg \<noteq> None \<and> cf_tls_ca_path cfg \<noteq> Some []")
  case False
  then show ?thesis using assms(3) unfolding current_ca_bundle_def
    by (cases "cf_tls_ca_path cfg") (auto simp: cache_ok_def bundle_of_config_def split: if_splits)
next
  case True
  then obtain path where path: "cf_tls_ca_path cfg = Some path" "path \<noteq> []" "is_https cfg" by auto
  let ?ident = "(path, cf_tls_ca_root cfg)"
  have asked: "bundle_of_config cr W cfg (Some b) \<longleftrightarrow> loaded_from cr W ?ident b" "\<not> bundle_of_config cr W cfg None" for b
    using path by (auto simp: bundle_of_config_def)
  have direct: "bundle_of_config cr W cfg b" if "map_sum id Some (load_now cr w ?ident 0) = Inr b" for b
    using that load_now_from [OF assms(1)] asked by (cases "load_now cr w ?ident 0") auto
  have stable: "(\<forall>b. map_sum id Some r' = Inr b \<longrightarrow> bundle_of_config cr W cfg b) \<and> cache_ok cr W (if stored = None then cache else stored)"
    if "read_stable cr w ?ident identity 0 2 = (r', stored)" for identity r' stored
    using read_stable_ok [OF assms(1) that] assms(2) asked by (cases r') auto
  show ?thesis
    using assms(2,3) direct stable path asked unfolding current_ca_bundle_def Let_def
    by (auto simp: cache_ok_def split: option.splits if_splits prod.splits)
qed

definition pool_connections :: "pool \<Rightarrow> config \<Rightarrow> int" where
  "pool_connections p cfg = (case p of Proxy_pool \<Rightarrow> cf_gateway_max_connections cfg | Probe_pool \<Rightarrow> PROBE_CONNECTIONS)"

definition made_for :: "crypto \<Rightarrow> ca_world set \<Rightarrow> string \<Rightarrow> conn_fingerprint \<Rightarrow> agent \<Rightarrow> bool" where
  "made_for cr W origin fp a \<longleftrightarrow> cf_initial_admin_origin (ag_config a) = origin \<and>
     (\<exists>b. (\<forall>c. b = Some c \<longrightarrow> bundle_ok cr W c) \<and>
          fp = dispatcher_fingerprint (ag_config a) b (ag_connections a) \<and>
          ag_timeout a = cf_connect_timeout (ag_config a) \<and>
          ag_verify a = (if is_https (ag_config a) then Some (cf_tls_verify (ag_config a)) else None) \<and>
          ag_ca a = (if is_https (ag_config a) then map_option cb_pem b else None))"

definition live_agents :: "dispatchers \<Rightarrow> agent list" where
  "live_agents ds = agents_of (ds_proxy ds) @ agents_of (ds_probe ds)"

definition dispatchers_inv :: "crypto \<Rightarrow> ca_world set \<Rightarrow> string \<Rightarrow> dispatchers \<Rightarrow> bool" where
  "dispatchers_inv cr W origin ds \<longleftrightarrow>
     (\<forall>p fp a. active_dispatcher p ds = Some (fp, a) \<longrightarrow> made_for cr W origin fp a) \<and>
     cache_ok cr W (ds_cache ds) \<and>
     (\<forall>a \<in> set (live_agents ds @ ds_retiring ds). ag_id a < ds_created ds) \<and>
     distinct (map ag_id (live_agents ds @ ds_retiring ds))"

text \<open>What a handed-out agent has to do with the request it was handed out for.\<close>

definition served_as_asked :: "crypto \<Rightarrow> ca_world set \<Rightarrow> string \<Rightarrow> handed \<Rightarrow> bool" where
  "served_as_asked cr W origin = (\<lambda>(p, cfg, b, a).
     bundle_of_config cr W cfg b \<and>
     cf_admin_url (ag_config a) = cf_admin_url cfg \<and> cf_admin_allowed_cidrs (ag_config a) = cf_admin_allowed_cidrs cfg \<and>
     cf_initial_admin_origin (ag_config a) = origin \<and> cf_initial_admin_origin cfg = origin \<and>
     ag_connections a = pool_connections p cfg \<and> ag_timeout a = cf_connect_timeout cfg \<and>
     ag_verify a = (if is_https cfg then Some (cf_tls_verify cfg) else None) \<and>
     ag_ca a = (if is_https cfg then map_option cb_pem b else None))"

lemma retire_inv:
  assumes "dispatchers_inv cr W origin ds" "a \<notin> set (live_agents ds)" "ag_id a \<notin> ag_id ` set (live_agents ds @ ds_retiring ds)"
    "ag_id a < ds_created ds"
  shows "dispatchers_inv cr W origin (retire_dispatcher a ds)"
  using assms by (auto simp: dispatchers_inv_def retire_dispatcher_def active_dispatcher_def live_agents_def split: pool.splits)

text \<open>The texts of all the bundles that can be loaded in the worlds \<open>W\<close>: the digest is to tell them apart.\<close>

definition loaded_texts :: "crypto \<Rightarrow> ca_world set \<Rightarrow> utf16 set" where
  "loaded_texts cr W = {cb_pem b |b. bundle_ok cr W b}"

lemma config_bundle_ok: "bundle_of_config cr W cfg b \<Longrightarrow> b = Some c \<Longrightarrow> bundle_ok cr W c"
  by (auto simp: bundle_of_config_def bundle_ok_def split: if_splits)

lemma served_by_fingerprint:
  assumes "inj_on (cr_sha256 cr) (loaded_texts cr W)" "made_for cr W origin (dispatcher_fingerprint cfg b connections) a"
    "bundle_of_config cr W cfg b" "connections = pool_connections p cfg" "cf_initial_admin_origin cfg = origin"
  shows "served_as_asked cr W origin (p, cfg, b, a)"
proof -
  obtain b' where b': "\<forall>c. b' = Some c \<longrightarrow> bundle_ok cr W c"
      "dispatcher_fingerprint cfg b connections = dispatcher_fingerprint (ag_config a) b' (ag_connections a)"
      "ag_timeout a = cf_connect_timeout (ag_config a)"
      "ag_verify a = (if is_https (ag_config a) then Some (cf_tls_verify (ag_config a)) else None)"
      "ag_ca a = (if is_https (ag_config a) then map_option cb_pem b' else None)"
    using assms(2) by (auto simp: made_for_def)
  have same: "cb_pem c = cb_pem c'" if "b = Some c" "b' = Some c'" for c c'
  proof (rule inj_onD [OF assms(1)])
    have ok: "bundle_ok cr W c" "bundle_ok cr W c'" using that b'(1) config_bundle_ok [OF assms(3)] by auto
    then show "cb_pem c \<in> loaded_texts cr W" "cb_pem c' \<in> loaded_texts cr W" by (auto simp: loaded_texts_def)
    have "cb_fingerprint c = cb_fingerprint c'" using that b'(2) by (simp add: dispatcher_fingerprint_def)
    moreover have "cb_fingerprint c = cr_sha256 cr (cb_pem c)" "cb_fingerprint c' = cr_sha256 cr (cb_pem c')"
      using ok loaded_digest unfolding bundle_ok_def by blast+
    ultimately show "cr_sha256 cr (cb_pem c) = cr_sha256 cr (cb_pem c')" by simp
  qed
  have both: "b = None \<longleftrightarrow> b' = None" using b'(2) by (auto simp: dispatcher_fingerprint_def)
  have "map_option cb_pem b = map_option cb_pem b'"
  proof (cases b)
    case (Some c)
    then obtain c' where "b' = Some c'" using both by auto
    with Some same [of c c'] show ?thesis by simp
  qed (use both in simp)
  moreover have "cf_admin_url (ag_config a) = cf_admin_url cfg" "cf_admin_allowed_cidrs (ag_config a) = cf_admin_allowed_cidrs cfg"
      "cf_connect_timeout (ag_config a) = cf_connect_timeout cfg" "cf_tls_verify (ag_config a) = cf_tls_verify cfg"
      "ag_connections a = connections"
    using b'(2) by (simp_all add: dispatcher_fingerprint_def)
  moreover have "cf_initial_admin_origin (ag_config a) = origin" using assms(2) by (simp add: made_for_def)
  ultimately show ?thesis using b'(3,4,5) assms(3,4,5) by (simp add: served_as_asked_def is_https_def)
qed

lemma select_ok:
  assumes inv: "dispatchers_inv cr W origin ds" and dig: "inj_on (cr_sha256 cr) (loaded_texts cr W)" and w: "w \<in> W"
    and cfg: "cf_initial_admin_origin cfg = origin" "connections = pool_connections p cfg"
    and sel: "select_dispatcher cr p cfg hostname connections w ds = (r, ds')"
  shows "dispatchers_inv cr W origin ds' \<and> (\<forall>a. r = Some a \<longrightarrow> served_as_asked cr W origin (p, cfg, resolved_bundle cr cfg w ds, a))"
proof -
  obtain rb cache where cur: "current_ca_bundle cr cfg w (ds_cache ds) = (rb, cache)" by fastforce
  have ok: "\<forall>b. rb = Inr b \<longrightarrow> bundle_of_config cr W cfg b" "cache_ok cr W cache"
    using current_ca_bundle_ok [OF w _ cur] inv by (auto simp: dispatchers_inv_def)
  let ?ds1 = "ds\<lparr>ds_cache := cache\<rparr>"
  have inv1: "dispatchers_inv cr W origin ?ds1"
    using inv ok(2) by (auto simp: dispatchers_inv_def active_dispatcher_def live_agents_def split: pool.splits)
  show ?thesis
  proof (cases rb)
    case (Inl e)
    then show ?thesis using sel cur inv1 by (simp add: select_dispatcher_def)
  next
    case (Inr ob)
    have res: "resolved_bundle cr cfg w ds = ob" using cur Inr by (simp add: resolved_bundle_def)
    let ?fp = "dispatcher_fingerprint cfg ob connections"
    have bok: "bundle_of_config cr W cfg ob" using ok(1) Inr by auto
    then have bok': "\<forall>c. ob = Some c \<longrightarrow> bundle_ok cr W c" using config_bundle_ok by blast
    show ?thesis
    proof (cases "map_option fst (active_dispatcher p ?ds1) = Some ?fp")
      case True
      then obtain a where a: "active_dispatcher p ?ds1 = Some (?fp, a)" by auto
      then have "made_for cr W origin ?fp a" using inv1 by (auto simp: dispatchers_inv_def)
      then show ?thesis using sel cur Inr a inv1 res served_by_fingerprint [OF dig _ bok cfg(2,1)]
        by (auto simp: select_dispatcher_def)
    next
      case fresh: False
      show ?thesis
      proof (cases "create_dispatcher cfg hostname ob connections (ds_created ds)")
        case None
        then show ?thesis using sel cur Inr fresh inv1 by (auto simp: select_dispatcher_def Let_def)
      next
        case (Some a)
        have made: "made_for cr W origin ?fp a" "ag_id a = ds_created ds"
          using Some cfg(1) bok' by (auto simp: create_dispatcher_def made_for_def split: if_splits)
        have ds': "r = Some a" "ds' = (case active_dispatcher p ?ds1 of
            Some (_, b) \<Rightarrow> retire_dispatcher b (set_active p (?fp, a) (?ds1\<lparr>ds_created := Suc (ds_created ds)\<rparr>))
          | None \<Rightarrow> set_active p (?fp, a) (?ds1\<lparr>ds_created := Suc (ds_created ds)\<rparr>))"
          using sel cur Inr fresh Some by (auto simp: select_dispatcher_def Let_def split: option.splits)
        have "dispatchers_inv cr W origin ds'"
          using inv1 made unfolding ds'(2)
          by (cases p; cases "ds_proxy ds"; cases "ds_probe ds")
            (fastforce simp: dispatchers_inv_def active_dispatcher_def set_active_def live_agents_def agents_of_def
              retire_dispatcher_def split: pool.splits prod.splits)+
        then show ?thesis using ds'(1) served_by_fingerprint [OF dig made(1) bok cfg(2,1)] res by simp
      qed
    qed
  qed
qed

definition emptied :: "dispatchers \<Rightarrow> dispatchers" where
  "emptied ds = ds\<lparr>ds_proxy := None, ds_probe := None, ds_cache := None\<rparr>"

lemma close_inv:
  assumes "dispatchers_inv cr W origin ds"
  shows "dispatchers_inv cr W origin (close_dispatchers ds) \<and> live_agents (close_dispatchers ds) = []"
proof -
  have retire: "live_agents (retire_dispatcher a ds) = live_agents ds" for a ds
    by (simp add: retire_dispatcher_def live_agents_def)
  have step: "dispatchers_inv cr W origin (fold retire_dispatcher as ds) \<and> live_agents (fold retire_dispatcher as ds) = []"
    if "dispatchers_inv cr W origin ds" "live_agents ds = []" "distinct (map ag_id (as @ ds_retiring ds))"
      "\<forall>a \<in> set as. ag_id a < ds_created ds" for as ds
    using that
  proof (induction as arbitrary: ds)
    case (Cons a as)
    have "dispatchers_inv cr W origin (retire_dispatcher a ds)"
      using Cons.prems by (intro retire_inv) auto
    moreover have "live_agents (retire_dispatcher a ds) = []" using Cons.prems(2) by (simp add: retire)
    moreover have "distinct (map ag_id (as @ ds_retiring (retire_dispatcher a ds)))"
        "ds_created (retire_dispatcher a ds) = ds_created ds"
      using Cons.prems(3) by (auto simp: retire_dispatcher_def)
    ultimately show ?case using Cons.IH Cons.prems(4) by simp
  qed simp
  have "dispatchers_inv cr W origin (emptied ds)" "live_agents (emptied ds) = []"
      "distinct (map ag_id (live_agents ds @ ds_retiring (emptied ds)))" "\<forall>a \<in> set (live_agents ds). ag_id a < ds_created (emptied ds)"
    using assms by (auto simp: dispatchers_inv_def emptied_def live_agents_def active_dispatcher_def agents_of_def cache_ok_def
        split: pool.splits)
  then show ?thesis using step unfolding close_dispatchers_def emptied_def live_agents_def by blast
qed

lemma agent_closed_inv: "dispatchers_inv cr W origin ds \<Longrightarrow> dispatchers_inv cr W origin (agent_closed a ds)"
  by (auto simp: dispatchers_inv_def agent_closed_def active_dispatcher_def live_agents_def distinct_map
      intro: inj_on_subset split: pool.splits)

text \<open>A run in which the environment's origin is one; \<open>worlds_of\<close> is what its requests found.\<close>

fun event_ok :: "string \<Rightarrow> dispatch_event \<Rightarrow> bool" where
  "event_ok origin (Proxied cfg h w) \<longleftrightarrow> cf_initial_admin_origin cfg = origin"
| "event_ok origin (Probed cfg h w) \<longleftrightarrow> cf_initial_admin_origin cfg = origin"
| "event_ok origin _ \<longleftrightarrow> True"

fun event_world :: "dispatch_event \<Rightarrow> ca_world set" where
  "event_world (Proxied cfg h w) = {w}"
| "event_world (Probed cfg h w) = {w}"
| "event_world _ = {}"

definition worlds_of :: "dispatch_event list \<Rightarrow> ca_world set" where
  "worlds_of events = \<Union>(event_world ` set events)"

lemma dispatch_step_ok:
  assumes "dispatchers_inv cr W origin ds" "inj_on (cr_sha256 cr) (loaded_texts cr W)" "event_ok origin e" "event_world e \<subseteq> W"
    and "\<forall>h \<in> set handed. served_as_asked cr W origin h" "dispatch_step cr e (ds, handed) = (ds', handed')"
  shows "dispatchers_inv cr W origin ds' \<and> (\<forall>h \<in> set handed'. served_as_asked cr W origin h)"
proof (cases e)
  case (Proxied cfg h w)
  obtain r d where g: "get_dispatcher cr cfg h w ds = (r, d)" by fastforce
  then have "dispatchers_inv cr W origin d \<and> (\<forall>a. r = Some a \<longrightarrow> served_as_asked cr W origin (Proxy_pool, cfg, resolved_bundle cr cfg w ds, a))"
    using select_ok [OF assms(1,2), of w cfg _ Proxy_pool h r d] assms(3,4) Proxied
    by (simp add: get_dispatcher_def pool_connections_def)
  then show ?thesis using assms(5,6) Proxied g by (auto simp: dispatch_step_def split: option.splits)
next
  case (Probed cfg h w)
  obtain r d where g: "get_probe_dispatcher cr cfg h w ds = (r, d)" by fastforce
  then have "dispatchers_inv cr W origin d \<and> (\<forall>a. r = Some a \<longrightarrow> served_as_asked cr W origin (Probe_pool, cfg, resolved_bundle cr cfg w ds, a))"
    using select_ok [OF assms(1,2), of w cfg _ Probe_pool h r d] assms(3,4) Probed
    by (simp add: get_probe_dispatcher_def pool_connections_def)
  then show ?thesis using assms(5,6) Probed g by (auto simp: dispatch_step_def split: option.splits)
next
  case (Agent_closed a)
  then show ?thesis using assms agent_closed_inv by (auto simp: dispatch_step_def)
next
  case Close_all
  then show ?thesis using assms close_inv by (auto simp: dispatch_step_def)
qed

lemma dispatch_run_ok:
  assumes "inj_on (cr_sha256 cr) (loaded_texts cr (worlds_of events))" "\<forall>e \<in> set events. event_ok origin e"
    "dispatch_run cr events = (ds, handed)" "W = worlds_of events"
  shows "dispatchers_inv cr W origin ds \<and> (\<forall>h \<in> set handed. served_as_asked cr W origin h)"
proof -
  have steps: "dispatchers_inv cr W origin ds \<and> (\<forall>h \<in> set handed. served_as_asked cr W origin h)"
    if "fold (dispatch_step cr) es (ds0, handed0) = (ds, handed)" "dispatchers_inv cr W origin ds0"
      "\<forall>h \<in> set handed0. served_as_asked cr W origin h" "set es \<subseteq> set events" for es ds0 handed0
    using that
  proof (induction es arbitrary: ds0 handed0)
    case (Cons e es)
    obtain ds1 handed1 where s: "dispatch_step cr e (ds0, handed0) = (ds1, handed1)" by fastforce
    have "event_ok origin e" "event_world e \<subseteq> W" using Cons.prems(4) assms(2,4) by (auto simp: worlds_of_def)
    then have "dispatchers_inv cr W origin ds1 \<and> (\<forall>h \<in> set handed1. served_as_asked cr W origin h)"
      using dispatch_step_ok [OF Cons.prems(2) _ _ _ Cons.prems(3) s] assms(1,4) by simp
    then show ?case using Cons.IH [of ds1 handed1] Cons.prems(1,4) s by simp
  qed simp
  have "dispatchers_inv cr W origin no_dispatchers"
    by (auto simp: dispatchers_inv_def no_dispatchers_def active_dispatcher_def live_agents_def agents_of_def cache_ok_def split: pool.splits)
  then show ?thesis using assms(3) steps [of events no_dispatchers "[]"] by (simp add: dispatch_run_def)
qed

text \<open>The destination policy depends on the origin, the environment's origin and the allowed networks only.\<close>

lemma same_policy:
  assumes "cf_admin_url c = cf_admin_url d" "cf_initial_admin_origin c = cf_initial_admin_origin d"
    "cf_admin_allowed_cidrs c = cf_admin_allowed_cidrs d"
  shows "connects_to c = connects_to d"
proof -
  have judge: "judge_address c = judge_address d"
    using assms by (intro ext) (simp add: judge_address_def trusted_origin_def)
  then have allowed: "address_is_allowed c = address_is_allowed d" unfolding fun_eq_iff address_is_allowed_def judge by simp
  have denied: "some_denied c as = some_denied d as" for as
    by (induction as) (auto simp: allowed split: option.splits)
  have lookups: "secure_lookup c = secure_lookup d" unfolding fun_eq_iff secure_lookup_def denied by simp
  have literal: "assert_literal_address_allowed c = assert_literal_address_allowed d"
    unfolding fun_eq_iff assert_literal_address_allowed_def allowed by simp
  show ?thesis unfolding fun_eq_iff connects_to_def lookups literal by simp
qed

text \<open>C34: A connection never outlives the policy it was made under. Whatever requests, probes, settings changes,
  trust file changes, closings and read failures came before, the agent a request is given opens connections to
  exactly the addresses the request's own configuration permits, verifies the gateway as it says, within its timeout
  and its pool's ceiling. It trusts, for an https origin with a trust file, exactly the text of a bundle that was loaded, in this run,
  from the path and under the root the request's own configuration names, and otherwise no bundle. An agent that is being retired is never
  one in use, and the probe and the proxy never share one. The environment's origin is taken to be the same throughout,
  and the digest (SHA-256) to have no collision among the texts of the bundles loaded in the run.\<close>

theorem connections_carry_their_policy:
  assumes "inj_on (cr_sha256 cr) (loaded_texts cr (worlds_of events))" "\<forall>e \<in> set events. event_ok origin e"
    and "dispatch_run cr events = (ds, handed)" and "(p, cfg, b, a) \<in> set handed"
  shows "connects_to (ag_config a) = connects_to cfg \<and>
    ag_verify a = (if is_https cfg then Some (cf_tls_verify cfg) else None) \<and>
    (if is_https cfg \<and> cf_tls_ca_path cfg \<noteq> None \<and> cf_tls_ca_path cfg \<noteq> Some []
     then \<exists>w \<in> worlds_of events. \<exists>k c.
       load_ca_bundle cr (the (cf_tls_ca_path cfg)) (cf_tls_ca_root cfg) MAX_CA_BUNDLE_BYTES (cw_loads w k) = Inr c \<and>
       ag_ca a = Some (cb_pem c)
     else ag_ca a = None) \<and>
    ag_timeout a = cf_connect_timeout cfg \<and> ag_connections a = pool_connections p cfg \<and>
    distinct (live_agents ds @ ds_retiring ds)"
proof -
  have ok: "dispatchers_inv cr (worlds_of events) origin ds" "served_as_asked cr (worlds_of events) origin (p, cfg, b, a)"
    using dispatch_run_ok [OF assms(1,2,3) refl] assms(4) by auto
  then have "connects_to (ag_config a) = connects_to cfg" by (intro same_policy) (auto simp: served_as_asked_def)
  moreover have "distinct (live_agents ds @ ds_retiring ds)"
    using ok(1) unfolding dispatchers_inv_def by (metis distinct_map)
  moreover have "if is_https cfg \<and> cf_tls_ca_path cfg \<noteq> None \<and> cf_tls_ca_path cfg \<noteq> Some []
     then \<exists>w \<in> worlds_of events. \<exists>k c.
       load_ca_bundle cr (the (cf_tls_ca_path cfg)) (cf_tls_ca_root cfg) MAX_CA_BUNDLE_BYTES (cw_loads w k) = Inr c \<and>
       ag_ca a = Some (cb_pem c)
     else ag_ca a = None"
    using ok(2) by (auto simp: served_as_asked_def bundle_of_config_def loaded_from_def split: if_splits)
  ultimately show ?thesis using ok(2) by (simp add: served_as_asked_def)
qed

definition sample_world :: "string \<Rightarrow> ca_world" where
  "sample_world x = \<lparr>cw_now = 0, cw_later = 5, cw_identity = (\<lambda>_. Some x), cw_loads = (\<lambda>_. sample_load x)\<rparr>"

definition sample_https :: config where
  "sample_https = sample_target\<lparr>cf_admin_url := ''https://edge'', cf_tls_ca_path := Some ''/ca/live.pem'', cf_tls_ca_root := Some ''/ca'',
     cf_connect_timeout := 5000, cf_tls_verify := True, cf_gateway_max_connections := 100\<rparr>"

definition sample_requests :: "dispatch_event list" where
  "sample_requests =
     [Proxied sample_https ''edge'' (sample_world ''one''),
      Proxied sample_https ''edge'' (sample_world ''two''\<lparr>cw_now := 2000, cw_later := 2000\<rparr>)]"

lemma sample_fields:
  "cf_admin_url sample_https = ''https://edge''" "cf_tls_ca_path sample_https = Some ''/ca/live.pem''" "cf_tls_ca_root sample_https = Some ''/ca''"
  "cf_connect_timeout sample_https = 5000" "cf_tls_verify sample_https" "cf_gateway_max_connections sample_https = 100"
  "cf_initial_admin_origin sample_https = ''https://edge''" "cf_admin_allowed_cidrs sample_https = []" "is_https sample_https"
  by (simp_all add: sample_https_def sample_target_def is_https_def starts_with_def)

lemma sample_literal: "assert_literal_address_allowed sample_https ''edge'' = Proceeds"
proof -
  have "is_ip ''edge'' = 0" "strip_brackets ''edge'' = ''edge''"
    by (simp_all add: is_ip_def address_eval ipv6_eval strip_brackets_def)
  then show ?thesis by (simp add: assert_literal_address_allowed_def)
qed

definition sample_bundle :: "string \<Rightarrow> ca_bundle" where
  "sample_bundle x = \<lparr>cb_path = ''/ca/v1/a.pem'', cb_pem = sample_pem x, cb_fingerprint = sample_pem x\<rparr>"

definition sample_cache :: "int \<Rightarrow> string \<Rightarrow> ca_cache" where
  "sample_cache t x = \<lparr>cc_config = (''/ca/live.pem'', Some ''/ca''), cc_identity = x, cc_checked = t, cc_bundle = sample_bundle x\<rparr>"

definition sample_agent :: "nat \<Rightarrow> string \<Rightarrow> agent" where
  "sample_agent n x =
     \<lparr>ag_id = n, ag_config = sample_https, ag_connections = 100, ag_timeout = 5000, ag_verify = Some True, ag_ca = Some (sample_pem x)\<rparr>"

lemma sample_load_now:
  "x \<in> {''one'', ''two''} \<Longrightarrow> cw_loads w = (\<lambda>_. sample_load x) \<Longrightarrow>
     load_now plain_crypto w (''/ca/live.pem'', Some ''/ca'') k = Inr (sample_bundle x)"
  using sample_loaded [of x MAX_CA_BUNDLE_BYTES] by (simp add: load_now_def sample_bundle_def MAX_CA_BUNDLE_BYTES_def)

lemma sample_stable:
  "x \<in> {''one'', ''two''} \<Longrightarrow> cw_loads w = (\<lambda>_. sample_load x) \<Longrightarrow> cw_identity w = (\<lambda>_. Some x) \<Longrightarrow>
     read_stable plain_crypto w (''/ca/live.pem'', Some ''/ca'') x 0 2 = (Inr (sample_bundle x), Some (sample_cache (cw_later w) x))"
  using sample_load_now [of x w 0] by (simp add: numeral_2_eq_2 sample_cache_def)

lemma sample_first:
  "current_ca_bundle plain_crypto sample_https (sample_world ''one'') None = (Inr (Some (sample_bundle ''one'')), Some (sample_cache 5 ''one''))"
  using sample_stable [of "''one''" "sample_world ''one''"] by (simp add: current_ca_bundle_def sample_fields sample_world_def Let_def)

lemma sample_second:
  "current_ca_bundle plain_crypto sample_https (sample_world ''two''\<lparr>cw_now := 2000, cw_later := 2000\<rparr>) (Some (sample_cache 5 ''one'')) =
     (Inr (Some (sample_bundle ''two'')), Some (sample_cache 2000 ''two''))"
proof -
  let ?w = "sample_world ''two''\<lparr>cw_now := 2000, cw_later := 2000\<rparr>"
  have "read_stable plain_crypto ?w (''/ca/live.pem'', Some ''/ca'') ''two'' 0 2 = (Inr (sample_bundle ''two''), Some (sample_cache 2000 ''two''))"
    using sample_stable [of "''two''" ?w] by (simp add: sample_world_def)
  moreover have "cw_identity ?w 0 = Some ''two''" "cw_now ?w = 2000" by (simp_all add: sample_world_def)
  moreover have "cc_config (sample_cache 5 ''one'') = (''/ca/live.pem'', Some ''/ca'')" "cc_identity (sample_cache 5 ''one'') = ''one''"
      "cc_checked (sample_cache 5 ''one'') = 5" by (simp_all add: sample_cache_def)
  ultimately show ?thesis by (simp add: current_ca_bundle_def sample_fields CA_RECHECK_INTERVAL_def Let_def)
qed

lemma sample_created: "create_dispatcher sample_https ''edge'' (Some (sample_bundle x)) 100 n = Some (sample_agent n x)"
  by (simp add: create_dispatcher_def sample_literal sample_agent_def sample_fields sample_bundle_def)

lemma sample_fingerprints:
  "dispatcher_fingerprint sample_https (Some (sample_bundle ''one'')) 100 \<noteq> dispatcher_fingerprint sample_https (Some (sample_bundle ''two'')) 100"
  by (simp add: dispatcher_fingerprint_def sample_bundle_def sample_pem_def cps_def)

lemma sample_handed:
  "snd (dispatch_run plain_crypto sample_requests) =
     [(Proxy_pool, sample_https, Some (sample_bundle ''one''), sample_agent 0 ''one''),
      (Proxy_pool, sample_https, Some (sample_bundle ''two''), sample_agent 1 ''two'')]"
proof -
  let ?ds1 = "no_dispatchers\<lparr>ds_cache := Some (sample_cache 5 ''one''), ds_created := 1,
     ds_proxy := Some (dispatcher_fingerprint sample_https (Some (sample_bundle ''one'')) 100, sample_agent 0 ''one'')\<rparr>"
  have one: "dispatch_step plain_crypto (Proxied sample_https ''edge'' (sample_world ''one'')) (no_dispatchers, []) =
      (?ds1, [(Proxy_pool, sample_https, Some (sample_bundle ''one''), sample_agent 0 ''one'')])"
    by (simp add: dispatch_step_def get_dispatcher_def select_dispatcher_def Let_def sample_first sample_fields no_dispatchers_def
        active_dispatcher_def sample_created set_active_def resolved_bundle_def)
  have "snd (dispatch_step plain_crypto (Proxied sample_https ''edge'' (sample_world ''two''\<lparr>cw_now := 2000, cw_later := 2000\<rparr>)) (?ds1, hs)) =
      hs @ [(Proxy_pool, sample_https, Some (sample_bundle ''two''), sample_agent 1 ''two'')]" for hs
    using sample_fingerprints
    by (simp add: dispatch_step_def get_dispatcher_def select_dispatcher_def Let_def sample_second sample_fields
        active_dispatcher_def sample_created resolved_bundle_def)
  then show ?thesis by (simp add: dispatch_run_def sample_requests_def one del: One_nat_def)
qed

theorem connections_carry_their_policy_witness:
  "\<exists>b a. (Proxy_pool, sample_https, b, a) \<in> set (snd (dispatch_run plain_crypto sample_requests)) \<and>
     connects_to (ag_config a) = connects_to sample_https \<and> ag_id a = 1 \<and> ag_ca a = Some (sample_pem ''two'') \<and>
     (\<exists>(w :: ca_world) c. load_ca_bundle plain_crypto ''/ca/live.pem'' (Some ''/ca'') MAX_CA_BUNDLE_BYTES (cw_loads w 0) = Inr c \<and>
        ag_ca a = Some (cb_pem c))"
proof -
  obtain ds handed where run: "dispatch_run plain_crypto sample_requests = (ds, handed)" by fastforce
  then have h: "(Proxy_pool, sample_https, Some (sample_bundle ''two''), sample_agent 1 ''two'') \<in> set handed"
    using sample_handed by simp
  have ok: "\<forall>e \<in> set sample_requests. event_ok ''https://edge'' e"
    by (simp add: sample_requests_def sample_fields)
  have inj: "inj_on (cr_sha256 plain_crypto) A" for A by (simp add: plain_crypto_def)
  have worlds: "cw_loads w k = cw_loads w 0" if "w \<in> worlds_of sample_requests" for w k
    using that by (auto simp: worlds_of_def sample_requests_def sample_world_def)
  have "connects_to (ag_config (sample_agent 1 ''two'')) = connects_to sample_https \<and>
     (\<exists>(w :: ca_world) c. load_ca_bundle plain_crypto ''/ca/live.pem'' (Some ''/ca'') MAX_CA_BUNDLE_BYTES (cw_loads w 0) = Inr c \<and>
        ag_ca (sample_agent 1 ''two'') = Some (cb_pem c))"
  proof -
    note carried = connections_carry_their_policy [OF inj ok run h]
    have "\<exists>w \<in> worlds_of sample_requests. \<exists>k c.
        load_ca_bundle plain_crypto ''/ca/live.pem'' (Some ''/ca'') MAX_CA_BUNDLE_BYTES (cw_loads w k) = Inr c \<and>
        ag_ca (sample_agent 1 ''two'') = Some (cb_pem c)"
      using carried by (simp add: sample_fields)
    then obtain w k c where w: "w \<in> worlds_of sample_requests"
        "load_ca_bundle plain_crypto ''/ca/live.pem'' (Some ''/ca'') MAX_CA_BUNDLE_BYTES (cw_loads w k) = Inr c"
        "ag_ca (sample_agent 1 ''two'') = Some (cb_pem c)" by blast
    have "load_ca_bundle plain_crypto ''/ca/live.pem'' (Some ''/ca'') MAX_CA_BUNDLE_BYTES (cw_loads w 0) = Inr c"
      using w(2) by (simp only: worlds [OF w(1), of k])
    with w(3) show ?thesis using conjunct1 [OF carried] by blast
  qed
  moreover have "ag_id (sample_agent 1 ''two'') = 1" "ag_ca (sample_agent 1 ''two'') = Some (sample_pem ''two'')"
    by (simp_all add: sample_agent_def)
  ultimately show ?thesis using h unfolding run snd_conv by blast
qed

end
