(* ===== verification/Capabilities.thy ===== *)
theory Capabilities
  imports Json AuthTypes ProxyPath
begin

text \<open>
  What the console presents as writable (\<open>lib/capabilities.ts\<close>, \<open>stores/capabilities.tsx\<close>): the verdict on a surface
  from the facts that were read, the fleet-wide views, and the provider that keeps the last snapshot that loaded.
  An explanation is a constructor carrying what its text interpolates.
\<close>

section \<open>Surfaces\<close>

datatype capability_surface = Proxies | Upstreams | Plugin_configs | Consumers | Consumer_credentials 
  | Api_specs | Namespace_registry | Config_export | Config_backup | Gateway_trust 
  | Tls_material | Tls_rotation | Operational_actions | Fleet_operations | Bff_settings

datatype capability_gate = Config_store | Read_only_mode | No_gate

record surface_descriptor =
  sd_label :: string
  sd_headline :: string
  sd_action :: string
  sd_minimum :: gateway_role
  sd_gate :: capability_gate
  sd_fleet_wide :: bool

fun surfaces :: "capability_surface \<Rightarrow> surface_descriptor" where
  "surfaces Proxies = \<lparr>sd_label = ''Proxy configuration'',
     sd_headline = ''Proxy configuration is read-only'', sd_action = ''create, edit, or delete proxies'',
     sd_minimum = Operator, sd_gate = Config_store, sd_fleet_wide = False\<rparr>"
| "surfaces Upstreams = \<lparr>sd_label = ''Upstream configuration'',
     sd_headline = ''Upstream configuration is read-only'', sd_action = ''create, edit, or delete upstreams and their targets'',
     sd_minimum = Operator, sd_gate = Config_store, sd_fleet_wide = False\<rparr>"
| "surfaces Plugin_configs = \<lparr>sd_label = ''Plugin configuration'',
     sd_headline = ''Plugin configuration is read-only'', sd_action = ''create, edit, or delete plugin configurations'',
     sd_minimum = Operator, sd_gate = Config_store, sd_fleet_wide = False\<rparr>"
| "surfaces Consumers = \<lparr>sd_label = ''Consumer configuration'',
     sd_headline = ''Consumer configuration is read-only'', sd_action = ''create, edit, or delete consumers'',
     sd_minimum = Admin, sd_gate = Config_store, sd_fleet_wide = False\<rparr>"
| "surfaces Consumer_credentials = \<lparr>sd_label = ''Consumer credentials'',
     sd_headline = ''Consumer credentials are read-only'', sd_action = ''add, rotate, or revoke consumer credentials'',
     sd_minimum = Admin, sd_gate = Config_store, sd_fleet_wide = False\<rparr>"
| "surfaces Api_specs = \<lparr>sd_label = ''API spec import'',
     sd_headline = ''API spec import is unavailable'', sd_action = ''import, replace, or delete API specs'',
     sd_minimum = Admin, sd_gate = Config_store, sd_fleet_wide = False\<rparr>"
| "surfaces Namespace_registry = \<lparr>sd_label = ''Namespace registry'',
     sd_headline = ''The namespace registry is read-only'', sd_action = ''create, rename, or delete namespaces'',
     sd_minimum = Admin, sd_gate = Config_store, sd_fleet_wide = False\<rparr>"
| "surfaces Config_export = \<lparr>sd_label = ''Configuration export'',
     sd_headline = ''Configuration export is unavailable'', sd_action = ''export the gateway configuration'',
     sd_minimum = Admin, sd_gate = No_gate, sd_fleet_wide = False\<rparr>"
| "surfaces Config_backup = \<lparr>sd_label = ''Configuration restore'',
     sd_headline = ''Configuration restore is unavailable'', sd_action = ''restore a configuration backup'',
     sd_minimum = Admin, sd_gate = Config_store, sd_fleet_wide = False\<rparr>"
| "surfaces Gateway_trust = \<lparr>sd_label = ''Gateway trust bundle'',
     sd_headline = ''The gateway trust bundle is read-only'', sd_action = ''create, edit, or delete the gateway trust bundle'',
     sd_minimum = Admin, sd_gate = Config_store, sd_fleet_wide = False\<rparr>"
| "surfaces Tls_material = \<lparr>sd_label = ''Managed TLS material'',
     sd_headline = ''Managed TLS material is read-only'', sd_action = ''upload or delete managed TLS material'',
     sd_minimum = Admin, sd_gate = Read_only_mode, sd_fleet_wide = True\<rparr>"
| "surfaces Tls_rotation = \<lparr>sd_label = ''TLS rotation'',
     sd_headline = ''TLS rotation is unavailable'', sd_action = ''rotate TLS surfaces'',
     sd_minimum = Operator, sd_gate = No_gate, sd_fleet_wide = True\<rparr>"
| "surfaces Operational_actions = \<lparr>sd_label = ''Operational gateway actions'',
     sd_headline = ''Operational gateway actions are unavailable'', sd_action = ''run operational gateway actions'',
     sd_minimum = Operator, sd_gate = No_gate, sd_fleet_wide = True\<rparr>"
| "surfaces Fleet_operations = \<lparr>sd_label = ''Fleet operational actions'',
     sd_headline = ''Fleet operational actions are unavailable'', sd_action = ''refresh backend capabilities or test mesh egress'',
     sd_minimum = Operator, sd_gate = No_gate, sd_fleet_wide = True\<rparr>"
| "surfaces Bff_settings = \<lparr>sd_label = ''BFF connection settings'',
     sd_headline = ''BFF connection settings are read-only'', sd_action = ''change the Foundry BFF connection settings'',
     sd_minimum = Admin, sd_gate = No_gate, sd_fleet_wide = True\<rparr>"

definition capability_surfaces :: "capability_surface list" where
  "capability_surfaces = [Proxies, Upstreams, Plugin_configs, Consumers, Consumer_credentials, Api_specs, Namespace_registry, Config_export, Config_backup, Gateway_trust, Tls_material, Tls_rotation, Operational_actions, Fleet_operations, Bff_settings]"

definition capability_requirement :: "capability_surface \<Rightarrow> gateway_role \<times> capability_gate" where
  "capability_requirement s = (sd_minimum (surfaces s), sd_gate (surfaces s))"

section \<open>Facts\<close>

record capability_facts =
  ft_role :: "gateway_role option"
  ft_scoped :: "bool option"
  ft_mode :: "string option"
  ft_writes :: "bool option"
  ft_status :: "string option"

definition read_only_modes :: "string list" where
  "read_only_modes = [''file'', ''dp'', ''mesh'', ''node_agent'']"

datatype explanation =
    Runs_in_mode string
  | Admin_read_only_flag
  | Writes_disabled
  | Role_cannot gateway_role string gateway_role
  | Namespace_scope
  | Fleet_view_scope
  | Node_agent_export

datatype write_state = Enabled | Read_only explanation | Unknown

definition observed_mode :: "capability_facts \<Rightarrow> string option" where
  "observed_mode f = map_option (\<lambda>m. js_lower (js_trim m)) (ft_mode f)"

definition observed_status :: "capability_facts \<Rightarrow> string option" where
  "observed_status f = map_option (\<lambda>m. js_lower (js_trim m)) (ft_status f)"

definition truthy_text :: "string option \<Rightarrow> bool" where
  "truthy_text t \<longleftrightarrow> t \<noteq> None \<and> t \<noteq> Some []"

definition resolve_read_only_mode_state :: "capability_facts \<Rightarrow> write_state" where
  "resolve_read_only_mode_state f =
     (if truthy_text (observed_mode f) \<and> the (observed_mode f) \<in> set read_only_modes
      then Read_only (Runs_in_mode (the (observed_mode f)))
      else if ft_writes f = Some False \<and> truthy_text (observed_status f) \<and> observed_status f \<noteq> Some ''degraded''
      then Read_only Admin_read_only_flag
      else Unknown)"

definition resolve_gateway_write_state :: "capability_facts \<Rightarrow> write_state" where
  "resolve_gateway_write_state f =
     (case resolve_read_only_mode_state f of
        Read_only e \<Rightarrow> Read_only e
      | _ \<Rightarrow> if ft_writes f = Some False then Read_only Writes_disabled
             else if ft_writes f = Some True then Enabled
             else Unknown)"

section \<open>Verdicts\<close>

datatype capability_blocker = By_role | By_namespace_scope | By_read_only_gateway

record capability_verdict =
  vd_allowed :: bool
  vd_label :: string
  vd_headline :: string
  vd_blocked_by :: "capability_blocker option"
  vd_explanation :: "explanation option"



definition permitted :: "string \<Rightarrow> string \<Rightarrow> capability_verdict" where
  "permitted label headline =
     \<lparr>vd_allowed = True, vd_label = label, vd_headline = headline, vd_blocked_by = None, vd_explanation = None\<rparr>"

definition blocked :: "string \<Rightarrow> string \<Rightarrow> capability_blocker \<Rightarrow> explanation \<Rightarrow> capability_verdict" where
  "blocked label headline by_what why =
     \<lparr>vd_allowed = False, vd_label = label, vd_headline = headline, vd_blocked_by = Some by_what, vd_explanation = Some why\<rparr>"


definition resolve_capability :: "capability_surface \<Rightarrow> capability_facts \<Rightarrow> capability_verdict" where
  "resolve_capability s f =
     (let d = surfaces s; block = blocked (sd_label d) (sd_headline d);
          write_state = (case sd_gate d of
             Config_store \<Rightarrow> resolve_gateway_write_state f
           | Read_only_mode \<Rightarrow> resolve_read_only_mode_state f
           | No_gate \<Rightarrow> Unknown) in
      if (case ft_role f of Some r \<Rightarrow> role_rank r < role_rank (sd_minimum d) | None \<Rightarrow> False)
      then block By_role (Role_cannot (the (ft_role f)) (sd_action d) (sd_minimum d))
      else if sd_fleet_wide d \<and> ft_scoped f = Some True then block By_namespace_scope Namespace_scope
      else if s = Config_export \<and> observed_mode f = Some ''node_agent'' then block By_read_only_gateway Node_agent_export
      else case write_state of
        Read_only e \<Rightarrow> block By_read_only_gateway e
      | _ \<Rightarrow> permitted (sd_label d) (sd_headline d))"

definition resolve_capabilities :: "capability_facts \<Rightarrow> (capability_surface \<times> capability_verdict) list" where
  "resolve_capabilities f = map (\<lambda>s. (s, resolve_capability s f)) capability_surfaces"

section \<open>The provider\<close>











section \<open>The documented surface matrix\<close>

















section \<open>The descriptors against the matrix\<close>













section \<open>No invented denials\<close>





















end
