(* ===== verification/AuthSession.thy ===== *)
theory AuthSession
  imports ApiClient AuthTypes Json
begin

text \<open>
  The browser's Foundry session (\<open>stores/auth.tsx\<close>): the reducer, the provider's references beside it, and the
  asynchronous reads as the events at which they resume, over the page of the HTTP client. An answer carries its
  outcome; any interleaving of boots, checks, sign-ins, sign-outs, late \<open>401\<close>s and unmounts is a list of
  events. React commits every dispatch before the next event, and the query cache is the list of the principals its
  queries were started for. Rendering is left out.
\<close>

section \<open>The session reducer\<close>

text \<open>\<open>a ?? b\<close>.\<close>

fun coalesce :: "'a option \<Rightarrow> 'a option \<Rightarrow> 'a option" where
  "coalesce (Some a) _ = Some a"
| "coalesce None b = b"

record auth_config =
  au_mode :: auth_mode
  au_login_url :: "string option"
  au_logout_url :: "string option"

datatype session_state =
    Loading
  | ConfigFailed string
  | Unauthenticated auth_config "string option"
  | Authenticated auth_config principal "string option"
  | LockedOut auth_config "principal option" string "string option"

datatype session_change =
    Config_failed
  | Retry
  | Config_loaded auth_config
  | Session_accepted principal "auth_config option"
  | Signed_out "auth_config option"
  | Locked_out string "auth_config option"
  | Verification_failed "auth_config option"
  | Login_started
  | Login_failed string
  | Sign_out_started
  | Sign_out_failed string

definition CONFIG_FAILURE :: string where
  "CONFIG_FAILURE = ''Unable to load the Foundry authentication configuration.''"

definition SESSION_FAILURE :: string where
  "SESSION_FAILURE = ''Unable to verify your Foundry session.''"

definition LOGIN_REJECTED :: string where
  "LOGIN_REJECTED = ''The token was rejected.''"

definition SIGN_OUT_FAILURE :: string where
  "SIGN_OUT_FAILURE = ''Sign out could not be confirmed by the server. Please try again.''"

fun config_of :: "session_state \<Rightarrow> auth_config option" where
  "config_of Loading = None"
| "config_of (ConfigFailed _) = None"
| "config_of (Unauthenticated c _) = Some c"
| "config_of (Authenticated c _ _) = Some c"
| "config_of (LockedOut c _ _ _) = Some c"

fun principal_of :: "session_state \<Rightarrow> principal option" where
  "principal_of (Authenticated _ p _) = Some p"
| "principal_of (LockedOut _ p _ _) = p"
| "principal_of _ = None"

fun set_config :: "auth_config \<Rightarrow> session_state \<Rightarrow> session_state" where
  "set_config c (Unauthenticated _ e) = Unauthenticated c e"
| "set_config c (Authenticated _ p e) = Authenticated c p e"
| "set_config c (LockedOut _ p l e) = LockedOut c p l e"
| "set_config c s = s"

fun sign_out_error :: "session_state \<Rightarrow> string option" where
  "sign_out_error (Authenticated _ _ e) = e"
| "sign_out_error (LockedOut _ _ _ e) = e"
| "sign_out_error _ = None"

fun set_sign_out_error :: "string option \<Rightarrow> session_state \<Rightarrow> session_state" where
  "set_sign_out_error e (Authenticated c p _) = Authenticated c p e"
| "set_sign_out_error e (LockedOut c p l _) = LockedOut c p l e"
| "set_sign_out_error e s = s"

definition signed_in_or_locked :: "session_state \<Rightarrow> bool" where
  "signed_in_or_locked s = (case s of Authenticated _ _ _ \<Rightarrow> True | LockedOut _ _ _ _ \<Rightarrow> True | _ \<Rightarrow> False)"

fun auth_reducer :: "session_state \<Rightarrow> session_change \<Rightarrow> session_state" where
  "auth_reducer s Config_failed = (if s = Loading then ConfigFailed CONFIG_FAILURE else s)"
| "auth_reducer s Retry = (case s of ConfigFailed _ \<Rightarrow> Loading | _ \<Rightarrow> s)"
| "auth_reducer s (Config_loaded c) =
     (case s of Loading \<Rightarrow> Unauthenticated c None | ConfigFailed _ \<Rightarrow> s | _ \<Rightarrow> set_config c s)"
| "auth_reducer s (Session_accepted p cfg) =
     (case coalesce cfg (config_of s) of
        Some c \<Rightarrow> Authenticated c p None
      | None \<Rightarrow> Authenticated \<lparr>au_mode = p_mode p, au_login_url = None, au_logout_url = None\<rparr> p None)"
| "auth_reducer s (Signed_out cfg) =
     (case coalesce cfg (config_of s) of Some c \<Rightarrow> Unauthenticated c None | None \<Rightarrow> s)"
| "auth_reducer s (Locked_out lockout cfg) =
     (case coalesce cfg (config_of s) of
        None \<Rightarrow> s
      | Some c \<Rightarrow> LockedOut c (principal_of s) lockout (if signed_in_or_locked s then sign_out_error s else None))"
| "auth_reducer s (Verification_failed cfg) =
     (if signed_in_or_locked s then s
      else case coalesce cfg (config_of s) of Some c \<Rightarrow> Unauthenticated c (Some SESSION_FAILURE) | None \<Rightarrow> s)"
| "auth_reducer s Login_started = (case s of Unauthenticated c _ \<Rightarrow> Unauthenticated c None | _ \<Rightarrow> s)"
| "auth_reducer s (Login_failed e) =
     (case s of
        Unauthenticated c _ \<Rightarrow> Unauthenticated c (Some e)
      | LockedOut c None _ _ \<Rightarrow> Unauthenticated c (Some e)
      | _ \<Rightarrow> s)"
| "auth_reducer s Sign_out_started =
     (if signed_in_or_locked s \<and> sign_out_error s \<notin> {None, Some []} then set_sign_out_error None s else s)"
| "auth_reducer s (Sign_out_failed e) =
     (case s of
        Authenticated _ _ _ \<Rightarrow> set_sign_out_error (Some e) s
      | LockedOut _ (Some _) _ _ \<Rightarrow> set_sign_out_error (Some e) s
      | _ \<Rightarrow> s)"

section \<open>What an answer says\<close>

text \<open>A failed request as \<open>responseStatus\<close> and \<open>lockoutMessage\<close> read it; \<open>rf_retry_after\<close> is
  \<open>Number(headers.get('retry-after'))\<close>, \<open>None\<close> when that is not finite.\<close>

record failed_answer =
  rf_status :: "nat option"
  rf_layer :: "string option"
  rf_retry_after :: "rat option"

definition lockout_wait :: "rat option \<Rightarrow> string" where
  "lockout_wait retry_after =
     (case retry_after of
        None \<Rightarrow> ''later''
      | Some seconds \<Rightarrow>
          if seconds \<le> 0 then ''later''
          else if seconds < 60 then ''in '' @ show_nat (nat (ceiling seconds)) @ '' seconds''
          else ''in '' @ show_nat (nat (ceiling (seconds / 60))) @ '' minutes'')"

definition lockout_message :: "failed_answer \<Rightarrow> string option" where
  "lockout_message e =
     (if rf_status e \<noteq> Some 429 then None
      else if rf_layer e \<noteq> Some ''bff'' then None
      else Some (''Too many failed sign-in attempts from this address. Try again '' @ lockout_wait (rf_retry_after e) @ ''.''))"

record session_response =
  se_principal :: principal
  se_csrf :: cptext
  se_cookie :: "string option"

type_synonym session_outcome = "failed_answer + session_response"

fun role_text :: "gateway_role \<Rightarrow> string" where
  "role_text Viewer = ''viewer''"
| "role_text Operator = ''operator''"
| "role_text Admin = ''admin''"

fun mode_text :: "auth_mode \<Rightarrow> string" where
  "mode_text StaticMode = ''static''"
| "mode_text TrustedProxy = ''trusted-proxy''"

text \<open>The value whose \<open>JSON.stringify\<close> is the key; the word for no principal is not the text of an array.\<close>

definition authorization_key :: "principal option \<Rightarrow> string json" where
  "authorization_key pr =
     (case pr of
        None \<Rightarrow> JStr ''anonymous''
      | Some p \<Rightarrow>
          JArr [JStr (p_subject p), JStr (mode_text (p_mode p)), JStr (role_text (p_role p)),
            (case p_namespaces p of None \<Rightarrow> JNull | Some ns \<Rightarrow> JArr (map JStr (sort (remdups ns))))])"

section \<open>The provider\<close>

text \<open>A boot awaits its configuration, then the session read it sent beside it.\<close>

record boot_run =
  bo_generation :: nat
  bo_ticket :: nat
  bo_config :: "auth_config option"
  bo_outcome :: "session_outcome option"

record provider =
  pv_page :: client_page
  pv_state :: session_state
  pv_principal :: "principal option"
  pv_applied :: nat
  pv_disposed :: bool
  pv_reads :: "nat list"
  pv_aborted :: "nat list"
  pv_boot_ticket :: nat
  pv_generation :: nat
  pv_boots :: "boot_run list"
  pv_checks :: "nat list"
  pv_cache :: "principal option list"
  pv_left :: "string list"

definition new_provider :: provider where
  "new_provider = \<lparr>pv_page = new_page False, pv_state = Loading, pv_principal = None, pv_applied = 0, pv_disposed = False,
     pv_reads = [], pv_aborted = [], pv_boot_ticket = 0, pv_generation = 0, pv_boots = [], pv_checks = [],
     pv_cache = [], pv_left = []\<rparr>"

definition dispatch :: "session_change \<Rightarrow> provider \<Rightarrow> provider" where
  "dispatch e p = p\<lparr>pv_state := auth_reducer (pv_state p) e\<rparr>"

definition is_current :: "nat \<Rightarrow> provider \<Rightarrow> bool" where
  "is_current ticket p \<longleftrightarrow> \<not> pv_disposed p \<and> pv_applied p < ticket"

definition retire_in_flight :: "provider \<Rightarrow> provider" where
  "retire_in_flight p =
     p\<lparr>pv_applied := max (pv_applied p) (pg_last_ticket (pv_page p)), pv_aborted := pv_aborted p @ pv_reads p, pv_reads := []\<rparr>"

definition set_scoped_session :: "bool \<Rightarrow> client_page \<Rightarrow> client_page" where
  "set_scoped_session scoped pg = pg\<lparr>pg_monitor := (pg_monitor pg)\<lparr>mo_scoped := scoped\<rparr>\<rparr>"

definition forget_gateway :: "client_page \<Rightarrow> client_page" where
  "forget_gateway pg = pg\<lparr>pg_monitor := clear_gateway_metadata (pg_monitor pg)\<rparr>"

definition clear_local_session :: "auth_config option \<Rightarrow> provider \<Rightarrow> provider" where
  "clear_local_session cfg p =
     (if pv_disposed p then p
      else dispatch (Signed_out cfg)
        (p\<lparr>pv_page := set_scoped_session False (forget_gateway (set_csrf_token None None (pv_page p))),
           pv_principal := None, pv_cache := []\<rparr>))"

definition accept_session :: "session_response \<Rightarrow> auth_config option \<Rightarrow> provider \<Rightarrow> provider" where
  "accept_session s cfg p =
     (if pv_disposed p then p
      else
        let same = authorization_key (pv_principal p) = authorization_key (Some (se_principal s));
            cache = (if pv_principal p \<noteq> None \<and> \<not> same then [] else pv_cache p);
            pg1 = (if pv_principal p = None \<or> \<not> same then forget_gateway (pv_page p) else pv_page p);
            pg2 = set_scoped_session (p_namespaces (se_principal s) \<noteq> None) pg1 in
        dispatch (Session_accepted (se_principal s) cfg)
          (p\<lparr>pv_page := set_csrf_token (Some (se_csrf s)) (se_cookie s) pg2, pv_principal := Some (se_principal s),
             pv_cache := cache\<rparr>))"

definition start_session_read :: "provider \<Rightarrow> nat \<times> provider" where
  "start_session_read p =
     (let (ticket, pg) = issue_request_ticket (pv_page p) in
      (ticket, p\<lparr>pv_page := pg, pv_reads := pv_reads p @ [ticket]\<rparr>))"

definition apply_session_read :: "nat \<Rightarrow> session_outcome \<Rightarrow> auth_config option \<Rightarrow> provider \<Rightarrow> provider" where
  "apply_session_read ticket outcome cfg p =
     (if ticket \<in> set (pv_aborted p) \<or> \<not> is_current ticket p then
        (case cfg of Some c \<Rightarrow> if pv_disposed p then p else dispatch (Config_loaded c) p | None \<Rightarrow> p)
      else
        case outcome of
          Inr s \<Rightarrow> accept_session s cfg (p\<lparr>pv_applied := ticket\<rparr>)
        | Inl e \<Rightarrow>
            if rf_status e = Some 401 then clear_local_session cfg (p\<lparr>pv_applied := ticket\<rparr>)
            else case lockout_message e of
                Some lockout \<Rightarrow> dispatch (Locked_out lockout cfg) (p\<lparr>pv_applied := ticket\<rparr>)
              | None \<Rightarrow> dispatch (Verification_failed cfg) p)"

section \<open>Boot\<close>

definition live_boot :: "provider \<Rightarrow> boot_run \<Rightarrow> bool" where
  "live_boot p b \<longleftrightarrow> \<not> pv_disposed p \<and> bo_generation b = pv_generation p"

definition boot :: "provider \<Rightarrow> provider" where
  "boot p =
     (let (ticket, p1) = start_session_read (p\<lparr>pv_generation := pv_generation p + 1\<rparr>) in
      p1\<lparr>pv_boot_ticket := ticket,
         pv_boots := pv_boots p1 @
           [\<lparr>bo_generation = pv_generation p1, bo_ticket = ticket, bo_config = None, bo_outcome = None\<rparr>]\<rparr>)"

definition drop_boot :: "nat \<Rightarrow> provider \<Rightarrow> provider" where
  "drop_boot ticket p = p\<lparr>pv_boots := filter (\<lambda>b. bo_ticket b \<noteq> ticket) (pv_boots p)\<rparr>"

text \<open>The rest of a boot once it holds both answers.\<close>

definition finish_boot :: "boot_run \<Rightarrow> auth_config \<Rightarrow> session_outcome \<Rightarrow> provider \<Rightarrow> provider" where
  "finish_boot b c outcome p =
     (let p1 = drop_boot (bo_ticket b) p in
      if live_boot p b then apply_session_read (bo_ticket b) outcome (Some c) p1 else p1)"

definition put_boot :: "boot_run \<Rightarrow> provider \<Rightarrow> provider" where
  "put_boot b p = p\<lparr>pv_boots := map (\<lambda>b'. if bo_ticket b' = bo_ticket b then b else b') (pv_boots p)\<rparr>"

definition find_boot :: "nat \<Rightarrow> provider \<Rightarrow> boot_run option" where
  "find_boot ticket p = find (\<lambda>b. bo_ticket b = ticket) (pv_boots p)"

text \<open>The configuration read of the boot with this session ticket answered, or failed.\<close>

definition config_answered :: "nat \<Rightarrow> auth_config option \<Rightarrow> provider \<Rightarrow> provider" where
  "config_answered ticket reply p =
     (case find_boot ticket p of
        None \<Rightarrow> p
      | Some b \<Rightarrow>
          if bo_config b \<noteq> None then p
          else case reply of
              None \<Rightarrow>
                (let p1 = drop_boot ticket (p\<lparr>pv_aborted := pv_aborted p @ [ticket]\<rparr>) in
                 if live_boot p b then dispatch Config_failed p1 else p1)
            | Some c \<Rightarrow>
                if \<not> live_boot p b then drop_boot ticket p
                else case bo_outcome b of
                    Some outcome \<Rightarrow> finish_boot b c outcome p
                  | None \<Rightarrow> put_boot (b\<lparr>bo_config := Some c\<rparr>) p)"

text \<open>A session read settled; a check applies it, a boot's read waits for the configuration, an abandoned boot's is
  dropped.\<close>

definition session_answered :: "nat \<Rightarrow> session_outcome \<Rightarrow> provider \<Rightarrow> provider" where
  "session_answered ticket outcome p0 =
     (let p = p0\<lparr>pv_reads := filter (\<lambda>t. t \<noteq> ticket) (pv_reads p0)\<rparr> in
      case find_boot ticket p of
        None \<Rightarrow>
          if ticket \<in> set (pv_checks p)
          then apply_session_read ticket outcome None (p\<lparr>pv_checks := filter (\<lambda>t. t \<noteq> ticket) (pv_checks p)\<rparr>)
          else p
      | Some b \<Rightarrow>
          if bo_outcome b \<noteq> None then p
          else case bo_config b of
              None \<Rightarrow> put_boot (b\<lparr>bo_outcome := Some outcome\<rparr>) p
            | Some c \<Rightarrow> finish_boot b c outcome p)"

section \<open>What the page and the operator do\<close>

definition refresh_session :: "provider \<Rightarrow> provider" where
  "refresh_session p = (let (ticket, p1) = start_session_read p in p1\<lparr>pv_checks := pv_checks p1 @ [ticket]\<rparr>)"

definition retry_boot :: "provider \<Rightarrow> provider" where
  "retry_boot p = (case pv_state p of ConfigFailed _ \<Rightarrow> boot (dispatch Retry p) | _ \<Rightarrow> p)"

definition handle_unauthorized :: "nat \<Rightarrow> provider \<Rightarrow> provider" where
  "handle_unauthorized ticket p =
     (if ticket = pv_boot_ticket p \<or> \<not> is_current ticket p then p
      else clear_local_session None (p\<lparr>pv_applied := ticket\<rparr>))"

definition login_answered :: "session_outcome \<Rightarrow> provider \<Rightarrow> provider" where
  "login_answered reply p =
     (case reply of
        Inl e \<Rightarrow>
          if pv_disposed p then p
          else (case lockout_message e of
                  Some lockout \<Rightarrow> dispatch (Locked_out lockout None) p
                | None \<Rightarrow> dispatch (Login_failed LOGIN_REJECTED) p)
      | Inr s \<Rightarrow> if pv_disposed p then p else accept_session s None (retire_in_flight p))"

text \<open>The address \<open>logout\<close> captured when it was called, and its answer: \<open>None\<close> when the request failed.\<close>

definition logout_answered :: "string option \<Rightarrow> string option option \<Rightarrow> provider \<Rightarrow> provider" where
  "logout_answered configured reply p =
     (case reply of
        None \<Rightarrow> if pv_disposed p then p else dispatch (Sign_out_failed SIGN_OUT_FAILURE) p
      | Some url \<Rightarrow>
          let p1 = (if pv_disposed p then p else clear_local_session None (retire_in_flight p)) in
          (case coalesce url configured of
             Some target \<Rightarrow> if target = [] then p1 else p1\<lparr>pv_left := pv_left p1 @ [target]\<rparr>
           | None \<Rightarrow> p1))"

definition mounted :: "provider \<Rightarrow> provider" where
  "mounted p = boot (p\<lparr>pv_disposed := False\<rparr>)"

definition unmounted :: "provider \<Rightarrow> provider" where
  "unmounted p = retire_in_flight (p\<lparr>pv_disposed := True, pv_generation := pv_generation p + 1\<rparr>)"

text \<open>A query of the workspace on screen joins the cache; clearing the cache forgets the ones in flight too.\<close>

definition query_started :: "provider \<Rightarrow> provider" where
  "query_started p = p\<lparr>pv_cache := pv_cache p @ [principal_of (pv_state p)]\<rparr>"

datatype session_event =
    Mounted
  | Unmounted
  | Config_answered nat "auth_config option"
  | Session_answered nat session_outcome
  | Retry_pressed
  | Checked
  | Unauthorized nat
  | Login_pressed
  | Login_answered session_outcome
  | Logout_pressed
  | Logout_answered "string option" "string option option"
  | Query_started
  | Page_worked page_event

text \<open>Whatever else the page does may change its monitor, never its credential.\<close>

definition other_work :: "page_event \<Rightarrow> client_page \<Rightarrow> client_page" where
  "other_work e pg =
     (case e of
        Csrf_set _ _ \<Rightarrow> pg
      | _ \<Rightarrow> fst (page_step e (pg, [])))"

fun session_step :: "session_event \<Rightarrow> provider \<Rightarrow> provider" where
  "session_step Mounted p = mounted p"
| "session_step Unmounted p = unmounted p"
| "session_step (Config_answered ticket reply) p = config_answered ticket reply p"
| "session_step (Session_answered ticket outcome) p = session_answered ticket outcome p"
| "session_step Retry_pressed p = retry_boot p"
| "session_step Checked p = refresh_session p"
| "session_step (Unauthorized ticket) p = handle_unauthorized ticket p"
| "session_step Login_pressed p = dispatch Login_started p"
| "session_step (Login_answered reply) p = login_answered reply p"
| "session_step Logout_pressed p = dispatch Sign_out_started p"
| "session_step (Logout_answered configured reply) p = logout_answered configured reply p"
| "session_step Query_started p = query_started p"
| "session_step (Page_worked e) p = p\<lparr>pv_page := other_work e (pv_page p)\<rparr>"

definition session_run :: "session_event list \<Rightarrow> provider" where
  "session_run events = fold session_step events new_provider"

section \<open>Evidence is ordered\<close>

declare auth_reducer.simps [simp del]

lemmas reducer = auth_reducer.simps signed_in_or_locked_def

lemma dispatch_fields [simp]:
  "pv_page (dispatch e p) = pv_page p" "pv_state (dispatch e p) = auth_reducer (pv_state p) e"
  "pv_principal (dispatch e p) = pv_principal p" "pv_applied (dispatch e p) = pv_applied p"
  "pv_disposed (dispatch e p) = pv_disposed p" "pv_aborted (dispatch e p) = pv_aborted p"
  "pv_boots (dispatch e p) = pv_boots p" "pv_generation (dispatch e p) = pv_generation p"
  "pv_boot_ticket (dispatch e p) = pv_boot_ticket p" "pv_cache (dispatch e p) = pv_cache p"
  by (simp_all add: dispatch_def)

lemma page_fields [simp]:
  "pg_csrf (set_scoped_session b pg) = pg_csrf pg" "pg_csrf (forget_gateway pg) = pg_csrf pg"
  "pg_csrf (set_csrf_token c n pg) = c" "pg_last_ticket (set_scoped_session b pg) = pg_last_ticket pg"
  "pg_last_ticket (forget_gateway pg) = pg_last_ticket pg" "pg_last_ticket (set_csrf_token c n pg) = pg_last_ticket pg"
  "mo_scoped (pg_monitor (set_scoped_session b pg)) = b" "pg_monitor (set_csrf_token c n pg) = pg_monitor pg"
  "mo_scoped (pg_monitor (forget_gateway pg)) = mo_scoped (pg_monitor pg)"
  by (simp_all add: set_scoped_session_def forget_gateway_def set_csrf_token_def clear_gateway_metadata_def)

lemma clear_session_fields [simp]:
  "pv_applied (clear_local_session cfg p) = pv_applied p" "pv_disposed (clear_local_session cfg p) = pv_disposed p"
  "pv_boots (clear_local_session cfg p) = pv_boots p" "pv_generation (clear_local_session cfg p) = pv_generation p"
  "pg_last_ticket (pv_page (clear_local_session cfg p)) = pg_last_ticket (pv_page p)"
  by (simp_all add: clear_local_session_def)

lemma accept_session_fields [simp]:
  "pv_applied (accept_session s cfg p) = pv_applied p" "pv_disposed (accept_session s cfg p) = pv_disposed p"
  "pv_boots (accept_session s cfg p) = pv_boots p" "pv_generation (accept_session s cfg p) = pv_generation p"
  "pg_last_ticket (pv_page (accept_session s cfg p)) = pg_last_ticket (pv_page p)"
  by (simp_all add: accept_session_def Let_def)

lemma retire_in_flight_fields [simp]:
  "pv_disposed (retire_in_flight p) = pv_disposed p" "pv_page (retire_in_flight p) = pv_page p"
  "pv_state (retire_in_flight p) = pv_state p" "pv_principal (retire_in_flight p) = pv_principal p"
  "pv_boots (retire_in_flight p) = pv_boots p" "pv_generation (retire_in_flight p) = pv_generation p"
  "pv_cache (retire_in_flight p) = pv_cache p"
  "pv_applied (retire_in_flight p) = max (pv_applied p) (pg_last_ticket (pv_page p))"
  by (simp_all add: retire_in_flight_def)

lemma apply_read_fields:
  "pv_applied p \<le> pv_applied (apply_session_read t outcome cfg p) \<and>
   pv_disposed (apply_session_read t outcome cfg p) = pv_disposed p \<and>
   pv_boots (apply_session_read t outcome cfg p) = pv_boots p \<and>
   pv_generation (apply_session_read t outcome cfg p) = pv_generation p \<and>
   pg_last_ticket (pv_page (apply_session_read t outcome cfg p)) = pg_last_ticket (pv_page p)"
  by (auto simp: apply_session_read_def is_current_def split: option.split sum.split)

lemma boot_fields [simp]:
  "pv_applied (boot p) = pv_applied p" "pv_state (boot p) = pv_state p" "pv_principal (boot p) = pv_principal p"
  "pv_disposed (boot p) = pv_disposed p" "pv_cache (boot p) = pv_cache p" "pv_generation (boot p) = pv_generation p + 1"
  "pg_csrf (pv_page (boot p)) = pg_csrf (pv_page p)" "pg_monitor (pv_page (boot p)) = pg_monitor (pv_page p)"
  "pg_last_ticket (pv_page (boot p)) = pg_last_ticket (pv_page p) + 1"
  "pv_boots (boot p) = pv_boots p @ [\<lparr>bo_generation = pv_generation p + 1, bo_ticket = pg_last_ticket (pv_page p) + 1,
     bo_config = None, bo_outcome = None\<rparr>]"
  by (simp_all add: boot_def start_session_read_def issue_request_ticket_def)

lemma drop_put_fields [simp]:
  "pv_applied (drop_boot t p) = pv_applied p" "pv_applied (put_boot b p) = pv_applied p"
  "pv_state (drop_boot t p) = pv_state p" "pv_state (put_boot b p) = pv_state p"
  "pv_principal (drop_boot t p) = pv_principal p" "pv_principal (put_boot b p) = pv_principal p"
  "pv_page (drop_boot t p) = pv_page p" "pv_page (put_boot b p) = pv_page p"
  "pv_cache (drop_boot t p) = pv_cache p" "pv_cache (put_boot b p) = pv_cache p"
  "pv_disposed (drop_boot t p) = pv_disposed p" "pv_disposed (put_boot b p) = pv_disposed p"
  "pv_generation (drop_boot t p) = pv_generation p" "pv_generation (put_boot b p) = pv_generation p"
  by (simp_all add: drop_boot_def put_boot_def)

lemma finish_boot_applied: "pv_applied p \<le> pv_applied (finish_boot b c outcome p)"
  using apply_read_fields [of "drop_boot (bo_ticket b) p"] by (simp add: finish_boot_def Let_def)

lemma session_answered_applied: "pv_applied p \<le> pv_applied (session_answered t outcome p)"
  using apply_read_fields [of "p\<lparr>pv_reads := r, pv_checks := c\<rparr>" for r c] finish_boot_applied [of "p\<lparr>pv_reads := r\<rparr>" for r]
  by (simp add: session_answered_def Let_def split: option.split)

lemma config_answered_applied: "pv_applied p \<le> pv_applied (config_answered t reply p)"
  using finish_boot_applied [of p] by (simp add: config_answered_def Let_def split: option.split)

lemma applied_mono: "pv_applied p \<le> pv_applied (session_step e p)"
proof (cases e)
  case (Logout_answered configured reply)
  then show ?thesis
    by (cases reply; cases "case reply of Some url \<Rightarrow> coalesce url configured | None \<Rightarrow> None")
      (auto simp: logout_answered_def Let_def split: option.splits)
next
  case (Login_answered reply)
  then show ?thesis by (auto simp: login_answered_def split: option.split sum.split)
qed (simp_all add: mounted_def unmounted_def session_answered_applied config_answered_applied retry_boot_def refresh_session_def
    start_session_read_def handle_unauthorized_def is_current_def query_started_def issue_request_ticket_def
    split: session_state.split)

lemma applied_mono_run: "pv_applied p \<le> pv_applied (fold session_step es p)"
proof (induction es arbitrary: p)
  case (Cons e es)
  show ?case using Cons [of "session_step e p"] applied_mono [of p e] by simp
qed simp

text \<open>What the tab shows and sends as its identity.\<close>

definition identity_of ::
  "provider \<Rightarrow> principal option \<times> principal option \<times> cptext option \<times> string option \<times> principal option list \<times> nat" where
  "identity_of p =
     (pv_principal p, principal_of (pv_state p), pg_csrf (pv_page p), pg_csrf_cookie (pv_page p), pv_cache p, pv_applied p)"

lemma principal_config_loaded [simp]: "principal_of (auth_reducer s (Config_loaded c)) = principal_of s"
  by (cases s) (simp_all add: reducer)

lemma stale_read:
  assumes "t \<le> pv_applied p"
  shows "identity_of (apply_session_read t outcome cfg p) = identity_of p"
  using assms by (auto simp: apply_session_read_def is_current_def identity_of_def split: option.split)

lemma find_boot_ticket: "find_boot t p = Some b \<Longrightarrow> bo_ticket b = t \<and> b \<in> set (pv_boots p)"
  by (auto simp: find_boot_def find_Some_iff in_set_conv_nth)

lemma stale_finish:
  assumes "bo_ticket b \<le> pv_applied p"
  shows "identity_of (finish_boot b c outcome p) = identity_of p"
  using stale_read [of "bo_ticket b" "drop_boot (bo_ticket b) p"] assms
  by (simp add: finish_boot_def Let_def identity_of_def)

lemma stale_session_answer:
  assumes "t \<le> pv_applied p"
  shows "identity_of (session_answered t outcome p) = identity_of p"
proof -
  let ?p = "\<lambda>c. p\<lparr>pv_reads := filter (\<lambda>u. u \<noteq> t) (pv_reads p), pv_checks := c\<rparr>"
  have same: "identity_of (?p c) = identity_of p" "identity_of (p\<lparr>pv_reads := r\<rparr>) = identity_of p" for c r
    by (simp_all add: identity_of_def)
  have "identity_of (apply_session_read t outcome None (?p c)) = identity_of p" for c
    using stale_read [of t "?p c"] assms same by simp
  moreover have "identity_of (finish_boot b c outcome (p\<lparr>pv_reads := r\<rparr>)) = identity_of p" if "bo_ticket b = t" for b c r
    using stale_finish [of b "p\<lparr>pv_reads := r\<rparr>"] assms that same by simp
  moreover have "identity_of (put_boot b (p\<lparr>pv_reads := r\<rparr>)) = identity_of p" for b r by (simp add: identity_of_def)
  ultimately show ?thesis
    by (auto simp: session_answered_def Let_def same split: option.split dest: find_boot_ticket)
qed

lemma stale_config_answer:
  assumes "t \<le> pv_applied p"
  shows "identity_of (config_answered t reply p) = identity_of p"
proof -
  have failed: "principal_of (auth_reducer s Config_failed) = principal_of s" for s by (simp add: reducer)
  show ?thesis using assms stale_finish [of _ p]
    by (auto simp: config_answered_def Let_def identity_of_def failed split: option.split dest: find_boot_ticket)
qed

text \<open>The events that hand the tab to someone else, or to nobody.\<close>

fun hands_over :: "session_event \<Rightarrow> provider \<Rightarrow> bool" where
  "hands_over Unmounted p = True"
| "hands_over (Login_answered (Inr s)) p = (\<not> pv_disposed p)"
| "hands_over (Logout_answered _ (Some _)) p = (\<not> pv_disposed p)"
| "hands_over _ p = False"

lemma hand_over_retires:
  assumes "hands_over e p"
  shows "pg_last_ticket (pv_page p) \<le> pv_applied (session_step e p)"
  using assms
proof (cases e)
  case (Login_answered reply)
  then show ?thesis using assms by (cases reply) (simp_all add: login_answered_def)
next
  case (Logout_answered configured reply)
  then show ?thesis using assms
    by (cases reply) (auto simp: logout_answered_def Let_def split: option.split)
qed (simp_all add: unmounted_def)

text \<open>What a check says of the session, on its own.\<close>

definition answer_says :: "session_outcome \<Rightarrow> principal option \<Rightarrow> principal option" where
  "answer_says outcome before =
     (case outcome of Inr s \<Rightarrow> Some (se_principal s) | Inl e \<Rightarrow> if rf_status e = Some 401 then None else before)"

lemma current_read:
  assumes "is_current t p" "t \<notin> set (pv_aborted p)" "pv_principal p = principal_of (pv_state p)"
  shows "pv_principal (apply_session_read t outcome None p) = answer_says outcome (pv_principal p) \<and>
    principal_of (pv_state (apply_session_read t outcome None p)) = answer_says outcome (pv_principal p)"
proof -
  have shown: "principal_of (auth_reducer s (Session_accepted q None)) = Some q"
    "principal_of (auth_reducer s (Locked_out l None)) = principal_of s"
    "principal_of (auth_reducer s (Verification_failed None)) = principal_of s"
    "principal_of (auth_reducer s (Signed_out None)) = None" for s q l
    by (cases s; simp add: reducer)+
  have "\<not> pv_disposed p" using assms by (simp add: is_current_def)
  then show ?thesis using assms
    by (cases outcome) (auto simp: apply_session_read_def answer_says_def accept_session_def clear_local_session_def Let_def
        shown split: option.split)
qed

section \<open>One session, one tenant\<close>

text \<open>Two principals the BFF treats alike.\<close>

definition same_authorization :: "principal \<Rightarrow> principal \<Rightarrow> bool" where
  "same_authorization a b \<longleftrightarrow>
     p_subject a = p_subject b \<and> p_mode a = p_mode b \<and> p_role a = p_role b \<and>
     map_option set (p_namespaces a) = map_option set (p_namespaces b)"

lemma sorted_names_eq_iff: "sort (remdups a) = sort (remdups b) \<longleftrightarrow> set a = set (b :: string list)"
proof
  assume "sort (remdups a) = sort (remdups b)"
  then have "set (sort (remdups a)) = set (sort (remdups b))" by (rule arg_cong)
  then show "set a = set b" by simp
qed (use sorted_distinct_set_unique [of "sort (remdups a)" "sort (remdups b)"] in simp)

lemma authorization_key_iff: "authorization_key (Some a) = authorization_key (Some b) \<longleftrightarrow> same_authorization a b"
proof -
  have mode: "mode_text m = mode_text n \<longleftrightarrow> m = n" for m n by (cases m; cases n) simp_all
  have role: "role_text m = role_text n \<longleftrightarrow> m = n" for m n by (cases m; cases n) simp_all
  have names: "map JStr (sort (remdups x)) = map JStr (sort (remdups y)) \<longleftrightarrow> set x = set y" for x y :: "string list"
    by (simp add: inj_map_eq_map inj_def sorted_names_eq_iff)
  show ?thesis by (auto simp: authorization_key_def same_authorization_def mode role names split: option.split)
qed

lemma authorization_key_None [simp]:
  "authorization_key None \<noteq> authorization_key (Some a)" "authorization_key q = authorization_key None \<longleftrightarrow> q = None"
  by (auto simp: authorization_key_def split: option.splits)

text \<open>A tab shows one principal, holds a CSRF token exactly while it does, polls the apply status exactly as that
  principal may, and keeps no answer fetched for another.\<close>

definition session_ok :: "provider \<Rightarrow> bool" where
  "session_ok p \<longleftrightarrow>
     pv_principal p = principal_of (pv_state p) \<and>
     (pg_csrf (pv_page p) = None \<longleftrightarrow> pv_principal p = None) \<and>
     (mo_scoped (pg_monitor (pv_page p)) \<longleftrightarrow> (case pv_principal p of None \<Rightarrow> False | Some q \<Rightarrow> p_namespaces q \<noteq> None)) \<and>
     (\<forall>q \<in> set (pv_cache p). q = None \<or> authorization_key q = authorization_key (pv_principal p))"

lemma session_ok_same:
  assumes "session_ok p" "pv_principal p' = pv_principal p" "principal_of (pv_state p') = principal_of (pv_state p)"
    "pg_csrf (pv_page p') = pg_csrf (pv_page p)" "pv_cache p' = pv_cache p"
    "mo_scoped (pg_monitor (pv_page p')) = mo_scoped (pg_monitor (pv_page p))"
  shows "session_ok p'"
  using assms unfolding session_ok_def by auto

lemma session_ok_dispatch:
  assumes "session_ok p" "principal_of (auth_reducer (pv_state p) e) = principal_of (pv_state p)"
  shows "session_ok (dispatch e p)"
  using assms by (auto intro: session_ok_same)

lemma principal_kept [simp]:
  "principal_of (auth_reducer s Config_failed) = principal_of s" "principal_of (auth_reducer s Retry) = principal_of s"
  "principal_of (auth_reducer s (Locked_out l cfg)) = principal_of s"
  "principal_of (auth_reducer s (Verification_failed cfg)) = principal_of s"
  "principal_of (auth_reducer s Login_started) = principal_of s" "principal_of (auth_reducer s (Login_failed e)) = principal_of s"
  "principal_of (auth_reducer s Sign_out_started) = principal_of s"
  "principal_of (auth_reducer s (Sign_out_failed e)) = principal_of s"
  by (cases s; cases cfg; auto simp: reducer split: option.split)+

lemma principal_changed [simp]:
  "principal_of (auth_reducer s (Session_accepted q cfg)) = Some q"
  "principal_of (auth_reducer s (Signed_out cfg)) = None"
  by (cases s; cases cfg; simp add: reducer)+

lemma session_ok_clear: "session_ok p \<Longrightarrow> session_ok (clear_local_session cfg p)"
  by (auto simp: clear_local_session_def session_ok_def)

lemma session_ok_accept: "session_ok p \<Longrightarrow> session_ok (accept_session s cfg p)"
  by (auto simp: accept_session_def session_ok_def Let_def)

lemma session_ok_applied: "session_ok (p\<lparr>pv_applied := n\<rparr>) = session_ok p" "session_ok (retire_in_flight p) = session_ok p"
  "session_ok (p\<lparr>pv_reads := r\<rparr>) = session_ok p" "session_ok (p\<lparr>pv_reads := r, pv_checks := c\<rparr>) = session_ok p"
  "session_ok (p\<lparr>pv_disposed := d\<rparr>) = session_ok p" "session_ok (p\<lparr>pv_disposed := d, pv_generation := n\<rparr>) = session_ok p"
  "session_ok (p\<lparr>pv_left := l\<rparr>) = session_ok p" "session_ok (p\<lparr>pv_aborted := r\<rparr>) = session_ok p"
  "session_ok (drop_boot t p) = session_ok p" "session_ok (put_boot b p) = session_ok p" "session_ok (boot p) = session_ok p"
  by (simp_all add: session_ok_def)

lemma session_ok_read: "session_ok p \<Longrightarrow> session_ok (apply_session_read t outcome cfg p)"
  by (auto simp: apply_session_read_def session_ok_applied intro!: session_ok_dispatch session_ok_clear session_ok_accept
      split: option.split sum.split)

lemma session_ok_finish: "session_ok p \<Longrightarrow> session_ok (finish_boot b c outcome p)"
  by (simp add: finish_boot_def Let_def session_ok_read session_ok_applied)

lemma session_ok_boot_events:
  assumes ok: "session_ok p"
  shows "session_ok (config_answered t reply p)" and "session_ok (session_answered t outcome p)"
proof -
  show "session_ok (config_answered t reply p)"
    using ok by (auto simp: config_answered_def Let_def session_ok_applied intro!: session_ok_dispatch session_ok_finish
        split: option.split)
  show "session_ok (session_answered t outcome p)"
    using ok by (auto simp: session_answered_def Let_def session_ok_applied intro!: session_ok_read session_ok_finish
        split: option.split)
qed

lemma session_ok_logout: "session_ok p \<Longrightarrow> session_ok (logout_answered configured reply p)"
  by (auto simp: logout_answered_def Let_def session_ok_applied intro!: session_ok_dispatch session_ok_clear
      split: option.split)

lemma session_ok_login: "session_ok p \<Longrightarrow> session_ok (login_answered reply p)"
  by (auto simp: login_answered_def session_ok_applied intro!: session_ok_dispatch session_ok_accept
      split: option.split sum.split)

text \<open>The page's other work leaves the credential and the scope of the polls alone.\<close>

lemma scope_of_answers [simp]:
  "mo_scoped (observe_rest r resp owner cached body m) = mo_scoped m"
  "mo_scoped (snd (begin_gateway_request r m)) = mo_scoped m"
  "mo_scoped (snd (observe_failure r err identity m)) = mo_scoped m"
  "mo_scoped (fst (poll_answer po polled m)) = mo_scoped m"
  by (auto simp: observe_rest_def begin_gateway_request_def observe_failure_def poll_answer_def next_attempt_def with_apply_def Let_def
      split: option.split sum.split)

lemma monitor_scope [simp]: "mo_scoped (monitor_step e m) = mo_scoped m"
proof (cases e)
  case (Poll_answered i polled)
  obtain m' next_poll where "poll_answer (mo_polls m ! i) polled m = (m', next_poll)"
    by (cases "poll_answer (mo_polls m ! i) polled m")
  moreover from this have "mo_scoped m' = mo_scoped m" using scope_of_answers(4) [of "mo_polls m ! i" polled m] by simp
  ultimately show ?thesis by (cases next_poll) (simp_all add: Poll_answered poll_answered_def)
qed (simp_all add: observe_response_def body_read_def clear_gateway_metadata_def Let_def)

lemma other_work_page [simp]:
  "pg_csrf (other_work e pg) = pg_csrf pg \<and> mo_scoped (pg_monitor (other_work e pg)) = mo_scoped (pg_monitor pg) \<and>
   pg_last_ticket pg \<le> pg_last_ticket (other_work e pg)"
proof -
  have seen: "pg_csrf (observe_gateway_target target g) = pg_csrf g \<and>
    mo_scoped (pg_monitor (observe_gateway_target target g)) = mo_scoped (pg_monitor g) \<and>
    pg_last_ticket (observe_gateway_target target g) = pg_last_ticket g" for target g
    by (auto simp: observe_gateway_target_def retire_gateway_target_def clear_gateway_metadata_def split: option.split)
  show ?thesis
  proof (cases e)
    case (Send cookies r cx)
    obtain identity mon where begun: "begin_gateway_request r (pg_monitor pg) = (identity, mon)"
      by (cases "begin_gateway_request r (pg_monitor pg)")
    then have "mo_scoped mon = mo_scoped (pg_monitor pg)" using scope_of_answers(2) [of r "pg_monitor pg"] by simp
    then show ?thesis
      by (cases "cx_ticket cx") (simp_all add: Send other_work_def before_request_def issue_request_ticket_def begun)
  next
    case (Answered sr resp target auth_layer now)
    have "mo_scoped (observe_response r resp owner tm m) = mo_scoped m" for r owner tm m
      using monitor_scope [of "Answer r resp owner tm" m] by simp
    then show ?thesis using seen [of target pg] by (simp add: Answered other_work_def after_response_def Let_def)
  next
    case (Failed sr err)
    define pg1 where "pg1 = (if is_gateway_target_refusal (sq_request sr) err then retire_gateway_target pg else pg)"
    obtain unobserved mon where failed: "observe_failure (sq_request sr) err (sq_identity sr) (pg_monitor pg1) = (unobserved, mon)"
      by (cases "observe_failure (sq_request sr) err (sq_identity sr) (pg_monitor pg1)")
    then have "mo_scoped mon = mo_scoped (pg_monitor pg1)"
      using scope_of_answers(3) [of "sq_request sr" err "sq_identity sr" "pg_monitor pg1"] by simp
    moreover have "mo_scoped (pg_monitor pg1) = mo_scoped (pg_monitor pg)" "pg_csrf pg1 = pg_csrf pg" "pg_last_ticket pg1 = pg_last_ticket pg"
      by (simp_all add: pg1_def retire_gateway_target_def clear_gateway_metadata_def)
    ultimately show ?thesis using failed by (simp add: Failed other_work_def before_error_def pg1_def [symmetric] Let_def)
  qed (use seen [of _ pg] in \<open>auto simp: other_work_def\<close>)
qed

lemma session_ok_step:
  assumes ok: "session_ok p"
  shows "session_ok (session_step e p)"
proof (cases e)
  case (Page_worked w)
  then show ?thesis using session_ok_same [OF ok, of "p\<lparr>pv_page := other_work w (pv_page p)\<rparr>"] by simp
next
  case Query_started
  have "pv_principal p = principal_of (pv_state p)" using ok by (simp add: session_ok_def)
  then show ?thesis using ok by (auto simp: Query_started query_started_def session_ok_def)
next
  case Retry_pressed
  then show ?thesis using session_ok_dispatch [OF ok, of Retry]
    by (auto simp: retry_boot_def session_ok_applied ok split: session_state.split)
next
  case Checked
  have "session_ok (p\<lparr>pv_page := (pv_page p)\<lparr>pg_last_ticket := n\<rparr>, pv_reads := r, pv_checks := c\<rparr>)" for n r c
    by (rule session_ok_same [OF ok]) simp_all
  then show ?thesis by (simp add: Checked refresh_session_def start_session_read_def issue_request_ticket_def)
next
  case (Unauthorized t)
  then show ?thesis using ok by (simp add: handle_unauthorized_def session_ok_clear session_ok_applied)
qed (use ok session_ok_boot_events session_ok_login session_ok_logout in
    \<open>simp_all add: mounted_def unmounted_def session_ok_applied session_ok_dispatch\<close>)

lemma session_ok_run: "session_ok (session_run events)"
proof (induction events rule: rev_induct)
  case Nil
  then show ?case by (simp add: session_run_def session_ok_def new_provider_def new_page_def monitor_init_def)
next
  case (snoc e events)
  then show ?case using session_ok_step [of "session_run events" e] by (simp add: session_run_def)
qed

section \<open>A boot always ends\<close>

definition boots_ok :: "provider \<Rightarrow> bool" where
  "boots_ok p \<longleftrightarrow>
     distinct (map bo_ticket (pv_boots p)) \<and>
     (\<forall>b \<in> set (pv_boots p). bo_ticket b \<le> pg_last_ticket (pv_page p) \<and> (bo_config b = None \<or> bo_outcome b = None))"

definition loading_ok :: "provider \<Rightarrow> bool" where
  "loading_ok p \<longleftrightarrow> pv_state p = Loading \<and> \<not> pv_disposed p \<longrightarrow> (\<exists>b \<in> set (pv_boots p). bo_generation b = pv_generation p)"

lemma loading_only: "auth_reducer s e = Loading \<Longrightarrow> s = Loading \<or> e = Retry"
  by (cases e; cases s) (auto simp: reducer split: option.splits if_splits)

lemma boots_ok_same:
  "boots_ok p \<Longrightarrow> pv_boots p' = pv_boots p \<Longrightarrow> pg_last_ticket (pv_page p) \<le> pg_last_ticket (pv_page p') \<Longrightarrow> boots_ok p'"
  by (fastforce simp: boots_ok_def)

lemma loading_ok_same:
  "loading_ok p \<Longrightarrow> pv_boots p' = pv_boots p \<Longrightarrow> pv_generation p' = pv_generation p \<Longrightarrow> pv_disposed p' = pv_disposed p \<Longrightarrow>
   (pv_state p' = Loading \<Longrightarrow> pv_state p = Loading) \<Longrightarrow> loading_ok p'"
  by (auto simp: loading_ok_def)

lemma boots_ok_boot: "boots_ok p \<Longrightarrow> boots_ok (boot p)"
  by (fastforce simp: boots_ok_def)

lemma loading_ok_boot [simp]: "loading_ok (boot p)"
  by (simp add: loading_ok_def)

lemma drop_boot_boots: "pv_boots (drop_boot t p) = filter (\<lambda>b. bo_ticket b \<noteq> t) (pv_boots p)"
  by (simp add: drop_boot_def)

lemma boots_ok_drop: "boots_ok p \<Longrightarrow> boots_ok (drop_boot t p)"
  by (auto simp: boots_ok_def drop_boot_boots distinct_map inj_on_def)

lemma boots_ok_put: "boots_ok p \<Longrightarrow> b \<in> set (pv_boots p) \<Longrightarrow> bo_ticket b' = bo_ticket b \<Longrightarrow> bo_config b' = None \<or> bo_outcome b' = None \<Longrightarrow>
    boots_ok (put_boot b' p)"
  by (auto simp: boots_ok_def put_boot_def comp_def if_distrib cong: if_cong)

lemma loading_ok_put: "loading_ok p \<Longrightarrow> bo_generation b' = bo_generation b \<Longrightarrow> find_boot (bo_ticket b') p = Some b \<Longrightarrow> boots_ok p \<Longrightarrow>
    loading_ok (put_boot b' p)"
proof -
  assume ok: "loading_ok p" "boots_ok p" and b: "bo_generation b' = bo_generation b" "find_boot (bo_ticket b') p = Some b"
  have "c = b" if "c \<in> set (pv_boots p)" "bo_ticket c = bo_ticket b'" for c
    using ok(2) that find_boot_ticket [OF b(2)] by (auto simp: boots_ok_def distinct_map inj_on_def)
  note only = this
  have "\<exists>d \<in> set (pv_boots (put_boot b' p)). bo_generation d = pv_generation p"
    if c: "c \<in> set (pv_boots p)" "bo_generation c = pv_generation p" for c
  proof (cases "bo_ticket c = bo_ticket b'")
    case True
    then have "b' \<in> set (pv_boots (put_boot b' p))" using c(1) by (auto simp: put_boot_def image_iff)
    then show ?thesis using only [OF c(1) True] c(2) b(1) by auto
  next
    case False
    then have "c \<in> set (pv_boots (put_boot b' p))" using c(1) by (auto simp: put_boot_def image_iff)
    then show ?thesis using c(2) by auto
  qed
  then show "loading_ok (put_boot b' p)" using ok(1) by (auto simp: loading_ok_def)
qed

lemma loading_ok_drop:
  assumes "loading_ok p" "boots_ok p" "find_boot t p = Some b" "\<not> live_boot p b"
  shows "loading_ok (drop_boot t p)"
proof -
  have "c = b" if "c \<in> set (pv_boots p)" "bo_ticket c = t" for c
    using assms(2) that find_boot_ticket [OF assms(3)] by (auto simp: boots_ok_def distinct_map inj_on_def)
  then show ?thesis using assms(1,4) by (auto simp: loading_ok_def live_boot_def drop_boot_boots)
qed

text \<open>Applied with the configuration, a read always leaves the loading screen.\<close>

lemma read_with_config_ends:
  assumes "\<not> pv_disposed p"
  shows "pv_state (apply_session_read t outcome (Some c) p) \<noteq> Loading \<and>
    (pv_state p = Loading \<longrightarrow> config_of (pv_state (apply_session_read t outcome (Some c) p)) = Some c)"
  using assms
  by (cases "pv_state p")
    (auto simp: apply_session_read_def clear_local_session_def accept_session_def Let_def reducer split: option.split sum.split)

lemma loading_ok_read: "loading_ok p \<Longrightarrow> loading_ok (apply_session_read t outcome cfg p)"
  by (rule loading_ok_same [of p]; cases cfg)
    (use apply_read_fields [of p t outcome cfg] in
      \<open>auto simp: apply_session_read_def clear_local_session_def accept_session_def Let_def
        dest: loading_only split: option.splits sum.splits if_splits\<close>)

lemma boots_ok_read: "boots_ok p \<Longrightarrow> boots_ok (apply_session_read t outcome cfg p)"
  using apply_read_fields [of p t outcome cfg] by (auto intro: boots_ok_same)

lemma finish_boot_ok:
  assumes "boots_ok p" "loading_ok p" "find_boot (bo_ticket b) p = Some b"
  shows "boots_ok (finish_boot b c outcome p) \<and> loading_ok (finish_boot b c outcome p)"
proof (cases "live_boot p b")
  case True
  then have "\<not> pv_disposed (drop_boot (bo_ticket b) p)" by (simp add: live_boot_def)
  then have "pv_state (apply_session_read (bo_ticket b) outcome (Some c) (drop_boot (bo_ticket b) p)) \<noteq> Loading"
    using read_with_config_ends by blast
  then have "loading_ok (apply_session_read (bo_ticket b) outcome (Some c) (drop_boot (bo_ticket b) p))"
    by (simp add: loading_ok_def)
  then show ?thesis using True assms(1) boots_ok_drop boots_ok_read by (simp add: finish_boot_def Let_def)
next
  case False
  then show ?thesis using assms boots_ok_drop loading_ok_drop by (simp add: finish_boot_def Let_def)
qed

lemma config_answered_ok:
  assumes "boots_ok p" "loading_ok p"
  shows "boots_ok (config_answered t reply p) \<and> loading_ok (config_answered t reply p)"
proof (cases "find_boot t p")
  case None
  then show ?thesis using assms by (simp add: config_answered_def)
next
  case (Some b)
  then have b: "bo_ticket b = t" "b \<in> set (pv_boots p)" using find_boot_ticket by blast+
  let ?failed = "drop_boot t (p\<lparr>pv_aborted := pv_aborted p @ [t]\<rparr>)"
  have abort: "boots_ok (p\<lparr>pv_aborted := a\<rparr>)" "loading_ok (p\<lparr>pv_aborted := a\<rparr>)" for a
    using assms by (simp_all add: boots_ok_def loading_ok_def)
  have dropped: "boots_ok ?failed" using boots_ok_drop [OF abort(1)] by blast
  have "boots_ok (dispatch Config_failed ?failed) \<and> loading_ok (dispatch Config_failed ?failed)" if "live_boot p b"
    using boots_ok_same [OF dropped] that by (simp add: loading_ok_def reducer)
  moreover have "loading_ok ?failed" if "\<not> live_boot p b"
    using that loading_ok_drop [of "p\<lparr>pv_aborted := pv_aborted p @ [t]\<rparr>" t b] abort Some by (simp add: find_boot_def live_boot_def)
  moreover have "loading_ok (drop_boot t p)" if "\<not> live_boot p b" using loading_ok_drop assms Some that by blast
  moreover have "boots_ok (put_boot (b\<lparr>bo_config := Some c\<rparr>) p) \<and> loading_ok (put_boot (b\<lparr>bo_config := Some c\<rparr>) p)"
    if "bo_outcome b = None" for c
    using boots_ok_put [OF assms(1) b(2)] loading_ok_put [OF assms(2), where b = b] Some b that assms by simp
  moreover have "boots_ok (finish_boot b c outcome p) \<and> loading_ok (finish_boot b c outcome p)" for c outcome
    using finish_boot_ok [OF assms] Some b by simp
  ultimately show ?thesis using assms dropped Some boots_ok_drop
    by (auto simp: config_answered_def Let_def split: option.split)
qed

lemma session_answered_ok:
  assumes "boots_ok p" "loading_ok p"
  shows "boots_ok (session_answered t outcome p) \<and> loading_ok (session_answered t outcome p)"
proof -
  have read: "boots_ok (p\<lparr>pv_reads := r\<rparr>)" "loading_ok (p\<lparr>pv_reads := r\<rparr>)" "boots_ok (p\<lparr>pv_reads := r, pv_checks := c\<rparr>)"
    "loading_ok (p\<lparr>pv_reads := r, pv_checks := c\<rparr>)" for r c
    using assms by (simp_all add: boots_ok_def loading_ok_def)
  let ?p = "p\<lparr>pv_reads := filter (\<lambda>u. u \<noteq> t) (pv_reads p)\<rparr>"
  show ?thesis
  proof (cases "find_boot t ?p")
    case None
    then show ?thesis using read boots_ok_read loading_ok_read by (simp add: session_answered_def Let_def)
  next
    case (Some b)
    then have b: "bo_ticket b = t" "b \<in> set (pv_boots ?p)" using find_boot_ticket by blast+
    have "boots_ok (put_boot (b\<lparr>bo_outcome := Some outcome\<rparr>) ?p) \<and> loading_ok (put_boot (b\<lparr>bo_outcome := Some outcome\<rparr>) ?p)"
      if "bo_config b = None"
      using boots_ok_put [OF _ b(2), of "b\<lparr>bo_outcome := Some outcome\<rparr>"]
        loading_ok_put [of ?p "b\<lparr>bo_outcome := Some outcome\<rparr>" b] Some b that read(1,2) by simp
    moreover have "boots_ok (finish_boot b c outcome ?p) \<and> loading_ok (finish_boot b c outcome ?p)" for c
      using finish_boot_ok [OF read(1,2)] Some b by simp
    ultimately show ?thesis using read Some by (auto simp: session_answered_def Let_def split: option.split)
  qed
qed

lemma boots_inv_same:
  assumes "boots_ok p" "loading_ok p" "pv_boots p' = pv_boots p" "pv_generation p' = pv_generation p"
    "pv_disposed p' = pv_disposed p" "pg_last_ticket (pv_page p) \<le> pg_last_ticket (pv_page p')"
    "pv_state p' = Loading \<Longrightarrow> pv_state p = Loading"
  shows "boots_ok p' \<and> loading_ok p'"
  using boots_ok_same [of p p'] loading_ok_same [of p p'] assms by blast

lemma boots_inv_step:
  assumes ok: "boots_ok p" "loading_ok p"
  shows "boots_ok (session_step e p) \<and> loading_ok (session_step e p)"
proof (cases e)
  case Mounted
  have "boots_ok (p\<lparr>pv_disposed := False\<rparr>)" using ok by (simp add: boots_ok_def)
  then show ?thesis by (simp add: Mounted mounted_def boots_ok_boot)
next
  case Unmounted
  have "boots_ok (unmounted p)" by (rule boots_ok_same [OF ok(1)]) (simp_all add: unmounted_def)
  then show ?thesis by (simp add: Unmounted loading_ok_def unmounted_def)
next
  case Retry_pressed
  have "boots_ok (dispatch Retry p)" by (rule boots_ok_same [OF ok(1)]) simp_all
  then show ?thesis using ok by (simp add: Retry_pressed retry_boot_def boots_ok_boot split: session_state.split)
next
  case (Login_answered reply)
  show ?thesis unfolding Login_answered session_step.simps
    by (rule boots_inv_same [OF ok])
      (auto simp: login_answered_def accept_session_def Let_def dest: loading_only split: option.splits sum.splits if_splits)
next
  case (Logout_answered configured reply)
  show ?thesis unfolding Logout_answered session_step.simps
    by (rule boots_inv_same [OF ok])
      (auto simp: logout_answered_def clear_local_session_def Let_def dest: loading_only split: option.splits if_splits)
next
  case (Unauthorized t)
  show ?thesis unfolding Unauthorized session_step.simps
    by (rule boots_inv_same [OF ok])
      (auto simp: handle_unauthorized_def clear_local_session_def dest: loading_only split: if_splits)
next
  case Checked
  show ?thesis unfolding Checked session_step.simps
    by (rule boots_inv_same [OF ok]) (simp_all add: refresh_session_def start_session_read_def issue_request_ticket_def)
next
  case Login_pressed
  show ?thesis unfolding Login_pressed session_step.simps by (rule boots_inv_same [OF ok]) (auto dest: loading_only)
next
  case Logout_pressed
  show ?thesis unfolding Logout_pressed session_step.simps by (rule boots_inv_same [OF ok]) (auto dest: loading_only)
next
  case Query_started
  show ?thesis unfolding Query_started session_step.simps by (rule boots_inv_same [OF ok]) (simp_all add: query_started_def)
next
  case (Page_worked w)
  show ?thesis unfolding Page_worked session_step.simps
    by (rule boots_inv_same [OF ok]) (use other_work_page [of w "pv_page p"] in simp_all)
qed (use config_answered_ok [OF ok] session_answered_ok [OF ok] in simp_all)

lemma boots_inv_run: "boots_ok (session_run (Mounted # events)) \<and> loading_ok (session_run (Mounted # events))"
proof (induction events rule: rev_induct)
  case Nil
  have "boots_ok (new_provider\<lparr>pv_disposed := False\<rparr>)" by (simp add: boots_ok_def new_provider_def)
  then show ?case by (simp add: session_run_def mounted_def boots_ok_boot)
next
  case (snoc e events)
  then show ?case using boots_inv_step [of "session_run (Mounted # events)" e] by (simp add: session_run_def)
qed

lemma find_put: "b \<in> set bs \<Longrightarrow> bo_ticket b = t \<Longrightarrow> bo_ticket b' = t \<Longrightarrow>
    find (\<lambda>c. bo_ticket c = t) (map (\<lambda>c. if bo_ticket c = t then b' else c) bs) = Some b'"
  by (induction bs) auto

lemma find_boot_member:
  assumes "boots_ok p" "b \<in> set (pv_boots p)"
  shows "find_boot (bo_ticket b) p = Some b"
proof -
  have "distinct (map bo_ticket bs) \<Longrightarrow> b \<in> set bs \<Longrightarrow> find (\<lambda>c. bo_ticket c = bo_ticket b) bs = Some b" for bs
    by (induction bs) auto
  then show ?thesis using assms by (simp add: boots_ok_def find_boot_def)
qed

lemma config_kept:
  assumes "config_of (pv_state p) = Some c"
  shows "config_of (pv_state (apply_session_read t outcome None p)) = Some c"
  using assms
  by (cases "pv_state p") (auto simp: apply_session_read_def clear_local_session_def accept_session_def Let_def reducer
      split: option.split sum.split)

text \<open>The boot that keeps a tab loading ends it, whatever its two reads answer.\<close>

lemma boot_ends:
  assumes ok: "boots_ok p" and b: "find_boot t p = Some b" "live_boot p b" and loading: "pv_state p = Loading"
  shows "pv_state (session_answered t outcome (config_answered t (Some c) p)) \<noteq> Loading \<and>
    config_of (pv_state (session_answered t outcome (config_answered t (Some c) p))) =
      Some (case bo_config b of Some c' \<Rightarrow> c' | None \<Rightarrow> c)"
proof -
  have t: "bo_ticket b = t" "b \<in> set (pv_boots p)" using b(1) find_boot_ticket by blast+
  have one: "bo_config b = None \<or> bo_outcome b = None" using ok t(2) by (simp add: boots_ok_def)
  have ends: "pv_state (finish_boot b' c' o' q) \<noteq> Loading \<and> config_of (pv_state (finish_boot b' c' o' q)) = Some c'"
    if "live_boot q b'" "pv_state q = Loading" for b' c' o' q
    using that read_with_config_ends [of "drop_boot (bo_ticket b') q" "bo_ticket b'" o' c'] by (simp add: finish_boot_def Let_def live_boot_def)
  have reads: "find_boot t (q\<lparr>pv_reads := r\<rparr>) = find_boot t q" "live_boot (q\<lparr>pv_reads := r\<rparr>) b' = live_boot q b'" for q r b'
    by (simp_all add: find_boot_def live_boot_def)
  have config: "pv_state q \<noteq> Loading" if "config_of (pv_state q) = Some c'" for q c' using that by auto
  show ?thesis
  proof (cases "bo_config b")
    case (Some c')
    then have "config_answered t (Some c) p = p" using b(1) by (simp add: config_answered_def)
    moreover have "bo_outcome b = None" using one Some by simp
    ultimately show ?thesis using ends [of "p\<lparr>pv_reads := filter (\<lambda>u. u \<noteq> t) (pv_reads p)\<rparr>" b c' outcome] b loading Some
      by (simp add: session_answered_def reads Let_def)
  next
    case none: None
    show ?thesis
    proof (cases "bo_outcome b")
      case (Some early)
      let ?q = "finish_boot b c early p"
      have "config_answered t (Some c) p = ?q" using b none Some by (simp add: config_answered_def)
      moreover have "find_boot t ?q = None"
        using t(1) apply_read_fields [of "drop_boot t p"] by (simp add: find_boot_def find_None_iff finish_boot_def Let_def drop_boot_boots)
      moreover have known: "config_of (pv_state ?q) = Some c" using ends [OF b(2) loading] by simp
      ultimately have "config_of (pv_state (session_answered t outcome (config_answered t (Some c) p))) = Some c"
        using config_kept [of "?q\<lparr>pv_reads := r, pv_checks := k\<rparr>" for r k] by (simp add: session_answered_def reads Let_def)
      then show ?thesis using none config by simp
    next
      case None
      let ?b = "b\<lparr>bo_config := Some c\<rparr>" and ?q = "put_boot (b\<lparr>bo_config := Some c\<rparr>) p"
      have "find_boot t ?q = Some ?b" using find_put [OF t(2,1), of ?b] t(1) by (simp add: find_boot_def put_boot_def)
      moreover have "config_answered t (Some c) p = ?q" using b none None by (simp add: config_answered_def)
      moreover have "live_boot ?q ?b" using b(2) by (simp add: live_boot_def)
      ultimately show ?thesis
        using ends [of "?q\<lparr>pv_reads := filter (\<lambda>u. u \<noteq> t) (pv_reads ?q)\<rparr>" ?b c outcome] loading None none
        by (simp add: session_answered_def reads Let_def)
    qed
  qed
qed

text \<open>C37: A tab is one session. Whatever boots, checks, sign-ins, sign-outs, late refusals, unmounts and other work came
  before, and in whatever order their answers arrive: the principal the workspace is for is the one on screen; the
  page holds a CSRF token exactly while it has one, and polls for it exactly what its grants allow; every answer in
  the query cache was fetched by a principal with the same subject, sign-in mode, role and grants, or by nobody; and
  a tab still loading has a boot in flight which, once its configuration and session reads have answered, whatever
  they say, shows a sign-in form, a lockout or a workspace of the mode it loaded.\<close>

theorem session_whole_and_never_stuck:
  "let p = session_run (Mounted # events) in
     pv_principal p = principal_of (pv_state p) \<and>
     (pg_csrf (pv_page p) = None \<longleftrightarrow> pv_principal p = None) \<and>
     (mo_scoped (pg_monitor (pv_page p)) \<longleftrightarrow> (case pv_principal p of None \<Rightarrow> False | Some q \<Rightarrow> p_namespaces q \<noteq> None)) \<and>
     (\<forall>a. Some a \<in> set (pv_cache p) \<longrightarrow> (\<exists>b. pv_principal p = Some b \<and> same_authorization a b)) \<and>
     (pv_state p = Loading \<and> \<not> pv_disposed p \<longrightarrow>
       (\<exists>b \<in> set (pv_boots p). live_boot p b \<and>
          (bo_config b = None \<longrightarrow> pv_state (config_answered (bo_ticket b) None p) = ConfigFailed CONFIG_FAILURE) \<and>
          (\<forall>c outcome. config_of (pv_state (session_answered (bo_ticket b) outcome (config_answered (bo_ticket b) (Some c) p))) =
             Some (case bo_config b of Some c' \<Rightarrow> c' | None \<Rightarrow> c))))"
proof -
  define p where "p = session_run (Mounted # events)"
  have ok: "session_ok p" and boots: "boots_ok p" "loading_ok p" unfolding p_def using session_ok_run boots_inv_run by blast+
  have kept: "\<exists>b. pv_principal p = Some b \<and> same_authorization a b" if "Some a \<in> set (pv_cache p)" for a
  proof -
    have "authorization_key (Some a) = authorization_key (pv_principal p)" using ok that by (auto simp: session_ok_def)
    then show ?thesis using authorization_key_iff by (cases "pv_principal p") (auto dest: sym)
  qed
  have "\<exists>b \<in> set (pv_boots p). live_boot p b \<and>
      (bo_config b = None \<longrightarrow> pv_state (config_answered (bo_ticket b) None p) = ConfigFailed CONFIG_FAILURE) \<and>
      (\<forall>c outcome. config_of (pv_state (session_answered (bo_ticket b) outcome (config_answered (bo_ticket b) (Some c) p))) =
         Some (case bo_config b of Some c' \<Rightarrow> c' | None \<Rightarrow> c))"
    if loading: "pv_state p = Loading" "\<not> pv_disposed p"
  proof -
    obtain b where b: "b \<in> set (pv_boots p)" "live_boot p b"
      using boots(2) loading by (auto simp: loading_ok_def live_boot_def)
    have find: "find_boot (bo_ticket b) p = Some b"
      using find_boot_member [OF boots(1) b(1)] .
    then show ?thesis using b boot_ends [OF boots(1) find b(2) loading(1)] loading
      by (intro bexI [of _ b]) (simp_all add: config_answered_def Let_def reducer)
  qed
  then show ?thesis using ok kept unfolding p_def [symmetric] Let_def session_ok_def by blast
qed

definition sample_auth_config :: auth_config where
  "sample_auth_config = \<lparr>au_mode = TrustedProxy, au_login_url = None, au_logout_url = Some ''/sso/out''\<rparr>"

definition sample_session :: "string \<Rightarrow> session_response" where
  "sample_session subject =
     \<lparr>se_principal = \<lparr>p_subject = subject, p_display = subject, p_role = Operator, p_namespaces = Some [''team-a''], p_mode = TrustedProxy\<rparr>,
      se_csrf = cps ''token'', se_cookie = None\<rparr>"

definition sample_events :: "session_event list" where
  "sample_events =
     [Config_answered 1 (Some sample_auth_config), Session_answered 1 (Inr (sample_session ''ann'')), Query_started]"

lemma sample_boot:
  "session_run [Mounted] = new_provider\<lparr>pv_page := (new_page False)\<lparr>pg_last_ticket := 1\<rparr>, pv_reads := [1], pv_boot_ticket := 1,
     pv_generation := 1, pv_boots := [\<lparr>bo_generation = 1, bo_ticket = 1, bo_config = None, bo_outcome = None\<rparr>]\<rparr>"
  by (simp add: session_run_def mounted_def boot_def start_session_read_def issue_request_ticket_def new_provider_def new_page_def)

lemma sample_signed_in:
  "let p = session_run (Mounted # sample_events) in
     pv_state p = Authenticated sample_auth_config (se_principal (sample_session ''ann'')) None \<and>
     pv_principal p = Some (se_principal (sample_session ''ann'')) \<and>
     pv_cache p = [Some (se_principal (sample_session ''ann''))] \<and> pg_last_ticket (pv_page p) = 1 \<and> pv_applied p = 1 \<and>
     \<not> pv_disposed p \<and> pv_aborted p = [] \<and> pv_boots p = [] \<and> pv_checks p = [] \<and> pv_boot_ticket p = 1"
proof -
  have "session_run (Mounted # sample_events) = fold session_step sample_events (session_run [Mounted])" by (simp add: session_run_def)
  then show ?thesis
    by (simp add: sample_boot sample_events_def config_answered_def session_answered_def find_boot_def live_boot_def put_boot_def
        finish_boot_def drop_boot_def apply_session_read_def is_current_def accept_session_def query_started_def dispatch_def reducer
        new_provider_def new_page_def)
qed

theorem session_whole_and_never_stuck_witness:
  "pv_cache (session_run (Mounted # sample_events)) = [Some (se_principal (sample_session ''ann''))] \<and>
   mo_scoped (pg_monitor (pv_page (session_run (Mounted # sample_events)))) \<and>
   same_authorization (se_principal (sample_session ''ann'')) (the (pv_principal (session_run (Mounted # sample_events)))) \<and>
   pv_state (session_run [Mounted]) = Loading \<and>
   list_ex (\<lambda>b. config_of (pv_state (session_answered (bo_ticket b) (Inr (sample_session ''ann''))
     (config_answered (bo_ticket b) (Some sample_auth_config) (session_run [Mounted])))) \<noteq> None) (pv_boots (session_run [Mounted]))"
proof -
  have scoped: "p_namespaces (se_principal (sample_session ''ann'')) \<noteq> None" by (simp add: sample_session_def)
  have loading: "pv_state (session_run [Mounted]) = Loading" "\<not> pv_disposed (session_run [Mounted])"
    by (simp_all add: sample_boot new_provider_def)
  have "\<exists>b \<in> set (pv_boots (session_run [Mounted])). config_of (pv_state (session_answered (bo_ticket b) (Inr (sample_session ''ann''))
     (config_answered (bo_ticket b) (Some sample_auth_config) (session_run [Mounted])))) \<noteq> None"
    using session_whole_and_never_stuck [of "[]"] loading unfolding Let_def by fastforce
  moreover have "same_authorization (se_principal (sample_session ''ann'')) (the (pv_principal (session_run (Mounted # sample_events))))"
    using session_whole_and_never_stuck [of sample_events] sample_signed_in unfolding Let_def by fastforce
  ultimately show ?thesis
    using session_whole_and_never_stuck [of sample_events] sample_signed_in scoped loading unfolding Let_def list_ex_iff by simp
qed

lemma identity_kept_apart:
  assumes "t \<le> pv_applied p"
  shows "identity_of (handle_unauthorized t p) = identity_of p"
  using assms by (simp add: handle_unauthorized_def is_current_def)

text \<open>C38: Evidence about the session counts only in the order it was asked for. When the tab changes hands (a sign-in
  is accepted, a sign-out confirmed, the provider unmounted), no request sent before, whenever its answer arrives and
  whatever the tab does in between, changes the principal, the CSRF token, the cached answers or the order again: not
  a session check, not a boot's reads, not another request's \<open>401\<close>. A check asked for after all the evidence is
  taken at its word: its principal signs in, its \<open>401\<close> signs out, and any other failure keeps the workspace.\<close>

theorem late_answers_change_nothing:
  assumes "hands_over e (session_run before)" "ticket \<le> pg_last_ticket (pv_page (session_run before))"
  shows "identity_of (session_answered ticket outcome (session_run (before @ e # later))) =
      identity_of (session_run (before @ e # later)) \<and>
    identity_of (config_answered ticket config (session_run (before @ e # later))) =
      identity_of (session_run (before @ e # later)) \<and>
    identity_of (handle_unauthorized ticket (session_run (before @ e # later))) = identity_of (session_run (before @ e # later)) \<and>
    (let q = session_run (before @ e # later) in
     \<forall>t. t \<in> set (pv_checks q) \<and> find_boot t q = None \<and> is_current t q \<and> t \<notin> set (pv_aborted q) \<longrightarrow>
       pv_principal (session_answered t outcome q) = answer_says outcome (pv_principal q) \<and>
       principal_of (pv_state (session_answered t outcome q)) = answer_says outcome (pv_principal q))"
proof -
  define q where "q = session_run (before @ e # later)"
  have "q = fold session_step later (session_step e (session_run before))" by (simp add: q_def session_run_def)
  then have stale: "ticket \<le> pv_applied q"
    using hand_over_retires [OF assms(1)] applied_mono_run [of "session_step e (session_run before)" later] assms(2) by simp
  have "pv_principal (session_answered t outcome q) = answer_says outcome (pv_principal q) \<and>
      principal_of (pv_state (session_answered t outcome q)) = answer_says outcome (pv_principal q)"
    if "t \<in> set (pv_checks q)" "find_boot t q = None" "is_current t q" "t \<notin> set (pv_aborted q)" for t
  proof -
    let ?q = "q\<lparr>pv_reads := filter (\<lambda>u. u \<noteq> t) (pv_reads q), pv_checks := filter (\<lambda>u. u \<noteq> t) (pv_checks q)\<rparr>"
    have "pv_principal q = principal_of (pv_state q)" using session_ok_run by (simp add: q_def session_ok_def)
    then have "pv_principal (apply_session_read t outcome None ?q) = answer_says outcome (pv_principal ?q) \<and>
        principal_of (pv_state (apply_session_read t outcome None ?q)) = answer_says outcome (pv_principal ?q)"
      using that by (intro current_read) (simp_all add: is_current_def)
    then show ?thesis using that by (simp add: session_answered_def find_boot_def Let_def)
  qed
  then show ?thesis using stale stale_session_answer stale_config_answer identity_kept_apart
    unfolding q_def [symmetric] Let_def by blast
qed

text \<open>A check sent before a new sign-in comes back \<open>401\<close> after it.\<close>

theorem late_answers_change_nothing_witness:
  "pv_principal (session_answered 1 (Inl \<lparr>rf_status = Some 401, rf_layer = None, rf_retry_after = None\<rparr>)
     (session_run ((Mounted # sample_events) @ Login_answered (Inr (sample_session ''bob'')) # []))) =
   Some (se_principal (sample_session ''bob''))"
proof -
  let ?p = "session_run (Mounted # sample_events)" and ?q = "session_run ((Mounted # sample_events) @ Login_answered (Inr (sample_session ''bob'')) # [])"
  have p: "\<not> pv_disposed ?p" "pg_last_ticket (pv_page ?p) = 1" using sample_signed_in by (simp_all add: Let_def)
  then have "identity_of (session_answered 1 (Inl \<lparr>rf_status = Some 401, rf_layer = None, rf_retry_after = None\<rparr>) ?q) = identity_of ?q"
    using late_answers_change_nothing [of "Login_answered (Inr (sample_session ''bob''))" "Mounted # sample_events" 1] by simp
  moreover have "?q = session_step (Login_answered (Inr (sample_session ''bob''))) ?p" by (simp add: session_run_def)
  then have "pv_principal ?q = Some (se_principal (sample_session ''bob''))"
    using p(1) by (simp add: login_answered_def accept_session_def Let_def)
  ultimately show ?thesis by (simp add: identity_of_def)
qed

end
