(* ===== verification/McpToolPolicy.thy ===== *)
theory McpToolPolicy
  imports Json JsString Prelude
begin

text \<open>
  Per-tool policy in an \<open>mcp_gateway\<close> configuration (\<open>lib/mcpToolPolicy.ts\<close>): what the editor reads from the
  configuration, what it refuses before anything is sent, and the one-entry edit. Objects are field lists in
  enumeration order; an assignment \<open>o[k] = v\<close> is written out with the language's two exceptions, array indices first
  and the inherited setter of \<open>__proto__\<close>. The sentences of the problems are a datatype.
\<close>

section \<open>Reading a configuration\<close>

type_synonym mcp_json = "utf16 json"

type_synonym mcp_fields = "(utf16 \<times> mcp_json) list"

text \<open>\<open>isPlainObject(v) ? v.k : undefined\<close>.\<close>

definition read_field :: "string \<Rightarrow> mcp_json option \<Rightarrow> mcp_json option" where
  "read_field k v = (case v of Some (JObj fs) \<Rightarrow> map_of fs (cps k) | _ \<Rightarrow> None)"

definition tool_actions :: "utf16 list" where
  "tool_actions = [cps ''allow'', cps ''deny'', cps ''hide_from_discovery'']"

record tool_entry =
  te_action :: utf16
  te_allowed :: "utf16 list option"
  te_denied :: "utf16 list option"

definition MAX_TOOL_GRANT_GROUPS :: nat where "MAX_TOOL_GRANT_GROUPS = 512"

definition MAX_TOOL_GRANT_GROUP_BYTES :: nat where "MAX_TOOL_GRANT_GROUP_BYTES = 255"

definition is_schema_whitespace :: "nat \<Rightarrow> bool" where
  "is_schema_whitespace c \<longleftrightarrow>
     9 \<le> c \<and> c \<le> 13 \<or> c = 32 \<or> c = 133 \<or> c = 160 \<or> c = 5760 \<or> 8192 \<le> c \<and> c \<le> 8202 \<or> c = 8232 \<or> c = 8233 \<or>
     c = 8239 \<or> c = 8287 \<or> c = 12288"

definition is_forbidden_control :: "nat \<Rightarrow> bool" where
  "is_forbidden_control c \<longleftrightarrow> c \<le> 8 \<or> c = 11 \<or> c = 12 \<or> 14 \<le> c \<and> c \<le> 31"

definition mcp_gateway_mode :: "mcp_json \<Rightarrow> utf16 option" where
  "mcp_gateway_mode config = (case read_field ''mode'' (Some config) of Some (JStr m) \<Rightarrow> Some m | _ \<Rightarrow> None)"

definition namespace_separator :: "mcp_json \<Rightarrow> utf16" where
  "namespace_separator config =
     (case read_field ''namespace_separator'' (read_field ''discovery'' (Some config)) of
        Some (JStr s) \<Rightarrow> if 0 < length s then s else cps ''.''
      | _ \<Rightarrow> cps ''.'')"

definition server_namespaces :: "mcp_json \<Rightarrow> utf16 list" where
  "server_namespaces config =
     (case read_field ''servers'' (Some config) of
        Some (JObj servers) \<Rightarrow>
          List.map_filter (\<lambda>(_, server). case read_field ''namespace'' (Some server) of Some (JStr n) \<Rightarrow> Some n | _ \<Rightarrow> None) servers
      | _ \<Rightarrow> [])"

definition default_tool_action :: "mcp_json \<Rightarrow> utf16" where
  "default_tool_action config =
     (if read_field ''default_action'' (read_field ''policy'' (Some config)) = Some (JStr (cps ''allow''))
      then cps ''allow'' else cps ''deny'')"

definition hides_unconfigured_tools :: "mcp_json \<Rightarrow> bool" where
  "hides_unconfigured_tools config \<longleftrightarrow>
     read_field ''on_new_tool'' (read_field ''discovery'' (Some config))
       \<in> {None, Some JNull, Some (JStr (cps ''hide_until_configured''))}"

definition configured_tool_policies :: "mcp_json \<Rightarrow> mcp_fields" where
  "configured_tool_policies config =
     (case read_field ''tools'' (read_field ''policy'' (Some config)) of Some (JObj tools) \<Rightarrow> tools | _ \<Rightarrow> [])"

definition raw_tool_policy :: "mcp_json \<Rightarrow> utf16 \<Rightarrow> mcp_json option" where
  "raw_tool_policy config name = map_of (configured_tool_policies config) name"

section \<open>Entries\<close>

definition group_strings :: "mcp_json option \<Rightarrow> utf16 list option" where
  "group_strings v =
     (case v of Some (JArr vs) \<Rightarrow> Some (List.map_filter (\<lambda>i. case i of JStr s \<Rightarrow> Some s | _ \<Rightarrow> None) vs) | _ \<Rightarrow> None)"

definition parse_tool_policy :: "mcp_json option \<Rightarrow> tool_entry option" where
  "parse_tool_policy raw =
     (case read_field ''action'' raw of
        Some (JStr a) \<Rightarrow>
          if a \<in> set tool_actions
          then Some \<lparr>te_action = a, te_allowed = group_strings (read_field ''allowed_groups'' raw),
                     te_denied = group_strings (read_field ''denied_groups'' raw)\<rparr>
          else None
      | _ \<Rightarrow> None)"

definition group_field :: "string \<Rightarrow> utf16 list option \<Rightarrow> mcp_fields" where
  "group_field k groups = (case groups of Some (g # gs) \<Rightarrow> [(cps k, JArr (map JStr (g # gs)))] | _ \<Rightarrow> [])"

definition normalize_tool_policy :: "tool_entry \<Rightarrow> mcp_json" where
  "normalize_tool_policy e =
     JObj ((cps ''action'', JStr (te_action e)) #
       (if te_action e \<noteq> cps ''allow'' then []
        else group_field ''allowed_groups'' (te_allowed e) @ group_field ''denied_groups'' (te_denied e)))"

definition entry_groups :: "utf16 list option \<Rightarrow> utf16 list" where
  "entry_groups groups = (case groups of Some gs \<Rightarrow> gs | None \<Rightarrow> [])"

definition is_group_conditioned :: "tool_entry option \<Rightarrow> bool" where
  "is_group_conditioned entry =
     (case entry of
        None \<Rightarrow> False
      | Some e \<Rightarrow> te_action e = cps ''allow'' \<and> (0 < length (entry_groups (te_allowed e)) \<or> 0 < length (entry_groups (te_denied e))))"

section \<open>What the editor refuses\<close>

datatype group_problem = Empty_group | Blank_group | Control_in_group | Long_group

text \<open>The bytes \<open>TextEncoder\<close> writes for one code point; a lone surrogate is replaced by a three-byte one.\<close>

definition encoded_length :: "nat \<Rightarrow> nat" where
  "encoded_length c = (if c < 128 then 1 else if c < 2048 then 2 else if c < 65536 then 3 else 4)"

definition group_problem :: "utf16 \<Rightarrow> group_problem option" where
  "group_problem g =
     (if length g = 0 then Some Empty_group
      else if list_all is_schema_whitespace (code_points g) then Some Blank_group
      else if list_ex is_forbidden_control (code_points g) then Some Control_in_group
      else if sum_list (map encoded_length (code_points g)) > MAX_TOOL_GRANT_GROUP_BYTES then Some Long_group
      else None)"

datatype group_label = Allowed_groups | Denied_groups

datatype tool_problem =
    Needs_aggregate_router
  | Name_missing
  | Choose_action
  | Groups_need_allow
  | Too_many_groups group_label
  | Bad_group group_label utf16 group_problem
  | Allowed_and_denied "utf16 list"
  | Name_without_server utf16
  | Too_many_distinct nat

definition list_problems :: "group_label \<Rightarrow> utf16 list \<Rightarrow> tool_problem list" where
  "list_problems label groups =
     (if length groups > MAX_TOOL_GRANT_GROUPS then [Too_many_groups label] else []) @
     List.map_filter (\<lambda>g. map_option (Bad_group label g) (group_problem g)) groups"

text \<open>The namespace a public name is under; an empty one counts as none.\<close>

definition owner_of :: "mcp_json \<Rightarrow> utf16 \<Rightarrow> utf16 option" where
  "owner_of config name =
     (let separator = namespace_separator config in
      find (\<lambda>n. take (length (n @ separator)) name = n @ separator \<and> length name > length n + length separator)
        (server_namespaces config))"

definition distinct_groups :: "mcp_fields \<Rightarrow> utf16 list" where
  "distinct_groups tools =
     remdups (concat (map (\<lambda>(_, v).
       case parse_tool_policy (Some v) of Some e \<Rightarrow> entry_groups (te_allowed e) @ entry_groups (te_denied e) | None \<Rightarrow> []) tools))"

definition conditioned_problems :: "mcp_json \<Rightarrow> utf16 \<Rightarrow> tool_entry \<Rightarrow> tool_problem list" where
  "conditioned_problems config name e =
     (if owner_of config name \<in> {None, Some []} then [Name_without_server (namespace_separator config)] else []) @
     (let n = length (distinct_groups (jm_set name (normalize_tool_policy e) (configured_tool_policies config))) in
      if n > MAX_TOOL_GRANT_GROUPS then [Too_many_distinct n] else [])"

definition validate_tool_policy :: "mcp_json \<Rightarrow> utf16 \<Rightarrow> tool_entry option \<Rightarrow> tool_problem list" where
  "validate_tool_policy config name entry =
     (if mcp_gateway_mode config \<noteq> Some (cps ''aggregate_router'') then [Needs_aggregate_router] else []) @
     (if length name = 0 then [Name_missing] else []) @
     (case entry of
        None \<Rightarrow> []
      | Some e \<Rightarrow>
          if te_action e \<notin> set tool_actions then [Choose_action]
          else
            let allowed = entry_groups (te_allowed e); denied = entry_groups (te_denied e);
                both = filter (\<lambda>g. g \<in> set denied) allowed in
            (if te_action e \<noteq> cps ''allow'' \<and> (0 < length allowed \<or> 0 < length denied) then [Groups_need_allow] else []) @
            list_problems Allowed_groups allowed @ list_problems Denied_groups denied @
            (if 0 < length both then [Allowed_and_denied both] else []) @
            (if is_group_conditioned (Some e) then conditioned_problems config name e else []))"

section \<open>The edit\<close>

definition proto_key :: utf16 where
  "proto_key = cps ''__proto__''"

text \<open>Array indices, the keys every object lists first and in order.\<close>

definition key_index :: "utf16 \<Rightarrow> nat option" where
  "key_index k =
     (if k \<noteq> [] \<and> list_all (\<lambda>c. 48 \<le> c \<and> c \<le> 57) k \<and> (length k = 1 \<or> hd k \<noteq> 48)
      then let i = foldl (\<lambda>n c. 10 * n + (c - 48)) 0 k in if i < 4294967295 then Some i else None
      else None)"

definition before_index :: "nat \<Rightarrow> utf16 \<times> mcp_json \<Rightarrow> bool" where
  "before_index i = (\<lambda>(k, _). case key_index k of Some j \<Rightarrow> j < i | None \<Rightarrow> False)"

definition add_key :: "utf16 \<Rightarrow> mcp_json \<Rightarrow> mcp_fields \<Rightarrow> mcp_fields" where
  "add_key k v fs =
     (case key_index k of
        None \<Rightarrow> fs @ [(k, v)]
      | Some i \<Rightarrow> takeWhile (before_index i) fs @ (k, v) # dropWhile (before_index i) fs)"

definition assign :: "utf16 \<Rightarrow> mcp_json \<Rightarrow> mcp_fields \<Rightarrow> mcp_fields" where
  "assign k v fs =
     (if map_of fs k \<noteq> None then jm_set k v fs
      else if k = proto_key then fs
      else add_key k v fs)"

definition remove_key :: "utf16 \<Rightarrow> mcp_fields \<Rightarrow> mcp_fields" where
  "remove_key k fs = filter (\<lambda>(k', _). k' \<noteq> k) fs"

text \<open>The configuration is a JSON object; its deep clone is itself.\<close>

definition with_tool_policy :: "mcp_fields \<Rightarrow> utf16 \<Rightarrow> tool_entry option \<Rightarrow> mcp_fields" where
  "with_tool_policy config name entry =
     (let policy = (case map_of config (cps ''policy'') of Some (JObj ps) \<Rightarrow> Some ps | _ \<Rightarrow> None);
          tools = (case policy of
                     Some ps \<Rightarrow> (case map_of ps (cps ''tools'') of Some (JObj ts) \<Rightarrow> Some ts | _ \<Rightarrow> None)
                   | None \<Rightarrow> None) in
      case entry of
        None \<Rightarrow>
          (case (policy, tools) of
             (Some ps, Some ts) \<Rightarrow>
               assign (cps ''policy'') (JObj (assign (cps ''tools'') (JObj (remove_key name ts)) ps)) config
           | _ \<Rightarrow> config)
      | Some e \<Rightarrow>
          (let written = normalize_tool_policy e in
           case (policy, tools) of
             (Some ps, Some ts) \<Rightarrow>
               assign (cps ''policy'') (JObj (assign (cps ''tools'') (JObj (assign name written ts)) ps)) config
           | (Some ps, None) \<Rightarrow>
               assign (cps ''policy'') (JObj (assign (cps ''tools'') (JObj [(name, written)]) ps)) config
           | (None, _) \<Rightarrow> assign (cps ''policy'') (JObj [(cps ''tools'', JObj [(name, written)])]) config))"

section \<open>What an edit changes\<close>

lemma cps_keys [simp]:
  "cps ''policy'' \<noteq> proto_key" "cps ''tools'' \<noteq> proto_key" "cps ''action'' \<noteq> cps ''allowed_groups''"
  "cps ''action'' \<noteq> cps ''denied_groups''" "cps ''allowed_groups'' \<noteq> cps ''denied_groups''"
  "cps ''mode'' \<noteq> cps ''policy''" "cps ''discovery'' \<noteq> cps ''policy''" "cps ''servers'' \<noteq> cps ''policy''"
  by (simp_all add: proto_key_def)

lemma map_of_add_key: "map_of fs k = None \<Longrightarrow> map_of (add_key k v fs) k' = (if k' = k then Some v else map_of fs k')"
proof -
  assume none: "map_of fs k = None"
  have put: "map_of (takeWhile P fs @ (k, v) # dropWhile P fs) k' = (if k' = k then Some v else map_of fs k')" for P
  proof -
    have parts: "map_of fs k' = (map_of (dropWhile P fs) ++ map_of (takeWhile P fs)) k'"
      by (metis map_of_append takeWhile_dropWhile_id)
    have "map_of (takeWhile P fs) k = None" using none by (auto simp: map_of_eq_None_iff dest: set_takeWhileD)
    then show ?thesis using parts by (simp add: map_add_def split: option.split)
  qed
  show ?thesis
  proof (cases "key_index k")
    case None
    then show ?thesis using none by (simp add: add_key_def map_add_def split: option.split)
  next
    case (Some i)
    then show ?thesis using put [of "before_index i"] by (simp add: add_key_def)
  qed
qed

lemma map_of_assign:
  "map_of (assign k v fs) k' =
     (if k' = k then if k = proto_key \<and> map_of fs k = None then None else Some v else map_of fs k')"
  using map_of_add_key [of fs k v k'] by (auto simp: assign_def jm_set_def update_conv')

lemma map_of_remove_key: "map_of (remove_key k fs) k' = (if k' = k then None else map_of fs k')"
  unfolding remove_key_def by (induction fs) auto

lemma remove_absent: "map_of fs k = None \<Longrightarrow> remove_key k fs = fs"
  by (force simp: remove_key_def filter_id_conv map_of_eq_None_iff)

lemma remove_added_key: "map_of fs k = None \<Longrightarrow> remove_key k (add_key k v fs) = fs"
proof -
  assume none: "map_of fs k = None"
  then have kept: "filter (\<lambda>(k', _). k' \<noteq> k) fs = fs" using remove_absent [OF none] by (simp add: remove_key_def)
  have "filter (\<lambda>(k', _). k' \<noteq> k) (takeWhile P fs @ (k, v) # dropWhile P fs) = fs" for P
  proof -
    have "filter (\<lambda>(k', _). k' \<noteq> k) (takeWhile P fs @ (k, v) # dropWhile P fs) =
        filter (\<lambda>(k', _). k' \<noteq> k) (takeWhile P fs @ dropWhile P fs)" by (simp del: takeWhile_dropWhile_id)
    then show ?thesis using kept by simp
  qed
  then show ?thesis using kept by (auto simp: remove_key_def add_key_def split: option.split)
qed

lemma set_same: "map_of fs k = Some v \<Longrightarrow> jm_set k v fs = fs"
  unfolding jm_set_def by (induction fs) (auto split: if_splits)

lemma set_twice: "jm_set k v (jm_set k w fs) = jm_set k v fs"
  unfolding jm_set_def by (induction fs) auto

lemma set_keys: "map_of fs k \<noteq> None \<Longrightarrow> map fst (jm_set k v fs) = map fst fs"
  unfolding jm_set_def by (induction fs) (auto split: if_splits)

text \<open>Whether the configuration has a \<open>policy.tools\<close> map, and the one name an assignment to it cannot add.\<close>

definition has_tools :: "mcp_fields \<Rightarrow> bool" where
  "has_tools config \<longleftrightarrow> (case read_field ''tools'' (read_field ''policy'' (Some (JObj config))) of Some (JObj _) \<Rightarrow> True | _ \<Rightarrow> False)"

definition edit_lost :: "mcp_fields \<Rightarrow> utf16 \<Rightarrow> bool" where
  "edit_lost config name \<longleftrightarrow> name = proto_key \<and> has_tools config \<and> raw_tool_policy (JObj config) name = None"

lemma edit_cases:
  obtains (tools) ps ts where "map_of config (cps ''policy'') = Some (JObj ps)" "map_of ps (cps ''tools'') = Some (JObj ts)"
      "has_tools config" "configured_tool_policies (JObj config) = ts"
  | (policy) ps where "map_of config (cps ''policy'') = Some (JObj ps)" "\<nexists>ts. map_of ps (cps ''tools'') = Some (JObj ts)"
      "\<not> has_tools config" "configured_tool_policies (JObj config) = []"
  | (neither) "\<nexists>ps. map_of config (cps ''policy'') = Some (JObj ps)" "\<not> has_tools config" "configured_tool_policies (JObj config) = []"
proof (cases "read_field ''policy'' (Some (JObj config))")
  case (Some v)
  then show ?thesis using that
    by (cases v; cases "read_field ''tools'' (Some v)"; cases "the (read_field ''tools'' (Some v))")
      (auto simp: read_field_def has_tools_def configured_tool_policies_def)
qed (use that in \<open>auto simp: read_field_def has_tools_def configured_tool_policies_def\<close>)

lemma with_tools:
  assumes "map_of config (cps ''policy'') = Some (JObj ps)" "map_of ps (cps ''tools'') = Some (JObj ts)"
  shows "with_tool_policy config name entry =
    jm_set (cps ''policy'') (JObj (jm_set (cps ''tools'')
      (JObj (case entry of Some e \<Rightarrow> assign name (normalize_tool_policy e) ts | None \<Rightarrow> remove_key name ts)) ps)) config"
  using assms by (cases entry) (simp_all add: with_tool_policy_def assign_def)

lemma with_policy:
  assumes "map_of config (cps ''policy'') = Some (JObj ps)" "\<nexists>ts. map_of ps (cps ''tools'') = Some (JObj ts)"
  shows "with_tool_policy config name None = config"
    and "with_tool_policy config name (Some e) =
      assign (cps ''policy'') (JObj (assign (cps ''tools'') (JObj [(name, normalize_tool_policy e)]) ps)) config"
  using assms by (auto simp: with_tool_policy_def Let_def split: option.split json.split)

lemma with_neither:
  assumes "\<nexists>ps. map_of config (cps ''policy'') = Some (JObj ps)"
  shows "with_tool_policy config name None = config"
    and "with_tool_policy config name (Some e) =
      assign (cps ''policy'') (JObj [(cps ''tools'', JObj [(name, normalize_tool_policy e)])]) config"
  using assms by (auto simp: with_tool_policy_def Let_def split: option.split json.split)

text \<open>The tools map of the edited configuration.\<close>

lemma edited_tools:
  "configured_tool_policies (JObj (with_tool_policy config name entry)) =
     (case entry of
        None \<Rightarrow> remove_key name (configured_tool_policies (JObj config))
      | Some e \<Rightarrow> if has_tools config then assign name (normalize_tool_policy e) (configured_tool_policies (JObj config))
                  else [(name, normalize_tool_policy e)])"
proof (cases config rule: edit_cases)
  case (tools ps ts)
  then show ?thesis
    by (simp add: with_tools configured_tool_policies_def read_field_def jm_set_def update_conv' split: option.split)
next
  case (policy ps)
  then show ?thesis
    by (cases entry) (simp_all add: with_policy configured_tool_policies_def read_field_def map_of_assign remove_key_def
        split: option.split)
next
  case neither
  then show ?thesis
    by (cases entry) (simp_all add: with_neither configured_tool_policies_def read_field_def map_of_assign remove_key_def
        split: option.split)
qed

lemma edited_field: "k \<noteq> cps ''policy'' \<Longrightarrow> map_of (with_tool_policy config name entry) k = map_of config k"
proof (cases config rule: edit_cases)
  case (tools ps ts)
  moreover assume "k \<noteq> cps ''policy''"
  ultimately show ?thesis by (simp add: with_tools jm_set_def update_conv')
next
  case (policy ps)
  moreover assume "k \<noteq> cps ''policy''"
  ultimately show ?thesis by (cases entry) (simp_all add: with_policy map_of_assign)
next
  case neither
  moreover assume "k \<noteq> cps ''policy''"
  ultimately show ?thesis by (cases entry) (simp_all add: with_neither map_of_assign)
qed

lemma edited_entry:
  "raw_tool_policy (JObj (with_tool_policy config name (Some e))) m =
     (if m = name \<and> \<not> edit_lost config name then Some (normalize_tool_policy e) else raw_tool_policy (JObj config) m)"
proof (cases "has_tools config")
  case True
  then show ?thesis by (auto simp: raw_tool_policy_def edited_tools map_of_assign edit_lost_def)
next
  case False
  then have "configured_tool_policies (JObj config) = []" by (cases config rule: edit_cases) auto
  then show ?thesis using False by (simp add: raw_tool_policy_def edited_tools edit_lost_def)
qed

lemma removed_entry:
  "raw_tool_policy (JObj (with_tool_policy config name None)) m = (if m = name then None else raw_tool_policy (JObj config) m)"
  by (simp add: raw_tool_policy_def edited_tools map_of_remove_key)

lemma edited_policy:
  assumes "map_of config (cps ''policy'') = Some (JObj ps)" "k \<noteq> cps ''tools''"
  shows "\<exists>ps'. map_of (with_tool_policy config name entry) (cps ''policy'') = Some (JObj ps') \<and> map_of ps' k = map_of ps k"
proof (cases config rule: edit_cases)
  case (tools ps' ts)
  then show ?thesis using assms by (simp add: with_tools jm_set_def update_conv')
next
  case (policy ps')
  then show ?thesis using assms by (cases entry) (simp_all add: with_policy map_of_assign)
qed (use assms in blast)

lemma edit_undone:
  assumes "has_tools config" "raw_tool_policy (JObj config) name = None"
  shows "with_tool_policy (with_tool_policy config name (Some e)) name None = config"
proof (cases config rule: edit_cases)
  case (tools ps ts)
  let ?ps = "jm_set (cps ''tools'') (JObj (assign name (normalize_tool_policy e) ts)) ps"
  let ?config = "jm_set (cps ''policy'') (JObj ?ps) config"
  have absent: "map_of ts name = None" using assms(2) tools by (simp add: raw_tool_policy_def)
  then have undone: "remove_key name (assign name (normalize_tool_policy e) ts) = ts"
    using remove_added_key [OF absent] remove_absent [OF absent] absent by (auto simp: assign_def)
  have "map_of ?config (cps ''policy'') = Some (JObj ?ps)"
    "map_of ?ps (cps ''tools'') = Some (JObj (assign name (normalize_tool_policy e) ts))"
    by (simp_all add: jm_set_def update_conv')
  then have "with_tool_policy ?config name None =
      jm_set (cps ''policy'') (JObj (jm_set (cps ''tools'') (JObj ts) ?ps)) ?config"
    using undone by (simp add: with_tools)
  also have "\<dots> = config" using tools by (simp add: set_twice set_same)
  finally show ?thesis using tools by (simp add: with_tools)
qed (use assms in simp_all)

lemma edit_lost_unchanged: "edit_lost config name \<Longrightarrow> with_tool_policy config name (Some e) = config"
proof (cases config rule: edit_cases)
  case (tools ps ts)
  moreover assume lost: "edit_lost config name"
  then have "map_of ts name = None" "name = proto_key" using tools by (auto simp: edit_lost_def raw_tool_policy_def)
  then have "assign name (normalize_tool_policy e) ts = ts" by (simp add: assign_def)
  ultimately show ?thesis by (simp add: with_tools set_same)
qed (simp_all add: edit_lost_def)

lemma group_strings_read [simp]: "group_strings (Some (JArr (map JStr gs))) = Some gs"
  by (simp add: group_strings_def List.map_filter_def comp_def)

lemma group_field_read:
  "map_of (group_field k groups) k' = (if k' = cps k \<and> entry_groups groups \<noteq> [] then Some (JArr (map JStr (entry_groups groups))) else None)"
  by (cases groups; cases "entry_groups groups") (auto simp: group_field_def entry_groups_def split: list.split)

lemma normalized_reads:
  assumes "te_action e \<in> set tool_actions"
  shows "parse_tool_policy (Some (normalize_tool_policy e)) =
    Some \<lparr>te_action = te_action e,
      te_allowed = (if te_action e = cps ''allow'' \<and> entry_groups (te_allowed e) \<noteq> [] then Some (entry_groups (te_allowed e)) else None),
      te_denied = (if te_action e = cps ''allow'' \<and> entry_groups (te_denied e) \<noteq> [] then Some (entry_groups (te_denied e)) else None)\<rparr>"
  using assms
  by (simp add: parse_tool_policy_def normalize_tool_policy_def read_field_def group_field_read map_add_def group_strings_def
      List.map_filter_def comp_def split: option.split)

lemma assign_twice:
  assumes "key_index k = None" "k \<noteq> proto_key"
  shows "assign k v (assign k w fs) = assign k v fs"
proof (cases "map_of fs k")
  case None
  then have absent: "jm_set k v (fs @ [(k, w)]) = fs @ [(k, v)]"
    unfolding jm_set_def by (induction fs) (auto split: if_splits)
  have "assign k w fs = fs @ [(k, w)]" "assign k v fs = fs @ [(k, v)]" using None assms by (simp_all add: assign_def add_key_def)
  moreover have "map_of (fs @ [(k, w)]) k \<noteq> None" by (simp add: map_add_def split: option.split)
  ultimately show ?thesis using absent by (simp add: assign_def)
next
  case (Some x)
  then have "assign k w fs = jm_set k w fs" "assign k v fs = jm_set k v fs" by (simp_all add: assign_def)
  moreover have "map_of (jm_set k w fs) k \<noteq> None" by (simp add: jm_set_def update_conv')
  ultimately show ?thesis by (simp add: assign_def set_twice)
qed

lemma own_keys:
  "key_index (cps ''policy'') = None" "cps ''policy'' \<noteq> proto_key" "key_index (cps ''tools'') = None" "cps ''tools'' \<noteq> proto_key"
  by (simp_all add: key_index_def proto_key_def cps_def)

text \<open>Without a \<open>policy.tools\<close> map, adding an entry and removing it leaves an empty one behind.\<close>

lemma edit_undone_but_map:
  assumes "\<not> has_tools config"
  shows "with_tool_policy (with_tool_policy config name (Some e)) name None =
    assign (cps ''policy'') (JObj (assign (cps ''tools'') (JObj [])
      (case map_of config (cps ''policy'') of Some (JObj ps) \<Rightarrow> ps | _ \<Rightarrow> []))) config"
proof -
  let ?n = "normalize_tool_policy e"
  obtain ps where ps: "ps = (case map_of config (cps ''policy'') of Some (JObj ps) \<Rightarrow> ps | _ \<Rightarrow> [])" by blast
  let ?ps = "assign (cps ''tools'') (JObj [(name, ?n)]) ps"
  have one: "assign (cps ''tools'') v [] = [(cps ''tools'', v)]" for v using own_keys by (simp add: assign_def add_key_def)
  have added: "with_tool_policy config name (Some e) = assign (cps ''policy'') (JObj ?ps) config"
  proof (cases config rule: edit_cases)
    case (policy ps')
    then show ?thesis by (simp add: with_policy ps)
  next
    case neither
    then have "ps = []" unfolding ps by (simp split: option.split json.split)
    then show ?thesis using neither by (simp add: with_neither one)
  qed (use assms in simp)
  let ?config = "assign (cps ''policy'') (JObj ?ps) config"
  have has: "map_of ?config (cps ''policy'') = Some (JObj ?ps)" "map_of ?ps (cps ''tools'') = Some (JObj [(name, ?n)])"
    using own_keys by (simp_all add: map_of_assign)
  have "with_tool_policy ?config name None =
      assign (cps ''policy'') (JObj (assign (cps ''tools'') (JObj []) ?ps)) ?config"
    using with_tools [OF has, of name None] has by (simp add: assign_def remove_key_def)
  then show ?thesis unfolding added ps [symmetric] by (simp add: assign_twice own_keys)
qed

text \<open>C39: An edit of one tool's policy is exactly that. On any configuration, with any value anywhere in it: after the
  edit the tool's stored entry is the normalised one (or none, when it is removed), every other tool's entry, every
  other field of the policy and every other field of the configuration is the one it had, and an entry that existed
  keeps its place. The entry reads back with its action and, where they count, its groups. Adding an entry the map does
  not have and removing it again gives back the configuration if it has a \<open>policy.tools\<close> map; if it has none, an
  empty map stays behind, in a policy that is made when there is none, and nothing else is different. The one exception
  is the name \<open>__proto__\<close>, not yet an entry of an existing map: the edit changes nothing, although the editor accepts it.\<close>

theorem tool_edits_touch_one_entry:
  "let edited = JObj (with_tool_policy config name (Some e)); removed = JObj (with_tool_policy config name None) in
     (\<forall>m. raw_tool_policy edited m =
        (if m = name \<and> \<not> edit_lost config name then Some (normalize_tool_policy e) else raw_tool_policy (JObj config) m)) \<and>
     (\<forall>m. raw_tool_policy removed m = (if m = name then None else raw_tool_policy (JObj config) m)) \<and>
     (\<forall>entry k. k \<noteq> cps ''policy'' \<longrightarrow> map_of (with_tool_policy config name entry) k = map_of config k) \<and>
     (\<forall>entry ps k. map_of config (cps ''policy'') = Some (JObj ps) \<and> k \<noteq> cps ''tools'' \<longrightarrow>
        (\<exists>ps'. map_of (with_tool_policy config name entry) (cps ''policy'') = Some (JObj ps') \<and> map_of ps' k = map_of ps k)) \<and>
     (raw_tool_policy (JObj config) name \<noteq> None \<longrightarrow>
        map fst (configured_tool_policies edited) = map fst (configured_tool_policies (JObj config))) \<and>
     (has_tools config \<and> raw_tool_policy (JObj config) name = None \<longrightarrow>
        with_tool_policy (with_tool_policy config name (Some e)) name None = config) \<and>
     (\<not> has_tools config \<longrightarrow>
        with_tool_policy (with_tool_policy config name (Some e)) name None =
          assign (cps ''policy'') (JObj (assign (cps ''tools'') (JObj [])
            (case map_of config (cps ''policy'') of Some (JObj ps) \<Rightarrow> ps | _ \<Rightarrow> []))) config) \<and>
     (edit_lost config name \<longrightarrow> with_tool_policy config name (Some e) = config) \<and>
     (te_action e \<in> set tool_actions \<longrightarrow>
        (\<exists>r. parse_tool_policy (Some (normalize_tool_policy e)) = Some r \<and> te_action r = te_action e \<and>
           (te_action e = cps ''allow'' \<longrightarrow>
              entry_groups (te_allowed r) = entry_groups (te_allowed e) \<and> entry_groups (te_denied r) = entry_groups (te_denied e)) \<and>
           (te_action e \<noteq> cps ''allow'' \<longrightarrow> entry_groups (te_allowed r) = [] \<and> entry_groups (te_denied r) = [])))"
proof -
  have position: "map fst (configured_tool_policies (JObj (with_tool_policy config name (Some e)))) = map fst (configured_tool_policies (JObj config))"
    if "raw_tool_policy (JObj config) name \<noteq> None"
    using that by (cases config rule: edit_cases) (auto simp: edited_tools raw_tool_policy_def assign_def set_keys)
  have reads: "\<exists>r. parse_tool_policy (Some (normalize_tool_policy e)) = Some r \<and> te_action r = te_action e \<and>
      (te_action e = cps ''allow'' \<longrightarrow>
         entry_groups (te_allowed r) = entry_groups (te_allowed e) \<and> entry_groups (te_denied r) = entry_groups (te_denied e)) \<and>
      (te_action e \<noteq> cps ''allow'' \<longrightarrow> entry_groups (te_allowed r) = [] \<and> entry_groups (te_denied r) = [])"
    if "te_action e \<in> set tool_actions"
    using normalized_reads [OF that] by (auto simp: entry_groups_def split: option.splits)
  show ?thesis
    unfolding Let_def
    by (intro conjI allI impI; (elim conjE)?;
        (rule edited_entry | rule removed_entry | rule edited_field | rule edited_policy | rule position | rule edit_undone
          | rule edit_undone_but_map          | rule edit_lost_unchanged | rule reads); assumption?)
qed

definition sample_mcp :: mcp_fields where
  "sample_mcp =
     [(cps ''mode'', JStr (cps ''aggregate_router'')),
      (cps ''servers'', JObj [(cps ''s1'', JObj [(cps ''namespace'', JStr (cps ''files''))])]),
      (cps ''policy'', JObj [(cps ''tools'', JObj [(cps ''files.read'', JObj [(cps ''action'', JStr (cps ''allow''))])])])]"

definition sample_grant :: tool_entry where
  "sample_grant = \<lparr>te_action = cps ''allow'', te_allowed = Some [cps ''ops''], te_denied = None\<rparr>"

lemma sample_mcp_tools:
  "has_tools sample_mcp" "configured_tool_policies (JObj sample_mcp) = [(cps ''files.read'', JObj [(cps ''action'', JStr (cps ''allow''))])]"
  by (simp_all add: has_tools_def configured_tool_policies_def read_field_def sample_mcp_def)

lemma sample_edit_kept: "\<not> edit_lost sample_mcp (cps ''files.write'')" "edit_lost sample_mcp proto_key"
  by (simp_all add: edit_lost_def raw_tool_policy_def sample_mcp_tools proto_key_def)

theorem tool_edits_touch_one_entry_witness:
  "raw_tool_policy (JObj (with_tool_policy sample_mcp (cps ''files.write'') (Some sample_grant))) (cps ''files.write'') =
     Some (normalize_tool_policy sample_grant) \<and>
   with_tool_policy (with_tool_policy sample_mcp (cps ''files.write'') (Some sample_grant)) (cps ''files.write'') None = sample_mcp \<and>
   with_tool_policy sample_mcp proto_key (Some sample_grant) = sample_mcp \<and>
   with_tool_policy (with_tool_policy [] (cps ''files.write'') (Some sample_grant)) (cps ''files.write'') None =
     [(cps ''policy'', JObj [(cps ''tools'', JObj [])])]"
proof -
  have empty: "\<not> has_tools []" "assign (cps ''policy'') (JObj (assign (cps ''tools'') (JObj []) [])) [] = [(cps ''policy'', JObj [(cps ''tools'', JObj [])])]"
    using own_keys by (simp_all add: has_tools_def read_field_def assign_def add_key_def)
  have bare: "with_tool_policy (with_tool_policy [] (cps ''files.write'') (Some sample_grant)) (cps ''files.write'') None =
     [(cps ''policy'', JObj [(cps ''tools'', JObj [])])]"
    using tool_edits_touch_one_entry [of "[]" "cps ''files.write''" sample_grant] empty unfolding Let_def by simp
  have "raw_tool_policy (JObj sample_mcp) (cps ''files.write'') = None"
    by (simp add: raw_tool_policy_def sample_mcp_tools)
  then show ?thesis
    using tool_edits_touch_one_entry [of sample_mcp "cps ''files.write''" sample_grant]
      tool_edits_touch_one_entry [of sample_mcp proto_key sample_grant] sample_mcp_tools(1) sample_edit_kept bare
    unfolding Let_def by metis
qed

text \<open>The editor accepts the one edit that is lost.\<close>

lemma proto_edit_accepted_and_lost:
  "validate_tool_policy (JObj sample_mcp) proto_key (Some \<lparr>te_action = cps ''deny'', te_allowed = None, te_denied = None\<rparr>) = [] \<and>
   with_tool_policy sample_mcp proto_key (Some \<lparr>te_action = cps ''deny'', te_allowed = None, te_denied = None\<rparr>) = sample_mcp"
  using edit_lost_unchanged [OF sample_edit_kept(2)]
  by (simp add: validate_tool_policy_def mcp_gateway_mode_def read_field_def sample_mcp_def tool_actions_def entry_groups_def
      list_problems_def is_group_conditioned_def proto_key_def List.map_filter_def)

end
