(* ===== verification/JsObject.thy ===== *)
theory JsObject
  imports Json Prelude
begin

text \<open>
  Objects as field lists: what an assignment to a present key, a repeated one and a deletion leave of the list, order
  included, and a mutation in place at a path through objects and arrays.
\<close>

section \<open>Fields\<close>

lemma jm_set_same: "map_of fs k = Some v \<Longrightarrow> jm_set k v fs = fs"
  unfolding jm_set_def by (induction fs) (auto split: if_splits)

lemma jm_set_twice: "jm_set k v (jm_set k w fs) = jm_set k v fs"
  unfolding jm_set_def by (induction fs) auto

lemma jm_set_fst: "map_of fs k \<noteq> None \<Longrightarrow> map fst (jm_set k v fs) = map fst fs"
  unfolding jm_set_def by (induction fs) (auto split: if_splits)

lemma map_of_jm_set [simp]: "map_of (jm_set k v fs) k' = (if k' = k then Some v else map_of fs k')"
  by (simp add: jm_set_def update_conv')

lemma map_of_jm_delete [simp]: "map_of (jm_delete k fs) k' = (if k' = k then None else map_of fs k')"
  by (simp add: jm_delete_def delete_conv')

lemma jm_delete_set: "jm_delete k (jm_set k v fs) = jm_delete k fs"
  unfolding jm_delete_def jm_set_def by (induction fs) auto

lemma jm_delete_twice: "jm_delete k (jm_delete k fs) = jm_delete k fs"
  unfolding jm_delete_def by (induction fs) auto

lemma jm_delete_absent_key: "map_of fs k = None \<Longrightarrow> jm_delete k fs = fs"
  unfolding jm_delete_def by (induction fs) (auto split: if_splits)

lemma jm_delete_commute: "jm_delete k (jm_delete l fs) = jm_delete l (jm_delete k fs)"
  unfolding jm_delete_def by (induction fs) auto

lemma jm_delete_set_commute: "k \<noteq> l \<Longrightarrow> jm_delete k (jm_set l v fs) = jm_set l v (jm_delete k fs)"
  unfolding jm_delete_def jm_set_def by (induction fs) auto

lemma jm_set_present_commute:
  "k \<noteq> l \<Longrightarrow> map_of fs k \<noteq> None \<Longrightarrow> jm_set k v (jm_set l w fs) = jm_set l w (jm_set k v fs)"
  unfolding jm_set_def by (induction fs) (auto split: if_splits)

text \<open>Assign, or delete for \<open>None\<close>.\<close>

definition put_key :: "'s \<Rightarrow> 's json option \<Rightarrow> ('s \<times> 's json) list \<Rightarrow> ('s \<times> 's json) list" where
  "put_key k v fs = (case v of None \<Rightarrow> jm_delete k fs | Some x \<Rightarrow> jm_set k x fs)"

lemma map_of_put_key [simp]: "map_of (put_key k v fs) k' = (if k' = k then v else map_of fs k')"
  by (simp add: put_key_def split: option.split)

lemma put_key_same: "map_of fs k = v \<Longrightarrow> put_key k v fs = fs"
  by (cases v) (simp_all add: put_key_def jm_delete_absent_key jm_set_same)

lemma delete_put_same: "put_key k None (put_key k v fs) = put_key k None fs"
  by (cases v) (simp_all add: put_key_def jm_delete_twice jm_delete_set)

lemma delete_put_commute: "k \<noteq> l \<Longrightarrow> put_key k None (put_key l v fs) = put_key l v (put_key k None fs)"
  by (cases v) (simp_all add: put_key_def jm_delete_commute jm_delete_set_commute)

lemma set_put_commute:
  "k \<noteq> l \<Longrightarrow> map_of fs k \<noteq> None \<Longrightarrow> jm_set k w (put_key l v fs) = put_key l v (jm_set k w fs)"
  using jm_set_present_commute [of k l fs w] by (cases v) (simp_all add: put_key_def jm_delete_set_commute)

section \<open>Paths\<close>

text \<open>A segment indexes an array when it is a number; the index of each segment is a parameter.\<close>

fun resolve :: "('s \<Rightarrow> nat option) \<Rightarrow> 's list \<Rightarrow> 's json \<Rightarrow> ('s \<times> 's json) list option" where
  "resolve ix [] v = (case v of JObj fs \<Rightarrow> Some fs | _ \<Rightarrow> None)"
| "resolve ix (s # ss) v =
     (case v of
        JArr vs \<Rightarrow> (case ix s of Some i \<Rightarrow> if i < length vs then resolve ix ss (vs ! i) else None | None \<Rightarrow> None)
      | JObj fs \<Rightarrow> (case map_of fs s of Some w \<Rightarrow> resolve ix ss w | None \<Rightarrow> None)
      | _ \<Rightarrow> None)"

fun update_at :: "('s \<Rightarrow> nat option) \<Rightarrow> 's list \<Rightarrow> (('s \<times> 's json) list \<Rightarrow> ('s \<times> 's json) list) \<Rightarrow> 's json \<Rightarrow> 's json" where
  "update_at ix [] f v = (case v of JObj fs \<Rightarrow> JObj (f fs) | _ \<Rightarrow> v)"
| "update_at ix (s # ss) f v =
     (case v of
        JArr vs \<Rightarrow>
          (case ix s of Some i \<Rightarrow> if i < length vs then JArr (vs[i := update_at ix ss f (vs ! i)]) else v | None \<Rightarrow> v)
      | JObj fs \<Rightarrow> (case map_of fs s of Some w \<Rightarrow> JObj (jm_set s (update_at ix ss f w) fs) | None \<Rightarrow> v)
      | _ \<Rightarrow> v)"

definition put_at :: "('s \<Rightarrow> nat option) \<Rightarrow> 's list \<Rightarrow> 's \<Rightarrow> 's json option \<Rightarrow> 's json \<Rightarrow> 's json" where
  "put_at ix p k v = update_at ix p (put_key k v)"

definition field_at :: "('s \<Rightarrow> nat option) \<Rightarrow> 's list \<Rightarrow> 's \<Rightarrow> 's json \<Rightarrow> 's json option" where
  "field_at ix p k c = (case resolve ix p c of Some fs \<Rightarrow> map_of fs k | None \<Rightarrow> None)"

lemma resolve_update:
  "resolve ix p (update_at ix p f c) = map_option f (resolve ix p c)"
  by (induction ix p f c rule: update_at.induct) (auto split: json.split option.split)

lemma update_unresolved: "resolve ix p c = None \<Longrightarrow> update_at ix p f c = c"
proof (induction ix p f c rule: update_at.induct)
  case (2 ix s ss f v)
  show ?case
  proof (cases v)
    case (JArr vs)
    then show ?thesis using 2 by (cases "ix s") (auto split: if_splits)
  next
    case (JObj fs)
    then show ?thesis using 2 by (cases "map_of fs s") (auto simp: jm_set_same)
  qed simp_all
qed (auto split: json.split)

lemma update_same: "resolve ix p c = Some fs \<Longrightarrow> f fs = fs \<Longrightarrow> update_at ix p f c = c"
proof (induction ix p f c rule: update_at.induct)
  case (2 ix s ss f v)
  show ?case
  proof (cases v)
    case (JArr vs)
    then show ?thesis using 2 by (cases "ix s") (auto split: if_splits)
  next
    case (JObj gs)
    then show ?thesis using 2 by (cases "map_of gs s") (auto simp: jm_set_same)
  qed (use 2 in auto)
qed (auto split: json.splits)

lemma put_at_same: "field_at ix p k c = v \<Longrightarrow> put_at ix p k v c = c"
  by (cases "resolve ix p c") (simp_all add: field_at_def put_at_def update_unresolved update_same put_key_same)

lemma field_put_at: "field_at ix p k (put_at ix p k v c) = (if resolve ix p c = None then None else v)"
  by (cases "resolve ix p c") (simp_all add: field_at_def put_at_def resolve_update)

text \<open>Two fields are apart when neither is, or lies above, the other's container. Indices are written one way.\<close>

fun extends :: "'s list \<Rightarrow> 's \<Rightarrow> 's list \<Rightarrow> bool" where
  "extends [] k [] = False"
| "extends [] k (s # _) = (s = k)"
| "extends (p # ps) k [] = False"
| "extends (p # ps) k (s # ss) = (p = s \<and> extends ps k ss)"

definition apart :: "'s list \<times> 's \<Rightarrow> 's list \<times> 's \<Rightarrow> bool" where
  "apart x y \<longleftrightarrow> x \<noteq> y \<and> \<not> extends (fst x) (snd x) (fst y) \<and> \<not> extends (fst y) (snd y) (fst x)"

definition plain_indices :: "('s \<Rightarrow> nat option) \<Rightarrow> 's set \<Rightarrow> bool" where
  "plain_indices ix segs \<longleftrightarrow> inj_on ix {s \<in> segs. ix s \<noteq> None}"

lemma plain_indicesD: "plain_indices ix segs \<Longrightarrow> s \<in> segs \<Longrightarrow> t \<in> segs \<Longrightarrow> ix s = Some i \<Longrightarrow> ix t = Some i \<Longrightarrow> s = t"
  by (auto simp: plain_indices_def inj_on_def)

lemma plain_indices_subset: "plain_indices ix segs \<Longrightarrow> segs' \<subseteq> segs \<Longrightarrow> plain_indices ix segs'"
  unfolding plain_indices_def by (rule inj_on_subset) auto

lemma resolve_put_apart:
  assumes "plain_indices ix (set p \<union> set q)" "\<not> extends q l p"
  shows "(resolve ix p (put_at ix q l v c) = None) = (resolve ix p c = None)"
  using assms unfolding put_at_def
proof (induction p arbitrary: q c)
  case Nil
  then show ?case by (cases q; cases c) (auto split: option.split)
next
  case (Cons s ss)
  show ?case
  proof (cases q)
    case Nil
    then show ?thesis using Cons.prems by (cases c) auto
  next
    case (Cons t ts)
    have sub: "plain_indices ix (set ss \<union> set ts)" by (rule plain_indices_subset [OF Cons.prems(1)]) (auto simp: Cons)
    have IH: "s = t \<Longrightarrow> (resolve ix ss (update_at ix ts (put_key l v) d) = None) = (resolve ix ss d = None)" for d
      using Cons.IH [OF sub] Cons.prems(2) Cons by simp
    have same: "ix s = Some i \<Longrightarrow> ix t = Some i \<Longrightarrow> s = t" for i
      using plain_indicesD [OF Cons.prems(1), of s t i] Cons by simp
    show ?thesis
    proof (cases c)
      case (JArr vs)
      show ?thesis
      proof (cases "s = t")
        case True
        then show ?thesis using IH [OF True] by (cases "ix t") (simp_all add: Cons JArr)
      next
        case False
        then have "ix s = None \<or> ix s \<noteq> ix t" using same by (cases "ix s") auto
        then show ?thesis by (cases "ix s"; cases "ix t") (auto simp: Cons JArr nth_list_update)
      qed
    next
      case (JObj fs)
      show ?thesis
      proof (cases "s = t")
        case True
        then show ?thesis using IH [OF True] by (cases "map_of fs t") (simp_all add: Cons JObj)
      next
        case False
        then show ?thesis by (cases "map_of fs t"; cases "map_of fs s") (simp_all add: Cons JObj)
      qed
    qed (simp_all add: Cons)
  qed
qed

lemma field_put_apart:
  assumes "plain_indices ix (set p \<union> set q)" "apart (p, k) (q, l)"
  shows "field_at ix p k (put_at ix q l v c) = field_at ix p k c"
  using assms unfolding put_at_def field_at_def apart_def fst_conv snd_conv
proof (induction p arbitrary: q c)
  case Nil
  show ?case
  proof (cases q)
    case Nil
    then show ?thesis using Nil.prems by (cases c) auto
  next
    case (Cons t ts)
    then show ?thesis using Nil.prems by (cases c) (auto split: option.split)
  qed
next
  case (Cons s ss)
  show ?case
  proof (cases q)
    case Nil
    then show ?thesis using Cons.prems by (cases c) auto
  next
    case (Cons t ts)
    have sub: "plain_indices ix (set ss \<union> set ts)" by (rule plain_indices_subset [OF Cons.prems(1)]) (auto simp: Cons)
    have IH: "s = t \<Longrightarrow> (case resolve ix ss (update_at ix ts (put_key l v) d) of None \<Rightarrow> None | Some fs \<Rightarrow> map_of fs k) =
        (case resolve ix ss d of None \<Rightarrow> None | Some fs \<Rightarrow> map_of fs k)" for d
      using Cons.IH [OF sub] Cons.prems(2) Cons by simp
    have same: "ix s = Some i \<Longrightarrow> ix t = Some i \<Longrightarrow> s = t" for i
      using plain_indicesD [OF Cons.prems(1), of s t i] Cons by simp
    show ?thesis
    proof (cases c)
      case (JArr vs)
      show ?thesis
      proof (cases "s = t")
        case True
        then show ?thesis using IH [OF True] by (cases "ix t") (simp_all add: Cons JArr)
      next
        case False
        then have "ix s = None \<or> ix s \<noteq> ix t" using same by (cases "ix s") auto
        then show ?thesis by (cases "ix s"; cases "ix t") (auto simp: Cons JArr nth_list_update)
      qed
    next
      case (JObj fs)
      show ?thesis
      proof (cases "s = t")
        case True
        then show ?thesis using IH [OF True] by (cases "map_of fs t") (simp_all add: Cons JObj)
      next
        case False
        then show ?thesis by (cases "map_of fs t"; cases "map_of fs s") (simp_all add: Cons JObj)
      qed
    qed (simp_all add: Cons)
  qed
qed

lemma delete_put_at_same: "put_at ix p k None (put_at ix p k v c) = put_at ix p k None c"
  unfolding put_at_def
proof (induction p arbitrary: c)
  case Nil
  then show ?case by (cases c) (simp_all add: delete_put_same)
next
  case (Cons s ss)
  then show ?case by (cases c) (auto simp: jm_set_twice split: option.split)
qed

lemma delete_put_at_commute:
  assumes "plain_indices ix (set p \<union> set q)" "apart (p, k) (q, l)"
  shows "put_at ix p k None (put_at ix q l v c) = put_at ix q l v (put_at ix p k None c)"
  using assms unfolding put_at_def apart_def fst_conv snd_conv
proof (induction p arbitrary: q c)
  case Nil
  show ?case
  proof (cases q)
    case Nil
    then show ?thesis using Nil.prems by (cases c) (simp_all add: delete_put_commute)
  next
    case (Cons t ts)
    then show ?thesis using Nil.prems
      by (cases c) (auto simp: put_key_def jm_delete_set_commute split: option.split)
  qed
next
  case (Cons s ss)
  show ?case
  proof (cases q)
    case Nil
    then show ?thesis using Cons.prems by (cases c) (auto simp: set_put_commute split: option.split)
  next
    case (Cons t ts)
    have sub: "plain_indices ix (set ss \<union> set ts)" by (rule plain_indices_subset [OF Cons.prems(1)]) (auto simp: Cons)
    have IH: "s = t \<Longrightarrow> update_at ix ss (put_key k None) (update_at ix ts (put_key l v) d) =
        update_at ix ts (put_key l v) (update_at ix ss (put_key k None) d)" for d
      using Cons.IH [OF sub] Cons.prems(2) Cons by simp
    have same: "ix s = Some i \<Longrightarrow> ix t = Some i \<Longrightarrow> s = t" for i
      using plain_indicesD [OF Cons.prems(1), of s t i] Cons by simp
    show ?thesis
    proof (cases c)
      case (JArr vs)
      show ?thesis
      proof (cases "s = t")
        case True
        then show ?thesis using IH [OF True] by (cases "ix t") (simp_all add: Cons JArr)
      next
        case False
        then have "ix s = None \<or> ix s \<noteq> ix t" using same by (cases "ix s") auto
        then show ?thesis by (cases "ix s"; cases "ix t") (auto simp: Cons JArr nth_list_update list_update_swap)
      qed
    next
      case (JObj fs)
      show ?thesis
      proof (cases "s = t")
        case True
        then show ?thesis using IH Cons JObj by (auto simp: jm_set_twice split: option.split)
      next
        case False
        then show ?thesis using Cons JObj jm_set_present_commute [of s t fs]
          by (cases "map_of fs t"; cases "map_of fs s") auto
      qed
    qed (simp_all add: Cons)
  qed
qed

end
