(* ===== verification/GuidedConfig.thy ===== *)
theory GuidedConfig
  imports JsObject JsString
begin

text \<open>
  Guided editing of a plugin configuration (\<open>lib/pluginGuidedConfig.ts\<close>) over the descriptors of the four plugins
  it covers (\<open>lib/pluginSchemas.ts\<close>): reading a configuration into fields, writing the edits back into a copy of it,
  and the checks before a save. \<open>JSON.stringify\<close> and \<open>Number\<close> of a written integer are parameters; the texts
  shown (labels, descriptions, messages) are left out, a message being the rule that was broken. A plugin's schema is
  looked up by its own name; the names every object inherits are not plugin names.
\<close>

section \<open>Descriptors\<close>

type_synonym cjson = "string json"

type_synonym cfields = "(string \<times> cjson) list"

datatype field_kind = Text | Integer | Boolean | Enum | String_list

record guided_field =
  gf_key :: string
  gf_kind :: field_kind
  gf_required :: bool
  gf_enum :: "string list"
  gf_minimum :: "int option"
  gf_maximum :: "int option"
  gf_min_items :: "nat option"
  gf_max_items :: "nat option"
  gf_pattern :: "(string \<Rightarrow> bool) option"
  gf_item_pattern :: "(string \<Rightarrow> bool) option"
  gf_secret :: bool

record guided_section =
  gs_path :: string
  gs_fields :: "guided_field list"

datatype issue =
    Required_missing
  | Too_few_items nat
  | Too_many_items nat
  | Bad_item string
  | Set_but_empty
  | Not_whole
  | Below int
  | Above int
  | Not_offered
  | Pattern_mismatch
  | Preset_and_window
  | No_rate
  | Window_half_set
  | Redis_without_url
  | Credentials_with_wildcard

record guided_schema =
  sc_plugin :: string
  sc_unsupported :: "cfields \<Rightarrow> bool"
  sc_cross :: "cfields \<Rightarrow> (string \<times> issue) list"
  sc_sections :: "guided_section list"

record field_state =
  fs_present :: bool
  fs_text :: string
  fs_null :: bool
  fs_checked :: bool

type_synonym guided_values = "string \<Rightarrow> field_state option"

definition field_path :: "guided_section \<Rightarrow> guided_field \<Rightarrow> string" where
  "field_path sec f = (if gs_path sec = [] then gf_key f else gs_path sec @ ''.'' @ gf_key f)"

section \<open>Reading and writing\<close>

definition path_segments :: "string \<Rightarrow> string list" where
  "path_segments path = (if path = [] then [] else split_on CHR ''.'' path)"

text \<open>\<open>Number(segment)\<close> of the digits the descriptors use.\<close>

definition seg_index :: "string \<Rightarrow> nat option" where
  "seg_index s = (if s \<noteq> [] \<and> list_all digit s then Some (decimal s) else None)"

definition resolve_container :: "cjson \<Rightarrow> string \<Rightarrow> cfields option" where
  "resolve_container config path = resolve seg_index (path_segments path) config"

definition set_in :: "cjson \<Rightarrow> string \<Rightarrow> string \<Rightarrow> cjson option \<Rightarrow> cjson" where
  "set_in config path key v = put_at seg_index (path_segments path) key v config"

definition render_value :: "(cjson \<Rightarrow> string) \<Rightarrow> guided_field \<Rightarrow> cjson \<Rightarrow> string" where
  "render_value stringify f v =
     (case v of
        JNull \<Rightarrow> ''null''
      | JArr vs \<Rightarrow>
          if gf_kind f = String_list
          then join_with CHR 0x0A (map (\<lambda>e. case e of JStr s \<Rightarrow> s | _ \<Rightarrow> stringify e) vs)
          else stringify v
      | JObj _ \<Rightarrow> if gf_kind f = String_list then ''[object Object]'' else stringify v
      | JStr s \<Rightarrow> s
      | _ \<Rightarrow> stringify v)"

definition read_field_state :: "(cjson \<Rightarrow> string) \<Rightarrow> cjson \<Rightarrow> guided_section \<Rightarrow> guided_field \<Rightarrow> field_state" where
  "read_field_state stringify config sec f =
     (let raw = (case resolve_container config (gs_path sec) of Some c \<Rightarrow> map_of c (gf_key f) | None \<Rightarrow> None) in
      \<lparr>fs_present = (raw \<noteq> None),
       fs_text = (case raw of Some v \<Rightarrow> if gf_secret f then [] else render_value stringify f v | None \<Rightarrow> []),
       fs_null = (raw = Some JNull),
       fs_checked = (gf_kind f = Boolean \<and> raw = Some (JBool True))\<rparr>)"

definition schema_positions :: "guided_schema \<Rightarrow> (guided_section \<times> guided_field) list" where
  "schema_positions s = concat (map (\<lambda>sec. map (Pair sec) (gs_fields sec)) (sc_sections s))"

definition read_guided :: "(cjson \<Rightarrow> string) \<Rightarrow> guided_schema \<Rightarrow> cjson \<Rightarrow> guided_values" where
  "read_guided stringify s config =
     map_of (rev (map (\<lambda>(sec, f). (field_path sec f, read_field_state stringify config sec f)) (schema_positions s)))"

definition integer_pattern :: "string \<Rightarrow> bool" where
  "integer_pattern t =
     (case t of
        c # ds \<Rightarrow> if c = CHR ''-'' then ds \<noteq> [] \<and> list_all digit ds else list_all digit t
      | [] \<Rightarrow> False)"

definition list_entries :: "string \<Rightarrow> string list" where
  "list_entries t = filter (\<lambda>e. 0 < length e) (map js_trim (split_on CHR 0x0A t))"

definition parse_value :: "(string \<Rightarrow> rat) \<Rightarrow> guided_field \<Rightarrow> field_state \<Rightarrow> cjson" where
  "parse_value number f st =
     (case gf_kind f of
        Boolean \<Rightarrow> JBool (fs_checked st)
      | Integer \<Rightarrow> (let t = js_trim (fs_text st) in if integer_pattern t then JNum (number t) else JStr t)
      | String_list \<Rightarrow> JArr (map JStr (list_entries (fs_text st)))
      | _ \<Rightarrow> JStr (fs_text st))"

definition write_field ::
  "(string \<Rightarrow> rat) \<Rightarrow> guided_values \<Rightarrow> guided_values \<Rightarrow> guided_section \<times> guided_field \<Rightarrow> cjson \<Rightarrow> cjson" where
  "write_field number draft previous = (\<lambda>(sec, f) next.
     case draft (field_path sec f) of
       None \<Rightarrow> next
     | Some st \<Rightarrow>
         if \<not> fs_present st then set_in next (gs_path sec) (gf_key f) None
         else if gf_secret f \<and> length (fs_text st) = 0 then
           (if (case previous (field_path sec f) of Some seeded \<Rightarrow> fs_present seeded | None \<Rightarrow> False) then next
            else set_in next (gs_path sec) (gf_key f) (Some (JStr [])))
         else if fs_null st then set_in next (gs_path sec) (gf_key f) (Some JNull)
         else set_in next (gs_path sec) (gf_key f) (Some (parse_value number f st)))"

text \<open>A section whose container is missing is skipped.\<close>

definition write_section ::
  "(string \<Rightarrow> rat) \<Rightarrow> guided_values \<Rightarrow> guided_values \<Rightarrow> guided_section \<Rightarrow> cjson \<Rightarrow> cjson" where
  "write_section number draft previous sec next =
     (if resolve_container next (gs_path sec) = None then next
      else fold (\<lambda>f. write_field number draft previous (sec, f)) (gs_fields sec) next)"

definition write_guided ::
  "(string \<Rightarrow> rat) \<Rightarrow> guided_schema \<Rightarrow> cjson \<Rightarrow> guided_values \<Rightarrow> guided_values \<Rightarrow> cjson" where
  "write_guided number s original draft previous =
     fold (write_section number draft previous) (sc_sections s) original"

section \<open>Checks\<close>

definition validate_field :: "(string \<Rightarrow> rat) \<Rightarrow> guided_field \<Rightarrow> field_state \<Rightarrow> field_state option \<Rightarrow> issue option" where
  "validate_field number f st seeded =
     (if \<not> fs_present st then (if gf_required f then Some Required_missing else None)
      else if gf_kind f = Boolean then None
      else
        let t = js_trim (fs_text st) in
        if gf_kind f = String_list then
          let entries = list_entries (fs_text st) in
          if (case gf_min_items f of Some n \<Rightarrow> length entries < n | None \<Rightarrow> False) then Some (Too_few_items (the (gf_min_items f)))
          else if (case gf_max_items f of Some n \<Rightarrow> length entries > n | None \<Rightarrow> False) then Some (Too_many_items (the (gf_max_items f)))
          else (case gf_item_pattern f of Some pat \<Rightarrow> map_option Bad_item (find (\<lambda>e. \<not> pat e) entries) | None \<Rightarrow> None)
        else if fs_null st then None
        else if gf_secret f \<and> length (fs_text st) = 0 \<and> (case seeded of Some sd \<Rightarrow> fs_present sd | None \<Rightarrow> False) then None
        else if length t = 0 then Some Set_but_empty
        else if gf_kind f = Integer then
          (if \<not> integer_pattern t then Some Not_whole
           else if (case gf_minimum f of Some m \<Rightarrow> number t < of_int m | None \<Rightarrow> False) then Some (Below (the (gf_minimum f)))
           else if (case gf_maximum f of Some m \<Rightarrow> number t > of_int m | None \<Rightarrow> False) then Some (Above (the (gf_maximum f)))
           else None)
        else if gf_kind f = Enum then (if t \<notin> set (gf_enum f) then Some Not_offered else None)
        else if (case gf_pattern f of Some pat \<Rightarrow> \<not> pat (fs_text st) | None \<Rightarrow> False) then Some Pattern_mismatch
        else None)"

definition validate_guided ::
  "(string \<Rightarrow> rat) \<Rightarrow> guided_schema \<Rightarrow> guided_values \<Rightarrow> cfields \<Rightarrow> guided_values \<Rightarrow> (string \<times> issue) list" where
  "validate_guided number s draft config seeded =
     List.map_filter (\<lambda>(sec, f).
       case draft (field_path sec f) of
         Some st \<Rightarrow> map_option (Pair (field_path sec f)) (validate_field number f st (seeded (field_path sec f)))
       | None \<Rightarrow> None) (schema_positions s) @
     sc_cross s config"

definition unmodelled_enum_spelling :: "guided_schema \<Rightarrow> cjson \<Rightarrow> bool" where
  "unmodelled_enum_spelling s config \<longleftrightarrow>
     list_ex (\<lambda>(sec, f). gf_kind f = Enum \<and>
       (case resolve_container config (gs_path sec) of
          Some c \<Rightarrow> (case map_of c (gf_key f) of Some (JStr v) \<Rightarrow> v \<notin> set (gf_enum f) | _ \<Rightarrow> False)
        | None \<Rightarrow> False)) (schema_positions s)"

section \<open>The four plugins\<close>

definition base_field :: "string \<Rightarrow> field_kind \<Rightarrow> guided_field" where
  "base_field k kind =
     \<lparr>gf_key = k, gf_kind = kind, gf_required = False, gf_enum = [], gf_minimum = None, gf_maximum = None, gf_min_items = None,
      gf_max_items = None, gf_pattern = None, gf_item_pattern = None, gf_secret = False\<rparr>"

lemma base_field_simps [simp]: "gf_key (base_field k kind) = k" "gf_kind (base_field k kind) = kind" "\<not> gf_secret (base_field k kind)"
  by (simp_all add: base_field_def)

definition bounded_field :: "string \<Rightarrow> int \<Rightarrow> int option \<Rightarrow> guided_field" where
  "bounded_field k low high = (base_field k Integer)\<lparr>gf_minimum := Some low, gf_maximum := high\<rparr>"

definition enum_field :: "string \<Rightarrow> string list \<Rightarrow> guided_field" where
  "enum_field k vals = (base_field k Enum)\<lparr>gf_enum := vals\<rparr>"

text \<open>The regular expressions of the descriptors.\<close>

definition http_token_char :: "char \<Rightarrow> bool" where
  "http_token_char c \<longleftrightarrow> digit c \<or> letter c \<or> (of_char c :: nat) \<in> {33, 35, 36, 37, 38, 39, 42, 43, 45, 46, 94, 95, 96, 124, 126}"

definition http_token :: "string \<Rightarrow> bool" where
  "http_token s \<longleftrightarrow> s \<noteq> [] \<and> list_all http_token_char s"

definition key_location_pattern :: "string \<Rightarrow> bool" where
  "key_location_pattern s \<longleftrightarrow>
     starts_with ''header:'' s \<and> http_token (drop 7 s) \<or>
     starts_with ''query:'' s \<and> drop 6 s \<noteq> [] \<and> list_all (\<lambda>c. \<not> white_space c) (drop 6 s)"

definition redis_url_rest :: "string \<Rightarrow> bool" where
  "redis_url_rest s =
     (let rest = dropWhile (\<lambda>c. \<not> (c = CHR ''/'' \<or> c = CHR ''?'' \<or> c = CHR ''#'' \<or> white_space c)) s;
          after = (case rest of
                     c # t \<Rightarrow>
                       if c = CHR ''/'' then
                         (let d = takeWhile digit t in
                          if d = [] \<or> d = ''0'' \<or> hd d \<noteq> CHR ''0'' \<and> length d \<le> 10 then Some (dropWhile digit t) else None)
                       else Some rest
                   | [] \<Rightarrow> Some []) in
      rest \<noteq> s \<and>
      (case after of
         None \<Rightarrow> False
       | Some [] \<Rightarrow> True
       | Some (c # q) \<Rightarrow> c = CHR ''?'' \<and> list_all (\<lambda>d. \<not> white_space d \<and> d \<noteq> CHR ''#'') q))"

definition redis_url_pattern :: "string \<Rightarrow> bool" where
  "redis_url_pattern s \<longleftrightarrow>
     js_lower (take 8 s) = ''redis://'' \<and> redis_url_rest (drop 8 s) \<or>
     js_lower (take 9 s) = ''rediss://'' \<and> redis_url_rest (drop 9 s)"

definition KEY_AUTH :: guided_schema where
  "KEY_AUTH =
     \<lparr>sc_plugin = ''key_auth'', sc_unsupported = (\<lambda>_. False), sc_cross = (\<lambda>_. []),
      sc_sections =
        [\<lparr>gs_path = [], gs_fields =
           [(base_field ''key_location'' Text)\<lparr>gf_pattern := Some key_location_pattern\<rparr>,
            base_field ''hide_credentials'' Boolean]\<rparr>]\<rparr>"

definition rate_rule :: "cfields \<Rightarrow> cfields option" where
  "rate_rule config = (case map_of config ''limits'' of Some (JArr (JObj rule # _)) \<Rightarrow> Some rule | _ \<Rightarrow> None)"

definition rate_limiting_unsupported :: "cfields \<Rightarrow> bool" where
  "rate_limiting_unsupported config =
     (case map_of config ''limits'' of
        Some (JArr limits) \<Rightarrow>
          if length limits \<noteq> 1 then True
          else (case rate_rule config of
                  None \<Rightarrow> True
                | Some rule \<Rightarrow> (case map_of rule ''scope'' of Some (JStr scope) \<Rightarrow> js_lower scope \<noteq> ''default'' | _ \<Rightarrow> True))
      | _ \<Rightarrow> True)"

definition falsy :: "cjson option \<Rightarrow> bool" where
  "falsy v \<longleftrightarrow> v \<in> {None, Some JNull, Some (JBool False), Some (JNum 0), Some (JStr [])}"

definition rate_limiting_cross :: "cfields \<Rightarrow> (string \<times> issue) list" where
  "rate_limiting_cross config =
     (case rate_rule config of
        None \<Rightarrow> []
      | Some rule \<Rightarrow>
          let presets = filter (\<lambda>k. map_of rule k \<noteq> None) [''requests_per_second'', ''requests_per_minute'', ''requests_per_hour''];
              window = filter (\<lambda>k. map_of rule k \<noteq> None) [''window_seconds'', ''max_requests''] in
          (if 0 < length presets \<and> 0 < length window then [(''limits.0.window_seconds'', Preset_and_window)] else []) @
          (if length presets = 0 \<and> length window = 0 then [(''limits.0.requests_per_second'', No_rate)] else []) @
          (if length window = 1
           then [(if hd window = ''window_seconds'' then ''limits.0.max_requests'' else ''limits.0.window_seconds'', Window_half_set)]
           else [])) @
     (let mode = (case map_of config ''sync_mode'' of Some (JStr m) \<Rightarrow> js_lower m | _ \<Rightarrow> []) in
      if mode = ''redis'' \<and> falsy (map_of config ''redis_url'') then [(''redis_url'', Redis_without_url)] else [])"

definition RATE_LIMITING :: guided_schema where
  "RATE_LIMITING =
     \<lparr>sc_plugin = ''rate_limiting'', sc_unsupported = rate_limiting_unsupported, sc_cross = rate_limiting_cross,
      sc_sections =
        [\<lparr>gs_path = ''limits.0'', gs_fields =
           [bounded_field ''requests_per_second'' 1 (Some 1000000), bounded_field ''requests_per_minute'' 1 (Some 1000000),
            bounded_field ''requests_per_hour'' 1 (Some 1000000), bounded_field ''window_seconds'' 1 (Some 2678400),
            bounded_field ''max_requests'' 1 (Some 1000000)]\<rparr>,
         \<lparr>gs_path = [], gs_fields =
           [enum_field ''limit_by'' [''ip'', ''consumer'', ''spiffe_identity''], bounded_field ''ipv6_prefix'' 1 (Some 128),
            base_field ''expose_headers'' Boolean]\<rparr>,
         \<lparr>gs_path = [], gs_fields =
           [enum_field ''sync_mode'' [''local'', ''redis''],
            (base_field ''redis_url'' Text)\<lparr>gf_pattern := Some redis_url_pattern\<rparr>,
            base_field ''redis_tls'' Boolean, base_field ''redis_key_prefix'' Text, bounded_field ''redis_pool_size'' 1 (Some 128),
            base_field ''redis_username'' Text, (base_field ''redis_password'' Text)\<lparr>gf_secret := True\<rparr>,
            enum_field ''redis_failure_policy'' [''local_fallback'', ''fail_closed'']]\<rparr>]\<rparr>"

definition cors_unsupported :: "cfields \<Rightarrow> bool" where
  "cors_unsupported config =
     (case map_of config ''allowed_origins'' of
        Some (JArr origins) \<Rightarrow>
          if list_ex (\<lambda>v. case v of JStr _ \<Rightarrow> False | _ \<Rightarrow> True) origins then True else map_of config ''unmatched_preflights'' \<noteq> None
      | _ \<Rightarrow> True)"

definition cors_cross :: "cfields \<Rightarrow> (string \<times> issue) list" where
  "cors_cross config =
     (let origins = (case map_of config ''allowed_origins'' of Some (JArr vs) \<Rightarrow> vs | _ \<Rightarrow> []) in
      if map_of config ''allow_credentials'' = Some (JBool True) \<and> JStr ''*'' \<in> set origins
      then [(''allow_credentials'', Credentials_with_wildcard)] else [])"

definition token_list_field :: "string \<Rightarrow> guided_field" where
  "token_list_field k = (base_field k String_list)\<lparr>gf_item_pattern := Some http_token\<rparr>"

definition CORS :: guided_schema where
  "CORS =
     \<lparr>sc_plugin = ''cors'', sc_unsupported = cors_unsupported, sc_cross = cors_cross,
      sc_sections =
        [\<lparr>gs_path = [], gs_fields =
           [(base_field ''allowed_origins'' String_list)\<lparr>gf_required := True, gf_min_items := Some 1, gf_max_items := Some 64\<rparr>,
            base_field ''allow_credentials'' Boolean]\<rparr>,
         \<lparr>gs_path = [], gs_fields =
           [token_list_field ''allowed_methods'', token_list_field ''allowed_headers'', token_list_field ''exposed_headers'',
            bounded_field ''max_age'' 0 None, base_field ''preflight_continue'' Boolean]\<rparr>]\<rparr>"

definition PROMETHEUS_METRICS :: guided_schema where
  "PROMETHEUS_METRICS =
     \<lparr>sc_plugin = ''prometheus_metrics'', sc_unsupported = (\<lambda>_. False), sc_cross = (\<lambda>_. []),
      sc_sections =
        [\<lparr>gs_path = [], gs_fields =
           [bounded_field ''render_cache_ttl_seconds'' 0 None, bounded_field ''stale_entry_ttl_seconds'' 0 None,
            bounded_field ''mesh_series_budget_per_family'' 1 (Some 1000000), bounded_field ''cache_invalidation_min_age_ms'' 0 None]\<rparr>]\<rparr>"

definition guided_schemas :: "guided_schema list" where
  "guided_schemas = [KEY_AUTH, RATE_LIMITING, CORS, PROMETHEUS_METRICS]"

definition get_guided_schema :: "string \<Rightarrow> guided_schema option" where
  "get_guided_schema plugin = find (\<lambda>s. sc_plugin s = plugin) guided_schemas"

section \<open>What a write changes\<close>

text \<open>The place of a field, and a configuration without any of the modelled keys.\<close>

definition place :: "guided_section \<times> guided_field \<Rightarrow> string list \<times> string" where
  "place = (\<lambda>(sec, f). (path_segments (gs_path sec), gf_key f))"

definition at_place :: "string list \<times> string \<Rightarrow> cjson \<Rightarrow> cjson option" where
  "at_place x c = field_at seg_index (fst x) (snd x) c"

definition put_place :: "string list \<times> string \<Rightarrow> cjson option \<Rightarrow> cjson \<Rightarrow> cjson" where
  "put_place x v c = put_at seg_index (fst x) (snd x) v c"

definition unmodelled_part :: "guided_schema \<Rightarrow> cjson \<Rightarrow> cjson" where
  "unmodelled_part s config = fold (\<lambda>x. put_place (place x) None) (schema_positions s) config"

text \<open>Descriptors name each field once, under a path of its own, no section inside another's field, and array
  indices in one way.\<close>

definition schema_ok :: "guided_schema \<Rightarrow> bool" where
  "schema_ok s \<longleftrightarrow>
     distinct (map place (schema_positions s)) \<and>
     distinct (map (\<lambda>(sec, f). field_path sec f) (schema_positions s)) \<and>
     (\<forall>x \<in> set (schema_positions s). \<forall>y \<in> set (schema_positions s). \<not> extends (fst (place x)) (snd (place x)) (fst (place y))) \<and>
     plain_indices seg_index (\<Union>x \<in> set (schema_positions s). set (fst (place x))) \<and>
     (\<forall>(sec, f) \<in> set (schema_positions s). gf_secret f \<longrightarrow> gf_kind f \<noteq> Boolean)"

lemma schema_apart:
  assumes "schema_ok s" "x \<in> set (schema_positions s)" "y \<in> set (schema_positions s)" "place x \<noteq> place y"
  shows "apart (place x) (place y)" "plain_indices seg_index (set (fst (place x)) \<union> set (fst (place y)))"
  using assms by (auto simp: schema_ok_def apart_def intro: plain_indices_subset)

text \<open>What a field's editing state says of its value, given what is stored.\<close>

definition written_value :: "(string \<Rightarrow> rat) \<Rightarrow> guided_values \<Rightarrow> guided_values \<Rightarrow> guided_section \<times> guided_field \<Rightarrow> cjson option \<Rightarrow> cjson option" where
  "written_value number draft previous = (\<lambda>(sec, f) stored.
     case draft (field_path sec f) of
       None \<Rightarrow> stored
     | Some st \<Rightarrow>
         if \<not> fs_present st then None
         else if gf_secret f \<and> fs_text st = [] then
           (if (case previous (field_path sec f) of Some seeded \<Rightarrow> fs_present seeded | None \<Rightarrow> False) then stored else Some (JStr []))
         else if fs_null st then Some JNull
         else Some (parse_value number f st))"

lemma write_field_put:
  "write_field number draft previous x c =
     (if resolve seg_index (fst (place x)) c = None then c
      else put_place (place x) (written_value number draft previous x (at_place (place x) c)) c)"
proof -
  obtain sec f where x: "x = (sec, f)" by (cases x)
  have "put_place (place x) (at_place (place x) c) c = c" by (simp add: put_place_def at_place_def put_at_same)
  then show ?thesis
    by (cases "draft (field_path sec f)")
      (auto simp: x write_field_def written_value_def set_in_def put_place_def place_def put_at_def update_unresolved)
qed

text \<open>A whole write is one write per field.\<close>

lemma resolve_write_field:
  assumes "schema_ok s" "x \<in> set (schema_positions s)" "y \<in> set (schema_positions s)"
  shows "(resolve seg_index (fst (place y)) (write_field number draft previous x c) = None) =
    (resolve seg_index (fst (place y)) c = None)"
proof -
  have "plain_indices seg_index (set (fst (place y)) \<union> set (fst (place x)))" "\<not> extends (fst (place x)) (snd (place x)) (fst (place y))"
    using assms by (auto simp: schema_ok_def intro: plain_indices_subset)
  then show ?thesis by (simp add: write_field_put put_place_def resolve_put_apart)
qed

lemma write_section_fields:
  "write_section number draft previous sec c = fold (\<lambda>f. write_field number draft previous (sec, f)) (gs_fields sec) c"
proof (cases "resolve_container c (gs_path sec) = None")
  case True
  have "fold (\<lambda>f. write_field number draft previous (sec, f)) fs c = c" for fs
    using True by (induction fs) (auto simp: write_field_put place_def resolve_container_def)
  then show ?thesis using True by (simp add: write_section_def)
qed (auto simp: write_section_def)

lemma write_guided_fields:
  "write_guided number s c draft previous = fold (write_field number draft previous) (schema_positions s) c"
proof -
  have "fold (write_section number draft previous) secs c =
      fold (write_field number draft previous) (concat (map (\<lambda>sec. map (Pair sec) (gs_fields sec)) secs)) c" for secs c
    by (induction secs arbitrary: c) (simp_all add: write_section_fields fold_map comp_def)
  then show ?thesis by (simp add: write_guided_def schema_positions_def)
qed

lemma field_write_other:
  assumes "schema_ok s" "x \<in> set (schema_positions s)" "y \<in> set (schema_positions s)" "place x \<noteq> place y"
  shows "at_place (place y) (write_field number draft previous x c) = at_place (place y) c"
proof -
  have "plain_indices seg_index (set (fst (place y)) \<union> set (fst (place x)))" "apart (fst (place y), snd (place y)) (fst (place x), snd (place x))"
    using schema_apart [OF assms(1,3,2)] assms(4) by simp_all
  then show ?thesis by (simp add: write_field_put put_place_def at_place_def field_put_apart)
qed

lemma at_place_unresolved: "resolve seg_index (fst x) c = None \<Longrightarrow> at_place x c = None"
  by (simp add: at_place_def field_at_def)

lemma field_written:
  "at_place (place x) (write_field number draft previous x c) =
     (if resolve seg_index (fst (place x)) c = None then None
      else written_value number draft previous x (at_place (place x) c))"
proof (cases "resolve seg_index (fst (place x)) c")
  case None
  then show ?thesis by (simp add: write_field_put at_place_unresolved)
next
  case (Some fs)
  then show ?thesis by (simp add: write_field_put put_place_def at_place_def field_put_at)
qed

lemma write_each:
  assumes ok: "schema_ok s" and xs: "set xs \<subseteq> set (schema_positions s)" "distinct (map place xs)" and y: "y \<in> set (schema_positions s)"
  shows "at_place (place y) (fold (write_field number draft previous) xs c) =
      (if y \<in> set xs then
         if resolve seg_index (fst (place y)) c = None then None
         else written_value number draft previous y (at_place (place y) c)
       else at_place (place y) c) \<and>
    (resolve seg_index (fst (place y)) (fold (write_field number draft previous) xs c) = None) =
      (resolve seg_index (fst (place y)) c = None)"
  using xs
proof (induction xs arbitrary: c)
  case (Cons x xs)
  have inj: "inj_on place (set (schema_positions s))" using ok by (simp add: schema_ok_def distinct_map)
  have x: "x \<in> set (schema_positions s)" using Cons.prems by simp
  have kept: "(resolve seg_index (fst (place y)) (write_field number draft previous x c) = None) =
      (resolve seg_index (fst (place y)) c = None)" by (rule resolve_write_field [OF ok x y])
  show ?case
  proof (cases "x = y")
    case True
    then have "y \<notin> set xs" using Cons.prems(2) by auto
    then show ?thesis using Cons kept True by (simp add: field_written)
  next
    case False
    then have "place x \<noteq> place y" using inj x y by (meson inj_onD)
    then have "at_place (place y) (write_field number draft previous x c) = at_place (place y) c"
      by (rule field_write_other [OF ok x y])
    then show ?thesis using Cons kept False by auto
  qed
qed simp

lemma put_places_commute:
  assumes ok: "schema_ok s" and "set xs \<subseteq> set (schema_positions s)" "y \<in> set (schema_positions s)"
  shows "y \<in> set xs \<Longrightarrow> fold (\<lambda>x. put_place (place x) None) xs (put_place (place y) v c) =
    fold (\<lambda>x. put_place (place x) None) xs c"
  using assms(2)
proof (induction xs arbitrary: c)
  case (Cons x xs)
  show ?case
  proof (cases "place x = place y")
    case True
    then show ?thesis by (simp add: put_place_def delete_put_at_same)
  next
    case False
    have x: "x \<in> set (schema_positions s)" using Cons.prems by simp
    have "put_place (place x) None (put_place (place y) v c) = put_place (place y) v (put_place (place x) None c)"
      unfolding put_place_def using schema_apart [OF ok x assms(3) False]
      by (intro delete_put_at_commute) simp_all
    moreover have "y \<in> set xs" using Cons.prems False by auto
    ultimately show ?thesis using Cons by simp
  qed
qed simp

lemma unmodelled_kept:
  assumes ok: "schema_ok s" and x: "x \<in> set (schema_positions s)"
  shows "unmodelled_part s (write_field number draft previous x c) = unmodelled_part s c"
  using put_places_commute [OF ok order_refl x] x by (simp add: unmodelled_part_def write_field_put)

lemma unmodelled_kept_all:
  assumes "schema_ok s"
  shows "set xs \<subseteq> set (schema_positions s) \<Longrightarrow>
    unmodelled_part s (fold (write_field number draft previous) xs c) = unmodelled_part s c"
  by (induction xs arbitrary: c) (simp_all add: unmodelled_kept [OF assms])

section \<open>What a read shows\<close>

lemma read_state:
  assumes "schema_ok s" "(sec, f) \<in> set (schema_positions s)"
  shows "read_guided stringify s c (field_path sec f) = Some (read_field_state stringify c sec f)"
proof -
  let ?xs = "map (\<lambda>(sec, f). (field_path sec f, read_field_state stringify c sec f)) (schema_positions s)"
  have "map fst ?xs = map (\<lambda>(sec, f). field_path sec f) (schema_positions s)" by (simp add: comp_def case_prod_unfold)
  then have "distinct (map fst ?xs)" using assms(1) unfolding schema_ok_def by metis
  then have "distinct (map fst (rev ?xs))" by (simp only: rev_map [symmetric] distinct_rev)
  then show ?thesis using assms(2) unfolding read_guided_def by (intro map_of_is_SomeI) force+
qed

lemma read_field_at:
  "read_field_state stringify c sec f =
     (let raw = at_place (place (sec, f)) c in
      \<lparr>fs_present = (raw \<noteq> None),
       fs_text = (case raw of Some v \<Rightarrow> if gf_secret f then [] else render_value stringify f v | None \<Rightarrow> []),
       fs_null = (raw = Some JNull), fs_checked = (gf_kind f = Boolean \<and> raw = Some (JBool True))\<rparr>)"
  by (simp add: read_field_state_def at_place_def field_at_def place_def resolve_container_def)

text \<open>A stored value the fields can show and write back.\<close>

definition faithful_value :: "(cjson \<Rightarrow> string) \<Rightarrow> (string \<Rightarrow> rat) \<Rightarrow> guided_field \<Rightarrow> cjson \<Rightarrow> bool" where
  "faithful_value stringify number f v \<longleftrightarrow>
     v = JNull \<or> gf_secret f \<or>
     (case gf_kind f of
        Boolean \<Rightarrow> (\<exists>b. v = JBool b)
      | Integer \<Rightarrow>
          let t = js_trim (render_value stringify f v) in
          (case v of JNum r \<Rightarrow> integer_pattern t \<and> number t = r | JStr x \<Rightarrow> js_trim x = x \<and> \<not> integer_pattern x | _ \<Rightarrow> False)
      | String_list \<Rightarrow> (\<exists>es. v = JArr (map JStr es) \<and> (\<forall>e \<in> set es. e \<noteq> [] \<and> js_trim e = e \<and> CHR 0x0A \<notin> set e))
      | _ \<Rightarrow> (\<exists>t. v = JStr t))"

lemma js_trim_idem: "js_trim (js_trim t) = js_trim t"
proof -
  let ?a = "dropWhile white_space t"
  have pre: "takeWhile white_space (rev ?a) @ dropWhile white_space (rev ?a) = rev ?a" by simp
  have "dropWhile white_space (js_trim t) = js_trim t"
  proof (cases "js_trim t")
    case (Cons c cs)
    have "rev (rev ?a) = js_trim t @ rev (takeWhile white_space (rev ?a))"
      unfolding js_trim_def by (subst pre [symmetric], subst rev_append) simp
    then have "?a = c # (cs @ rev (takeWhile white_space (rev ?a)))" by (simp add: Cons)
    then have "\<not> white_space c" using hd_dropWhile [of white_space t] by (metis list.discI list.sel(1))
    then show ?thesis by (simp add: Cons)
  qed simp
  then show ?thesis by (simp add: js_trim_def)
qed

lemma list_entries_clean:
  assumes "e \<in> set (list_entries t)"
  shows "e \<noteq> [] \<and> js_trim e = e \<and> CHR 0x0A \<notin> set e"
proof -
  obtain p where p: "p \<in> set (split_on CHR 0x0A t)" "e = js_trim p" "e \<noteq> []"
    using assms by (auto simp: list_entries_def)
  then have "CHR 0x0A \<notin> set p" using split_on_pieces by metis
  then show ?thesis using p js_trim_idem js_trim_set [of p] by auto
qed

lemma list_entries_join:
  assumes "\<forall>e \<in> set es. e \<noteq> [] \<and> js_trim e = e \<and> CHR 0x0A \<notin> set e"
  shows "list_entries (join_with CHR 0x0A es) = es"
proof (cases "es = []")
  case True
  then show ?thesis by (simp add: list_entries_def js_trim_def)
next
  case False
  have "split_on CHR 0x0A (join_with CHR 0x0A es) = es" using split_join [OF False] assms by blast
  moreover have "map js_trim es = es" using assms by (simp add: map_idI)
  moreover have "filter (\<lambda>e. 0 < length e) es = es" using assms by (simp add: filter_id_conv)
  ultimately show ?thesis by (simp add: list_entries_def)
qed

lemma render_string_list: "render_value stringify f (JArr (map JStr es)) = (if gf_kind f = String_list then join_with CHR 0x0A es else stringify (JArr (map JStr es)))"
  by (simp add: render_value_def comp_def)

lemma faithful_iff:
  assumes "\<not> gf_secret f" "v \<noteq> JNull"
  shows "parse_value number f \<lparr>fs_present = True, fs_text = render_value stringify f v, fs_null = False,
      fs_checked = (gf_kind f = Boolean \<and> v = JBool True)\<rparr> = v \<longleftrightarrow> faithful_value stringify number f v"
proof (cases "gf_kind f")
  case Boolean
  then show ?thesis using assms by (cases v) (auto simp: parse_value_def faithful_value_def)
next
  case Integer
  then show ?thesis using assms
    by (cases v) (auto simp: parse_value_def faithful_value_def render_value_def Let_def split: if_splits)
next
  case String_list
  show ?thesis
  proof
    assume "parse_value number f \<lparr>fs_present = True, fs_text = render_value stringify f v, fs_null = False,
      fs_checked = (gf_kind f = Boolean \<and> v = JBool True)\<rparr> = v"
    then have "v = JArr (map JStr (list_entries (render_value stringify f v)))" using String_list by (simp add: parse_value_def)
    then show "faithful_value stringify number f v"
      using list_entries_clean [of _ "render_value stringify f v"] String_list unfolding faithful_value_def by auto
  next
    assume "faithful_value stringify number f v"
    then obtain es where "v = JArr (map JStr es)" "\<forall>e \<in> set es. e \<noteq> [] \<and> js_trim e = e \<and> CHR 0x0A \<notin> set e"
      using assms String_list by (auto simp: faithful_value_def)
    then show "parse_value number f \<lparr>fs_present = True, fs_text = render_value stringify f v, fs_null = False,
      fs_checked = (gf_kind f = Boolean \<and> v = JBool True)\<rparr> = v"
      using list_entries_join String_list by (simp add: parse_value_def render_string_list)
  qed
qed (use assms in \<open>cases v; auto simp: parse_value_def faithful_value_def render_value_def\<close>)+

lemma written_as_read:
  assumes "schema_ok s" "x \<in> set (schema_positions s)"
  shows "written_value number (read_guided stringify s c) (read_guided stringify s c) x (at_place (place x) c) = at_place (place x) c \<longleftrightarrow>
    (\<forall>v. at_place (place x) c = Some v \<longrightarrow> faithful_value stringify number (snd x) v)"
proof -
  obtain sec f where x: "x = (sec, f)" by (cases x)
  have st: "read_guided stringify s c (field_path sec f) = Some (read_field_state stringify c sec f)"
    using read_state assms x by blast
  show ?thesis
  proof (cases "at_place (place x) c")
    case None
    then show ?thesis by (simp add: x written_value_def st read_field_at Let_def)
  next
    case (Some v)
    show ?thesis
    proof (cases "gf_secret f \<or> v = JNull")
      case True
      then show ?thesis using Some by (auto simp: x written_value_def st read_field_at Let_def faithful_value_def)
    next
      case False
      then show ?thesis using Some faithful_iff [of f v number stringify]
        by (simp add: x written_value_def st read_field_at Let_def)
    qed
  qed
qed

lemma write_unchanged:
  assumes "schema_ok s" "set xs \<subseteq> set (schema_positions s)"
    "\<forall>x \<in> set xs. written_value number draft previous x (at_place (place x) c) = at_place (place x) c"
  shows "fold (write_field number draft previous) xs c = c"
  using assms(2,3)
  by (induction xs) (simp_all add: write_field_put put_place_def at_place_def put_at_same)

lemma roundtrip_iff:
  assumes ok: "schema_ok s"
  shows "write_guided number s c (read_guided stringify s c) (read_guided stringify s c) = c \<longleftrightarrow>
    (\<forall>x \<in> set (schema_positions s). \<forall>v. at_place (place x) c = Some v \<longrightarrow> faithful_value stringify number (snd x) v)"
    (is "?same \<longleftrightarrow> ?faithful")
proof
  assume ?faithful
  then show ?same unfolding write_guided_fields
    by (intro write_unchanged [OF ok]) (auto simp: written_as_read [OF ok])
next
  assume same: ?same
  have "distinct (map place (schema_positions s))" using ok by (simp add: schema_ok_def)
  have "\<forall>v. at_place (place x) c = Some v \<longrightarrow> faithful_value stringify number (snd x) v" if x: "x \<in> set (schema_positions s)" for x
  proof (cases "at_place (place x) c")
    case (Some v)
    then have "resolve seg_index (fst (place x)) c \<noteq> None" using at_place_unresolved [of "place x" c] by auto
    then have "written_value number (read_guided stringify s c) (read_guided stringify s c) x (at_place (place x) c) = at_place (place x) c"
      using write_each [OF ok order_refl \<open>distinct (map place (schema_positions s))\<close> x, of number "read_guided stringify s c" "read_guided stringify s c" c]
        same x by (auto simp: write_guided_fields split: if_splits)
    then show ?thesis using written_as_read [OF ok x] by simp
  qed simp
  then show ?faithful by blast
qed

section \<open>The descriptors are well formed\<close>

lemma seg_index_limits: "path_segments ''limits.0'' = [''limits'', ''0'']" "path_segments [] = []" "seg_index ''limits'' = None"
  by (simp_all add: path_segments_def seg_index_def digit_def)

definition schema_check :: "guided_schema \<Rightarrow> bool" where
  "schema_check s =
     (let xs = schema_positions s; paths = remdups (map (fst \<circ> place) xs) in
      distinct (map place xs) \<and> distinct (map (\<lambda>(sec, f). field_path sec f) xs) \<and>
      list_all (\<lambda>x. list_all (\<lambda>p. \<not> extends (fst (place x)) (snd (place x)) p) paths) xs \<and>
      distinct (List.map_filter seg_index (remdups (concat paths))) \<and>
      list_all (\<lambda>(sec, f). gf_secret f \<longrightarrow> gf_kind f \<noteq> Boolean) xs)"

lemma inj_on_indices: "distinct (List.map_filter ix ss) \<Longrightarrow> distinct ss \<Longrightarrow> plain_indices ix (set ss)"
proof -
  assume "distinct (List.map_filter ix ss)" "distinct ss"
  then have "inj_on (the \<circ> ix) (set (filter (\<lambda>s. ix s \<noteq> None) ss))" by (simp add: List.map_filter_def distinct_map)
  then show ?thesis unfolding plain_indices_def by (auto simp: inj_on_def)
qed

lemma schema_check_ok: "schema_check s \<Longrightarrow> schema_ok s"
proof -
  assume check: "schema_check s"
  let ?segs = "remdups (concat (remdups (map (fst \<circ> place) (schema_positions s))))"
  have "plain_indices seg_index (set ?segs)"
    using check by (intro inj_on_indices) (simp_all add: schema_check_def Let_def)
  moreover have "set ?segs = (\<Union>x \<in> set (schema_positions s). set (fst (place x)))" by auto
  ultimately show ?thesis using check by (auto simp: schema_check_def schema_ok_def Let_def list_all_iff)
qed

lemmas descriptor_defs = KEY_AUTH_def RATE_LIMITING_def CORS_def PROMETHEUS_METRICS_def base_field_def bounded_field_def
  enum_field_def token_list_field_def

lemma schemas_checked: "schema_check KEY_AUTH" "schema_check RATE_LIMITING" "schema_check CORS" "schema_check PROMETHEUS_METRICS"
  by (simp_all add: schema_check_def schema_positions_def descriptor_defs place_def field_path_def seg_index_limits
      List.map_filter_def)

lemma guided_schema_ok: "s \<in> set guided_schemas \<Longrightarrow> schema_ok s"
  using schemas_checked schema_check_ok by (auto simp: guided_schemas_def)

section \<open>The properties\<close>

lemma secret_unseen:
  assumes ok: "schema_ok s" and x: "(sec, f) \<in> set (schema_positions s)" "gf_secret f" and v: "v \<noteq> JNull" "w \<noteq> JNull"
  shows "read_guided stringify s (put_place (place (sec, f)) (Some v) c) = read_guided stringify s (put_place (place (sec, f)) (Some w) c)"
proof -
  let ?x = "(sec, f)"
  have "read_field_state stringify (put_place (place ?x) (Some v) c) sec' f' = read_field_state stringify (put_place (place ?x) (Some w) c) sec' f'"
    if y: "(sec', f') \<in> set (schema_positions s)" for sec' f'
  proof (cases "place (sec', f') = place ?x")
    case True
    then have "(sec', f') = ?x" using ok x(1) y by (auto simp: schema_ok_def distinct_map dest: inj_onD)
    moreover have "gf_kind f \<noteq> Boolean" using ok x by (auto simp: schema_ok_def)
    ultimately show ?thesis using x(2) v
      by (simp add: read_field_at at_place_def put_place_def field_put_at Let_def)
  next
    case False
    have ix: "plain_indices seg_index (set (fst (place (sec', f'))) \<union> set (fst (place ?x)))"
      and ap: "apart (place (sec', f')) (place ?x)"
      using schema_apart [OF ok y x(1) False] by simp_all
    have "at_place (place (sec', f')) (put_place (place ?x) u c) = at_place (place (sec', f')) c" for u
      using field_put_apart [OF ix, of "snd (place (sec', f'))" "snd (place ?x)"] ap by (simp add: at_place_def put_place_def)
    then show ?thesis by (simp add: read_field_at)
  qed
  then have "map (\<lambda>(sec', f'). (field_path sec' f', read_field_state stringify (put_place (place ?x) (Some v) c) sec' f')) (schema_positions s) =
      map (\<lambda>(sec', f'). (field_path sec' f', read_field_state stringify (put_place (place ?x) (Some w) c) sec' f')) (schema_positions s)"
    by auto
  then show ?thesis by (simp only: read_guided_def)
qed

lemma write_exact:
  assumes "s \<in> set guided_schemas" "x \<in> set (schema_positions s)"
  shows "at_place (place x) (write_guided number s c draft previous) =
    (if resolve_container c (gs_path (fst x)) = None then None
     else written_value number draft previous x (at_place (place x) c))"
proof -
  have ok: "schema_ok s" using assms(1) by (rule guided_schema_ok)
  then have places: "distinct (map place (schema_positions s))" by (simp add: schema_ok_def)
  show ?thesis
    using write_each [OF ok order_refl places assms(2), of number draft previous c] assms(2)
    by (simp add: write_guided_fields resolve_container_def place_def case_prod_unfold)
qed

text \<open>C40: A guided edit changes the fields it models and nothing else. For each of the plugins, any configuration, any
  editing state and any seed: what the configuration holds besides the modelled keys, every key, value, nesting and
  the order of the rest, is the same after the write; each modelled key whose section exists holds what its own field says
  (the stored value when the field is not in the draft or is a blank secret that was seeded, nothing when omitted, null, or
  the value parsed from the field's own text or box) and is not affected by any other field; two configurations that
  differ only in a secret that is not null read as the same fields, so the view cannot show it; and opening a
  configuration and leaving it as it was gives it back exactly, order included, precisely when every modelled key
  holds a value its field can show: a null, a secret, a string, a boolean, a number written as a whole number, or a list
  of trimmed, non-empty lines. Numbers are read and written by the platform.\<close>

theorem guided_writes_touch_only_their_fields:
  assumes "s \<in> set guided_schemas"
  shows "unmodelled_part s (write_guided number s c draft previous) = unmodelled_part s c \<and>
    (\<forall>x \<in> set (schema_positions s). at_place (place x) (write_guided number s c draft previous) =
       (if resolve_container c (gs_path (fst x)) = None then None
        else written_value number draft previous x (at_place (place x) c))) \<and>
    (\<forall>x \<in> set (schema_positions s). gf_secret (snd x) \<longrightarrow>
       (\<forall>v w. v \<noteq> JNull \<and> w \<noteq> JNull \<longrightarrow>
          read_guided stringify s (put_place (place x) (Some v) c) = read_guided stringify s (put_place (place x) (Some w) c))) \<and>
    (write_guided number s c (read_guided stringify s c) (read_guided stringify s c) = c \<longleftrightarrow>
       (\<forall>x \<in> set (schema_positions s). \<forall>v. at_place (place x) c = Some v \<longrightarrow> faithful_value stringify number (snd x) v))"
proof -
  have ok: "schema_ok s" using assms by (rule guided_schema_ok)
  have kept: "unmodelled_part s (write_guided number s c draft previous) = unmodelled_part s c"
    unfolding write_guided_fields by (rule unmodelled_kept_all [OF ok order_refl])
  have exact: "\<forall>x \<in> set (schema_positions s). at_place (place x) (write_guided number s c draft previous) =
      (if resolve_container c (gs_path (fst x)) = None then None else written_value number draft previous x (at_place (place x) c))"
    using write_exact [OF assms] by (intro ballI)
  have unseen: "\<forall>x \<in> set (schema_positions s). gf_secret (snd x) \<longrightarrow> (\<forall>v w. v \<noteq> JNull \<and> w \<noteq> JNull \<longrightarrow>
      read_guided stringify s (put_place (place x) (Some v) c) = read_guided stringify s (put_place (place x) (Some w) c))"
  proof (intro ballI impI allI)
    fix x and v w :: cjson assume "x \<in> set (schema_positions s)" "gf_secret (snd x)" "v \<noteq> JNull \<and> w \<noteq> JNull"
    then show "read_guided stringify s (put_place (place x) (Some v) c) = read_guided stringify s (put_place (place x) (Some w) c)"
      using secret_unseen [OF ok, of "fst x" "snd x" v w stringify c] by (metis prod.collapse)
  qed
  show ?thesis by (intro conjI kept exact unseen roundtrip_iff [OF ok])
qed

definition sample_guided :: cjson where
  "sample_guided = JObj [(''tier'', JStr ''gold''), (''key_location'', JStr ''header:X-Old''), (''hide_credentials'', JBool True)]"

definition sample_draft :: guided_values where
  "sample_draft = [''key_location'' \<mapsto> \<lparr>fs_present = True, fs_text = ''header:X-New'', fs_null = False, fs_checked = False\<rparr>]"

definition key_location_position :: "guided_section \<times> guided_field" where
  "key_location_position = (hd (sc_sections KEY_AUTH), (base_field ''key_location'' Text)\<lparr>gf_pattern := Some key_location_pattern\<rparr>)"

lemma key_location_position: "key_location_position \<in> set (schema_positions KEY_AUTH)" "place key_location_position = ([], ''key_location'')"
  by (simp_all add: key_location_position_def schema_positions_def KEY_AUTH_def place_def seg_index_limits base_field_def)

theorem guided_writes_touch_only_their_fields_witness:
  "unmodelled_part KEY_AUTH (write_guided (\<lambda>_. 0) KEY_AUTH sample_guided sample_draft sample_draft) = unmodelled_part KEY_AUTH sample_guided \<and>
   at_place ([], ''key_location'') (write_guided (\<lambda>_. 0) KEY_AUTH sample_guided sample_draft sample_draft) = Some (JStr ''header:X-New'') \<and>
   write_guided (\<lambda>_. 0) KEY_AUTH sample_guided (read_guided (\<lambda>_. []) KEY_AUTH sample_guided)
     (read_guided (\<lambda>_. []) KEY_AUTH sample_guided) = sample_guided"
proof -
  have member: "KEY_AUTH \<in> set guided_schemas" by (simp add: guided_schemas_def)
  have shown: "\<forall>x \<in> set (schema_positions KEY_AUTH). \<forall>v. at_place (place x) sample_guided = Some v \<longrightarrow>
      faithful_value (\<lambda>_. []) (\<lambda>_. 0) (snd x) v"
    by (simp add: schema_positions_def KEY_AUTH_def base_field_def place_def seg_index_limits at_place_def field_at_def
        sample_guided_def faithful_value_def) auto
  have "resolve_container sample_guided (gs_path (fst key_location_position)) \<noteq> None"
    by (simp add: key_location_position_def KEY_AUTH_def resolve_container_def seg_index_limits sample_guided_def)
  moreover have "written_value (\<lambda>_. 0) sample_draft sample_draft key_location_position stored = Some (JStr ''header:X-New'')" for stored
    by (simp add: written_value_def key_location_position_def field_path_def KEY_AUTH_def base_field_def sample_draft_def parse_value_def)
  moreover note claim = guided_writes_touch_only_their_fields [OF member, of "\<lambda>_. 0" sample_guided sample_draft sample_draft "\<lambda>_. []"]
  ultimately have "at_place ([], ''key_location'') (write_guided (\<lambda>_. 0) KEY_AUTH sample_guided sample_draft sample_draft) =
      Some (JStr ''header:X-New'')"
    using claim [THEN conjunct2, THEN conjunct1] key_location_position by fastforce
  then show ?thesis using claim [THEN conjunct1] claim [THEN conjunct2, THEN conjunct2, THEN conjunct2] shown by blast
qed

text \<open>A boolean stored as a word is rewritten.\<close>

lemma untyped_boolean_rewritten:
  "at_place ([], ''hide_credentials'') (write_guided number KEY_AUTH (JObj [(''hide_credentials'', JStr ''true'')])
     (read_guided stringify KEY_AUTH (JObj [(''hide_credentials'', JStr ''true'')]))
     (read_guided stringify KEY_AUTH (JObj [(''hide_credentials'', JStr ''true'')]))) = Some (JBool False)"
proof -
  let ?c = "JObj [(''hide_credentials'', JStr ''true'')]" and ?x = "(hd (sc_sections KEY_AUTH), base_field ''hide_credentials'' Boolean)"
  have member: "KEY_AUTH \<in> set guided_schemas" by (simp add: guided_schemas_def)
  have x: "?x \<in> set (schema_positions KEY_AUTH)" by (simp add: schema_positions_def KEY_AUTH_def)
  have "place ?x = ([], ''hide_credentials'')" "resolve_container ?c (gs_path (fst ?x)) \<noteq> None"
    by (simp_all add: place_def KEY_AUTH_def seg_index_limits base_field_def resolve_container_def)
  moreover have "at_place ([], ''hide_credentials'') ?c = Some (JStr ''true'')" by (simp add: at_place_def field_at_def)
  ultimately show ?thesis
    using write_exact [OF member x, of number ?c "read_guided stringify KEY_AUTH ?c" "read_guided stringify KEY_AUTH ?c"]
    by (simp add: written_value_def read_state [OF guided_schema_ok [OF member] x] read_field_at parse_value_def Let_def)
qed

end
