(* ===== verification/Spec2Isabelle.thy ===== *)
theory Spec2Isabelle
  imports Prelude JsString AuthThrottle WaitBudget Admission ProxyPath Registry SharedScan RuntimeConfig Auth
    Shutdown ProxyHandler MockGateway SecretRedaction PluginMembership UploadDrain Readiness ApplyMonitor
    OutcomeLatches ApiClient EffectivePolicy TrustBundle Dispatchers Capabilities AuthSession McpToolPolicy
    GuidedConfig
begin

text \<open>
  Verification library of Ferrum Foundry, the console of the Ferrum Edge API gateway. The program has two halves.
  The BFF (a Fastify server, \<open>server/\<close> and \<open>shared/\<close>) authenticates operators, signs short admin tokens for the
  gateway and forwards \<open>/api/proxy/\<close> requests to its admin API within the caller's role and namespace grants. The
  console (a React application, \<open>src/\<close>) reads collections page by page, edits resources against what it read,
  and tells the operator what became of every write. A request passes, in this order: \<open>api/client.ts\<close> (ticket,
  gateway target, namespace, CSRF token), the BFF's hooks (\<open>Auth\<close>, \<open>ProxyPath\<close>, \<open>Admission\<close>), \<open>Jwt\<close>,
  the dispatcher's destination policy (\<open>NetworkPolicy\<close>), the gateway, \<open>ResponseBoundary\<close>, and back through the
  client's hooks to the banner (\<open>ApplyMonitor\<close>) and the outcome latches. The theories follow these parts; the
  comments \<open>C1\<close> ... \<open>C40\<close> mark the properties of the manifest, in its order of importance.

  Conventions (\<open>Prelude\<close>, \<open>JsString\<close>, \<open>Json\<close>). A \<open>Map\<close> is an association list with distinct keys in insertion order;
  a JavaScript string is a \<open>string\<close> of code units below 256 where the platform delivers Latin-1, and a list of code
  units or of code points where wider characters matter. Times are integers of milliseconds (counters are \<open>int\<close> or
  \<open>nat\<close>, far below the exactness limit of a double, which \<open>max_safe\<close> names where the code tests it). Errors
  are values of a sum or an option. An \<open>await\<close> is an event: what may happen between two steps of the code is a list
  of events in any order, and properties quantify over such lists. Cryptographic digests, MACs and signatures, URL
  parsing, DNS and file reads, timers and the HTTP library are parameters or events; a property that relies on
  what they promise says so in a hypothesis and has a witness on a concrete instance.

  The BFF.
  \<open>AuthThrottle\<close> (\<open>server/auth-throttle.ts\<close>): both tables of the failed-authentication throttle, eviction, overflow
  and rolling windows; bounded tables, earned exemptions, exact lockouts, nothing erased by a flood.
  \<open>WaitBudget\<close> (\<open>server/waitBudget.ts\<close>): which requests may wait how long, and that the console waits longer than the BFF.
  \<open>Admission\<close> (\<open>server/proxy.ts\<close>): upload and long-read permits as ledgers (locale \<open>permit_ledger\<close>, interpreted on the
  code's counters), the size and deadline guard of a streamed upload; limits, fairness, no leaked permit.
  \<open>UploadDrain\<close> (\<open>server/upload-drain.ts\<close>): draining or closing what a refused request still sends; bounded pools, every
  drain ends.
  \<open>UriCodec\<close>, \<open>ProxyPath\<close> (\<open>server/proxy-path.ts\<close>): percent-decoding, the forwarded path and the namespace route ceiling;
  the path that is classified is the path that is fetched.
  \<open>QueryForm\<close>, \<open>HealthSummary\<close>, \<open>ResponseBoundary\<close>, \<open>ProxyHandler\<close> (\<open>server/proxy.ts\<close>, \<open>server/health-summary.ts\<close>,
  \<open>server/gateway-target.ts\<close>): the proxy route end to end, from its hooks to the reply it builds.
  \<open>NetAddr\<close>, \<open>Config\<close>, \<open>RuntimeConfig\<close> (\<open>server/cidr.ts\<close>, \<open>shared/admin-origin.js\<close>, \<open>server/config.ts\<close>): parsing of every
  setting and what a settings request may change.
  \<open>NetworkPolicy\<close> (\<open>server/tls.ts\<close>): the bytes of an address text against the platform's reading of it, the embedded IPv4
  address, the blocked networks and the guarded DNS lookup.
  \<open>TrustBundle\<close> (\<open>server/ca.ts\<close>): reading a trust bundle in bounded steps from a confined, unchanging file, and what its text may
  hold beside certificates, against an independent reading of the file and the text.
  \<open>Dispatchers\<close> (\<open>server/tls.ts\<close>): the cache in front of the trust bundle, and the connection pools that are kept, replaced
  and retired; every request is given a connection made under its own policy, with the bundle its own configuration names.
  \<open>AuthTypes\<close>, \<open>Base64Url\<close>, \<open>LruCache\<close>, \<open>Auth\<close> (\<open>server/auth.ts\<close>): static sessions, trusted-proxy identities, CSRF tokens,
  login under the throttle; the session table is an interpretation of the bounded cache.
  \<open>Jwt\<close> (\<open>server/jwt.ts\<close>, \<open>shared/admin-jwt.js\<close>): claims, signing and the token cache; a request is split where signing is
  awaited, so any number of them may be between the look-up and the store.
  \<open>Namespaces\<close>, \<open>Registry\<close>, \<open>SharedScan\<close> (\<open>shared/namespace.js\<close>, \<open>server/namespace-registry.ts\<close>): namespace names, the scoped
  registry, and one shared traversal per identical list.
  \<open>Readiness\<close> (\<open>server/routes/health.ts\<close>) and \<open>Shutdown\<close> (\<open>server/shutdown.ts\<close>).

  The console.
  \<open>Pagination\<close> (\<open>api/pagination.ts\<close>): walking a collection; a walk is fuelled by its page budget, which the code has too.
  \<open>ApiClient\<close>, \<open>MutationOutcome\<close>, \<open>ApplyMonitor\<close>, \<open>OutcomeLatches\<close> (\<open>api/client.ts\<close>, \<open>api/gatewayTarget.ts\<close>,
  \<open>api/mutationOutcome.ts\<close>, \<open>api/gatewayMetadata.ts\<close>, \<open>stores/outcomeLatches.ts\<close>): the client's hooks over the state of a page,
  what a failed write says of its outcome, the live-apply banner under every interleaving, and the latches that keep
  an unanswered action from being repeated.
  \<open>ResourceBaseline\<close>, \<open>ConditionalWrite\<close>, \<open>UpstreamWrites\<close>, \<open>MockGateway\<close> (\<open>lib/resourceBaseline.ts\<close>,
  \<open>api/conditionalWrite.ts\<close>, \<open>api/upstreams.ts\<close>, \<open>scripts/mock-admin-gateway.mjs\<close>): edit baselines, guarded full replacements,
  and the repository's own stand-in for the gateway, on which the interface \<open>conditional_store\<close> of the guarded writes is
  interpreted: a guarded save refines an atomic compare-and-swap.
  \<open>PluginMembership\<close> (\<open>lib/pluginMembership.ts\<close>): multi-request plans of plugin saves and deletes as programs over a gateway,
  with their rollbacks.
  \<open>MaskedSecrets\<close>, \<open>PluginSensitivity\<close>, \<open>SecretRedaction\<close> (\<open>api/maskedSecrets.ts\<close>, \<open>api/maskedSecretSites.ts\<close>,
  \<open>api/pluginSensitivity.ts\<close>, \<open>api/secretRedaction.ts\<close>): placeholders of role-projected reads, where a write would put one
  back, and the removal of submitted secrets from an error's text.
  \<open>EffectivePolicy\<close> (\<open>lib/effectivePolicy.ts\<close>, \<open>lib/pluginProtocols.ts\<close>): which plugins run for a proxy and what that
  means for a consumer, against the collection-wide scope merge.
  \<open>Capabilities\<close> (\<open>lib/capabilities.ts\<close>, \<open>stores/capabilities.tsx\<close>): which surfaces are shown as writable, against the
  route matrix of \<open>docs/capabilities.md\<close> and the modelled namespace ceiling.
  \<open>AuthSession\<close> (\<open>stores/auth.tsx\<close>): the tab's session over the page of the HTTP client: boot, checks, sign-in, sign-out
  and late refusals in any order; a ticket orders the evidence, and a hand-over retires everything asked before.
  \<open>McpToolPolicy\<close> (\<open>lib/mcpToolPolicy.ts\<close>): one tool's policy entry in a gateway configuration and the editor's checks of it;
  the edit touches nothing else.
  \<open>JsObject\<close>, \<open>GuidedConfig\<close> (\<open>lib/pluginGuidedConfig.ts\<close>, \<open>lib/pluginSchemas.ts\<close>): field lists under assignment and deletion, and
  the guided view of a plugin configuration over the descriptors of four plugins: what it does not model survives.

  How the proofs are built. Each stateful component has an invariant preserved by every operation and lifted to runs
  (locales for the interfaces: permits, expiring caches, paged collections, conditional stores); each parser or walker has a
  characterisation that the properties use instead of its definition. Fuel occurs where the code itself has a
  budget (pages, attempts, rounds of rollback) or where a loop's bound follows from its argument (decodings of a path);
  the component says which, and a property that something is returned is proved as such.

  Not modelled. React routes, components, hooks and styling, and the forms' widgets: their state is the browser's, and
  what they decide is in the modelled modules they call. The Fastify and undici plumbing (\<open>server/app.ts\<close>,
  \<open>server/index.ts\<close>), streams, sockets and timers beyond the events above. Thin endpoint wrappers that only name a path
  and a type (\<open>api/mesh.ts\<close>, \<open>api/ops.ts\<close>, \<open>api/metrics.ts\<close> and others). Data tables (default plugin
  configurations) beyond the names the code decides on. Scripts for releases, seeding and continuous integration,
  contract fixtures, tests and end-to-end suites. The texts of messages, where no decision depends on them.
\<close>

end
